(* ===== verification/TSC_Prelude.thy ===== *)
theory TSC_Prelude
  imports Main "HOL-Library.Word"
begin

text \<open>
  Shared vocabulary of the development: JavaScript strings as lists of UTF-16 code units,
  generated C text as ASCII strings, the parts of the JavaScript standard library that the
  compiler sources use on them (\<open>charCodeAt\<close>, \<open>startsWith\<close>, \<open>split\<close>, \<open>padStart\<close>,
  \<open>Number.prototype.toString\<close>), insertion-ordered sets, and the interface \<open>prefix_code\<close> of
  every encoder whose output has to be read back unambiguously.
\<close>

section \<open>JavaScript strings\<close>

type_synonym code_unit = "16 word"
type_synonym js_string = "code_unit list"

text \<open>\<open>charCodeAt\<close> returns \<open>NaN\<close> out of range, which no comparison accepts: \<open>None\<close> here.\<close>

definition charCodeAt :: "js_string \<Rightarrow> nat \<Rightarrow> nat option" where
  "charCodeAt s i = (if i < length s then Some (unat (s ! i)) else None)"

definition js :: "string \<Rightarrow> js_string" where
  "js t = map (\<lambda>c. word_of_nat (of_char c)) t"

definition starts_with :: "'a list \<Rightarrow> 'a list \<Rightarrow> bool" where
  "starts_with s p \<longleftrightarrow> take (length p) s = p"

definition ends_with :: "'a list \<Rightarrow> 'a list \<Rightarrow> bool" where
  "ends_with s p \<longleftrightarrow> length p \<le> length s \<and> drop (length s - length p) s = p"

lemma code_unit_bound [simp]: "unat (u :: code_unit) < 65536"
  using unsigned_less [of u] by simp

lemma charCodeAt_Some: "charCodeAt s i = Some c \<longleftrightarrow> i < length s \<and> c = unat (s ! i)"
  by (auto simp: charCodeAt_def)

lemma charCodeAt_drop: "charCodeAt s i = (case drop i s of [] \<Rightarrow> None | u # _ \<Rightarrow> Some (unat u))"
  by (cases "i < length s") (simp_all add: charCodeAt_def Cons_nth_drop_Suc [symmetric])

lemma starts_with_append [simp]: "starts_with (p @ s) p"
  by (simp add: starts_with_def)

lemma starts_with_obtain:
  assumes "starts_with s p"
  obtains r where "s = p @ r"
  using assms by (metis append_take_drop_id starts_with_def)

lemma starts_with_length: "starts_with s p \<Longrightarrow> length p \<le> length s"
  by (metis length_append le_add1 starts_with_obtain)

lemma ends_with_append [simp]: "ends_with (s @ p) p"
  by (simp add: ends_with_def)

lemma ends_with_obtain:
  assumes "ends_with s p"
  obtains r where "s = r @ p"
  using assms by (metis append_take_drop_id ends_with_def)

section \<open>Number printing\<close>

text \<open>\<open>n.toString(radix)\<close> for a non-negative integer, as digits and as characters.\<close>

function nat_digits :: "nat \<Rightarrow> nat \<Rightarrow> nat list" where
  "nat_digits r n = (if n < r \<or> r < 2 then [n] else nat_digits r (n div r) @ [n mod r])"
  by pat_completeness auto
termination
  by (relation "measure snd") auto

declare nat_digits.simps [simp del]

definition digit_char :: "nat \<Rightarrow> char" where
  "digit_char d = (if d < 10 then char_of (48 + d) else char_of (87 + d))"

definition char_digit :: "char \<Rightarrow> nat" where
  "char_digit c = (if (of_char c :: nat) < 58 then of_char c - 48 else of_char c - 87)"

definition to_radix :: "nat \<Rightarrow> nat \<Rightarrow> string" where
  "to_radix r n = map digit_char (nat_digits r n)"

definition pad_start :: "nat \<Rightarrow> char \<Rightarrow> string \<Rightarrow> string" where
  "pad_start k c s = replicate (k - length s) c @ s"

definition digits_value :: "nat \<Rightarrow> nat list \<Rightarrow> nat" where
  "digits_value r ds = foldl (\<lambda>a d. a * r + d) 0 ds"

lemma nat_digits_nonempty [simp]: "nat_digits r n \<noteq> []"
  by (subst nat_digits.simps) simp

lemma digits_value_snoc: "digits_value r (ds @ [d]) = digits_value r ds * r + d"
  by (simp add: digits_value_def)

lemma digits_value_nat_digits: "2 \<le> r \<Longrightarrow> digits_value r (nat_digits r n) = n"
proof (induction r n rule: nat_digits.induct)
  case (1 r n)
  then show ?case
    by (cases "n < r")
      (simp_all add: nat_digits.simps [of r n] digits_value_snoc, simp add: digits_value_def)
qed

lemma nat_digits_less: "2 \<le> r \<Longrightarrow> d \<in> set (nat_digits r n) \<Longrightarrow> d < r"
proof (induction r n rule: nat_digits.induct)
  case (1 r n)
  show ?case
  proof (cases "n < r")
    case True
    with "1.prems" show ?thesis by (simp add: nat_digits.simps [of r n])
  next
    case False
    with "1.prems" "1.IH" show ?thesis by (auto simp: nat_digits.simps [of r n])
  qed
qed

lemma char_digit_digit_char [simp]: "d < 36 \<Longrightarrow> char_digit (digit_char d) = d"
  by (auto simp: char_digit_def digit_char_def of_char_of)

lemma zero_char: "CHR ''0'' = digit_char 0"
  by code_simp

lemma char_of_eq_iff: "b < 256 \<Longrightarrow> char_of b = c \<longleftrightarrow> b = (of_char c :: nat)"
  by (auto simp: of_char_of)

lemma map_char_digit_to_radix:
  "2 \<le> r \<Longrightarrow> r \<le> 36 \<Longrightarrow> map char_digit (to_radix r n) = nat_digits r n"
  by (auto simp: to_radix_def intro!: map_idI dest!: nat_digits_less)

lemma to_radix_inverse:
  "2 \<le> r \<Longrightarrow> r \<le> 36 \<Longrightarrow> digits_value r (map char_digit (to_radix r n)) = n"
  by (simp add: map_char_digit_to_radix digits_value_nat_digits)

lemma length_nat_digits: "2 \<le> r \<Longrightarrow> n < r ^ k \<Longrightarrow> 0 < k \<Longrightarrow> length (nat_digits r n) \<le> k"
proof (induction k arbitrary: n)
  case (Suc k)
  show ?case
  proof (cases "n < r")
    case False
    with Suc.prems have "n div r < r ^ k" and "0 < k"
      by (auto simp: less_mult_imp_div_less mult.commute intro: Suc.prems gr0I)
    with Suc.IH Suc.prems False show ?thesis by (simp add: nat_digits.simps [of r n])
  qed (simp add: nat_digits.simps [of r n])
qed simp

lemma digits_value_replicate_zero: "digits_value r (replicate k 0 @ ds) = digits_value r ds"
  by (induction k) (simp_all add: digits_value_def)

lemma length_pad_start: "length (pad_start k c s) = max k (length s)"
  by (simp add: pad_start_def)

text \<open>A padded number has a fixed width and reads back as the number.\<close>

lemma pad_start_inverse:
  assumes "2 \<le> r" and "r \<le> 36"
  shows "digits_value r (map char_digit (pad_start k (digit_char 0) (to_radix r n))) = n"
  using assms by (simp add: pad_start_def to_radix_inverse digits_value_replicate_zero)

lemma pad_start_width:
  assumes "2 \<le> r" and "n < r ^ k" and "0 < k"
  shows "length (pad_start k c (to_radix r n)) = k"
  using length_nat_digits [OF assms] by (simp add: length_pad_start to_radix_def)

lemma pad_start_digits:
  assumes "2 \<le> r" and "c \<in> set (pad_start k (digit_char 0) (to_radix r n))"
  shows "c \<in> digit_char ` {..<r}"
  using assms by (auto simp: pad_start_def to_radix_def dest: nat_digits_less split: if_splits)

section \<open>Uniquely decodable encoders\<close>

text \<open>
  Several parts of the compiler write structured data into flat text that another program has
  to read back: code units into identifiers, bytes into C literals, code points into bytes.
  The contract is the same each time: a reader for one item that, in front of any further
  output, returns the item and leaves the rest.
\<close>

fun read_n :: "('b list \<Rightarrow> ('a \<times> 'b list) option) \<Rightarrow> nat \<Rightarrow> 'b list \<Rightarrow> ('a list \<times> 'b list) option" where
  "read_n rd 0 s = Some ([], s)"
| "read_n rd (Suc n) s =
     (case rd s of None \<Rightarrow> None
      | Some (a, s') \<Rightarrow> map_option (\<lambda>(as, r). (a # as, r)) (read_n rd n s'))"

text \<open>Reading until the input is used up; every item takes at least one element of it.\<close>

fun read_all :: "('b list \<Rightarrow> ('a \<times> 'b list) option) \<Rightarrow> nat \<Rightarrow> 'b list \<Rightarrow> 'a list option" where
  "read_all rd n [] = Some []"
| "read_all rd 0 (x # s) = None"
| "read_all rd (Suc n) (x # s) =
     (case rd (x # s) of None \<Rightarrow> None
      | Some (a, s') \<Rightarrow> map_option ((#) a) (read_all rd n s'))"

locale prefix_code =
  fixes valid :: "'a \<Rightarrow> bool"
    and enc :: "'a \<Rightarrow> 'b list"
    and rd :: "'b list \<Rightarrow> ('a \<times> 'b list) option"
  assumes rd_enc: "valid a \<Longrightarrow> rd (enc a @ r) = Some (a, r)"
    and enc_nonempty: "valid a \<Longrightarrow> enc a \<noteq> []"
begin

lemma read_n_enc:
  "list_all valid as \<Longrightarrow> read_n rd (length as) (concat (map enc as) @ r) = Some (as, r)"
  by (induction as) (simp_all add: rd_enc)

lemma length_concat_enc: "list_all valid as \<Longrightarrow> length as \<le> length (concat (map enc as))"
  by (induction as) (auto simp: Suc_le_eq dest!: enc_nonempty intro: add_strict_increasing)

lemma read_all_enc:
  "list_all valid as \<Longrightarrow> length as \<le> n \<Longrightarrow> read_all rd n (concat (map enc as)) = Some as"
proof (induction as arbitrary: n)
  case (Cons a as)
  then obtain x xs m where e: "enc a = x # xs" and n: "n = Suc m"
    by (cases "enc a"; cases n) (auto dest: enc_nonempty)
  with Cons rd_enc [of a "concat (map enc as)"] show ?case by simp
qed simp

lemma decode_concat_enc:
  "list_all valid as \<Longrightarrow>
   read_all rd (length (concat (map enc as))) (concat (map enc as)) = Some as"
  by (simp add: read_all_enc length_concat_enc)

lemma concat_enc_inject:
  "list_all valid as \<Longrightarrow> list_all valid bs \<Longrightarrow>
   concat (map enc as) = concat (map enc bs) \<Longrightarrow> as = bs"
proof (induction as arbitrary: bs)
  case Nil
  then show ?case by (cases bs) (auto dest: enc_nonempty)
next
  case (Cons a as)
  then obtain b bs' where bs: "bs = b # bs'"
    by (cases bs) (auto dest: enc_nonempty)
  have "Some (a, concat (map enc as)) = Some (b, concat (map enc bs'))"
  proof -
    have "rd (enc a @ concat (map enc as)) = Some (a, concat (map enc as))"
      using Cons.prems(1) by (intro rd_enc) simp
    moreover have "rd (enc b @ concat (map enc bs')) = Some (b, concat (map enc bs'))"
      using Cons.prems(2) bs by (intro rd_enc) simp
    moreover have "enc a @ concat (map enc as) = enc b @ concat (map enc bs')"
      using Cons.prems(3) unfolding bs by simp
    ultimately show ?thesis by metis
  qed
  then have ab: "a = b" and eq: "concat (map enc as) = concat (map enc bs')"
    by simp_all
  have "as = bs'"
    using Cons.prems bs by (intro Cons.IH eq) simp_all
  with ab bs show ?case by simp
qed

lemma enc_inject: "valid a \<Longrightarrow> valid b \<Longrightarrow> enc a = enc b \<Longrightarrow> a = b"
  using concat_enc_inject [of "[a]" "[b]"] by auto

end

section \<open>Insertion-ordered sets\<close>

text \<open>A JavaScript \<open>Set\<close> spread into an array: first occurrences, in insertion order.\<close>

fun set_add_all :: "'a list \<Rightarrow> 'a list \<Rightarrow> 'a list" where
  "set_add_all seen [] = seen"
| "set_add_all seen (x # xs) = set_add_all (if x \<in> set seen then seen else seen @ [x]) xs"

lemma set_add_all_set [simp]: "set (set_add_all seen xs) = set seen \<union> set xs"
  by (induction xs arbitrary: seen) auto

lemma set_add_all_distinct: "distinct seen \<Longrightarrow> distinct (set_add_all seen xs)"
  by (induction xs arbitrary: seen) auto

lemma find_append: "find P (xs @ ys) = (case find P xs of None \<Rightarrow> find P ys | Some x \<Rightarrow> Some x)"
  by (induction xs) auto

section \<open>Worklist loops\<close>

text \<open>
  The contract of a loop that takes items off a worklist, skips the ones whose key it has seen, and
  otherwise visits the item (which may fail) and pushes its successors. Fuel bounds the turns; on a
  finite item set every such loop returns and has visited exactly the items reachable from the
  initial worklist, each once.
\<close>

definition reach_from :: "('a \<Rightarrow> 'a list) \<Rightarrow> 'a set \<Rightarrow> 'a set" where
  "reach_from succs R = {(x, y). y \<in> set (succs x)}\<^sup>* `` R"

lemma reach_from_start: "R \<subseteq> reach_from succs R"
  by (auto simp: reach_from_def)

lemma reach_from_step: "x \<in> reach_from succs R \<Longrightarrow> y \<in> set (succs x) \<Longrightarrow> y \<in> reach_from succs R"
  unfolding reach_from_def by (auto intro: rtrancl.rtrancl_into_rtrancl)

lemma reach_from_least:
  assumes "R \<subseteq> C" "\<And>x y. x \<in> C \<Longrightarrow> y \<in> set (succs x) \<Longrightarrow> y \<in> C"
  shows "reach_from succs R \<subseteq> C"
proof
  fix y
  assume "y \<in> reach_from succs R"
  then obtain x where "(x, y) \<in> {(x, y). y \<in> set (succs x)}\<^sup>*" "x \<in> R" by (auto simp: reach_from_def)
  then show "y \<in> C" by (induction rule: rtrancl_induct) (use assms in auto)
qed

lemma reach_from_mono: "R \<subseteq> reach_from succs R' \<Longrightarrow> reach_from succs R \<subseteq> reach_from succs R'"
  by (rule reach_from_least) (auto intro: reach_from_step)

lemma reach_from_unfold:
  "reach_from succs {n} = insert n (\<Union>c\<in>set (succs n). reach_from succs {c})"
proof
  show "reach_from succs {n} \<subseteq> insert n (\<Union>c\<in>set (succs n). reach_from succs {c})"
  proof (rule reach_from_least)
    fix x y
    assume "x \<in> insert n (\<Union>c\<in>set (succs n). reach_from succs {c})" "y \<in> set (succs x)"
    then show "y \<in> insert n (\<Union>c\<in>set (succs n). reach_from succs {c})"
      using reach_from_start [of "{y}" succs] reach_from_step [of x succs _ y] by auto
  qed simp
  have "reach_from succs {c} \<subseteq> reach_from succs {n}" if "c \<in> set (succs n)" for c
    using that reach_from_start [of "{n}" succs] by (intro reach_from_mono) (auto intro: reach_from_step)
  then show "insert n (\<Union>c\<in>set (succs n). reach_from succs {c}) \<subseteq> reach_from succs {n}"
    using reach_from_start [of "{n}" succs] by blast
qed

lemma all_ge_Suc: "(\<forall>n\<ge>Suc N. P n) \<longleftrightarrow> (\<forall>n\<ge>N. P (Suc n))"
  by (metis Suc_le_D Suc_le_mono)

locale worklist_loop =
  fixes run :: "nat \<Rightarrow> 'a list \<Rightarrow> 'k list \<Rightarrow> 's \<Rightarrow> ('e + 's) option"
    and key :: "'a \<Rightarrow> 'k"
    and succs :: "'a \<Rightarrow> 'a list"
    and push :: "'a \<Rightarrow> 'a list \<Rightarrow> 'a list"
    and visit :: "'a \<Rightarrow> 's \<Rightarrow> 'e + 's"
  assumes set_push: "set (push x w) = set (succs x) \<union> set w"
    and run_nil: "run n [] V s = Some (Inr s)"
    and run_seen: "key x \<in> set V \<Longrightarrow> run (Suc n) (x # w) V s = run n w V s"
    and run_visit: "key x \<notin> set V \<Longrightarrow> visit x s = Inr s' \<Longrightarrow>
          run (Suc n) (x # w) V s = run n (push x w) (V @ [key x]) s'"
    and run_fail: "key x \<notin> set V \<Longrightarrow> visit x s = Inl e \<Longrightarrow> run (Suc n) (x # w) V s = Some (Inl e)"
begin

definition visit_all :: "'a list \<Rightarrow> 's \<Rightarrow> 's" where
  "visit_all xs s = fold (\<lambda>x s. projr (visit x s)) xs s"

lemma run_total:
  assumes "finite M" "\<And>x. x \<in> M \<Longrightarrow> set (succs x) \<subseteq> M" "\<And>x s. x \<in> M \<Longrightarrow> \<exists>s'. visit x s = Inr s'"
    and "set w \<subseteq> M"
  shows "\<exists>N xs. (\<forall>n\<ge>N. run n w V s = Some (Inr (visit_all xs s))) \<and>
           distinct (map key xs) \<and> key ` set xs \<inter> set V = {} \<and> set xs \<subseteq> reach_from succs (set w) \<and>
           (\<forall>y \<in> set w \<union> (\<Union>x\<in>set xs. set (succs x)). key y \<in> set V \<union> key ` set xs)"
  using assms(4)
proof (induction "(card (key ` M - set V), length w)" arbitrary: w V s
    rule: wf_induct_rule [OF wf_lex_prod [OF wf_less_than wf_less_than]])
  case 1
  show ?case
  proof (cases w)
    case Nil
    then show ?thesis by (intro exI [of _ 0] exI [of _ "[]"]) (simp add: run_nil visit_all_def)
  next
    case w: (Cons x w')
    show ?thesis
    proof (cases "key x \<in> set V")
      case True
      obtain N xs where IH: "\<forall>n\<ge>N. run n w' V s = Some (Inr (visit_all xs s))"
          "distinct (map key xs)" "key ` set xs \<inter> set V = {}" "set xs \<subseteq> reach_from succs (set w')"
          "\<forall>y \<in> set w' \<union> (\<Union>x\<in>set xs. set (succs x)). key y \<in> set V \<union> key ` set xs"
        using 1(1) [of V w' s] 1(2) w by auto
      have "\<forall>n\<ge>Suc N. run n w V s = Some (Inr (visit_all xs s))"
        using IH(1) run_seen [OF True] unfolding w all_ge_Suc by simp
      moreover have "reach_from succs (set w') \<subseteq> reach_from succs (set w)"
        using w reach_from_start by (intro reach_from_mono) fastforce
      ultimately show ?thesis using IH True w by (intro exI [of _ "Suc N"] exI [of _ xs]) auto
    next
      case False
      have xM: "x \<in> M" using 1(2) w by simp
      then obtain s' where s': "visit x s = Inr s'" using assms(3) by blast
      have "card (key ` M - set (V @ [key x])) < card (key ` M - set V)"
        using False xM assms(1) by (intro psubset_card_mono) auto
      moreover have "set (push x w') \<subseteq> M" using assms(2) [OF xM] 1(2) w by (simp add: set_push)
      ultimately obtain N xs where IH: "\<forall>n\<ge>N. run n (push x w') (V @ [key x]) s' = Some (Inr (visit_all xs s'))"
          "distinct (map key xs)" "key ` set xs \<inter> set (V @ [key x]) = {}" "set xs \<subseteq> reach_from succs (set (push x w'))"
          "\<forall>y \<in> set (push x w') \<union> (\<Union>x\<in>set xs. set (succs x)). key y \<in> set (V @ [key x]) \<union> key ` set xs"
        using 1(1) [of "V @ [key x]" "push x w'" s'] by auto
      have "\<forall>n\<ge>Suc N. run n w V s = Some (Inr (visit_all (x # xs) s))"
        using IH(1) run_visit [OF False s'] s' unfolding w all_ge_Suc by (simp add: visit_all_def)
      moreover have "reach_from succs (set (push x w')) \<subseteq> reach_from succs (set w)"
        using reach_from_start [of "set w" succs] reach_from_step [of x succs "set w"] w
        by (intro reach_from_mono) (auto simp: set_push)
      ultimately show ?thesis
        using IH False w reach_from_start [of "set w" succs]
        by (intro exI [of _ "Suc N"] exI [of _ "x # xs"]) (auto simp: set_push)
    qed
  qed
qed

lemma run_visits_reachable:
  assumes "finite M" "\<And>x. x \<in> M \<Longrightarrow> set (succs x) \<subseteq> M" "\<And>x s. x \<in> M \<Longrightarrow> \<exists>s'. visit x s = Inr s'"
    and "set w \<subseteq> M" "inj_on key M"
  shows "\<exists>N xs. (\<forall>n\<ge>N. run n w [] s = Some (Inr (visit_all xs s))) \<and>
           distinct xs \<and> set xs = reach_from succs (set w)"
proof -
  obtain N xs where r: "\<forall>n\<ge>N. run n w [] s = Some (Inr (visit_all xs s))" "distinct (map key xs)"
      "set xs \<subseteq> reach_from succs (set w)"
      "\<forall>y \<in> set w \<union> (\<Union>x\<in>set xs. set (succs x)). key y \<in> key ` set xs"
    using run_total [OF assms(1-4), of "[]" s] by auto
  have M: "reach_from succs (set w) \<subseteq> M" by (rule reach_from_least) (use assms(2,4) in blast)+
  have mem: "y \<in> set xs" if "y \<in> M" "key y \<in> key ` set xs" for y
    using that r(3) M assms(5) by (auto simp: inj_on_def)
  have "reach_from succs (set w) \<subseteq> set xs"
  proof (rule reach_from_least)
    show "set w \<subseteq> set xs" using mem r(4) assms(4) by blast
    show "y \<in> set xs" if "x \<in> set xs" "y \<in> set (succs x)" for x y
      using that mem r(3,4) M assms(2) by blast
  qed
  then show ?thesis using r(1-3) by (auto simp: distinct_map)
qed

end

end
