(* ===== verification/CBuf.thy ===== *)
theory CBuf
  imports TSC_Prelude
begin

text \<open>
  The C source buffer of \<open>src/src/emit/cbuf.ts\<close>: the class \<open>CBuf\<close> with its indentation, the
  WTF-8 encoder of JavaScript strings and the escaper that writes their bytes into a C string
  literal. The buffer is shown to print exactly the block structure it was driven with, the
  encoder to lose no code unit, and the escaped text to be read by a C compiler as the bytes.
\<close>

unbundle bit_operations_syntax

section \<open>The buffer\<close>

record cbuf =
  parts :: "string list"
  indent :: int

text \<open>\<open>"    ".repeat(n)\<close> throws a \<open>RangeError\<close> for a negative count.\<close>

datatype js_error = RangeError

definition cbuf_new :: cbuf where
  "cbuf_new = \<lparr>parts = [], indent = 0\<rparr>"

definition newline :: string where
  "newline = [CHR 0x0A]"

definition repeat_indent :: "int \<Rightarrow> js_error + string" where
  "repeat_indent n = (if n < 0 then Inl RangeError else Inr (concat (replicate (nat n) ''    '')))"

definition cbuf_write :: "string \<Rightarrow> cbuf \<Rightarrow> cbuf" where
  "cbuf_write s b = b\<lparr>parts := parts b @ [s]\<rparr>"

definition cbuf_line :: "string \<Rightarrow> cbuf \<Rightarrow> js_error + cbuf" where
  "cbuf_line s b =
     (if length s = 0 then Inr (b\<lparr>parts := parts b @ [newline]\<rparr>)
      else case repeat_indent (indent b) of
             Inl e \<Rightarrow> Inl e
           | Inr p \<Rightarrow> Inr (b\<lparr>parts := parts b @ [p @ s @ newline]\<rparr>))"

definition cbuf_line_raw :: "string \<Rightarrow> cbuf \<Rightarrow> cbuf" where
  "cbuf_line_raw s b = b\<lparr>parts := parts b @ [s @ newline]\<rparr>"

definition cbuf_open :: "string \<Rightarrow> cbuf \<Rightarrow> js_error + cbuf" where
  "cbuf_open header b =
     (case cbuf_line (header @ '' {'') b of
        Inl e \<Rightarrow> Inl e
      | Inr b' \<Rightarrow> Inr (b'\<lparr>indent := indent b' + 1\<rparr>))"

definition cbuf_close :: "string \<Rightarrow> cbuf \<Rightarrow> js_error + cbuf" where
  "cbuf_close suffix b = cbuf_line (''}'' @ suffix) (b\<lparr>indent := indent b - 1\<rparr>)"

definition cbuf_to_string :: "cbuf \<Rightarrow> string" where
  "cbuf_to_string b = concat (parts b)"

section \<open>WTF-8\<close>

definition is_high :: "nat \<Rightarrow> bool" where
  "is_high u \<longleftrightarrow> 0xd800 \<le> u \<and> u \<le> 0xdbff"

definition is_low :: "nat \<Rightarrow> bool" where
  "is_low u \<longleftrightarrow> 0xdc00 \<le> u \<and> u \<le> 0xdfff"

text \<open>The bytes pushed for one code point (the \<open>if\<close> chain of \<open>encodeWtf8\<close>).\<close>

definition code_point_bytes :: "nat \<Rightarrow> nat list" where
  "code_point_bytes cp =
     (if cp \<le> 0x7f then [cp]
      else if cp \<le> 0x7ff then [0xc0 OR drop_bit 6 cp, 0x80 OR (cp AND 0x3f)]
      else if cp \<le> 0xffff then
        [0xe0 OR drop_bit 12 cp, 0x80 OR (drop_bit 6 cp AND 0x3f), 0x80 OR (cp AND 0x3f)]
      else
        [0xf0 OR drop_bit 18 cp, 0x80 OR (drop_bit 12 cp AND 0x3f),
         0x80 OR (drop_bit 6 cp AND 0x3f), 0x80 OR (cp AND 0x3f)])"

text \<open>The loop over the string: a high unit followed by a low one is consumed as a pair.\<close>

fun encodeWtf8 :: "js_string \<Rightarrow> nat list" where
  "encodeWtf8 [] = []"
| "encodeWtf8 [u] = code_point_bytes (unat u)"
| "encodeWtf8 (u # v # s) =
     (if is_high (unat u) \<and> is_low (unat v)
      then code_point_bytes (0x10000 + push_bit 10 (unat u - 0xd800) + (unat v - 0xdc00)) @ encodeWtf8 s
      else code_point_bytes (unat u) @ encodeWtf8 (v # s))"

definition utf8ByteLen :: "js_string \<Rightarrow> nat" where
  "utf8ByteLen s = length (encodeWtf8 s)"

section \<open>C string literals\<close>

definition escapeCByte :: "nat \<Rightarrow> string" where
  "escapeCByte b = [CHR 0x5C] @ pad_start 3 (CHR ''0'') (to_radix 8 b)"

definition escape_byte :: "nat \<Rightarrow> string" where
  "escape_byte byte =
     (if byte = 0x5c then [CHR 0x5C, CHR 0x5C]
      else if byte = 0x22 then [CHR 0x5C, CHR 0x22]
      else if byte = 0x3f then [CHR 0x5C, CHR 0x3F]
      else if byte = 0x0a then [CHR 0x5C, CHR ''n'']
      else if byte = 0x0d then [CHR 0x5C, CHR ''r'']
      else if byte = 0x09 then [CHR 0x5C, CHR ''t'']
      else if byte = 0x00 then [CHR 0x5C, CHR ''0'', CHR ''0'', CHR ''0'']
      else if 0x20 \<le> byte \<and> byte < 0x7f then [char_of byte]
      else escapeCByte byte)"

definition escapeCString :: "js_string \<Rightarrow> string" where
  "escapeCString s = concat (map escape_byte (encodeWtf8 s))"


section \<open>The buffer prints the block structure\<close>

text \<open>
  The emitter drives the buffer with nested \<open>open\<close>/\<open>close\<close> pairs around lines. \<open>emit_block\<close> is
  such a run and \<open>block_text\<close> the text it stands for.
\<close>

datatype cblock = Line string | Raw string | Braces string "cblock list" string

fun emit_block :: "cblock \<Rightarrow> cbuf \<Rightarrow> js_error + cbuf"
and emit_blocks :: "cblock list \<Rightarrow> cbuf \<Rightarrow> js_error + cbuf" where
  "emit_block (Line s) b = cbuf_line s b"
| "emit_block (Raw s) b = Inr (cbuf_line_raw s b)"
| "emit_block (Braces h cs t) b =
     (case cbuf_open h b of Inl e \<Rightarrow> Inl e
      | Inr b1 \<Rightarrow> (case emit_blocks cs b1 of Inl e \<Rightarrow> Inl e | Inr b2 \<Rightarrow> cbuf_close t b2))"
| "emit_blocks [] b = Inr b"
| "emit_blocks (c # cs) b = (case emit_block c b of Inl e \<Rightarrow> Inl e | Inr b' \<Rightarrow> emit_blocks cs b')"

definition line_text :: "nat \<Rightarrow> string \<Rightarrow> string" where
  "line_text d s = (if s = [] then newline else concat (replicate d ''    '') @ s @ newline)"

fun block_text :: "nat \<Rightarrow> cblock \<Rightarrow> string"
and blocks_text :: "nat \<Rightarrow> cblock list \<Rightarrow> string" where
  "block_text d (Line s) = line_text d s"
| "block_text d (Raw s) = s @ newline"
| "block_text d (Braces h cs t) =
     line_text d (h @ '' {'') @ blocks_text (Suc d) cs @ line_text d (''}'' @ t)"
| "blocks_text d [] = []"
| "blocks_text d (c # cs) = block_text d c @ blocks_text d cs"

lemma cbuf_line_ok:
  "indent b = int d \<Longrightarrow>
   \<exists>b'. cbuf_line s b = Inr b' \<and> indent b' = int d \<and>
        cbuf_to_string b' = cbuf_to_string b @ line_text d s"
  by (auto simp: cbuf_line_def repeat_indent_def line_text_def cbuf_to_string_def)

lemma emit_block_text:
  "indent b = int d \<Longrightarrow>
   \<exists>b'. emit_block c b = Inr b' \<and> indent b' = int d \<and>
        cbuf_to_string b' = cbuf_to_string b @ block_text d c"
  "indent b = int d \<Longrightarrow>
   \<exists>b'. emit_blocks cs b = Inr b' \<and> indent b' = int d \<and>
        cbuf_to_string b' = cbuf_to_string b @ blocks_text d cs"
proof (induction c b and cs b arbitrary: d and d rule: emit_block_emit_blocks.induct)
  case (1 s b)
  then show ?case using cbuf_line_ok by simp
next
  case (2 s b)
  then show ?case by (simp add: cbuf_line_raw_def cbuf_to_string_def)
next
  case (3 h cs t b)
  obtain b0 where b0: "cbuf_line (h @ '' {'') b = Inr b0" "indent b0 = int d"
    "cbuf_to_string b0 = cbuf_to_string b @ line_text d (h @ '' {'')"
    using cbuf_line_ok "3.prems" by blast
  let ?b1 = "b0\<lparr>indent := indent b0 + 1\<rparr>"
  have open_eq: "cbuf_open h b = Inr ?b1"
    by (simp add: cbuf_open_def b0(1))
  have "indent ?b1 = int (Suc d)" by (simp add: b0(2))
  from "3.IH" [OF open_eq this] obtain b2 where
    b2: "emit_blocks cs ?b1 = Inr b2" "indent b2 = int (Suc d)"
    "cbuf_to_string b2 = cbuf_to_string ?b1 @ blocks_text (Suc d) cs"
    by blast
  have "indent (b2\<lparr>indent := indent b2 - 1\<rparr>) = int d" by (simp add: b2(2))
  from cbuf_line_ok [OF this, of "''}'' @ t"] b0 b2 open_eq show ?case
    by (simp add: cbuf_close_def cbuf_to_string_def)
next
  case (4 b)
  then show ?case by simp
next
  case (5 c cs b)
  obtain b1 where b1: "emit_block c b = Inr b1" "indent b1 = int d"
    "cbuf_to_string b1 = cbuf_to_string b @ block_text d c"
    using "5.IH"(1) [OF "5.prems"] by blast
  with "5.IH"(2) [OF b1(1) b1(2)] show ?case by auto
qed

section \<open>WTF-8 loses no code unit\<close>

lemma push_or_eq_add: "x < 2 ^ k \<Longrightarrow> push_bit k y OR x = y * 2 ^ k + (x :: nat)"
proof -
  assume x: "x < 2 ^ k"
  have "push_bit k y AND x = 0"
  proof (rule bit_eqI)
    fix n
    have "k \<le> n \<Longrightarrow> \<not> bit x n"
      using x by (metis bit_take_bit_iff not_le take_bit_nat_eq_self)
    then show "bit (push_bit k y AND x) n = bit 0 n"
      by (auto simp: bit_simps)
  qed
  then show ?thesis
    by (metis disjunctive_add_eq_or push_bit_eq_mult)
qed

lemma and_3f: "(x :: nat) AND 0x3f = x mod 64"
  using take_bit_eq_mask [of 6 x] by (simp add: take_bit_eq_mod mask_eq_exp_minus_1)

lemma wtf8_or:
  "x < 64 \<Longrightarrow> 0x80 OR x = 0x80 + (x :: nat)"
  "x < 32 \<Longrightarrow> 0xc0 OR x = 0xc0 + (x :: nat)"
  "x < 16 \<Longrightarrow> 0xe0 OR x = 0xe0 + (x :: nat)"
  "x < 8 \<Longrightarrow> 0xf0 OR x = 0xf0 + (x :: nat)"
  using push_or_eq_add [of x 6 2] push_or_eq_add [of x 5 6] push_or_eq_add [of x 4 14]
    push_or_eq_add [of x 3 30]
  by (simp_all add: push_bit_eq_mult)

lemma code_point_bytes_arith:
  assumes "cp < 0x110000"
  shows "code_point_bytes cp =
     (if cp < 0x80 then [cp]
      else if cp < 0x800 then [0xc0 + cp div 64, 0x80 + cp mod 64]
      else if cp < 0x10000 then
        [0xe0 + cp div 4096, 0x80 + cp div 64 mod 64, 0x80 + cp mod 64]
      else
        [0xf0 + cp div 262144, 0x80 + cp div 4096 mod 64, 0x80 + cp div 64 mod 64,
         0x80 + cp mod 64])"
  using assms
  by (auto simp: code_point_bytes_def and_3f drop_bit_eq_div wtf8_or less_mult_imp_div_less)

text \<open>The code points of a string: surrogate pairs combined, isolated surrogates kept.\<close>

fun code_points :: "js_string \<Rightarrow> nat list" where
  "code_points [] = []"
| "code_points [u] = [unat u]"
| "code_points (u # v # s) =
     (if is_high (unat u) \<and> is_low (unat v)
      then (0x10000 + (unat u - 0xd800) * 1024 + (unat v - 0xdc00)) # code_points s
      else unat u # code_points (v # s))"

definition code_point_units :: "nat \<Rightarrow> js_string" where
  "code_point_units cp =
     (if cp < 0x10000 then [word_of_nat cp]
      else [word_of_nat (0xd800 + (cp - 0x10000) div 1024),
            word_of_nat (0xdc00 + (cp - 0x10000) mod 1024)])"

fun read_wtf8 :: "nat list \<Rightarrow> (nat \<times> nat list) option" where
  "read_wtf8 [] = None"
| "read_wtf8 (a # r) =
     (if a < 0x80 then Some (a, r)
      else if a < 0xc0 then None
      else if a < 0xe0 then
        (case r of b # t \<Rightarrow> Some ((a - 0xc0) * 64 + (b - 0x80), t) | _ \<Rightarrow> None)
      else if a < 0xf0 then
        (case r of b # c # t \<Rightarrow> Some ((a - 0xe0) * 4096 + (b - 0x80) * 64 + (c - 0x80), t)
         | _ \<Rightarrow> None)
      else
        (case r of b # c # d # t \<Rightarrow>
           Some ((a - 0xf0) * 262144 + (b - 0x80) * 4096 + (c - 0x80) * 64 + (d - 0x80), t)
         | _ \<Rightarrow> None))"

definition decodeWtf8 :: "nat list \<Rightarrow> js_string option" where
  "decodeWtf8 bs = map_option (\<lambda>cps. concat (map code_point_units cps)) (read_all read_wtf8 (length bs) bs)"

interpretation wtf8: prefix_code "\<lambda>cp. cp < 0x110000" code_point_bytes read_wtf8
proof
  fix cp :: nat and r
  assume cp: "cp < 0x110000"
  have d: "cp div 262144 < 8" "cp div 4096 < 272" "cp div 64 < 17408"
    using cp by (simp_all add: less_mult_imp_div_less)
  define q where "q = cp div 64"
  define p where "p = q div 64"
  have div_eq: "cp div 4096 = p" "cp div 262144 = p div 64"
    by (simp_all add: p_def q_def flip: div_mult2_eq)
  have "q * 64 + cp mod 64 = cp" "p * 64 + q mod 64 = q" "p div 64 * 64 + p mod 64 = p"
    by (simp_all add: q_def p_def)
  then have e: "q * 64 + cp mod 64 = cp" "p * 4096 + q mod 64 * 64 + cp mod 64 = cp"
    "p div 64 * 262144 + p mod 64 * 4096 + q mod 64 * 64 + cp mod 64 = cp"
    by linarith+
  show "read_wtf8 (code_point_bytes cp @ r) = Some (cp, r)"
    unfolding code_point_bytes_arith [OF cp] using d e
    by (auto simp: div_eq simp flip: q_def)
qed (simp add: code_point_bytes_def)

lemma encodeWtf8_code_points: "encodeWtf8 s = concat (map code_point_bytes (code_points s))"
  by (induction s rule: encodeWtf8.induct) (simp_all add: push_bit_eq_mult)

lemma code_unit_scalar [simp]: "unat (u :: code_unit) < 0x110000"
  by (rule less_trans [OF code_unit_bound]) simp

lemma code_points_valid: "list_all (\<lambda>cp. cp < 0x110000) (code_points s)"
proof (induction s rule: code_points.induct)
  case (3 u v s)
  then show ?case
    by (auto simp: is_high_def is_low_def)
qed simp_all

lemma word_of_nat_unat [simp]: "word_of_nat (unat u) = (u :: code_unit)"
  by simp

lemma pair_units:
  assumes "is_high (unat u)" and "is_low (unat v)"
  shows "code_point_units (0x10000 + (unat u - 0xd800) * 1024 + (unat v - 0xdc00)) = [u, v]"
proof -
  have "unat v - 0xdc00 < 1024"
    using assms by (auto simp: is_low_def)
  then have "((unat u - 0xd800) * 1024 + (unat v - 0xdc00)) div 1024 = unat u - 0xd800"
    and "((unat u - 0xd800) * 1024 + (unat v - 0xdc00)) mod 1024 = unat v - 0xdc00"
    by simp_all
  moreover have "0xd800 + (unat u - 0xd800) = unat u" "0xdc00 + (unat v - 0xdc00) = unat v"
    using assms by (auto simp: is_high_def is_low_def)
  ultimately show ?thesis
    by (simp add: code_point_units_def)
qed

lemma code_points_units: "concat (map code_point_units (code_points s)) = s"
proof (induction s rule: code_points.induct)
  case (2 u)
  show ?case using code_unit_bound [of u] by (simp add: code_point_units_def)
next
  case (3 u v s)
  have single: "code_point_units (unat u) = [u]"
    using code_unit_bound [of u] by (simp add: code_point_units_def)
  show ?case
  proof (cases "is_high (unat u) \<and> is_low (unat v)")
    case True
    with "3.IH"(1) show ?thesis by (simp add: pair_units)
  next
    case False
    with "3.IH"(2) single show ?thesis by auto
  qed
qed simp

lemma code_point_bytes_range: "cp < 0x110000 \<Longrightarrow> b \<in> set (code_point_bytes cp) \<Longrightarrow> b < 256"
  by (auto simp: code_point_bytes_arith less_mult_imp_div_less split: if_splits)

lemma encodeWtf8_range: "list_all (\<lambda>b. b < 256) (encodeWtf8 s)"
  using code_points_valid [of s]
  by (auto simp: encodeWtf8_code_points list_all_iff dest: code_point_bytes_range)

section \<open>A C compiler reads the escaped text as the bytes\<close>

definition is_octal :: "char \<Rightarrow> bool" where
  "is_octal c \<longleftrightarrow> c \<in> set ''01234567''"

text \<open>
  One element of a C string literal (C11 6.4.5 and 6.4.4.4): an ordinary character, a simple
  escape, or an octal escape of one to three digits.
\<close>

fun read_c_char :: "string \<Rightarrow> (nat \<times> string) option" where
  "read_c_char [] = None"
| "read_c_char (c # s) =
     (if c = CHR 0x22 \<or> c = CHR 0x0A then None
      else if c \<noteq> CHR 0x5C then Some (of_char c, s)
      else case s of
             [] \<Rightarrow> None
           | e # t \<Rightarrow>
               if e = CHR 0x5C \<or> e = CHR 0x22 \<or> e = CHR 0x3F then Some (of_char e, t)
               else if e = CHR ''n'' then Some (10, t)
               else if e = CHR ''r'' then Some (13, t)
               else if e = CHR ''t'' then Some (9, t)
               else if is_octal e then
                 (let ds = takeWhile is_octal (take 3 s)
                  in Some (digits_value 8 (map char_digit ds), drop (length ds) s))
               else None)"

fun read_c_literal :: "nat \<Rightarrow> string \<Rightarrow> (nat list \<times> string) option" where
  "read_c_literal 0 s = None"
| "read_c_literal (Suc n) s =
     (case s of [] \<Rightarrow> None
      | c # t \<Rightarrow>
          if c = CHR 0x22 then Some ([], t)
          else case read_c_char s of None \<Rightarrow> None
               | Some (b, r) \<Rightarrow> map_option (\<lambda>(bs, r'). (b # bs, r')) (read_c_literal n r))"

lemma is_octal_digit_char: "is_octal c \<longleftrightarrow> c \<in> digit_char ` {..<8}"
proof -
  have "digit_char ` {..<8} = set (map digit_char [0..<8])" by auto
  also have "map digit_char [0..<8] = ''01234567''" by code_simp
  finally show ?thesis by (simp add: is_octal_def)
qed

lemma read_octal:
  assumes "length ds = 3" and "list_all is_octal ds"
  shows "read_c_char (CHR 0x5C # ds @ r) = Some (digits_value 8 (map char_digit ds), r)"
proof -
  obtain a b c where ds: "ds = [a, b, c]"
    using assms(1) by (auto simp: numeral_3_eq_3 length_Suc_conv)
  moreover have "a \<noteq> CHR 0x5C \<and> a \<noteq> CHR 0x22 \<and> a \<noteq> CHR 0x3F \<and> a \<noteq> CHR ''n'' \<and> a \<noteq> CHR ''r'' \<and> a \<noteq> CHR ''t''"
    using assms(2) ds by (auto simp: is_octal_def)
  ultimately show ?thesis
    using assms(2) by (simp add: numeral_3_eq_3)
qed

lemma escapeCByte_read: "b < 256 \<Longrightarrow> read_c_char (escapeCByte b @ r) = Some (b, r)"
proof -
  assume b: "b < 256"
  let ?ds = "pad_start 3 (CHR ''0'') (to_radix 8 b)"
  have "length ?ds = 3"
    using b by (intro pad_start_width) simp_all
  moreover have "list_all is_octal ?ds"
    unfolding zero_char by (auto simp: list_all_iff is_octal_digit_char intro: pad_start_digits [of 8])
  ultimately show ?thesis
    using read_octal [of ?ds r] pad_start_inverse [of 8 3 b]
    by (simp add: escapeCByte_def zero_char)
qed

lemma escape_byte_read: "b < 256 \<Longrightarrow> read_c_char (escape_byte b @ r) = Some (b, r)"
  unfolding escape_byte_def
  by (auto simp: escapeCByte_read char_of_eq_iff of_char_of is_octal_def numeral_3_eq_3
      digits_value_def char_digit_def simp del: char_of_nat)

interpretation c_literal: prefix_code "\<lambda>b. b < 256" escape_byte read_c_char
proof
  fix b r
  assume "b < (256 :: nat)"
  then show "read_c_char (escape_byte b @ r) = Some (b, r)" by (rule escape_byte_read)
next
  fix b :: nat
  show "escape_byte b \<noteq> []" by (simp add: escape_byte_def escapeCByte_def)
qed

lemma escape_byte_head:
  assumes "b < 256"
  obtains c t where "escape_byte b = c # t" and "c \<noteq> CHR 0x22" and "c \<noteq> CHR 0x3F"
proof -
  have "char_of b = c \<longleftrightarrow> b = of_char c" for c
    using assms by (rule char_of_eq_iff)
  then have "escape_byte b \<noteq> []" "hd (escape_byte b) \<noteq> CHR 0x22" "hd (escape_byte b) \<noteq> CHR 0x3F"
    by (simp_all add: escape_byte_def escapeCByte_def del: char_of_nat)
  then show thesis
    by (cases "escape_byte b") (auto intro: that)
qed

lemma read_c_literal_escaped:
  "list_all (\<lambda>b. b < 256) bs \<Longrightarrow> length bs < n \<Longrightarrow>
   read_c_literal n (concat (map escape_byte bs) @ CHR 0x22 # rest) = Some (bs, rest)"
proof (induction bs arbitrary: n)
  case Nil
  then show ?case by (cases n) simp_all
next
  case (Cons b bs)
  then obtain m where n: "n = Suc m" by (cases n) simp_all
  obtain c t where ct: "escape_byte b = c # t" "c \<noteq> CHR 0x22"
    using Cons.prems by (auto elim: escape_byte_head)
  have "read_c_char (escape_byte b @ concat (map escape_byte bs) @ CHR 0x22 # rest) =
      Some (b, concat (map escape_byte bs) @ CHR 0x22 # rest)"
    using Cons.prems by (intro c_literal.rd_enc) simp
  with Cons ct n show ?case by simp
qed

fun has_double_query :: "string \<Rightarrow> bool" where
  "has_double_query (c # d # s) \<longleftrightarrow> c = CHR 0x3F \<and> d = CHR 0x3F \<or> has_double_query (d # s)"
| "has_double_query s \<longleftrightarrow> False"

lemma has_double_query_append:
  "s = [] \<or> hd s \<noteq> CHR 0x3F \<Longrightarrow>
   has_double_query (p @ s) \<longleftrightarrow> has_double_query p \<or> has_double_query s"
proof (induction p)
  case (Cons c p)
  then show ?case by (cases p; cases s) auto
qed simp

lemma query_not_digit: "CHR 0x3F \<notin> digit_char ` {..<8}"
  using is_octal_digit_char [of "CHR 0x3F"] by (simp add: is_octal_def)

lemma escape_byte_no_double_query:
  assumes "b < 256"
  shows "\<not> has_double_query (escape_byte b)"
proof -
  have "\<not> has_double_query (escapeCByte b)"
  proof -
    have no: "CHR 0x3F \<notin> set ds \<Longrightarrow> \<not> has_double_query ds" for ds
      by (induction ds rule: has_double_query.induct) auto
    have "CHR 0x3F \<notin> set (escapeCByte b)"
      using query_not_digit by (auto simp: escapeCByte_def zero_char dest: pad_start_digits [of 8, rotated])
    then show ?thesis by (rule no)
  qed
  then show ?thesis by (simp add: escape_byte_def)
qed

lemma escaped_no_double_query:
  "list_all (\<lambda>b. b < 256) bs \<Longrightarrow> \<not> has_double_query (concat (map escape_byte bs))"
proof (induction bs)
  case (Cons b bs)
  have "concat (map escape_byte bs) = [] \<or> hd (concat (map escape_byte bs)) \<noteq> CHR 0x3F"
  proof (cases bs)
    case (Cons d ds)
    with \<open>list_all (\<lambda>b. b < 256) (b # bs)\<close> have "d < 256" by simp
    then show ?thesis by (rule escape_byte_head) (simp add: Cons)
  qed simp
  with Cons show ?case
    by (simp add: has_double_query_append escape_byte_no_double_query)
qed simp

definition printable :: "char \<Rightarrow> bool" where
  "printable c \<longleftrightarrow> 0x20 \<le> (of_char c :: nat) \<and> (of_char c :: nat) < 0x7f"

lemma octal_printable: "is_octal c \<Longrightarrow> printable c"
  by (auto simp: is_octal_def printable_def)

lemma escape_byte_printable: "b < 256 \<Longrightarrow> list_all printable (escape_byte b)"
proof -
  have "list_all printable (escapeCByte b)"
    using octal_printable
    by (auto simp: escapeCByte_def zero_char list_all_iff is_octal_digit_char printable_def [of "CHR 0x5C"]
        dest!: pad_start_digits [of 8, rotated])
  then show "b < 256 \<Longrightarrow> ?thesis"
    by (auto simp: escape_byte_def printable_def of_char_of simp del: char_of_nat)
qed

section \<open>Properties\<close>

text \<open>C23 A buffer driven with properly nested \<open>open\<close>/\<open>close\<close> calls never raises the \<open>RangeError\<close>
  of a negative indentation, ends at the indentation it started with, and holds exactly the
  block text: every non-empty line indented by four spaces per enclosing brace.\<close>

theorem cbuf_prints_blocks:
  "\<exists>b. emit_blocks cs cbuf_new = Inr b \<and> indent b = 0 \<and> cbuf_to_string b = blocks_text 0 cs"
  using emit_block_text(2) [of cbuf_new 0 cs] by (simp add: cbuf_new_def cbuf_to_string_def)

text \<open>C21 The WTF-8 encoding of a JavaScript string loses nothing: decoding the bytes gives the
  code units back, isolated surrogates included, and every element is a byte.\<close>

theorem encodeWtf8_roundtrip:
  "decodeWtf8 (encodeWtf8 s) = Some s \<and> list_all (\<lambda>b. b < 256) (encodeWtf8 s)"
  using wtf8.decode_concat_enc [OF code_points_valid [of s]]
  by (simp add: decodeWtf8_def encodeWtf8_code_points [symmetric] code_points_units encodeWtf8_range)

text \<open>C4 A C compiler that reads the escaped text between double quotes gets exactly the bytes of
  the WTF-8 encoding and stops at the closing quote, whatever C text follows: source strings
  cannot break out of the literal.\<close>

theorem escapeCString_literal:
  "read_c_literal (Suc (utf8ByteLen s)) (escapeCString s @ CHR 0x22 # rest) = Some (encodeWtf8 s, rest)"
  unfolding escapeCString_def utf8ByteLen_def
  by (rule read_c_literal_escaped) (simp_all add: encodeWtf8_range)

text \<open>The escaped text consists of printable ASCII characters and never contains two question
  marks in a row, so no trigraph can be formed in it.\<close>

theorem escapeCString_no_trigraph:
  "list_all printable (escapeCString s) \<and> \<not> has_double_query (escapeCString s)"
proof -
  have "list_all printable (concat (map escape_byte bs))" if "list_all (\<lambda>b. b < 256) bs" for bs
    using that escape_byte_printable by (fastforce simp: list_all_iff)
  then show ?thesis
    using encodeWtf8_range [of s] by (simp add: escapeCString_def escaped_no_double_query)
qed

end
