(* ===== verification/Mangle.thy ===== *)
theory Mangle
  imports TSC_Prelude
begin

text \<open>
  The identifier encoder of \<open>src/src/emit/mangle.ts\<close>, which turns source names and qualified
  declaration paths into C identifiers of the generated namespace. It is shown to be injective
  (two declarations never share a C name) and to produce C identifiers only.
\<close>

definition is_ident_alnum :: "nat \<Rightarrow> bool" where
  "is_ident_alnum u \<longleftrightarrow>
     0x41 \<le> u \<and> u \<le> 0x5a \<or> 0x61 \<le> u \<and> u \<le> 0x7a \<or> 0x30 \<le> u \<and> u \<le> 0x39"

text \<open>One turn of the loop of \<open>identifierComponent\<close>.\<close>

definition encode_unit :: "code_unit \<Rightarrow> string" where
  "encode_unit w =
     (let unit = unat w in
      if is_ident_alnum unit then [char_of unit]
      else ''_'' @ pad_start 4 (CHR ''0'') (to_radix 16 unit) @ ''_'')"

definition identifierComponent :: "js_string \<Rightarrow> string" where
  "identifierComponent name = concat (map encode_unit name)"

definition mangle_part :: "js_string \<Rightarrow> string" where
  "mangle_part part = ''_'' @ to_radix 10 (length part) @ ''_'' @ identifierComponent part"

definition mangleQualifiedIdent :: "js_string list \<Rightarrow> string" where
  "mangleQualifiedIdent ps = ''tsc_js'' @ concat (map mangle_part ps)"

definition mangleIdent :: "js_string \<Rightarrow> string" where
  "mangleIdent name = mangleQualifiedIdent [name]"

section \<open>Reading the encoding back\<close>

fun read_unit :: "string \<Rightarrow> (code_unit \<times> string) option" where
  "read_unit [] = None"
| "read_unit (c # s) =
     (if c = CHR ''_'' then
        Some (word_of_nat (digits_value 16 (map char_digit (take 4 s))), drop 5 s)
      else Some (word_of_nat (of_char c), s))"

definition read_part :: "string \<Rightarrow> (js_string \<times> string) option" where
  "read_part s =
     (let ds = takeWhile (\<lambda>c. c \<noteq> CHR ''_'') (drop 1 s)
      in read_n read_unit (digits_value 10 (map char_digit ds)) (drop (length ds + 2) s))"

lemma hex_width: "length (pad_start 4 (CHR ''0'') (to_radix 16 (unat (w :: code_unit)))) = 4"
  using code_unit_bound [of w] by (intro pad_start_width) simp_all

lemma read_unit_encode: "read_unit (encode_unit w @ r) = Some (w, r)"
proof (cases "is_ident_alnum (unat w)")
  case True
  have "unat w < 256" using True by (auto simp: is_ident_alnum_def)
  moreover have "unat w \<noteq> 95" using True by (auto simp: is_ident_alnum_def)
  ultimately have "char_of (unat w) \<noteq> CHR ''_''"
    by (simp add: char_of_eq_iff)
  with True \<open>unat w < 256\<close> show ?thesis
    by (simp add: encode_unit_def of_char_of)
next
  case False
  let ?h = "pad_start 4 (CHR ''0'') (to_radix 16 (unat w))"
  have "take 4 (?h @ CHR ''_'' # r) = ?h" "drop 5 (?h @ CHR ''_'' # r) = r"
    using hex_width [of w] by simp_all
  moreover have "digits_value 16 (map char_digit ?h) = unat w"
    unfolding zero_char by (rule pad_start_inverse) simp_all
  ultimately show ?thesis
    using False by (simp add: encode_unit_def)
qed

interpretation component: prefix_code "\<lambda>_. True" encode_unit read_unit
proof
  show "read_unit (encode_unit w @ r) = Some (w, r)" for w r by (rule read_unit_encode)
qed (simp add: encode_unit_def Let_def)

lemma decimal_no_underscore: "c \<in> set (to_radix 10 n) \<Longrightarrow> c \<noteq> CHR ''_''"
proof -
  assume "c \<in> set (to_radix 10 n)"
  then obtain d where d: "d < 10" and c: "c = digit_char d"
    by (auto simp: to_radix_def dest: nat_digits_less [rotated])
  have "digit_char ` {..<10} = set (map digit_char [0..<10])" by auto
  also have "map digit_char [0..<10] = ''0123456789''" by code_simp
  finally have "c \<in> set ''0123456789''" using d c by blast
  then show ?thesis by auto
qed

lemma read_part_mangle: "read_part (mangle_part p @ r) = Some (p, r)"
proof -
  let ?n = "to_radix 10 (length p)"
  have "takeWhile (\<lambda>c. c \<noteq> CHR ''_'') (?n @ CHR ''_'' # identifierComponent p @ r) = ?n"
    by (subst takeWhile_append2) (auto dest: decimal_no_underscore)
  moreover have "digits_value 10 (map char_digit ?n) = length p"
    by (rule to_radix_inverse) simp_all
  moreover have "read_n read_unit (length p) (identifierComponent p @ r) = Some (p, r)"
    using component.read_n_enc [of p r] by (simp add: identifierComponent_def list_all_iff)
  ultimately show ?thesis
    by (simp add: read_part_def mangle_part_def)
qed

interpretation mangled: prefix_code "\<lambda>_. True" mangle_part read_part
proof
  show "read_part (mangle_part p @ r) = Some (p, r)" for p r by (rule read_part_mangle)
qed (simp add: mangle_part_def)

section \<open>Only identifier characters\<close>

definition c_ident_char :: "char \<Rightarrow> bool" where
  "c_ident_char c \<longleftrightarrow> is_ident_alnum (of_char c) \<or> c = CHR ''_''"

lemma digit_ident: "d < 16 \<Longrightarrow> c_ident_char (digit_char d)"
  by (auto simp: c_ident_char_def is_ident_alnum_def digit_char_def of_char_of)

lemma encode_unit_ident: "list_all c_ident_char (encode_unit w)"
proof -
  have "is_ident_alnum (unat w) \<Longrightarrow> c_ident_char (char_of (unat w))"
    by (auto simp: c_ident_char_def is_ident_alnum_def of_char_of)
  then show ?thesis
    using digit_ident
    by (auto simp: encode_unit_def Let_def list_all_iff c_ident_char_def [of "CHR ''_''"] zero_char
        dest!: pad_start_digits [of 16, rotated])
qed

lemma mangle_part_ident: "list_all c_ident_char (mangle_part p)"
proof -
  have "c \<in> set (to_radix 10 n) \<Longrightarrow> c_ident_char c" for c n
    using digit_ident by (auto simp: to_radix_def dest!: nat_digits_less [rotated])
  then show ?thesis
    using encode_unit_ident
    by (auto simp: mangle_part_def identifierComponent_def list_all_iff c_ident_char_def [of "CHR ''_''"])
qed

section \<open>Properties\<close>

text \<open>C22 Mangling is injective on qualified names: two lists of components with the same C
  identifier are the same list, whatever characters the components contain and however long the
  lists are.\<close>

theorem mangleQualifiedIdent_inject:
  "mangleQualifiedIdent ps = mangleQualifiedIdent qs \<longleftrightarrow> ps = qs"
proof
  assume "mangleQualifiedIdent ps = mangleQualifiedIdent qs"
  then have "concat (map mangle_part ps) = concat (map mangle_part qs)"
    by (simp add: mangleQualifiedIdent_def)
  then show "ps = qs"
    by (rule mangled.concat_enc_inject [rotated 2]) (simp_all add: list_all_iff)
qed simp


end
