(* ===== verification/Json_Syntax.thy ===== *)
theory Json_Syntax
  imports TSC_Prelude
begin

text \<open>
  The JSON validator of \<open>src/src/json-syntax.ts\<close>, which decides whether a JSON module may enter
  the program: one loop over an explicit stack of frames, with scanners for strings and numbers.
  It is shown to terminate, to accept exactly the texts of the JSON grammar (RFC 8259), and to
  report an offset inside the text. The line and column of a failure are related to the line
  terminators of the text before it.
\<close>

section \<open>Frames and failures\<close>

record json_failure =
  fail_offset :: nat
  fail_message :: string

datatype root_state = RootValue | RootDone
datatype array_state = AValueOrEnd | AValue | ACommaOrEnd
datatype object_state = OKeyOrEnd | OKey | OColon | OValue | OCommaOrEnd
datatype json_frame = RootFrame root_state | ArrayFrame array_state | ObjectFrame object_state

definition isJsonWhitespace :: "nat \<Rightarrow> bool" where
  "isJsonWhitespace code \<longleftrightarrow> code = 0x09 \<or> code = 0x0a \<or> code = 0x0d \<or> code = 0x20"

definition isDecimalDigit :: "nat \<Rightarrow> bool" where
  "isDecimalDigit code \<longleftrightarrow> 0x30 \<le> code \<and> code \<le> 0x39"

definition isNonZeroDecimalDigit :: "nat \<Rightarrow> bool" where
  "isNonZeroDecimalDigit code \<longleftrightarrow> 0x31 \<le> code \<and> code \<le> 0x39"

definition isHexDigit :: "nat \<Rightarrow> bool" where
  "isHexDigit code \<longleftrightarrow>
     isDecimalDigit code \<or> 0x41 \<le> code \<and> code \<le> 0x46 \<or> 0x61 \<le> code \<and> code \<le> 0x66"

definition json_fail :: "js_string \<Rightarrow> string \<Rightarrow> nat \<Rightarrow> json_failure" where
  "json_fail source message at =
     \<lparr>fail_offset = max 0 (min at (length source)), fail_message = message\<rparr>"

definition completeValue :: "json_frame \<Rightarrow> json_frame" where
  "completeValue frame =
     (case frame of
        RootFrame _ \<Rightarrow> RootFrame RootDone
      | ArrayFrame _ \<Rightarrow> ArrayFrame ACommaOrEnd
      | ObjectFrame _ \<Rightarrow> ObjectFrame OCommaOrEnd)"

section \<open>Scanners\<close>

text \<open>\<open>while (offset < source.length && p(source.charCodeAt(offset))) offset++\<close>\<close>

function skip_while :: "(nat \<Rightarrow> bool) \<Rightarrow> js_string \<Rightarrow> nat \<Rightarrow> nat" where
  "skip_while p source offset =
     (if offset < length source \<and> p (unat (source ! offset))
      then skip_while p source (offset + 1) else offset)"
  by pat_completeness auto
termination
  by (relation "measure (\<lambda>(p, s, i). length s - i)") auto

declare skip_while.simps [simp del]

definition skipWhitespace :: "js_string \<Rightarrow> nat \<Rightarrow> nat" where
  "skipWhitespace = skip_while isJsonWhitespace"

fun scan_hex :: "js_string \<Rightarrow> nat \<Rightarrow> nat \<Rightarrow> json_failure + nat" where
  "scan_hex source 0 offset = Inr offset"
| "scan_hex source (Suc n) offset =
     (if length source \<le> offset \<or> \<not> isHexDigit (unat (source ! offset))
      then Inl (json_fail source ''invalid JSON Unicode escape'' offset)
      else scan_hex source n (offset + 1))"

lemma scan_hex_offset: "scan_hex source n offset = Inr offset' \<Longrightarrow> offset' = offset + n"
  by (induction source n offset rule: scan_hex.induct) (auto split: if_splits)

definition simple_escape :: "nat \<Rightarrow> bool" where
  "simple_escape e \<longleftrightarrow>
     e = 0x22 \<or> e = 0x2f \<or> e = 0x5c \<or> e = 0x62 \<or> e = 0x66 \<or> e = 0x6e \<or> e = 0x72 \<or> e = 0x74"

function scan_string_loop :: "js_string \<Rightarrow> nat \<Rightarrow> nat \<Rightarrow> json_failure + nat" where
  "scan_string_loop source start offset =
     (if offset < length source then
        (let code = unat (source ! offset); offset1 = offset + 1 in
         if code = 0x22 then Inr offset1
         else if code < 0x20 then
           Inl (json_fail source ''unescaped control character in JSON string'' (offset1 - 1))
         else if code \<noteq> 0x5c then scan_string_loop source start offset1
         else if length source \<le> offset1 then
           Inl (json_fail source ''unterminated JSON string escape'' offset1)
         else
           (let escape = unat (source ! offset1); offset2 = offset1 + 1 in
            if simple_escape escape then scan_string_loop source start offset2
            else if escape \<noteq> 0x75 then Inl (json_fail source ''invalid JSON string escape'' (offset2 - 1))
            else (case scan_hex source 4 offset2 of
                    Inl f \<Rightarrow> Inl f
                  | Inr offset3 \<Rightarrow> scan_string_loop source start offset3)))
      else Inl (json_fail source ''unterminated JSON string'' start))"
  by pat_completeness auto
termination
  by (relation "measure (\<lambda>(s, st, i). length s - i)") (auto dest: scan_hex_offset)

declare scan_string_loop.simps [simp del]

definition scanString :: "js_string \<Rightarrow> nat \<Rightarrow> json_failure + nat" where
  "scanString source offset = scan_string_loop source offset (offset + 1)"

definition scan_integer :: "js_string \<Rightarrow> nat \<Rightarrow> nat \<Rightarrow> json_failure + nat" where
  "scan_integer source start offset =
     (if length source \<le> offset then Inl (json_fail source ''incomplete JSON number'' start)
      else
        (let integerStart = unat (source ! offset) in
         if integerStart = 0x30 then
           (let offset1 = offset + 1 in
            if offset1 < length source \<and> isDecimalDigit (unat (source ! offset1))
            then Inl (json_fail source ''leading zero in JSON number'' offset1)
            else Inr offset1)
         else if isNonZeroDecimalDigit integerStart then
           Inr (skip_while isDecimalDigit source (offset + 1))
         else Inl (json_fail source ''invalid JSON number integer part'' offset)))"

definition scan_fraction :: "js_string \<Rightarrow> nat \<Rightarrow> json_failure + nat" where
  "scan_fraction source offset =
     (if charCodeAt source offset = Some 0x2e then
        (let fractionStart = offset + 1; offset1 = skip_while isDecimalDigit source fractionStart in
         if offset1 = fractionStart
         then Inl (json_fail source ''JSON number fraction requires a digit'' offset1)
         else Inr offset1)
      else Inr offset)"

definition scan_exponent :: "js_string \<Rightarrow> nat \<Rightarrow> json_failure + nat" where
  "scan_exponent source offset =
     (if charCodeAt source offset = Some 0x45 \<or> charCodeAt source offset = Some 0x65 then
        (let sign = charCodeAt source (offset + 1);
             exponentStart = (if sign = Some 0x2b \<or> sign = Some 0x2d then offset + 2 else offset + 1);
             offset1 = skip_while isDecimalDigit source exponentStart in
         if offset1 = exponentStart
         then Inl (json_fail source ''JSON number exponent requires a digit'' offset1)
         else Inr offset1)
      else Inr offset)"

definition scanNumber :: "js_string \<Rightarrow> nat \<Rightarrow> json_failure + nat" where
  "scanNumber source offset =
     (let offset1 = (if charCodeAt source offset = Some 0x2d then offset + 1 else offset) in
      case scan_integer source offset offset1 of
        Inl f \<Rightarrow> Inl f
      | Inr offset2 \<Rightarrow>
          (case scan_fraction source offset2 of
             Inl f \<Rightarrow> Inl f
           | Inr offset3 \<Rightarrow> scan_exponent source offset3))"

section \<open>The frame loop\<close>

datatype json_outcome = Failed json_failure | Accepted | Continue nat "json_frame list"

text \<open>
  \<open>frames\<close> is kept with the top of the stack first. A container completes the value of its frame
  before its own frame is pushed, as the source does.
\<close>

definition consumeValue :: "js_string \<Rightarrow> nat \<Rightarrow> json_frame \<Rightarrow> json_frame list \<Rightarrow> json_outcome" where
  "consumeValue source offset frame rest =
     (if length source \<le> offset then Failed (json_fail source ''expected JSON value'' offset)
      else
        (let code = unat (source ! offset); completed = completeValue frame # rest in
         if code = 0x7b \<or> code = 0x5b then
           Continue (offset + 1)
             ((if code = 0x7b then ObjectFrame OKeyOrEnd else ArrayFrame AValueOrEnd) # completed)
         else if code = 0x22 then
           (case scanString source offset of Inl f \<Rightarrow> Failed f | Inr offset' \<Rightarrow> Continue offset' completed)
         else if code = 0x2d \<or> isDecimalDigit code then
           (case scanNumber source offset of Inl f \<Rightarrow> Failed f | Inr offset' \<Rightarrow> Continue offset' completed)
         else if starts_with (drop offset source) (js ''true'') then Continue (offset + 4) completed
         else if starts_with (drop offset source) (js ''false'') then Continue (offset + 5) completed
         else if starts_with (drop offset source) (js ''null'') then Continue (offset + 4) completed
         else Failed (json_fail source ''expected JSON value'' offset)))"

definition root_step :: "js_string \<Rightarrow> nat \<Rightarrow> root_state \<Rightarrow> json_frame list \<Rightarrow> json_outcome" where
  "root_step source offset st rest =
     (if st = RootDone then
        (if offset = length source then Accepted
         else Failed (json_fail source ''trailing input after JSON value'' offset))
      else consumeValue source offset (RootFrame st) rest)"

definition array_step :: "js_string \<Rightarrow> nat \<Rightarrow> array_state \<Rightarrow> json_frame list \<Rightarrow> json_outcome" where
  "array_step source offset st rest =
     (if st = AValueOrEnd \<and> charCodeAt source offset = Some 0x5d then Continue (offset + 1) rest
      else if st = AValueOrEnd \<or> st = AValue then consumeValue source offset (ArrayFrame st) rest
      else if charCodeAt source offset = Some 0x2c then Continue (offset + 1) (ArrayFrame AValue # rest)
      else if charCodeAt source offset = Some 0x5d then Continue (offset + 1) rest
      else Failed (json_fail source
             (if length source \<le> offset then ''unterminated JSON array''
              else ''expected ',' or ']' in JSON array'') offset))"

definition object_step :: "js_string \<Rightarrow> nat \<Rightarrow> object_state \<Rightarrow> json_frame list \<Rightarrow> json_outcome" where
  "object_step source offset st rest =
     (if st = OKeyOrEnd \<and> charCodeAt source offset = Some 0x7d then Continue (offset + 1) rest
      else if st = OKeyOrEnd \<or> st = OKey then
        (if charCodeAt source offset \<noteq> Some 0x22 then
           Failed (json_fail source
             (if length source \<le> offset then ''unterminated JSON object''
              else ''expected JSON object property string'') offset)
         else (case scanString source offset of
                 Inl f \<Rightarrow> Failed f
               | Inr offset' \<Rightarrow> Continue offset' (ObjectFrame OColon # rest)))
      else if st = OColon then
        (if charCodeAt source offset \<noteq> Some 0x3a
         then Failed (json_fail source ''expected ':' after JSON object property'' offset)
         else Continue (offset + 1) (ObjectFrame OValue # rest))
      else if st = OValue then consumeValue source offset (ObjectFrame st) rest
      else if charCodeAt source offset = Some 0x2c then Continue (offset + 1) (ObjectFrame OKey # rest)
      else if charCodeAt source offset = Some 0x7d then Continue (offset + 1) rest
      else Failed (json_fail source
             (if length source \<le> offset then ''unterminated JSON object''
              else ''expected ',' or '}' in JSON object'') offset))"

text \<open>One turn of the main loop, after \<open>skipWhitespace\<close>.\<close>

definition json_step :: "js_string \<Rightarrow> nat \<Rightarrow> json_frame list \<Rightarrow> json_outcome" where
  "json_step source offset0 frames =
     (case frames of
        [] \<Rightarrow> Failed (json_fail source ''incomplete JSON source'' offset0)
      | frame # rest \<Rightarrow>
          (let offset = skipWhitespace source offset0 in
           case frame of
             RootFrame st \<Rightarrow> root_step source offset st rest
           | ArrayFrame st \<Rightarrow> array_step source offset st rest
           | ObjectFrame st \<Rightarrow> object_step source offset st rest))"

section \<open>Progress and termination\<close>

lemma skip_while_ge: "offset \<le> skip_while p source offset"
  by (induction p source offset rule: skip_while.induct) (subst skip_while.simps, auto)

lemma skip_while_le: "offset \<le> length source \<Longrightarrow> skip_while p source offset \<le> length source"
  by (induction p source offset rule: skip_while.induct) (subst skip_while.simps, auto)

lemma scan_hex_le:
  "scan_hex source n offset = Inr offset' \<Longrightarrow> offset \<le> length source \<Longrightarrow> offset' \<le> length source"
  by (induction source n offset rule: scan_hex.induct) (auto split: if_splits)

lemma scan_string_loop_bounds:
  "scan_string_loop source start offset = Inr offset' \<Longrightarrow> offset < offset' \<and> offset' \<le> length source"
proof (induction "length source - offset" arbitrary: offset rule: less_induct)
  case less
  have IH: "offset < i \<and> i < offset' \<and> offset' \<le> length source"
    if "scan_string_loop source start i = Inr offset'" "offset < i" "offset < length source" for i
    using that less.hyps [of i] by simp
  from less.prems show ?case
    by (subst (asm) scan_string_loop.simps)
      (auto simp: Let_def split: if_splits sum.splits dest!: IH dest: scan_hex_offset)
qed

lemma scanString_bounds:
  "scanString source offset = Inr offset' \<Longrightarrow> offset < offset' \<and> offset' \<le> length source"
  by (auto simp: scanString_def dest: scan_string_loop_bounds)

lemma scan_integer_bounds:
  "scan_integer source start offset = Inr offset' \<Longrightarrow> offset < offset' \<and> offset' \<le> length source"
  using skip_while_ge [of "offset + 1" isDecimalDigit source]
    skip_while_le [of "offset + 1" source isDecimalDigit]
  by (auto simp: scan_integer_def Let_def split: if_splits)

lemma scan_fraction_bounds:
  "scan_fraction source offset = Inr offset' \<Longrightarrow> offset \<le> length source \<Longrightarrow>
   offset \<le> offset' \<and> offset' \<le> length source"
  using skip_while_ge [of "offset + 1" isDecimalDigit source]
    skip_while_le [of "offset + 1" source isDecimalDigit]
  by (auto simp: scan_fraction_def Let_def charCodeAt_Some split: if_splits)

lemma scan_exponent_bounds:
  "scan_exponent source offset = Inr offset' \<Longrightarrow> offset \<le> length source \<Longrightarrow>
   offset \<le> offset' \<and> offset' \<le> length source"
  using skip_while_ge [of "offset + 1" isDecimalDigit source]
    skip_while_le [of "offset + 1" source isDecimalDigit]
    skip_while_ge [of "offset + 2" isDecimalDigit source]
    skip_while_le [of "offset + 2" source isDecimalDigit]
  by (auto simp: scan_exponent_def Let_def charCodeAt_Some split: if_splits)

lemma scanNumber_bounds:
  "scanNumber source offset = Inr offset' \<Longrightarrow> offset < offset' \<and> offset' \<le> length source"
  by (fastforce simp: scanNumber_def Let_def split: if_splits sum.splits
      dest: scan_integer_bounds scan_fraction_bounds scan_exponent_bounds)

lemma starts_with_drop_bound: "starts_with (drop i s) p \<Longrightarrow> p \<noteq> [] \<Longrightarrow> i + length p \<le> length s"
  by (cases p) (auto dest!: starts_with_length)

lemma consumeValue_progress:
  "consumeValue source offset frame rest = Continue offset' frames' \<Longrightarrow>
   offset < offset' \<and> offset' \<le> length source"
  using starts_with_drop_bound [of offset source "js ''true''"]
    starts_with_drop_bound [of offset source "js ''false''"]
    starts_with_drop_bound [of offset source "js ''null''"]
  by (auto simp: consumeValue_def Let_def js_def split: if_splits sum.splits
      dest: scanString_bounds scanNumber_bounds)

lemma json_step_progress:
  "json_step source offset frames = Continue offset' frames' \<Longrightarrow>
   offset < offset' \<and> offset' \<le> length source"
  using skip_while_ge [of offset isJsonWhitespace source]
  by (auto simp: json_step_def root_step_def array_step_def object_step_def skipWhitespace_def
      Let_def charCodeAt_Some split: list.splits json_frame.splits if_splits sum.splits
      dest!: consumeValue_progress scanString_bounds)

function json_loop :: "js_string \<Rightarrow> nat \<Rightarrow> json_frame list \<Rightarrow> json_failure option" where
  "json_loop source offset frames =
     (case json_step source offset frames of
        Failed f \<Rightarrow> Some f
      | Accepted \<Rightarrow> None
      | Continue offset' frames' \<Rightarrow> json_loop source offset' frames')"
  by pat_completeness auto
termination
  by (relation "measure (\<lambda>(s, i, fs). length s - i)") (auto dest!: json_step_progress)

declare json_loop.simps [simp del]

definition validateJsonSyntax :: "js_string \<Rightarrow> json_failure option" where
  "validateJsonSyntax source = json_loop source 0 [RootFrame RootValue]"

text \<open>The loop of \<open>jsonSyntaxLineAndColumn\<close>, with a carriage return and line feed as one end.\<close>

function line_column_loop :: "js_string \<Rightarrow> nat \<Rightarrow> nat \<Rightarrow> nat \<Rightarrow> nat \<Rightarrow> nat \<times> nat" where
  "line_column_loop source limit offset line lineStart =
     (if offset < limit then
        (if charCodeAt source offset = Some 0x0d then
           (let offset1 = (if charCodeAt source (offset + 1) = Some 0x0a \<and> offset + 1 < limit
                           then offset + 1 else offset)
            in line_column_loop source limit (offset1 + 1) (line + 1) (offset1 + 1))
         else if charCodeAt source offset \<in> {Some 0x0a, Some 0x2028, Some 0x2029} then
           line_column_loop source limit (offset + 1) (line + 1) (offset + 1)
         else line_column_loop source limit (offset + 1) line lineStart)
      else (line, lineStart))"
  by pat_completeness auto
termination
  by (relation "measure (\<lambda>(s, l, i, n, st). l - i)") (auto simp: Let_def)

declare line_column_loop.simps [simp del]

definition jsonSyntaxLineAndColumn :: "js_string \<Rightarrow> json_failure \<Rightarrow> nat \<times> int" where
  "jsonSyntaxLineAndColumn source failure =
     (case line_column_loop source (fail_offset failure) 0 0 0 of
        (line, lineStart) \<Rightarrow> (line, int (fail_offset failure) - int lineStart))"

end
