(* ===== verification/Json_Grammar.thy ===== *)
theory Json_Grammar
  imports Json_Syntax
begin

text \<open>
  The JSON grammar of RFC 8259 as inductive predicates over code units, and the proof that
  \<open>validateJsonSyntax\<close> accepts exactly its texts. Every stack of frames denotes the set of inputs
  that complete it; one turn of the loop keeps that set, a failing turn leaves it empty.
\<close>

section \<open>The grammar\<close>

definition ascii :: "string \<Rightarrow> nat list" where
  "ascii t = map of_char t"

definition ws :: "nat list \<Rightarrow> bool" where
  "ws w \<longleftrightarrow> set w \<subseteq> {0x20, 0x09, 0x0a, 0x0d}"

definition digit_codes :: "nat set" where
  "digit_codes = set (ascii ''0123456789'')"

definition hex_codes :: "nat set" where
  "hex_codes = set (ascii ''0123456789abcdefABCDEF'')"

inductive jchars :: "nat list \<Rightarrow> bool" where
  chars_nil: "jchars []"
| chars_plain: "0x20 \<le> c \<Longrightarrow> c \<noteq> 0x22 \<Longrightarrow> c \<noteq> 0x5c \<Longrightarrow> jchars cs \<Longrightarrow> jchars (c # cs)"
| chars_escape: "e \<in> {0x22, 0x5c, 0x2f} \<union> set (ascii ''bfnrt'') \<Longrightarrow> jchars cs \<Longrightarrow> jchars (0x5c # e # cs)"
| chars_unicode: "{a, b, c, d} \<subseteq> hex_codes \<Longrightarrow> jchars cs \<Longrightarrow> jchars (0x5c # 0x75 # a # b # c # d # cs)"

definition jstring :: "nat list \<Rightarrow> bool" where
  "jstring t \<longleftrightarrow> (\<exists>cs. t = 0x22 # cs @ [0x22] \<and> jchars cs)"

definition jdigits :: "nat list \<Rightarrow> bool" where
  "jdigits ds \<longleftrightarrow> ds \<noteq> [] \<and> set ds \<subseteq> digit_codes"

definition jint :: "nat list \<Rightarrow> bool" where
  "jint i \<longleftrightarrow> i = [0x30] \<or> jdigits i \<and> hd i \<noteq> 0x30"

definition jfrac :: "nat list \<Rightarrow> bool" where
  "jfrac f \<longleftrightarrow> f = [] \<or> (\<exists>ds. f = 0x2e # ds \<and> jdigits ds)"

definition jexp :: "nat list \<Rightarrow> bool" where
  "jexp e \<longleftrightarrow> e = [] \<or>
     (\<exists>m sg ds. e = m # sg @ ds \<and> m \<in> {0x65, 0x45} \<and> sg \<in> {[], [0x2b], [0x2d]} \<and> jdigits ds)"

definition jnumber :: "nat list \<Rightarrow> bool" where
  "jnumber n \<longleftrightarrow> (\<exists>m i f e. n = m @ i @ f @ e \<and> m \<in> {[], [0x2d]} \<and> jint i \<and> jfrac f \<and> jexp e)"

text \<open>
  \<open>jelements\<close> and \<open>jmembers\<close> are what follows a first element or member up to and including the
  closing bracket: nothing more, or a comma and a further element or member.
\<close>

inductive jvalue :: "nat list \<Rightarrow> bool"
  and jelements :: "nat list \<Rightarrow> bool"
  and jmembers :: "nat list \<Rightarrow> bool" where
  value_true: "jvalue (ascii ''true'')"
| value_false: "jvalue (ascii ''false'')"
| value_null: "jvalue (ascii ''null'')"
| value_string: "jstring t \<Longrightarrow> jvalue t"
| value_number: "jnumber n \<Longrightarrow> jvalue n"
| value_array_empty: "ws w \<Longrightarrow> jvalue (0x5b # w @ [0x5d])"
| value_array: "ws w \<Longrightarrow> jvalue v \<Longrightarrow> jelements t \<Longrightarrow> jvalue (0x5b # w @ v @ t)"
| value_object_empty: "ws w \<Longrightarrow> jvalue (0x7b # w @ [0x7d])"
| value_object: "ws w1 \<Longrightarrow> jstring k \<Longrightarrow> ws w2 \<Longrightarrow> ws w3 \<Longrightarrow> jvalue v \<Longrightarrow> jmembers t \<Longrightarrow>
    jvalue (0x7b # w1 @ k @ w2 @ 0x3a # w3 @ v @ t)"
| elements_end: "ws w \<Longrightarrow> jelements (w @ [0x5d])"
| elements_more: "ws w1 \<Longrightarrow> ws w2 \<Longrightarrow> jvalue v \<Longrightarrow> jelements t \<Longrightarrow> jelements (w1 @ 0x2c # w2 @ v @ t)"
| members_end: "ws w \<Longrightarrow> jmembers (w @ [0x7d])"
| members_more: "ws w0 \<Longrightarrow> ws w1 \<Longrightarrow> jstring k \<Longrightarrow> ws w2 \<Longrightarrow> ws w3 \<Longrightarrow> jvalue v \<Longrightarrow> jmembers t \<Longrightarrow>
    jmembers (w0 @ 0x2c # w1 @ k @ w2 @ 0x3a # w3 @ v @ t)"

definition json_text :: "nat list \<Rightarrow> bool" where
  "json_text t \<longleftrightarrow> (\<exists>w v w'. t = w @ v @ w' \<and> ws w \<and> jvalue v \<and> ws w')"

inductive_cases jvalue_elim: "jvalue t"
inductive_cases jvalue_Cons_elim: "jvalue (c # t)"
inductive_cases jelements_elim: "jelements t"
inductive_cases jmembers_elim: "jmembers t"

section \<open>Input from an offset\<close>

definition codes :: "js_string \<Rightarrow> nat list" where
  "codes s = map unat s"

definition rest_of :: "js_string \<Rightarrow> nat \<Rightarrow> nat list" where
  "rest_of s i = drop i (codes s)"

lemma rest_of_Cons:
  "rest_of s i = c # r \<longleftrightarrow> i < length s \<and> unat (s ! i) = c \<and> rest_of s (Suc i) = r"
proof (cases "i < length s")
  case True
  then have "rest_of s i = unat (s ! i) # rest_of s (Suc i)"
    by (simp add: rest_of_def codes_def Cons_nth_drop_Suc [symmetric] drop_map)
  with True show ?thesis by auto
qed (simp add: rest_of_def codes_def)

lemma rest_of_Nil: "rest_of s i = [] \<longleftrightarrow> length s \<le> i"
  by (simp add: rest_of_def codes_def)

lemma charCodeAt_rest: "charCodeAt s i = (case rest_of s i of [] \<Rightarrow> None | c # _ \<Rightarrow> Some c)"
  by (auto simp: charCodeAt_def rest_of_Cons rest_of_Nil split: list.splits)

lemma rest_of_add: "rest_of s (i + k) = drop k (rest_of s i)"
  by (simp add: rest_of_def add.commute)

lemma rest_of_append:
  "rest_of s i = a @ b \<Longrightarrow> rest_of s (i + length a) = b"
  by (simp add: rest_of_add)

lemma skip_while_rest: "rest_of s (skip_while p s i) = dropWhile p (rest_of s i)"
proof (induction p s i rule: skip_while.induct)
  case (1 p s i)
  show ?case
  proof (cases "rest_of s i")
    case Nil
    then have "length s \<le> i" by (simp add: rest_of_Nil)
    with Nil show ?thesis by (subst skip_while.simps) simp
  next
    case (Cons c r)
    then have c: "i < length s" "unat (s ! i) = c" "rest_of s (Suc i) = r"
      by (simp_all add: rest_of_Cons)
    show ?thesis
      using "1.IH" c Cons by (subst skip_while.simps) (simp add: Cons)
  qed
qed

lemma skip_while_offset: "skip_while p s i = i + length (takeWhile p (rest_of s i))"
proof (induction p s i rule: skip_while.induct)
  case (1 p s i)
  show ?case
  proof (cases "rest_of s i")
    case Nil
    then have "length s \<le> i" by (simp add: rest_of_Nil)
    with Nil show ?thesis by (subst skip_while.simps) simp
  next
    case (Cons c r)
    then have c: "i < length s" "unat (s ! i) = c" "rest_of s (Suc i) = r"
      by (simp_all add: rest_of_Cons)
    show ?thesis
      using "1.IH" c by (subst skip_while.simps) (auto simp: Cons)
  qed
qed

section \<open>Character classes\<close>

lemma ws_iff: "ws w \<longleftrightarrow> list_all isJsonWhitespace w"
  by (auto simp: ws_def isJsonWhitespace_def list_all_iff)

lemma digit_iff: "c \<in> digit_codes \<longleftrightarrow> isDecimalDigit c"
  by (auto simp: digit_codes_def ascii_def isDecimalDigit_def) presburger

lemma hex_iff: "c \<in> hex_codes \<longleftrightarrow> isHexDigit c"
  by (auto simp: hex_codes_def ascii_def isHexDigit_def isDecimalDigit_def) presburger+

lemma simple_escape_iff: "e \<in> {0x22, 0x5c, 0x2f} \<union> set (ascii ''bfnrt'') \<longleftrightarrow> simple_escape e"
  by (auto simp: ascii_def simple_escape_def)

lemma jdigits_iff: "jdigits ds \<longleftrightarrow> ds \<noteq> [] \<and> list_all isDecimalDigit ds"
  by (auto simp: jdigits_def digit_iff list_all_iff)

section \<open>Strings\<close>

lemma scan_hex_rest:
  "scan_hex s n i = Inr j \<longleftrightarrow>
   (\<exists>hs. length hs = n \<and> list_all isHexDigit hs \<and> rest_of s i = hs @ rest_of s j \<and> j = i + n)"
proof (induction s n i rule: scan_hex.induct)
  case (1 s i)
  then show ?case by auto
next
  case (2 s n i)
  show ?case
  proof (cases "rest_of s i")
    case Nil
    then have "length s \<le> i" by (simp add: rest_of_Nil)
    with Nil show ?thesis by (auto simp: length_Suc_conv)
  next
    case (Cons c r)
    then have c: "i < length s" "unat (s ! i) = c" "rest_of s (Suc i) = r"
      by (simp_all add: rest_of_Cons)
    show ?thesis
      using 2 c by (auto simp: Cons length_Suc_conv)
  qed
qed

lemma scan_string_sound:
  "scan_string_loop s st i = Inr j \<Longrightarrow>
   \<exists>cs. rest_of s i = cs @ 0x22 # rest_of s j \<and> jchars cs"
proof (induction "length s - i" arbitrary: i rule: less_induct)
  case less
  have IH: "\<exists>cs. rest_of s k = cs @ 0x22 # rest_of s j \<and> jchars cs"
    if "scan_string_loop s st k = Inr j" "i < k" "i < length s" for k
    using that less.hyps [of k] by simp
  have i: "i < length s"
    using less.prems by (subst (asm) scan_string_loop.simps) (simp split: if_splits)
  define c where "c = unat (s ! i)"
  have r: "rest_of s i = c # rest_of s (Suc i)"
    using i by (simp add: rest_of_Cons c_def)
  note eq = less.prems [unfolded scan_string_loop.simps [of s st i]]
  consider "c = 0x22" "j = Suc i"
    | "0x20 \<le> c" "c \<noteq> 0x22" "c \<noteq> 0x5c" "scan_string_loop s st (Suc i) = Inr j"
    | "c = 0x5c" "Suc i < length s" "simple_escape (unat (s ! Suc i))"
      "scan_string_loop s st (Suc (Suc i)) = Inr j"
    | k where "c = 0x5c" "Suc i < length s" "unat (s ! Suc i) = 0x75"
      "scan_hex s 4 (Suc (Suc i)) = Inr k" "scan_string_loop s st k = Inr j"
    using eq i by (auto simp: Let_def c_def [symmetric] split: if_splits sum.splits)
  then show ?case
  proof cases
    case 1
    then show ?thesis using r by (auto intro: jchars.intros)
  next
    case 2
    then show ?thesis using r IH [of "Suc i"] i by (auto intro: jchars.intros)
  next
    case 3
    then have "rest_of s (Suc i) = unat (s ! Suc i) # rest_of s (Suc (Suc i))"
      by (simp add: rest_of_Cons)
    moreover obtain cs where "rest_of s (Suc (Suc i)) = cs @ 0x22 # rest_of s j" "jchars cs"
      using IH [of "Suc (Suc i)"] 3 i by auto
    moreover have "jchars (0x5c # unat (s ! Suc i) # cs)"
      using 3 calculation by (intro jchars.chars_escape) (simp_all only: simple_escape_iff)
    ultimately show ?thesis
      using 3 r by (intro exI [of _ "0x5c # unat (s ! Suc i) # cs"]) simp
  next
    case 4
    then have r1: "rest_of s (Suc i) = 0x75 # rest_of s (Suc (Suc i))"
      by (simp add: rest_of_Cons)
    obtain hs where hs: "length hs = 4" "list_all isHexDigit hs" "rest_of s (Suc (Suc i)) = hs @ rest_of s k"
      "k = Suc (Suc i) + 4"
      using 4 by (auto simp: scan_hex_rest)
    then obtain a b c' d where "hs = [a, b, c', d]"
      by (auto simp: eval_nat_numeral length_Suc_conv)
    moreover obtain cs where "rest_of s k = cs @ 0x22 # rest_of s j" "jchars cs"
      using IH [of k] 4 hs i by auto
    ultimately have "rest_of s i = (0x5c # 0x75 # a # b # c' # d # cs) @ 0x22 # rest_of s j"
      and "jchars (0x5c # 0x75 # a # b # c' # d # cs)"
      using r r1 hs 4 by (auto simp: hex_iff intro: jchars.chars_unicode)
    then show ?thesis by blast
  qed
qed

lemma scan_string_complete:
  "jchars cs \<Longrightarrow> rest_of s i = cs @ 0x22 # r \<Longrightarrow>
   scan_string_loop s st i = Inr (i + length cs + 1)"
proof (induction arbitrary: i rule: jchars.induct)
  case chars_nil
  then show ?case by (subst scan_string_loop.simps) (auto simp: rest_of_Cons)
next
  case (chars_plain c cs)
  then show ?case by (subst scan_string_loop.simps) (auto simp: rest_of_Cons Let_def)
next
  case (chars_escape e cs)
  have "simple_escape e" using chars_escape(1) simple_escape_iff by blast
  with chars_escape show ?case
    by (subst scan_string_loop.simps) (auto simp: rest_of_Cons Let_def)
next
  case (chars_unicode a b c d cs)
  have c: "i < length s" "unat (s ! i) = 0x5c" "Suc i < length s" "unat (s ! Suc i) = 0x75"
    "rest_of s (Suc (Suc i)) = [a, b, c, d] @ cs @ 0x22 # r"
    using chars_unicode.prems by (simp_all add: rest_of_Cons)
  have four: "length [a, b, c, d] = 4" by simp
  have k: "rest_of s (Suc (Suc i) + 4) = cs @ 0x22 # r"
    by (rule rest_of_append [OF c(5), unfolded four])
  have "scan_hex s 4 (Suc (Suc i)) = Inr (Suc (Suc i) + 4)"
    unfolding scan_hex_rest using chars_unicode.hyps(1) c(5) k
    by (intro exI [of _ "[a, b, c, d]"]) (auto simp: hex_iff)
  moreover have "\<not> simple_escape 0x75" by (simp add: simple_escape_def)
  ultimately show ?case
    using c chars_unicode.IH [OF k]
    by (subst scan_string_loop.simps) (simp add: Let_def)
qed

lemma scanString_sound:
  assumes "scanString s i = Inr j" and "rest_of s i = 0x22 # r"
  shows "\<exists>t. jstring t \<and> rest_of s i = t @ rest_of s j"
proof -
  obtain cs where cs: "rest_of s (Suc i) = cs @ 0x22 # rest_of s j" "jchars cs"
    using scan_string_sound [of s i "i + 1" j] assms(1) by (auto simp: scanString_def)
  then have "jstring (0x22 # cs @ [0x22])" by (auto simp: jstring_def)
  moreover have "rest_of s i = (0x22 # cs @ [0x22]) @ rest_of s j"
    using cs assms(2) by (simp add: rest_of_Cons)
  ultimately show ?thesis by blast
qed

lemma scanString_complete:
  assumes "jstring t" and "rest_of s i = t @ r"
  shows "scanString s i = Inr (i + length t)"
proof -
  obtain cs where t: "t = 0x22 # cs @ [0x22]" "jchars cs"
    using assms(1) by (auto simp: jstring_def)
  then have "rest_of s (Suc i) = cs @ 0x22 # r"
    using assms(2) by (simp add: rest_of_Cons)
  from scan_string_complete [OF t(2) this] t show ?thesis
    by (simp add: scanString_def)
qed

section \<open>Numbers\<close>

definition stops :: "(nat \<Rightarrow> bool) \<Rightarrow> nat list \<Rightarrow> bool" where
  "stops p r \<longleftrightarrow> r = [] \<or> \<not> p (hd r)"

lemma skip_digits:
  assumes "rest_of s i = ds @ r" and "list_all isDecimalDigit ds" and "stops isDecimalDigit r"
  shows "skip_while isDecimalDigit s i = i + length ds"
proof -
  have "takeWhile isDecimalDigit (ds @ r) = ds"
    using assms(2,3) by (cases r) (auto simp: stops_def list_all_iff takeWhile_append)
  then show ?thesis by (simp add: skip_while_offset assms(1))
qed

lemma skip_digits_run:
  "\<exists>ds. list_all isDecimalDigit ds \<and>
        rest_of s i = ds @ rest_of s (skip_while isDecimalDigit s i) \<and>
        skip_while isDecimalDigit s i = i + length ds"
proof (intro exI conjI)
  show "rest_of s i = takeWhile isDecimalDigit (rest_of s i) @
      rest_of s (skip_while isDecimalDigit s i)"
    by (simp add: skip_while_rest)
qed (auto simp: skip_while_offset list_all_iff dest: set_takeWhileD)

lemma nonzero_digit: "isNonZeroDecimalDigit c \<longleftrightarrow> isDecimalDigit c \<and> c \<noteq> 0x30"
  by (auto simp: isNonZeroDecimalDigit_def isDecimalDigit_def)

lemma scan_integer_sound:
  assumes "scan_integer s st i = Inr j"
  shows "\<exists>n. jint n \<and> rest_of s i = n @ rest_of s j"
proof -
  have i: "i < length s" using assms by (auto simp: scan_integer_def split: if_splits)
  then have r: "rest_of s i = unat (s ! i) # rest_of s (Suc i)" by (simp add: rest_of_Cons)
  consider "unat (s ! i) = 0x30" "j = Suc i"
    | "isNonZeroDecimalDigit (unat (s ! i))" "j = skip_while isDecimalDigit s (Suc i)"
    using assms i by (auto simp: scan_integer_def Let_def split: if_splits)
  then show ?thesis
  proof cases
    case 1
    with r show ?thesis by (auto simp: jint_def)
  next
    case 2
    obtain ds where "list_all isDecimalDigit ds" "rest_of s (Suc i) = ds @ rest_of s j"
      using skip_digits_run [of s "Suc i"] 2 by auto
    with 2 r show ?thesis
      by (intro exI [of _ "unat (s ! i) # ds"]) (auto simp: jint_def jdigits_iff nonzero_digit)
  qed
qed

lemma scan_integer_complete:
  assumes "jint n" and "rest_of s i = n @ r" and "stops isDecimalDigit r"
  shows "scan_integer s st i = Inr (i + length n)"
proof (cases "n = [0x30]")
  case True
  with assms have "i < length s" "unat (s ! i) = 0x30" "rest_of s (Suc i) = r"
    by (auto simp: rest_of_Cons)
  moreover have "\<not> (Suc i < length s \<and> isDecimalDigit (unat (s ! Suc i)))"
  proof
    assume "Suc i < length s \<and> isDecimalDigit (unat (s ! Suc i))"
    then have "rest_of s (Suc i) = unat (s ! Suc i) # rest_of s (Suc (Suc i))"
      and "isDecimalDigit (unat (s ! Suc i))"
      by (auto simp: rest_of_Cons)
    with \<open>rest_of s (Suc i) = r\<close> assms(3) show False by (auto simp: stops_def)
  qed
  ultimately show ?thesis using True by (simp add: scan_integer_def Let_def)
next
  case False
  then obtain c ds where n: "n = c # ds" "isNonZeroDecimalDigit c" "list_all isDecimalDigit ds"
    using assms(1) by (cases n) (auto simp: jint_def jdigits_iff nonzero_digit)
  with assms(2) have "i < length s" "unat (s ! i) = c" "rest_of s (Suc i) = ds @ r"
    by (auto simp: rest_of_Cons)
  with n skip_digits [of s "Suc i" ds r] assms(3) show ?thesis
    by (simp add: scan_integer_def Let_def nonzero_digit)
qed

lemma scan_fraction_sound:
  assumes "scan_fraction s i = Inr j"
  shows "\<exists>f. jfrac f \<and> rest_of s i = f @ rest_of s j"
proof (cases "charCodeAt s i = Some 0x2e")
  case False
  with assms show ?thesis by (intro exI [of _ "[]"]) (simp add: scan_fraction_def jfrac_def)
next
  case True
  obtain ds where ds: "list_all isDecimalDigit ds" "rest_of s (Suc i) = ds @ rest_of s j" "ds \<noteq> []"
  proof -
    have "j = skip_while isDecimalDigit s (Suc i)" "j \<noteq> Suc i"
      using assms True by (auto simp: scan_fraction_def Let_def split: if_splits)
    with skip_digits_run [of s "Suc i"] that show thesis by force
  qed
  have "rest_of s i = 0x2e # rest_of s (Suc i)"
    using True by (auto simp: charCodeAt_Some rest_of_Cons)
  with ds have "rest_of s i = (0x2e # ds) @ rest_of s j" by simp
  moreover have "jfrac (0x2e # ds)" using ds by (simp add: jfrac_def jdigits_iff)
  ultimately show ?thesis by blast
qed

lemma scan_fraction_complete:
  assumes "jfrac f" and "rest_of s i = f @ r" and "stops (\<lambda>c. isDecimalDigit c \<or> c = 0x2e) r"
  shows "scan_fraction s i = Inr (i + length f)"
proof (cases "f = []")
  case True
  with assms have "charCodeAt s i \<noteq> Some 0x2e"
    by (auto simp: charCodeAt_rest stops_def split: list.splits)
  with True show ?thesis by (simp add: scan_fraction_def)
next
  case False
  then obtain ds where f: "f = 0x2e # ds" "ds \<noteq> []" "list_all isDecimalDigit ds"
    using assms(1) by (auto simp: jfrac_def jdigits_iff)
  have "charCodeAt s i = Some 0x2e" using assms(2) f by (simp add: charCodeAt_rest)
  moreover have "rest_of s (Suc i) = ds @ r" using assms(2) f by (simp add: rest_of_Cons)
  then have "skip_while isDecimalDigit s (Suc i) = Suc i + length ds"
    using f(3) assms(3) by (intro skip_digits) (auto simp: stops_def)
  ultimately show ?thesis using f by (simp add: scan_fraction_def Let_def)
qed

lemma scan_exponent_sound:
  assumes "scan_exponent s i = Inr j"
  shows "\<exists>e. jexp e \<and> rest_of s i = e @ rest_of s j"
proof (cases "charCodeAt s i = Some 0x45 \<or> charCodeAt s i = Some 0x65")
  case False
  with assms show ?thesis by (intro exI [of _ "[]"]) (simp add: scan_exponent_def jexp_def)
next
  case True
  then obtain m where m: "rest_of s i = m # rest_of s (Suc i)" "m \<in> {0x65, 0x45}"
    by (auto simp: charCodeAt_Some rest_of_Cons)
  define sg where "sg = (if charCodeAt s (Suc i) = Some 0x2b then [0x2b]
    else if charCodeAt s (Suc i) = Some 0x2d then [0x2d] else [] :: nat list)"
  define k where "k = Suc i + length sg"
  have sgk: "rest_of s (Suc i) = sg @ rest_of s k"
    by (auto simp: sg_def k_def charCodeAt_Some rest_of_Cons)
  have j: "j = skip_while isDecimalDigit s k" "j \<noteq> k"
    using assms True by (auto simp: scan_exponent_def Let_def sg_def k_def split: if_splits)
  obtain ds where ds: "list_all isDecimalDigit ds" "rest_of s k = ds @ rest_of s j" "ds \<noteq> []"
    using skip_digits_run [of s k] j by auto
  have "sg \<in> {[], [0x2b], [0x2d]}" by (simp add: sg_def)
  then have "jexp (m # sg @ ds)"
    unfolding jexp_def jdigits_iff using m ds by blast
  moreover have "rest_of s i = (m # sg @ ds) @ rest_of s j"
    using m(1) sgk ds(2) by simp
  ultimately show ?thesis by blast
qed

lemma scan_exponent_complete:
  assumes "jexp e" and "rest_of s i = e @ r"
    and "stops (\<lambda>c. isDecimalDigit c \<or> c = 0x45 \<or> c = 0x65) r"
  shows "scan_exponent s i = Inr (i + length e)"
proof (cases "e = []")
  case True
  with assms have "charCodeAt s i \<noteq> Some 0x45 \<and> charCodeAt s i \<noteq> Some 0x65"
    by (auto simp: charCodeAt_rest stops_def split: list.splits)
  with True show ?thesis by (simp add: scan_exponent_def)
next
  case False
  then obtain m sg ds where e: "e = m # sg @ ds" "m \<in> {0x65, 0x45}" "sg \<in> {[], [0x2b], [0x2d]}"
    "ds \<noteq> []" "list_all isDecimalDigit ds"
    using assms(1) by (auto simp: jexp_def jdigits_iff)
  have mark: "charCodeAt s i = Some 0x45 \<or> charCodeAt s i = Some 0x65"
    using assms(2) e(1,2) by (auto simp: charCodeAt_rest)
  have r1: "rest_of s (Suc i) = sg @ ds @ r" using assms(2) e(1) by (simp add: rest_of_Cons)
  define k where "k = Suc i + length sg"
  have "rest_of s k = ds @ r"
    unfolding k_def using r1 by (rule rest_of_append)
  then have skip: "skip_while isDecimalDigit s k = k + length ds"
    using e(5) assms(3) by (intro skip_digits) (auto simp: stops_def)
  have "k = (if charCodeAt s (i + 1) = Some 0x2b \<or> charCodeAt s (i + 1) = Some 0x2d then i + 2 else i + 1)"
    using r1 e(3,4,5)
    by (cases ds) (auto simp: k_def charCodeAt_rest isDecimalDigit_def)
  with mark skip e show ?thesis
    by (simp add: scan_exponent_def Let_def k_def [symmetric] split: if_splits)
      (auto simp: k_def)
qed

definition number_char :: "nat \<Rightarrow> bool" where
  "number_char c \<longleftrightarrow> isDecimalDigit c \<or> c = 0x2e \<or> c = 0x45 \<or> c = 0x65"

lemma jint_head: "jint i \<Longrightarrow> \<exists>c t. i = c # t \<and> isDecimalDigit c"
  by (cases i) (auto simp: jint_def jdigits_iff isDecimalDigit_def)

lemma scanNumber_sound:
  assumes "scanNumber s i = Inr j"
  shows "\<exists>n. jnumber n \<and> rest_of s i = n @ rest_of s j"
proof -
  define m where "m = (if charCodeAt s i = Some 0x2d then [0x2d] else [] :: nat list)"
  have m: "rest_of s i = m @ rest_of s (i + length m)" "m \<in> {[], [0x2d]}"
    by (auto simp: m_def charCodeAt_Some rest_of_Cons)
  obtain k l where kl: "scan_integer s i (i + length m) = Inr k" "scan_fraction s k = Inr l"
    "scan_exponent s l = Inr j"
    using assms by (auto simp: scanNumber_def m_def Let_def split: sum.splits if_splits)
  obtain n f e where nfe: "jint n" "rest_of s (i + length m) = n @ rest_of s k"
    "jfrac f" "rest_of s k = f @ rest_of s l" "jexp e" "rest_of s l = e @ rest_of s j"
    using scan_integer_sound [OF kl(1)] scan_fraction_sound [OF kl(2)] scan_exponent_sound [OF kl(3)]
    by blast
  then have "rest_of s i = (m @ n @ f @ e) @ rest_of s j" using m(1) by simp
  moreover have "jnumber (m @ n @ f @ e)"
    unfolding jnumber_def using m(2) nfe by blast
  ultimately show ?thesis by blast
qed

lemma scanNumber_complete:
  assumes "jnumber t" and "rest_of s i = t @ r" and r: "stops number_char r"
  shows "scanNumber s i = Inr (i + length t)"
proof -
  obtain m n f e where t: "t = m @ n @ f @ e" "m \<in> {[], [0x2d]}" "jint n" "jfrac f" "jexp e"
    using assms(1) by (auto simp: jnumber_def)
  obtain c n' where n: "n = c # n'" "isDecimalDigit c" using jint_head [OF t(3)] by blast
  have sign: "(if charCodeAt s i = Some 0x2d then i + 1 else i) = i + length m"
    using assms(2) t(1,2) n by (auto simp: charCodeAt_rest isDecimalDigit_def)
  have 1: "rest_of s (i + length m) = n @ f @ e @ r"
    using assms(2) t(1) by (simp add: rest_of_append)
  then have 2: "rest_of s (i + length m + length n) = f @ e @ r" by (rule rest_of_append)
  then have 3: "rest_of s (i + length m + length n + length f) = e @ r" by (rule rest_of_append)
  have er: "stops (\<lambda>c. isDecimalDigit c \<or> c = 0x2e) (e @ r)"
    using r t(5) by (auto simp: stops_def jexp_def number_char_def isDecimalDigit_def)
  have "stops isDecimalDigit (f @ e @ r)"
    using er t(4) by (auto simp: stops_def jfrac_def isDecimalDigit_def)
  moreover have "stops (\<lambda>c. isDecimalDigit c \<or> c = 0x45 \<or> c = 0x65) r"
    using r by (auto simp: stops_def number_char_def)
  ultimately show ?thesis
    using scan_integer_complete [OF t(3) 1, of i] scan_fraction_complete [OF t(4) 2 er]
      scan_exponent_complete [OF t(5) 3]
    by (simp add: scanNumber_def Let_def sign t(1) add.assoc)
qed

section \<open>Heads of values\<close>

lemma jstring_head: "jstring t \<Longrightarrow> \<exists>t'. t = 0x22 # t'"
  by (auto simp: jstring_def)

lemma jnumber_head: "jnumber t \<Longrightarrow> \<exists>c t'. t = c # t' \<and> (c = 0x2d \<or> isDecimalDigit c)"
  using jint_head by (fastforce simp: jnumber_def)

lemmas value_heads = jstring_head jnumber_head

lemma ascii_literals:
  "ascii ''true'' = [0x74, 0x72, 0x75, 0x65]"
  "ascii ''false'' = [0x66, 0x61, 0x6c, 0x73, 0x65]"
  "ascii ''null'' = [0x6e, 0x75, 0x6c, 0x6c]"
  by (simp_all add: ascii_def)

lemma jvalue_head: "jvalue v \<Longrightarrow> \<exists>c t. v = c # t \<and> \<not> isJsonWhitespace c"
  by (erule jvalue_elim)
    (auto simp: ascii_literals isJsonWhitespace_def isDecimalDigit_def dest!: value_heads)

lemma jvalue_string: "jvalue (0x22 # t) \<longleftrightarrow> jstring (0x22 # t)"
  by (rule iffI, erule jvalue_Cons_elim)
    (auto simp: ascii_literals isDecimalDigit_def dest!: jnumber_head intro: value_string)

lemma jvalue_number: "c = 0x2d \<or> isDecimalDigit c \<Longrightarrow> jvalue (c # t) \<longleftrightarrow> jnumber (c # t)"
  by (rule iffI, erule jvalue_Cons_elim)
    (auto simp: ascii_literals isDecimalDigit_def dest!: jstring_head intro: value_number)

lemma jvalue_array:
  "jvalue (0x5b # x) \<longleftrightarrow>
   (\<exists>w. ws w \<and> x = w @ [0x5d]) \<or> (\<exists>w v t. ws w \<and> jvalue v \<and> jelements t \<and> x = w @ v @ t)"
  by (rule iffI, erule jvalue_Cons_elim)
    (auto simp: ascii_literals isDecimalDigit_def dest!: value_heads
      intro: value_array value_array_empty)

lemma jvalue_object:
  "jvalue (0x7b # x) \<longleftrightarrow>
   (\<exists>w. ws w \<and> x = w @ [0x7d]) \<or>
   (\<exists>w1 k w2 w3 v t. ws w1 \<and> jstring k \<and> ws w2 \<and> ws w3 \<and> jvalue v \<and> jmembers t \<and>
      x = w1 @ k @ w2 @ 0x3a # w3 @ v @ t)" (is "_ \<longleftrightarrow> ?e \<or> ?m")
proof
  assume "jvalue (0x7b # x)"
  then show "?e \<or> ?m"
    by (rule jvalue_Cons_elim)
      ((auto simp: ascii_literals isDecimalDigit_def dest!: value_heads; fail) | blast)+
next
  assume "?e \<or> ?m"
  then show "jvalue (0x7b # x)" by (elim disjE exE) (auto intro: value_object value_object_empty)
qed

lemma jvalue_literal:
  assumes "c \<notin> {0x22, 0x2d, 0x5b, 0x7b}" and "\<not> isDecimalDigit c"
  shows "jvalue (c # t) \<longleftrightarrow> c # t \<in> {ascii ''true'', ascii ''false'', ascii ''null''}"
proof
  assume "jvalue (c # t)"
  then show "c # t \<in> {ascii ''true'', ascii ''false'', ascii ''null''}"
    using assms by (cases rule: jvalue_Cons_elim) (auto dest!: value_heads)
qed (auto intro: value_true value_false value_null)

section \<open>The language of a frame stack\<close>

definition array_rest :: "(nat list \<Rightarrow> bool) \<Rightarrow> nat list \<Rightarrow> bool" where
  "array_rest L r \<longleftrightarrow> (\<exists>w v t c. r = w @ v @ t @ c \<and> ws w \<and> jvalue v \<and> jelements t \<and> L c)"

definition members_rest :: "(nat list \<Rightarrow> bool) \<Rightarrow> nat list \<Rightarrow> bool" where
  "members_rest L r \<longleftrightarrow> (\<exists>w v t c. r = w @ v @ t @ c \<and> ws w \<and> jvalue v \<and> jmembers t \<and> L c)"

definition colon_rest :: "(nat list \<Rightarrow> bool) \<Rightarrow> nat list \<Rightarrow> bool" where
  "colon_rest L r \<longleftrightarrow> (\<exists>w c. r = w @ 0x3a # c \<and> ws w \<and> members_rest L c)"

definition key_rest :: "(nat list \<Rightarrow> bool) \<Rightarrow> nat list \<Rightarrow> bool" where
  "key_rest L r \<longleftrightarrow> (\<exists>w k c. r = w @ k @ c \<and> ws w \<and> jstring k \<and> colon_rest L c)"

definition close_rest :: "nat \<Rightarrow> (nat list \<Rightarrow> bool) \<Rightarrow> nat list \<Rightarrow> bool" where
  "close_rest b L r \<longleftrightarrow> (\<exists>w c. r = w @ b # c \<and> ws w \<and> L c)"

fun frame_lang :: "json_frame \<Rightarrow> (nat list \<Rightarrow> bool) \<Rightarrow> nat list \<Rightarrow> bool" where
  "frame_lang (RootFrame RootDone) L r \<longleftrightarrow> ws r"
| "frame_lang (RootFrame RootValue) L r \<longleftrightarrow> json_text r"
| "frame_lang (ArrayFrame ACommaOrEnd) L r \<longleftrightarrow> (\<exists>t c. r = t @ c \<and> jelements t \<and> L c)"
| "frame_lang (ArrayFrame AValue) L r \<longleftrightarrow> array_rest L r"
| "frame_lang (ArrayFrame AValueOrEnd) L r \<longleftrightarrow> close_rest 0x5d L r \<or> array_rest L r"
| "frame_lang (ObjectFrame OCommaOrEnd) L r \<longleftrightarrow> (\<exists>t c. r = t @ c \<and> jmembers t \<and> L c)"
| "frame_lang (ObjectFrame OValue) L r \<longleftrightarrow> members_rest L r"
| "frame_lang (ObjectFrame OColon) L r \<longleftrightarrow> colon_rest L r"
| "frame_lang (ObjectFrame OKey) L r \<longleftrightarrow> key_rest L r"
| "frame_lang (ObjectFrame OKeyOrEnd) L r \<longleftrightarrow> close_rest 0x7d L r \<or> key_rest L r"

fun stack_lang :: "json_frame list \<Rightarrow> nat list \<Rightarrow> bool" where
  "stack_lang [] r \<longleftrightarrow> False"
| "stack_lang (f # fs) r \<longleftrightarrow> frame_lang f (stack_lang fs) r"

lemma stack_lang_Cons: "stack_lang (f # fs) = frame_lang f (stack_lang fs)"
  by (rule ext) simp

text \<open>What a frame accepts at its first character that is not white space.\<close>

definition value_then :: "json_frame \<Rightarrow> (nat list \<Rightarrow> bool) \<Rightarrow> nat list \<Rightarrow> bool" where
  "value_then f L x \<longleftrightarrow> (\<exists>v c. x = v @ c \<and> jvalue v \<and> frame_lang (completeValue f) L c)"

definition char_then :: "nat \<Rightarrow> (nat list \<Rightarrow> bool) \<Rightarrow> nat list \<Rightarrow> bool" where
  "char_then b L x \<longleftrightarrow> (\<exists>c. x = b # c \<and> L c)"

definition key_then :: "(nat list \<Rightarrow> bool) \<Rightarrow> nat list \<Rightarrow> bool" where
  "key_then L x \<longleftrightarrow> (\<exists>k c. x = k @ c \<and> jstring k \<and> colon_rest L c)"

fun token_lang :: "json_frame \<Rightarrow> (nat list \<Rightarrow> bool) \<Rightarrow> nat list \<Rightarrow> bool" where
  "token_lang (RootFrame RootDone) L x \<longleftrightarrow> x = []"
| "token_lang (RootFrame RootValue) L x \<longleftrightarrow> value_then (RootFrame RootValue) L x"
| "token_lang (ArrayFrame ACommaOrEnd) L x \<longleftrightarrow>
     char_then 0x5d L x \<or> char_then 0x2c (frame_lang (ArrayFrame AValue) L) x"
| "token_lang (ArrayFrame AValue) L x \<longleftrightarrow> value_then (ArrayFrame AValue) L x"
| "token_lang (ArrayFrame AValueOrEnd) L x \<longleftrightarrow>
     char_then 0x5d L x \<or> value_then (ArrayFrame AValueOrEnd) L x"
| "token_lang (ObjectFrame OCommaOrEnd) L x \<longleftrightarrow>
     char_then 0x7d L x \<or> char_then 0x2c (frame_lang (ObjectFrame OKey) L) x"
| "token_lang (ObjectFrame OValue) L x \<longleftrightarrow> value_then (ObjectFrame OValue) L x"
| "token_lang (ObjectFrame OColon) L x \<longleftrightarrow> char_then 0x3a (frame_lang (ObjectFrame OValue) L) x"
| "token_lang (ObjectFrame OKey) L x \<longleftrightarrow> key_then L x"
| "token_lang (ObjectFrame OKeyOrEnd) L x \<longleftrightarrow> char_then 0x7d L x \<or> key_then L x"

definition lead :: "(nat list \<Rightarrow> bool) \<Rightarrow> nat list \<Rightarrow> bool" where
  "lead Q r \<longleftrightarrow> (\<exists>w x. r = w @ x \<and> ws w \<and> Q x)"

lemma leadI: "ws w \<Longrightarrow> Q x \<Longrightarrow> lead Q (w @ x)"
  by (auto simp: lead_def)

lemma lead_cong: "(\<And>x. P x \<longleftrightarrow> Q x) \<Longrightarrow> lead P r \<longleftrightarrow> lead Q r"
  by (simp add: lead_def)

lemmas lead_token = token_lang.simps [THEN lead_cong]

lemma lead_disj: "lead (\<lambda>x. P x \<or> Q x) r \<longleftrightarrow> lead P r \<or> lead Q r"
  by (auto simp: lead_def)

lemma jelements_iff:
  "jelements t \<longleftrightarrow> lead (\<lambda>x. x = [0x5d] \<or> (\<exists>w v t'. x = 0x2c # w @ v @ t' \<and> ws w \<and> jvalue v \<and> jelements t')) t"
  (is "_ \<longleftrightarrow> ?r")
proof
  assume "jelements t"
  then show ?r by (rule jelements_elim) (unfold lead_def, blast+)
next
  assume ?r
  then show "jelements t" by (auto simp: lead_def intro: elements_end elements_more)
qed

lemma jmembers_iff:
  "jmembers t \<longleftrightarrow> lead (\<lambda>x. x = [0x7d] \<or> (\<exists>w1 k w2 w3 v t'. x = 0x2c # w1 @ k @ w2 @ 0x3a # w3 @ v @ t' \<and>
      ws w1 \<and> jstring k \<and> ws w2 \<and> ws w3 \<and> jvalue v \<and> jmembers t')) t"
  (is "_ \<longleftrightarrow> ?r")
proof
  assume "jmembers t"
  then show ?r by (rule jmembers_elim) (unfold lead_def, blast+)
next
  assume ?r
  then show "jmembers t" by (auto simp: lead_def intro: members_end members_more)
qed


lemma lead_elements:
  "(\<exists>t c. r = t @ c \<and> jelements t \<and> L c) \<longleftrightarrow> lead (token_lang (ArrayFrame ACommaOrEnd) L) r"
proof
  assume "\<exists>t c. r = t @ c \<and> jelements t \<and> L c"
  then obtain t c where r: "r = t @ c" and t: "jelements t" and c: "L c" by blast
  from t show "lead (token_lang (ArrayFrame ACommaOrEnd) L) r"
  proof (rule jelements_elim)
    fix w
    assume 1: "t = w @ [0x5d]" "ws w"
    then show ?thesis
      unfolding r 1(1) append_assoc by (intro leadI) (simp_all add: char_then_def c)
  next
    fix w1 w2 v t'
    assume 2: "t = w1 @ 0x2c # w2 @ v @ t'" "ws w1" "ws w2" "jvalue v" "jelements t'"
    then have "array_rest L (w2 @ v @ t' @ c)" unfolding array_rest_def using c by blast
    with 2 show ?thesis
      unfolding r 2(1) append_assoc by (intro leadI) (simp_all add: char_then_def)
  qed
next
  assume "lead (token_lang (ArrayFrame ACommaOrEnd) L) r"
  then consider (close) w c where "r = w @ 0x5d # c" "ws w" "L c"
    | (more) w c where "r = w @ 0x2c # c" "ws w" "array_rest L c"
    by (auto simp: lead_def char_then_def)
  then show "\<exists>t c. r = t @ c \<and> jelements t \<and> L c"
  proof cases
    case (close w c)
    then show ?thesis using elements_end [of w] by (intro exI [of _ "w @ [0x5d]"] exI [of _ c]) simp
  next
    case (more w c)
    then obtain w2 v t d where "c = w2 @ v @ t @ d" "ws w2" "jvalue v" "jelements t" "L d"
      by (auto simp: array_rest_def)
    with more elements_more [of w w2 v t] show ?thesis
      by (intro exI [of _ "w @ 0x2c # w2 @ v @ t"] exI [of _ d]) simp
  qed
qed

lemma lead_members:
  "(\<exists>t c. r = t @ c \<and> jmembers t \<and> L c) \<longleftrightarrow> lead (token_lang (ObjectFrame OCommaOrEnd) L) r"
proof
  assume "\<exists>t c. r = t @ c \<and> jmembers t \<and> L c"
  then obtain t c where r: "r = t @ c" and t: "jmembers t" and c: "L c" by blast
  from t show "lead (token_lang (ObjectFrame OCommaOrEnd) L) r"
  proof (rule jmembers_elim)
    fix w
    assume 1: "t = w @ [0x7d]" "ws w"
    then show ?thesis
      unfolding r 1(1) append_assoc by (intro leadI) (simp_all add: char_then_def c)
  next
    fix w0 w1 k w2 w3 v t'
    assume 2: "t = w0 @ 0x2c # w1 @ k @ w2 @ 0x3a # w3 @ v @ t'" "ws w0" "ws w1" "jstring k"
      "ws w2" "ws w3" "jvalue v" "jmembers t'"
    then have "members_rest L (w3 @ v @ t' @ c)" unfolding members_rest_def using c by blast
    with 2 have "colon_rest L (w2 @ 0x3a # w3 @ v @ t' @ c)" unfolding colon_rest_def by blast
    with 2 have "key_rest L (w1 @ k @ w2 @ 0x3a # w3 @ v @ t' @ c)" unfolding key_rest_def by blast
    with 2 show ?thesis
      unfolding r 2(1) append_assoc by (intro leadI) (simp_all add: char_then_def)
  qed
next
  assume "lead (token_lang (ObjectFrame OCommaOrEnd) L) r"
  then consider (close) w c where "r = w @ 0x7d # c" "ws w" "L c"
    | (more) w c where "r = w @ 0x2c # c" "ws w" "key_rest L c"
    by (auto simp: lead_def char_then_def)
  then show "\<exists>t c. r = t @ c \<and> jmembers t \<and> L c"
  proof cases
    case (close w c)
    then show ?thesis using members_end [of w] by (intro exI [of _ "w @ [0x7d]"] exI [of _ c]) simp
  next
    case (more w c)
    then obtain w1 k w2 w3 v t d where "c = w1 @ k @ w2 @ 0x3a # w3 @ v @ t @ d" "ws w1" "jstring k"
      "ws w2" "ws w3" "jvalue v" "jmembers t" "L d"
      by (auto simp: key_rest_def colon_rest_def members_rest_def)
    with more members_more [of w w1 k w2 w3 v t] show ?thesis
      by (intro exI [of _ "w @ 0x2c # w1 @ k @ w2 @ 0x3a # w3 @ v @ t"] exI [of _ d]) simp
  qed
qed

lemma value_then_lead:
  "json_text r \<longleftrightarrow> lead (value_then (RootFrame RootValue) L) r"
  "array_rest L r \<longleftrightarrow> lead (value_then (ArrayFrame st) L) r"
  "members_rest L r \<longleftrightarrow> lead (value_then (ObjectFrame ot) L) r"
  by (auto simp: json_text_def array_rest_def members_rest_def lead_def value_then_def
      completeValue_def) blast+

lemma frame_lang_lead: "f \<noteq> RootFrame RootDone \<Longrightarrow> frame_lang f L r \<longleftrightarrow> lead (token_lang f L) r"
proof (cases f)
  case (RootFrame st)
  moreover assume "f \<noteq> RootFrame RootDone"
  ultimately show ?thesis 
    by (cases st) (simp_all add: lead_token value_then_lead(1) [of r L])
next
  case (ArrayFrame st)
  have "close_rest b L r \<longleftrightarrow> lead (char_then b L) r" for b
    by (auto simp: close_rest_def lead_def char_then_def)
  with ArrayFrame show ?thesis
    using lead_elements [of r L]
    by (cases st) (simp_all add: lead_token value_then_lead(2) [of L r st] lead_disj)
next
  case (ObjectFrame st)
  have "close_rest b L r \<longleftrightarrow> lead (char_then b L) r" for b
    by (auto simp: close_rest_def lead_def char_then_def)
  moreover have "key_rest L r \<longleftrightarrow> lead (key_then L) r"
    by (auto simp: key_rest_def lead_def key_then_def)
  moreover have "colon_rest L r \<longleftrightarrow> lead (char_then 0x3a (frame_lang (ObjectFrame OValue) L)) r"
    by (auto simp: colon_rest_def lead_def char_then_def)
  ultimately show ?thesis
    using lead_members [of r L] ObjectFrame
    by (cases st) (simp_all add: lead_token value_then_lead(3) [of L r st] lead_disj)
qed

lemma token_lang_head:
  assumes "token_lang f L x" and "f \<noteq> RootFrame RootDone"
  shows "x \<noteq> [] \<and> \<not> isJsonWhitespace (hd x)"
proof -
  have v: "value_then g L x \<Longrightarrow> x \<noteq> [] \<and> \<not> isJsonWhitespace (hd x)" for g
    using jvalue_head by (fastforce simp: value_then_def)
  have k: "key_then L x \<Longrightarrow> x \<noteq> [] \<and> \<not> isJsonWhitespace (hd x)"
    using jstring_head by (fastforce simp: key_then_def isJsonWhitespace_def)
  have c: "char_then b M x \<Longrightarrow> \<not> isJsonWhitespace b \<Longrightarrow> x \<noteq> [] \<and> \<not> isJsonWhitespace (hd x)" for b M
    by (auto simp: char_then_def)
  show ?thesis
  proof (cases f)
    case (RootFrame st)
    then show ?thesis using assms v by (cases st) auto
  next
    case (ArrayFrame st)
    have "\<not> isJsonWhitespace 0x5d" "\<not> isJsonWhitespace 0x2c" by (simp_all add: isJsonWhitespace_def)
    then show ?thesis using assms(1) v c ArrayFrame by (cases st) auto
  next
    case (ObjectFrame st)
    have "\<not> isJsonWhitespace 0x7d" "\<not> isJsonWhitespace 0x2c" "\<not> isJsonWhitespace 0x3a"
      by (simp_all add: isJsonWhitespace_def)
    then show ?thesis using assms(1) v k c ObjectFrame by (cases st) auto
  qed
qed

lemma lead_dropWhile:
  assumes "\<And>x. Q x \<Longrightarrow> x \<noteq> [] \<and> \<not> isJsonWhitespace (hd x)"
  shows "lead Q r \<longleftrightarrow> Q (dropWhile isJsonWhitespace r)"
proof
  assume "lead Q r"
  then obtain w x where r: "r = w @ x" "ws w" "Q x" by (auto simp: lead_def)
  then have "dropWhile isJsonWhitespace r = dropWhile isJsonWhitespace x"
    by (simp add: ws_iff list_all_iff)
  also have "\<dots> = x" using assms [OF r(3)] by (cases x) auto
  finally show "Q (dropWhile isJsonWhitespace r)" using r by simp
next
  assume "Q (dropWhile isJsonWhitespace r)"
  moreover have "ws (takeWhile isJsonWhitespace r)"
    by (auto simp: ws_iff list_all_iff dest: set_takeWhileD)
  ultimately show "lead Q r" unfolding lead_def by (metis takeWhile_dropWhile_id)
qed

lemma frame_lang_token: "frame_lang f L r \<longleftrightarrow> token_lang f L (dropWhile isJsonWhitespace r)"
proof (cases "f = RootFrame RootDone")
  case True
  then show ?thesis by (simp add: ws_iff list_all_iff dropWhile_eq_Nil_conv)
next
  case False
  then show ?thesis
    using lead_dropWhile [OF token_lang_head [OF _ False]] by (simp add: frame_lang_lead)
qed

section \<open>One turn of the loop\<close>

lemma unat_js: "map unat (js t) = ascii t"
proof -
  have "unat (word_of_nat (of_char c) :: code_unit) = of_char c" for c
  proof -
    have "of_char c < (2 :: nat) ^ 16" by (rule less_trans [OF nat_of_char_less_256]) simp
    then show ?thesis by (simp add: unsigned_of_nat take_bit_nat_eq_self)
  qed
  then show ?thesis by (simp add: js_def ascii_def)
qed

lemma starts_with_rest: "starts_with (drop i s) (js t) \<longleftrightarrow> (\<exists>r. rest_of s i = ascii t @ r)"
proof -
  have "starts_with (drop i s) (js t) \<longleftrightarrow> map unat (take (length t) (drop i s)) = map unat (js t)"
    by (subst inj_map_eq_map) (auto simp: starts_with_def js_def inj_def intro: unsigned_word_eqI)
  also have "\<dots> \<longleftrightarrow> take (length (ascii t)) (rest_of s i) = ascii t"
    by (simp add: unat_js rest_of_def codes_def take_map drop_map ascii_def)
  also have "\<dots> \<longleftrightarrow> (\<exists>r. rest_of s i = ascii t @ r)"
    by (metis append_eq_conv_conj)
  finally show ?thesis .
qed

lemma stops_lead:
  assumes "lead Q c" and "\<And>x. Q x \<Longrightarrow> \<exists>b d. x = b # d \<and> \<not> number_char b"
  shows "stops number_char c"
proof -
  obtain w b d where c: "c = w @ b # d" "ws w" "\<not> number_char b"
    using assms by (fastforce simp: lead_def)
  then show ?thesis
    by (cases w) (auto simp: ws_def stops_def number_char_def isDecimalDigit_def)
qed

lemma completed_stops: "frame_lang (completeValue f) L c \<Longrightarrow> stops number_char c"
proof (cases f)
  case (RootFrame st)
  assume "frame_lang (completeValue f) L c"
  with RootFrame show ?thesis
    by (cases c) (auto simp: completeValue_def ws_def stops_def number_char_def isDecimalDigit_def)
next
  case (ArrayFrame st)
  assume "frame_lang (completeValue f) L c"
  with ArrayFrame have "lead (token_lang (ArrayFrame ACommaOrEnd) L) c"
    by (simp add: completeValue_def lead_elements)
  then show ?thesis
    by (rule stops_lead) (auto simp: char_then_def number_char_def isDecimalDigit_def)
next
  case (ObjectFrame st)
  assume "frame_lang (completeValue f) L c"
  with ObjectFrame have "lead (token_lang (ObjectFrame OCommaOrEnd) L) c"
    by (simp add: completeValue_def lead_members)
  then show ?thesis
    by (rule stops_lead) (auto simp: char_then_def number_char_def isDecimalDigit_def)
qed

definition outcome_ok :: "js_string \<Rightarrow> bool \<Rightarrow> json_outcome \<Rightarrow> bool" where
  "outcome_ok s A out \<longleftrightarrow>
     (case out of Failed f \<Rightarrow> \<not> A \<and> fail_offset f \<le> length s
      | Accepted \<Rightarrow> A
      | Continue j fs \<Rightarrow> A \<longleftrightarrow> stack_lang fs (rest_of s j))"

lemma json_fail_offset: "fail_offset (json_fail s m i) \<le> length s"
  by (simp add: json_fail_def)

lemma scan_hex_fail: "scan_hex s n i = Inl f \<Longrightarrow> fail_offset f \<le> length s"
  by (induction s n i rule: scan_hex.induct) (auto simp: json_fail_offset split: if_splits)

lemma scan_string_fail: "scan_string_loop s st i = Inl f \<Longrightarrow> fail_offset f \<le> length s"
proof (induction "length s - i" arbitrary: i rule: less_induct)
  case less
  have IH: "fail_offset f \<le> length s"
    if "scan_string_loop s st k = Inl f" "i < k" "i < length s" for k
    using that less.hyps [of k] by simp
  from less.prems show ?case
    by (subst (asm) scan_string_loop.simps)
      (auto simp: Let_def json_fail_offset split: if_splits sum.splits
        dest: IH scan_hex_fail dest!: scan_hex_offset)
qed

lemma scan_fail:
  "scanString s i = Inl f \<Longrightarrow> fail_offset f \<le> length s"
  "scanNumber s i = Inl f \<Longrightarrow> fail_offset f \<le> length s"
  by (auto simp: scanString_def scanNumber_def scan_integer_def scan_fraction_def scan_exponent_def
      Let_def json_fail_offset dest: scan_string_fail split: if_splits sum.splits)

lemma key_rest_iff:
  "key_rest L x \<longleftrightarrow> (\<exists>m d. x = m @ d \<and> L d \<and>
     (\<exists>w1 k w2 w3 v t. ws w1 \<and> jstring k \<and> ws w2 \<and> ws w3 \<and> jvalue v \<and> jmembers t \<and>
        m = w1 @ k @ w2 @ 0x3a # w3 @ v @ t))" (is "_ \<longleftrightarrow> ?r")
proof
  assume "key_rest L x"
  then obtain w1 k w2 w3 v t d where "x = w1 @ k @ w2 @ 0x3a # w3 @ v @ t @ d" "L d"
    "ws w1" "jstring k" "ws w2" "ws w3" "jvalue v" "jmembers t"
    by (auto simp: key_rest_def colon_rest_def members_rest_def)
  then have "x = (w1 @ k @ w2 @ 0x3a # w3 @ v @ t) @ d" by simp
  with \<open>L d\<close> \<open>ws w1\<close> \<open>jstring k\<close> \<open>ws w2\<close> \<open>ws w3\<close> \<open>jvalue v\<close> \<open>jmembers t\<close> show ?r by blast
next
  assume ?r
  then obtain w1 k w2 w3 v t d where x: "x = w1 @ k @ w2 @ 0x3a # w3 @ v @ t @ d" "L d"
    "ws w1" "jstring k" "ws w2" "ws w3" "jvalue v" "jmembers t"
    by auto
  then have "members_rest L (w3 @ v @ t @ d)" unfolding members_rest_def by blast
  with x have "colon_rest L (w2 @ 0x3a # w3 @ v @ t @ d)" unfolding colon_rest_def by blast
  with x show "key_rest L x" unfolding key_rest_def by blast
qed

lemma close_rest_iff: "close_rest b L x \<longleftrightarrow> (\<exists>m d. x = m @ d \<and> L d \<and> (\<exists>w. ws w \<and> m = w @ [b]))"
  (is "_ \<longleftrightarrow> ?r")
proof
  assume "close_rest b L x"
  then obtain w d where "x = w @ b # d" "ws w" "L d" by (auto simp: close_rest_def)
  then have "x = (w @ [b]) @ d" by simp
  with \<open>ws w\<close> \<open>L d\<close> show ?r by blast
next
  assume ?r
  then obtain w d where "x = w @ b # d" "ws w" "L d" by auto
  then show "close_rest b L x" unfolding close_rest_def by blast
qed

lemma object_rest:
  "(\<exists>v d. x = v @ d \<and> jvalue (0x7b # v) \<and> L d) \<longleftrightarrow> frame_lang (ObjectFrame OKeyOrEnd) L x"
proof -
  have split: "(\<exists>v d. x = v @ d \<and> (A v \<or> B v) \<and> L d) \<longleftrightarrow>
      (\<exists>m d. x = m @ d \<and> L d \<and> A m) \<or> (\<exists>m d. x = m @ d \<and> L d \<and> B m)" for A B
    by blast
  show ?thesis
    unfolding jvalue_object frame_lang.simps close_rest_iff key_rest_iff by (rule split)
qed

lemma array_rest_iff:
  "(\<exists>v d. x = v @ d \<and> jvalue (0x5b # v) \<and> L d) \<longleftrightarrow> frame_lang (ArrayFrame AValueOrEnd) L x"
proof -
  have "array_rest L x \<longleftrightarrow> (\<exists>m d. x = m @ d \<and> L d \<and>
      (\<exists>w v t. ws w \<and> jvalue v \<and> jelements t \<and> m = w @ v @ t))"
    (is "_ \<longleftrightarrow> ?r")
  proof
    assume "array_rest L x"
    then obtain w v t d where w: "x = w @ v @ t @ d" "ws w" "jvalue v" "jelements t" "L d"
      by (auto simp: array_rest_def)
    then have "x = (w @ v @ t) @ d" by simp
    with w show ?r by blast
  next
    assume ?r
    then obtain w v t d where "x = w @ v @ t @ d" "ws w" "jvalue v" "jelements t" "L d" by auto
    then show "array_rest L x" unfolding array_rest_def by blast
  qed
  moreover have split: "(\<exists>v d. x = v @ d \<and> (A v \<or> B v) \<and> L d) \<longleftrightarrow>
      (\<exists>m d. x = m @ d \<and> L d \<and> A m) \<or> (\<exists>m d. x = m @ d \<and> L d \<and> B m)" for A B
    by blast
  ultimately show ?thesis
    unfolding jvalue_array frame_lang.simps close_rest_iff by (simp only: split)
qed

text \<open>A token whose end the scanner determines: splitting it off is the same as scanning it.\<close>

lemma token_unique:
  assumes "rest_of s i = c # x"
    and "\<And>v d. x = v @ d \<Longrightarrow> P (c # v) \<Longrightarrow> L d \<Longrightarrow> j = i + length (c # v)"
    and "\<exists>t. P t \<and> rest_of s i = t @ rest_of s j"
    and "\<And>t. P t \<Longrightarrow> t \<noteq> []"
  shows "(\<exists>v d. x = v @ d \<and> P (c # v) \<and> L d) \<longleftrightarrow> L (rest_of s j)"
proof
  assume "\<exists>v d. x = v @ d \<and> P (c # v) \<and> L d"
  then obtain v d where v: "x = v @ d" "P (c # v)" "L d" by blast
  then have "rest_of s (i + length (c # v)) = d"
    using assms(1) by (intro rest_of_append) simp
  with assms(2) [OF v] v show "L (rest_of s j)" by metis
next
  assume "L (rest_of s j)"
  moreover obtain t where t: "P t" "rest_of s i = t @ rest_of s j" using assms(3) by blast
  moreover obtain b t' where "t = b # t'" using assms(4) [OF t(1)] by (cases t) auto
  ultimately show "\<exists>v d. x = v @ d \<and> P (c # v) \<and> L d" using assms(1) by auto
qed

lemma consumeValue_ok:
  "outcome_ok s (value_then f (stack_lang fs) (rest_of s i)) (consumeValue s i f fs)"
proof (cases "rest_of s i")
  case Nil
  then have "length s \<le> i" by (simp add: rest_of_Nil)
  with Nil show ?thesis
    by (auto simp: consumeValue_def outcome_ok_def value_then_def json_fail_offset dest: jvalue_head)
next
  case (Cons c x)
  then have i: "i < length s" "unat (s ! i) = c" "rest_of s (Suc i) = x"
    by (simp_all add: rest_of_Cons)
  let ?L = "frame_lang (completeValue f) (stack_lang fs)"
  have V: "value_then f (stack_lang fs) (rest_of s i) \<longleftrightarrow> (\<exists>v d. x = v @ d \<and> jvalue (c # v) \<and> ?L d)"
  proof
    assume "value_then f (stack_lang fs) (rest_of s i)"
    then obtain v d where v: "c # x = v @ d" "jvalue v" "?L d" by (auto simp: value_then_def Cons)
    moreover obtain c' v' where "v = c' # v'" using jvalue_head [OF v(2)] by blast
    ultimately show "\<exists>v d. x = v @ d \<and> jvalue (c # v) \<and> ?L d" by auto
  next
    assume "\<exists>v d. x = v @ d \<and> jvalue (c # v) \<and> ?L d"
    then obtain v d where "x = v @ d" "jvalue (c # v)" "?L d" by blast
    then show "value_then f (stack_lang fs) (rest_of s i)"
      unfolding value_then_def Cons by (intro exI [of _ "c # v"] exI [of _ d]) simp
  qed
  consider (object) "c = 0x7b" | (array) "c = 0x5b" | (string) "c = 0x22"
    | (number) "c = 0x2d \<or> isDecimalDigit c" | (other) "c \<notin> {0x22, 0x2d, 0x5b, 0x7b}" "\<not> isDecimalDigit c"
    by blast
  then show ?thesis
  proof cases
    case object
    with object_rest [of x ?L] i V show ?thesis by (simp add: consumeValue_def outcome_ok_def stack_lang_Cons)
  next
    case array
    with array_rest_iff [of x ?L] i V show ?thesis by (simp add: consumeValue_def outcome_ok_def stack_lang_Cons)
  next
    case string
    show ?thesis
    proof (cases "scanString s i")
      case (Inl e)
      have "\<not> jstring (0x22 # v)" if "x = v @ d" for v d
        using scanString_complete [of "0x22 # v" s i d] Inl Cons string that by auto
      with Inl string i V show ?thesis
        by (auto simp: consumeValue_def outcome_ok_def jvalue_string dest: scan_fail)
    next
      case (Inr j)
      have "(\<exists>v d. x = v @ d \<and> jstring (0x22 # v) \<and> ?L d) \<longleftrightarrow> ?L (rest_of s j)"
      proof (rule token_unique)
        show "rest_of s i = 0x22 # x" using Cons string by simp
        show "j = i + length (0x22 # v)" if "x = v @ d" "jstring (0x22 # v)" for v d
          using scanString_complete [of "0x22 # v" s i d] that Inr Cons string by simp
        show "\<exists>t. jstring t \<and> rest_of s i = t @ rest_of s j"
          using Cons string by (intro scanString_sound [OF Inr]) simp
      qed (auto dest: jstring_head)
      with Inr string i V show ?thesis
        by (simp add: consumeValue_def outcome_ok_def jvalue_string)
    qed
  next
    case number
    then have nc: "c \<noteq> 0x7b" "c \<noteq> 0x5b" "c \<noteq> 0x22" by (auto simp: isDecimalDigit_def)
    show ?thesis
    proof (cases "scanNumber s i")
      case (Inl e)
      have "\<not> jnumber (c # v)" if "x = v @ d" "?L d" for v d
        using scanNumber_complete [of "c # v" s i d] completed_stops [OF that(2)] Inl Cons that(1)
        by auto
      with Inl number nc i V show ?thesis
        by (auto simp: consumeValue_def outcome_ok_def jvalue_number dest: scan_fail)
    next
      case (Inr j)
      have "(\<exists>v d. x = v @ d \<and> jnumber (c # v) \<and> ?L d) \<longleftrightarrow> ?L (rest_of s j)"
      proof (rule token_unique)
        show "rest_of s i = c # x" by (rule Cons)
        show "j = i + length (c # v)" if "x = v @ d" "jnumber (c # v)" "?L d" for v d
          using scanNumber_complete [of "c # v" s i d] completed_stops [OF that(3)] that Inr Cons by simp
        show "\<exists>t. jnumber t \<and> rest_of s i = t @ rest_of s j"
          by (rule scanNumber_sound [OF Inr])
      qed (auto dest: jnumber_head)
      with Inr number nc i V show ?thesis
        by (simp add: consumeValue_def outcome_ok_def jvalue_number)
    qed
  next
    case other
    have lit: "(\<exists>v d. x = v @ d \<and> c # v = t \<and> ?L d) \<longleftrightarrow>
        starts_with (drop i s) (js u) \<and> ?L (rest_of s (i + length u))"
      if "ascii u = t" "t \<noteq> []" for t u
    proof -
      have len: "length t = length u" using that by (auto simp: ascii_def)
      have "(\<exists>v d. x = v @ d \<and> c # v = t \<and> ?L d) \<longleftrightarrow> (\<exists>d. c # x = t @ d \<and> ?L d)"
        using that(2) by (cases t) auto
      also have "\<dots> \<longleftrightarrow> (\<exists>d. rest_of s i = t @ d) \<and> ?L (drop (length t) (rest_of s i))"
        unfolding Cons [symmetric] by (metis append_eq_conv_conj)
      finally show ?thesis
        by (simp add: starts_with_rest rest_of_add len that(1))
    qed
    let ?st = "\<lambda>u. starts_with (drop i s) (js u)"
    have "value_then f (stack_lang fs) (rest_of s i) \<longleftrightarrow>
        (\<exists>v d. x = v @ d \<and> c # v = ascii ''true'' \<and> ?L d) \<or>
        (\<exists>v d. x = v @ d \<and> c # v = ascii ''false'' \<and> ?L d) \<or>
        (\<exists>v d. x = v @ d \<and> c # v = ascii ''null'' \<and> ?L d)"
      unfolding V jvalue_literal [OF other] by blast
    also have "\<dots> \<longleftrightarrow> ?st ''true'' \<and> ?L (rest_of s (i + 4)) \<or> ?st ''false'' \<and> ?L (rest_of s (i + 5)) \<or>
        ?st ''null'' \<and> ?L (rest_of s (i + 4))"
    proof -
      have "length ''true'' = 4" "length ''false'' = 5" "length ''null'' = 4"
        "ascii ''true'' \<noteq> []" "ascii ''false'' \<noteq> []" "ascii ''null'' \<noteq> []"
        by (simp_all add: ascii_def)
      then show ?thesis
        using lit [OF refl, of "''true''"] lit [OF refl, of "''false''"] lit [OF refl, of "''null''"]
        by (simp only: not_False_eq_True simp_thms)
    qed
    finally have A: "value_then f (stack_lang fs) (rest_of s i) \<longleftrightarrow> \<dots>" .
    have ex: "\<not> (?st ''true'' \<and> ?st ''false'')" "\<not> (?st ''true'' \<and> ?st ''null'')"
      "\<not> (?st ''false'' \<and> ?st ''null'')"
      by (auto simp: starts_with_rest ascii_literals)
    have "consumeValue s i f fs =
        (if ?st ''true'' then Continue (i + 4) (completeValue f # fs)
         else if ?st ''false'' then Continue (i + 5) (completeValue f # fs)
         else if ?st ''null'' then Continue (i + 4) (completeValue f # fs)
         else Failed (json_fail s ''expected JSON value'' i))"
      using other i by (simp add: consumeValue_def Let_def)
    with A ex show ?thesis
      by (auto simp: outcome_ok_def stack_lang_Cons json_fail_offset)
  qed
qed

lemma char_cases:
  obtains (stop) "rest_of s i = []" "charCodeAt s i = None"
  | (char) c x where "rest_of s i = c # x" "charCodeAt s i = Some c" "rest_of s (Suc i) = x"
  by (cases "rest_of s i") (auto simp: charCodeAt_rest rest_of_Cons)

lemma key_step_ok:
  assumes "out = (if charCodeAt s i \<noteq> Some 0x22 then Failed (json_fail s m i)
     else case scanString s i of Inl f \<Rightarrow> Failed f | Inr j \<Rightarrow> Continue j (ObjectFrame OColon # fs))"
  shows "outcome_ok s (key_then (stack_lang fs) (rest_of s i)) out"
proof (cases "charCodeAt s i = Some 0x22")
  case False
  then have "\<not> key_then (stack_lang fs) (rest_of s i)"
    by (auto simp: key_then_def charCodeAt_rest dest!: jstring_head)
  with False show ?thesis by (simp add: assms outcome_ok_def json_fail_offset)
next
  case True
  then obtain x where x: "rest_of s i = 0x22 # x"
    by (auto simp: charCodeAt_rest split: list.splits)
  show ?thesis
  proof (cases "scanString s i")
    case (Inl f)
    then have "\<not> key_then (stack_lang fs) (rest_of s i)"
      by (auto simp: key_then_def dest: scanString_complete)
    with Inl True show ?thesis by (auto simp: assms outcome_ok_def dest: scan_fail)
  next
    case (Inr j)
    obtain t where t: "jstring t" "rest_of s i = t @ rest_of s j"
      using scanString_sound [OF Inr x] by blast
    have "key_then (stack_lang fs) (rest_of s i) \<longleftrightarrow> colon_rest (stack_lang fs) (rest_of s j)"
    proof
      assume "key_then (stack_lang fs) (rest_of s i)"
      then obtain k c where k: "rest_of s i = k @ c" "jstring k" "colon_rest (stack_lang fs) c"
        by (auto simp: key_then_def)
      then have "rest_of s j = c"
        using scanString_complete [OF k(2,1)] Inr rest_of_append [OF k(1)] by simp
      with k show "colon_rest (stack_lang fs) (rest_of s j)" by simp
    qed (use t in \<open>auto simp: key_then_def\<close>)
    with Inr True show ?thesis by (simp add: assms outcome_ok_def)
  qed
qed

lemma array_step_ok:
  "outcome_ok s (token_lang (ArrayFrame st) (stack_lang fs) (rest_of s i)) (array_step s i st fs)"
proof (cases "st = AValue \<or> st = AValueOrEnd \<and> charCodeAt s i \<noteq> Some 0x5d")
  case True
  then have "token_lang (ArrayFrame st) (stack_lang fs) (rest_of s i) \<longleftrightarrow>
      value_then (ArrayFrame st) (stack_lang fs) (rest_of s i)"
    by (auto simp: char_then_def charCodeAt_rest)
  moreover have "array_step s i st fs = consumeValue s i (ArrayFrame st) fs"
    using True by (auto simp: array_step_def)
  ultimately show ?thesis using consumeValue_ok by simp
next
  case False
  have "\<not> value_then (ArrayFrame AValueOrEnd) (stack_lang fs) (0x5d # x)" for x
    using jvalue_literal [of "0x5d"] jvalue_head
    by (fastforce simp: value_then_def ascii_literals isDecimalDigit_def Cons_eq_append_conv)
  with False show ?thesis
    by (cases s i rule: char_cases; cases st)
      (auto simp: array_step_def outcome_ok_def char_then_def json_fail_offset stack_lang_Cons)
qed

lemma object_step_ok:
  "outcome_ok s (token_lang (ObjectFrame st) (stack_lang fs) (rest_of s i)) (object_step s i st fs)"
proof (cases "st \<in> {OKey, OValue} \<or> st = OKeyOrEnd \<and> charCodeAt s i \<noteq> Some 0x7d")
  case True
  then show ?thesis
  proof (cases "st = OValue")
    case False
    with True have "token_lang (ObjectFrame st) (stack_lang fs) (rest_of s i) \<longleftrightarrow>
        key_then (stack_lang fs) (rest_of s i)"
      by (auto simp: char_then_def charCodeAt_rest)
    moreover have "object_step s i st fs =
        (if charCodeAt s i \<noteq> Some 0x22 then Failed (json_fail s
             (if length s \<le> i then ''unterminated JSON object''
              else ''expected JSON object property string'') i)
         else case scanString s i of Inl f \<Rightarrow> Failed f | Inr j \<Rightarrow> Continue j (ObjectFrame OColon # fs))"
      using True False by (auto simp: object_step_def)
    ultimately show ?thesis using key_step_ok by simp
  qed (simp add: object_step_def consumeValue_ok)
next
  case False
  have "\<not> key_then (stack_lang fs) (0x7d # x)" for x
    by (auto simp: key_then_def dest!: jstring_head)
  with False show ?thesis
    by (cases s i rule: char_cases; cases st)
      (auto simp: object_step_def outcome_ok_def char_then_def json_fail_offset stack_lang_Cons)
qed

lemma json_step_ok:
  assumes "i \<le> length s"
  shows "outcome_ok s (stack_lang fs (rest_of s i)) (json_step s i fs)"
proof (cases fs)
  case Nil
  then show ?thesis by (simp add: json_step_def outcome_ok_def json_fail_offset)
next
  case (Cons f rest)
  define j where "j = skipWhitespace s i"
  have A: "stack_lang fs (rest_of s i) \<longleftrightarrow> token_lang f (stack_lang rest) (rest_of s j)"
    by (simp add: Cons frame_lang_token j_def skipWhitespace_def skip_while_rest)
  have root: "outcome_ok s (token_lang (RootFrame st) (stack_lang rest) (rest_of s j)) (root_step s j st rest)"
    for st
  proof (cases st)
    case RootValue
    then show ?thesis by (simp add: root_step_def consumeValue_ok)
  next
    case RootDone
    have "j \<le> length s" using assms by (simp add: j_def skipWhitespace_def skip_while_le)
    with RootDone show ?thesis
      by (auto simp: root_step_def outcome_ok_def rest_of_Nil json_fail_offset)
  qed
  show ?thesis
    unfolding A using root array_step_ok object_step_ok
    by (cases f) (simp_all add: json_step_def Cons Let_def j_def)
qed

lemma json_loop_ok:
  "i \<le> length s \<Longrightarrow>
   (case json_loop s i fs of
      None \<Rightarrow> stack_lang fs (rest_of s i)
    | Some f \<Rightarrow> \<not> stack_lang fs (rest_of s i) \<and> fail_offset f \<le> length s)"
proof (induction s i fs rule: json_loop.induct)
  case (1 s i fs)
  have ok: "outcome_ok s (stack_lang fs (rest_of s i)) (json_step s i fs)"
    using "1.prems" by (rule json_step_ok)
  show ?case
  proof (cases "json_step s i fs")
    case (Continue j fs')
    then have "j \<le> length s" using json_step_progress by blast
    from "1.IH" [OF Continue this] ok Continue show ?thesis
      by (simp add: json_loop.simps [of s i fs] outcome_ok_def split: option.splits)
  qed (use ok in \<open>simp_all add: json_loop.simps [of s i fs] outcome_ok_def\<close>)
qed

section \<open>Lines and columns\<close>

text \<open>
  The line terminators of a prefix: a carriage return directly followed by a line feed inside the
  prefix counts once.
\<close>

definition line_break :: "nat \<Rightarrow> bool" where
  "line_break c \<longleftrightarrow> c \<in> {0x0d, 0x0a, 0x2028, 0x2029}"

fun line_breaks :: "nat list \<Rightarrow> nat" where
  "line_breaks [] = 0"
| "line_breaks [c] = (if line_break c then 1 else 0)"
| "line_breaks (c # d # r) =
     (if c = 0x0d \<and> d = 0x0a then Suc (line_breaks r)
      else (if line_break c then 1 else 0) + line_breaks (d # r))"

text \<open>The part of a text after its last line terminator.\<close>

fun last_line :: "nat list \<Rightarrow> nat list" where
  "last_line [] = []"
| "last_line (c # t) = (if \<exists>b \<in> set (c # t). line_break b then last_line t else c # t)"

lemma line_breaks_zero: "line_breaks t = 0 \<longleftrightarrow> (\<forall>b \<in> set t. \<not> line_break b)"
  by (induction t rule: line_breaks.induct) (auto simp: line_break_def)

lemma last_line_same: "(\<forall>b \<in> set t. \<not> line_break b) \<Longrightarrow> last_line t = t"
  by (cases t) auto

lemma last_line_length: "length (last_line t) \<le> length t"
  by (induction t) auto

definition segment :: "js_string \<Rightarrow> nat \<Rightarrow> nat \<Rightarrow> nat list" where
  "segment s i j = take (j - i) (rest_of s i)"

lemma segment_Nil: "j \<le> i \<Longrightarrow> segment s i j = []"
  by (simp add: segment_def)

lemma segment_Cons: "i < j \<Longrightarrow> j \<le> length s \<Longrightarrow> segment s i j = unat (s ! i) # segment s (Suc i) j"
proof -
  assume ij: "i < j" "j \<le> length s"
  then have "rest_of s i = unat (s ! i) # rest_of s (Suc i)" by (simp add: rest_of_Cons)
  moreover have "j - i = Suc (j - Suc i)" using ij by simp
  ultimately show ?thesis by (simp add: segment_def)
qed

lemma segment_length: "i \<le> j \<Longrightarrow> j \<le> length s \<Longrightarrow> length (segment s i j) = j - i"
  by (simp add: segment_def rest_of_def codes_def)

lemma line_column_loop_eq:
  "i \<le> n \<Longrightarrow> n \<le> length s \<Longrightarrow>
   line_column_loop s n i line st =
     (line + line_breaks (segment s i n),
      if line_breaks (segment s i n) = 0 then st else n - length (last_line (segment s i n)))"
proof (induction s n i line st rule: line_column_loop.induct)
  case (1 s n i line st)
  note step = line_column_loop.simps [of s n i line st]
  show ?case
  proof (cases "i < n")
    case False
    with "1.prems" show ?thesis by (subst step) (simp add: segment_Nil)
  next
    case True
    define c where "c = unat (s ! i)"
    define t where "t = segment s (Suc i) n"
    have u: "segment s i n = c # t" and at: "charCodeAt s i = Some c"
      using True "1.prems" by (simp_all add: segment_Cons c_def t_def charCodeAt_def)
    have len: "length t = n - Suc i" using True "1.prems" by (simp add: t_def segment_length)
    have next_at: "charCodeAt s (Suc i) = Some d \<and> Suc i < n \<longleftrightarrow> (\<exists>t'. t = d # t')" for d
      using "1.prems" by (cases "Suc i < n") (auto simp: t_def segment_Cons segment_Nil charCodeAt_def)
    have skip: "(line + 1 + line_breaks t', if line_breaks t' = 0 then k else n - length (last_line t')) =
        (line + Suc (line_breaks t'), n - length (last_line t'))" if "length t' = n - k" "k \<le> n" for t' k
      using that by (auto simp: line_breaks_zero last_line_same)
    consider (crlf) t' where "c = 0x0d" "t = 0x0a # t'" | (brk) "line_break c" "\<not> (c = 0x0d \<and> (\<exists>t'. t = 0x0a # t'))"
      | (plain) "\<not> line_break c"
      by blast
    then show ?thesis
    proof cases
      case crlf
      then have "Suc i < n" "charCodeAt s (Suc i) = Some 0x0a" using next_at by auto
      moreover have "t' = segment s (Suc (Suc i)) n"
        using crlf(2) \<open>Suc i < n\<close> "1.prems" by (simp add: t_def segment_Cons)
      moreover have "length t' = n - Suc (Suc i)" using len crlf by simp
      ultimately show ?thesis
        using "1.IH"(1) [OF True] crlf at skip [of t' "Suc (Suc i)"] "1.prems"
        by (auto simp: step u line_break_def split: if_splits)
    next
      case brk
      have no: "\<not> (c = 0x0d \<and> charCodeAt s (Suc i) = Some 0x0a \<and> Suc i < n)"
        using brk(2) next_at [of "0x0a"] by blast
      have "line_column_loop s n (Suc i) (line + 1) (Suc i) =
          (line + 1 + line_breaks t, if line_breaks t = 0 then Suc i else n - length (last_line t))"
        using "1.IH"(1,2) [OF True] at True "1.prems"(2) no brk(1)
        by (cases "c = 0x0d") (auto simp: line_break_def t_def)
      also have "\<dots> = (line + Suc (line_breaks t), n - length (last_line t))"
        using len True by (intro skip) simp_all
      finally have "line_column_loop s n i line st = \<dots>"
        using at True no brk(1) by (subst step) (auto simp: line_break_def)
      moreover have "line_breaks (c # t) = Suc (line_breaks t)"
        using brk by (cases t) auto
      ultimately show ?thesis
        using brk(1) by (simp add: u)
    next
      case plain
      then have "line_breaks (c # t) = line_breaks t" by (cases t) (auto simp: line_break_def)
      with plain show ?thesis
        using "1.IH"(3) [OF True] at True "1.prems"
        by (auto simp: step u line_break_def t_def [symmetric] line_breaks_zero)
    qed
  qed
qed

section \<open>Properties\<close>

text \<open>C2 \<open>validateJsonSyntax\<close> accepts a source exactly when it is a JSON text of the grammar; a
  rejected source is no JSON text, and the reported offset lies inside the source or at its end.
  The loop returns on every source.\<close>

theorem validateJsonSyntax_correct:
  "case validateJsonSyntax source of
     None \<Rightarrow> json_text (codes source)
   | Some f \<Rightarrow> \<not> json_text (codes source) \<and> fail_offset f \<le> length source"
  using json_loop_ok [of 0 source "[RootFrame RootValue]"]
  by (simp add: validateJsonSyntax_def rest_of_def split: option.splits)

text \<open>C25 The line and column reported for a failure of \<open>validateJsonSyntax\<close>: the line is the number
  of line terminators before the offset, with a carriage return and line feed counted once, and
  the column is the length of the last line before it, never negative.\<close>

theorem jsonSyntaxLineAndColumn_correct:
  assumes "validateJsonSyntax source = Some f"
  shows "jsonSyntaxLineAndColumn source f =
     (line_breaks (take (fail_offset f) (codes source)),
      int (length (last_line (take (fail_offset f) (codes source)))))"
proof -
  have le: "fail_offset f \<le> length source"
    using json_loop_ok [of 0 source "[RootFrame RootValue]"] assms
    by (simp add: validateJsonSyntax_def)
  define t where "t = take (fail_offset f) (codes source)"
  have t: "segment source 0 (fail_offset f) = t" by (simp add: t_def segment_def rest_of_def)
  have len: "length t = fail_offset f" using le by (simp add: t_def codes_def)
  show ?thesis
    using line_column_loop_eq [of 0 "fail_offset f" source 0 0] le last_line_length [of t]
    by (auto simp: jsonSyntaxLineAndColumn_def t t_def [symmetric] len line_breaks_zero last_line_same
        split: if_splits)
qed

text \<open>The hypothesis holds for a source with an unterminated array on its second line.\<close>

lemma jsonSyntaxLineAndColumn_witness:
  "\<exists>f. validateJsonSyntax [0x5b, 0x0a, 0x31] = Some f \<and>
       jsonSyntaxLineAndColumn [0x5b, 0x0a, 0x31] f = (1, 1)"
proof -
  have v: "validateJsonSyntax [0x5b, 0x0a, 0x31] =
      Some \<lparr>fail_offset = 3, fail_message = ''unterminated JSON array''\<rparr>"
    by code_simp
  show ?thesis
    using jsonSyntaxLineAndColumn_correct [OF v] v by (simp add: codes_def line_break_def)
qed

end
