(* ===== verification/Module_Exports.thy ===== *)
theory Module_Exports
  imports TSC_Prelude
begin

text \<open>
  Export resolution over Module Records (\<open>src/src/module-export-resolution.ts\<close>): the worklist of
  \<open>exportedModuleNames\<close> and the continuation-frame machine of \<open>resolveModuleExport\<close>. The machine
  is related to the recursive ResolveExport of ECMA-262, shown to return on every finite module
  graph, and to resolve a name only to a binding that a chain of exports provides. Module requests
  are opaque: the host hook \<open>getImportedModule\<close> is a parameter.
\<close>

section \<open>Module Records\<close>

datatype binding_name = BindingName string | NamespaceBinding

record 'req module_record =
  mod_path :: string
  hostPropertyExports :: bool
  localExports :: "(string \<times> string) list"
  indirectExports :: "(string \<times> 'req \<times> binding_name) list"
  starExports :: "'req list"

datatype resolution = Resolved string binding_name | Ambiguous | Unresolved

type_synonym 'req get_imported = "'req module_record \<Rightarrow> 'req \<Rightarrow> 'req module_record option"

section \<open>Exported names\<close>

datatype export_error = HostExportNames

text \<open>
  The worklist is a stack: \<open>pop\<close> takes its last element, kept here as the head of the list.
  Identity of Module Records is equality of the records. Running out of fuel is \<open>None\<close>.
\<close>

fun exported_loop ::
  "nat \<Rightarrow> 'req get_imported \<Rightarrow> 'req module_record \<Rightarrow> 'req module_record list \<Rightarrow> string list \<Rightarrow> string list \<Rightarrow>
   (export_error + string list) option" where
  "exported_loop fuel get root [] visited names = Some (Inr names)"
| "exported_loop 0 get root (m # worklist) visited names = None"
| "exported_loop (Suc fuel) get root (m # worklist) visited names =
     (if mod_path m \<in> set visited then exported_loop fuel get root worklist visited names
      else if hostPropertyExports m then Some (Inl HostExportNames)
      else
        exported_loop fuel get root
          (rev (List.map_filter (get m) (starExports m)) @ worklist)
          (visited @ [mod_path m])
          (set_add_all names
             (filter (\<lambda>n. n \<noteq> ''default'' \<or> m = root)
                (map fst (localExports m) @ map fst (indirectExports m)))))"

definition exportedModuleNames ::
  "nat \<Rightarrow> 'req module_record \<Rightarrow> 'req get_imported \<Rightarrow> (export_error + string list) option" where
  "exportedModuleNames fuel root get = exported_loop fuel get root [root] [] []"

section \<open>The resolution machine\<close>

datatype frame_phase = Enter | Indirect | Star

record 'req export_frame =
  frame_record :: "'req module_record"
  frame_name :: string
  frame_phase :: frame_phase
  frame_next :: nat
  frame_candidate :: "(string \<times> binding_name) option"

record 'req export_state =
  st_frames :: "'req export_frame list"
  st_returned :: "resolution option"
  st_resolveSet :: "string set"

definition enter_frame :: "'req module_record \<Rightarrow> string \<Rightarrow> 'req export_frame" where
  "enter_frame m name =
     \<lparr>frame_record = m, frame_name = name, frame_phase = Enter, frame_next = 0, frame_candidate = None\<rparr>"

definition resolve_key :: "'req module_record \<Rightarrow> string \<Rightarrow> string" where
  "resolve_key m name = mod_path m @ [CHR 0x00] @ name"

definition candidate_result :: "(string \<times> binding_name) option \<Rightarrow> resolution" where
  "candidate_result c = (case c of None \<Rightarrow> Unresolved | Some (p, b) \<Rightarrow> Resolved p b)"

text \<open>\<open>complete(value)\<close>: pop the frame and hand its value to the frame below.\<close>

definition complete :: "'req export_frame list \<Rightarrow> string set \<Rightarrow> resolution \<Rightarrow> 'req export_state" where
  "complete fs S v = \<lparr>st_frames = fs, st_returned = Some v, st_resolveSet = S\<rparr>"

definition push_frames :: "'req export_frame list \<Rightarrow> string set \<Rightarrow> 'req export_state" where
  "push_frames fs S = \<lparr>st_frames = fs, st_returned = None, st_resolveSet = S\<rparr>"

text \<open>The star part of a turn: the next star export of the frame, or its candidate.\<close>

definition star_turn ::
  "'req get_imported \<Rightarrow> 'req export_frame \<Rightarrow> 'req export_frame list \<Rightarrow> string set \<Rightarrow> 'req export_state" where
  "star_turn get f fs S =
     (if length (starExports (frame_record f)) \<le> frame_next f
      then complete fs S (candidate_result (frame_candidate f))
      else
        (let request = starExports (frame_record f) ! frame_next f;
             f' = f\<lparr>frame_next := frame_next f + 1\<rparr>
         in case get (frame_record f) request of
              None \<Rightarrow> complete fs S Unresolved
            | Some imported \<Rightarrow> push_frames (enter_frame imported (frame_name f) # f' # fs) S))"

text \<open>The \<open>enter\<close> part of a turn.\<close>

definition enter_turn ::
  "'req get_imported \<Rightarrow> 'req export_frame \<Rightarrow> 'req export_frame list \<Rightarrow> string set \<Rightarrow> 'req export_state" where
  "enter_turn get f fs S =
     (let m = frame_record f; name = frame_name f; key = resolve_key m name in
      if key \<in> S then complete fs S Unresolved
      else
        (let S' = insert key S in
         if hostPropertyExports m then complete fs S' (Resolved (mod_path m) (BindingName name))
         else case map_of (localExports m) name of
           Some local \<Rightarrow> complete fs S' (Resolved (mod_path m) (BindingName local))
         | None \<Rightarrow>
             (case map_of (indirectExports m) name of
                Some (request, importName) \<Rightarrow>
                  (case get m request of
                     None \<Rightarrow> complete fs S' Unresolved
                   | Some imported \<Rightarrow>
                       (case importName of
                          NamespaceBinding \<Rightarrow> complete fs S' (Resolved (mod_path imported) NamespaceBinding)
                        | BindingName n \<Rightarrow>
                            push_frames (enter_frame imported n # f\<lparr>frame_phase := Indirect\<rparr> # fs) S'))
              | None \<Rightarrow>
                  if name = ''default'' then complete fs S' Unresolved
                  else star_turn get (f\<lparr>frame_phase := Star\<rparr>) fs S')))"

definition phase_turn ::
  "'req get_imported \<Rightarrow> 'req export_frame \<Rightarrow> 'req export_frame list \<Rightarrow> string set \<Rightarrow> 'req export_state" where
  "phase_turn get f fs S =
     (if frame_phase f = Enter then enter_turn get f fs S else star_turn get f fs S)"

text \<open>One turn of the loop: first the value returned by the frame above, then the frame itself.\<close>

definition export_step ::
  "'req get_imported \<Rightarrow> 'req export_frame \<Rightarrow> 'req export_frame list \<Rightarrow> resolution option \<Rightarrow> string set \<Rightarrow>
   'req export_state" where
  "export_step get f fs returned S =
     (case returned of
        None \<Rightarrow> phase_turn get f fs S
      | Some v \<Rightarrow>
          if frame_phase f = Indirect then complete fs S v
          else (case v of
                  Ambiguous \<Rightarrow> complete fs S Ambiguous
                | Unresolved \<Rightarrow> phase_turn get f fs S
                | Resolved p b \<Rightarrow>
                    (case frame_candidate f of
                       None \<Rightarrow> phase_turn get (f\<lparr>frame_candidate := Some (p, b)\<rparr>) fs S
                     | Some (p', b') \<Rightarrow>
                         if p' = p \<and> b' = b then phase_turn get f fs S else complete fs S Ambiguous)))"

fun export_run :: "nat \<Rightarrow> 'req get_imported \<Rightarrow> 'req export_state \<Rightarrow> resolution option" where
  "export_run fuel get st =
     (case st_frames st of
        [] \<Rightarrow> Some (case st_returned st of None \<Rightarrow> Unresolved | Some v \<Rightarrow> v)
      | f # fs \<Rightarrow>
          (case fuel of
             0 \<Rightarrow> None
           | Suc fuel' \<Rightarrow> export_run fuel' get (export_step get f fs (st_returned st) (st_resolveSet st))))"

declare export_run.simps [simp del]

definition resolveModuleExport ::
  "nat \<Rightarrow> 'req module_record \<Rightarrow> string \<Rightarrow> 'req get_imported \<Rightarrow> resolution option" where
  "resolveModuleExport fuel m name get = export_run fuel get (push_frames [enter_frame m name] {})"

section \<open>ResolveExport of ECMA-262\<close>

text \<open>
  The recursive abstract operation (ECMA-262, 16.2.1.7.2.2), with the resolve set threaded through
  the calls and the depth of the recursion bounded by the first argument. \<open>resolve_star\<close> is its
  loop over the star exports.
\<close>

fun resolve_star ::
  "('req module_record \<Rightarrow> string set \<Rightarrow> (resolution \<times> string set) option) \<Rightarrow>
   ('req \<Rightarrow> 'req module_record option) \<Rightarrow> 'req list \<Rightarrow> (string \<times> binding_name) option \<Rightarrow> string set \<Rightarrow>
   (resolution \<times> string set) option" where
  "resolve_star rec get [] cand S = Some (candidate_result cand, S)"
| "resolve_star rec get (q # qs) cand S =
     (case get q of
        None \<Rightarrow> Some (Unresolved, S)
      | Some m \<Rightarrow>
          (case rec m S of
             None \<Rightarrow> None
           | Some (Ambiguous, S') \<Rightarrow> Some (Ambiguous, S')
           | Some (Unresolved, S') \<Rightarrow> resolve_star rec get qs cand S'
           | Some (Resolved p b, S') \<Rightarrow>
               (case cand of
                  None \<Rightarrow> resolve_star rec get qs (Some (p, b)) S'
                | Some c \<Rightarrow>
                    if c = (p, b) then resolve_star rec get qs cand S' else Some (Ambiguous, S'))))"

fun resolve_spec ::
  "nat \<Rightarrow> 'req get_imported \<Rightarrow> 'req module_record \<Rightarrow> string \<Rightarrow> string set \<Rightarrow> (resolution \<times> string set) option" where
  "resolve_spec 0 get m name S = None"
| "resolve_spec (Suc k) get m name S =
     (if resolve_key m name \<in> S then Some (Unresolved, S)
      else
        (let S' = insert (resolve_key m name) S in
         if hostPropertyExports m then Some (Resolved (mod_path m) (BindingName name), S')
         else case map_of (localExports m) name of
           Some local \<Rightarrow> Some (Resolved (mod_path m) (BindingName local), S')
         | None \<Rightarrow>
             (case map_of (indirectExports m) name of
                Some (request, importName) \<Rightarrow>
                  (case get m request of
                     None \<Rightarrow> Some (Unresolved, S')
                   | Some imported \<Rightarrow>
                       (case importName of
                          NamespaceBinding \<Rightarrow> Some (Resolved (mod_path imported) NamespaceBinding, S')
                        | BindingName n \<Rightarrow> resolve_spec k get imported n S'))
              | None \<Rightarrow>
                  if name = ''default'' then Some (Unresolved, S')
                  else resolve_star (\<lambda>m' T. resolve_spec k get m' name T) (get m) (starExports m) None S')))"

section \<open>The machine implements it\<close>

inductive export_steps :: "'req get_imported \<Rightarrow> 'req export_state \<Rightarrow> 'req export_state \<Rightarrow> bool"
  for get where
  steps_refl: "export_steps get st st"
| steps_step: "st_frames st = f # fs \<Longrightarrow>
    export_steps get (export_step get f fs (st_returned st) (st_resolveSet st)) st' \<Longrightarrow>
    export_steps get st st'"

lemma export_steps_trans [trans]:
  "export_steps get a b \<Longrightarrow> export_steps get b c \<Longrightarrow> export_steps get a c"
  by (induction rule: export_steps.induct) (auto intro: export_steps.intros)

lemma export_run_Suc:
  "export_run (Suc n) get st =
     (case st_frames st of
        [] \<Rightarrow> Some (case st_returned st of None \<Rightarrow> Unresolved | Some v \<Rightarrow> v)
      | f # fs \<Rightarrow> export_run n get (export_step get f fs (st_returned st) (st_resolveSet st)))"
  by (simp add: export_run.simps [of "Suc n"] split: list.split)

lemma export_run_mono: "export_run n get st = Some v \<Longrightarrow> n \<le> k \<Longrightarrow> export_run k get st = Some v"
proof (induction n arbitrary: st k)
  case 0
  then show ?case
    by (auto simp: export_run.simps [of 0] export_run.simps [of k] split: list.splits)
next
  case (Suc n)
  then obtain k' where k: "k = Suc k'" "n \<le> k'" by (cases k) auto
  show ?case
    using Suc.IH [OF _ k(2)] Suc.prems(1) by (simp add: k(1) export_run_Suc split: list.splits)
qed

lemma export_steps_run:
  "export_steps get a b \<Longrightarrow> st_frames b = [] \<Longrightarrow>
   \<exists>n. export_run n get a = Some (case st_returned b of None \<Rightarrow> Unresolved | Some v \<Rightarrow> v)"
proof (induction rule: export_steps.induct)
  case (steps_refl st)
  then show ?case by (auto simp: export_run.simps)
next
  case (steps_step st f fs st')
  then obtain n where
    "export_run n get (export_step get f fs (st_returned st) (st_resolveSet st)) =
       Some (case st_returned st' of None \<Rightarrow> Unresolved | Some v \<Rightarrow> v)"
    by blast
  then have "export_run (Suc n) get st = Some (case st_returned st' of None \<Rightarrow> Unresolved | Some v \<Rightarrow> v)"
    using steps_step.hyps(1) by (simp add: export_run.simps [of "Suc n"])
  then show ?case by blast
qed


definition star_frame ::
  "'req module_record \<Rightarrow> string \<Rightarrow> nat \<Rightarrow> (string \<times> binding_name) option \<Rightarrow> 'req export_frame" where
  "star_frame m name i c =
     \<lparr>frame_record = m, frame_name = name, frame_phase = Star, frame_next = i, frame_candidate = c\<rparr>"

lemma star_frame_simps [simp]:
  "frame_record (star_frame m name i c) = m" "frame_name (star_frame m name i c) = name"
  "frame_phase (star_frame m name i c) = Star" "frame_next (star_frame m name i c) = i"
  "frame_candidate (star_frame m name i c) = c"
  "star_frame m name i c\<lparr>frame_next := j\<rparr> = star_frame m name j c"
  "star_frame m name i c\<lparr>frame_candidate := d\<rparr> = star_frame m name i d"
  by (simp_all add: star_frame_def)

lemma enter_frame_simps [simp]:
  "frame_record (enter_frame m name) = m" "frame_name (enter_frame m name) = name"
  "frame_phase (enter_frame m name) = Enter" "enter_frame m name\<lparr>frame_phase := Star\<rparr> = star_frame m name 0 None"
  by (simp_all add: enter_frame_def star_frame_def)

lemma state_simps [simp]:
  "st_frames (complete fs S v) = fs" "st_returned (complete fs S v) = Some v" "st_resolveSet (complete fs S v) = S"
  "st_frames (push_frames fs S) = fs" "st_returned (push_frames fs S) = None" "st_resolveSet (push_frames fs S) = S"
  by (simp_all add: complete_def push_frames_def)

lemma steps_complete:
  "export_steps get (export_step get f fs (Some v) S) st \<Longrightarrow> export_steps get (complete (f # fs) S v) st"
  by (rule steps_step [of _ f fs]) simp_all

lemma steps_push:
  "export_steps get (phase_turn get f fs S) st \<Longrightarrow> export_steps get (push_frames (f # fs) S) st"
  by (rule steps_step [of _ f fs]) (simp_all add: export_step_def)

lemma star_turn_steps:
  assumes rec: "\<And>m T v T' fs. rec m T = Some (v, T') \<Longrightarrow>
      export_steps get (push_frames (enter_frame m name # fs) T) (complete fs T' v)"
    and "resolve_star rec (get m) qs cand S = Some (v, S')" "starExports m = pre @ qs"
  shows "export_steps get (star_turn get (star_frame m name (length pre) cand) fs S) (complete fs S' v)"
  using assms(2,3)
proof (induction qs arbitrary: pre cand S)
  case Nil
  then show ?case by (simp add: star_turn_def steps_refl)
next
  case (Cons q qs)
  let ?f = "star_frame m name (Suc (length pre))"
  have IH: "resolve_star rec (get m) qs c T = Some (v, S') \<Longrightarrow>
      export_steps get (star_turn get (?f c) fs T) (complete fs S' v)" for c T
    using Cons.IH [of c T "pre @ [q]"] Cons.prems(2) by simp
  show ?case
  proof (cases "get m q")
    case None
    then show ?thesis using Cons.prems by (simp add: star_turn_def steps_refl)
  next
    case (Some m')
    then obtain v1 S1 where r: "rec m' S = Some (v1, S1)"
      using Cons.prems by (auto split: option.splits)
    have "export_steps get (export_step get (?f cand) fs (Some v1) S1) (complete fs S' v)"
      using Cons.prems(1) Some r IH
      by (auto simp: export_step_def phase_turn_def steps_refl split: resolution.splits option.splits if_splits)
    then have "export_steps get (push_frames (enter_frame m' name # ?f cand # fs) S) (complete fs S' v)"
      by (rule export_steps_trans [OF rec [OF r] steps_complete])
    then show ?thesis using Cons.prems(2) Some by (simp add: star_turn_def)
  qed
qed

lemma resolve_spec_steps:
  "resolve_spec k get m name S = Some (v, S') \<Longrightarrow>
   export_steps get (push_frames (enter_frame m name # fs) S) (complete fs S' v)"
proof (induction k arbitrary: m name S v S' fs)
  case 0
  then show ?case by simp
next
  case (Suc k)
  have star: "resolve_star (\<lambda>m' T. resolve_spec k get m' name T) (get m) (starExports m) None T = Some (v, S') \<Longrightarrow>
      export_steps get (star_turn get (star_frame m name 0 None) fs T) (complete fs S' v)" for T
    by (rule star_turn_steps [where pre = "[]", simplified]) (auto intro: Suc.IH)
  have indirect: "resolve_spec k get m' n T = Some (v, S') \<Longrightarrow>
      export_steps get (push_frames (enter_frame m' n # enter_frame m nm\<lparr>frame_phase := Indirect\<rparr> # fs) T)
        (complete fs S' v)" for m' n nm T
    by (rule export_steps_trans [OF Suc.IH steps_complete], assumption) (simp add: export_step_def steps_refl)
  have "export_steps get (enter_turn get (enter_frame m name) fs S) (complete fs S' v)"
    using Suc.prems
    by (auto simp: enter_turn_def Let_def steps_refl star indirect
        split: if_splits option.splits binding_name.splits)
  then show ?case by (intro steps_push) (simp add: phase_turn_def)
qed


section \<open>Every resolution on a finite module graph returns\<close>

text \<open>
  A set of Module Records closed under the host hook. The keys the machine can meet pair one of them
  with the requested name or with a name that some indirect export imports.
\<close>

definition module_graph :: "'req get_imported \<Rightarrow> 'req module_record set \<Rightarrow> bool" where
  "module_graph get M \<longleftrightarrow> finite M \<and> (\<forall>m\<in>M. \<forall>q m'. get m q = Some m' \<longrightarrow> m' \<in> M)"

definition export_keys :: "'req module_record set \<Rightarrow> string \<Rightarrow> (string \<times> string) set" where
  "export_keys M name =
     mod_path ` M \<times> insert name (\<Union>m\<in>M. {n. \<exists>x q. (x, q, BindingName n) \<in> set (indirectExports m)})"

lemma finite_import_names: "finite {n. \<exists>x q. (x, q, BindingName n) \<in> set xs}"
  by (rule finite_subset [of _ "(\<lambda>(x, q, b). case b of BindingName n \<Rightarrow> n | NamespaceBinding \<Rightarrow> []) ` set xs"])
    (force split: binding_name.splits)+

lemma finite_export_keys: "finite M \<Longrightarrow> finite (export_keys M name)"
  by (simp add: export_keys_def finite_import_names)

lemma module_graph_get: "module_graph get M \<Longrightarrow> m \<in> M \<Longrightarrow> get m q = Some m' \<Longrightarrow> m' \<in> M"
  by (auto simp: module_graph_def)

definition key_string :: "string \<times> string \<Rightarrow> string" where
  "key_string k = fst k @ [CHR 0x00] @ snd k"

lemma resolve_key_string: "resolve_key m name = key_string (mod_path m, name)"
  by (simp add: resolve_key_def key_string_def)

lemma resolve_star_total:
  assumes "\<And>m T. m \<in> M \<Longrightarrow> S \<subseteq> T \<Longrightarrow> \<exists>v T'. rec m T = Some (v, T') \<and> T \<subseteq> T'"
    and "\<And>q m. get q = Some m \<Longrightarrow> m \<in> M" "S \<subseteq> T"
  shows "\<exists>v T'. resolve_star rec get qs cand T = Some (v, T') \<and> T \<subseteq> T'"
  using assms(3)
proof (induction qs arbitrary: cand T)
  case (Cons q qs)
  show ?case
  proof (cases "get q")
    case (Some m)
    then obtain v1 T1 where r: "rec m T = Some (v1, T1)" "T \<subseteq> T1"
      using assms(1) [OF assms(2) [OF Some] Cons.prems] by auto
    have rest: "\<exists>v T'. resolve_star rec get qs c T1 = Some (v, T') \<and> T \<subseteq> T'" for c
      using Cons.IH [of T1 c] Cons.prems r(2) by blast
    show ?thesis by (cases v1; cases cand) (simp_all add: Some r rest)
  qed auto
qed auto

lemma resolve_spec_total:
  assumes "module_graph get M" "m \<in> M" "(mod_path m, name) \<in> K" "K = export_keys M nm"
    and "card (key_string ` K - S) < k"
  shows "\<exists>v S'. resolve_spec k get m name S = Some (v, S') \<and> S \<subseteq> S'"
  using assms(2,3,5)
proof (induction k arbitrary: m name S)
  case (Suc k)
  let ?S = "insert (resolve_key m name) S"
  have fin: "finite (key_string ` K)"
    using assms(1,4) finite_export_keys by (auto simp: module_graph_def)
  show ?case
  proof (cases "resolve_key m name \<in> S")
    case False
    have less: "card (key_string ` K - T) < k" if "?S \<subseteq> T" for T
    proof -
      have "key_string ` K - T \<subset> key_string ` K - S"
        using that False Suc.prems(2) by (auto simp: resolve_key_string)
      then have "card (key_string ` K - T) < card (key_string ` K - S)"
        using fin by (intro psubset_card_mono) auto
      then show ?thesis using Suc.prems(3) by simp
    qed
    have rec: "\<exists>v S'. resolve_spec k get m' n T = Some (v, S') \<and> T \<subseteq> S'"
      if "m' \<in> M" "(mod_path m', n) \<in> K" "?S \<subseteq> T" for m' n T
      by (rule Suc.IH [OF that(1,2) less [OF that(3)]])
    have star: "\<exists>v S'. resolve_star (\<lambda>m' T. resolve_spec k get m' name T) (get m) (starExports m) None ?S = Some (v, S') \<and> ?S \<subseteq> S'"
    proof (rule resolve_star_total [of M ?S])
      show "\<exists>v S'. resolve_spec k get m' name T = Some (v, S') \<and> T \<subseteq> S'" if "m' \<in> M" "?S \<subseteq> T" for m' T
        using that Suc.prems(2) by (intro rec) (auto simp: assms(4) export_keys_def)
    qed (use module_graph_get [OF assms(1) Suc.prems(1)] in auto)
    have indirect: "\<exists>v S'. resolve_spec k get m' n ?S = Some (v, S') \<and> ?S \<subseteq> S'"
      if "map_of (indirectExports m) name = Some (q, BindingName n)" "get m q = Some m'" for q n m'
    proof (rule rec)
      show "m' \<in> M" using module_graph_get [OF assms(1) Suc.prems(1) that(2)] .
      then show "(mod_path m', n) \<in> K"
        using Suc.prems(1) map_of_SomeD [OF that(1)] unfolding assms(4) export_keys_def by blast
    qed simp
    show ?thesis
    proof (cases "hostPropertyExports m \<or> map_of (localExports m) name \<noteq> None")
      case True
      then show ?thesis using False by (auto simp: Let_def)
    next
      case notlocal: False
      show ?thesis
      proof (cases "map_of (indirectExports m) name")
        case None
        then show ?thesis using False notlocal star by (cases "name = ''default''") (auto simp: Let_def)
      next
        case (Some e)
        obtain q b where e: "e = (q, b)" by fastforce
        show ?thesis
          using False notlocal Some e indirect [of q "case b of BindingName n \<Rightarrow> n" "the (get m q)"]
          by (cases "get m q"; cases b) (auto simp: Let_def)
      qed
    qed
  qed auto
qed auto

section \<open>What a resolution means\<close>

text \<open>
  The bindings that chains of exports provide for a name, independently of the order of the search
  and of its resolve set.
\<close>

inductive provides :: "'req get_imported \<Rightarrow> 'req module_record \<Rightarrow> string \<Rightarrow> string \<Rightarrow> binding_name \<Rightarrow> bool"
  for get where
  provides_host: "hostPropertyExports m \<Longrightarrow> provides get m name (mod_path m) (BindingName name)"
| provides_local: "\<not> hostPropertyExports m \<Longrightarrow> map_of (localExports m) name = Some local \<Longrightarrow>
    provides get m name (mod_path m) (BindingName local)"
| provides_namespace: "\<not> hostPropertyExports m \<Longrightarrow> map_of (localExports m) name = None \<Longrightarrow>
    map_of (indirectExports m) name = Some (q, NamespaceBinding) \<Longrightarrow> get m q = Some m' \<Longrightarrow>
    provides get m name (mod_path m') NamespaceBinding"
| provides_indirect: "\<not> hostPropertyExports m \<Longrightarrow> map_of (localExports m) name = None \<Longrightarrow>
    map_of (indirectExports m) name = Some (q, BindingName n) \<Longrightarrow> get m q = Some m' \<Longrightarrow>
    provides get m' n p b \<Longrightarrow> provides get m name p b"
| provides_star: "\<not> hostPropertyExports m \<Longrightarrow> map_of (localExports m) name = None \<Longrightarrow>
    map_of (indirectExports m) name = None \<Longrightarrow> name \<noteq> ''default'' \<Longrightarrow>
    q \<in> set (starExports m) \<Longrightarrow> get m q = Some m' \<Longrightarrow> provides get m' name p b \<Longrightarrow> provides get m name p b"

definition justified :: "(string \<Rightarrow> binding_name \<Rightarrow> bool) \<Rightarrow> resolution \<Rightarrow> bool" where
  "justified P v = (case v of
     Resolved p b \<Rightarrow> P p b
   | Ambiguous \<Rightarrow> \<exists>p b p' b'. (p, b) \<noteq> (p', b') \<and> P p b \<and> P p' b'
   | Unresolved \<Rightarrow> True)"

lemma justified_simps [simp]:
  "justified P (Resolved p b) = P p b" "justified P Unresolved"
  by (simp_all add: justified_def)

lemma justified_mono: "justified P v \<Longrightarrow> (\<And>p b. P p b \<Longrightarrow> Q p b) \<Longrightarrow> justified Q v"
  unfolding justified_def by (cases v) (simp_all, blast)

lemma justified_ambiguous: "(p, b) \<noteq> (p', b') \<Longrightarrow> P p b \<Longrightarrow> P p' b' \<Longrightarrow> justified P Ambiguous"
  unfolding justified_def by auto

lemma resolve_star_justified:
  assumes "\<And>q m T v T'. q \<in> set qs \<Longrightarrow> get q = Some m \<Longrightarrow> rec m T = Some (v, T') \<Longrightarrow> justified P v"
    and "justified P (candidate_result cand)" "resolve_star rec get qs cand S = Some (v, S')"
  shows "justified P v"
  using assms
proof (induction qs arbitrary: cand S)
  case (Cons q qs)
  show ?case
  proof (cases "get q")
    case None
    then show ?thesis using Cons.prems(3) by simp
  next
    case (Some m)
    then obtain v1 S1 where r: "rec m S = Some (v1, S1)"
      using Cons.prems(3) by (auto split: option.splits)
    have v1: "justified P v1" using Cons.prems(1) [OF _ Some r] by simp
    have rest: "justified P (candidate_result c) \<Longrightarrow> resolve_star rec get qs c T = Some (v, S') \<Longrightarrow> justified P v" for c T
      using Cons.IH Cons.prems(1) by (meson list.set_intros(2))
    show ?thesis
    proof (cases v1)
      case (Resolved p b)
      show ?thesis
      proof (cases cand)
        case None
        then show ?thesis
          using rest [of "Some (p, b)" S1] Cons.prems(3) Some r v1 Resolved by (simp add: candidate_result_def)
      next
        case c: (Some c)
        show ?thesis
        proof (cases "c = (p, b)")
          case True
          then show ?thesis using rest [OF Cons.prems(2), of S1] Cons.prems(3) Some r Resolved c by simp
        next
          case False
          then show ?thesis
            using justified_ambiguous [of "fst c" "snd c" p b P] Cons.prems(2,3) Some r v1 Resolved c
            by (auto simp: candidate_result_def split: prod.splits)
        qed
      qed
    qed (use rest [OF Cons.prems(2)] Cons.prems(3) Some r v1 in auto)
  qed
qed simp

lemma resolve_spec_justified:
  "resolve_spec k get m name S = Some (v, S') \<Longrightarrow> justified (provides get m name) v"
proof (induction k arbitrary: m name S v S')
  case (Suc k)
  have star: "justified (provides get m name) v"
    if "resolve_star (\<lambda>m' T. resolve_spec k get m' name T) (get m) (starExports m) None T = Some (v, S')"
      "\<not> hostPropertyExports m" "map_of (localExports m) name = None" "map_of (indirectExports m) name = None"
      "name \<noteq> ''default''" for T
  proof (rule resolve_star_justified [OF _ _ that(1)])
    show "justified (provides get m name) w"
      if "q \<in> set (starExports m)" "get m q = Some m'" "resolve_spec k get m' name U = Some (w, U')" for q m' U w U'
      using Suc.IH [OF that(3)] provides_star [OF \<open>\<not> hostPropertyExports m\<close>] that(1,2)
        \<open>map_of (localExports m) name = None\<close> \<open>map_of (indirectExports m) name = None\<close> \<open>name \<noteq> ''default''\<close>
      by (auto elim: justified_mono)
  qed (simp add: candidate_result_def)
  have indirect: "justified (provides get m name) v"
    if "resolve_spec k get m' n T = Some (v, S')" "\<not> hostPropertyExports m" "map_of (localExports m) name = None"
      "map_of (indirectExports m) name = Some (q, BindingName n)" "get m q = Some m'" for m' n q T
    by (rule justified_mono [OF Suc.IH [OF that(1)]], rule provides_indirect) (use that in auto)
  show ?case
    using Suc.prems star indirect
    by (auto simp: Let_def intro: provides_host provides_local split: if_splits option.splits binding_name.splits)
      (rule provides_namespace; assumption)+
qed simp

text \<open>
  Conversely, when the search returns \<open>null\<close> its resolve set is closed under the exports of every
  module it has met, and none of them provides the name.
\<close>

definition exhausted :: "'req get_imported \<Rightarrow> 'req module_record \<Rightarrow> string \<Rightarrow> string set \<Rightarrow> bool" where
  "exhausted get m name S \<longleftrightarrow>
     \<not> hostPropertyExports m \<and> map_of (localExports m) name = None \<and>
     (case map_of (indirectExports m) name of
        None \<Rightarrow> name = ''default'' \<or> (\<forall>q\<in>set (starExports m). \<forall>m'. get m q = Some m' \<longrightarrow> resolve_key m' name \<in> S)
      | Some (q, NamespaceBinding) \<Rightarrow> get m q = None
      | Some (q, BindingName n) \<Rightarrow> \<forall>m'. get m q = Some m' \<longrightarrow> resolve_key m' n \<in> S)"

definition exhausted_from :: "'req get_imported \<Rightarrow> 'req module_record set \<Rightarrow> string set \<Rightarrow> string set \<Rightarrow> bool" where
  "exhausted_from get M S T \<longleftrightarrow>
     S \<subseteq> T \<and> (\<forall>m\<in>M. \<forall>name. resolve_key m name \<in> T - S \<longrightarrow> exhausted get m name T)"

definition keys_separate :: "'req module_record set \<Rightarrow> bool" where
  "keys_separate M \<longleftrightarrow> inj_on mod_path M \<and> (\<forall>m\<in>M. CHR 0x00 \<notin> set (mod_path m))"

lemma key_string_inject:
  "c \<notin> set p \<Longrightarrow> c \<notin> set p' \<Longrightarrow> p @ c # n = p' @ c # n' \<Longrightarrow> p = p' \<and> n = n'"
  by (induction p arbitrary: p') (case_tac p'; auto)+

lemma resolve_key_inject:
  "keys_separate M \<Longrightarrow> m \<in> M \<Longrightarrow> m' \<in> M \<Longrightarrow> resolve_key m n = resolve_key m' n' \<longleftrightarrow> m = m' \<and> n = n'"
  using key_string_inject [of "CHR 0x00" "mod_path m" "mod_path m'" n n']
  by (auto simp: resolve_key_def keys_separate_def inj_on_def)

lemma exhausted_mono: "exhausted get m name S \<Longrightarrow> S \<subseteq> T \<Longrightarrow> exhausted get m name T"
  by (auto simp: exhausted_def split: option.splits binding_name.splits)

lemma exhausted_from_trans:
  "exhausted_from get M S T \<Longrightarrow> exhausted_from get M T U \<Longrightarrow> exhausted_from get M S U"
  unfolding exhausted_from_def using exhausted_mono by (metis Diff_iff subset_trans)

lemma resolve_star_found:
  "\<forall>q\<in>set qs. get q \<noteq> None \<Longrightarrow> resolve_star rec get qs (Some c) S \<noteq> Some (Unresolved, S')"
  by (induction qs arbitrary: S)
    (auto simp: candidate_result_def split: option.splits resolution.splits prod.splits)

lemma resolve_star_exhausted:
  assumes "\<And>m T T'. m \<in> M \<Longrightarrow> rec m T = Some (Unresolved, T') \<Longrightarrow> exhausted_from get' M T T' \<and> key m \<in> T'"
    and "\<forall>q\<in>set qs. \<exists>m\<in>M. get q = Some m" "resolve_star rec get qs None S = Some (Unresolved, S')"
  shows "exhausted_from get' M S S' \<and> (\<forall>q\<in>set qs. key (the (get q)) \<in> S')"
  using assms(2,3)
proof (induction qs arbitrary: S)
  case Nil
  then show ?case by (simp add: exhausted_from_def)
next
  case (Cons q qs)
  obtain m where m: "get q = Some m" "m \<in> M" using Cons.prems(1) by auto
  have found: "resolve_star rec get qs (Some c) T \<noteq> Some (Unresolved, S')" for c T
    using Cons.prems(1) by (intro resolve_star_found) auto
  obtain S1 where S1: "rec m S = Some (Unresolved, S1)" "resolve_star rec get qs None S1 = Some (Unresolved, S')"
    using Cons.prems(2) m(1) found by (auto split: option.splits resolution.splits)
  note first = assms(1) [OF m(2) S1(1)]
  have rest: "exhausted_from get' M S1 S'" "\<forall>q\<in>set qs. key (the (get q)) \<in> S'"
    using Cons.IH [OF _ S1(2)] Cons.prems(1) by simp_all
  have "key m \<in> S'" using first rest(1) by (auto simp: exhausted_from_def)
  then show ?case using exhausted_from_trans rest first m(1) by fastforce
qed

definition stars_resolve :: "'req get_imported \<Rightarrow> 'req module_record set \<Rightarrow> bool" where
  "stars_resolve get M \<longleftrightarrow> (\<forall>m\<in>M. \<forall>q\<in>set (starExports m). get m q \<noteq> None)"

lemma resolve_spec_exhausted:
  assumes "module_graph get M" "keys_separate M" "stars_resolve get M"
    and "m \<in> M" "resolve_spec k get m name S = Some (Unresolved, S')"
  shows "exhausted_from get M S S' \<and> resolve_key m name \<in> S'"
  using assms(4,5)
proof (induction k arbitrary: m name S S')
  case (Suc k)
  let ?S = "insert (resolve_key m name) S"
  have close: "exhausted_from get M S S' \<and> resolve_key m name \<in> S'"
    if "exhausted_from get M ?S S'" "exhausted get m name S'"
    using that Suc.prems(1) resolve_key_inject [OF assms(2)] unfolding exhausted_from_def
    by (metis Diff_iff insert_iff insert_subset)
  have refl: "exhausted_from get M T T" for T by (simp add: exhausted_from_def)
  show ?case
  proof (cases "resolve_key m name \<in> S")
    case True
    then show ?thesis using Suc.prems(2) refl by simp
  next
    case False
    have notlocal: "\<not> hostPropertyExports m" "map_of (localExports m) name = None"
      using Suc.prems(2) False by (auto simp: Let_def split: if_splits option.splits)
    show ?thesis
    proof (cases "map_of (indirectExports m) name")
      case None
      show ?thesis
      proof (cases "name = ''default''")
        case True
        then show ?thesis
          using Suc.prems(2) False notlocal None close refl by (simp add: Let_def exhausted_def)
      next
        case name: False
        have stars: "\<forall>q\<in>set (starExports m). \<exists>m'\<in>M. get m q = Some m'"
          using assms(1,3) Suc.prems(1) unfolding stars_resolve_def module_graph_def by (meson not_None_eq)
        have "resolve_star (\<lambda>m' T. resolve_spec k get m' name T) (get m) (starExports m) None ?S = Some (Unresolved, S')"
          using Suc.prems(2) False notlocal None name by (simp add: Let_def)
        then have "exhausted_from get M ?S S' \<and> (\<forall>q\<in>set (starExports m). resolve_key (the (get m q)) name \<in> S')"
          by (intro resolve_star_exhausted [of M "\<lambda>m' T. resolve_spec k get m' name T" get "\<lambda>m'. resolve_key m' name"])
            (use stars Suc.IH in blast)+
        then show ?thesis using notlocal None by (intro close) (auto simp: exhausted_def)
      qed
    next
      case (Some e)
      then obtain q b where e: "map_of (indirectExports m) name = Some (q, b)" by (cases e) auto
      show ?thesis
      proof (cases "get m q")
        case None
        then show ?thesis
          using Suc.prems(2) False notlocal e close refl by (auto simp: Let_def exhausted_def split: binding_name.split)
      next
        case (Some m')
        then obtain n where n: "b = BindingName n" "resolve_spec k get m' n ?S = Some (Unresolved, S')"
          using Suc.prems(2) False notlocal e by (auto simp: Let_def split: binding_name.splits)
        from Suc.IH [OF module_graph_get [OF assms(1) Suc.prems(1) Some] n(2)]
        show ?thesis using notlocal e n(1) Some by (intro close) (auto simp: exhausted_def)
      qed
    qed
  qed
qed simp

lemma exhausted_not_provides:
  assumes "provides get m name p b" "module_graph get M" "exhausted_from get M {} S" "m \<in> M" "resolve_key m name \<in> S"
  shows False
  using assms(1,4,5)
proof (induction rule: provides.induct)
  case (provides_indirect m name q n m' p b)
  then show ?case
    using assms(3) module_graph_get [OF assms(2)] by (fastforce simp: exhausted_from_def exhausted_def)
next
  case (provides_star m name q m' p b)
  then show ?case
    using assms(3) module_graph_get [OF assms(2)] by (fastforce simp: exhausted_from_def exhausted_def)
qed (use assms(3) in \<open>fastforce simp: exhausted_from_def exhausted_def\<close>)+

lemma export_run_determ:
  assumes "export_run n get st = Some v" "export_run k get st = Some w"
  shows "v = w"
  using export_run_mono [OF assms(1), of "max n k"] export_run_mono [OF assms(2), of "max n k"] by simp

lemma resolveModuleExport_eventually:
  assumes "module_graph get M" "m \<in> M"
  obtains N k v S where "\<And>n. N \<le> n \<Longrightarrow> resolveModuleExport n m name get = Some v"
    and "resolve_spec k get m name {} = Some (v, S)"
proof -
  obtain k where "card (key_string ` export_keys M name - {}) < k" using gt_ex by blast
  moreover have "(mod_path m, name) \<in> export_keys M name" using assms(2) by (simp add: export_keys_def)
  ultimately obtain v S where spec: "resolve_spec k get m name {} = Some (v, S)"
    using resolve_spec_total [OF assms] by blast
  from export_steps_run [OF resolve_spec_steps [OF spec, of "[]"]]
  obtain N where "export_run N get (push_frames [enter_frame m name] {}) = Some v" by auto
  then have "resolveModuleExport n m name get = Some v" if "N \<le> n" for n
    using that export_run_mono by (auto simp: resolveModuleExport_def)
  then show thesis using that spec by blast
qed

lemma resolveModuleExport_spec:
  assumes "module_graph get M" "m \<in> M" "resolveModuleExport n m name get = Some v"
  obtains k S where "resolve_spec k get m name {} = Some (v, S)"
proof -
  obtain N k w S where w: "\<And>n. N \<le> n \<Longrightarrow> resolveModuleExport n m name get = Some w"
    and spec: "resolve_spec k get m name {} = Some (w, S)"
    using resolveModuleExport_eventually [OF assms(1,2)] by metis
  have "v = w"
    using export_run_determ assms(3) w [of N] by (simp add: resolveModuleExport_def) blast
  then show thesis using that spec by blast
qed

text \<open>C3 On every finite module graph, cyclic ones included, the frame machine of \<open>resolveModuleExport\<close>
  returns, and its value is the value of the recursive ResolveExport of ECMA-262.
\<close>

theorem resolveModuleExport_returns:
  assumes "module_graph get M" "m \<in> M"
  shows "\<exists>N v. (\<forall>n\<ge>N. resolveModuleExport n m name get = Some v) \<and>
           (\<exists>k S. resolve_spec k get m name {} = Some (v, S))"
  using resolveModuleExport_eventually [OF assms, of thesis for thesis] by (metis (no_types, lifting))


section \<open>The exported names\<close>

definition export_visit :: "'req module_record \<Rightarrow> 'req module_record \<Rightarrow> string list \<Rightarrow> export_error + string list" where
  "export_visit root m names =
     (if hostPropertyExports m then Inl HostExportNames
      else Inr (set_add_all names
                  (filter (\<lambda>n. n \<noteq> ''default'' \<or> m = root) (map fst (localExports m) @ map fst (indirectExports m)))))"

definition star_modules :: "'req get_imported \<Rightarrow> 'req module_record \<Rightarrow> 'req module_record list" where
  "star_modules get m = List.map_filter (get m) (starExports m)"

interpretation names: worklist_loop "\<lambda>n. exported_loop n get root" mod_path "star_modules get"
    "\<lambda>m w. rev (star_modules get m) @ w" "export_visit root"
    for get :: "'req get_imported" and root :: "'req module_record"
  by unfold_locales (auto simp: export_visit_def star_modules_def split: if_splits)

lemma export_visit_fold:
  assumes "\<forall>m\<in>set ms. \<not> hostPropertyExports m" "distinct names"
  shows "distinct (names.visit_all root ms names) \<and>
    set (names.visit_all root ms names) = set names \<union>
      {n. \<exists>m\<in>set ms. n \<in> fst ` (set (localExports m)) \<union> fst ` set (indirectExports m) \<and> (n \<noteq> ''default'' \<or> m = root)}"
  using assms
proof (induction ms arbitrary: names)
  case (Cons m ms)
  let ?new = "set_add_all names
    (filter (\<lambda>n. n \<noteq> ''default'' \<or> m = root) (map fst (localExports m) @ map fst (indirectExports m)))"
  have "names.visit_all root (m # ms) names = names.visit_all root ms ?new"
    using Cons.prems(1) by (simp add: names.visit_all_def export_visit_def)
  moreover have "distinct ?new" using Cons.prems(2) by (rule set_add_all_distinct)
  ultimately show ?case using Cons.IH [of ?new] Cons.prems(1) by auto
qed (simp add: names.visit_all_def)

text \<open>C20 On a finite module graph with distinct paths and no host records, \<open>exportedModuleNames\<close> returns,
  without repetition, exactly the local and indirect export names of the modules reachable over star
  exports, except the \<open>default\<close> exports of the modules other than the root.
\<close>

theorem exportedModuleNames_correct:
  assumes "module_graph get M" "inj_on mod_path M" "\<forall>m\<in>M. \<not> hostPropertyExports m" "root \<in> M"
  shows "\<exists>N names. (\<forall>n\<ge>N. exportedModuleNames n root get = Some (Inr names)) \<and> distinct names \<and>
    set names = {n. \<exists>m\<in>reach_from (star_modules get) {root}.
      n \<in> fst ` set (localExports m) \<union> fst ` set (indirectExports m) \<and> (n \<noteq> ''default'' \<or> m = root)}"
proof -
  have stars: "set (star_modules get m) \<subseteq> M" if "m \<in> M" for m
    using that module_graph_get [OF assms(1)] by (auto simp: star_modules_def map_filter_def)
  have visit: "\<exists>s'. export_visit root m s = Inr s'" if "m \<in> M" for m s
    using that assms(3) by (simp add: export_visit_def)
  have fin: "finite M" using assms(1) by (simp add: module_graph_def)
  obtain N ms where run: "\<forall>n\<ge>N. exported_loop n get root [root] [] [] = Some (Inr (names.visit_all root ms []))"
      and ms: "set ms = reach_from (star_modules get) {root}"
    using names.run_visits_reachable [where get = get and root = root, OF fin stars visit _ assms(2), of "[root]" "[]"] assms(4) by auto
  have "reach_from (star_modules get) {root} \<subseteq> M"
    using stars assms(4) by (intro reach_from_least) auto
  then have "\<forall>m\<in>set ms. \<not> hostPropertyExports m" using ms assms(3) by auto
  from export_visit_fold [OF this, of "[]" root] run ms show ?thesis
    by (auto simp: exportedModuleNames_def)
qed

section \<open>Example: two modules that star-export each other\<close>

definition example_a :: "string module_record" where
  "example_a = \<lparr>mod_path = ''/a'', hostPropertyExports = False, localExports = [(''own'', ''own'')],
     indirectExports = [(''y'', ''./b'', BindingName ''x'')], starExports = [''./b'']\<rparr>"

definition example_b :: "string module_record" where
  "example_b = \<lparr>mod_path = ''/b'', hostPropertyExports = False, localExports = [(''x'', ''local_x'')],
     indirectExports = [], starExports = [''./a'']\<rparr>"

definition example_get :: "string get_imported" where
  "example_get m q = (if q = ''./b'' then Some example_b else if q = ''./a'' then Some example_a else None)"

lemma example_graph: "module_graph example_get {example_a, example_b}"
  by (auto simp: module_graph_def example_get_def split: if_splits)

lemma example_laws: "keys_separate {example_a, example_b}" "stars_resolve example_get {example_a, example_b}"
  by (auto simp: keys_separate_def stars_resolve_def example_a_def example_b_def example_get_def inj_on_def)

theorem resolveModuleExport_returns_witness:
  "\<exists>N v. (\<forall>n\<ge>N. resolveModuleExport n example_a ''missing'' example_get = Some v) \<and>
     (\<exists>k S. resolve_spec k example_get example_a ''missing'' {} = Some (v, S))"
  using resolveModuleExport_returns [OF example_graph, of example_a] by simp

lemma example_missing: "resolveModuleExport 10 example_a ''missing'' example_get = Some Unresolved"
  by code_simp

lemma example_indirect: "resolveModuleExport 10 example_a ''y'' example_get = Some (Resolved ''/b'' (BindingName ''local_x''))"
  by code_simp


lemma example_no_host: "\<forall>m\<in>{example_a, example_b}. \<not> hostPropertyExports m"
  by (simp add: example_a_def example_b_def)

theorem exportedModuleNames_correct_witness:
  "\<exists>N names. (\<forall>n\<ge>N. exportedModuleNames n example_a example_get = Some (Inr names)) \<and> distinct names \<and>
    set names = {n. \<exists>m\<in>reach_from (star_modules example_get) {example_a}.
      n \<in> fst ` set (localExports m) \<union> fst ` set (indirectExports m) \<and> (n \<noteq> ''default'' \<or> m = example_a)}"
  using exportedModuleNames_correct [OF example_graph _ example_no_host, of example_a] example_laws(1)
  by (simp add: keys_separate_def)

lemma example_names: "exportedModuleNames 10 example_a example_get = Some (Inr [''own'', ''y'', ''x''])"
  by code_simp

end
