(* ===== verification/TS_Ast.thy ===== *)
theory TS_Ast
  imports TSC_Prelude "HOL-Library.State_Monad"
begin

unbundle bit_operations_syntax

text \<open>
  The TypeScript syntax tree the planners read. A node has an identity (JavaScript maps are keyed by
  node objects), a \<open>SyntaxKind\<close>, the kind stored in its \<open>operator\<close> or \<open>token\<close> property, its text,
  its \<open>NodeFlags\<close>, the node it was made from (\<open>ts.setOriginalNode\<close>) and its named children in the
  order of \<open>ts.forEachChild\<close>. Nodes that come from \<open>ts.factory\<close> and are used as map keys get a fresh
  identity; the others have identity 0. \<open>ExportAssignment.isExportEquals\<close> is an \<open>=\<close> in the operator
  property.
\<close>

section \<open>Nodes\<close>

datatype (plugins only: code size) token_kind =
    CommaToken | AmpersandAmpersandToken | BarBarToken | QuestionQuestionToken | EqualsToken
  | AmpersandAmpersandEqualsToken | BarBarEqualsToken | QuestionQuestionEqualsToken
  | CompoundAssignmentToken nat
  | PlusPlusToken | MinusMinusToken | DotDotDotToken | QuestionDotToken | AsteriskToken
  | AwaitKeyword | AsyncKeyword | ExtendsKeyword | ImplementsKeyword | OtherToken nat

datatype (plugins only: code size) literal_kind =
    StringLiteral | NoSubstitutionTemplateLiteral | NumericLiteral | BigIntLiteral | RegularExpressionLiteral

datatype (plugins only: code size) statement_kind =
    Block | VariableStatement | ExpressionStatement | EmptyStatement | IfStatement | DoStatement | WhileStatement
  | ForStatement | ForInStatement | ForOfStatement | ContinueStatement | BreakStatement | ReturnStatement
  | WithStatement | SwitchStatement | LabeledStatement | ThrowStatement | TryStatement | ExportAssignment
  | FunctionDeclaration | ClassDeclaration

datatype (plugins only: code size) expression_kind =
    AwaitExpression | YieldExpression | ConditionalExpression | BinaryExpression
  | CallExpression | NewExpression | TaggedTemplateExpression | TemplateExpression
  | ArrayLiteralExpression | ObjectLiteralExpression | PropertyAccessExpression | ElementAccessExpression
  | DeleteExpression | PrefixUnaryExpression | PostfixUnaryExpression | VoidExpression | TypeOfExpression
  | FunctionExpression | ArrowFunction | ClassExpression | SpreadElement | OmittedExpression | MetaProperty

datatype (plugins only: code size) wrapper_kind =
    ParenthesizedExpression | AsExpression | TypeAssertionExpression | NonNullExpression | SatisfiesExpression

datatype (plugins only: code size) element_kind =
    PropertyAssignment | ShorthandPropertyAssignment | SpreadAssignment
  | MethodDeclaration | GetAccessor | SetAccessor | Constructor | SemicolonClassElement | ComputedPropertyName
  | BindingElement | ObjectBindingPattern | ArrayBindingPattern | VariableDeclaration | VariableDeclarationList
  | CaseClause | DefaultClause

datatype (plugins only: code size) syntax_kind =
    Token token_kind | Literal literal_kind | Statement statement_kind | Expression expression_kind
  | Wrapper wrapper_kind | Element element_kind
  | Identifier | PrivateIdentifier | TrueKeyword | FalseKeyword | NullKeyword | ThisKeyword | SuperKeyword
  | ImportKeyword | SourceFile | ExpressionWithTypeArguments | TypeNode | SignatureType | OtherKind nat

datatype node =
  Node (node_id: nat) (node_kind: syntax_kind) (node_operator: token_kind) (node_text: string)
    (node_flags: "32 word") (node_original: "node option") (node_children: "(string \<times> node) list")

definition child :: "node \<Rightarrow> string \<Rightarrow> node option" where
  "child n f = map_of (node_children n) f"

definition children :: "node \<Rightarrow> string \<Rightarrow> node list" where
  "children n f = map snd (filter (\<lambda>c. fst c = f) (node_children n))"

definition forEachChild :: "node \<Rightarrow> node list" where
  "forEachChild n = map snd (node_children n)"

definition missing_node :: node where
  "missing_node = Node 0 (OtherKind 0) (OtherToken 0) [] 0 None []"

text \<open>A field that the parser always fills.\<close>

definition field :: "node \<Rightarrow> string \<Rightarrow> node" where
  "field n f = (case child n f of Some c \<Rightarrow> c | None \<Rightarrow> missing_node)"

definition has_child :: "node \<Rightarrow> string \<Rightarrow> bool" where
  "has_child n f \<longleftrightarrow> child n f \<noteq> None"

definition synthesized :: "nat \<Rightarrow> syntax_kind \<Rightarrow> string \<Rightarrow> (string \<times> node) list \<Rightarrow> node" where
  "synthesized i k t cs = Node i k (OtherToken 0) t 0 None cs"

lemma synthesized_simps [simp]:
  "node_id (synthesized i k t cs) = i" "node_kind (synthesized i k t cs) = k" "node_text (synthesized i k t cs) = t"
  "node_children (synthesized i k t cs) = cs" "node_original (synthesized i k t cs) = None"
  by (simp_all add: synthesized_def)

lemma children_pair [simp]: "children (synthesized i k t (map (Pair f) cs)) f = cs"
  by (simp add: children_def comp_def)

lemma field_synthesized [simp]:
  "child (synthesized i k t cs) f = map_of cs f"
  by (simp add: child_def)

subsection \<open>Node flags\<close>

definition flag_Let :: "32 word" where "flag_Let = 1"
definition flag_Using :: "32 word" where "flag_Using = 4"
definition flag_AwaitUsing :: "32 word" where "flag_AwaitUsing = 6"
definition flag_BlockScoped :: "32 word" where "flag_BlockScoped = 7"
definition flag_OptionalChain :: "32 word" where "flag_OptionalChain = 64"

definition has_flag :: "node \<Rightarrow> 32 word \<Rightarrow> bool" where
  "has_flag n f \<longleftrightarrow> node_flags n AND f \<noteq> 0"

definition has_all_flags :: "node \<Rightarrow> 32 word \<Rightarrow> bool" where
  "has_all_flags n f \<longleftrightarrow> node_flags n AND f = f"

subsection \<open>Kind predicates\<close>

definition is_kind :: "syntax_kind \<Rightarrow> node \<Rightarrow> bool" where
  "is_kind k n \<longleftrightarrow> node_kind n = k"

definition is_stmt :: "statement_kind \<Rightarrow> node \<Rightarrow> bool" where
  "is_stmt k n \<longleftrightarrow> node_kind n = Statement k"

definition is_expr :: "expression_kind \<Rightarrow> node \<Rightarrow> bool" where
  "is_expr k n \<longleftrightarrow> node_kind n = Expression k"

definition is_elem :: "element_kind \<Rightarrow> node \<Rightarrow> bool" where
  "is_elem k n \<longleftrightarrow> node_kind n = Element k"

definition isFunctionLike :: "node \<Rightarrow> bool" where
  "isFunctionLike n \<longleftrightarrow> node_kind n \<in>
     {Statement FunctionDeclaration, Expression FunctionExpression, Expression ArrowFunction,
      Element MethodDeclaration, Element GetAccessor, Element SetAccessor, Element Constructor, SignatureType}"

definition isClassLike :: "node \<Rightarrow> bool" where
  "isClassLike n \<longleftrightarrow> node_kind n \<in> {Statement ClassDeclaration, Expression ClassExpression}"

definition isTypeNode :: "node \<Rightarrow> bool" where
  "isTypeNode n \<longleftrightarrow> node_kind n \<in> {TypeNode, SignatureType, ExpressionWithTypeArguments}"

definition isLiteralExpression :: "node \<Rightarrow> bool" where
  "isLiteralExpression n \<longleftrightarrow> (\<exists>k. node_kind n = Literal k)"

lemma isLiteralExpression_code [code]:
  "isLiteralExpression n \<longleftrightarrow> (case node_kind n of Literal k \<Rightarrow> True | _ \<Rightarrow> False)"
  by (auto simp: isLiteralExpression_def split: syntax_kind.split)

definition isStringLiteralLike :: "node \<Rightarrow> bool" where
  "isStringLiteralLike n \<longleftrightarrow> node_kind n \<in> {Literal StringLiteral, Literal NoSubstitutionTemplateLiteral}"

text \<open>\<open>ts.isOptionalChain\<close>: the flag on one of the four chain kinds.\<close>

definition isOptionalChain :: "node \<Rightarrow> bool" where
  "isOptionalChain n \<longleftrightarrow> has_flag n flag_OptionalChain \<and>
     node_kind n \<in> {Expression PropertyAccessExpression, Expression ElementAccessExpression, Expression CallExpression,
       Wrapper NonNullExpression}"

definition isIdentifier :: "node \<Rightarrow> bool" where
  "isIdentifier n \<longleftrightarrow> node_kind n = Identifier"

definition is_transparent :: "node \<Rightarrow> bool" where
  "is_transparent n = (case node_kind n of Wrapper w \<Rightarrow> True | _ \<Rightarrow> False)"

definition isAccess :: "node \<Rightarrow> bool" where
  "isAccess n \<longleftrightarrow> is_expr PropertyAccessExpression n \<or> is_expr ElementAccessExpression n"

section \<open>Sizes\<close>

lemma size_child_less: "(f, c) \<in> set (node_children n) \<Longrightarrow> size c < size n"
proof (cases n)
  case (Node i k oper t fl orig cs)
  assume "(f, c) \<in> set (node_children n)"
  then have "size_prod (\<lambda>_. 0) size (f, c) \<le> size_list (size_prod (\<lambda>_. 0) size) cs"
    using size_list_estimation' [of "(f, c)" cs "size_prod (\<lambda>_. 0) size (f, c)" "size_prod (\<lambda>_. 0) size"] Node by simp
  then show ?thesis using Node by simp
qed

lemma child_in: "child n f = Some c \<Longrightarrow> (f, c) \<in> set (node_children n)"
  unfolding child_def by (rule map_of_SomeD)

lemma child_size [termination_simp]: "child n f = Some c \<Longrightarrow> size c < size n"
  by (blast intro: size_child_less child_in)

lemma children_size: "c \<in> set (children n f) \<Longrightarrow> size c < size n"
  by (auto simp: children_def intro: size_child_less)

lemma forEachChild_size: "c \<in> set (forEachChild n) \<Longrightarrow> size c < size n"
  by (auto simp: forEachChild_def intro: size_child_less)

lemma node_size_pos [simp]: "0 < size (n :: node)"
  by (cases n) simp

lemma size_missing: "size missing_node \<le> size (n :: node)"
proof (cases n)
  case (Node i k oper t fl orig cs)
  then show ?thesis by (cases orig) (simp_all add: missing_node_def)
qed

lemma field_le [simp]: "size (field n f) \<le> size n"
  using size_missing child_size [of n f] by (auto simp: field_def less_imp_le split: option.split)

lemma field_size: "has_child n f \<Longrightarrow> size (field n f) < size n"
  by (auto simp: field_def has_child_def child_size split: option.split)

text \<open>The sum of the sizes of all children is smaller than the size of the node.\<close>

lemma forEachChild_sum: "sum_list (map size (forEachChild n)) < size n"
proof (cases n)
  case (Node i k oper t fl orig cs)
  have "sum_list (map size (map snd cs)) \<le> size_list (size_prod (\<lambda>_. 0) size) cs"
    by (induction cs) auto
  then show ?thesis using Node by (simp add: forEachChild_def)
qed

lemma children_sum: "sum_list (map size (children n f)) < size n"
proof -
  have "sum_list (map size (map snd (filter P cs))) \<le> sum_list (map size (map snd cs))"
    for P and cs :: "(string \<times> node) list"
    by (induction cs) auto
  then have "sum_list (map size (children n f)) \<le> sum_list (map size (forEachChild n))"
    by (simp add: children_def forEachChild_def)
  then show ?thesis using forEachChild_sum [of n] by simp
qed

lemma children_sum2:
  assumes "f \<noteq> g"
  shows "sum_list (map size (children n f)) + sum_list (map size (children n g)) < size n"
proof -
  have "sum_list (map size (map snd (filter (\<lambda>c. fst c = f) cs))) + sum_list (map size (map snd (filter (\<lambda>c. fst c = g) cs)))
      \<le> sum_list (map size (map snd cs))" for cs :: "(string \<times> node) list"
    using assms by (induction cs) auto
  from this [of "node_children n"]
  have "sum_list (map size (children n f)) + sum_list (map size (children n g)) \<le> sum_list (map size (forEachChild n))"
    by (simp add: children_def forEachChild_def)
  then show ?thesis using forEachChild_sum [of n] by simp
qed

lemma original_size: "node_original n = Some m \<Longrightarrow> size m < size n"
  by (cases n) simp

function getOriginalNode :: "node \<Rightarrow> node" where
  "getOriginalNode n = (case node_original n of None \<Rightarrow> n | Some m \<Rightarrow> getOriginalNode m)"
  by pat_completeness auto
termination by (relation "measure size") (auto simp: original_size)

declare getOriginalNode.simps [simp del]

section \<open>Identity\<close>

text \<open>
  Node objects are compared by identity. In a tree whose nodes have distinct identities equality of
  nodes is identity, which is how the planners' maps and sets keyed by nodes are read.
\<close>

fun descendants :: "node \<Rightarrow> node list" where
  "descendants (Node i k oper t fl orig cs) =
     Node i k oper t fl orig cs # concat (map (\<lambda>c. descendants (snd c)) cs)"

definition distinct_ids :: "node \<Rightarrow> bool" where
  "distinct_ids n \<longleftrightarrow> distinct (map node_id (descendants n))"

lemma distinct_ids_identity:
  "distinct_ids n \<Longrightarrow> a \<in> set (descendants n) \<Longrightarrow> b \<in> set (descendants n) \<Longrightarrow> node_id a = node_id b \<longleftrightarrow> a = b"
  by (auto simp: distinct_ids_def distinct_map inj_on_def)

end
