(* ===== verification/Async_Ir.thy ===== *)
theory Async_Ir
  imports TS_Ast
begin

text \<open>
  Completion edges and the statement suspension graph (\<open>src/src/emit/async-ir.ts\<close>).
\<close>

section \<open>Edges and graphs\<close>

datatype loop_edge =
    ContinueEdge (edge_label: "string option")
  | BreakEdge (edge_label: "string option")
  | LoopReturnEdge
  | LoopThrowEdge

datatype completion_edge =
    ReturnEdge (edge_value: "node option") (edge_await: "node option") (edge_statement: node)
  | ThrowEdge (throw_value: node) (edge_await: "node option") (edge_statement: node)

datatype suspension_next = NextState nat | NextCompletion

record 'step suspension_state =
  susp_id :: nat
  susp_step :: 'step
  susp_interstitial :: "node list"
  susp_next :: suspension_next

record 'step suspension_graph =
  susp_entry :: nat
  susp_states :: "'step suspension_state list"
  susp_completion :: completion_edge

definition planAsyncStatementSuspensionGraph ::
  "'step list \<Rightarrow> node list list \<Rightarrow> completion_edge \<Rightarrow> 'step suspension_graph option" where
  "planAsyncStatementSuspensionGraph steps interstitial completion =
     (if length steps = 0 \<or>
         (int (length interstitial) \<noteq> int (length steps) - 1 \<and> length interstitial \<noteq> length steps) then None
      else Some \<lparr>susp_entry = 0,
        susp_states = map (\<lambda>(id, step).
          \<lparr>susp_id = id, susp_step = step,
           susp_interstitial = (if id < length interstitial then interstitial ! id else []),
           susp_next = (if id + 1 < length steps then NextState (id + 1) else NextCompletion)\<rparr>) (enumerate 0 steps),
        susp_completion = completion\<rparr>)"

definition await_of :: "node \<Rightarrow> node option" where
  "await_of e = (if is_expr AwaitExpression e then Some e else None)"

definition planAsyncFunctionCompletionEdge :: "node \<Rightarrow> (node \<Rightarrow> node) \<Rightarrow> completion_edge option" where
  "planAsyncFunctionCompletionEdge statement unwrap =
     (if is_stmt ReturnStatement statement then
        (let value = child statement ''expression'';
             awaitExpr = (case value of None \<Rightarrow> None | Some v \<Rightarrow> await_of (unwrap v))
         in Some (ReturnEdge (case awaitExpr of Some a \<Rightarrow> Some (field a ''expression'') | None \<Rightarrow> value) awaitExpr statement))
      else if is_stmt ThrowStatement statement then
        Some (ThrowEdge (field statement ''expression'') (await_of (unwrap (field statement ''expression''))) statement)
      else None)"

definition label_text :: "node \<Rightarrow> string option" where
  "label_text n = map_option node_text (child n ''label'')"

definition label_matches :: "node \<Rightarrow> string option \<Rightarrow> bool" where
  "label_matches n current \<longleftrightarrow> label_text n = None \<or> label_text n = current"

definition planAsyncLoopCompletionEdge :: "node \<Rightarrow> string option \<Rightarrow> loop_edge option" where
  "planAsyncLoopCompletionEdge statement currentLoopLabel =
     (if is_stmt ContinueStatement statement \<and> label_matches statement currentLoopLabel
      then Some (ContinueEdge (label_text statement))
      else if is_stmt BreakStatement statement \<and> label_matches statement currentLoopLabel
      then Some (BreakEdge (label_text statement))
      else if is_stmt ReturnStatement statement then Some LoopReturnEdge
      else if is_stmt ThrowStatement statement then Some LoopThrowEdge
      else None)"

definition labelled_jump :: "string \<Rightarrow> node \<Rightarrow> bool" where
  "labelled_jump label n \<longleftrightarrow>
     (is_stmt BreakStatement n \<or> is_stmt ContinueStatement n) \<and> label_text n = Some label"

text \<open>
  \<open>edges.set(`${edge.kind}:${edge.label ?? ""}`, edge)\<close>: the key determines the edge, so setting it
  again leaves the map as it is.
\<close>

definition set_edge :: "loop_edge option \<Rightarrow> loop_edge list \<Rightarrow> loop_edge list" where
  "set_edge edge edges = (case edge of
     Some (BreakEdge l) \<Rightarrow> if BreakEdge l \<in> set edges then edges else edges @ [BreakEdge l]
   | Some (ContinueEdge l) \<Rightarrow> if ContinueEdge l \<in> set edges then edges else edges @ [ContinueEdge l]
   | _ \<Rightarrow> edges)"

function nested_edges_visit :: "string \<Rightarrow> node \<Rightarrow> loop_edge list \<Rightarrow> loop_edge list" where
  "nested_edges_visit label n edges =
     (if isFunctionLike n \<or> isClassLike n then edges
      else if labelled_jump label n then set_edge (planAsyncLoopCompletionEdge n (Some label)) edges
      else fold (nested_edges_visit label) (forEachChild n) edges)"
  by pat_completeness auto
termination
  by (relation "measure (\<lambda>(l, n, e). size n)") (simp_all add: forEachChild_size)

declare nested_edges_visit.simps [simp del]

definition planAsyncLoopNestedCompletionEdges :: "node list \<Rightarrow> string option \<Rightarrow> loop_edge list" where
  "planAsyncLoopNestedCompletionEdges statements currentLoopLabel =
     (case currentLoopLabel of
        None \<Rightarrow> []
      | Some label \<Rightarrow> if label = [] then [] else fold (nested_edges_visit label) statements [])"

section \<open>Properties\<close>

lemma suspension_states_map:
  fixes interstitial :: "node list list" and steps :: "'step list"
  defines "f \<equiv> \<lambda>(id, step).
      \<lparr>susp_id = id, susp_step = step, susp_interstitial = (if id < length interstitial then interstitial ! id else []),
       susp_next = (if id + 1 < length steps then NextState (id + 1) else NextCompletion)\<rparr>"
  shows "map susp_step (map f (enumerate 0 steps)) = steps"
    and "map susp_id (map f (enumerate 0 steps)) = [0..<length steps]"
    and "steps \<noteq> [] \<Longrightarrow> map susp_next (map f (enumerate 0 steps)) = map NextState [1..<length steps] @ [NextCompletion]"
    and "map susp_interstitial (map f (enumerate 0 steps)) =
           map (\<lambda>id. if id < length interstitial then interstitial ! id else []) [0..<length steps]"
  by (auto simp: f_def nth_enumerate_eq nth_append less_Suc_eq intro!: nth_equalityI)

lemma concat_interstitial:
  assumes "length interstitial \<le> n"
  shows "concat (map (\<lambda>id. if id < length interstitial then interstitial ! id else []) [0..<n]) = concat interstitial"
proof -
  let ?i = "\<lambda>id. if id < length interstitial then interstitial ! id else []"
  have "map ?i [0..<length interstitial] = interstitial" by (intro nth_equalityI) auto
  moreover have "[0..<n] = [0..<length interstitial] @ [length interstitial..<n]"
    using assms upt_add_eq_append [of 0 "length interstitial" "n - length interstitial"] by auto
  ultimately show ?thesis by (auto simp: concat_eq_Nil_conv)
qed

text \<open>The suspension graph exists exactly for a non-empty list of steps with as many interstitial
  groups as steps or one fewer. It is one chain: state \<open>i\<close> has identifier \<open>i\<close>, carries step \<open>i\<close>,
  continues at state \<open>i + 1\<close> and the last one at the completion, and the states carry all interstitial
  statements in order.\<close>

theorem planAsyncStatementSuspensionGraph_chain:
  "case planAsyncStatementSuspensionGraph steps interstitial c of
     None \<Rightarrow> \<not> (steps \<noteq> [] \<and> length interstitial \<in> {length steps - 1, length steps})
   | Some g \<Rightarrow>
       steps \<noteq> [] \<and> length interstitial \<in> {length steps - 1, length steps} \<and>
       susp_entry g = 0 \<and> susp_completion g = c \<and> map susp_step (susp_states g) = steps \<and>
       map susp_id (susp_states g) = [0..<length steps] \<and>
       map susp_next (susp_states g) = map NextState [1..<length steps] @ [NextCompletion] \<and>
       concat (map susp_interstitial (susp_states g)) = concat interstitial"
proof (cases "steps = [] \<or> length interstitial \<notin> {length steps - 1, length steps}")
  case True
  then show ?thesis by (auto simp: planAsyncStatementSuspensionGraph_def)
next
  case False
  then have "length interstitial \<le> length steps" by auto
  then show ?thesis
    using False suspension_states_map [where interstitial = interstitial and steps = steps]
    by (auto simp: planAsyncStatementSuspensionGraph_def concat_interstitial simp del: map_map)
qed

subsection \<open>Nested completion edges\<close>

definition loop_children :: "string \<Rightarrow> node \<Rightarrow> node list" where
  "loop_children label n = (if isFunctionLike n \<or> isClassLike n \<or> labelled_jump label n then [] else forEachChild n)"

definition jump_edge :: "string \<Rightarrow> node \<Rightarrow> loop_edge" where
  "jump_edge label n = (if is_stmt BreakStatement n then BreakEdge (Some label) else ContinueEdge (Some label))"

definition jump_edges :: "string \<Rightarrow> node set \<Rightarrow> loop_edge set" where
  "jump_edges label N = {e. \<exists>d\<in>reach_from (loop_children label) N. labelled_jump label d \<and> e = jump_edge label d}"

lemma labelled_jump_kind: "labelled_jump label n \<Longrightarrow> \<not> isFunctionLike n \<and> \<not> isClassLike n"
  by (auto simp: labelled_jump_def isFunctionLike_def isClassLike_def is_stmt_def)

lemma set_edge_jump:
  "labelled_jump label n \<Longrightarrow> distinct edges \<Longrightarrow>
   distinct (set_edge (planAsyncLoopCompletionEdge n (Some label)) edges) \<and>
   set (set_edge (planAsyncLoopCompletionEdge n (Some label)) edges) = insert (jump_edge label n) (set edges)"
  by (auto simp: labelled_jump_def planAsyncLoopCompletionEdge_def label_matches_def set_edge_def jump_edge_def is_stmt_def)

lemma jump_edges_unfold:
  "jump_edges label {n} =
     (if labelled_jump label n then {jump_edge label n} else {}) \<union> (\<Union>c\<in>set (loop_children label n). jump_edges label {c})"
  unfolding jump_edges_def by (subst reach_from_unfold) auto

lemma fold_edges:
  assumes "\<And>n es. n \<in> set ns \<Longrightarrow> distinct es \<Longrightarrow> distinct (f n es) \<and> set (f n es) = set es \<union> J n" "distinct es"
  shows "distinct (fold f ns es) \<and> set (fold f ns es) = set es \<union> (\<Union>n\<in>set ns. J n)"
  using assms by (induction ns arbitrary: es) auto

lemma nested_edges_visit_set:
  "distinct edges \<Longrightarrow> distinct (nested_edges_visit label n edges) \<and>
     set (nested_edges_visit label n edges) = set edges \<union> jump_edges label {n}"
proof (induction label n edges rule: nested_edges_visit.induct)
  case (1 label n edges)
  show ?case
  proof (cases "isFunctionLike n \<or> isClassLike n \<or> labelled_jump label n")
    case True
    then show ?thesis
      using set_edge_jump [of label n edges] labelled_jump_kind [of label n] 1(2)
      by (auto simp: nested_edges_visit.simps [of label n] jump_edges_unfold [of label n] loop_children_def)
  next
    case False
    then have "distinct (fold (nested_edges_visit label) (forEachChild n) edges) \<and>
        set (fold (nested_edges_visit label) (forEachChild n) edges) =
          set edges \<union> (\<Union>c\<in>set (forEachChild n). jump_edges label {c})"
      using 1 by (intro fold_edges) auto
    then show ?thesis
      using False by (simp add: nested_edges_visit.simps [of label n] jump_edges_unfold [of label n] loop_children_def)
  qed
qed

text \<open>C29 For a non-empty loop label, \<open>planAsyncLoopNestedCompletionEdges\<close> returns, once each, exactly the
  break and continue edges to that label whose statements occur in the given statements outside
  nested functions and classes.\<close>

theorem planAsyncLoopNestedCompletionEdges_exact:
  assumes "label \<noteq> []"
  shows "distinct (planAsyncLoopNestedCompletionEdges statements (Some label)) \<and>
    set (planAsyncLoopNestedCompletionEdges statements (Some label)) = (\<Union>s\<in>set statements. jump_edges label {s})"
  using assms fold_edges [of statements "nested_edges_visit label" "\<lambda>n. jump_edges label {n}" "[]"]
  by (simp add: planAsyncLoopNestedCompletionEdges_def nested_edges_visit_set)

definition example_jump :: node where
  "example_jump = Node 1 (Statement Block) (OtherToken 0) [] 0 None
     [(''statements'', Node 2 (Statement BreakStatement) (OtherToken 0) [] 0 None
        [(''label'', Node 3 Identifier (OtherToken 0) ''outer'' 0 None [])])]"

theorem planAsyncLoopNestedCompletionEdges_witness:
  "(\<Union>s\<in>set [example_jump]. jump_edges ''outer'' {s}) = {BreakEdge (Some ''outer'')}"
proof -
  have "planAsyncLoopNestedCompletionEdges [example_jump] (Some ''outer'') = [BreakEdge (Some ''outer'')]"
    by code_simp
  then show ?thesis
    using planAsyncLoopNestedCompletionEdges_exact [of "''outer''" "[example_jump]"] by simp
qed

end
