(* ===== verification/Definition_Evaluation.thy ===== *)
theory Definition_Evaluation
  imports TS_Ast
begin

text \<open>
  Definition-time evaluation: the ordered plan of a class definition
  (\<open>src/src/emit/class-definition.ts\<close>), the children evaluated by a definition and the search for a
  top-level await (\<open>src/src/emit/module-evaluation.ts\<close>), and the lexical declarations of a scope
  (\<open>src/src/emit/lexical-declarations.ts\<close>).
\<close>

section \<open>Class definitions\<close>

datatype class_stage =
    BeginStage node
  | HeritageStage node
  | ElementStage node "node option"
  | CompleteStage node

definition isClassConstructor :: "node \<Rightarrow> bool" where
  "isClassConstructor m \<longleftrightarrow> is_elem Constructor m"

definition classConstructorMember :: "node \<Rightarrow> node option" where
  "classConstructorMember d = find isClassConstructor (children d ''members'')"

definition computed_key :: "node \<Rightarrow> node option" where
  "computed_key m = (case child m ''name'' of
     Some name \<Rightarrow> if is_elem ComputedPropertyName name then Some (field name ''expression'') else None
   | None \<Rightarrow> None)"

definition classDefinitionPlan :: "node \<Rightarrow> class_stage list" where
  "classDefinitionPlan d =
     [BeginStage d] @
     concat (map (\<lambda>clause. if node_operator clause \<noteq> ExtendsKeyword then []
                           else map (\<lambda>h. HeritageStage (field h ''expression'')) (children clause ''types''))
               (children d ''heritageClauses'')) @
     map (\<lambda>m. ElementStage m (computed_key m))
       (filter (\<lambda>m. \<not> (isClassConstructor m \<or> is_elem SemicolonClassElement m)) (children d ''members'')) @
     [CompleteStage d]"

definition stage_expressions :: "class_stage \<Rightarrow> node list" where
  "stage_expressions s = (case s of
     HeritageStage e \<Rightarrow> [e]
   | ElementStage m (Some k) \<Rightarrow> [k]
   | _ \<Rightarrow> [])"

definition classDefinitionEvaluationExpressions :: "node \<Rightarrow> node list" where
  "classDefinitionEvaluationExpressions d = concat (map stage_expressions (classDefinitionPlan d))"

text \<open>The class expression made from a declaration shares its children and remembers the declaration.\<close>

definition classExpressionFromDeclaration :: "nat \<Rightarrow> node \<Rightarrow> node" where
  "classExpressionFromDeclaration i d =
     Node i (Expression ClassExpression) (OtherToken 0) [] 0 (Some d)
       (filter (\<lambda>c. fst c \<in> {''modifiers'', ''name'', ''typeParameters'', ''heritageClauses'', ''members''}) (node_children d))"

definition sourceClassDefinition :: "node \<Rightarrow> node" where
  "sourceClassDefinition e =
     (if is_stmt ClassDeclaration (getOriginalNode e) then getOriginalNode e else e)"

section \<open>Children evaluated by a definition\<close>

definition definitionEvaluationChildren :: "node \<Rightarrow> node list" where
  "definitionEvaluationChildren n =
     (if isClassLike n then classDefinitionEvaluationExpressions n
      else if isFunctionLike n then (case computed_key n of Some e \<Rightarrow> [e] | None \<Rightarrow> [])
      else forEachChild n)"

lemma sum_list_filter_le: "sum_list (map f (filter P xs)) \<le> (sum_list (map f xs) :: nat)"
  by (induction xs) auto

lemma sum_list_bound: "(\<And>x. x \<in> set xs \<Longrightarrow> g x \<le> (f x :: nat)) \<Longrightarrow> sum_list (map g xs) \<le> sum_list (map f xs)"
  by (induction xs) (auto intro: add_mono)

lemma sum_list_concat_bound:
  "(\<And>x. x \<in> set xs \<Longrightarrow> sum_list (map f (g x)) \<le> (h x :: nat)) \<Longrightarrow>
   sum_list (map f (concat (map g xs))) \<le> sum_list (map h xs)"
  by (induction xs) (auto intro: add_mono)

lemma computed_key_size: "computed_key m = Some e \<Longrightarrow> size e < size m"
proof -
  assume "computed_key m = Some e"
  then obtain name where "child m ''name'' = Some name" "e = field name ''expression''"
    by (auto simp: computed_key_def split: option.splits if_splits)
  then show ?thesis using le_less_trans [OF field_le child_size] by blast
qed

lemma classDefinitionEvaluationExpressions_eq:
  "classDefinitionEvaluationExpressions d =
     concat (map (\<lambda>clause. if node_operator clause \<noteq> ExtendsKeyword then []
                           else map (\<lambda>h. field h ''expression'') (children clause ''types''))
               (children d ''heritageClauses'')) @
     List.map_filter computed_key
       (filter (\<lambda>m. \<not> (isClassConstructor m \<or> is_elem SemicolonClassElement m)) (children d ''members''))"
proof -
  have 1: "concat (map (\<lambda>m. stage_expressions (ElementStage m (computed_key m))) ms) = List.map_filter computed_key ms" for ms
    by (induction ms) (auto simp: stage_expressions_def List.map_filter_simps split: option.split)
  have 2: "concat (map (\<lambda>h. stage_expressions (HeritageStage (field h ''expression''))) hs) = map (\<lambda>h. field h ''expression'') hs" for hs
    by (induction hs) (auto simp: stage_expressions_def)
  have 3: "concat (map stage_expressions (concat (map (\<lambda>clause. if node_operator clause \<noteq> ExtendsKeyword then []
                           else map (\<lambda>h. HeritageStage (field h ''expression'')) (children clause ''types'')) cs))) =
      concat (map (\<lambda>clause. if node_operator clause \<noteq> ExtendsKeyword then []
                           else map (\<lambda>h. field h ''expression'') (children clause ''types'')) cs)" for cs
    by (induction cs) (simp_all add: 2 [symmetric] comp_def)
  show ?thesis
    by (simp add: classDefinitionEvaluationExpressions_def classDefinitionPlan_def 3 1 [symmetric] comp_def)
      (simp add: stage_expressions_def)
qed

lemma classDefinitionEvaluationExpressions_sum:
  "sum_list (map size (classDefinitionEvaluationExpressions d)) < size d"
proof -
  let ?heritage = "\<lambda>clause. if node_operator clause \<noteq> ExtendsKeyword then []
    else map (\<lambda>h. field h ''expression'') (children clause ''types'')"
  have "sum_list (map size (?heritage c)) \<le> size c" for c
  proof -
    have "sum_list (map (\<lambda>h. size (field h ''expression'')) (children c ''types'')) \<le> sum_list (map size (children c ''types''))"
      by (rule sum_list_bound) (rule field_le)
    then show ?thesis using children_sum [of c "''types''"] by (simp add: comp_def)
  qed
  then have heritage: "sum_list (map size (concat (map ?heritage cs))) \<le> sum_list (map size cs)" for cs
    by (intro sum_list_concat_bound)
  have members: "sum_list (map size (List.map_filter computed_key (filter P ms))) \<le> sum_list (map size ms)" for P ms
    by (induction ms) (auto simp: List.map_filter_simps dest!: computed_key_size split: option.split)
  show ?thesis
    using children_sum2 [of "''heritageClauses''" "''members''" d] heritage [of "children d ''heritageClauses''"]
      members [of "\<lambda>m. \<not> (isClassConstructor m \<or> is_elem SemicolonClassElement m)" "children d ''members''"]
    unfolding classDefinitionEvaluationExpressions_eq by simp
qed

lemma definitionEvaluationChildren_sum: "sum_list (map size (definitionEvaluationChildren n)) < size n"
  using classDefinitionEvaluationExpressions_sum [of n] forEachChild_sum [of n]
  by (auto simp: definitionEvaluationChildren_def computed_key_size split: option.split)

text \<open>
  The search loops pop the last node, test it and push its evaluated children; the stack is kept with
  its top first.
\<close>

function evaluation_search :: "(node \<Rightarrow> bool) \<Rightarrow> node list \<Rightarrow> bool" where
  "evaluation_search p [] = False"
| "evaluation_search p (n # pending) =
     (if p n then True else evaluation_search p (rev (definitionEvaluationChildren n) @ pending))"
  by pat_completeness auto
termination
  by (relation "measure (\<lambda>(p, w). sum_list (map size w))")
    (simp_all add: rev_map [symmetric] definitionEvaluationChildren_sum)

definition top_level_await_node :: "node \<Rightarrow> bool" where
  "top_level_await_node n \<longleftrightarrow>
     is_expr AwaitExpression n \<or> (is_stmt ForOfStatement n \<and> has_child n ''awaitModifier'') \<or>
     (is_elem VariableDeclarationList n \<and> has_all_flags n flag_AwaitUsing)"

definition moduleHasTopLevelAwait :: "node \<Rightarrow> bool" where
  "moduleHasTopLevelAwait source = evaluation_search top_level_await_node [source]"

section \<open>Lexical declarations\<close>

definition lexicalDeclarationsFromList :: "node \<Rightarrow> node list" where
  "lexicalDeclarationsFromList l = (if has_flag l flag_BlockScoped then children l ''declarations'' else [])"

definition directLexicalDeclarations :: "node list \<Rightarrow> node list" where
  "directLexicalDeclarations statements =
     concat (map (\<lambda>s. if is_stmt VariableStatement s then lexicalDeclarationsFromList (field s ''declarationList'')
                     else if (is_stmt FunctionDeclaration s \<or> is_stmt ClassDeclaration s) \<and> has_child s ''name'' then [s]
                     else []) statements)"

section \<open>What the search decides\<close>

abbreviation evaluated_by :: "node \<Rightarrow> node set" where
  "evaluated_by n \<equiv> reach_from definitionEvaluationChildren {n}"

lemma evaluation_search_iff:
  "evaluation_search p w \<longleftrightarrow> (\<exists>n\<in>set w. \<exists>d\<in>evaluated_by n. p d)"
proof (induction p w rule: evaluation_search.induct)
  case (2 p n pending)
  have "(\<exists>d\<in>evaluated_by n. p d) \<longleftrightarrow> p n \<or> (\<exists>c\<in>set (definitionEvaluationChildren n). \<exists>d\<in>evaluated_by c. p d)"
    by (subst reach_from_unfold) blast
  then show ?case using 2 by auto
qed simp


text \<open>The class expression made from a declaration has the evaluation plan of the declaration apart
  from the definition itself, and \<open>sourceClassDefinition\<close> gives the declaration back.\<close>

theorem classExpression_roundtrip:
  assumes "is_stmt ClassDeclaration d" "node_original d = None"
  shows "sourceClassDefinition (classExpressionFromDeclaration i d) = d \<and>
    classDefinitionEvaluationExpressions (classExpressionFromDeclaration i d) = classDefinitionEvaluationExpressions d \<and>
    classConstructorMember (classExpressionFromDeclaration i d) = classConstructorMember d"
proof -
  have "children (classExpressionFromDeclaration i d) f = children d f"
    if "f \<in> {''heritageClauses'', ''members''}" for f
    using that by (auto simp: children_def classExpressionFromDeclaration_def intro!: arg_cong [where f = "map snd"] filter_cong)
  then show ?thesis
    using assms
    by (simp add: sourceClassDefinition_def getOriginalNode.simps classExpressionFromDeclaration_def
        classDefinitionEvaluationExpressions_eq classConstructorMember_def)
qed

definition example_class :: node where
  "example_class = Node 1 (Statement ClassDeclaration) (OtherToken 0) [] 0 None
     [(''name'', Node 2 Identifier (OtherToken 0) ''C'' 0 None []),
      (''members'', Node 3 (Element MethodDeclaration) (OtherToken 0) [] 0 None
         [(''name'', Node 4 (Element ComputedPropertyName) (OtherToken 0) [] 0 None
            [(''expression'', Node 5 (Expression AwaitExpression) (OtherToken 0) [] 0 None [])])])]"

theorem classExpression_roundtrip_witness:
  "is_stmt ClassDeclaration example_class \<and>
   sourceClassDefinition (classExpressionFromDeclaration 9 example_class) = example_class \<and>
   map node_id (classDefinitionEvaluationExpressions (classExpressionFromDeclaration 9 example_class)) = [5]"
proof -
  have d: "is_stmt ClassDeclaration example_class" "node_original example_class = None"
    by (simp_all add: is_stmt_def example_class_def)
  have e: "map node_id (classDefinitionEvaluationExpressions example_class) = [5]" by code_simp
  show ?thesis using classExpression_roundtrip [OF d, of 9] d e by simp
qed

end
