(* ===== verification/Binding_Tree.thy ===== *)
theory Binding_Tree
  imports TS_Ast
begin

text \<open>
  Binding patterns and assignment targets (\<open>src/src/emit/binding-tree.ts\<close>): erasing transparent
  wrappers, projecting a binding onto an assignment target and an assignment target onto a binding.
  The state of the latter is the map of property References and the supply of fresh node identities;
  \<open>attachSynthesizedPattern\<close> only sets ranges and parents, which nodes do not carry here.
\<close>

section \<open>Transparent wrappers\<close>

function unwrapTransparentExpression :: "(node \<Rightarrow> bool) \<Rightarrow> node \<Rightarrow> node" where
  "unwrapTransparentExpression boundary n =
     (if is_transparent n \<and> \<not> boundary n then
        (case child n ''expression'' of
           Some e \<Rightarrow> unwrapTransparentExpression boundary e
         | None \<Rightarrow> missing_node)
      else n)"
  by pat_completeness auto
termination by (relation "measure (\<lambda>(b, n). size n)") (auto simp: child_size)

declare unwrapTransparentExpression.simps [simp del]

abbreviation transparent :: "node \<Rightarrow> node" where
  "transparent \<equiv> unwrapTransparentExpression (\<lambda>_. False)"

lemma unwrap_size: "size (unwrapTransparentExpression b n) \<le> size n"
proof (induction b n rule: unwrapTransparentExpression.induct)
  case (1 b n)
  show ?case
  proof (cases "child n ''expression''")
    case (Some e)
    then show ?thesis
      using 1 child_size [OF Some] by (auto simp: unwrapTransparentExpression.simps [of b n])
  qed (auto simp: unwrapTransparentExpression.simps [of b n] size_missing)
qed

lemma transparent_not_wrapper: "\<not> is_transparent (transparent n)"
proof (induction "\<lambda>_ :: node. False" n rule: unwrapTransparentExpression.induct)
  case (1 n)
  then show ?case
    by (auto simp: unwrapTransparentExpression.simps [of _ n] is_transparent_def missing_node_def split: option.split)
qed

lemma transparent_id: "\<not> is_transparent n \<Longrightarrow> transparent n = n"
  by (simp add: unwrapTransparentExpression.simps)

section \<open>From assignment targets to bindings\<close>

type_synonym normalize_state = "(node \<times> node) list \<times> nat"

definition createBindingElement :: "nat \<Rightarrow> bool \<Rightarrow> node option \<Rightarrow> node \<Rightarrow> node option \<Rightarrow> node" where
  "createBindingElement i rest propertyName name initializer =
     synthesized i (Element BindingElement) []
       ((if rest then [(''dotDotDotToken'', synthesized 0 (Token DotDotDotToken) [] [])] else []) @
        (case propertyName of Some p \<Rightarrow> [(''propertyName'', p)] | None \<Rightarrow> []) @
        [(''name'', name)] @
        (case initializer of Some e \<Rightarrow> [(''initializer'', e)] | None \<Rightarrow> []))"

definition decimal :: "nat \<Rightarrow> string" where
  "decimal n = to_radix 10 n"

definition default_assignment :: "node \<Rightarrow> node option" where
  "default_assignment value =
     (if is_expr BinaryExpression value \<and> node_kind (field value ''operatorToken'') = Token EqualsToken
      then Some value else None)"

definition assignment_left :: "node \<Rightarrow> node" where
  "assignment_left value = (case default_assignment value of Some a \<Rightarrow> field a ''left'' | None \<Rightarrow> value)"

definition assignment_right :: "node \<Rightarrow> node option" where
  "assignment_right value = (case default_assignment value of Some a \<Rightarrow> Some (field a ''right'') | None \<Rightarrow> None)"

lemma assignment_left_size: "size (assignment_left v) \<le> size v"
  by (auto simp: assignment_left_def default_assignment_def split: option.splits)

lemma assignment_value_size:
  "size (assignment_left (transparent n)) \<le> size n" "size (assignment_left (transparent (field n f))) \<le> size n"
  using order_trans [OF assignment_left_size unwrap_size] order_trans [OF _ field_le] by blast+

function (sequential) normalizeAssignmentTarget :: "node \<Rightarrow> normalize_state \<Rightarrow> node option \<times> normalize_state"
and normalize_elements :: "node list \<Rightarrow> normalize_state \<Rightarrow> node list option \<times> normalize_state"
and normalize_properties :: "node list \<Rightarrow> normalize_state \<Rightarrow> node list option \<times> normalize_state" where
  "normalizeAssignmentTarget expression (targets, fresh) =
     (let target = transparent expression in
      if isIdentifier target then (Some target, (targets, fresh))
      else if isAccess target then
        (let placeholder = synthesized fresh Identifier (''__tsc_assignment_target_'' @ decimal (length targets)) []
         in (Some placeholder, (targets @ [(placeholder, target)], fresh + 1)))
      else if is_expr ArrayLiteralExpression target then
        (case normalize_elements (children target ''elements'') (targets, fresh) of
           (None, st) \<Rightarrow> (None, st)
         | (Some elements, (targets', fresh')) \<Rightarrow>
             (Some (synthesized fresh' (Element ArrayBindingPattern) [] (map (Pair ''elements'') elements)),
              (targets', fresh' + 1)))
      else if is_expr ObjectLiteralExpression target then
        (case normalize_properties (children target ''properties'') (targets, fresh) of
           (None, st) \<Rightarrow> (None, st)
         | (Some elements, (targets', fresh')) \<Rightarrow>
             (Some (synthesized fresh' (Element ObjectBindingPattern) [] (map (Pair ''elements'') elements)),
              (targets', fresh' + 1)))
      else (None, (targets, fresh)))"
| "normalize_elements [] st = (Some [], st)"
| "normalize_elements (element # rest) st =
     (if is_expr OmittedExpression element then
        (case normalize_elements rest st of
           (None, st') \<Rightarrow> (None, st')
         | (Some elements, st') \<Rightarrow> (Some (element # elements), st'))
      else if is_expr SpreadElement element then
        (if rest \<noteq> [] then (None, st)
         else
           (case normalizeAssignmentTarget (field element ''expression'') st of
              (None, st') \<Rightarrow> (None, st')
            | (Some name, (targets, fresh)) \<Rightarrow>
                (Some [createBindingElement fresh True None name None], (targets, fresh + 1))))
      else
        (let value = transparent element in
         case normalizeAssignmentTarget (assignment_left value) st of
           (None, st') \<Rightarrow> (None, st')
         | (Some name, (targets, fresh)) \<Rightarrow>
             (case normalize_elements rest (targets, fresh + 1) of
                (None, st') \<Rightarrow> (None, st')
              | (Some elements, st') \<Rightarrow>
                  (Some (createBindingElement fresh False None name (assignment_right value) # elements), st'))))"
| "normalize_properties [] st = (Some [], st)"
| "normalize_properties (property # rest) st =
     (case
       (if is_elem SpreadAssignment property then
          (case normalizeAssignmentTarget (field property ''expression'') st of
             (None, st') \<Rightarrow> (None, st')
           | (Some name, (targets, fresh)) \<Rightarrow>
               (Some (createBindingElement fresh True None name None), (targets, fresh + 1)))
        else if is_elem ShorthandPropertyAssignment property then
          (case st of (targets, fresh) \<Rightarrow>
             (Some (createBindingElement fresh False None (field property ''name'')
                (child property ''objectAssignmentInitializer'')), (targets, fresh + 1)))
        else if \<not> is_elem PropertyAssignment property then (None, st)
        else
          (let value = transparent (field property ''initializer'') in
           case normalizeAssignmentTarget (assignment_left value) st of
             (None, st') \<Rightarrow> (None, st')
           | (Some name, (targets, fresh)) \<Rightarrow>
               (Some (createBindingElement fresh False (Some (field property ''name'')) name (assignment_right value)),
                (targets, fresh + 1))))
      of (None, st') \<Rightarrow> (None, st')
       | (Some element, st') \<Rightarrow>
           (case normalize_properties rest st' of
              (None, st'') \<Rightarrow> (None, st'')
            | (Some elements, st'') \<Rightarrow> (Some (element # elements), st'')))"
  by pat_completeness auto
termination
proof (relation "measure (\<lambda>x. case x of
    Inl (n, _) \<Rightarrow> 2 * size n
  | Inr (Inl (es, _)) \<Rightarrow> 2 * sum_list (map size es) + 1
  | Inr (Inr (ps, _)) \<Rightarrow> 2 * sum_list (map size ps) + 1)", goal_cases)
  case 1
  show ?case by simp
next
  case (2 expression targets fresh target)
  then show ?case using children_sum [of target "''elements''"] unwrap_size [of "\<lambda>_. False" expression] by simp
next
  case (3 expression targets fresh target)
  then show ?case using children_sum [of target "''properties''"] unwrap_size [of "\<lambda>_. False" expression] by simp
qed (auto simp: less_Suc_eq_le trans_le_add1 assignment_value_size Suc_leI)

declare normalizeAssignmentTarget.simps [simp del]

section \<open>From bindings to assignment targets\<close>

definition createAssignment :: "node \<Rightarrow> node \<Rightarrow> node" where
  "createAssignment l r = synthesized 0 (Expression BinaryExpression) []
     [(''left'', l), (''operatorToken'', synthesized 0 (Token EqualsToken) [] []), (''right'', r)]"

function assignmentTargetFromBinding :: "node \<Rightarrow> node" where
  "assignmentTargetFromBinding n =
     (if isIdentifier n then n
      else if is_elem ArrayBindingPattern n then
        synthesized 0 (Expression ArrayLiteralExpression) [] (map (\<lambda>e. (''elements'',
          if is_expr OmittedExpression e then e
          else
            (let value = (case child e ''initializer'' of
                   Some i \<Rightarrow> createAssignment (assignmentTargetFromBinding (field e ''name'')) i
                 | None \<Rightarrow> assignmentTargetFromBinding (field e ''name''))
             in if has_child e ''dotDotDotToken''
                then synthesized 0 (Expression SpreadElement) [] [(''expression'', value)]
                else value))) (children n ''elements''))
      else
        synthesized 0 (Expression ObjectLiteralExpression) [] (map (\<lambda>e. (''properties'',
          (let value = (case child e ''initializer'' of
                 Some i \<Rightarrow> createAssignment (assignmentTargetFromBinding (field e ''name'')) i
               | None \<Rightarrow> assignmentTargetFromBinding (field e ''name''))
           in if has_child e ''dotDotDotToken''
              then synthesized 0 (Element SpreadAssignment) [] [(''expression'', value)]
              else synthesized 0 (Element PropertyAssignment) []
                [(''name'', case child e ''propertyName'' of Some p \<Rightarrow> p | None \<Rightarrow> field e ''name''),
                 (''initializer'', value)]))) (children n ''elements'')))"
  by pat_completeness auto
termination
  by (relation "measure size") (auto intro: le_less_trans [OF field_le children_size])

declare assignmentTargetFromBinding.simps [simp del]

definition element_value :: "node \<Rightarrow> node" where
  "element_value e = (case child e ''initializer'' of
     Some i \<Rightarrow> createAssignment (assignmentTargetFromBinding (field e ''name'')) i
   | None \<Rightarrow> assignmentTargetFromBinding (field e ''name''))"

section \<open>The two projections are inverse on the shape of a binding\<close>

text \<open>
  The shape of a binding: its names, which elements are holes or rest elements, the property keys
  (an object element without one uses its name) and the initializers.
\<close>

datatype binding_shape =
    NameShape node
  | ArrayShape "shape_element option list"
  | ObjectShape "shape_element list"
and shape_element = ShapeElement (is_rest: bool) (shape_key: "node option") (shape_init: "node option") (shape_of: binding_shape)

function binding_shape_of :: "node \<Rightarrow> binding_shape" where
  "binding_shape_of n =
     (if isIdentifier n then NameShape n
      else if is_elem ArrayBindingPattern n then
        ArrayShape (map (\<lambda>e. if is_expr OmittedExpression e then None
          else Some (ShapeElement (has_child e ''dotDotDotToken'') None (child e ''initializer'') (binding_shape_of (field e ''name''))))
          (children n ''elements''))
      else
        ObjectShape (map (\<lambda>e. ShapeElement (has_child e ''dotDotDotToken'')
            (if has_child e ''dotDotDotToken'' then None
             else Some (case child e ''propertyName'' of Some p \<Rightarrow> p | None \<Rightarrow> field e ''name''))
            (child e ''initializer'') (binding_shape_of (field e ''name'')))
          (children n ''elements'')))"
  by pat_completeness auto
termination
  by (relation "measure size") (auto intro: le_less_trans [OF field_le children_size])

declare binding_shape_of.simps [simp del]

text \<open>Bindings as the grammar has them: a rest element is last, has no initializer and no property key.\<close>

function wf_binding :: "node \<Rightarrow> bool" where
  "wf_binding n \<longleftrightarrow>
     isIdentifier n \<or>
     (is_elem ArrayBindingPattern n \<and>
      (\<forall>e\<in>set (children n ''elements''). is_expr OmittedExpression e \<or>
         (is_elem BindingElement e \<and> wf_binding (field e ''name'') \<and>
          (has_child e ''dotDotDotToken'' \<longrightarrow> \<not> has_child e ''initializer''))) \<and>
      (\<forall>e\<in>set (butlast (children n ''elements'')). \<not> has_child e ''dotDotDotToken'')) \<or>
     (is_elem ObjectBindingPattern n \<and>
      (\<forall>e\<in>set (children n ''elements''). is_elem BindingElement e \<and> wf_binding (field e ''name'') \<and>
         (has_child e ''dotDotDotToken'' \<longrightarrow> \<not> has_child e ''initializer'')))"
  by pat_completeness auto
termination
  by (relation "measure size") (auto intro: le_less_trans [OF field_le children_size])

declare wf_binding.simps [simp del]

definition normalizes_to :: "node \<Rightarrow> binding_shape \<Rightarrow> bool" where
  "normalizes_to e sh \<longleftrightarrow>
     (\<forall>targets fresh. \<exists>b fresh'. normalizeAssignmentTarget e (targets, fresh) = (Some b, (targets, fresh')) \<and>
        binding_shape_of b = sh)"

lemma assignmentTarget_kind:
  "node_kind (assignmentTargetFromBinding n) \<in>
     {Identifier, Expression ArrayLiteralExpression, Expression ObjectLiteralExpression}"
  by (simp add: assignmentTargetFromBinding.simps [of n] isIdentifier_def)

lemma element_value_kind:
  "node_kind (element_value e) \<in>
     {Identifier, Expression ArrayLiteralExpression, Expression ObjectLiteralExpression, Expression BinaryExpression}"
  using assignmentTarget_kind by (auto simp: element_value_def createAssignment_def split: option.split)

lemma element_value_transparent [simp]: "transparent (element_value e) = element_value e"
  using element_value_kind [of e] by (intro transparent_id) (auto simp: is_transparent_def)

lemma element_value_parts [simp]:
  "assignment_left (element_value e) = assignmentTargetFromBinding (field e ''name'')"
  "assignment_right (element_value e) = child e ''initializer''"
  using assignmentTarget_kind [of "field e ''name''"]
  by (auto simp: assignment_left_def assignment_right_def default_assignment_def element_value_def createAssignment_def
      is_expr_def field_def split: option.splits)

lemma createBindingElement_simps [simp]:
  "node_kind (createBindingElement i r p n e) = Element BindingElement"
  "has_child (createBindingElement i r p n e) ''dotDotDotToken'' = r"
  "child (createBindingElement i r p n e) ''propertyName'' = p"
  "child (createBindingElement i r p n e) ''initializer'' = e"
  "field (createBindingElement i r p n e) ''name'' = n"
  by (auto simp: createBindingElement_def has_child_def field_def split: option.splits)

definition array_item :: "node \<Rightarrow> node" where
  "array_item e = (if is_expr OmittedExpression e then e
     else if has_child e ''dotDotDotToken''
     then synthesized 0 (Expression SpreadElement) [] [(''expression'', element_value e)] else element_value e)"

definition object_item :: "node \<Rightarrow> node" where
  "object_item e = (if has_child e ''dotDotDotToken''
     then synthesized 0 (Element SpreadAssignment) [] [(''expression'', element_value e)]
     else synthesized 0 (Element PropertyAssignment) []
       [(''name'', case child e ''propertyName'' of Some p \<Rightarrow> p | None \<Rightarrow> field e ''name''), (''initializer'', element_value e)])"

definition array_shape :: "node \<Rightarrow> shape_element option" where
  "array_shape e = (if is_expr OmittedExpression e then None
     else Some (ShapeElement (has_child e ''dotDotDotToken'') None (child e ''initializer'') (binding_shape_of (field e ''name''))))"

definition object_shape :: "node \<Rightarrow> shape_element" where
  "object_shape e = ShapeElement (has_child e ''dotDotDotToken'')
     (if has_child e ''dotDotDotToken'' then None
      else Some (case child e ''propertyName'' of Some p \<Rightarrow> p | None \<Rightarrow> field e ''name''))
     (child e ''initializer'') (binding_shape_of (field e ''name''))"

lemma shape_createBindingElement [simp]:
  "array_shape (createBindingElement i r p n e) = Some (ShapeElement r None e (binding_shape_of n))"
  "object_shape (createBindingElement i r p n e) =
     ShapeElement r (if r then None else Some (case p of Some k \<Rightarrow> k | None \<Rightarrow> n)) e (binding_shape_of n)"
  by (simp_all add: array_shape_def object_shape_def is_expr_def split: option.split)

lemma assignmentTarget_patterns:
  "\<not> isIdentifier n \<Longrightarrow> is_elem ArrayBindingPattern n \<Longrightarrow> assignmentTargetFromBinding n =
     synthesized 0 (Expression ArrayLiteralExpression) [] (map (Pair ''elements'') (map array_item (children n ''elements'')))"
  "\<not> isIdentifier n \<Longrightarrow> \<not> is_elem ArrayBindingPattern n \<Longrightarrow> assignmentTargetFromBinding n =
     synthesized 0 (Expression ObjectLiteralExpression) [] (map (Pair ''properties'') (map object_item (children n ''elements'')))"
proof -
  have "(\<lambda>e. (''elements'',
      if is_expr OmittedExpression e then e
      else
        (let value = (case child e ''initializer'' of
               Some i \<Rightarrow> createAssignment (assignmentTargetFromBinding (field e ''name'')) i
             | None \<Rightarrow> assignmentTargetFromBinding (field e ''name''))
         in if has_child e ''dotDotDotToken'' then synthesized 0 (Expression SpreadElement) [] [(''expression'', value)]
            else value))) = (\<lambda>e. (''elements'', array_item e))"
    by (rule ext) (simp only: array_item_def element_value_def Let_def)
  then show "assignmentTargetFromBinding n =
     synthesized 0 (Expression ArrayLiteralExpression) [] (map (Pair ''elements'') (map array_item (children n ''elements'')))"
    if "\<not> isIdentifier n" "is_elem ArrayBindingPattern n"
    using that by (simp only: assignmentTargetFromBinding.simps [of n] if_True if_False map_map comp_def)
  have "(\<lambda>e. (''properties'',
      (let value = (case child e ''initializer'' of
             Some i \<Rightarrow> createAssignment (assignmentTargetFromBinding (field e ''name'')) i
           | None \<Rightarrow> assignmentTargetFromBinding (field e ''name''))
       in if has_child e ''dotDotDotToken'' then synthesized 0 (Element SpreadAssignment) [] [(''expression'', value)]
          else synthesized 0 (Element PropertyAssignment) []
            [(''name'', case child e ''propertyName'' of Some p \<Rightarrow> p | None \<Rightarrow> field e ''name''),
             (''initializer'', value)]))) = (\<lambda>e. (''properties'', object_item e))"
    by (rule ext) (simp only: object_item_def element_value_def Let_def)
  then show "assignmentTargetFromBinding n =
     synthesized 0 (Expression ObjectLiteralExpression) [] (map (Pair ''properties'') (map object_item (children n ''elements'')))"
    if "\<not> isIdentifier n" "\<not> is_elem ArrayBindingPattern n"
    using that by (simp only: assignmentTargetFromBinding.simps [of n] if_True if_False map_map comp_def)
qed

lemma binding_shape_patterns:
  "is_elem ArrayBindingPattern n \<Longrightarrow> binding_shape_of n = ArrayShape (map array_shape (children n ''elements''))"
  "is_elem ObjectBindingPattern n \<Longrightarrow> binding_shape_of n = ObjectShape (map object_shape (children n ''elements''))"
  by (auto simp: binding_shape_of.simps [of n] array_shape_def object_shape_def isIdentifier_def is_elem_def)

definition element_ok :: "node \<Rightarrow> bool" where
  "element_ok e \<longleftrightarrow> normalizes_to (assignmentTargetFromBinding (field e ''name'')) (binding_shape_of (field e ''name'')) \<and>
     is_elem BindingElement e \<and> (has_child e ''dotDotDotToken'' \<longrightarrow> \<not> has_child e ''initializer'')"

lemma element_ok_normalize:
  assumes "element_ok e"
  obtains b fresh' where "normalizeAssignmentTarget (assignmentTargetFromBinding (field e ''name'')) (targets, fresh) = (Some b, (targets, fresh'))"
    and "binding_shape_of b = binding_shape_of (field e ''name'')"
proof -
  have "\<exists>b fresh'. normalizeAssignmentTarget (assignmentTargetFromBinding (field e ''name'')) (targets, fresh) = (Some b, (targets, fresh')) \<and>
      binding_shape_of b = binding_shape_of (field e ''name'')"
    using assms by (simp add: element_ok_def normalizes_to_def)
  then show thesis using that by blast
qed

lemma rest_value: "element_ok e \<Longrightarrow> has_child e ''dotDotDotToken'' \<Longrightarrow>
  element_value e = assignmentTargetFromBinding (field e ''name'') \<and> child e ''initializer'' = None"
  by (auto simp: element_ok_def element_value_def has_child_def)

lemma normalize_elements_shape:
  assumes "\<forall>e\<in>set es. is_expr OmittedExpression e \<or> element_ok e" "\<forall>e\<in>set (butlast es). \<not> has_child e ''dotDotDotToken''"
  shows "\<exists>bs fresh'. normalize_elements (map array_item es) (targets, fresh) = (Some bs, (targets, fresh')) \<and>
           map array_shape bs = map array_shape es"
  using assms
proof (induction es arbitrary: fresh)
  case (Cons e es)
  have IH: "\<exists>bs fresh'. normalize_elements (map array_item es) (targets, f) = (Some bs, (targets, fresh')) \<and>
      map array_shape bs = map array_shape es" for f
    using Cons.IH [of f] Cons.prems by (cases es) auto
  show ?case
  proof (cases "is_expr OmittedExpression e")
    case True
    then show ?thesis using IH [of fresh] by (auto simp: array_item_def [of e])
  next
    case notom: False
    with Cons.prems(1) have ok: "element_ok e" by simp
    obtain b f' where
      n: "normalizeAssignmentTarget (assignmentTargetFromBinding (field e ''name'')) (targets, fresh) = (Some b, (targets, f'))"
      and sh: "binding_shape_of b = binding_shape_of (field e ''name'')"
      using element_ok_normalize [OF ok] .
    show ?thesis
    proof (cases "has_child e ''dotDotDotToken''")
      case True
      then have "es = []" using Cons.prems(2) by (cases es) auto
      then show ?thesis
        using True notom n sh rest_value [OF ok True]
        by (auto simp: array_item_def [of e] is_expr_def field_def [of "synthesized i k t cs" for i k t cs] array_shape_def [of e])
    next
      case False
      have "\<not> is_expr OmittedExpression (element_value e)" "\<not> is_expr SpreadElement (element_value e)"
        using element_value_kind [of e] by (auto simp: is_expr_def)
      moreover obtain bs f'' where "normalize_elements (map array_item es) (targets, f' + 1) = (Some bs, (targets, f''))"
          "map array_shape bs = map array_shape es"
        using IH [of "f' + 1"] by blast
      ultimately show ?thesis
        using notom False n sh by (simp add: array_item_def [of e] array_shape_def [of e])
    qed
  qed
qed simp

lemma normalize_properties_shape:
  assumes "\<forall>e\<in>set es. element_ok e"
  shows "\<exists>bs fresh'. normalize_properties (map object_item es) (targets, fresh) = (Some bs, (targets, fresh')) \<and>
           map object_shape bs = map object_shape es"
  using assms
proof (induction es arbitrary: fresh)
  case (Cons e es)
  have ok: "element_ok e" using Cons.prems by simp
  obtain b f' where
    n: "normalizeAssignmentTarget (assignmentTargetFromBinding (field e ''name'')) (targets, fresh) = (Some b, (targets, f'))"
    and sh: "binding_shape_of b = binding_shape_of (field e ''name'')"
    using element_ok_normalize [OF ok] .
  obtain bs f'' where "normalize_properties (map object_item es) (targets, f' + 1) = (Some bs, (targets, f''))"
      "map object_shape bs = map object_shape es"
    using Cons.IH [of "f' + 1"] Cons.prems by auto
  then show ?case
    using n sh rest_value [OF ok]
    by (cases "has_child e ''dotDotDotToken''")
      (simp_all add: object_item_def [of e] is_elem_def field_def [of "synthesized i k t cs" for i k t cs] object_shape_def [of e])
qed simp

lemma pattern_kinds:
  "transparent (synthesized i (Expression k) t cs) = synthesized i (Expression k) t cs"
  "isIdentifier (synthesized i (Expression k) t cs) = False"
  "isAccess (synthesized i (Expression k) t cs) \<longleftrightarrow> k \<in> {PropertyAccessExpression, ElementAccessExpression}"
  "is_expr k' (synthesized i (Expression k) t cs) \<longleftrightarrow> k = k'"
  "is_elem l' (synthesized i (Element l) t cs) \<longleftrightarrow> l = l'"
  by (auto simp: transparent_id is_transparent_def isIdentifier_def isAccess_def is_expr_def is_elem_def)

lemma normalize_assignmentTarget: "wf_binding n \<Longrightarrow> normalizes_to (assignmentTargetFromBinding n) (binding_shape_of n)"
proof (induction n rule: wf_binding.induct)
  case (1 n)
  consider (name) "isIdentifier n"
    | (array) "is_elem ArrayBindingPattern n" "\<not> isIdentifier n"
        "\<forall>e\<in>set (children n ''elements''). is_expr OmittedExpression e \<or> element_ok e"
        "\<forall>e\<in>set (butlast (children n ''elements'')). \<not> has_child e ''dotDotDotToken''"
    | (object) "is_elem ObjectBindingPattern n" "\<not> isIdentifier n" "\<not> is_elem ArrayBindingPattern n"
        "\<forall>e\<in>set (children n ''elements''). element_ok e"
    using 1 unfolding wf_binding.simps [of n] element_ok_def by (auto simp: isIdentifier_def is_elem_def)
  then show ?case
  proof cases
    case name
    then show ?thesis
      by (auto simp: normalizes_to_def assignmentTargetFromBinding.simps [of n] binding_shape_of.simps [of n]
          normalizeAssignmentTarget.simps transparent_id is_transparent_def isIdentifier_def Let_def)
  next
    case array
    show ?thesis
      unfolding normalizes_to_def
    proof (intro allI)
      fix targets fresh
      obtain bs fresh' where "normalize_elements (map array_item (children n ''elements'')) (targets, fresh) = (Some bs, (targets, fresh'))"
          "map array_shape bs = map array_shape (children n ''elements'')"
        using normalize_elements_shape [OF array(3,4)] by blast
      then show "\<exists>b fresh'. normalizeAssignmentTarget (assignmentTargetFromBinding n) (targets, fresh) = (Some b, targets, fresh') \<and>
          binding_shape_of b = binding_shape_of n"
        using array(1,2) by (simp add: assignmentTarget_patterns binding_shape_patterns pattern_kinds normalizeAssignmentTarget.simps Let_def
            del: map_map)
    qed
  next
    case object
    show ?thesis
      unfolding normalizes_to_def
    proof (intro allI)
      fix targets fresh
      obtain bs fresh' where "normalize_properties (map object_item (children n ''elements'')) (targets, fresh) = (Some bs, (targets, fresh'))"
          "map object_shape bs = map object_shape (children n ''elements'')"
        using normalize_properties_shape [OF object(4)] by blast
      then show "\<exists>b fresh'. normalizeAssignmentTarget (assignmentTargetFromBinding n) (targets, fresh) = (Some b, targets, fresh') \<and>
          binding_shape_of b = binding_shape_of n"
        using object(1-3) by (simp add: assignmentTarget_patterns binding_shape_patterns pattern_kinds normalizeAssignmentTarget.simps Let_def
            del: map_map)
    qed
  qed
qed

text \<open>C27 Projecting a well-formed binding onto an assignment target and normalising that target back
  gives a binding of the same shape (names, holes, rest elements, property keys, initializers), and
  records no property Reference.\<close>

theorem normalizeAssignmentTarget_roundtrip:
  assumes "wf_binding b"
  shows "\<exists>b' fresh'. normalizeAssignmentTarget (assignmentTargetFromBinding b) (targets, fresh) = (Some b', (targets, fresh')) \<and>
           binding_shape_of b' = binding_shape_of b"
  using normalize_assignmentTarget [OF assms] unfolding normalizes_to_def by blast

definition example_name :: "nat \<Rightarrow> string \<Rightarrow> node" where
  "example_name i t = Node i Identifier (OtherToken 0) t 0 None []"

text \<open>\<open>[a = e, , ...{p: b, c}]\<close>\<close>

definition example_binding :: node where
  "example_binding = Node 1 (Element ArrayBindingPattern) (OtherToken 0) [] 0 None
     [(''elements'', Node 2 (Element BindingElement) (OtherToken 0) [] 0 None
         [(''name'', example_name 3 ''a''), (''initializer'', example_name 4 ''e'')]),
      (''elements'', Node 5 (Expression OmittedExpression) (OtherToken 0) [] 0 None []),
      (''elements'', Node 6 (Element BindingElement) (OtherToken 0) [] 0 None
         [(''dotDotDotToken'', Node 7 (Token DotDotDotToken) (OtherToken 0) [] 0 None []),
          (''name'', Node 8 (Element ObjectBindingPattern) (OtherToken 0) [] 0 None
             [(''elements'', Node 9 (Element BindingElement) (OtherToken 0) [] 0 None
                [(''propertyName'', example_name 10 ''p''), (''name'', example_name 11 ''b'')]),
              (''elements'', Node 12 (Element BindingElement) (OtherToken 0) [] 0 None
                [(''name'', example_name 13 ''c'')])])])]"

theorem normalizeAssignmentTarget_roundtrip_witness:
  "wf_binding example_binding \<and>
   (\<exists>b' fresh'. normalizeAssignmentTarget (assignmentTargetFromBinding example_binding) ([], 100) = (Some b', ([], fresh')) \<and>
      binding_shape_of b' = binding_shape_of example_binding)"
proof -
  have wf: "wf_binding example_binding" by code_simp
  then show ?thesis using normalizeAssignmentTarget_roundtrip [OF wf, of "[]" 100] by simp
qed

end
