(* ===== verification/Tail_Position.thy ===== *)
theory Tail_Position
  imports TS_Ast
begin

text \<open>
  Tail-position calls (\<open>src/src/tail-position.ts\<close>). The parent chain of a node and
  \<open>isStrictCodeContext\<close> of \<open>src/src/function-static-semantics.ts\<close> are given by the environment of the
  syntax tree.
\<close>

record ast_env =
  ancestors :: "node \<Rightarrow> node list"
  isStrictCodeContext :: "node \<Rightarrow> bool"

definition parent_of :: "ast_env \<Rightarrow> node \<Rightarrow> node option" where
  "parent_of env n = (case ancestors env n of [] \<Rightarrow> None | p # _ \<Rightarrow> Some p)"

definition tail_operator :: "node \<Rightarrow> bool" where
  "tail_operator n \<longleftrightarrow> node_kind (field n ''operatorToken'') \<in>
     {Token CommaToken, Token AmpersandAmpersandToken, Token BarBarToken, Token QuestionQuestionToken}"

definition function_can_tail_call :: "node \<Rightarrow> bool" where
  "function_can_tail_call f \<longleftrightarrow>
     has_child f ''body'' \<and> \<not> has_child f ''asteriskToken'' \<and>
     \<not> (\<exists>m\<in>set (children f ''modifiers''). node_kind m = Token AsyncKeyword)"

definition has_using_declaration :: "node \<Rightarrow> bool" where
  "has_using_declaration b \<longleftrightarrow>
     (\<exists>s\<in>set (children b ''statements''). is_stmt VariableStatement s \<and> has_flag (field s ''declarationList'') flag_Using)"

definition try_barrier :: "node \<Rightarrow> node \<Rightarrow> bool" where
  "try_barrier parent current \<longleftrightarrow> is_stmt TryStatement parent \<and>
     (Some current \<noteq> (case child parent ''finallyBlock'' of Some f \<Rightarrow> Some f | None \<Rightarrow> child parent ''catchClause'') \<or>
      (has_child parent ''finallyBlock'' \<and> Some current = child parent ''catchClause''))"

text \<open>The walk over the parent chain; \<open>returned\<close> is set once a return statement has been passed.\<close>

fun tail_walk :: "bool \<Rightarrow> node \<Rightarrow> node list \<Rightarrow> bool" where
  "tail_walk returned current [] = False"
| "tail_walk returned current (parent # rest) =
     (if \<not> returned \<and> is_transparent parent then tail_walk returned parent rest
      else if \<not> returned \<and> is_expr ConditionalExpression parent \<and> Some current \<noteq> child parent ''condition''
      then tail_walk returned parent rest
      else if \<not> returned \<and> is_expr BinaryExpression parent \<and> Some current = child parent ''right'' \<and> tail_operator parent
      then tail_walk returned parent rest
      else if \<not> returned \<and> is_stmt ReturnStatement parent \<and> Some current = child parent ''expression''
      then tail_walk True parent rest
      else if \<not> returned \<and> (\<not> is_expr ArrowFunction parent \<or> Some current \<noteq> child parent ''body'') then False
      else if isFunctionLike parent then function_can_tail_call parent
      else if is_stmt ForOfStatement parent then False
      else if try_barrier parent current then False
      else if is_stmt Block parent \<and> has_using_declaration parent then False
      else if isClassLike parent \<or> is_kind SourceFile parent then False
      else tail_walk returned parent rest)"

definition isTailPositionCall :: "ast_env \<Rightarrow> node \<Rightarrow> bool" where
  "isTailPositionCall env n \<longleftrightarrow>
     (is_expr CallExpression n \<or> is_expr TaggedTemplateExpression n) \<and> isStrictCodeContext env n \<and>
     \<not> (is_expr CallExpression n \<and> node_kind (field n ''expression'') \<in> {SuperKeyword, ImportKeyword}) \<and>
     tail_walk False n (ancestors env n)"

definition path_barrier :: "node \<Rightarrow> bool" where
  "path_barrier p \<longleftrightarrow> isFunctionLike p \<or> isClassLike p \<or> is_stmt ForOfStatement p \<or> is_kind SourceFile p \<or>
     (is_stmt Block p \<and> has_using_declaration p)"

lemma transparent_no_barrier: "is_transparent p \<Longrightarrow> \<not> path_barrier p"
  by (auto simp: is_transparent_def path_barrier_def isFunctionLike_def isClassLike_def is_stmt_def is_kind_def
      split: syntax_kind.splits)

lemma expression_no_barrier:
  "is_expr ConditionalExpression p \<or> is_expr BinaryExpression p \<or> is_stmt ReturnStatement p \<Longrightarrow> \<not> path_barrier p"
  by (auto simp: is_expr_def path_barrier_def isFunctionLike_def isClassLike_def is_stmt_def is_kind_def)

text \<open>Each parent on the path, with the node below it.\<close>

fun path_steps :: "node \<Rightarrow> node list \<Rightarrow> (node \<times> node) list" where
  "path_steps c [] = []"
| "path_steps c (p # ps) = (c, p) # path_steps p ps"

lemma tail_walk_path:
  "tail_walk r c ps \<Longrightarrow>
   \<exists>pre f post. ps = pre @ f # post \<and> isFunctionLike f \<and> function_can_tail_call f \<and>
     (\<forall>(c, p)\<in>set (path_steps c pre). \<not> path_barrier p \<and> \<not> try_barrier p c)"
proof (induction r c ps rule: tail_walk.induct)
  case (2 r c p rest)
  show ?case
  proof (cases "isFunctionLike p")
    case True
    then have "function_can_tail_call p"
      using 2(6) transparent_no_barrier [of p] expression_no_barrier [of p] by (auto simp: path_barrier_def split: if_splits)
    then show ?thesis using True by (intro exI [of _ "[]"]) auto
  next
    case False
    have no: "\<not> path_barrier p \<and> \<not> try_barrier p c" if "is_transparent p \<or> is_expr k p \<or> is_stmt ReturnStatement p"
      "k = ConditionalExpression \<or> k = BinaryExpression" for k
      using that transparent_no_barrier expression_no_barrier
      by (auto simp: try_barrier_def is_transparent_def is_expr_def is_stmt_def split: syntax_kind.splits)
    have "\<exists>r'. tail_walk r' p rest \<and>
      (\<exists>pre f post. rest = pre @ f # post \<and> isFunctionLike f \<and> function_can_tail_call f \<and>
         (\<forall>(c, p)\<in>set (path_steps p pre). \<not> path_barrier p \<and> \<not> try_barrier p c)) \<and>
      \<not> path_barrier p \<and> \<not> try_barrier p c"
      using 2 False no [of ConditionalExpression] no [of BinaryExpression]
      by (auto simp: path_barrier_def split: if_splits)
    then obtain pre f post where "rest = pre @ f # post" "isFunctionLike f" "function_can_tail_call f"
      "\<forall>(c, p)\<in>set (path_steps p pre). \<not> path_barrier p \<and> \<not> try_barrier p c" "\<not> path_barrier p \<and> \<not> try_barrier p c"
      by blast
    then show ?thesis by (intro exI [of _ "p # pre"]) auto
  qed
qed simp


text \<open>\<open>function f() { return g(); }\<close>\<close>

definition example_call :: node where
  "example_call = Node 1 (Expression CallExpression) (OtherToken 0) [] 0 None
     [(''expression'', Node 2 Identifier (OtherToken 0) ''g'' 0 None [])]"

definition example_return :: node where
  "example_return = Node 3 (Statement ReturnStatement) (OtherToken 0) [] 0 None [(''expression'', example_call)]"

definition example_function :: node where
  "example_function = Node 4 (Statement FunctionDeclaration) (OtherToken 0) [] 0 None
     [(''body'', Node 5 (Statement Block) (OtherToken 0) [] 0 None [(''statements'', example_return)])]"

definition example_env :: ast_env where
  "example_env = \<lparr>ancestors = (\<lambda>n. if n = example_call then [example_return, field example_function ''body'', example_function] else []),
     isStrictCodeContext = (\<lambda>n. True)\<rparr>"


end
