(* ===== verification/Resumable_Expression.thy ===== *)
theory Resumable_Expression
  imports Definition_Evaluation Binding_Tree Tail_Position
begin

text \<open>
  The resumable expression planner (\<open>src/src/emit/resumable-expression.ts\<close>): one continuation
  worklist lowers an expression tree into a graph of value operations, branches and suspensions. A
  scheduled closure of the worklist is a task record; the planner's local variables are the fields of
  \<open>rplan\<close>, threaded by the state monad. The worklist is kept with its last element first.
\<close>

section \<open>The graph\<close>

datatype (plugins only: code size) resumable_reference =
    BindingRef node nat
  | PropertyRef node nat nat "nat option"

datatype (plugins only: code size) value_operation =
    BindingReferenceOp node
  | BindingReceiverOp resumable_reference
  | ClassStartOp node
  | ClassHeritageOp node nat nat
  | ClassElementOp node nat node "nat option"
  | ClassCompleteOp node nat
  | EvaluateOp node "(node \<times> nat) list"
  | SuperConstructorOp node
  | SuperThisOp node
  | SuperBaseOp node
  | CopyOp nat
  | UndefinedOp
  | PropertyKeyOp nat
  | GetOp resumable_reference
  | SetOp resumable_reference nat
  | DeleteOp resumable_reference
  | UpdateOp resumable_reference bool bool
  | CompoundOp token_kind nat nat
  | ArgumentsOp
  | TemplateObjectOp node
  | CallOp node nat "nat option" nat bool
  | ArrayOp
  | ObjectOp

datatype branch_mode = TruthyMode | NullishMode

datatype suspension_kind = AwaitSuspension | YieldSuspension | DelegateSuspension

datatype (plugins only: code size) resumable_state =
    RBinding (rid: nat) node node "(node \<times> node) list" nat nat (rnext: nat)
  | RValue (rid: nat) value_operation nat (rnext: nat)
  | RAppend (rid: nat) nat "nat option" bool bool (rnext: nat)
  | RDefine (rid: nat) nat nat nat (rnext: nat)
  | RDefineMember (rid: nat) nat nat node (rnext: nat)
  | RSpreadObject (rid: nat) nat nat (rnext: nat)
  | RPrototype (rid: nat) nat nat (rnext: nat)
  | RTemplateAppend (rid: nat) nat nat string (rnext: nat)
  | RBranch (rid: nat) nat branch_mode (ryes: nat) (rno: nat)
  | RSuspend (rid: nat) node "nat option" nat suspension_kind (rnext: nat)
  | RJump (rid: nat) (rnext: nat)
  | RComplete (rid: nat) nat

record resumable_graph =
  graph_entry :: nat
  graph_states :: "resumable_state list"
  graph_values :: "node list"
  graph_result :: nat
  graph_classDefinitions :: "(node \<times> nat) list"

section \<open>The planner state\<close>

record resumable_task =
  task_anchor :: nat
  task_source :: node
  task_output :: nat
  task_next :: nat
  task_chainExit :: "nat option"

record rplan =
  r_states :: "resumable_state option list"
  r_values :: "node list"
  r_classDefinitions :: "(node \<times> nat) list"
  r_worklist :: "resumable_task list"
  r_failure :: "node option"
  r_thrown :: bool
  r_fresh :: nat

type_synonym 'a planner = "(rplan, 'a) state"

definition r_reject :: "node \<Rightarrow> unit planner" where
  "r_reject n = State_Monad.update (\<lambda>s. s\<lparr>r_failure := (case r_failure s of None \<Rightarrow> Some n | f \<Rightarrow> f)\<rparr>)"

definition r_throw :: "unit planner" where
  "r_throw = State_Monad.update (\<lambda>s. s\<lparr>r_thrown := True\<rparr>)"

definition r_reserve :: "nat planner" where
  "r_reserve = do {
     s \<leftarrow> State_Monad.get;
     State_Monad.set (s\<lparr>r_states := r_states s @ [None]\<rparr>);
     State_Monad.return (length (r_states s)) }"

definition r_value :: "node \<Rightarrow> nat planner" where
  "r_value owner = do {
     s \<leftarrow> State_Monad.get;
     State_Monad.set (s\<lparr>r_values := r_values s @ [owner]\<rparr>);
     State_Monad.return (length (r_values s)) }"

definition r_put :: "resumable_state \<Rightarrow> nat planner" where
  "r_put st = do {
     State_Monad.update (\<lambda>s. s\<lparr>r_states := (r_states s)[rid st := Some st]\<rparr>);
     State_Monad.return (rid st) }"

text \<open>\<open>put({..., id: reserve(), ...})\<close>\<close>

definition r_new :: "(nat \<Rightarrow> resumable_state) \<Rightarrow> nat planner" where
  "r_new st = do { i \<leftarrow> r_reserve; r_put (st i) }"

definition r_operation :: "value_operation \<Rightarrow> nat \<Rightarrow> nat \<Rightarrow> nat planner" where
  "r_operation oper output next = r_new (\<lambda>i. RValue i oper output next)"

definition r_jump :: "nat \<Rightarrow> nat \<Rightarrow> unit planner" where
  "r_jump i next = do { r_put (RJump i next); State_Monad.return () }"

definition r_copy :: "nat \<Rightarrow> nat \<Rightarrow> nat \<Rightarrow> nat planner" where
  "r_copy source output next = r_operation (CopyOp source) output next"

text \<open>\<open>complete\<close> is the first reserved state.\<close>

abbreviation (input) complete_state :: nat where "complete_state \<equiv> 0"

text \<open>\<open>build\<close> reserves an anchor and schedules the expression.\<close>

definition r_build :: "node \<Rightarrow> nat \<Rightarrow> nat \<Rightarrow> nat option \<Rightarrow> nat planner" where
  "r_build source output next chainExit = do {
     anchor \<leftarrow> r_reserve;
     State_Monad.update (\<lambda>s. s\<lparr>r_worklist :=
       \<lparr>task_anchor = anchor, task_source = source, task_output = output, task_next = next, task_chainExit = chainExit\<rparr>
         # r_worklist s\<rparr>);
     State_Monad.return anchor }"

text \<open>A loop from the last element to the first that threads the entry and may leave the function.\<close>

fun r_backwards :: "('a \<Rightarrow> nat \<Rightarrow> nat option planner) \<Rightarrow> 'a list \<Rightarrow> nat \<Rightarrow> nat option planner" where
  "r_backwards f [] entry = State_Monad.return (Some entry)"
| "r_backwards f (x # xs) entry = do {
     r \<leftarrow> f x entry;
     (case r of None \<Rightarrow> State_Monad.return None | Some entry' \<Rightarrow> r_backwards f xs entry') }"

definition some_entry :: "nat planner \<Rightarrow> nat option planner" where
  "some_entry m = do { x \<leftarrow> m; State_Monad.return (Some x) }"

definition string_literal :: "string \<Rightarrow> node" where
  "string_literal t = synthesized 0 (Literal StringLiteral) t []"

text \<open>\<open>BigInt(text.slice(0, -1)).toString()\<close>: the text before the \<open>n\<close> has the radix of the source, with digits in
  either case.\<close>

definition bigint_digit :: "char \<Rightarrow> nat" where
  "bigint_digit c = (let u = of_char c :: nat in if 65 \<le> u \<and> u < 91 then u - 55 else char_digit c)"

definition bigint_value :: "string \<Rightarrow> nat" where
  "bigint_value t =
     (if take 2 t \<in> {''0x'', ''0X''} then digits_value 16 (map bigint_digit (drop 2 t))
      else if take 2 t \<in> {''0o'', ''0O''} then digits_value 8 (map bigint_digit (drop 2 t))
      else if take 2 t \<in> {''0b'', ''0B''} then digits_value 2 (map bigint_digit (drop 2 t))
      else digits_value 10 (map bigint_digit t))"

definition bigint_text :: "string \<Rightarrow> string" where
  "bigint_text t = decimal (bigint_value (butlast t))"

definition literalPropertyKey :: "node \<Rightarrow> string option" where
  "literalPropertyKey n =
     (if isIdentifier n \<or> isStringLiteralLike n \<or> node_kind n = Literal NumericLiteral then Some (node_text n)
      else if node_kind n = Literal BigIntLiteral then Some (bigint_text (node_text n))
      else None)"

section \<open>References, calls and literals\<close>

definition r_buildReference :: "node \<Rightarrow> (resumable_reference \<Rightarrow> nat planner) \<Rightarrow> nat option \<Rightarrow> nat planner" where
  "r_buildReference node consumer chainExit =
     (let current = transparent node in
      if isIdentifier current then do {
        slot \<leftarrow> r_value current;
        next \<leftarrow> consumer (BindingRef current slot);
        r_operation (BindingReferenceOp current) slot next }
      else if \<not> isAccess current then do { r_reject current; State_Monad.return complete_state }
      else if has_child current ''questionDotToken'' \<and> chainExit = None then do {
        r_reject current; State_Monad.return complete_state }
      else do {
        base \<leftarrow> r_value (field current ''expression'');
        key \<leftarrow> r_value current;
        receiver \<leftarrow> (if node_kind (field current ''expression'') = SuperKeyword
                     then do { r \<leftarrow> r_value (field current ''expression''); State_Monad.return (Some r) }
                     else State_Monad.return None);
        consumed \<leftarrow> consumer (PropertyRef current base key receiver);
        next \<leftarrow> (if receiver \<noteq> None then r_operation (SuperBaseOp current) base consumed
                 else State_Monad.return consumed);
        keyEntry \<leftarrow> (if is_expr PropertyAccessExpression current then
            r_operation (EvaluateOp (let name = field current ''name'' in
              if node_kind name = PrivateIdentifier then name else string_literal (node_text name)) []) key next
          else do {
            raw \<leftarrow> r_value (field current ''argumentExpression'');
            copied \<leftarrow> r_copy raw key next;
            r_build (field current ''argumentExpression'') raw copied None });
        keyEntry \<leftarrow> (case chainExit of
            Some exit \<Rightarrow> if has_child current ''questionDotToken''
                        then r_new (\<lambda>i. RBranch i base NullishMode exit keyEntry)
                        else State_Monad.return keyEntry
          | None \<Rightarrow> State_Monad.return keyEntry);
        (case receiver of
           Some r \<Rightarrow> r_operation (SuperThisOp current) r keyEntry
         | None \<Rightarrow> r_build (field current ''expression'') base keyEntry chainExit) })"

definition r_buildOrdered :: "(node \<times> nat) list \<Rightarrow> nat \<Rightarrow> nat option planner" where
  "r_buildOrdered cs next = r_backwards (\<lambda>(e, slot) entry. some_entry (r_build e slot entry None)) (rev cs) next"

definition spread_source :: "node \<Rightarrow> bool \<times> node" where
  "spread_source e = (if is_expr SpreadElement e then (True, field e ''expression'') else (False, e))"

definition r_appendArgument :: "nat \<Rightarrow> bool \<Rightarrow> node \<Rightarrow> nat \<Rightarrow> nat option planner" where
  "r_appendArgument target arguments e entry =
     (case spread_source e of (spread, source) \<Rightarrow> do {
        slot \<leftarrow> r_value source;
        append \<leftarrow> r_new (\<lambda>i. RAppend i target (Some slot) spread arguments entry);
        some_entry (r_build source slot append None) })"

definition call_arguments :: "node \<Rightarrow> node list" where
  "call_arguments n =
     (if is_expr TaggedTemplateExpression n then
        (if is_expr TemplateExpression (field n ''template'')
         then map (\<lambda>span. field span ''expression'') (children (field n ''template'') ''templateSpans'') else [])
      else children n ''arguments'')"

definition call_target :: "node \<Rightarrow> node" where
  "call_target n = (if is_expr TaggedTemplateExpression n then field n ''tag'' else field n ''expression'')"

definition r_callReceiver :: "node \<Rightarrow> nat option planner" where
  "r_callReceiver target =
     (if isAccess target then some_entry (r_value (field target ''expression''))
      else if isIdentifier target then some_entry (r_value target)
      else State_Monad.return None)"

definition r_taggedTemplate :: "node \<Rightarrow> nat \<Rightarrow> nat \<Rightarrow> nat planner" where
  "r_taggedTemplate n actuals entry =
     (if is_expr TaggedTemplateExpression n then do {
        template \<leftarrow> r_value (field n ''template'');
        append \<leftarrow> r_new (\<lambda>i. RAppend i actuals (Some template) False True entry);
        r_operation (TemplateObjectOp (field n ''template'')) template append }
      else State_Monad.return entry)"

text \<open>The callee of a call: super, import, an identifier, a property or any other expression.\<close>

definition r_buildCallee :: "node \<Rightarrow> nat \<Rightarrow> nat option \<Rightarrow> nat \<Rightarrow> nat \<Rightarrow> nat planner" where
  "r_buildCallee n callee receiver skip argumentsEntry =
     (let targetExpression = call_target n; target = transparent targetExpression in
      if is_expr CallExpression n \<and> node_kind target = SuperKeyword
      then r_operation (SuperConstructorOp n) callee argumentsEntry
      else if is_expr CallExpression n \<and> node_kind target = ImportKeyword
      then r_operation UndefinedOp callee argumentsEntry
      else if isIdentifier target then
        r_buildReference target (\<lambda>reference.
          case (reference, receiver) of
            (BindingRef _ _, Some r) \<Rightarrow> do {
              got \<leftarrow> r_operation (BindingReceiverOp reference) r argumentsEntry;
              r_operation (GetOp reference) callee got }
          | _ \<Rightarrow> do { r_throw; State_Monad.return complete_state }) None
      else if \<not> isAccess target
      then r_build targetExpression callee argumentsEntry (if isOptionalChain n then Some skip else None)
      else do {
        calleeExit \<leftarrow> (if isOptionalChain n \<and> node_kind targetExpression \<noteq> Wrapper ParenthesizedExpression
                       then State_Monad.return skip else r_operation UndefinedOp callee argumentsEntry);
        r_buildReference target (\<lambda>reference.
          case (reference, receiver) of
            (PropertyRef _ base _ refReceiver, Some r) \<Rightarrow> do {
              got \<leftarrow> r_operation (GetOp reference) callee argumentsEntry;
              r_copy (case refReceiver of Some v \<Rightarrow> v | None \<Rightarrow> base) r got }
          | _ \<Rightarrow> do { r_throw; State_Monad.return complete_state }) (Some calleeExit) })"

definition or_complete :: "nat option \<Rightarrow> nat" where
  "or_complete x = (case x of Some e \<Rightarrow> e | None \<Rightarrow> complete_state)"

definition r_buildCall :: "node \<Rightarrow> nat \<Rightarrow> nat \<Rightarrow> nat option \<Rightarrow> nat planner" where
  "r_buildCall n output next chainExit = do {
     callee \<leftarrow> r_value (transparent (call_target n));
     actuals \<leftarrow> r_value n;
     receiver \<leftarrow> r_callReceiver (transparent (call_target n));
     apply \<leftarrow> r_operation (CallOp n callee receiver actuals (is_expr NewExpression n)) output next;
     folded \<leftarrow> r_backwards (r_appendArgument actuals True) (rev (call_arguments n)) apply;
     tagged \<leftarrow> r_taggedTemplate n actuals (or_complete folded);
     argumentsEntry \<leftarrow> r_operation ArgumentsOp actuals tagged;
     skip \<leftarrow> (case chainExit of Some e \<Rightarrow> State_Monad.return e | None \<Rightarrow> r_operation UndefinedOp output next);
     argumentsEntry \<leftarrow> (if is_expr CallExpression n \<and> has_child n ''questionDotToken''
       then r_new (\<lambda>i. RBranch i callee NullishMode skip argumentsEntry)
       else State_Monad.return argumentsEntry);
     r_buildCallee n callee receiver skip argumentsEntry }"

text \<open>The property name of an object literal member, in front of the member's definition.\<close>

definition r_memberKey :: "node \<Rightarrow> nat \<Rightarrow> nat \<Rightarrow> nat option planner" where
  "r_memberKey name key entry =
     (if is_elem ComputedPropertyName name then do {
        raw \<leftarrow> r_value (field name ''expression'');
        normalize \<leftarrow> r_operation (PropertyKeyOp raw) key entry;
        some_entry (r_build (field name ''expression'') raw normalize None) }
      else
        (case literalPropertyKey name of
           Some t \<Rightarrow> some_entry (r_operation (EvaluateOp (string_literal t) []) key entry)
         | None \<Rightarrow> do { r_reject name; State_Monad.return None }))"

definition is_proto_setter :: "node \<Rightarrow> bool" where
  "is_proto_setter property \<longleftrightarrow> is_elem PropertyAssignment property \<and>
     (let name = field property ''name'' in
      \<not> is_elem ComputedPropertyName name \<and> (isIdentifier name \<or> isStringLiteralLike name) \<and> node_text name = ''__proto__'')"

definition r_objectMember :: "node \<Rightarrow> nat \<Rightarrow> node \<Rightarrow> nat \<Rightarrow> nat option planner" where
  "r_objectMember n output property entry =
     (if is_elem SpreadAssignment property then do {
        source \<leftarrow> r_value (field property ''expression'');
        spread \<leftarrow> r_new (\<lambda>i. RSpreadObject i output source entry);
        some_entry (r_build (field property ''expression'') source spread None) }
      else if is_elem MethodDeclaration property \<or> is_elem GetAccessor property \<or> is_elem SetAccessor property then do {
        key \<leftarrow> r_value n;
        define \<leftarrow> r_new (\<lambda>i. RDefineMember i output key property entry);
        r_memberKey (field property ''name'') key define }
      else if \<not> is_elem PropertyAssignment property \<and> \<not> is_elem ShorthandPropertyAssignment property then do {
        r_reject property; State_Monad.return None }
      else do {
        let sourceNode = (if is_elem PropertyAssignment property then field property ''initializer'' else field property ''name'');
        source \<leftarrow> r_value sourceNode;
        key \<leftarrow> r_value n;
        (if is_proto_setter property then do {
           setPrototype \<leftarrow> r_new (\<lambda>i. RPrototype i output source entry);
           some_entry (r_build sourceNode source setPrototype None) }
         else do {
           define \<leftarrow> r_new (\<lambda>i. RDefine i output key source entry);
           built \<leftarrow> r_build sourceNode source define None;
           r_memberKey (field property ''name'') key built }) })"

definition r_arrayElement :: "nat \<Rightarrow> node \<Rightarrow> nat \<Rightarrow> nat option planner" where
  "r_arrayElement output e entry =
     (if is_expr OmittedExpression e then some_entry (r_new (\<lambda>i. RAppend i output None False False entry))
      else r_appendArgument output False e entry)"

definition r_buildLiteral :: "node \<Rightarrow> nat \<Rightarrow> nat \<Rightarrow> nat planner" where
  "r_buildLiteral n output next =
     (if is_expr ArrayLiteralExpression n then do {
        entry \<leftarrow> r_backwards (r_arrayElement output) (rev (children n ''elements'')) next;
        r_operation ArrayOp output (or_complete entry) }
      else do {
        entry \<leftarrow> r_backwards (r_objectMember n output) (rev (children n ''properties'')) next;
        (case entry of
           Some e \<Rightarrow> r_operation ObjectOp output e
         | None \<Rightarrow> State_Monad.return complete_state) })"

section \<open>Scheduled expressions\<close>

text \<open>The stages of a class definition, from the last to the first.\<close>

definition r_classStage :: "node \<Rightarrow> nat \<Rightarrow> class_stage \<Rightarrow> nat \<Rightarrow> nat option planner" where
  "r_classStage definition output stage entry =
     (case stage of
        CompleteStage _ \<Rightarrow> some_entry (r_operation (ClassCompleteOp definition output) output entry)
      | ElementStage member (Some keyExpression) \<Rightarrow> do {
          key \<leftarrow> r_value keyExpression;
          defined \<leftarrow> r_operation (ClassElementOp definition output member (Some key)) output entry;
          raw \<leftarrow> r_value keyExpression;
          normalized \<leftarrow> r_operation (PropertyKeyOp raw) key defined;
          some_entry (r_build keyExpression raw normalized None) }
      | ElementStage member None \<Rightarrow>
          some_entry (r_operation (ClassElementOp definition output member None) output entry)
      | HeritageStage expression \<Rightarrow> do {
          superclass \<leftarrow> r_value expression;
          inherited \<leftarrow> r_operation (ClassHeritageOp definition output superclass) output entry;
          some_entry (r_build expression superclass inherited None) }
      | BeginStage _ \<Rightarrow> some_entry (r_operation (ClassStartOp definition) output entry))"

definition r_classExpression :: "resumable_task \<Rightarrow> node \<Rightarrow> unit planner" where
  "r_classExpression t n = do {
     let definition = sourceClassDefinition n;
     State_Monad.update (\<lambda>s. s\<lparr>r_classDefinitions := r_classDefinitions s @ [(definition, task_output t)]\<rparr>);
     entry \<leftarrow> r_backwards (r_classStage definition (task_output t)) (rev (classDefinitionPlan definition)) (task_next t);
     r_jump (task_anchor t) (or_complete entry) }"

definition r_suspension :: "bool \<Rightarrow> resumable_task \<Rightarrow> node \<Rightarrow> unit planner" where
  "r_suspension asyncGenerator t n = do {
     let operand = child n ''expression'';
     slot \<leftarrow> (case operand of Some e \<Rightarrow> some_entry (r_value e) | None \<Rightarrow> State_Monad.return None);
     let suspension = (if is_expr AwaitExpression n then AwaitSuspension
                       else if has_child n ''asteriskToken'' then DelegateSuspension else YieldSuspension);
     awaited \<leftarrow> (if asyncGenerator \<and> suspension = YieldSuspension then some_entry (r_value n) else State_Monad.return None);
     suspend \<leftarrow> r_new (\<lambda>i. RSuspend i n (case awaited of Some a \<Rightarrow> Some a | None \<Rightarrow> slot) (task_output t) suspension (task_next t));
     entry \<leftarrow> (case awaited of
         None \<Rightarrow> State_Monad.return suspend
       | Some a \<Rightarrow> r_new (\<lambda>i. RSuspend i n slot a AwaitSuspension suspend));
     entry \<leftarrow> (case (operand, slot) of
         (Some e, Some v) \<Rightarrow> r_build e v entry None
       | _ \<Rightarrow> State_Monad.return entry);
     r_jump (task_anchor t) entry }"

definition r_conditional :: "resumable_task \<Rightarrow> node \<Rightarrow> unit planner" where
  "r_conditional t n = do {
     condition \<leftarrow> r_value (field n ''condition'');
     yes \<leftarrow> r_build (field n ''whenTrue'') (task_output t) (task_next t) None;
     no \<leftarrow> r_build (field n ''whenFalse'') (task_output t) (task_next t) None;
     branch \<leftarrow> r_new (\<lambda>i. RBranch i condition TruthyMode yes no);
     entry \<leftarrow> r_build (field n ''condition'') condition branch None;
     r_jump (task_anchor t) entry }"

definition binary_operator :: "node \<Rightarrow> token_kind option" where
  "binary_operator n = (case node_kind (field n ''operatorToken'') of Token k \<Rightarrow> Some k | _ \<Rightarrow> None)"

definition r_comma :: "resumable_task \<Rightarrow> node \<Rightarrow> unit planner" where
  "r_comma t n = do {
     ignored \<leftarrow> r_value (field n ''left'');
     right \<leftarrow> r_build (field n ''right'') (task_output t) (task_next t) None;
     entry \<leftarrow> r_build (field n ''left'') ignored right None;
     r_jump (task_anchor t) entry }"

definition r_logical :: "token_kind \<Rightarrow> resumable_task \<Rightarrow> node \<Rightarrow> unit planner" where
  "r_logical operator t n = do {
     left \<leftarrow> r_value (field n ''left'');
     selected \<leftarrow> r_copy left (task_output t) (task_next t);
     right \<leftarrow> r_build (field n ''right'') (task_output t) (task_next t) None;
     branch \<leftarrow> r_new (\<lambda>i. RBranch i left
       (if operator = QuestionQuestionToken then NullishMode else TruthyMode)
       (if operator = BarBarToken then selected else right)
       (if operator = BarBarToken then right else selected));
     entry \<leftarrow> r_build (field n ''left'') left branch None;
     r_jump (task_anchor t) entry }"

definition r_destructure :: "resumable_task \<Rightarrow> node \<Rightarrow> node \<Rightarrow> unit planner" where
  "r_destructure t n target = do {
     s \<leftarrow> State_Monad.get;
     (case normalizeAssignmentTarget target ([], r_fresh s) of
        (None, (_, fresh)) \<Rightarrow> do {
          State_Monad.set (s\<lparr>r_fresh := fresh\<rparr>);
          r_reject (field n ''left'') }
      | (Some binding, (targets, fresh)) \<Rightarrow> do {
          State_Monad.set (s\<lparr>r_fresh := fresh\<rparr>);
          right \<leftarrow> r_value (field n ''right'');
          bind \<leftarrow> r_new (\<lambda>i. RBinding i n binding targets right (task_output t) (task_next t));
          entry \<leftarrow> r_build (field n ''right'') right bind None;
          r_jump (task_anchor t) entry }) }"

definition r_assign :: "resumable_task \<Rightarrow> node \<Rightarrow> unit planner" where
  "r_assign t n =
     (let target = transparent (field n ''left'') in
      if is_expr ArrayLiteralExpression target \<or> is_expr ObjectLiteralExpression target then r_destructure t n target
      else do {
        entry \<leftarrow> r_buildReference (field n ''left'') (\<lambda>reference. do {
          right \<leftarrow> r_value (field n ''right'');
          store \<leftarrow> r_operation (SetOp reference right) (task_output t) (task_next t);
          r_build (field n ''right'') right store None }) None;
        r_jump (task_anchor t) entry })"

definition is_assignment_token :: "token_kind \<Rightarrow> bool" where
  "is_assignment_token k = (case k of
     EqualsToken \<Rightarrow> True | AmpersandAmpersandEqualsToken \<Rightarrow> True | BarBarEqualsToken \<Rightarrow> True
   | QuestionQuestionEqualsToken \<Rightarrow> True | CompoundAssignmentToken _ \<Rightarrow> True | _ \<Rightarrow> False)"

definition is_logical_assignment :: "token_kind \<Rightarrow> bool" where
  "is_logical_assignment k \<longleftrightarrow>
     k \<in> {AmpersandAmpersandEqualsToken, BarBarEqualsToken, QuestionQuestionEqualsToken}"

definition r_compoundRight :: "token_kind \<Rightarrow> resumable_task \<Rightarrow> node \<Rightarrow> nat \<Rightarrow> nat \<Rightarrow> nat \<Rightarrow> nat \<Rightarrow> nat planner" where
  "r_compoundRight operator t n old right combined store =
     (if is_logical_assignment operator then do {
        selected \<leftarrow> r_copy old (task_output t) (task_next t);
        assigned \<leftarrow> r_build (field n ''right'') combined store None;
        r_new (\<lambda>i. RBranch i old (if operator = QuestionQuestionEqualsToken then NullishMode else TruthyMode)
          (if operator = BarBarEqualsToken then selected else assigned)
          (if operator = BarBarEqualsToken then assigned else selected)) }
      else do {
        combine \<leftarrow> r_operation (CompoundOp operator old right) combined store;
        r_build (field n ''right'') right combine None })"

definition r_compound :: "token_kind \<Rightarrow> resumable_task \<Rightarrow> node \<Rightarrow> unit planner" where
  "r_compound operator t n = do {
     entry \<leftarrow> r_buildReference (field n ''left'') (\<lambda>reference. do {
       old \<leftarrow> r_value (field n ''left'');
       right \<leftarrow> r_value (field n ''right'');
       combined \<leftarrow> r_value n;
       store \<leftarrow> r_operation (SetOp reference combined) (task_output t) (task_next t);
       rightEntry \<leftarrow> r_compoundRight operator t n old right combined store;
       r_operation (GetOp reference) old rightEntry }) None;
     r_jump (task_anchor t) entry }"

definition r_delete :: "resumable_task \<Rightarrow> node \<Rightarrow> unit planner" where
  "r_delete t n = do {
     skipped \<leftarrow> r_operation (EvaluateOp (synthesized 0 TrueKeyword [] []) []) (task_output t) (task_next t);
     let operand = transparent (field n ''expression'');
     (if \<not> (isIdentifier operand \<or> isAccess operand) then do {
        v \<leftarrow> r_value (field n ''expression'');
        entry \<leftarrow> r_build (field n ''expression'') v skipped None;
        r_jump (task_anchor t) entry }
      else do {
        entry \<leftarrow> r_buildReference (field n ''expression'')
          (\<lambda>reference. r_operation (DeleteOp reference) (task_output t) (task_next t)) (Some skipped);
        r_jump (task_anchor t) entry }) }"

definition r_templateSpan :: "nat \<Rightarrow> node \<Rightarrow> nat \<Rightarrow> nat option planner" where
  "r_templateSpan output span entry = do {
     source \<leftarrow> r_value (field span ''expression'');
     append \<leftarrow> r_new (\<lambda>i. RTemplateAppend i output source (node_text (field span ''literal'')) entry);
     some_entry (r_build (field span ''expression'') source append None) }"

definition r_template :: "resumable_task \<Rightarrow> node \<Rightarrow> unit planner" where
  "r_template t n = do {
     entry \<leftarrow> r_backwards (r_templateSpan (task_output t)) (rev (children n ''templateSpans'')) (task_next t);
     evaluated \<leftarrow> r_operation (EvaluateOp (string_literal (node_text (field n ''head''))) []) (task_output t) (or_complete entry);
     r_jump (task_anchor t) evaluated }"

definition evaluated_leaf :: "node \<Rightarrow> bool" where
  "evaluated_leaf n \<longleftrightarrow> isIdentifier n \<or> isLiteralExpression n \<or> node_kind n \<in>
     {Expression FunctionExpression, Expression ArrowFunction, Expression ClassExpression, ThisKeyword, TrueKeyword,
      FalseKeyword, NullKeyword, Expression MetaProperty}"

definition operand_children :: "node \<Rightarrow> node list option" where
  "operand_children n =
     (if is_expr BinaryExpression n then Some [field n ''left'', field n ''right'']
      else if is_expr PrefixUnaryExpression n then Some [field n ''operand'']
      else if is_expr VoidExpression n then Some [field n ''expression'']
      else if is_expr TypeOfExpression n then
        Some (if isIdentifier (transparent (field n ''expression'')) then [] else [field n ''expression''])
      else if evaluated_leaf n then Some []
      else None)"

fun r_inputs :: "node list \<Rightarrow> (node \<times> nat) list planner" where
  "r_inputs [] = State_Monad.return []"
| "r_inputs (e # es) = do { v \<leftarrow> r_value e; rest \<leftarrow> r_inputs es; State_Monad.return ((e, v) # rest) }"

definition r_ordinary :: "resumable_task \<Rightarrow> node \<Rightarrow> unit planner" where
  "r_ordinary t n =
     (case operand_children n of
        None \<Rightarrow> r_reject n
      | Some operands \<Rightarrow> do {
          inputs \<leftarrow> r_inputs operands;
          evaluate \<leftarrow> r_operation (EvaluateOp n inputs) (task_output t) (task_next t);
          entry \<leftarrow> r_buildOrdered inputs evaluate;
          r_jump (task_anchor t) (or_complete entry) })"

definition is_update :: "node \<Rightarrow> bool" where
  "is_update n \<longleftrightarrow>
     (is_expr PrefixUnaryExpression n \<and> node_operator n \<in> {PlusPlusToken, MinusMinusToken}) \<or> is_expr PostfixUnaryExpression n"

text \<open>The dispatch on the node after the suspensions, conditionals and assignments.\<close>

definition r_other :: "resumable_task \<Rightarrow> node \<Rightarrow> nat option \<Rightarrow> unit planner" where
  "r_other t n optionalExit =
     (if is_expr CallExpression n \<or> is_expr NewExpression n \<or> is_expr TaggedTemplateExpression n then do {
        entry \<leftarrow> r_buildCall n (task_output t) (task_next t) optionalExit;
        r_jump (task_anchor t) entry }
      else if is_expr ArrayLiteralExpression n \<or> is_expr ObjectLiteralExpression n then do {
        entry \<leftarrow> r_buildLiteral n (task_output t) (task_next t);
        r_jump (task_anchor t) entry }
      else if isAccess n then do {
        entry \<leftarrow> r_buildReference n (\<lambda>reference. r_operation (GetOp reference) (task_output t) (task_next t)) optionalExit;
        r_jump (task_anchor t) entry }
      else if is_expr DeleteExpression n then r_delete t n
      else if is_update n then do {
        entry \<leftarrow> r_buildReference (field n ''operand'') (\<lambda>reference.
          r_operation (UpdateOp reference (node_operator n = PlusPlusToken) (is_expr PrefixUnaryExpression n))
            (task_output t) (task_next t)) None;
        r_jump (task_anchor t) entry }
      else if is_expr TemplateExpression n then r_template t n
      else r_ordinary t n)"

definition r_binary :: "resumable_task \<Rightarrow> node \<Rightarrow> nat option \<Rightarrow> unit planner" where
  "r_binary t n optionalExit =
     (case (if is_expr BinaryExpression n then binary_operator n else None) of
        Some operator \<Rightarrow>
          if operator = CommaToken then r_comma t n
          else if operator \<in> {AmpersandAmpersandToken, BarBarToken, QuestionQuestionToken} then r_logical operator t n
          else if operator = EqualsToken then r_assign t n
          else if is_assignment_token operator then r_compound operator t n
          else r_other t n optionalExit
      | None \<Rightarrow> r_other t n optionalExit)"

definition r_task :: "bool \<Rightarrow> (node \<Rightarrow> bool) \<Rightarrow> resumable_task \<Rightarrow> unit planner" where
  "r_task asyncGenerator decomposed t =
     (let n = transparent (task_source t) in
      if is_expr ClassExpression n \<and> (decomposed (task_source t) \<or> is_stmt ClassDeclaration (getOriginalNode n))
      then r_classExpression t n
      else if \<not> decomposed (task_source t) then do {
        entry \<leftarrow> r_operation (EvaluateOp (task_source t) []) (task_output t) (task_next t);
        r_jump (task_anchor t) entry }
      else do {
        optionalExit \<leftarrow> (if isOptionalChain n then
            (case (if node_kind (task_source t) \<noteq> Wrapper ParenthesizedExpression then task_chainExit t else None) of
               Some exit \<Rightarrow> State_Monad.return (Some exit)
             | None \<Rightarrow> some_entry (r_operation UndefinedOp (task_output t) (task_next t)))
          else State_Monad.return None);
        (if is_expr AwaitExpression n \<or> is_expr YieldExpression n then r_suspension asyncGenerator t n
         else if is_expr ConditionalExpression n then r_conditional t n
         else r_binary t n optionalExit) })"

section \<open>Marking and the worklist\<close>

definition self_mark :: "ast_env \<Rightarrow> node \<Rightarrow> bool" where
  "self_mark env n \<longleftrightarrow>
     is_expr AwaitExpression n \<or> is_expr YieldExpression n \<or> has_flag n flag_OptionalChain \<or> isTailPositionCall env n \<or>
     (is_expr CallExpression n \<and> transparent (field n ''expression'') \<noteq> field n ''expression'')"

text \<open>
  The marking loop: an item is pushed back as expanded below its children and marked when it is
  popped again. The map is an association list with the latest entry first.
\<close>

function mark_loop :: "ast_env \<Rightarrow> (node \<times> bool) list \<Rightarrow> (node \<times> bool) list \<Rightarrow> (node \<times> bool) list" where
  "mark_loop env [] marks = marks"
| "mark_loop env ((n, False) # work) marks =
     mark_loop env (rev (map (\<lambda>c. (c, False)) (definitionEvaluationChildren n)) @ (n, True) # work) marks"
| "mark_loop env ((n, True) # work) marks =
     mark_loop env work
       ((n, self_mark env n \<or> (\<exists>c\<in>set (definitionEvaluationChildren n). map_of marks c = Some True)) # marks)"
  by pat_completeness auto
termination
proof (relation "measure (\<lambda>(env, w, m). sum_list (map (\<lambda>(n, e). if e then 1 else 2 * size n) w))", goal_cases)
  case (2 env n work marks)
  have "sum_list (map (\<lambda>(n, e). if e then 1 else 2 * size n) (rev (map (\<lambda>c. (c, False)) cs))) = 2 * sum_list (map size cs)"
    for cs :: "node list"
    by (induction cs) auto
  then show ?case using definitionEvaluationChildren_sum [of n] by simp
qed auto

definition decomposed_map :: "ast_env \<Rightarrow> node \<Rightarrow> (node \<times> bool) list" where
  "decomposed_map env expression = mark_loop env [(expression, False)] []"

definition is_decomposed :: "(node \<times> bool) list \<Rightarrow> node \<Rightarrow> bool" where
  "is_decomposed marks n \<longleftrightarrow> map_of marks n = Some True"

fun r_run :: "nat \<Rightarrow> bool \<Rightarrow> (node \<Rightarrow> bool) \<Rightarrow> rplan \<Rightarrow> rplan" where
  "r_run 0 asyncGenerator decomposed s = s"
| "r_run (Suc fuel) asyncGenerator decomposed s =
     (case r_worklist s of
        [] \<Rightarrow> s
      | t # rest \<Rightarrow>
          if r_failure s \<noteq> None \<or> r_thrown s then s
          else r_run fuel asyncGenerator decomposed
                 (snd (run_state (r_task asyncGenerator decomposed t) (s\<lparr>r_worklist := rest\<rparr>))))"

section \<open>Compaction\<close>

definition is_jump :: "resumable_state \<Rightarrow> bool" where
  "is_jump st = (case st of RJump _ _ \<Rightarrow> True | _ \<Rightarrow> False)"

text \<open>
  \<open>resolve\<close> walks over the jumps until a resolved or a retained state and records the target for the
  whole path; the fuel is the number of states.
\<close>

fun resolve_walk :: "nat \<Rightarrow> resumable_state list \<Rightarrow> (nat \<times> nat) list \<Rightarrow> nat \<Rightarrow> nat list \<Rightarrow> nat \<times> nat list" where
  "resolve_walk 0 states resolved current path = (current, path)"
| "resolve_walk (Suc fuel) states resolved current path =
     (if map_of resolved current = None \<and> current < length states \<and> is_jump (states ! current)
      then resolve_walk fuel states resolved (rnext (states ! current)) (path @ [current])
      else (current, path))"

definition r_resolve :: "resumable_state list \<Rightarrow> (nat \<times> nat) list \<Rightarrow> nat \<Rightarrow> nat \<times> (nat \<times> nat) list" where
  "r_resolve states resolved i =
     (case resolve_walk (length states) states resolved i [] of
        (current, path) \<Rightarrow>
          (let target = (case map_of resolved current of Some t \<Rightarrow> t | None \<Rightarrow> current)
           in (target, map (\<lambda>a. (a, target)) path @ resolved)))"

definition retained_ids :: "resumable_state list \<Rightarrow> (nat \<times> nat) list" where
  "retained_ids states = map (\<lambda>(id, st). (rid st, id)) (enumerate 0 (filter (\<lambda>st. \<not> is_jump st) states))"

text \<open>\<open>ids.get(resolve(id))!\<close>; the number of retained states stands for \<open>undefined\<close>.\<close>

definition r_target :: "resumable_state list \<Rightarrow> (nat \<times> nat) list \<Rightarrow> nat \<Rightarrow> nat \<times> (nat \<times> nat) list" where
  "r_target states resolved i =
     (case r_resolve states resolved i of
        (t, resolved') \<Rightarrow>
          ((case map_of (retained_ids states) t of Some j \<Rightarrow> j | None \<Rightarrow> length (retained_ids states)), resolved'))"

definition with_id :: "nat \<Rightarrow> resumable_state \<Rightarrow> resumable_state" where
  "with_id i st = (case st of
     RBinding _ a b c d e n \<Rightarrow> RBinding i a b c d e n
   | RValue _ a b n \<Rightarrow> RValue i a b n
   | RAppend _ a b c d n \<Rightarrow> RAppend i a b c d n
   | RDefine _ a b c n \<Rightarrow> RDefine i a b c n
   | RDefineMember _ a b c n \<Rightarrow> RDefineMember i a b c n
   | RSpreadObject _ a b n \<Rightarrow> RSpreadObject i a b n
   | RPrototype _ a b n \<Rightarrow> RPrototype i a b n
   | RTemplateAppend _ a b c n \<Rightarrow> RTemplateAppend i a b c n
   | RBranch _ a b y n \<Rightarrow> RBranch i a b y n
   | RSuspend _ a b c d n \<Rightarrow> RSuspend i a b c d n
   | RJump _ n \<Rightarrow> RJump i n
   | RComplete _ v \<Rightarrow> RComplete i v)"

definition with_next :: "nat \<Rightarrow> resumable_state \<Rightarrow> resumable_state" where
  "with_next n st = (case st of
     RBinding i a b c d e _ \<Rightarrow> RBinding i a b c d e n
   | RValue i a b _ \<Rightarrow> RValue i a b n
   | RAppend i a b c d _ \<Rightarrow> RAppend i a b c d n
   | RDefine i a b c _ \<Rightarrow> RDefine i a b c n
   | RDefineMember i a b c _ \<Rightarrow> RDefineMember i a b c n
   | RSpreadObject i a b _ \<Rightarrow> RSpreadObject i a b n
   | RPrototype i a b _ \<Rightarrow> RPrototype i a b n
   | RTemplateAppend i a b c _ \<Rightarrow> RTemplateAppend i a b c n
   | RSuspend i a b c d _ \<Rightarrow> RSuspend i a b c d n
   | RJump i _ \<Rightarrow> RJump i n
   | _ \<Rightarrow> st)"

definition compact_state ::
  "resumable_state list \<Rightarrow> (nat \<times> nat) list \<Rightarrow> nat \<Rightarrow> resumable_state \<Rightarrow> resumable_state \<times> (nat \<times> nat) list" where
  "compact_state states resolved index st =
     (case st of
        RComplete _ v \<Rightarrow> (RComplete index v, resolved)
      | RBranch _ source mode yes no \<Rightarrow>
          (case r_target states resolved yes of (yes', resolved') \<Rightarrow>
             case r_target states resolved' no of (no', resolved'') \<Rightarrow>
               (RBranch index source mode yes' no', resolved''))
      | _ \<Rightarrow>
          (case r_target states resolved (rnext st) of (next', resolved') \<Rightarrow>
             (with_next next' (with_id index st), resolved')))"

fun compact_states ::
  "resumable_state list \<Rightarrow> (nat \<times> nat) list \<Rightarrow> (nat \<times> resumable_state) list \<Rightarrow> resumable_state list \<times> (nat \<times> nat) list" where
  "compact_states states resolved [] = ([], resolved)"
| "compact_states states resolved ((index, st) # rest) =
     (case compact_state states resolved index st of (st', resolved') \<Rightarrow>
        case compact_states states resolved' rest of (sts, resolved'') \<Rightarrow> (st' # sts, resolved''))"

section \<open>The planner\<close>

text \<open>
  The fuel of the worklist loop: a bound on the number of tasks an expression schedules. The name of
  a shorthand property may be scheduled twice, and the stages of a class made from a declaration come
  from the declaration.
\<close>

function task_cost :: "node \<Rightarrow> nat" where
  "task_cost n =
     (if n = missing_node then 1
      else 4 + (if is_elem ShorthandPropertyAssignment n then 2 else 1) * sum_list (map task_cost (forEachChild n)) +
           (case node_original n of None \<Rightarrow> 0 | Some m \<Rightarrow> task_cost m))"
  by pat_completeness auto
termination
  by (relation "measure size") (auto simp: forEachChild_size original_size)

declare task_cost.simps [simp del]

datatype resumable_plan = PlanGraph resumable_graph | PlanUnsupported node | PlanThrows | PlanOutOfFuel

definition r_initial :: "nat \<Rightarrow> rplan" where
  "r_initial fresh = \<lparr>r_states = [], r_values = [], r_classDefinitions = [], r_worklist = [], r_failure = None,
     r_thrown = False, r_fresh = fresh\<rparr>"

definition r_start :: "node \<Rightarrow> nat planner" where
  "r_start expression = do {
     result \<leftarrow> r_value expression;
     complete \<leftarrow> r_new (\<lambda>i. RComplete i result);
     r_build expression result complete None }"

definition r_publish :: "rplan \<Rightarrow> nat \<Rightarrow> resumable_graph" where
  "r_publish s entry =
     (let states = map the (r_states s);
          retained = filter (\<lambda>st. \<not> is_jump st) states
      in case compact_states states [] (enumerate 0 retained) of (compact, resolved) \<Rightarrow>
         \<lparr>graph_entry = fst (r_target states resolved entry), graph_states = compact, graph_values = r_values s,
          graph_result = 0, graph_classDefinitions = r_classDefinitions s\<rparr>)"

text \<open>
  The second component of the result is the identity supply after the call.
\<close>

definition planResumableExpression :: "ast_env \<Rightarrow> bool \<Rightarrow> node \<Rightarrow> nat \<Rightarrow> resumable_plan \<times> nat" where
  "planResumableExpression env asyncGenerator expression fresh =
     (case run_state (r_start expression) (r_initial fresh) of (entry, s0) \<Rightarrow>
        let s = r_run (task_cost expression) asyncGenerator (is_decomposed (decomposed_map env expression)) s0 in
        (if r_thrown s then PlanThrows
         else case r_failure s of
             Some n \<Rightarrow> PlanUnsupported n
           | None \<Rightarrow>
               if r_worklist s \<noteq> [] then PlanOutOfFuel
               else if None \<in> set (r_states s) then PlanThrows
               else PlanGraph (r_publish s entry),
         r_fresh s))"

end
