(* ===== verification/Resumable_Fuel.thy ===== *)
theory Resumable_Fuel
  imports Resumable_Expression
begin

text \<open>
  The worklist of the resumable expression planner drains: every task schedules sub-expressions whose
  total cost is smaller than its own. \<open>adds k m\<close> bounds what a planner action adds to the worklist, and
  its rules follow the structure of the planner.
\<close>

section \<open>Costs\<close>

lemma task_cost_missing [simp]: "task_cost missing_node = 1"
  by (simp add: task_cost.simps)

lemma task_cost_pos [simp]: "0 < task_cost n"
  by (simp add: task_cost.simps [of n])

abbreviation costs :: "node list \<Rightarrow> nat" where
  "costs ns \<equiv> sum_list (map task_cost ns)"

lemma costs_children: "n \<noteq> missing_node \<Longrightarrow> costs (forEachChild n) + 4 \<le> task_cost n"
  by (simp add: task_cost.simps [of n])

lemma costs_filter: "costs (map snd (filter P cs)) \<le> costs (map snd cs)"
  by (induction cs) auto

lemma costs_children_of: "n \<noteq> missing_node \<Longrightarrow> costs (children n f) + 4 \<le> task_cost n"
  using costs_children [of n] costs_filter [of "\<lambda>c. fst c = f" "node_children n"]
  by (simp add: children_def forEachChild_def)

lemma children_missing [simp]: "children missing_node f = []"
  by (simp add: children_def missing_node_def)

lemma field_missing [simp]: "field missing_node f = missing_node"
  by (simp add: field_def child_def missing_node_def)

lemma task_cost_child:
  "(f, c) \<in> set (node_children n) \<Longrightarrow> task_cost c \<le> costs (forEachChild n)"
  unfolding forEachChild_def by (rule member_le_sum_list) (force simp: image_iff, simp)

lemma task_cost_field: "task_cost (field n f) \<le> task_cost n"
proof (cases "child n f")
  case None
  then show ?thesis using task_cost_pos [of n] by (simp add: field_def Suc_leI)
next
  case (Some c)
  have "n \<noteq> missing_node" using Some by (auto simp: child_def missing_node_def)
  then show ?thesis
    using task_cost_child [OF child_in [OF Some]] costs_children [of n] Some by (simp add: field_def)
qed

lemma task_cost_field_strict: "n \<noteq> missing_node \<Longrightarrow> task_cost (field n f) + 3 \<le> task_cost n"
  using task_cost_child [OF child_in] costs_children [of n] by (fastforce simp: field_def split: option.split)

text \<open>Distinct fields of a node: a present field is a child of its own, a missing one costs 1.\<close>

lemma costs_two_fields:
  assumes "f \<noteq> g"
  shows "task_cost (field n f) + task_cost (field n g) \<le> costs (forEachChild n) + 2"
proof -
  have "(case map_of cs f of Some c \<Rightarrow> task_cost c | None \<Rightarrow> 1) + (case map_of cs g of Some c \<Rightarrow> task_cost c | None \<Rightarrow> 1)
      \<le> costs (map snd cs) + 2" for cs
    using assms by (induction cs) (auto split: option.splits)
  from this [of "node_children n"] show ?thesis
    by (simp add: field_def child_def forEachChild_def split: option.splits)
qed

lemma costs_three_fields:
  assumes "f \<noteq> g" "f \<noteq> h" "g \<noteq> h"
  shows "task_cost (field n f) + task_cost (field n g) + task_cost (field n h) \<le> costs (forEachChild n) + 3"
proof -
  have "(case map_of cs f of Some c \<Rightarrow> task_cost c | None \<Rightarrow> 1) + (case map_of cs g of Some c \<Rightarrow> task_cost c | None \<Rightarrow> 1) +
      (case map_of cs h of Some c \<Rightarrow> task_cost c | None \<Rightarrow> 1) \<le> costs (map snd cs) + 3" for cs
    using assms by (induction cs) (auto split: option.splits)
  from this [of "node_children n"] show ?thesis
    by (simp add: field_def child_def forEachChild_def split: option.splits)
qed

lemma costs_field_children:
  assumes "f \<noteq> g"
  shows "task_cost (field n f) + costs (children n g) \<le> costs (forEachChild n) + 1"
proof -
  have "(case map_of cs f of Some c \<Rightarrow> task_cost c | None \<Rightarrow> 1) + costs (map snd (filter (\<lambda>c. fst c = g) cs))
      \<le> costs (map snd cs) + 1" for cs
    using assms by (induction cs) (auto split: option.splits)
  from this [of "node_children n"] show ?thesis
    by (simp add: field_def child_def children_def forEachChild_def split: option.splits)
qed

lemma costs_children2:
  assumes "f \<noteq> g"
  shows "costs (children n f) + costs (children n g) \<le> costs (forEachChild n)"
proof -
  have "costs (map snd (filter (\<lambda>c. fst c = f) cs)) + costs (map snd (filter (\<lambda>c. fst c = g) cs)) \<le> costs (map snd cs)" for cs
    using assms by (induction cs) auto
  from this [of "node_children n"] show ?thesis by (simp add: children_def forEachChild_def)
qed

lemma task_cost_transparent: "task_cost (transparent n) \<le> task_cost n"
proof (induction "\<lambda>_ :: node. False" n rule: unwrapTransparentExpression.induct)
  case (1 n)
  show ?case
  proof (cases "child n ''expression''")
    case (Some e)
    then have "task_cost e \<le> task_cost n" using task_cost_field [of n "''expression''"] by (simp add: field_def)
    then show ?thesis using 1 Some by (auto simp: unwrapTransparentExpression.simps [of _ n])
  qed (auto simp: unwrapTransparentExpression.simps [of _ n] Suc_leI)
qed

lemma task_cost_original: "task_cost (getOriginalNode n) \<le> task_cost n"
proof (induction n rule: getOriginalNode.induct)
  case (1 n)
  show ?case
  proof (cases "node_original n")
    case (Some m)
    then have "task_cost m \<le> task_cost n" by (auto simp: task_cost.simps [of n] missing_node_def)
    then show ?thesis using 1 [OF Some] Some by (simp add: getOriginalNode.simps [of n])
  qed (simp add: getOriginalNode.simps [of n])
qed

lemma kind_not_missing:
  "is_expr k n \<Longrightarrow> n \<noteq> missing_node" "is_elem l n \<Longrightarrow> n \<noteq> missing_node" "is_stmt j n \<Longrightarrow> n \<noteq> missing_node"
  "isAccess n \<Longrightarrow> n \<noteq> missing_node"
  by (auto simp: is_expr_def is_elem_def is_stmt_def isAccess_def missing_node_def)

lemma costs_bound: "(\<And>x. x \<in> set xs \<Longrightarrow> g x \<le> (f x :: nat)) \<Longrightarrow> sum_list (map g xs) \<le> sum_list (map f xs)"
  by (rule sum_list_bound)

lemma task_cost_computed_key: "computed_key m = Some e \<Longrightarrow> task_cost e \<le> task_cost m"
proof -
  assume "computed_key m = Some e"
  then obtain name where "child m ''name'' = Some name" "e = field name ''expression''"
    by (auto simp: computed_key_def split: option.splits if_splits)
  then show ?thesis
    using task_cost_field [of name "''expression''"] task_cost_field [of m "''name''"] by (simp add: field_def)
qed

definition stage_cost :: "class_stage \<Rightarrow> nat" where
  "stage_cost st = (case st of HeritageStage e \<Rightarrow> task_cost e | ElementStage m (Some k) \<Rightarrow> task_cost k | _ \<Rightarrow> 0)"

lemma stage_costs: "sum_list (map stage_cost stages) = costs (concat (map stage_expressions stages))"
  by (induction stages) (auto simp: stage_cost_def stage_expressions_def split: class_stage.split option.split)

lemma class_plan_cost: "isClassLike d \<Longrightarrow> sum_list (map stage_cost (classDefinitionPlan d)) + 4 \<le> task_cost d"
proof -
  assume "isClassLike d"
  then have d: "d \<noteq> missing_node" by (auto simp: isClassLike_def missing_node_def)
  let ?heritage = "\<lambda>clause. if node_operator clause \<noteq> ExtendsKeyword then []
    else map (\<lambda>h. field h ''expression'') (children clause ''types'')"
  have "costs (?heritage c) \<le> task_cost c" for c
  proof -
    have "sum_list (map (\<lambda>h. task_cost (field h ''expression'')) (children c ''types'')) \<le> costs (children c ''types'')"
      by (rule sum_list_bound) (rule task_cost_field)
    then show ?thesis
      using costs_children_of [of c "''types''"] by (cases "c = missing_node") (simp_all add: comp_def)
  qed
  then have heritage: "costs (concat (map ?heritage cs)) \<le> costs cs" for cs
    by (intro sum_list_concat_bound)
  have members: "costs (List.map_filter computed_key (filter P ms)) \<le> costs ms" for P ms
    by (induction ms) (auto simp: List.map_filter_simps dest!: task_cost_computed_key split: option.split)
  have "sum_list (map stage_cost (classDefinitionPlan d)) = costs (classDefinitionEvaluationExpressions d)"
    by (simp add: stage_costs classDefinitionEvaluationExpressions_def)
  also have "\<dots> \<le> costs (children d ''heritageClauses'') + costs (children d ''members'')"
    using heritage [of "children d ''heritageClauses''"]
      members [of "\<lambda>m. \<not> (isClassConstructor m \<or> is_elem SemicolonClassElement m)" "children d ''members''"]
    unfolding classDefinitionEvaluationExpressions_eq by simp
  also have "\<dots> \<le> costs (forEachChild d)" by (rule costs_children2) simp
  finally show ?thesis using costs_children [OF d] by simp
qed

section \<open>What an action adds to the worklist\<close>

definition pending_cost :: "rplan \<Rightarrow> nat" where
  "pending_cost s = sum_list (map (\<lambda>t. task_cost (task_source t)) (r_worklist s))"

definition adds :: "nat \<Rightarrow> 'a planner \<Rightarrow> bool" where
  "adds k m \<longleftrightarrow> (\<forall>s. pending_cost (snd (run_state m s)) \<le> pending_cost s + k)"

named_theorems adds_rules

lemma adds_mono: "adds k m \<Longrightarrow> k \<le> l \<Longrightarrow> adds l m"
  unfolding adds_def by (meson add_le_mono le_refl order_trans)

lemma adds_return [adds_rules]: "adds k (State_Monad.return x)"
  by (simp add: adds_def)

lemma adds_bind:
  assumes "adds a m" "\<And>x. adds b (f x)"
  shows "adds (a + b) (State_Monad.bind m f)"
proof -
  have "pending_cost (snd (run_state (State_Monad.bind m f) s)) \<le> pending_cost s + (a + b)" for s
  proof -
    obtain x s' where m: "run_state m s = (x, s')" by fastforce
    then have "pending_cost s' \<le> pending_cost s + a" using assms(1) by (metis adds_def snd_conv)
    moreover have "pending_cost (snd (run_state (f x) s')) \<le> pending_cost s' + b"
      using assms(2) by (simp add: adds_def)
    ultimately show ?thesis using m by simp
  qed
  then show ?thesis by (simp add: adds_def)
qed

lemma adds_update: "(\<And>s. r_worklist (g s) = r_worklist s) \<Longrightarrow> adds k (State_Monad.update g)"
  by (simp add: adds_def State_Monad.update_def pending_cost_def)

lemma adds_primitives [adds_rules]:
  "adds k (r_reject n)" "adds k r_throw" "adds k (r_value v)" "adds k (r_new st)" "adds k (r_operation oper output next)"
  "adds k (r_copy a b c)" "adds k (r_jump i j)"
  by (simp_all add: adds_def r_reject_def r_throw_def r_value_def r_new_def r_reserve_def r_put_def r_operation_def
      r_copy_def r_jump_def State_Monad.update_def pending_cost_def)

lemma adds_bind0: "adds 0 m \<Longrightarrow> (\<And>x. adds k (f x)) \<Longrightarrow> adds k (State_Monad.bind m f)"
  using adds_bind [of 0 m k f] by simp

lemma adds_bind_primitives [adds_rules]:
  "(\<And>x. adds k (f x)) \<Longrightarrow> adds k (State_Monad.bind (r_reject n) f)"
  "(\<And>x. adds k (f x)) \<Longrightarrow> adds k (State_Monad.bind r_throw f)"
  "(\<And>x. adds k (g x)) \<Longrightarrow> adds k (State_Monad.bind (r_value v) g)"
  "(\<And>x. adds k (g x)) \<Longrightarrow> adds k (State_Monad.bind (r_new st) g)"
  "(\<And>x. adds k (g x)) \<Longrightarrow> adds k (State_Monad.bind (r_operation oper output next) g)"
  "(\<And>x. adds k (g x)) \<Longrightarrow> adds k (State_Monad.bind (r_copy a b c) g)"
  by (rule adds_bind0 [OF adds_primitives(1)] adds_bind0 [OF adds_primitives(2)] adds_bind0 [OF adds_primitives(3)]
      adds_bind0 [OF adds_primitives(4)] adds_bind0 [OF adds_primitives(5)] adds_bind0 [OF adds_primitives(6)]; simp)+

lemma adds_build: "adds (task_cost e) (r_build e v next exit)"
  by (simp add: adds_def r_build_def r_reserve_def State_Monad.update_def pending_cost_def)

lemma adds_build_le [adds_rules]: "task_cost e \<le> k \<Longrightarrow> adds k (r_build e v next exit)"
  by (rule adds_mono [OF adds_build])

lemma adds_bind_le: "adds a m \<Longrightarrow> (\<And>x. adds (k - a) (f x)) \<Longrightarrow> a \<le> k \<Longrightarrow> adds k (State_Monad.bind m f)"
  using adds_bind [of a m "k - a" f] by simp

lemma adds_bind_build [adds_rules]:
  "(\<And>x. adds (k - task_cost e) (f x)) \<Longrightarrow> task_cost e \<le> k \<Longrightarrow> adds k (State_Monad.bind (r_build e v next exit) f)"
  by (rule adds_bind_le [OF adds_build])

lemma adds_if [adds_rules]: "(b \<Longrightarrow> adds k m) \<Longrightarrow> (\<not> b \<Longrightarrow> adds k m') \<Longrightarrow> adds k (if b then m else m')"
  by simp

lemma adds_bind_if [adds_rules]:
  "(b \<Longrightarrow> adds k (State_Monad.bind m f)) \<Longrightarrow> (\<not> b \<Longrightarrow> adds k (State_Monad.bind m' f)) \<Longrightarrow>
   adds k (State_Monad.bind (if b then m else m') f)"
  by simp

lemma adds_case_option [adds_rules]:
  "(x = None \<Longrightarrow> adds k m) \<Longrightarrow> (\<And>y. x = Some y \<Longrightarrow> adds k (f y)) \<Longrightarrow> adds k (case x of None \<Rightarrow> m | Some y \<Rightarrow> f y)"
  by (cases x) simp_all

lemma adds_bind_case_option [adds_rules]:
  "(x = None \<Longrightarrow> adds k (State_Monad.bind m g)) \<Longrightarrow> (\<And>y. x = Some y \<Longrightarrow> adds k (State_Monad.bind (f y) g)) \<Longrightarrow>
   adds k (State_Monad.bind (case x of None \<Rightarrow> m | Some y \<Rightarrow> f y) g)"
  by (cases x) simp_all

lemma adds_bind_bind [adds_rules]:
  "adds k (State_Monad.bind m (\<lambda>x. State_Monad.bind (g x) f)) \<Longrightarrow> adds k (State_Monad.bind (State_Monad.bind m g) f)"
  "adds k (f x) \<Longrightarrow> adds k (State_Monad.bind (State_Monad.return x) f)"
  by simp_all

lemmas flatten = some_entry_def State_Monad.bind_assoc State_Monad.bind_left_identity Let_def

lemma adds_backwards:
  "(\<And>x e. x \<in> set xs \<Longrightarrow> adds (c x) (f x e)) \<Longrightarrow> adds (sum_list (map c xs)) (r_backwards f xs entry)"
proof (induction xs arbitrary: entry)
  case (Cons x xs)
  show ?case
    unfolding r_backwards.simps list.map sum_list.Cons
    using Cons by (intro adds_bind adds_case_option adds_return) auto
qed (simp add: adds_rules)

lemma adds_backwards_rev:
  "(\<And>x e. x \<in> set xs \<Longrightarrow> adds (c x) (f x e)) \<Longrightarrow> adds (sum_list (map c xs)) (r_backwards f (rev xs) entry)"
  using adds_backwards [of "rev xs" c f entry] by (simp add: rev_map [symmetric])

lemma adds_buildReference:
  assumes "\<And>ref. adds k (consumer ref)"
  shows "adds (k + (task_cost n - 1)) (r_buildReference n consumer exit)"
proof -
  define c where "c = transparent n"
  have c: "task_cost c \<le> task_cost n" by (simp add: c_def task_cost_transparent)
  have two: "task_cost (field c ''expression'') + task_cost (field c ''argumentExpression'') < task_cost c"
    and one: "task_cost (field c ''expression'') < task_cost c" if "isAccess c"
    using costs_two_fields [of "''expression''" "''argumentExpression''" c] costs_children [of c] that
      task_cost_field_strict [of c "''expression''"] kind_not_missing(4) [of c] by auto
  have bind: "(\<And>x. adds l (f x)) \<Longrightarrow> adds (k + l) (State_Monad.bind (consumer ref) f)" for ref l and f :: "nat \<Rightarrow> nat planner"
    by (rule adds_bind [OF assms])
  show ?thesis
    unfolding r_buildReference_def c_def [symmetric] flatten
    by (intro adds_rules bind) (use two one c in auto)
qed

lemma adds_bind_backwards:
  assumes "\<And>x e. x \<in> set xs \<Longrightarrow> adds (c x) (f x e)" "\<And>r. adds (k - sum_list (map c xs)) (g r)" "sum_list (map c xs) \<le> k"
  shows "adds k (State_Monad.bind (r_backwards f (rev xs) entry) g)"
  by (rule adds_bind_le [OF adds_backwards_rev [where c = c, OF assms(1)] assms(2,3)])

lemma adds_bind_reference:
  assumes "\<And>ref. adds a (consumer ref)" "\<And>x. adds (k - (a + (task_cost n - 1))) (f x)" "a + (task_cost n - 1) \<le> k"
  shows "adds k (State_Monad.bind (r_buildReference n consumer exit) f)"
  by (rule adds_bind_le [OF adds_buildReference [OF assms(1)] assms(2,3)])

lemma adds_appendArgument: "adds (task_cost e) (r_appendArgument target arguments e entry)"
proof -
  have "task_cost (snd (spread_source e)) \<le> task_cost e"
    by (simp add: spread_source_def task_cost_field)
  then show ?thesis
    unfolding r_appendArgument_def flatten by (cases "spread_source e") (auto intro!: adds_rules)
qed

lemma adds_buildOrdered: "adds (sum_list (map (\<lambda>c. task_cost (fst c)) cs)) (r_buildOrdered cs next)"
  unfolding r_buildOrdered_def by (rule adds_backwards_rev) (auto simp: flatten intro!: adds_rules)

lemma adds_memberKey: "adds (task_cost name) (r_memberKey name key entry)"
  unfolding r_memberKey_def flatten by (intro adds_rules) (simp_all add: task_cost_field)

lemma adds_arrayElement: "adds (task_cost e) (r_arrayElement output e entry)"
  unfolding r_arrayElement_def flatten by (intro adds_rules adds_appendArgument)

lemma shorthand_cost:
  "is_elem ShorthandPropertyAssignment p \<Longrightarrow> task_cost (field p f) + task_cost (field p f) \<le> task_cost p"
proof -
  assume p: "is_elem ShorthandPropertyAssignment p"
  then have "task_cost p \<ge> 4 + 2 * costs (forEachChild p)"
    using kind_not_missing(2) [OF p] by (simp add: task_cost.simps [of p])
  moreover have "task_cost (field p f) \<le> costs (forEachChild p) + 1"
    using task_cost_child [OF child_in, of p f] by (auto simp: field_def split: option.split)
  ultimately show ?thesis by simp
qed

lemma adds_objectMember: "adds (task_cost p) (r_objectMember n output p entry)"
proof -
  have two: "task_cost (field p ''initializer'') + task_cost (field p ''name'') \<le> task_cost p" if "is_elem PropertyAssignment p"
    using costs_two_fields [of "''initializer''" "''name''" p] costs_children [OF kind_not_missing(2) [OF that]] by simp
  have key: "adds k (r_memberKey name key e)" if "task_cost name \<le> k" for k name key e
    by (rule adds_mono [OF adds_memberKey that])
  note short = shorthand_cost [of p "''name''"]
  show ?thesis
    unfolding r_objectMember_def flatten
    by (intro adds_rules key) (use two short task_cost_field [of p] in \<open>auto split: if_splits\<close>)
qed

lemma adds_buildLiteral:
  "is_expr ArrayLiteralExpression n \<or> is_expr ObjectLiteralExpression n \<Longrightarrow> adds (task_cost n - 1) (r_buildLiteral n output next)"
  unfolding r_buildLiteral_def
  by (intro adds_rules adds_bind_backwards [where c = task_cost] adds_arrayElement adds_objectMember)
    (use costs_children_of [of n "''elements''"] costs_children_of [of n "''properties''"]
        kind_not_missing(1) [of ArrayLiteralExpression n] kind_not_missing(1) [of ObjectLiteralExpression n] in auto)

lemma call_cost:
  assumes "is_expr CallExpression n \<or> is_expr NewExpression n \<or> is_expr TaggedTemplateExpression n"
  shows "costs (call_arguments n) + task_cost (call_target n) < task_cost n"
proof -
  have n: "n \<noteq> missing_node" using assms kind_not_missing(1) by blast
  have spans: "costs (map (\<lambda>span. field span ''expression'') (children t ''templateSpans'')) \<le> task_cost t" for t
  proof -
    have "sum_list (map (\<lambda>span. task_cost (field span ''expression'')) (children t ''templateSpans'')) \<le> costs (children t ''templateSpans'')"
      by (rule sum_list_bound) (rule task_cost_field)
    then show ?thesis using costs_children_of [of t "''templateSpans''"] by (cases "t = missing_node") (simp_all add: comp_def)
  qed
  show ?thesis
    using costs_two_fields [of "''tag''" "''template''" n] costs_field_children [of "''expression''" "''arguments''" n]
      task_cost_field_strict [OF n, of "''tag''"] costs_children [OF n] spans [of "field n ''template''"]
    by (auto simp: call_arguments_def call_target_def)
qed

lemma adds_buildCallee: "adds (task_cost (call_target n)) (r_buildCallee n callee receiver skip entry)"
proof -
  let ?t = "transparent (call_target n)"
  have t: "task_cost ?t \<le> task_cost (call_target n)" by (rule task_cost_transparent)
  have ref: "adds (task_cost (call_target n)) (r_buildReference ?t consumer exit)" if "\<And>r. adds 0 (consumer r)" for consumer exit
    by (rule adds_mono [OF adds_buildReference [OF that]]) (use t in simp)
  show ?thesis
    unfolding r_buildCallee_def Let_def flatten
    by (intro adds_rules ref) (auto intro!: adds_rules split: resumable_reference.split option.split)
qed

lemma adds_callReceiver: "adds k (r_callReceiver n)" "adds k (r_taggedTemplate n actuals entry)"
  unfolding r_callReceiver_def r_taggedTemplate_def flatten by (intro adds_rules)+

lemma adds_buildCall:
  assumes "is_expr CallExpression n \<or> is_expr NewExpression n \<or> is_expr TaggedTemplateExpression n"
  shows "adds (task_cost n - 1) (r_buildCall n output next exit)"
  unfolding r_buildCall_def flatten
  by (intro adds_rules adds_bind0 [OF adds_callReceiver(1)] adds_bind0 [OF adds_callReceiver(2)]
      adds_bind_backwards [where c = task_cost] adds_appendArgument adds_mono [OF adds_buildCallee])
    (use call_cost [OF assms] in auto)

section \<open>Tasks\<close>

lemma adds_classStage: "adds (stage_cost stage) (r_classStage d output stage entry)"
proof (cases stage)
  case (ElementStage m k)
  then show ?thesis
    unfolding r_classStage_def flatten by (cases k) (auto simp: stage_cost_def intro!: adds_rules)
qed (auto simp: r_classStage_def flatten stage_cost_def intro!: adds_rules)

lemma adds_bind_update [adds_rules]:
  "(\<And>s. r_worklist (g s) = r_worklist s) \<Longrightarrow> (\<And>x. adds k (f x)) \<Longrightarrow> adds k (State_Monad.bind (State_Monad.update g) f)"
  by (rule adds_bind0 [OF adds_update])

lemma adds_classExpression:
  assumes "is_expr ClassExpression n"
  shows "adds (task_cost n - 1) (r_classExpression t n)"
proof -
  let ?d = "sourceClassDefinition n"
  have "isClassLike ?d"
    using assms by (auto simp: sourceClassDefinition_def isClassLike_def is_expr_def is_stmt_def)
  moreover have "task_cost ?d \<le> task_cost n"
    using task_cost_original by (simp add: sourceClassDefinition_def)
  ultimately have "sum_list (map stage_cost (classDefinitionPlan ?d)) \<le> task_cost n - 1"
    using class_plan_cost [of ?d] by simp
  then show ?thesis
    unfolding r_classExpression_def flatten
    by (intro adds_rules adds_bind_backwards [where c = stage_cost] adds_classStage) auto
qed

lemma adds_suspension:
  assumes "n \<noteq> missing_node"
  shows "adds (task_cost n - 1) (r_suspension ag t n)"
proof -
  have "task_cost e < task_cost n" if "child n ''expression'' = Some e" for e
    using that task_cost_field_strict [OF assms, of "''expression''"] by (simp add: field_def)
  then show ?thesis
    unfolding r_suspension_def flatten
    by (cases "child n ''expression''") (auto intro!: adds_rules split: option.split)
qed

lemma two_fields_less:
  "n \<noteq> missing_node \<Longrightarrow> f \<noteq> g \<Longrightarrow> task_cost (field n f) + task_cost (field n g) < task_cost n"
  using costs_two_fields [of f g n] costs_children [of n] by simp

lemma adds_conditional: "n \<noteq> missing_node \<Longrightarrow> adds (task_cost n - 1) (r_conditional t n)"
  using costs_three_fields [of "''condition''" "''whenTrue''" "''whenFalse''" n] costs_children [of n]
  unfolding r_conditional_def flatten by (intro adds_rules) auto

lemma adds_binary_forms:
  assumes "n \<noteq> missing_node"
  shows "adds (task_cost n - 1) (r_comma t n)" "adds (task_cost n - 1) (r_logical oper t n)"
    "adds (task_cost n - 1) (r_compound oper t n)" "adds (task_cost n - 1) (r_assign t n)"
proof -
  have lr: "task_cost (field n ''left'') + task_cost (field n ''right'') < task_cost n"
    by (rule two_fields_less [OF assms]) simp
  show "adds (task_cost n - 1) (r_comma t n)" "adds (task_cost n - 1) (r_logical oper t n)"
    using lr unfolding r_comma_def r_logical_def flatten by (intro adds_rules; simp)+
  have right: "adds k (r_compoundRight oper t n old r c st)" if "task_cost (field n ''right'') \<le> k" for k old r c st
    using that unfolding r_compoundRight_def by (intro adds_rules) auto
  have bind_right: "adds k (State_Monad.bind (r_compoundRight oper t n old r c st) f)"
    if "task_cost (field n ''right'') \<le> k" "\<And>x. adds 0 (f x)" for k old r c st and f :: "nat \<Rightarrow> nat planner"
    by (rule adds_mono [OF adds_bind [OF right [OF order_refl] that(2)]]) (use that(1) in simp)
  show "adds (task_cost n - 1) (r_compound oper t n)"
    unfolding r_compound_def flatten
    by (intro adds_rules adds_bind_reference [where a = "task_cost (field n ''right'')"] bind_right) (use lr in auto)
  have "adds (task_cost n - 1) (r_destructure t n target)" for target
  proof -
    have "pending_cost (snd (run_state (r_destructure t n target) s)) \<le> pending_cost s + (task_cost n - 1)" for s
    proof -
      obtain b targets fresh where b: "normalizeAssignmentTarget target ([], r_fresh s) = (b, (targets, fresh))"
        by (metis prod.collapse)
      let ?m = "case b of None \<Rightarrow> r_reject (field n ''left'')
        | Some binding \<Rightarrow> do {
            right \<leftarrow> r_value (field n ''right'');
            bind \<leftarrow> r_new (\<lambda>i. RBinding i n binding targets right (task_output t) (task_next t));
            entry \<leftarrow> r_build (field n ''right'') right bind None;
            r_jump (task_anchor t) entry }"
      have "adds (task_cost n - 1) ?m" by (intro adds_rules) (use lr in auto)
      then have "pending_cost (snd (run_state ?m (s\<lparr>r_fresh := fresh\<rparr>))) \<le> pending_cost (s\<lparr>r_fresh := fresh\<rparr>) + (task_cost n - 1)"
        by (simp add: adds_def)
      then show ?thesis using b by (cases b) (simp_all add: r_destructure_def pending_cost_def)
    qed
    then show ?thesis by (simp add: adds_def)
  qed
  then show "adds (task_cost n - 1) (r_assign t n)"
    unfolding r_assign_def flatten
    by (intro adds_rules adds_bind_reference [where a = "task_cost (field n ''right'')"]) (use lr in auto)
qed

lemma adds_delete: "n \<noteq> missing_node \<Longrightarrow> adds (task_cost n - 1) (r_delete t n)"
  using task_cost_field_strict [of n "''expression''"]
  unfolding r_delete_def flatten by (intro adds_rules adds_bind_reference [where a = 0]) auto

lemma adds_template: "n \<noteq> missing_node \<Longrightarrow> adds (task_cost n - 1) (r_template t n)"
proof -
  assume n: "n \<noteq> missing_node"
  have "sum_list (map (\<lambda>span. task_cost (field span ''expression'')) (children n ''templateSpans'')) \<le> costs (children n ''templateSpans'')"
    by (rule sum_list_bound) (rule task_cost_field)
  then have sum: "sum_list (map (\<lambda>span. task_cost (field span ''expression'')) (children n ''templateSpans'')) \<le> task_cost n - 1"
    using costs_children_of [OF n, of "''templateSpans''"] by simp
  show ?thesis
    unfolding r_template_def flatten
    by (intro adds_rules adds_bind_backwards [where c = "\<lambda>span. task_cost (field span ''expression'')"])
      (use sum in \<open>auto simp: r_templateSpan_def flatten intro!: adds_rules\<close>)
qed

lemma adds_inputs: "adds k (r_inputs es)"
  by (induction es arbitrary: k) (auto intro!: adds_rules adds_bind0)

lemma inputs_fst: "map fst (fst (run_state (r_inputs es) s)) = es"
  by (induction es arbitrary: s) (auto simp: r_value_def split: prod.split, metis fst_conv)

lemma operand_cost: "operand_children n = Some es \<Longrightarrow> costs es < task_cost n"
proof -
  assume es: "operand_children n = Some es"
  have "costs es < task_cost n" if "n \<noteq> missing_node"
    using es two_fields_less [OF that, of "''left''" "''right''"] task_cost_field_strict [OF that, of "''operand''"]
      task_cost_field_strict [OF that, of "''expression''"]
    by (auto simp: operand_children_def split: if_splits)
  then show ?thesis using es by (cases "n = missing_node") (auto simp: operand_children_def is_expr_def missing_node_def
        evaluated_leaf_def isIdentifier_def isLiteralExpression_def split: if_splits)
qed

lemma adds_bind_inputs:
  assumes "\<And>inputs. map fst inputs = es \<Longrightarrow> adds k (f inputs)"
  shows "adds k (State_Monad.bind (r_inputs es) f)"
proof -
  have "pending_cost (snd (run_state (State_Monad.bind (r_inputs es) f) s)) \<le> pending_cost s + k" for s
  proof -
    obtain inputs s' where i: "run_state (r_inputs es) s = (inputs, s')" by fastforce
    then have "pending_cost s' \<le> pending_cost s" using adds_inputs [of 0 es] by (metis adds_def add_0_right snd_conv)
    moreover have "pending_cost (snd (run_state (f inputs) s')) \<le> pending_cost s' + k"
      using assms [of inputs] inputs_fst [of es s] i by (simp add: adds_def)
    ultimately show ?thesis using i by simp
  qed
  then show ?thesis by (simp add: adds_def)
qed

lemma adds_ordinary: "adds (task_cost n - 1) (r_ordinary t n)"
proof (cases "operand_children n")
  case (Some es)
  have "adds (task_cost n - 1) (State_Monad.bind (r_buildOrdered inputs e) (\<lambda>x. r_jump a (or_complete x)))"
    if "map fst inputs = es" for inputs e a
  proof (rule adds_bind_le [OF adds_buildOrdered])
    have "sum_list (map (\<lambda>c. task_cost (fst c)) inputs) = costs es" using that by (simp flip: that add: comp_def)
    then show "sum_list (map (\<lambda>c. task_cost (fst c)) inputs) \<le> task_cost n - 1" using operand_cost [OF Some] by simp
  qed (rule adds_rules)
  then show ?thesis
    unfolding r_ordinary_def Some option.case by (intro adds_bind_inputs adds_rules)
qed (simp add: r_ordinary_def adds_rules)

lemma adds_other:
  assumes "n \<noteq> missing_node"
  shows "adds (task_cost n - 1) (r_other t n exit)"
proof -
  have bind: "adds k (State_Monad.bind m (\<lambda>x. r_jump a x))" if "adds k m" for k m a
    using adds_bind [OF that adds_primitives(7), of 0] by simp
  have ref: "adds (task_cost n - 1) (r_buildReference m consumer e)"
    if "task_cost m \<le> task_cost n" "\<And>r. adds 0 (consumer r)" for m consumer e
    by (rule adds_mono [OF adds_buildReference [OF that(2)]]) (use that(1) in simp)
  show ?thesis
    unfolding r_other_def
    by (intro adds_if bind adds_buildCall adds_buildLiteral ref adds_primitives adds_delete adds_template adds_ordinary assms
        task_cost_field order_refl) auto
qed

lemma adds_binary: "n \<noteq> missing_node \<Longrightarrow> adds (task_cost n - 1) (r_binary t n exit)"
  unfolding r_binary_def by (intro adds_case_option adds_if adds_binary_forms adds_other)

lemma adds_task: "adds (task_cost (task_source t) - 1) (r_task ag dec t)"
proof -
  define n where "n = transparent (task_source t)"
  have le: "task_cost n - 1 \<le> task_cost (task_source t) - 1" by (simp add: n_def task_cost_transparent diff_le_mono)
  have missing: "adds k (r_binary t missing_node exit)" for k exit
    by (auto simp: r_binary_def r_other_def r_ordinary_def operand_children_def is_expr_def missing_node_def isAccess_def
        is_update_def evaluated_leaf_def isIdentifier_def isLiteralExpression_def adds_rules)
  have "adds (task_cost n - 1) (r_binary t n exit)" for exit
    using missing adds_binary by (cases "n = missing_node") auto
  then have "adds (task_cost n - 1) (r_task ag dec t)"
    unfolding r_task_def n_def [symmetric] flatten
    by (intro adds_rules adds_classExpression adds_suspension adds_conditional) (auto dest: kind_not_missing)
  then show ?thesis using le by (rule adds_mono)
qed

section \<open>The loop drains the worklist\<close>

lemma r_run_drains:
  "pending_cost s \<le> fuel \<Longrightarrow>
   (let s' = r_run fuel ag dec s in r_worklist s' = [] \<or> r_failure s' \<noteq> None \<or> r_thrown s')"
proof (induction fuel arbitrary: s)
  case 0
  have "r_worklist s = []"
  proof (cases "r_worklist s")
    case (Cons t rest)
    then have "task_cost (task_source t) \<le> 0" using 0 by (simp add: pending_cost_def)
    then show ?thesis using task_cost_pos [of "task_source t"] by linarith
  qed
  then show ?case by simp
next
  case (Suc fuel)
  show ?case
  proof (cases "r_worklist s")
    case (Cons t rest)
    let ?s = "s\<lparr>r_worklist := rest\<rparr>"
    have "pending_cost (snd (run_state (r_task ag dec t) ?s)) \<le> pending_cost ?s + (task_cost (task_source t) - 1)"
      using adds_task by (simp add: adds_def)
    moreover have "pending_cost s = task_cost (task_source t) + pending_cost ?s" by (simp add: pending_cost_def Cons)
    ultimately have "pending_cost (snd (run_state (r_task ag dec t) ?s)) \<le> fuel"
      using Suc.prems task_cost_pos [of "task_source t"] by linarith
    from Suc.IH [OF this] show ?thesis using Cons by (simp add: Let_def)
  qed simp
qed

lemma r_start_cost:
  "pending_cost (snd (run_state (r_start e) (r_initial fresh))) = task_cost e"
  by (simp add: r_start_def r_build_def r_new_def r_put_def r_value_def r_reserve_def r_initial_def pending_cost_def
      State_Monad.update_def)

end
