(* ===== verification/Resumable_Graph.thy ===== *)
theory Resumable_Graph
  imports Resumable_Fuel
begin

text \<open>
  Well-formedness of the resumable expression graph. \<open>r_inv A s\<close> is the invariant of the planner
  state, where \<open>A\<close> holds the anchors of the task in progress: states are stored under their own
  identifier, their targets and value slots exist, the states still undefined are exactly the pending
  anchors, and forwarding jumps go to larger identifiers. \<open>rspec\<close> is the contract of a planner action
  with known targets \<open>T\<close>, known new targets \<open>N\<close> and known value slots \<open>V\<close>.
\<close>

section \<open>Targets and slots\<close>

fun ref_slots :: "resumable_reference \<Rightarrow> nat list" where
  "ref_slots (BindingRef n v) = [v]"
| "ref_slots (PropertyRef n b k r) = [b, k] @ (case r of Some v \<Rightarrow> [v] | None \<Rightarrow> [])"

fun operation_slots :: "value_operation \<Rightarrow> nat list" where
  "operation_slots (BindingReceiverOp r) = ref_slots r"
| "operation_slots (ClassHeritageOp d v w) = [v, w]"
| "operation_slots (ClassElementOp d v m k) = v # (case k of Some w \<Rightarrow> [w] | None \<Rightarrow> [])"
| "operation_slots (ClassCompleteOp d v) = [v]"
| "operation_slots (EvaluateOp e inputs) = map snd inputs"
| "operation_slots (CopyOp v) = [v]"
| "operation_slots (PropertyKeyOp v) = [v]"
| "operation_slots (GetOp r) = ref_slots r"
| "operation_slots (SetOp r v) = v # ref_slots r"
| "operation_slots (DeleteOp r) = ref_slots r"
| "operation_slots (UpdateOp r i p) = ref_slots r"
| "operation_slots (CompoundOp k v w) = [v, w]"
| "operation_slots (CallOp n c r a b) = [c, a] @ (case r of Some v \<Rightarrow> [v] | None \<Rightarrow> [])"
| "operation_slots _ = []"

fun state_targets :: "resumable_state \<Rightarrow> nat list" where
  "state_targets (RBranch i v m y n) = [y, n]"
| "state_targets (RComplete i v) = []"
| "state_targets st = [rnext st]"

fun state_slots :: "resumable_state \<Rightarrow> nat list" where
  "state_slots (RBinding i n b ts v w x) = [v, w]"
| "state_slots (RValue i oper v x) = v # operation_slots oper"
| "state_slots (RAppend i v w sp c x) = v # (case w of Some u \<Rightarrow> [u] | None \<Rightarrow> [])"
| "state_slots (RDefine i v w u x) = [v, w, u]"
| "state_slots (RDefineMember i v w m x) = [v, w]"
| "state_slots (RSpreadObject i v w x) = [v, w]"
| "state_slots (RPrototype i v w x) = [v, w]"
| "state_slots (RTemplateAppend i v w t x) = [v, w]"
| "state_slots (RBranch i v m y n) = [v]"
| "state_slots (RSuspend i n v w k x) = w # (case v of Some u \<Rightarrow> [u] | None \<Rightarrow> [])"
| "state_slots (RJump i x) = []"
| "state_slots (RComplete i v) = [v]"

definition is_complete :: "resumable_state \<Rightarrow> bool" where
  "is_complete st = (case st of RComplete _ _ \<Rightarrow> True | _ \<Rightarrow> False)"

section \<open>The invariant\<close>

abbreviation nst :: "rplan \<Rightarrow> nat" where "nst s \<equiv> length (r_states s)"
abbreviation nval :: "rplan \<Rightarrow> nat" where "nval s \<equiv> length (r_values s)"
abbreviation anchors :: "rplan \<Rightarrow> nat list" where "anchors s \<equiv> map task_anchor (r_worklist s)"

definition state_ok :: "rplan \<Rightarrow> nat \<Rightarrow> resumable_state \<Rightarrow> bool" where
  "state_ok s i st \<longleftrightarrow>
     rid st = i \<and> (\<forall>t\<in>set (state_targets st). t < nst s) \<and> (\<forall>v\<in>set (state_slots st). v < nval s) \<and>
     (is_complete st \<longrightarrow> i = 0)"

definition task_ok :: "rplan \<Rightarrow> resumable_task \<Rightarrow> bool" where
  "task_ok s t \<longleftrightarrow> 0 < task_anchor t \<and> task_anchor t < nst s \<and> task_next t < nst s \<and> task_output t < nval s \<and> (\<forall>e. task_chainExit t = Some e \<longrightarrow> e < nst s)"

definition pending_ok :: "nat set \<Rightarrow> rplan \<Rightarrow> bool" where
  "pending_ok A s \<longleftrightarrow>
     distinct (anchors s) \<and> A \<inter> set (anchors s) = {} \<and> A \<subseteq> {..<nst s} \<and> set (anchors s) \<subseteq> {..<nst s} \<and>
     (\<forall>i<nst s. r_states s ! i = None \<longleftrightarrow> i \<in> A \<union> set (anchors s)) \<and>
     (\<forall>i<nst s. \<forall>st. r_states s ! i = Some st \<longrightarrow> is_jump st \<longrightarrow> i < rnext st)"

definition r_inv :: "nat set \<Rightarrow> rplan \<Rightarrow> bool" where
  "r_inv A s \<longleftrightarrow>
     0 < nst s \<and> 0 < nval s \<and> A \<subseteq> {0<..<nst s} \<and> r_states s ! 0 = Some (RComplete 0 0) \<and> \<not> r_thrown s \<and>
     (\<forall>i<nst s. \<forall>st. r_states s ! i = Some st \<longrightarrow> state_ok s i st) \<and>
     (\<forall>t\<in>set (r_worklist s). task_ok s t) \<and>
     (\<forall>c\<in>set (r_classDefinitions s). snd c < nval s) \<and>
     (r_failure s = None \<longrightarrow> pending_ok A s)"

definition grows :: "rplan \<Rightarrow> rplan \<Rightarrow> bool" where
  "grows s s' \<longleftrightarrow> nst s \<le> nst s' \<and> nval s \<le> nval s' \<and> (r_failure s \<noteq> None \<longrightarrow> r_failure s' \<noteq> None)"

lemma grows_refl [simp]: "grows s s"
  by (simp add: grows_def)

lemma grows_trans: "grows s s' \<Longrightarrow> grows s' s'' \<Longrightarrow> grows s s''"
  by (auto simp: grows_def)

definition is_new :: "nat set \<Rightarrow> nat \<Rightarrow> rplan \<Rightarrow> bool" where
  "is_new A x s \<longleftrightarrow> x < nst s \<and> (r_failure s = None \<longrightarrow> (\<forall>a\<in>A. a < x))"

definition known :: "nat set \<Rightarrow> nat set \<Rightarrow> nat set \<Rightarrow> nat set \<Rightarrow> rplan \<Rightarrow> bool" where
  "known A T N V s \<longleftrightarrow> (\<forall>t\<in>T. t < nst s) \<and> (\<forall>t\<in>N. is_new A t s) \<and> (\<forall>v\<in>V. v < nval s)"

lemma is_new_grows: "is_new A x s \<Longrightarrow> grows s s' \<Longrightarrow> is_new A x s'"
  by (auto simp: is_new_def grows_def)

lemma known_grows: "known A T N V s \<Longrightarrow> grows s s' \<Longrightarrow> known A T N V s'"
  unfolding known_def using is_new_grows by (fastforce simp: grows_def)

definition rspec :: "nat set \<Rightarrow> nat set \<Rightarrow> nat set \<Rightarrow> nat set \<Rightarrow> ('a \<Rightarrow> rplan \<Rightarrow> bool) \<Rightarrow> 'a planner \<Rightarrow> bool" where
  "rspec A T N V Q m \<longleftrightarrow>
     (\<forall>s x s'. run_state m s = (x, s') \<longrightarrow> r_inv A s \<longrightarrow> known A T N V s \<longrightarrow> r_inv A s' \<and> grows s s' \<and> Q x s')"

lemma rspecI:
  "(\<And>s x s'. run_state m s = (x, s') \<Longrightarrow> r_inv A s \<Longrightarrow> known A T N V s \<Longrightarrow> r_inv A s' \<and> grows s s' \<and> Q x s') \<Longrightarrow>
   rspec A T N V Q m"
  by (auto simp: rspec_def)

lemma rspecD:
  "rspec A T N V Q m \<Longrightarrow> run_state m s = (x, s') \<Longrightarrow> r_inv A s \<Longrightarrow> known A T N V s \<Longrightarrow> r_inv A s' \<and> grows s s' \<and> Q x s'"
  by (auto simp: rspec_def)

text \<open>The values that actions return: a target, a new target, a value slot, an optional one, an entry.\<close>

definition target_val :: "nat \<Rightarrow> rplan \<Rightarrow> bool" where "target_val x s \<longleftrightarrow> x < nst s"
definition slot_val :: "nat \<Rightarrow> rplan \<Rightarrow> bool" where "slot_val x s \<longleftrightarrow> x < nval s"
definition slot_opt :: "nat option \<Rightarrow> rplan \<Rightarrow> bool" where "slot_opt x s \<longleftrightarrow> (\<forall>v. x = Some v \<longrightarrow> v < nval s)"
definition entry_val :: "nat option \<Rightarrow> rplan \<Rightarrow> bool" where
  "entry_val x s = (case x of Some e \<Rightarrow> e < nst s | None \<Rightarrow> r_failure s \<noteq> None)"
definition new_entry :: "nat set \<Rightarrow> nat option \<Rightarrow> rplan \<Rightarrow> bool" where
  "new_entry A x s = (case x of Some e \<Rightarrow> is_new A e s | None \<Rightarrow> r_failure s \<noteq> None)"

section \<open>Rules\<close>

named_theorems rspec_rules

lemma rspec_bind:
  assumes "rspec A T N V P m"
    and "\<And>x s. P x s \<Longrightarrow> r_inv A s \<Longrightarrow> known A T N V s \<Longrightarrow> known A (T' x) (N' x) (V' x) s"
    and "\<And>x. rspec A (T' x) (N' x) (V' x) Q (f x)"
  shows "rspec A T N V Q (State_Monad.bind m f)"
proof (rule rspecI)
  fix s x s'
  assume run: "run_state (State_Monad.bind m f) s = (x, s')" and inv: "r_inv A s" "known A T N V s"
  obtain y t where y: "run_state m s = (y, t)" by fastforce
  note first = rspecD [OF assms(1) y inv]
  have "known A (T' y) (N' y) (V' y) t" using assms(2) first known_grows [OF inv(2)] by blast
  with first run y have "r_inv A s' \<and> grows t s' \<and> Q x s'" using rspecD [OF assms(3)] by simp
  then show "r_inv A s' \<and> grows s s' \<and> Q x s'" using first grows_trans by blast
qed

lemma rspec_weaken: "rspec A T N V P m \<Longrightarrow> (\<And>x s. r_inv A s \<Longrightarrow> P x s \<Longrightarrow> Q x s) \<Longrightarrow> rspec A T N V Q m"
  unfolding rspec_def by blast

lemma rspec_mono: "rspec A T N V Q m \<Longrightarrow> T \<subseteq> T' \<union> N' \<Longrightarrow> N \<subseteq> N' \<Longrightarrow> V \<subseteq> V' \<Longrightarrow> rspec A T' N' V' Q m"
  unfolding rspec_def known_def is_new_def by blast

lemma bind_new:
  "rspec A T N V (is_new A) m \<Longrightarrow> (\<And>x. rspec A T (insert x N) V Q (f x)) \<Longrightarrow> rspec A T N V Q (State_Monad.bind m f)"
  by (rule rspec_bind [where P = "is_new A" and T' = "\<lambda>_. T" and N' = "\<lambda>x. insert x N" and V' = "\<lambda>_. V"]) (auto simp: known_def)

lemma bind_target:
  "rspec A T N V target_val m \<Longrightarrow> (\<And>x. rspec A (insert x T) N V Q (f x)) \<Longrightarrow> rspec A T N V Q (State_Monad.bind m f)"
  by (rule rspec_bind [where P = target_val and T' = "\<lambda>x. insert x T" and N' = "\<lambda>_. N" and V' = "\<lambda>_. V"]) (auto simp: known_def target_val_def)

lemma bind_slot:
  "rspec A T N V slot_val m \<Longrightarrow> (\<And>x. rspec A T N (insert x V) Q (f x)) \<Longrightarrow> rspec A T N V Q (State_Monad.bind m f)"
  by (rule rspec_bind [where P = slot_val and T' = "\<lambda>_. T" and N' = "\<lambda>_. N" and V' = "\<lambda>x. insert x V"]) (auto simp: known_def slot_val_def)

lemma bind_slot_opt:
  "rspec A T N V slot_opt m \<Longrightarrow> (\<And>x. rspec A T N (set_option x \<union> V) Q (f x)) \<Longrightarrow> rspec A T N V Q (State_Monad.bind m f)"
  by (rule rspec_bind [where P = slot_opt and T' = "\<lambda>_. T" and N' = "\<lambda>_. N" and V' = "\<lambda>x. set_option x \<union> V"])
    (auto simp: known_def slot_opt_def)

lemma bind_entry:
  "rspec A T N V entry_val m \<Longrightarrow> (\<And>x. rspec A (insert (or_complete x) T) N V Q (f x)) \<Longrightarrow>
   rspec A T N V Q (State_Monad.bind m f)"
  by (rule rspec_bind [where P = entry_val and T' = "\<lambda>x. insert (or_complete x) T" and N' = "\<lambda>_. N" and V' = "\<lambda>_. V"])
    (auto simp: known_def entry_val_def or_complete_def r_inv_def split: option.splits)

lemma rspec_return [rspec_rules]:
  "x \<in> N \<Longrightarrow> rspec A T N V (is_new A) (State_Monad.return x)"
  "x \<in> T \<union> N \<Longrightarrow> rspec A T N V target_val (State_Monad.return x)"
  "x \<in> V \<Longrightarrow> rspec A T N V slot_val (State_Monad.return x)"
  "set_option y \<subseteq> V \<Longrightarrow> rspec A T N V slot_opt (State_Monad.return y)"
  by (auto simp: rspec_def known_def target_val_def slot_val_def slot_opt_def is_new_def)

lemma rspec_if [rspec_rules]:
  "(b \<Longrightarrow> rspec A T N V Q m) \<Longrightarrow> (\<not> b \<Longrightarrow> rspec A T N V Q m') \<Longrightarrow> rspec A T N V Q (if b then m else m')"
  by simp

lemma rspec_case_option [rspec_rules]:
  "(x = None \<Longrightarrow> rspec A T N V Q m) \<Longrightarrow> (\<And>y. x = Some y \<Longrightarrow> rspec A T N V Q (f y)) \<Longrightarrow>
   rspec A T N V Q (case x of None \<Rightarrow> m | Some y \<Rightarrow> f y)"
  by (cases x) simp_all

subsection \<open>Primitive actions\<close>

lemma state_ok_grows: "state_ok s i st \<Longrightarrow> nst s \<le> nst s' \<Longrightarrow> nval s \<le> nval s' \<Longrightarrow> state_ok s' i st"
  unfolding state_ok_def by (meson order_less_le_trans)

lemma task_ok_grows: "task_ok s t \<Longrightarrow> nst s \<le> nst s' \<Longrightarrow> nval s \<le> nval s' \<Longrightarrow> task_ok s' t"
  unfolding task_ok_def by (meson order_less_le_trans)

lemma rspec_value [rspec_rules]: "rspec A T N V slot_val (r_value e)"
proof (rule rspecI)
  fix s x s'
  assume run: "run_state (r_value e) s = (x, s')" and inv: "r_inv A s"
  have s': "s' = s\<lparr>r_values := r_values s @ [e]\<rparr>" and x: "x = nval s" using run by (simp_all add: r_value_def)
  have "state_ok s' i st" if "state_ok s i st" for i st by (rule state_ok_grows [OF that]) (simp_all add: s')
  moreover have "task_ok s' t" if "task_ok s t" for t by (rule task_ok_grows [OF that]) (simp_all add: s')
  ultimately show "r_inv A s' \<and> grows s s' \<and> slot_val x s'"
    using inv x by (auto simp: s' r_inv_def grows_def slot_val_def pending_ok_def less_Suc_eq)
qed

lemma rspec_reject: "rspec A T N V (\<lambda>_ s. r_failure s \<noteq> None) (r_reject n)"
proof (rule rspecI)
  fix s x s'
  assume run: "run_state (r_reject n) s = (x, s')" and inv: "r_inv A s"
  have s': "s' = s\<lparr>r_failure := (case r_failure s of None \<Rightarrow> Some n | f \<Rightarrow> f)\<rparr>"
    using run by (simp add: r_reject_def State_Monad.update_def)
  have f: "r_failure s' \<noteq> None" by (simp add: s' split: option.split)
  have "state_ok s' i st = state_ok s i st" "task_ok s' t = task_ok s t" for i st t
    by (simp_all add: s' state_ok_def task_ok_def)
  then show "r_inv A s' \<and> grows s s' \<and> r_failure s' \<noteq> None"
    using inv f by (auto simp: r_inv_def grows_def s' split: option.splits)
qed

lemma rspec_reject_then:
  assumes "\<And>s. r_inv A s \<Longrightarrow> r_failure s \<noteq> None \<Longrightarrow> Q y s"
  shows "rspec A T N V Q (State_Monad.bind (r_reject n) (\<lambda>_. State_Monad.return y))"
proof (rule rspecI)
  fix s x s'
  assume "run_state (State_Monad.bind (r_reject n) (\<lambda>_. State_Monad.return y)) s = (x, s')"
    and inv: "r_inv A s" "known A T N V s"
  then have x: "x = y" "run_state (r_reject n) s = ((), s')" by (auto split: prod.splits)
  show "r_inv A s' \<and> grows s s' \<and> Q x s'" using rspecD [OF rspec_reject x(2) inv] assms x(1) by blast
qed

lemma rspec_reject_return [rspec_rules]:
  "rspec A T N V (is_new A) (State_Monad.bind (r_reject n) (\<lambda>_. State_Monad.return 0))"
  "rspec A T N V (new_entry A) (State_Monad.bind (r_reject n) (\<lambda>_. State_Monad.return None))"
  by (rule rspec_reject_then; auto simp: is_new_def new_entry_def r_inv_def)+

text \<open>\<open>r_new\<close> reserves a state and defines it at once.\<close>

definition fresh_state :: "nat set \<Rightarrow> nat set \<Rightarrow> (nat \<Rightarrow> resumable_state) \<Rightarrow> bool" where
  "fresh_state T V st \<longleftrightarrow>
     (\<forall>i. rid (st i) = i \<and> \<not> is_jump (st i) \<and> \<not> is_complete (st i) \<and>
          set (state_targets (st i)) \<subseteq> T \<and> set (state_slots (st i)) \<subseteq> V)"

lemma nth_append_new: "i < length xs + 1 \<Longrightarrow> (xs @ [y]) ! i = (if i = length xs then y else xs ! i)"
  by (auto simp: nth_append)

lemma rspec_new:
  assumes "fresh_state (T \<union> N) V st"
  shows "rspec A T N V (is_new A) (r_new st)"
proof (rule rspecI)
  fix s x s'
  assume run: "run_state (r_new st) s = (x, s')" and inv: "r_inv A s" and kn: "known A T N V s"
  have st: "rid (st i) = i" "\<not> is_jump (st i)" "\<not> is_complete (st i)" for i
    using assms by (simp_all add: fresh_state_def)
  have x: "x = nst s" and s': "s' = s\<lparr>r_states := r_states s @ [Some (st (nst s))]\<rparr>"
    using run by (auto simp: r_new_def r_reserve_def r_put_def State_Monad.update_def st list_update_append)
  have "t < nst s" if "t \<in> set (state_targets (st (nst s)))" for t
    using that assms kn unfolding fresh_state_def known_def is_new_def by (meson UnE subsetD)
  moreover have "v < nval s" if "v \<in> set (state_slots (st (nst s)))" for v
    using that assms kn unfolding fresh_state_def known_def by (meson subsetD)
  ultimately have new: "state_ok s' (nst s) (st (nst s))"
    using st by (auto simp: state_ok_def s' less_Suc_eq)
  have old: "state_ok s' i q" if "state_ok s i q" for i q
    by (rule state_ok_grows [OF that]) (simp_all add: s')
  have task: "task_ok s' t" if "task_ok s t" for t
    by (rule task_ok_grows [OF that]) (simp_all add: s')
  have pend: "pending_ok A s'" if p: "pending_ok A s"
    unfolding pending_ok_def
  proof (intro conjI allI impI)
    fix i assume i: "i < nst s'"
    have notin: "nst s \<notin> A \<union> set (anchors s)" using p by (auto simp: pending_ok_def)
    show "r_states s' ! i = None \<longleftrightarrow> i \<in> A \<union> set (anchors s')"
      using p i notin by (auto simp: s' pending_ok_def nth_append_new)
    fix q assume "r_states s' ! i = Some q" "is_jump q"
    then show "i < rnext q" using p i st by (auto simp: s' pending_ok_def nth_append_new split: if_splits)
  qed (use p in \<open>auto simp: pending_ok_def s' less_Suc_eq\<close>)
  have "r_inv A s'"
    unfolding r_inv_def
  proof (intro conjI allI impI)
    fix i q assume "i < nst s'" "r_states s' ! i = Some q"
    then show "state_ok s' i q" using inv new old by (auto simp: s' r_inv_def nth_append_new split: if_splits)
  next
    assume "r_failure s' = None"
    then show "pending_ok A s'" using inv pend by (simp add: r_inv_def s')
  qed (use inv task in \<open>auto simp: r_inv_def s' nth_append\<close>)
  moreover have "is_new A x s'"
    using inv x by (auto simp: is_new_def s' r_inv_def pending_ok_def)
  ultimately show "r_inv A s' \<and> grows s s' \<and> is_new A x s'" by (simp add: grows_def s')
qed

lemma rspec_build:
  assumes "v \<in> V" "next \<in> T \<union> N" "set_option exit \<subseteq> T \<union> N"
  shows "rspec A T N V (is_new A) (r_build e v next exit)"
proof (rule rspecI)
  fix s x s'
  assume run: "run_state (r_build e v next exit) s = (x, s')" and inv: "r_inv A s" and kn: "known A T N V s"
  let ?t = "\<lparr>task_anchor = nst s, task_source = e, task_output = v, task_next = next, task_chainExit = exit\<rparr>"
  have x: "x = nst s" and s': "s' = s\<lparr>r_states := r_states s @ [None], r_worklist := ?t # r_worklist s\<rparr>"
    using run by (auto simp: r_build_def r_reserve_def State_Monad.update_def)
  have old: "state_ok s' i q" if "state_ok s i q" for i q
    by (rule state_ok_grows [OF that]) (simp_all add: s')
  have task: "task_ok s' t" if "task_ok s t" for t
    by (rule task_ok_grows [OF that]) (simp_all add: s')
  have new: "task_ok s' ?t" using kn assms using inv by (auto simp: task_ok_def s' known_def is_new_def less_Suc_eq r_inv_def)
  have pend: "pending_ok A s'" if p: "pending_ok A s"
    unfolding pending_ok_def
  proof (intro conjI allI impI)
    fix i assume i: "i < nst s'"
    show "r_states s' ! i = None \<longleftrightarrow> i \<in> A \<union> set (anchors s')"
      using p i by (auto simp: s' pending_ok_def nth_append_new split: if_splits)
    fix q assume "r_states s' ! i = Some q" "is_jump q"
    then show "i < rnext q" using p i by (auto simp: s' pending_ok_def nth_append_new split: if_splits)
  qed (use p in \<open>force simp: pending_ok_def s' less_Suc_eq\<close>)+
  have "r_inv A s'"
    unfolding r_inv_def
  proof (intro conjI allI impI ballI)
    fix i q assume "i < nst s'" "r_states s' ! i = Some q"
    then show "state_ok s' i q" using inv old by (auto simp: s' r_inv_def nth_append_new split: if_splits)
  next
    fix t assume "t \<in> set (r_worklist s')"
    then show "task_ok s' t" using inv new task by (auto simp: s' r_inv_def)
  next
    assume "r_failure s' = None"
    then show "pending_ok A s'" using inv pend by (simp add: r_inv_def s')
  qed (use inv in \<open>auto simp: r_inv_def s' nth_append\<close>)
  moreover have "is_new A x s'"
    using inv x by (auto simp: is_new_def s' r_inv_def pending_ok_def)
  ultimately show "r_inv A s' \<and> grows s s' \<and> is_new A x s'" by (simp add: grows_def s')
qed

lemma rspec_operation:
  "output \<in> V \<Longrightarrow> next \<in> T \<union> N \<Longrightarrow> set (operation_slots oper) \<subseteq> V \<Longrightarrow>
   rspec A T N V (is_new A) (r_operation oper output next)"
  unfolding r_operation_def by (rule rspec_new) (auto simp: fresh_state_def is_jump_def is_complete_def)

lemma rspec_copy:
  "source \<in> V \<Longrightarrow> output \<in> V \<Longrightarrow> next \<in> T \<union> N \<Longrightarrow> rspec A T N V (is_new A) (r_copy source output next)"
  unfolding r_copy_def by (rule rspec_operation) auto

lemma rspec_some_entry: "rspec A T N V (is_new A) m \<Longrightarrow> rspec A T N V (new_entry A) (some_entry m)"
  unfolding some_entry_def
  by (rule bind_new, assumption) (auto simp: rspec_def new_entry_def known_def)

lemma rspec_some_slot: "rspec A T N V slot_val m \<Longrightarrow> rspec A T N V slot_opt (some_entry m)"
  unfolding some_entry_def
  by (rule bind_slot, assumption) (auto simp: rspec_def slot_opt_def known_def)

lemma new_target: "rspec A T N V (is_new A) m \<Longrightarrow> rspec A T N V target_val m"
  by (erule rspec_weaken) (simp add: is_new_def target_val_def)

lemma new_entry_entry: "rspec A T N V (new_entry A) m \<Longrightarrow> rspec A T N V entry_val m"
  by (erule rspec_weaken) (auto simp: new_entry_def entry_val_def is_new_def split: option.splits)

lemma rspec_return_entry: "x \<in> T \<union> N \<Longrightarrow> rspec A T N V entry_val (State_Monad.return (Some x))"
  by (auto simp: rspec_def known_def entry_val_def is_new_def)

lemmas rspec_actions = rspec_new rspec_build rspec_operation rspec_copy rspec_some_entry rspec_some_slot

text \<open>The binding of an action that returns a slot or a new target.\<close>

lemma rspec_bind_actions [rspec_rules]:
  "(\<And>x. rspec A T N (insert x V) Q (f x)) \<Longrightarrow> rspec A T N V Q (State_Monad.bind (r_value e) f)"
  "fresh_state (T \<union> N) V st \<Longrightarrow> (\<And>x. rspec A T (insert x N) V Q (f x)) \<Longrightarrow> rspec A T N V Q (State_Monad.bind (r_new st) f)"
  "output \<in> V \<Longrightarrow> next \<in> T \<union> N \<Longrightarrow> set (operation_slots oper) \<subseteq> V \<Longrightarrow> (\<And>x. rspec A T (insert x N) V Q (f x)) \<Longrightarrow>
   rspec A T N V Q (State_Monad.bind (r_operation oper output next) f)"
  "source \<in> V \<Longrightarrow> output \<in> V \<Longrightarrow> next \<in> T \<union> N \<Longrightarrow> (\<And>x. rspec A T (insert x N) V Q (f x)) \<Longrightarrow>
   rspec A T N V Q (State_Monad.bind (r_copy source output next) f)"
  "v \<in> V \<Longrightarrow> next \<in> T \<union> N \<Longrightarrow> set_option exit \<subseteq> T \<union> N \<Longrightarrow> (\<And>x. rspec A T (insert x N) V Q (f x)) \<Longrightarrow>
   rspec A T N V Q (State_Monad.bind (r_build e v next exit) f)"
  by (rule bind_slot [OF rspec_value] bind_new [OF rspec_new] bind_new [OF rspec_operation] bind_new [OF rspec_copy]
      bind_new [OF rspec_build]; assumption)+

lemma rspec_bind_bind [rspec_rules]:
  "rspec A T N V Q (State_Monad.bind m (\<lambda>x. State_Monad.bind (g x) f)) \<Longrightarrow>
   rspec A T N V Q (State_Monad.bind (State_Monad.bind m g) f)"
  by simp

lemma rspec_bind_return [rspec_rules]: "rspec A T N V Q (f x) \<Longrightarrow> rspec A T N V Q (State_Monad.bind (State_Monad.return x) f)"
  by simp

lemma rspec_bind_if [rspec_rules]:
  "(b \<Longrightarrow> rspec A T N V Q (State_Monad.bind m f)) \<Longrightarrow> (\<not> b \<Longrightarrow> rspec A T N V Q (State_Monad.bind m' f)) \<Longrightarrow>
   rspec A T N V Q (State_Monad.bind (if b then m else m') f)"
  by simp

lemma rspec_bind_case_option [rspec_rules]:
  "(y = None \<Longrightarrow> rspec A T N V Q (State_Monad.bind m f)) \<Longrightarrow>
   (\<And>z. y = Some z \<Longrightarrow> rspec A T N V Q (State_Monad.bind (h z) f)) \<Longrightarrow>
   rspec A T N V Q (State_Monad.bind (case y of None \<Rightarrow> m | Some z \<Rightarrow> h z) f)"
  by (simp split: option.split)

section \<open>References, calls and literals\<close>

lemma rspec_buildReference:
  assumes binding: "\<And>v. isIdentifier (transparent n) \<Longrightarrow>
      rspec A T N (insert v V) (is_new A) (consumer (BindingRef (transparent n) v))"
    and property: "\<And>b k r. isAccess (transparent n) \<Longrightarrow>
      rspec A T N (set_option r \<union> (insert b (insert k V))) (is_new A) (consumer (PropertyRef (transparent n) b k r))"
    and exit: "set_option exit \<subseteq> T \<union> N"
  shows "rspec A T N V (is_new A) (r_buildReference n consumer exit)"
proof -
  define c where "c = transparent n"
  have use_binding: "rspec A T N (insert v V) (is_new A)
      (State_Monad.bind (consumer (BindingRef c v)) (\<lambda>next. r_operation (BindingReferenceOp c) v next))"
    if "isIdentifier c" for v
    using binding that by (intro bind_new [OF _ rspec_operation]) (auto simp: c_def)
  have property': "rspec A T N W (is_new A) (State_Monad.bind (consumer (PropertyRef c b k r)) g)"
    if "isAccess c" "set_option r \<union> insert b (insert k V) \<subseteq> W" "\<And>x. rspec A T (insert x N) W (is_new A) (g x)" for b k r g W
    using property [of r b k] that by (intro bind_new [OF rspec_mono]) (auto simp: c_def)
  show ?thesis
    unfolding r_buildReference_def c_def [symmetric] flatten
    by (intro rspec_rules use_binding property' rspec_actions) (use exit in \<open>auto simp: fresh_state_def is_jump_def is_complete_def\<close>)
qed

lemmas fresh_defs = fresh_state_def is_jump_def is_complete_def

lemma bind_new_entry:
  assumes "rspec A T N V (new_entry A) m" "\<And>e. rspec A T (insert e N) V Q (f (Some e))"
    and "\<And>s. r_inv A s \<Longrightarrow> r_failure s \<noteq> None \<Longrightarrow> Q y s" "f None = State_Monad.return y"
  shows "rspec A T N V Q (State_Monad.bind m f)"
proof (rule rspecI)
  fix s x s'
  assume run: "run_state (State_Monad.bind m f) s = (x, s')" and inv: "r_inv A s" "known A T N V s"
  obtain r t where r: "run_state m s = (r, t)" by fastforce
  note first = rspecD [OF assms(1) r inv]
  show "r_inv A s' \<and> grows s s' \<and> Q x s'"
  proof (cases r)
    case None
    then show ?thesis using first run r assms(3,4) by (auto simp: new_entry_def)
  next
    case (Some e)
    then have "known A T (insert e N) V t"
      using first known_grows [OF inv(2)] by (auto simp: known_def new_entry_def)
    then show ?thesis
      using rspecD [OF assms(2)] first run r Some grows_trans by (metis run_state_bind case_prod_conv)
  qed
qed

lemma rspec_backwards_new:
  assumes "\<And>x e N'. x \<in> set xs \<Longrightarrow> N \<subseteq> N' \<Longrightarrow> e \<in> T \<union> N' \<Longrightarrow> rspec A T N' V (new_entry A) (f x e)"
    and "entry \<in> T \<union> N" "xs \<noteq> [] \<or> entry \<in> N"
  shows "rspec A T N V (new_entry A) (r_backwards f xs entry)"
  using assms
proof (induction xs arbitrary: N entry)
  case Nil
  then show ?case by (auto simp: rspec_def known_def new_entry_def)
next
  case (Cons x xs)
  show ?case
    unfolding r_backwards.simps
  proof (rule bind_new_entry [where y = None])
    show "rspec A T N V (new_entry A) (f x entry)" using Cons.prems by auto
    show "rspec A T (insert e N) V (new_entry A) (case Some e of None \<Rightarrow> State_Monad.return None | Some entry' \<Rightarrow> r_backwards f xs entry')" for e
      using Cons.prems(1) by (simp, intro Cons.IH) auto
  qed (auto simp: new_entry_def)
qed

lemma rspec_backwards:
  assumes "\<And>x e N'. x \<in> set xs \<Longrightarrow> N \<subseteq> N' \<Longrightarrow> e \<in> T \<union> N' \<Longrightarrow> rspec A T N' V (new_entry A) (f x e)"
    and "entry \<in> T \<union> N"
  shows "rspec A T N V entry_val (r_backwards f xs entry)"
proof (cases xs)
  case Nil
  then show ?thesis using assms(2) by (simp add: rspec_return_entry)
next
  case (Cons x xs')
  show ?thesis by (intro new_entry_entry rspec_backwards_new assms) (simp_all add: Cons)
qed

lemma rspec_appendArgument:
  "target \<in> V \<Longrightarrow> entry \<in> T \<union> N \<Longrightarrow> rspec A T N V (new_entry A) (r_appendArgument target arguments e entry)"
  unfolding r_appendArgument_def
  by (cases "spread_source e", simp only: prod.case) (intro rspec_rules rspec_actions; auto simp: fresh_defs)

lemma rspec_buildOrdered:
  assumes "\<forall>c\<in>set cs. snd c \<in> V" "next \<in> N"
  shows "rspec A T N V (new_entry A) (r_buildOrdered cs next)"
  unfolding r_buildOrdered_def
  by (rule rspec_backwards_new) (use assms in \<open>auto intro!: rspec_actions\<close>)

definition receiver_val :: "node \<Rightarrow> nat option \<Rightarrow> rplan \<Rightarrow> bool" where
  "receiver_val target x s \<longleftrightarrow> slot_opt x s \<and> (isAccess target \<or> isIdentifier target \<longrightarrow> x \<noteq> None)"

lemma rspec_callReceiver: "rspec A T N V (receiver_val target) (r_callReceiver target)"
proof -
  have "rspec A T N V (receiver_val target) (some_entry (r_value e))" for e
    using rspec_value [of A T N V e]
    by (auto simp: rspec_def some_entry_def receiver_val_def slot_val_def slot_opt_def split: prod.splits)
  moreover have "rspec A T N V (receiver_val target) (State_Monad.return None)" if "\<not> isAccess target" "\<not> isIdentifier target"
    using that by (simp add: rspec_def receiver_val_def slot_opt_def)
  ultimately show ?thesis unfolding r_callReceiver_def by simp
qed

lemma bind_receiver:
  assumes "\<And>x. (isAccess target \<or> isIdentifier target \<longrightarrow> x \<noteq> None) \<Longrightarrow> rspec A T N (set_option x \<union> V) Q (f x)"
  shows "rspec A T N V Q (State_Monad.bind (r_callReceiver target) f)"
proof (rule rspecI)
  fix s x s'
  assume run: "run_state (State_Monad.bind (r_callReceiver target) f) s = (x, s')" and inv: "r_inv A s" "known A T N V s"
  obtain r t where r: "run_state (r_callReceiver target) s = (r, t)" by fastforce
  note first = rspecD [OF rspec_callReceiver r inv]
  then have "known A T N (set_option r \<union> V) t"
    using known_grows [OF inv(2)] by (auto simp: known_def receiver_val_def slot_opt_def)
  moreover have "rspec A T N (set_option r \<union> V) Q (f r)" using assms first by (simp add: receiver_val_def)
  ultimately show "r_inv A s' \<and> grows s s' \<and> Q x s'"
    using rspecD [of A T N "set_option r \<union> V" Q "f r" t x s'] first run r grows_trans by auto
qed

lemma rspec_taggedTemplate:
  "actuals \<in> V \<Longrightarrow> entry \<in> T \<union> N \<Longrightarrow> rspec A T N V target_val (r_taggedTemplate n actuals entry)"
  unfolding r_taggedTemplate_def
  by (intro rspec_rules new_target [OF rspec_operation]) (auto simp: fresh_defs)

lemma rspec_buildCallee:
  assumes "callee \<in> V" "set_option receiver \<subseteq> V" "skip \<in> T \<union> N" "entry \<in> T \<union> N"
    and "isAccess (transparent (call_target n)) \<or> isIdentifier (transparent (call_target n)) \<longrightarrow> receiver \<noteq> None"
  shows "rspec A T N V (is_new A) (r_buildCallee n callee receiver skip entry)"
proof -
  have t: "transparent (transparent m) = transparent m" for m by (rule transparent_id [OF transparent_not_wrapper])
  have access: "isAccess m \<Longrightarrow> \<not> isIdentifier m" for m by (auto simp: isAccess_def isIdentifier_def is_expr_def)
  obtain r where r: "receiver = Some r \<and> r \<in> V"
    if "isAccess (transparent (call_target n)) \<or> isIdentifier (transparent (call_target n))"
    using assms(2,5) by (cases receiver) auto
  show ?thesis
    unfolding r_buildCallee_def Let_def
    by (intro rspec_rules rspec_actions rspec_buildReference)
      (use assms r access in \<open>auto simp: t intro!: rspec_rules rspec_actions split: option.split\<close>)
qed

lemma rspec_buildCall:
  assumes "output \<in> V" "next \<in> T \<union> N" "set_option exit \<subseteq> T \<union> N"
  shows "rspec A T N V (is_new A) (r_buildCall n output next exit)"
  unfolding r_buildCall_def
  by (intro rspec_rules bind_receiver bind_entry [OF rspec_backwards] bind_target [OF rspec_taggedTemplate]
      rspec_appendArgument rspec_buildCallee)
    (use assms in \<open>auto simp: fresh_defs split: option.split\<close>)

lemma rspec_memberKey:
  "key \<in> V \<Longrightarrow> entry \<in> T \<union> N \<Longrightarrow> rspec A T N V (new_entry A) (r_memberKey name key entry)"
  unfolding r_memberKey_def by (intro rspec_rules rspec_actions) auto

lemma rspec_objectMember:
  "output \<in> V \<Longrightarrow> entry \<in> T \<union> N \<Longrightarrow> rspec A T N V (new_entry A) (r_objectMember n output p entry)"
  unfolding r_objectMember_def Let_def
  by (intro rspec_rules rspec_actions rspec_memberKey) (auto simp: fresh_defs)

lemma rspec_arrayElement:
  "output \<in> V \<Longrightarrow> entry \<in> T \<union> N \<Longrightarrow> rspec A T N V (new_entry A) (r_arrayElement output e entry)"
  unfolding r_arrayElement_def by (intro rspec_rules rspec_actions rspec_appendArgument) (auto simp: fresh_defs)

lemma rspec_buildLiteral:
  assumes "output \<in> V" "next \<in> T \<union> N"
  shows "rspec A T N V (is_new A) (r_buildLiteral n output next)"
proof -
  have object: "rspec A T N V (is_new A) (State_Monad.bind (r_backwards (r_objectMember n output) ps next)
      (\<lambda>entry. case entry of None \<Rightarrow> State_Monad.return 0 | Some e \<Rightarrow> r_operation ObjectOp output e))" for ps
  proof (cases ps)
    case Nil
    then show ?thesis using assms by (simp add: rspec_operation)
  next
    case (Cons p ps')
    show ?thesis
      by (rule bind_new_entry [OF rspec_backwards_new, where y = 0])
        (use assms in \<open>auto simp: Cons is_new_def r_inv_def intro!: rspec_objectMember rspec_operation\<close>)
  qed
  show ?thesis
    unfolding r_buildLiteral_def
    by (intro rspec_rules rspec_actions object bind_entry [OF rspec_backwards] rspec_arrayElement) (use assms in auto)
qed

section \<open>Tasks\<close>

text \<open>A task ends by defining its anchor, unless it has rejected the expression.\<close>

definition finishes :: "nat \<Rightarrow> nat set \<Rightarrow> nat set \<Rightarrow> nat set \<Rightarrow> unit planner \<Rightarrow> bool" where
  "finishes a T N V m \<longleftrightarrow>
     (\<forall>s s'. run_state m s = ((), s') \<longrightarrow> r_inv {a} s \<longrightarrow> known {a} T N V s \<longrightarrow> r_inv {} s' \<and> grows s s')"

named_theorems finishes_rules

lemma finishes_bind:
  assumes "rspec {a} T N V P m"
    and "\<And>x s. P x s \<Longrightarrow> r_inv {a} s \<Longrightarrow> known {a} T N V s \<Longrightarrow> known {a} (T' x) (N' x) (V' x) s"
    and "\<And>x. finishes a (T' x) (N' x) (V' x) (f x)"
  shows "finishes a T N V (State_Monad.bind m f)"
  unfolding finishes_def
proof (intro allI impI)
  fix s s'
  assume run: "run_state (State_Monad.bind m f) s = ((), s')" and inv: "r_inv {a} s" "known {a} T N V s"
  obtain y t where y: "run_state m s = (y, t)" by fastforce
  note first = rspecD [OF assms(1) y inv]
  have "known {a} (T' y) (N' y) (V' y) t" using assms(2) first known_grows [OF inv(2)] by blast
  with first run y assms(3) have "r_inv {} s' \<and> grows t s'" by (auto simp: finishes_def)
  then show "r_inv {} s' \<and> grows s s'" using first grows_trans by blast
qed

lemma r_inv_put_jump:
  assumes inv: "r_inv {a} s" and new: "is_new {a} x s"
  shows "r_inv {} (s\<lparr>r_states := (r_states s)[a := Some (RJump a x)]\<rparr>)"
proof -
  let ?s = "s\<lparr>r_states := (r_states s)[a := Some (RJump a x)]\<rparr>"
  have a: "0 < a" "a < nst s" using inv by (auto simp: r_inv_def)
  have ok: "state_ok ?s i st = state_ok s i st" "task_ok ?s t = task_ok s t" for i st t
    by (simp_all add: state_ok_def task_ok_def)
  have jump: "state_ok s a (RJump a x)" using new by (simp add: state_ok_def is_new_def is_complete_def)
  have "pending_ok {} ?s" if p: "pending_ok {a} s" "r_failure s = None"
    unfolding pending_ok_def
  proof (intro conjI allI impI)
    fix i assume i: "i < nst ?s"
    show "r_states ?s ! i = None \<longleftrightarrow> i \<in> {} \<union> set (anchors ?s)"
      using p(1) i by (cases "i = a") (auto simp: pending_ok_def)
    fix st assume "r_states ?s ! i = Some st" "is_jump st"
    then show "i < rnext st" using p i new by (cases "i = a") (auto simp: pending_ok_def is_new_def)
  qed (use p in \<open>auto simp: pending_ok_def\<close>)
  moreover have "state_ok ?s i st" if "i < nst ?s" "r_states ?s ! i = Some st" for i st
    using that inv jump by (cases "i = a") (auto simp: ok r_inv_def)
  ultimately show ?thesis
    using inv a unfolding r_inv_def by (simp add: ok)
qed

lemma finishes_jump: "x \<in> N \<Longrightarrow> finishes a T N V (r_jump a x)"
proof -
  assume x: "x \<in> N"
  have "r_inv {} s' \<and> grows s s'" if "run_state (r_jump a x) s = ((), s')" "r_inv {a} s" "known {a} T N V s" for s s'
  proof -
    have s': "s' = s\<lparr>r_states := (r_states s)[a := Some (RJump a x)]\<rparr>"
      using that(1) by (simp add: r_jump_def r_put_def State_Monad.update_def)
    have "is_new {a} x s" using x that(3) by (simp add: known_def)
    then show ?thesis using r_inv_put_jump [OF that(2)] by (simp add: s' grows_def)
  qed
  then show ?thesis by (simp add: finishes_def)
qed

lemma finishes_reject [finishes_rules]: "finishes a T N V (r_reject n)"
proof -
  have "r_inv {} s'" if "r_inv {a} s'" "r_failure s' \<noteq> None" for s' using that by (auto simp: r_inv_def)
  then show ?thesis
    using rspec_reject [of "{a}" T N V n] unfolding finishes_def rspec_def by blast
qed

lemma finishes_bind_new:
  "rspec {a} T N V (is_new {a}) m \<Longrightarrow> (\<And>x. finishes a T (insert x N) V (f x)) \<Longrightarrow> finishes a T N V (State_Monad.bind m f)"
  by (rule finishes_bind [where P = "is_new {a}" and T' = "\<lambda>_. T" and N' = "\<lambda>x. insert x N" and V' = "\<lambda>_. V"])
    (auto simp: known_def)

lemma finishes_bind_slot:
  "rspec {a} T N V slot_val m \<Longrightarrow> (\<And>x. finishes a T N (insert x V) (f x)) \<Longrightarrow> finishes a T N V (State_Monad.bind m f)"
  by (rule finishes_bind [where P = slot_val and T' = "\<lambda>_. T" and N' = "\<lambda>_. N" and V' = "\<lambda>x. insert x V"])
    (auto simp: known_def slot_val_def)

lemma finishes_bind_slot_opt:
  "rspec {a} T N V slot_opt m \<Longrightarrow> (\<And>x. finishes a T N (set_option x \<union> V) (f x)) \<Longrightarrow> finishes a T N V (State_Monad.bind m f)"
  by (rule finishes_bind [where P = slot_opt and T' = "\<lambda>_. T" and N' = "\<lambda>_. N" and V' = "\<lambda>x. set_option x \<union> V"])
    (auto simp: known_def slot_opt_def)

lemma finishes_bind_entry:
  "rspec {a} T N V entry_val m \<Longrightarrow> (\<And>x. finishes a (insert (or_complete x) T) N V (f x)) \<Longrightarrow>
   finishes a T N V (State_Monad.bind m f)"
  by (rule finishes_bind [where P = entry_val and T' = "\<lambda>x. insert (or_complete x) T" and N' = "\<lambda>_. N" and V' = "\<lambda>_. V"])
    (auto simp: known_def entry_val_def or_complete_def r_inv_def split: option.splits)

lemma finishes_bind_new_entry:
  "rspec {a} T N V (new_entry {a}) m \<Longrightarrow> (\<And>x. finishes a T (insert (or_complete x) N) V (f x)) \<Longrightarrow>
   finishes a T N V (State_Monad.bind m f)"
  by (rule finishes_bind [where P = "new_entry {a}" and T' = "\<lambda>_. T" and N' = "\<lambda>x. insert (or_complete x) N" and V' = "\<lambda>_. V"])
    (auto simp: known_def new_entry_def is_new_def or_complete_def r_inv_def split: option.splits)

lemma finishes_bind_actions [finishes_rules]:
  "(\<And>x. finishes a T N (insert x V) (f x)) \<Longrightarrow> finishes a T N V (State_Monad.bind (r_value e) f)"
  "fresh_state (T \<union> N) V st \<Longrightarrow> (\<And>x. finishes a T (insert x N) V (f x)) \<Longrightarrow> finishes a T N V (State_Monad.bind (r_new st) f)"
  "output \<in> V \<Longrightarrow> next \<in> T \<union> N \<Longrightarrow> set (operation_slots oper) \<subseteq> V \<Longrightarrow> (\<And>x. finishes a T (insert x N) V (f x)) \<Longrightarrow>
   finishes a T N V (State_Monad.bind (r_operation oper output next) f)"
  "source \<in> V \<Longrightarrow> output \<in> V \<Longrightarrow> next \<in> T \<union> N \<Longrightarrow> (\<And>x. finishes a T (insert x N) V (f x)) \<Longrightarrow>
   finishes a T N V (State_Monad.bind (r_copy source output next) f)"
  "v \<in> V \<Longrightarrow> next \<in> T \<union> N \<Longrightarrow> set_option exit \<subseteq> T \<union> N \<Longrightarrow> (\<And>x. finishes a T (insert x N) V (f x)) \<Longrightarrow>
   finishes a T N V (State_Monad.bind (r_build e v next exit) f)"
  by (rule finishes_bind_slot [OF rspec_value] finishes_bind_new [OF rspec_new] finishes_bind_new [OF rspec_operation]
      finishes_bind_new [OF rspec_copy] finishes_bind_new [OF rspec_build]; assumption)+

lemma finishes_bind_bind [finishes_rules]:
  "finishes a T N V (State_Monad.bind m (\<lambda>x. State_Monad.bind (g x) f)) \<Longrightarrow>
   finishes a T N V (State_Monad.bind (State_Monad.bind m g) f)"
  by simp

lemma finishes_bind_return [finishes_rules]:
  "finishes a T N V (f x) \<Longrightarrow> finishes a T N V (State_Monad.bind (State_Monad.return x) f)"
  by simp

lemma finishes_bind_if [finishes_rules]:
  "(b \<Longrightarrow> finishes a T N V (State_Monad.bind m f)) \<Longrightarrow> (\<not> b \<Longrightarrow> finishes a T N V (State_Monad.bind m' f)) \<Longrightarrow>
   finishes a T N V (State_Monad.bind (if b then m else m') f)"
  by simp

lemma finishes_bind_case_option [finishes_rules]:
  "(y = None \<Longrightarrow> finishes a T N V (State_Monad.bind m f)) \<Longrightarrow>
   (\<And>z. y = Some z \<Longrightarrow> finishes a T N V (State_Monad.bind (h z) f)) \<Longrightarrow>
   finishes a T N V (State_Monad.bind (case y of None \<Rightarrow> m | Some z \<Rightarrow> h z) f)"
  by (simp split: option.split)

lemma finishes_if [finishes_rules]:
  "(b \<Longrightarrow> finishes a T N V m) \<Longrightarrow> (\<not> b \<Longrightarrow> finishes a T N V m') \<Longrightarrow> finishes a T N V (if b then m else m')"
  by simp

lemma finishes_case_option [finishes_rules]:
  "(y = None \<Longrightarrow> finishes a T N V m) \<Longrightarrow> (\<And>z. y = Some z \<Longrightarrow> finishes a T N V (h z)) \<Longrightarrow>
   finishes a T N V (case y of None \<Rightarrow> m | Some z \<Rightarrow> h z)"
  by (simp split: option.split)

definition task_known :: "resumable_task \<Rightarrow> nat \<Rightarrow> nat set \<Rightarrow> nat set \<Rightarrow> bool" where
  "task_known t a T V \<longleftrightarrow> a = task_anchor t \<and> task_next t \<in> T \<and> task_output t \<in> V \<and> set_option (task_chainExit t) \<subseteq> T"

lemma rspec_classStage:
  assumes "output \<in> V" "entry \<in> T \<union> N"
  shows "rspec A T N V (new_entry A) (r_classStage d output stage entry)"
proof (cases stage)
  case (ElementStage m k)
  then show ?thesis
    unfolding r_classStage_def using assms by (cases k) (auto intro!: rspec_rules rspec_actions)
qed (use assms in \<open>auto simp: r_classStage_def intro!: rspec_rules rspec_actions\<close>)

lemma rspec_classDefinition:
  "v \<in> V \<Longrightarrow> rspec A T N V (\<lambda>_ _. True) (State_Monad.update (\<lambda>s. s\<lparr>r_classDefinitions := r_classDefinitions s @ [(d, v)]\<rparr>))"
  by (auto simp: rspec_def State_Monad.update_def r_inv_def known_def state_ok_def task_ok_def pending_ok_def grows_def)

lemma finishes_classExpression:
  assumes "task_known t a T V"
  shows "finishes a T N V (r_classExpression t n)"
proof -
  have plan: "rev (classDefinitionPlan d) \<noteq> []" for d by (simp add: classDefinitionPlan_def)
  show ?thesis
    unfolding r_classExpression_def Let_def
    apply (rule finishes_bind [OF rspec_classDefinition, where T' = "\<lambda>_. T" and N' = "\<lambda>_. N" and V' = "\<lambda>_. V"])
    using assms plan
    by (auto simp: task_known_def intro!: finishes_bind_new_entry [OF rspec_backwards_new] rspec_classStage finishes_jump)
qed

lemma finishes_suspension:
  assumes "task_known t a T V"
  shows "finishes a T N V (r_suspension ag t n)"
  unfolding r_suspension_def Let_def some_entry_def
  by (cases "child n ''expression''"; simp only: option.case prod.case)
    (use assms in \<open>auto simp: task_known_def fresh_defs intro!: finishes_rules finishes_jump split: option.split\<close>)

lemma finishes_conditional: "task_known t a T V \<Longrightarrow> finishes a T N V (r_conditional t n)"
  unfolding r_conditional_def
  by (auto simp: task_known_def fresh_defs intro!: finishes_rules finishes_jump)

lemma finishes_comma: "task_known t a T V \<Longrightarrow> finishes a T N V (r_comma t n)"
  unfolding r_comma_def by (auto simp: task_known_def intro!: finishes_rules finishes_jump)

lemma finishes_logical: "task_known t a T V \<Longrightarrow> finishes a T N V (r_logical oper t n)"
  unfolding r_logical_def by (auto simp: task_known_def fresh_defs intro!: finishes_rules finishes_jump)

lemma finishes_set_fresh:
  assumes "\<And>s. finishes a T N V (f s)"
  shows "finishes a T N V (do { s \<leftarrow> State_Monad.get; State_Monad.set (s\<lparr>r_fresh := g s\<rparr>); f s })"
proof -
  have fresh: "r_inv A (s\<lparr>r_fresh := i\<rparr>) = r_inv A s" "known A T N V (s\<lparr>r_fresh := i\<rparr>) = known A T N V s"
    "grows (s\<lparr>r_fresh := i\<rparr>) s' = grows s s'" for A T N V s s' i
    by (simp_all add: r_inv_def known_def is_new_def grows_def state_ok_def task_ok_def pending_ok_def)
  have "r_inv {} s' \<and> grows s s'"
    if "run_state (f s) (s\<lparr>r_fresh := g s\<rparr>) = ((), s')" "r_inv {a} s" "known {a} T N V s" for s s'
    using assms [of s] that fresh unfolding finishes_def by blast
  then show ?thesis by (simp add: finishes_def)
qed

lemma finishes_destructure:
  assumes "task_known t a T V"
  shows "finishes a T N V (r_destructure t n target)"
proof -
  let ?m = "\<lambda>s. normalizeAssignmentTarget target ([], r_fresh s)"
  let ?f = "\<lambda>s. case fst (?m s) of None \<Rightarrow> r_reject (field n ''left'')
    | Some binding \<Rightarrow> do {
        right \<leftarrow> r_value (field n ''right'');
        bind \<leftarrow> r_new (\<lambda>i. RBinding i n binding (fst (snd (?m s))) right (task_output t) (task_next t));
        entry \<leftarrow> r_build (field n ''right'') right bind None;
        r_jump (task_anchor t) entry }"
  have "r_destructure t n target = do { s \<leftarrow> State_Monad.get; State_Monad.set (s\<lparr>r_fresh := snd (snd (?m s))\<rparr>); ?f s }"
    unfolding r_destructure_def
    by (intro arg_cong2 [where f = State_Monad.bind] refl ext) (auto split: prod.split option.split)
  moreover have "finishes a T N V (?f s)" for s
    using assms by (auto simp: task_known_def fresh_defs intro!: finishes_rules finishes_jump)
  then have "finishes a T N V (do { s \<leftarrow> State_Monad.get; State_Monad.set (s\<lparr>r_fresh := snd (snd (?m s))\<rparr>); ?f s })"
    by (rule finishes_set_fresh)
  ultimately show ?thesis by (simp only:)
qed

lemma finishes_assign: "task_known t a T V \<Longrightarrow> finishes a T N V (r_assign t n)"
  unfolding r_assign_def Let_def
  by (intro finishes_rules finishes_destructure finishes_bind_new [OF rspec_buildReference])
    (auto simp: task_known_def intro!: rspec_rules rspec_actions finishes_jump)

lemma rspec_compoundRight:
  "task_known t a T V \<Longrightarrow> {old, right, combined} \<subseteq> V \<Longrightarrow> store \<in> T \<union> N \<Longrightarrow>
   rspec A T N V (is_new A) (r_compoundRight oper t n old right combined store)"
  unfolding r_compoundRight_def
  by (intro rspec_rules rspec_actions) (auto simp: task_known_def fresh_defs)

lemma task_known_mono: "task_known t a T V \<Longrightarrow> T \<subseteq> T' \<Longrightarrow> V \<subseteq> V' \<Longrightarrow> task_known t a T' V'"
  by (auto simp: task_known_def)

lemma finishes_compound:
  assumes "task_known t a T V"
  shows "finishes a T N V (r_compound oper t n)"
proof -
  have right: "rspec {a} T N' W Q (State_Monad.bind (r_compoundRight oper t n old right combined store) f)"
    if "V \<subseteq> W" "{old, right, combined} \<subseteq> W" "store \<in> T \<union> N'" "\<And>x. rspec {a} T (insert x N') W Q (f x)"
    for N' W old right combined store Q and f :: "nat \<Rightarrow> nat planner"
    using that task_known_mono [OF assms order_refl that(1)] by (intro bind_new [OF rspec_compoundRight]) auto
  show ?thesis
    unfolding r_compound_def
    by (intro finishes_bind_new [OF rspec_buildReference] rspec_rules right rspec_actions)
      (use assms in \<open>auto simp: task_known_def intro!: finishes_jump\<close>)
qed

lemma finishes_delete: "task_known t a T V \<Longrightarrow> finishes a T N V (r_delete t n)"
  unfolding r_delete_def Let_def
  by (intro finishes_rules finishes_bind_new [OF rspec_buildReference])
    (auto simp: task_known_def intro!: rspec_rules rspec_actions finishes_jump)

lemma finishes_template: "task_known t a T V \<Longrightarrow> finishes a T N V (r_template t n)"
  unfolding r_template_def
  by (intro finishes_bind_entry [OF rspec_backwards] finishes_rules)
    (auto simp: task_known_def r_templateSpan_def fresh_defs intro!: rspec_rules rspec_actions finishes_jump)

lemma finishes_bind_inputs:
  assumes "\<And>inputs. finishes a T N (set (map snd inputs) \<union> V) (f inputs)"
  shows "finishes a T N V (State_Monad.bind (r_inputs es) f)"
proof -
  have "rspec A T N V (\<lambda>inputs s. \<forall>c\<in>set inputs. snd c < nval s) (r_inputs es)" for A
  proof (induction es arbitrary: V)
    case (Cons e es)
    have ret: "rspec A T N (insert v V) (\<lambda>inputs s. \<forall>c\<in>set inputs. snd c < nval s)
        (State_Monad.bind (r_inputs es) (\<lambda>rest. State_Monad.return ((e, v) # rest)))" for v V
      by (rule rspec_bind [OF Cons.IH, where T' = "\<lambda>_. T" and N' = "\<lambda>_. N" and V' = "\<lambda>rest. set (map snd rest) \<union> insert v V"])
        (auto simp: known_def rspec_def)
    then show ?case by (auto intro: rspec_bind_actions(1))
  qed (simp add: rspec_def)
  then show ?thesis
    by (rule finishes_bind [where T' = "\<lambda>_. T" and N' = "\<lambda>_. N" and V' = "\<lambda>inputs. set (map snd inputs) \<union> V"])
      (auto simp: known_def intro: assms [simplified])
qed

lemma finishes_ordinary: "task_known t a T V \<Longrightarrow> finishes a T N V (r_ordinary t n)"
  unfolding r_ordinary_def
  by (intro finishes_rules finishes_bind_inputs finishes_bind_new_entry [OF rspec_buildOrdered])
    (auto simp: task_known_def intro!: finishes_jump)

lemma finishes_other:
  "task_known t a T V \<Longrightarrow> set_option exit \<subseteq> T \<union> N \<Longrightarrow> finishes a T N V (r_other t n exit)"
  unfolding r_other_def
  by (intro finishes_if finishes_bind_new [OF rspec_buildCall] finishes_bind_new [OF rspec_buildLiteral]
      finishes_bind_new [OF rspec_buildReference] finishes_delete finishes_template finishes_ordinary)
    (auto simp: task_known_def intro!: rspec_actions finishes_jump)

lemma finishes_binary:
  "task_known t a T V \<Longrightarrow> set_option exit \<subseteq> T \<union> N \<Longrightarrow> finishes a T N V (r_binary t n exit)"
  unfolding r_binary_def
  by (intro finishes_case_option finishes_if finishes_comma finishes_logical finishes_assign finishes_compound finishes_other)

lemma finishes_task:
  assumes "task_known t a T V"
  shows "finishes a T N V (r_task ag dec t)"
  unfolding r_task_def Let_def some_entry_def
  by (intro finishes_if finishes_rules finishes_classExpression finishes_suspension finishes_conditional finishes_binary)
    (use assms in \<open>auto simp: task_known_def intro!: finishes_jump split: if_splits option.splits\<close>)

section \<open>The loop\<close>

lemma r_inv_pop:
  assumes "r_inv {} s" "r_worklist s = t # rest"
  shows "r_inv {task_anchor t} (s\<lparr>r_worklist := rest\<rparr>)"
    and "known {task_anchor t} ({task_next t} \<union> set_option (task_chainExit t)) {} {task_output t} (s\<lparr>r_worklist := rest\<rparr>)"
  using assms by (auto simp: r_inv_def known_def state_ok_def task_ok_def pending_ok_def)

lemma r_run_inv:
  "r_inv {} s \<Longrightarrow> r_inv {} (r_run fuel ag dec s) \<and> grows s (r_run fuel ag dec s)"
proof (induction fuel arbitrary: s)
  case (Suc fuel)
  show ?case
  proof (cases "r_worklist s")
    case (Cons t rest)
    let ?s = "s\<lparr>r_worklist := rest\<rparr>" and ?s' = "snd (run_state (r_task ag dec t) (s\<lparr>r_worklist := rest\<rparr>))"
    have "finishes (task_anchor t) ({task_next t} \<union> set_option (task_chainExit t)) {} {task_output t} (r_task ag dec t)"
      by (rule finishes_task) (auto simp: task_known_def)
    then have step: "r_inv {} ?s' \<and> grows ?s ?s'"
      using r_inv_pop [OF Suc.prems Cons] unfolding finishes_def by (metis (full_types) old.unit.exhaust prod.collapse)
    have "grows s ?s'" using step by (simp add: grows_def)
    then show ?thesis using Suc.IH [of ?s'] Suc.prems step Cons grows_trans by auto
  qed (use Suc.prems in auto)
qed simp

lemma r_start_inv:
  assumes "run_state (r_start e) (r_initial fresh) = (entry, s)"
  shows "r_inv {} s \<and> entry < nst s \<and> r_failure s = None"
  using assms
  by (auto simp: r_start_def r_initial_def r_build_def r_new_def r_put_def r_value_def r_reserve_def State_Monad.update_def
      r_inv_def state_ok_def task_ok_def pending_ok_def is_jump_def is_complete_def less_Suc_eq)

section \<open>Compaction\<close>

text \<open>A finished list of states: every state under its own identifier, targets in range, jumps upwards.\<close>

definition planned :: "nat \<Rightarrow> resumable_state list \<Rightarrow> bool" where
  "planned nv states \<longleftrightarrow>
     (\<forall>i<length states. rid (states ! i) = i \<and> (\<forall>t\<in>set (state_targets (states ! i)). t < length states) \<and>
        (\<forall>v\<in>set (state_slots (states ! i)). v < nv) \<and> (is_complete (states ! i) \<longrightarrow> i = 0) \<and>
        (is_jump (states ! i) \<longrightarrow> i < rnext (states ! i)))"

inductive forwards :: "resumable_state list \<Rightarrow> nat \<Rightarrow> nat \<Rightarrow> bool" for states where
  forwards_here: "i < length states \<Longrightarrow> \<not> is_jump (states ! i) \<Longrightarrow> forwards states i i"
| forwards_jump: "i < length states \<Longrightarrow> is_jump (states ! i) \<Longrightarrow> forwards states (rnext (states ! i)) t \<Longrightarrow> forwards states i t"

lemma forwards_target: "forwards states i t \<Longrightarrow> t < length states \<and> \<not> is_jump (states ! t)"
  by (induction rule: forwards.induct) auto

definition resolved_ok :: "resumable_state list \<Rightarrow> (nat \<times> nat) list \<Rightarrow> bool" where
  "resolved_ok states resolved \<longleftrightarrow> (\<forall>(a, t)\<in>set resolved. forwards states a t)"

lemma jump_targets: "is_jump st \<Longrightarrow> state_targets st = [rnext st]"
  by (cases st) (auto simp: is_jump_def)

lemma resolve_walk_forwards:
  assumes "planned nv states" "resolved_ok states resolved"
  shows "i < length states \<Longrightarrow> length states - i \<le> fuel \<Longrightarrow>
    (\<And>a t. a \<in> set path \<Longrightarrow> forwards states i t \<Longrightarrow> forwards states a t) \<Longrightarrow>
    (case resolve_walk fuel states resolved i path of (current, path') \<Rightarrow>
       (let t = (case map_of resolved current of Some t \<Rightarrow> t | None \<Rightarrow> current)
        in forwards states i t \<and> (\<forall>a\<in>set path'. forwards states a t)))"
proof (induction fuel arbitrary: i path)
  case 0
  then show ?case by simp
next
  case (Suc fuel)
  show ?case
  proof (cases "map_of resolved i = None \<and> is_jump (states ! i)")
    case True
    let ?j = "rnext (states ! i)"
    have j: "i < ?j" "?j < length states"
      using assms(1) Suc.prems(1) True by (auto simp: planned_def jump_targets)
    have step: "forwards states ?j t \<Longrightarrow> forwards states i t" for t
      using Suc.prems(1) True by (auto intro: forwards_jump)
    have "case resolve_walk fuel states resolved ?j (path @ [i]) of (current, path') \<Rightarrow>
       (let t = (case map_of resolved current of Some t \<Rightarrow> t | None \<Rightarrow> current)
        in forwards states ?j t \<and> (\<forall>a\<in>set path'. forwards states a t))"
      by (rule Suc.IH) (use j Suc.prems step in auto)
    then show ?thesis
      using True Suc.prems(1) step by (auto simp: Let_def split: prod.splits)
  next
    case False
    have "forwards states i (case map_of resolved i of Some t \<Rightarrow> t | None \<Rightarrow> i)"
      using False assms(2) Suc.prems(1)
      by (cases "map_of resolved i") (auto simp: resolved_ok_def forwards_here dest!: map_of_SomeD)
    then show ?thesis using False Suc.prems by (auto simp: Let_def)
  qed
qed

lemma r_resolve_forwards:
  assumes "planned nv states" "resolved_ok states resolved" "i < length states" "r_resolve states resolved i = (t, resolved')"
  shows "forwards states i t \<and> resolved_ok states resolved'"
proof -
  have "case resolve_walk (length states) states resolved i [] of (current, path') \<Rightarrow>
       (let t = (case map_of resolved current of Some t \<Rightarrow> t | None \<Rightarrow> current)
        in forwards states i t \<and> (\<forall>a\<in>set path'. forwards states a t))"
    using assms by (intro resolve_walk_forwards) auto
  then show ?thesis using assms(2,4) by (auto simp: r_resolve_def Let_def resolved_ok_def split: prod.splits)
qed

definition retained :: "resumable_state list \<Rightarrow> resumable_state list" where
  "retained states = filter (\<lambda>st. \<not> is_jump st) states"

text \<open>An edge of the published graph leads where the planned edge leads after its jumps.\<close>

definition edge_published :: "resumable_state list \<Rightarrow> nat \<Rightarrow> nat \<Rightarrow> bool" where
  "edge_published states t t' \<longleftrightarrow>
     t' < length (retained states) \<and> (\<exists>u. forwards states t u \<and> retained states ! t' = states ! u)"

lemma retained_ids_lookup:
  assumes "planned nv states" "t < length states" "\<not> is_jump (states ! t)"
  shows "\<exists>j. map_of (retained_ids states) t = Some j \<and> j < length (retained states) \<and> retained states ! j = states ! t"
proof -
  have ids: "map rid states = [0..<length states]"
    using assms(1) by (intro nth_equalityI) (auto simp: planned_def)
  have "distinct (map rid (retained states))"
  proof -
    have "distinct (map rid (filter P states))" for P
      using ids by (metis distinct_map_filter distinct_upt)
    then show ?thesis by (simp add: retained_def)
  qed
  moreover have "map fst (retained_ids states) = map rid (retained states)"
    by (intro nth_equalityI) (auto simp: retained_ids_def retained_def nth_enumerate_eq)
  ultimately have dist: "distinct (map fst (retained_ids states))" by simp
  have "states ! t \<in> set (retained states)" using assms(2,3) by (auto simp: retained_def)
  then obtain j where j: "j < length (retained states)" "retained states ! j = states ! t" by (auto simp: in_set_conv_nth)
  have "(j, states ! t) \<in> set (enumerate 0 (retained states))" using j by (simp add: in_set_enumerate_eq)
  then have "(\<lambda>(id, st). (rid st, id)) (j, states ! t) \<in> set (retained_ids states)"
    unfolding retained_ids_def retained_def [symmetric] set_map by (rule imageI)
  then have "(t, j) \<in> set (retained_ids states)" using assms(1,2) by (simp add: planned_def)
  then show ?thesis using dist j by (auto simp: map_of_eq_Some_iff)
qed

lemma r_target_published:
  assumes "planned nv states" "resolved_ok states resolved" "i < length states" "r_target states resolved i = (t, resolved')"
  shows "edge_published states i t \<and> resolved_ok states resolved'"
proof -
  obtain u where u: "r_resolve states resolved i = (u, resolved')"
    using assms(4) by (auto simp: r_target_def split: prod.splits)
  note fw = r_resolve_forwards [OF assms(1-3) u]
  then obtain j where "map_of (retained_ids states) u = Some j" "j < length (retained states)" "retained states ! j = states ! u"
    using retained_ids_lookup [OF assms(1)] forwards_target by blast
  then show ?thesis using fw assms(4) u by (auto simp: r_target_def edge_published_def)
qed

text \<open>The published form of a planned state.\<close>

definition state_published :: "resumable_state list \<Rightarrow> nat \<Rightarrow> resumable_state \<Rightarrow> resumable_state \<Rightarrow> bool" where
  "state_published states index st st' \<longleftrightarrow>
     rid st' = index \<and> \<not> is_jump st' \<and> is_complete st' = is_complete st \<and> state_slots st' = state_slots st \<and>
     list_all2 (edge_published states) (state_targets st) (state_targets st')"

lemma with_next_id:
  "\<not> is_jump st \<Longrightarrow> \<not> is_complete st \<Longrightarrow> (\<nexists>i v m y n. st = RBranch i v m y n) \<Longrightarrow>
   rid (with_next t (with_id index st)) = index \<and> \<not> is_jump (with_next t (with_id index st)) \<and>
   \<not> is_complete (with_next t (with_id index st)) \<and> state_slots (with_next t (with_id index st)) = state_slots st \<and>
   state_targets (with_next t (with_id index st)) = [t] \<and> state_targets st = [rnext st]"
  by (cases st) (auto simp: is_jump_def is_complete_def with_next_def with_id_def)

lemma compact_state_published:
  assumes "planned nv states" "resolved_ok states resolved" "\<not> is_jump st" "\<forall>t\<in>set (state_targets st). t < length states"
    and "compact_state states resolved index st = (st', resolved')"
  shows "state_published states index st st' \<and> resolved_ok states resolved'"
proof (cases "is_complete st \<or> (\<exists>i v m y n. st = RBranch i v m y n)")
  case True
  then consider (complete) i v where "st = RComplete i v" | (branch) i v m y n where "st = RBranch i v m y n"
    by (auto simp: is_complete_def split: resumable_state.splits)
  then show ?thesis
  proof cases
    case complete
    then show ?thesis using assms by (auto simp: compact_state_def state_published_def is_jump_def is_complete_def)
  next
    case branch
    obtain y' r1 where y: "r_target states resolved y = (y', r1)" by fastforce
    obtain n' r2 where n: "r_target states r1 n = (n', r2)" by fastforce
    have "edge_published states y y' \<and> resolved_ok states r1"
      using r_target_published [OF assms(1,2) _ y] assms(4) branch by simp
    moreover from this have "edge_published states n n' \<and> resolved_ok states r2"
      using r_target_published [OF assms(1) _ _ n] assms(4) branch by simp
    ultimately show ?thesis
      using assms(5) branch y n by (auto simp: compact_state_def state_published_def is_jump_def is_complete_def)
  qed
next
  case False
  then have nc: "\<not> is_complete st" and nb: "\<nexists>i v m y n. st = RBranch i v m y n" by blast+
  obtain t r where t: "r_target states resolved (rnext st) = (t, r)" by fastforce
  have st': "st' = with_next t (with_id index st)" "resolved' = r"
    using assms(5) t nc nb by (cases st; simp add: compact_state_def is_complete_def)+
  have "edge_published states (rnext st) t \<and> resolved_ok states r"
    using r_target_published [OF assms(1,2) _ t] assms(4) with_next_id [OF assms(3) nc nb] by simp
  then show ?thesis using st' with_next_id [OF assms(3) nc nb] nc by (simp add: state_published_def)
qed

lemma compact_states_published:
  assumes "planned nv states"
  shows "resolved_ok states resolved \<Longrightarrow>
    \<forall>(i, st)\<in>set items. \<not> is_jump st \<and> (\<forall>t\<in>set (state_targets st). t < length states) \<Longrightarrow>
    compact_states states resolved items = (sts, resolved') \<Longrightarrow>
    list_all2 (\<lambda>(i, st) st'. state_published states i st st') items sts \<and> resolved_ok states resolved'"
proof (induction items arbitrary: resolved sts resolved')
  case (Cons item items)
  obtain i st where item: "item = (i, st)" by fastforce
  obtain st' r1 where 1: "compact_state states resolved i st = (st', r1)" by fastforce
  obtain sts' r2 where 2: "compact_states states r1 items = (sts', r2)" by fastforce
  have "state_published states i st st' \<and> resolved_ok states r1"
    using compact_state_published [OF assms Cons.prems(1) _ _ 1] Cons.prems(2) item by simp
  moreover from this have "list_all2 (\<lambda>(i, st) st'. state_published states i st st') items sts' \<and> resolved_ok states r2"
    using Cons.IH [OF _ _ 2] Cons.prems(2) by simp
  ultimately show ?case using Cons.prems(3) item 1 2 by auto
qed simp

section \<open>The published graph\<close>

text \<open>
  A well-formed graph: state 0 completes with the result and no other state does, states carry their
  position as identifier, none forwards, and all targets and value slots exist.
\<close>

definition graph_ok :: "resumable_graph \<Rightarrow> bool" where
  "graph_ok g \<longleftrightarrow>
     graph_entry g < length (graph_states g) \<and> graph_result g < length (graph_values g) \<and>
     graph_states g ! 0 = RComplete 0 (graph_result g) \<and>
     (\<forall>i<length (graph_states g). let st = graph_states g ! i in
        rid st = i \<and> \<not> is_jump st \<and> (is_complete st \<longrightarrow> i = 0) \<and>
        (\<forall>t\<in>set (state_targets st). t < length (graph_states g)) \<and>
        (\<forall>v\<in>set (state_slots st). v < length (graph_values g))) \<and>
     (\<forall>c\<in>set (graph_classDefinitions g). snd c < length (graph_values g))"

lemma retained_zero: "states \<noteq> [] \<Longrightarrow> \<not> is_jump (states ! 0) \<Longrightarrow> retained states ! 0 = states ! 0 \<and> 0 < length (retained states)"
  by (cases states) (auto simp: retained_def)

lemma publish_ok:
  assumes inv: "r_inv {} s" "r_failure s = None" "r_worklist s = []" and entry: "entry < nst s"
  shows "graph_ok (r_publish s entry)"
proof -
  define states where "states = map the (r_states s)"
  have some: "r_states s ! i = Some (states ! i)" if "i < nst s" for i
    using inv that by (auto simp: states_def r_inv_def pending_ok_def)
  have len: "length states = nst s" by (simp add: states_def)
  have pl: "planned (nval s) states"
    unfolding planned_def len using inv some by (auto simp: r_inv_def state_ok_def pending_ok_def)
  have zero: "states ! 0 = RComplete 0 0" "states \<noteq> []"
    using inv some [of 0] len by (auto simp: r_inv_def)
  obtain sts resolved where sts: "compact_states states [] (enumerate 0 (retained states)) = (sts, resolved)" by fastforce
  have mem: "\<exists>i<length states. st = states ! i \<and> \<not> is_jump st" if "st \<in> set (retained states)" for st
    using that by (auto simp: retained_def in_set_conv_nth)
  have targets: "\<forall>(i, st)\<in>set (enumerate 0 (retained states)). \<not> is_jump st \<and> (\<forall>t\<in>set (state_targets st). t < length states)"
  proof (rule ballI, clarify)
    fix i st
    assume "(i, st) \<in> set (enumerate 0 (retained states))"
    then have "st \<in> set (retained states)" by (auto simp: in_set_enumerate_eq)
    then obtain k where "k < length states" "st = states ! k" "\<not> is_jump st" using mem by blast
    then show "\<not> is_jump st \<and> (\<forall>t\<in>set (state_targets st). t < length states)" using pl by (simp add: planned_def)
  qed
  have pub: "list_all2 (\<lambda>(i, st) st'. state_published states i st st') (enumerate 0 (retained states)) sts" "resolved_ok states resolved"
    using compact_states_published [OF pl _ targets sts] by (simp_all add: resolved_ok_def)
  have length: "length sts = length (retained states)" using list_all2_lengthD [OF pub(1)] by simp
  have nth: "state_published states i (retained states ! i) (sts ! i)" if "i < length sts" for i
    using list_all2_nthD [OF pub(1), of i] that length by (simp add: nth_enumerate_eq)
  obtain e r where e: "r_target states resolved entry = (e, r)" by fastforce
  have entry_ok: "e < length sts"
    using r_target_published [OF pl pub(2) _ e] entry len length by (auto simp: edge_published_def)
  have graph: "r_publish s entry = \<lparr>graph_entry = e, graph_states = sts, graph_values = r_values s, graph_result = 0,
      graph_classDefinitions = r_classDefinitions s\<rparr>"
    using sts e by (simp add: r_publish_def states_def [symmetric] retained_def)
  have state: "rid (sts ! i) = i \<and> \<not> is_jump (sts ! i) \<and> (is_complete (sts ! i) \<longrightarrow> i = 0) \<and>
      (\<forall>t\<in>set (state_targets (sts ! i)). t < length sts) \<and> (\<forall>v\<in>set (state_slots (sts ! i)). v < nval s)"
    if i: "i < length sts" for i
  proof -
    obtain k where k: "k < length states" "retained states ! i = states ! k" using mem [of "retained states ! i"] i length by auto
    have "is_complete (states ! k) \<Longrightarrow> i = 0"
    proof -
      assume "is_complete (states ! k)"
      then have "k = 0" using pl k(1) by (simp add: planned_def)
      moreover have "distinct (retained states)"
      proof -
        have "map rid states = [0..<length states]" using pl by (intro nth_equalityI) (auto simp: planned_def)
        then have "distinct states" by (metis distinct_map distinct_upt)
        then show ?thesis by (simp add: retained_def)
      qed
      ultimately show "i = 0"
        using k(2) i length zero retained_zero [of states] nth_eq_iff_index_eq [of "retained states" i 0]
        by (auto simp: is_jump_def)
    qed
    moreover have "\<forall>t\<in>set (state_targets (sts ! i)). t < length sts"
      using nth [OF i] length by (auto simp: state_published_def list_all2_conv_all_nth in_set_conv_nth edge_published_def)
    ultimately show ?thesis using nth [OF i] pl k by (auto simp: state_published_def planned_def)
  qed
  have "sts ! 0 = RComplete 0 0"
  proof -
    have z: "0 < length sts" "retained states ! 0 = RComplete 0 0"
      using retained_zero [of states] zero length by (auto simp: is_jump_def)
    then have "is_complete (sts ! 0)" "rid (sts ! 0) = 0" "state_slots (sts ! 0) = [0]"
      using nth [OF z(1)] by (auto simp: state_published_def is_complete_def)
    then show ?thesis by (cases "sts ! 0") (auto simp: is_complete_def)
  qed
  then show ?thesis using entry_ok state inv(1) by (auto simp: graph graph_ok_def r_inv_def Let_def)
qed

lemma planResumableExpression_ok:
  "case fst (planResumableExpression env asyncGenerator expression fresh) of
     PlanGraph g \<Rightarrow> graph_ok g
   | PlanUnsupported n \<Rightarrow> True
   | PlanThrows \<Rightarrow> False
   | PlanOutOfFuel \<Rightarrow> False"
proof -
  obtain entry s0 where start: "run_state (r_start expression) (r_initial fresh) = (entry, s0)" by fastforce
  define s where "s = r_run (task_cost expression) asyncGenerator (is_decomposed (decomposed_map env expression)) s0"
  have inv: "r_inv {} s" "entry < nst s"
    using r_start_inv [OF start] r_run_inv [of s0] by (auto simp: s_def grows_def intro: order_less_le_trans)
  have thrown: "\<not> r_thrown s" using inv(1) by (simp add: r_inv_def)
  have drained: "r_worklist s = [] \<or> r_failure s \<noteq> None \<or> r_thrown s"
    using r_run_drains [of s0 "task_cost expression"] r_start_cost [of expression fresh] start by (auto simp: s_def Let_def)
  have plan: "fst (planResumableExpression env asyncGenerator expression fresh) =
      (case r_failure s of Some n \<Rightarrow> PlanUnsupported n
       | None \<Rightarrow> if r_worklist s \<noteq> [] then PlanOutOfFuel else if None \<in> set (r_states s) then PlanThrows
                else PlanGraph (r_publish s entry))"
    unfolding planResumableExpression_def start prod.case Let_def s_def [symmetric] using thrown by simp
  show ?thesis
  proof (cases "r_failure s")
    case None
    then have w: "r_worklist s = []" using drained thrown by simp
    then have "None \<notin> set (r_states s)" using inv(1) None by (auto simp: r_inv_def pending_ok_def in_set_conv_nth)
    then show ?thesis using plan None w publish_ok [OF inv(1) None w inv(2)] by simp
  qed (simp add: plan)
qed

text \<open>C7 On every expression, \<open>planResumableExpression\<close> returns without throwing, either the node it
  cannot lower or a well-formed graph: identifiers are positions, every target and value slot
  exists, no scheduling anchor is left, and exactly state 0 completes, with the expression's result.\<close>

theorem planResumableExpression_wf:
  "case fst (planResumableExpression env asyncGenerator expression fresh) of
     PlanGraph g \<Rightarrow> graph_ok g
   | PlanUnsupported n \<Rightarrow> True
   | PlanThrows \<Rightarrow> False
   | PlanOutOfFuel \<Rightarrow> False"
  by (rule planResumableExpression_ok)

section \<open>Marking\<close>

definition marked :: "ast_env \<Rightarrow> node \<Rightarrow> bool" where
  "marked env n \<longleftrightarrow> (\<exists>d\<in>evaluated_by n. self_mark env d)"

lemma marked_unfold: "marked env n \<longleftrightarrow> self_mark env n \<or> (\<exists>c\<in>set (definitionEvaluationChildren n). marked env c)"
  unfolding marked_def by (subst reach_from_unfold) blast

fun stack_ok :: "node set \<Rightarrow> (node \<times> bool) list \<Rightarrow> bool" where
  "stack_ok D [] = True"
| "stack_ok D ((n, expanded) # w) = ((expanded \<longrightarrow> set (definitionEvaluationChildren n) \<subseteq> D) \<and> stack_ok (insert n D) w)"

lemma stack_ok_mono: "stack_ok D w \<Longrightarrow> D \<subseteq> D' \<Longrightarrow> stack_ok D' w"
proof (induction D w arbitrary: D' rule: stack_ok.induct)
  case (2 D n expanded w)
  then show ?case using 2(1) [of "insert n D'"] by auto
qed simp

lemma stack_ok_children: "stack_ok D (map (\<lambda>c. (c, False)) cs @ w) = stack_ok (set cs \<union> D) w"
  by (induction cs arbitrary: D) auto

definition marks_ok :: "ast_env \<Rightarrow> (node \<times> bool) list \<Rightarrow> bool" where
  "marks_ok env m \<longleftrightarrow> (\<forall>(n, b)\<in>set m. b = marked env n)"

lemma marks_lookup: "marks_ok env m \<Longrightarrow> n \<in> fst ` set m \<Longrightarrow> map_of m n = Some (marked env n)"
proof -
  assume ok: "marks_ok env m" and "n \<in> fst ` set m"
  then obtain b where b: "map_of m n = Some b" by (metis map_of_eq_None_iff not_None_eq)
  then show ?thesis using ok map_of_SomeD [OF b] by (auto simp: marks_ok_def)
qed

lemma mark_loop_ok:
  "stack_ok (fst ` set m) w \<Longrightarrow> marks_ok env m \<Longrightarrow>
   marks_ok env (mark_loop env w m) \<and> fst ` set m \<subseteq> fst ` set (mark_loop env w m) \<and>
   (\<forall>(n, e)\<in>set w. (if e then {n} else evaluated_by n) \<subseteq> fst ` set (mark_loop env w m))"
proof (induction env w m rule: mark_loop.induct)
  case (2 env n work m)
  let ?w = "rev (map (\<lambda>c. (c, False)) (definitionEvaluationChildren n)) @ (n, True) # work"
  have w: "?w = map (\<lambda>c. (c, False)) (rev (definitionEvaluationChildren n)) @ (n, True) # work" by (simp add: rev_map)
  have "stack_ok (fst ` set m) ?w"
    unfolding w stack_ok_children using 2(2) by (auto elim: stack_ok_mono)
  note IH = 2(1) [OF this 2(3)]
  have "evaluated_by n \<subseteq> fst ` set (mark_loop env ?w m)"
  proof -
    have "n \<in> fst ` set (mark_loop env ?w m)" using IH by auto
    moreover have "evaluated_by c \<subseteq> fst ` set (mark_loop env ?w m)" if "c \<in> set (definitionEvaluationChildren n)" for c
    proof -
      have "(c, False) \<in> set ?w" using that by simp
      with IH have "case (c, False) of (n, e) \<Rightarrow> (if e then {n} else evaluated_by n) \<subseteq> fst ` set (mark_loop env ?w m)"
        by (meson bspec)
      then show ?thesis by (simp only: prod.case if_False)
    qed
    ultimately show ?thesis by (subst reach_from_unfold) blast
  qed
  then show ?case using IH by auto
next
  case (3 env n work m)
  let ?b = "self_mark env n \<or> (\<exists>c\<in>set (definitionEvaluationChildren n). map_of m c = Some True)"
  have "map_of m c = Some (marked env c)" if "c \<in> set (definitionEvaluationChildren n)" for c
    using 3(2) that by (intro marks_lookup [OF 3(3)]) (simp add: subset_iff)
  then have "?b = marked env n" by (auto simp: marked_unfold [of env n])
  then have "marks_ok env ((n, ?b) # m)" using 3(3) by (simp add: marks_ok_def)
  moreover have "stack_ok (fst ` set ((n, ?b) # m)) work" using 3(2) by simp
  ultimately show ?case using 3(1) by auto
qed auto

text \<open>C26 The marking loop of \<open>planResumableExpression\<close> terminates and marks a node that evaluating the
  expression evaluates exactly when evaluating that node meets a suspension, an optional chain, a
  tail call or a call through a transparent wrapper: the bottom-up marks agree with their definition
  over all evaluated descendants.\<close>

theorem decomposed_map_correct:
  "{n \<in> evaluated_by expression. is_decomposed (decomposed_map env expression) n} =
   {n \<in> evaluated_by expression. \<exists>d\<in>evaluated_by n. self_mark env d}"
proof -
  let ?m = "mark_loop env [(expression, False)] []"
  have "stack_ok (fst ` set []) [(expression, False)]" "marks_ok env []" by (simp_all add: marks_ok_def)
  note ok = mark_loop_ok [OF this]
  then have marks: "marks_ok env ?m" and sub: "evaluated_by expression \<subseteq> fst ` set ?m" by simp_all
  have "is_decomposed (decomposed_map env expression) n \<longleftrightarrow> (\<exists>d\<in>evaluated_by n. self_mark env d)"
    if "n \<in> evaluated_by expression" for n
    using marks_lookup [OF marks subsetD [OF sub that]]
    by (simp add: is_decomposed_def decomposed_map_def marked_def)
  then show ?thesis by blast
qed

end
