(* ===== verification/Async_Cfg.thy ===== *)
theory Async_Cfg
  imports Async_Ir Resumable_Expression "HOL-Library.AList"
begin

text \<open>
  The control-flow planner of resumable functions (\<open>src/src/emit/async-cfg.ts\<close>). A target
  \<open>{kind: "state", id}\<close> is its identifier; \<open>undefined\<close> and \<open>null\<close> are \<open>None\<close>. The planner's local
  variables are the fields of \<open>bstate\<close>, threaded by the state monad, and every closure of the planner
  is a definition. \<open>buildBindingName\<close> and the statement jobs are the only recursive knots; they take
  fuel and record its end in \<open>b_exhausted\<close>. \<open>b_thrown\<close> records an exception of the planner itself.
  \<open>b_iterationSlot\<close> is the local \<open>bindingValueSlot\<close> of the innermost \<open>buildIteratorLoop\<close>, which its
  closure \<open>buildIteration\<close> assigns.
\<close>

section \<open>The graph\<close>

datatype staged_expression = StagedSync node nat | StagedResult node nat

datatype binding_assignment_target =
    PropertyTarget node staged_expression
  | ElementTarget node staged_expression staged_expression

datatype rest_exclusion = ExcludeName node | ExcludeValue nat

datatype binding_source = ResultSource nat | ExceptionSource node

datatype (plugins only: code size) binding_operation =
    SourceOp binding_source nat bool
  | CheckOp nat
  | BindingKeyOp staged_expression nat
  | PropertyOp nat nat "node option" "nat option" bool
  | IteratorOpenOp nat nat
  | IteratorStepOp nat "nat option"
  | IteratorRestOp nat "nat option"
  | ObjectRestOp nat nat "rest_exclusion list"
  | DefaultTestOp nat nat
  | DefaultApplyOp nat nat
  | AssignOp node "binding_assignment_target option" nat bool
  | ReleaseOp nat

datatype completion_route = ReturnRoute "nat option" | ThrowRoute

datatype complete_mode = TruthyBranch | NullishBranch | TriBranch

record expression_branch =
  branch_kind :: complete_mode
  branch_truthy :: nat
  branch_falsy :: nat
  branch_nullish :: "nat option"

datatype close_completion = CloseNormal | CloseReturn | CloseThrow

text \<open>
  \<open>CIteratorInit\<close>, \<open>CIteratorNext\<close> and \<open>CIteratorClose\<close> carry the flag that selects the
  \<open>async-iterator\<close> kinds; a \<open>finally-enter\<close> state has a normal target exactly for the normal completion.
\<close>

datatype (plugins only: code size) cfg_core =
    CModuleExport node nat nat
  | CResumable resumable_state "(node \<times> nat) list" bool "nat list" "(nat \<times> nat) list" nat "nat option"
  | CSync node nat
  | CScopeEnter bool "node list" "node list" nat
  | CScopeClone "node list" nat
  | CObjectScopeEnter nat nat nat
  | CEnvironmentExit nat nat
  | CBranch node nat nat
  | CIteratorInit bool node node "(node \<times> node) list" nat "nat option" nat
  | CIteratorNext bool node node "(node \<times> node) list" nat nat nat nat
  | CIteratorClose bool nat close_completion "nat option"
  | CCompletion completion_edge
  | CResourceEnter nat nat
  | CResourceDispose nat nat bool nat
  | CSwitchDispatch node nat "(node option \<times> nat) list" nat
  | CSwitchCompare node node nat "nat option" nat nat bool
  | CCatchBind "node option" nat
  | CBindingInit node nat nat
  | CBindingOp binding_operation nat
  | CThrowRoute node nat
  | CFinallyEnter nat nat "nat option"
  | CFinallyExit nat "nat option"
  | CFinallyReturnEnter nat nat
  | CReturnRoute completion_edge nat
  | CExpressionSync node nat nat
  | CExpressionComplete node "nat option" "node option" "completion_route option" "expression_branch option" "nat option" "nat option"

record cfg_state =
  cs_id :: nat
  cs_core :: cfg_core
  cs_exception :: "nat option"

record cfg_graph =
  cfg_entry :: nat
  cfg_states :: "cfg_state list"
  cfg_declarations :: "node list"
  cfg_bindingIdentifiers :: "node list"
  cfg_awaitCount :: nat
  cfg_loopAwaitDepth :: nat
  cfg_finallyCount :: nat
  cfg_iteratorCount :: nat
  cfg_asyncIteratorCount :: nat
  cfg_bindingValueCount :: nat
  cfg_resourceScopes :: "(node list \<times> bool) list"
  cfg_expressionSyncs :: "node list"
  cfg_expressionResults :: "node list"
  cfg_operationResultSlots :: "nat set"

section \<open>Options and context\<close>

datatype cfg_suspension = AsyncFunctions | GeneratorFunctions | AsyncGeneratorFunctions

text \<open>
  The options of the planner, its \<open>body\<close> argument, and what it reads of the TypeScript package besides
  the tree: parent chains, source positions and the two parenthesizers of \<open>ts.factory\<close>, which return
  an operand or the operand in parentheses.
\<close>

record cfg_options =
  retainedSourceEnvironments :: bool
  suspensionKind :: cfg_suspension
  instantiatedRoot :: bool
  isModuleDefaultClass :: "node \<Rightarrow> bool"
  isSupportedNestedFunction :: "node \<Rightarrow> bool"
  isSupportedNestedClass :: "node \<Rightarrow> bool"
  root_body :: node
  syntax_env :: ast_env
  node_pos :: "node \<Rightarrow> int"
  node_end :: "node \<Rightarrow> int"
  factory_prefixOperand :: "node \<Rightarrow> node"
  factory_statementExpression :: "node \<Rightarrow> node"

definition generator_like :: "cfg_options \<Rightarrow> bool" where
  "generator_like opts \<longleftrightarrow> suspensionKind opts = GeneratorFunctions \<or> suspensionKind opts = AsyncGeneratorFunctions"

record build_context =
  ctx_loop :: "(nat \<times> nat) option"
  ctx_break :: "nat option"
  ctx_labels :: "(string \<times> (nat \<times> nat option)) list"
  ctx_exception :: "nat option"
  ctx_return :: "nat option"

section \<open>The planner state\<close>

record bstate =
  b_states :: "cfg_state option list"
  b_declarations :: "node list"
  b_bindingIdentifiers :: "node list"
  b_resourceScopes :: "(node list \<times> bool) list"
  b_resourceBindings :: "(node \<times> nat) list"
  b_supported :: bool
  b_awaitCount :: nat
  b_loopAwaitDepth :: nat
  b_currentLoopDepth :: nat
  b_finallyCount :: nat
  b_iteratorCount :: nat
  b_asyncIteratorCount :: nat
  b_bindingValueCount :: nat
  b_expressionSyncs :: "node list"
  b_expressionSyncSlots :: "(node \<times> nat) list"
  b_expressionResults :: "node list"
  b_operationResultSlots :: "nat set"
  b_bindingAssignmentTargets :: "(node \<times> binding_assignment_target option) list"
  b_retainedScopeOwners :: "node list"
  b_retainedSwitchDiscriminators :: "(node \<times> nat) list"
  b_iterationSlot :: "nat option"
  b_fresh :: nat
  b_thrown :: bool
  b_exhausted :: bool

type_synonym 'a builder = "(bstate, 'a) state"

definition b_initial :: "nat \<Rightarrow> bstate" where
  "b_initial fresh = \<lparr>b_states = [], b_declarations = [], b_bindingIdentifiers = [], b_resourceScopes = [],
     b_resourceBindings = [], b_supported = True, b_awaitCount = 0, b_loopAwaitDepth = 0, b_currentLoopDepth = 0,
     b_finallyCount = 0, b_iteratorCount = 0, b_asyncIteratorCount = 0, b_bindingValueCount = 0,
     b_expressionSyncs = [], b_expressionSyncSlots = [], b_expressionResults = [], b_operationResultSlots = {},
     b_bindingAssignmentTargets = [], b_retainedScopeOwners = [], b_retainedSwitchDiscriminators = [],
     b_iterationSlot = None, b_fresh = fresh, b_thrown = False, b_exhausted = False\<rparr>"

text \<open>\<open>s.f\<close> read as an action, and an assignment to fields.\<close>

definition b_read :: "(bstate \<Rightarrow> 'a) \<Rightarrow> 'a builder" where
  "b_read f = do { s \<leftarrow> State_Monad.get; State_Monad.return (f s) }"

definition b_reserve :: "nat builder" where
  "b_reserve = do {
     i \<leftarrow> b_read (\<lambda>s. length (b_states s));
     State_Monad.update (\<lambda>s. s\<lparr>b_states := b_states s @ [None]\<rparr>);
     State_Monad.return i }"

text \<open>An \<open>expression-complete\<close> state with a completion or a branch loses its \<open>next\<close>.\<close>

definition drop_next :: "cfg_core \<Rightarrow> cfg_core" where
  "drop_next c =
     (case c of
        CExpressionComplete e source assignment completion branch result next \<Rightarrow>
          if completion \<noteq> None \<or> branch \<noteq> None then CExpressionComplete e source assignment completion branch result None
          else c
      | _ \<Rightarrow> c)"

definition setState :: "nat \<Rightarrow> cfg_core \<Rightarrow> nat option \<Rightarrow> nat builder" where
  "setState i core exc = do {
     State_Monad.update (\<lambda>s. s\<lparr>b_states := (b_states s)[i := Some \<lparr>cs_id = i, cs_core = drop_next core, cs_exception = exc\<rparr>]\<rparr>);
     State_Monad.return i }"

text \<open>\<open>setState({..., id: reserve(), ...})\<close>\<close>

definition newState :: "cfg_core \<Rightarrow> nat option \<Rightarrow> nat builder" where
  "newState core exc = do { i \<leftarrow> b_reserve; setState i core exc }"

definition b_unsupported :: "'a \<Rightarrow> 'a builder" where
  "b_unsupported x = do { State_Monad.update (\<lambda>s. s\<lparr>b_supported := False\<rparr>); State_Monad.return x }"

definition b_throw :: "unit builder" where
  "b_throw = State_Monad.update (\<lambda>s. s\<lparr>b_thrown := True\<rparr>)"

definition b_exhaust :: "'a \<Rightarrow> 'a builder" where
  "b_exhaust x = do { State_Monad.update (\<lambda>s. s\<lparr>b_exhausted := True\<rparr>); State_Monad.return x }"

text \<open>\<open>expressionResults.push(e) - 1\<close> and the post-increments of the counters.\<close>

definition pushResult :: "node \<Rightarrow> nat builder" where
  "pushResult e = do {
     i \<leftarrow> b_read (\<lambda>s. length (b_expressionResults s));
     State_Monad.update (\<lambda>s. s\<lparr>b_expressionResults := b_expressionResults s @ [e]\<rparr>);
     State_Monad.return i }"

definition pushOperationResult :: "node \<Rightarrow> nat builder" where
  "pushOperationResult e = do {
     i \<leftarrow> pushResult e;
     State_Monad.update (\<lambda>s. s\<lparr>b_operationResultSlots := insert i (b_operationResultSlots s)\<rparr>);
     State_Monad.return i }"

definition nextBindingValue :: "nat builder" where
  "nextBindingValue = do {
     i \<leftarrow> b_read b_bindingValueCount;
     State_Monad.update (\<lambda>s. s\<lparr>b_bindingValueCount := i + 1\<rparr>);
     State_Monad.return i }"

definition nextIterator :: "bool \<Rightarrow> nat builder" where
  "nextIterator asynchronous = do {
     i \<leftarrow> b_read (if asynchronous then b_asyncIteratorCount else b_iteratorCount);
     State_Monad.update (\<lambda>s. if asynchronous then s\<lparr>b_asyncIteratorCount := i + 1\<rparr> else s\<lparr>b_iteratorCount := i + 1\<rparr>);
     State_Monad.return i }"

definition nextFinally :: "nat builder" where
  "nextFinally = do {
     i \<leftarrow> b_read b_finallyCount;
     State_Monad.update (\<lambda>s. s\<lparr>b_finallyCount := i + 1\<rparr>);
     State_Monad.return i }"

definition countAwait :: "unit builder" where
  "countAwait = State_Monad.update (\<lambda>s. s\<lparr>b_awaitCount := b_awaitCount s + 1\<rparr>)"

definition addDeclaration :: "node \<Rightarrow> unit builder" where
  "addDeclaration d = State_Monad.update (\<lambda>s. s\<lparr>b_declarations := b_declarations s @ [d]\<rparr>)"

definition addBindingIdentifiers :: "node list \<Rightarrow> unit builder" where
  "addBindingIdentifiers ids = State_Monad.update (\<lambda>s. s\<lparr>b_bindingIdentifiers := b_bindingIdentifiers s @ ids\<rparr>)"

fun b_map :: "('a \<Rightarrow> 'b builder) \<Rightarrow> 'a list \<Rightarrow> 'b list builder" where
  "b_map f [] = State_Monad.return []"
| "b_map f (x # xs) = do { y \<leftarrow> f x; ys \<leftarrow> b_map f xs; State_Monad.return (y # ys) }"

section \<open>Syntax tests\<close>

definition suspension_node :: "bool \<Rightarrow> node \<Rightarrow> bool" where
  "suspension_node includeYield n \<longleftrightarrow> is_expr AwaitExpression n \<or> (includeYield \<and> is_expr YieldExpression n)"

definition containsSuspension :: "node \<Rightarrow> bool \<Rightarrow> bool" where
  "containsSuspension n includeYield = evaluation_search (suspension_node includeYield) [n]"

definition containsAwait :: "cfg_options \<Rightarrow> node \<Rightarrow> bool" where
  "containsAwait opts n = containsSuspension n (generator_like opts)"

definition containsSuspendingBindingExpression :: "node \<Rightarrow> bool" where
  "containsSuspendingBindingExpression n = containsSuspension n True"

definition nested_function_supported :: "cfg_options \<Rightarrow> node \<Rightarrow> bool" where
  "nested_function_supported opts n \<longleftrightarrow>
     isSupportedNestedFunction opts n \<or>
     (case parent_of (syntax_env opts) n of Some p \<Rightarrow> is_expr ObjectLiteralExpression p | None \<Rightarrow> False)"

function containsUnsupportedNestedFunctionOrClass :: "cfg_options \<Rightarrow> node \<Rightarrow> bool" where
  "containsUnsupportedNestedFunctionOrClass opts n =
     (if isTypeNode n then False
      else if isFunctionLike n then \<not> nested_function_supported opts n
      else if isClassLike n \<and> \<not> isSupportedNestedClass opts n then True
      else (\<exists>c\<in>set (forEachChild n). containsUnsupportedNestedFunctionOrClass opts c))"
  by pat_completeness auto
termination by (relation "measure (\<lambda>(opts, n). size n)") (auto simp: forEachChild_size)

declare containsUnsupportedNestedFunctionOrClass.simps [simp del]

definition opaque_loop_barrier :: "cfg_options \<Rightarrow> string option \<Rightarrow> node \<Rightarrow> bool" where
  "opaque_loop_barrier opts localLabel n \<longleftrightarrow>
     is_expr AwaitExpression n \<or>
     (is_elem VariableDeclarationList n \<and> has_all_flags n flag_AwaitUsing) \<or>
     (generator_like opts \<and> is_expr YieldExpression n) \<or> is_stmt ReturnStatement n \<or>
     ((is_stmt BreakStatement n \<or> is_stmt ContinueStatement n) \<and> has_child n ''label'' \<and> label_text n \<noteq> localLabel) \<or>
     (is_elem VariableDeclarationList n \<and> \<not> has_flag n flag_BlockScoped)"

function opaqueSynchronousLoopSupported :: "cfg_options \<Rightarrow> string option \<Rightarrow> node \<Rightarrow> bool" where
  "opaqueSynchronousLoopSupported opts localLabel n =
     (if isFunctionLike n \<or> isClassLike n then True
      else if opaque_loop_barrier opts localLabel n then False
      else (\<forall>c\<in>set (forEachChild n). opaqueSynchronousLoopSupported opts localLabel c))"
  by pat_completeness auto
termination by (relation "measure (\<lambda>(opts, l, n). size n)") (auto simp: forEachChild_size)

declare opaqueSynchronousLoopSupported.simps [simp del]

function collectBindingIdentifiers :: "node \<Rightarrow> node list" where
  "collectBindingIdentifiers name =
     (if isIdentifier name then [name]
      else concat (map (\<lambda>element. if is_expr OmittedExpression element then []
                                 else collectBindingIdentifiers (field element ''name''))
                     (children name ''elements'')))"
  by pat_completeness auto
termination
proof (relation "measure size")
  fix name element
  assume "element \<in> set (children name ''elements'')"
  then show "(field element ''name'', name) \<in> measure size"
    using order_le_less_trans [OF field_le children_size] by simp
qed simp

declare collectBindingIdentifiers.simps [simp del]

fun collectDeclarations :: "node list \<Rightarrow> unit builder" where
  "collectDeclarations [] = State_Monad.return ()"
| "collectDeclarations (d # ds) = do {
     (if isIdentifier (field d ''name'') then addDeclaration d
      else addBindingIdentifiers (collectBindingIdentifiers (field d ''name'')));
     collectDeclarations ds }"

section \<open>Expressions\<close>

text \<open>
  \<open>targets.get(id)!\<close> on a map built from the list; the states of an expression graph are closed under
  their targets, so the default is never taken.
\<close>

definition target_of :: "(nat \<times> nat) list \<Rightarrow> nat \<Rightarrow> nat" where
  "target_of targets i = (case map_of (rev targets) i of Some t \<Rightarrow> t | None \<Rightarrow> 0)"

definition edge_ids :: "resumable_state \<Rightarrow> nat list" where
  "edge_ids st = (case st of RComplete i v \<Rightarrow> [] | RBranch i v m yes no \<Rightarrow> [yes, no] | _ \<Rightarrow> [rnext st])"

definition is_suspend :: "resumable_state \<Rightarrow> bool" where
  "is_suspend st = (case st of RSuspend i n v w k x \<Rightarrow> True | _ \<Rightarrow> False)"

definition is_binding_state :: "resumable_state \<Rightarrow> bool" where
  "is_binding_state st = (case st of RBinding i n b ts v w x \<Rightarrow> True | _ \<Rightarrow> False)"

definition suspends_otherwise :: "resumable_state \<Rightarrow> bool" where
  "suspends_otherwise st = (case st of RSuspend i n v w k x \<Rightarrow> k \<noteq> AwaitSuspension | _ \<Rightarrow> False)"

text \<open>
  The recursive call of \<open>buildBindingName\<close>: binding, value slot, next, context, assignment targets
  and whether the binding is initialized.
\<close>

type_synonym bind_name =
  "node \<Rightarrow> nat \<Rightarrow> nat \<Rightarrow> build_context \<Rightarrow> (node \<times> node) list \<Rightarrow> bool \<Rightarrow> nat option builder"

definition buildBindingFromValueSlot ::
  "bind_name \<Rightarrow> node \<Rightarrow> nat \<Rightarrow> build_context \<Rightarrow> (node \<times> node) list \<Rightarrow> bool \<Rightarrow> (nat \<times> nat) option builder" where
  "buildBindingFromValueSlot bindName binding next ctx targets initialize = do {
     valueSlot \<leftarrow> nextBindingValue;
     bound \<leftarrow> bindName binding valueSlot next ctx targets initialize;
     State_Monad.return (map_option (\<lambda>entry. (entry, valueSlot)) bound) }"

definition bindingStateOperation ::
  "bind_name \<Rightarrow> build_context \<Rightarrow> nat list \<Rightarrow> (nat \<times> nat) list \<Rightarrow> nat \<Rightarrow> node \<Rightarrow> node \<Rightarrow> (node \<times> node) list \<Rightarrow>
     nat \<Rightarrow> nat \<Rightarrow> nat \<Rightarrow> bool builder" where
  "bindingStateOperation bindName ctx slots targets i n binding assignmentTargets source output next = do {
     completed \<leftarrow> newState (CExpressionComplete n (Some (slots ! source)) None None None (Some (slots ! output))
       (Some (target_of targets next))) (ctx_exception ctx);
     bound \<leftarrow> buildBindingFromValueSlot bindName binding completed ctx assignmentTargets False;
     case bound of
       None \<Rightarrow> State_Monad.return False
     | Some (entry, valueSlot) \<Rightarrow> do {
         setState (target_of targets i) (CBindingOp (SourceOp (ResultSource (slots ! source)) valueSlot True) entry)
           (ctx_exception ctx);
         State_Monad.return True } }"

definition resumableOperation ::
  "cfg_options \<Rightarrow> build_context \<Rightarrow> resumable_graph \<Rightarrow> nat list \<Rightarrow> (nat \<times> nat) list \<Rightarrow> nat \<Rightarrow> resumable_state \<Rightarrow> bool builder" where
  "resumableOperation opts ctx graph slots targets completeTarget st =
     (if suspends_otherwise st \<and> \<not> generator_like opts then State_Monad.return False
      else do {
        (if is_suspend st then countAwait else State_Monad.return ());
        setState (target_of targets (rid st))
          (CResumable st (graph_classDefinitions graph)
             (rid st = graph_entry graph \<or> rid st \<in> rnext ` set (filter is_binding_state (graph_states graph)))
             slots (map (\<lambda>i. (i, target_of targets i)) (edge_ids st))
             (case edge_ids st of i # _ \<Rightarrow> target_of targets i | [] \<Rightarrow> completeTarget)
             (if is_suspend st then ctx_return ctx else None))
          (ctx_exception ctx);
        State_Monad.return True })"

text \<open>The loop over the states of the expression graph; \<open>False\<close> is its \<open>return null\<close>.\<close>

fun expressionOperations ::
  "cfg_options \<Rightarrow> bind_name \<Rightarrow> build_context \<Rightarrow> resumable_graph \<Rightarrow> nat list \<Rightarrow> (nat \<times> nat) list \<Rightarrow> nat \<Rightarrow>
     resumable_state list \<Rightarrow> bool builder" where
  "expressionOperations opts bindName ctx graph slots targets completeTarget [] = State_Monad.return True"
| "expressionOperations opts bindName ctx graph slots targets completeTarget (st # sts) = do {
     ok \<leftarrow> (case st of
        RBinding i n binding assignmentTargets source output next \<Rightarrow>
          bindingStateOperation bindName ctx slots targets i n binding assignmentTargets source output next
      | _ \<Rightarrow> resumableOperation opts ctx graph slots targets completeTarget st);
     if ok then expressionOperations opts bindName ctx graph slots targets completeTarget sts
     else State_Monad.return False }"

definition b_planExpression :: "cfg_options \<Rightarrow> node \<Rightarrow> resumable_plan builder" where
  "b_planExpression opts expression = do {
     fresh \<leftarrow> b_read b_fresh;
     let (plan, fresh') = planResumableExpression (syntax_env opts) (suspensionKind opts = AsyncGeneratorFunctions) expression fresh;
     State_Monad.update (\<lambda>s. s\<lparr>b_fresh := fresh'\<rparr>);
     State_Monad.return plan }"

definition expressionGraph ::
  "cfg_options \<Rightarrow> bind_name \<Rightarrow> node \<Rightarrow> node option \<Rightarrow> nat \<Rightarrow> build_context \<Rightarrow> completion_route option \<Rightarrow>
     expression_branch option \<Rightarrow> nat option \<Rightarrow> resumable_graph \<Rightarrow> nat option builder" where
  "expressionGraph opts bindName expression assignment next ctx completion branch resultSlot graph = do {
     slots \<leftarrow> b_map pushOperationResult (graph_values graph);
     completeTarget \<leftarrow> newState (CExpressionComplete expression (Some (slots ! graph_result graph)) assignment completion branch
       resultSlot (Some next)) (ctx_exception ctx);
     reserved \<leftarrow> b_map (\<lambda>st. b_reserve) (graph_states graph);
     let targets = zip (map rid (graph_states graph)) reserved;
     ok \<leftarrow> expressionOperations opts bindName ctx graph slots targets completeTarget (graph_states graph);
     State_Monad.return (if ok then Some (target_of targets (graph_entry graph)) else None) }"

definition buildExpressionSequence ::
  "cfg_options \<Rightarrow> bind_name \<Rightarrow> node \<Rightarrow> node option \<Rightarrow> nat \<Rightarrow> build_context \<Rightarrow> completion_route option \<Rightarrow>
     expression_branch option \<Rightarrow> nat option \<Rightarrow> nat option builder" where
  "buildExpressionSequence opts bindName expression assignment next ctx completion branch resultSlot = do {
     plan \<leftarrow> b_planExpression opts expression;
     case plan of
       PlanGraph graph \<Rightarrow> expressionGraph opts bindName expression assignment next ctx completion branch resultSlot graph
     | PlanUnsupported n \<Rightarrow> State_Monad.return None
     | PlanThrows \<Rightarrow> do { b_throw; State_Monad.return None }
     | PlanOutOfFuel \<Rightarrow> b_exhaust None }"

definition buildExpressionResult ::
  "cfg_options \<Rightarrow> bind_name \<Rightarrow> node \<Rightarrow> nat \<Rightarrow> nat \<Rightarrow> build_context \<Rightarrow> nat option builder" where
  "buildExpressionResult opts bindName expression resultSlot next ctx =
     (if containsAwait opts expression then
        buildExpressionSequence opts bindName expression None next ctx None None (Some resultSlot)
      else do {
        i \<leftarrow> newState (CExpressionComplete expression None None None None (Some resultSlot) (Some next)) (ctx_exception ctx);
        State_Monad.return (Some i) })"

section \<open>Bindings\<close>

definition buildBindingOperation :: "binding_operation \<Rightarrow> nat \<Rightarrow> build_context \<Rightarrow> nat builder" where
  "buildBindingOperation oper next ctx = newState (CBindingOp oper next) (ctx_exception ctx)"

definition planBindingStagedExpression :: "cfg_options \<Rightarrow> node \<Rightarrow> staged_expression builder" where
  "planBindingStagedExpression opts expression =
     (if containsAwait opts expression then do {
        slot \<leftarrow> pushResult expression;
        State_Monad.return (StagedResult expression slot) }
      else do {
        known \<leftarrow> b_read (\<lambda>s. map_of (b_expressionSyncSlots s) expression);
        case known of
          Some slot \<Rightarrow> State_Monad.return (StagedSync expression slot)
        | None \<Rightarrow> do {
            slot \<leftarrow> b_read (\<lambda>s. length (b_expressionSyncs s));
            State_Monad.update (\<lambda>s. s\<lparr>b_expressionSyncs := b_expressionSyncs s @ [expression],
              b_expressionSyncSlots := (expression, slot) # b_expressionSyncSlots s\<rparr>);
            State_Monad.return (StagedSync expression slot) } })"

definition planBindingAssignmentTarget :: "cfg_options \<Rightarrow> node option \<Rightarrow> binding_assignment_target option builder" where
  "planBindingAssignmentTarget opts target =
     (case target of
        None \<Rightarrow> State_Monad.return None
      | Some t \<Rightarrow>
          if is_expr PropertyAccessExpression t then do {
            receiver \<leftarrow> planBindingStagedExpression opts (field t ''expression'');
            State_Monad.return (Some (PropertyTarget t receiver)) }
          else if is_expr ElementAccessExpression t then do {
            receiver \<leftarrow> planBindingStagedExpression opts (field t ''expression'');
            index \<leftarrow> planBindingStagedExpression opts (field t ''argumentExpression'');
            State_Monad.return (Some (ElementTarget t receiver index)) }
          else State_Monad.return None)"

definition buildBindingStagedExpression ::
  "cfg_options \<Rightarrow> bind_name \<Rightarrow> staged_expression \<Rightarrow> nat \<Rightarrow> build_context \<Rightarrow> nat option builder" where
  "buildBindingStagedExpression opts bindName staged next ctx =
     (case staged of
        StagedResult expression slot \<Rightarrow> buildExpressionResult opts bindName expression slot next ctx
      | StagedSync expression slot \<Rightarrow> do {
          i \<leftarrow> newState (CExpressionSync expression slot next) (ctx_exception ctx);
          State_Monad.return (Some i) })"

definition buildBindingAssignmentPreparation ::
  "cfg_options \<Rightarrow> bind_name \<Rightarrow> binding_assignment_target \<Rightarrow> nat \<Rightarrow> build_context \<Rightarrow> nat option builder" where
  "buildBindingAssignmentPreparation opts bindName target next ctx =
     (case target of
        PropertyTarget n receiver \<Rightarrow> buildBindingStagedExpression opts bindName receiver next ctx
      | ElementTarget n receiver index \<Rightarrow> do {
          entry \<leftarrow> buildBindingStagedExpression opts bindName index next ctx;
          case entry of
            None \<Rightarrow> State_Monad.return None
          | Some e \<Rightarrow> buildBindingStagedExpression opts bindName receiver e ctx })"

definition bindingAssignmentTarget ::
  "cfg_options \<Rightarrow> node \<Rightarrow> (node \<times> node) list \<Rightarrow> binding_assignment_target option builder" where
  "bindingAssignmentTarget opts identifier targets = do {
     known \<leftarrow> b_read (\<lambda>s. map_of (b_bindingAssignmentTargets s) identifier);
     case known of
       Some plan \<Rightarrow> State_Monad.return plan
     | None \<Rightarrow> do {
         plan \<leftarrow> planBindingAssignmentTarget opts (map_of (rev targets) identifier);
         State_Monad.update (\<lambda>s. s\<lparr>b_bindingAssignmentTargets := (identifier, plan) # b_bindingAssignmentTargets s\<rparr>);
         State_Monad.return plan } }"

text \<open>The default of a binding: apply it after evaluating the initializer, when the value is undefined.\<close>

definition buildBindingDefault ::
  "cfg_options \<Rightarrow> bind_name \<Rightarrow> node \<Rightarrow> nat \<Rightarrow> nat \<Rightarrow> build_context \<Rightarrow> nat option builder" where
  "buildBindingDefault opts bindName initializer valueSlot assign ctx = do {
     resultSlot \<leftarrow> pushResult initializer;
     apply \<leftarrow> buildBindingOperation (DefaultApplyOp resultSlot valueSlot) assign ctx;
     defaultTarget \<leftarrow> buildExpressionResult opts bindName initializer resultSlot apply ctx;
     case defaultTarget of
       None \<Rightarrow> State_Monad.return None
     | Some t \<Rightarrow> do {
         i \<leftarrow> buildBindingOperation (DefaultTestOp valueSlot t) assign ctx;
         State_Monad.return (Some i) } }"

definition buildBindingIdentifier ::
  "cfg_options \<Rightarrow> bind_name \<Rightarrow> node \<Rightarrow> nat \<Rightarrow> node option \<Rightarrow> nat \<Rightarrow> build_context \<Rightarrow> (node \<times> node) list \<Rightarrow> bool \<Rightarrow>
     nat option builder" where
  "buildBindingIdentifier opts bindName identifier valueSlot initializer next ctx targets initialize = do {
     assignmentTarget \<leftarrow> bindingAssignmentTarget opts identifier targets;
     if map_of (rev targets) identifier \<noteq> None \<and> assignmentTarget = None then State_Monad.return None
     else do {
       release \<leftarrow> buildBindingOperation (ReleaseOp valueSlot) next ctx;
       assign \<leftarrow> buildBindingOperation (AssignOp identifier assignmentTarget valueSlot initialize) release ctx;
       case initializer of
         None \<Rightarrow> State_Monad.return (Some assign)
       | Some e \<Rightarrow> buildBindingDefault opts bindName e valueSlot assign ctx } }"

definition buildBindingElement ::
  "cfg_options \<Rightarrow> bind_name \<Rightarrow> node \<Rightarrow> nat \<Rightarrow> nat \<Rightarrow> build_context \<Rightarrow> (node \<times> node) list \<Rightarrow> bool \<Rightarrow> nat option builder" where
  "buildBindingElement opts bindName element valueSlot next ctx targets initialize =
     (if isIdentifier (field element ''name'') then
        buildBindingIdentifier opts bindName (field element ''name'') valueSlot (child element ''initializer'') next ctx targets initialize
      else do {
        bound \<leftarrow> bindName (field element ''name'') valueSlot next ctx targets initialize;
        case (bound, child element ''initializer'') of
          (Some b, Some e) \<Rightarrow> buildBindingDefault opts bindName e valueSlot b ctx
        | _ \<Rightarrow> State_Monad.return bound })"

text \<open>The entry of the \<open>properties\<close> map for an element: its name or its staged key and key slot.\<close>

record binding_property =
  bp_name :: "node option"
  bp_key :: "staged_expression option"
  bp_keySlot :: "nat option"

definition is_rest :: "node \<Rightarrow> bool" where
  "is_rest element \<longleftrightarrow> is_elem BindingElement element \<and> has_child element ''dotDotDotToken''"

definition bindingProperty :: "cfg_options \<Rightarrow> node \<Rightarrow> binding_property builder" where
  "bindingProperty opts name =
     (if is_elem ComputedPropertyName name then do {
        key \<leftarrow> planBindingStagedExpression opts (field name ''expression'');
        keySlot \<leftarrow> nextBindingValue;
        State_Monad.return \<lparr>bp_name = None, bp_key = Some key, bp_keySlot = Some keySlot\<rparr> }
      else State_Monad.return \<lparr>bp_name = Some name, bp_key = None, bp_keySlot = None\<rparr>)"

definition property_name :: "node \<Rightarrow> node option" where
  "property_name element =
     (case child element ''propertyName'' of
        Some name \<Rightarrow> Some name
      | None \<Rightarrow> if isIdentifier (field element ''name'') then Some (field element ''name'') else None)"

fun bindingProperties :: "cfg_options \<Rightarrow> node list \<Rightarrow> (node \<times> binding_property) list option builder" where
  "bindingProperties opts [] = State_Monad.return (Some [])"
| "bindingProperties opts (element # elements) =
     (if \<not> is_elem BindingElement element \<or> is_rest element then bindingProperties opts elements
      else case property_name element of
        None \<Rightarrow> State_Monad.return None
      | Some name \<Rightarrow> do {
          property \<leftarrow> bindingProperty opts name;
          rest \<leftarrow> bindingProperties opts elements;
          State_Monad.return (map_option (\<lambda>ps. (element, property) # ps) rest) })"

definition rest_exclusion_of :: "binding_property \<Rightarrow> rest_exclusion" where
  "rest_exclusion_of p =
     (case bp_keySlot p of Some slot \<Rightarrow> ExcludeValue slot | None \<Rightarrow> ExcludeName (the (bp_name p)))"

text \<open>
  One turn of the loop over the elements of a pattern, from the last to the first: \<open>slot\<close> is the
  iterator slot of an array pattern, \<open>None\<close> for an object pattern.
\<close>

definition bindingObtain ::
  "nat option \<Rightarrow> nat \<Rightarrow> (node \<times> binding_property) list \<Rightarrow> bool \<Rightarrow> build_context \<Rightarrow> node \<Rightarrow> bool \<Rightarrow> nat \<Rightarrow> nat \<Rightarrow> nat option builder" where
  "bindingObtain iterator valueSlot properties hasRest ctx element isLast childSlot next =
     (if has_child element ''dotDotDotToken'' then
        if \<not> isLast \<or> has_child element ''propertyName'' \<or> has_child element ''initializer'' then State_Monad.return None
        else do {
          i \<leftarrow> buildBindingOperation
            (case iterator of
               Some slot \<Rightarrow> IteratorRestOp slot (Some childSlot)
             | None \<Rightarrow> ObjectRestOp valueSlot childSlot (map (rest_exclusion_of \<circ> snd) properties)) next ctx;
          State_Monad.return (Some i) }
      else case iterator of
        Some slot \<Rightarrow> do {
          i \<leftarrow> buildBindingOperation (IteratorStepOp slot (Some childSlot)) next ctx;
          State_Monad.return (Some i) }
      | None \<Rightarrow>
          (case map_of properties element of
             None \<Rightarrow> State_Monad.return None
           | Some property \<Rightarrow> do {
               i \<leftarrow> buildBindingOperation (PropertyOp valueSlot childSlot (bp_name property) (bp_keySlot property)
                 (bp_keySlot property \<noteq> None \<and> \<not> hasRest)) next ctx;
               State_Monad.return (Some i) }))"

definition bindingReference ::
  "cfg_options \<Rightarrow> bind_name \<Rightarrow> (node \<times> node) list \<Rightarrow> build_context \<Rightarrow> node \<Rightarrow> nat \<Rightarrow> nat option builder" where
  "bindingReference opts bindName targets ctx element obtain = do {
     reference \<leftarrow> (if isIdentifier (field element ''name'') then bindingAssignmentTarget opts (field element ''name'') targets
                  else State_Monad.return None);
     case reference of
       None \<Rightarrow> State_Monad.return (Some obtain)
     | Some r \<Rightarrow> buildBindingAssignmentPreparation opts bindName r obtain ctx }"

definition bindingKey ::
  "cfg_options \<Rightarrow> bind_name \<Rightarrow> (node \<times> binding_property) list \<Rightarrow> build_context \<Rightarrow> node \<Rightarrow> nat \<Rightarrow> nat option builder" where
  "bindingKey opts bindName properties ctx element obtain =
     (case map_of properties element of
        None \<Rightarrow> State_Monad.return (Some obtain)
      | Some property \<Rightarrow>
          (case bp_key property of
             None \<Rightarrow> State_Monad.return (Some obtain)
           | Some key \<Rightarrow> do {
               converted \<leftarrow> buildBindingOperation (BindingKeyOp key (the (bp_keySlot property))) obtain ctx;
               buildBindingStagedExpression opts bindName key converted ctx }))"

definition b_then :: "nat option builder \<Rightarrow> (nat \<Rightarrow> nat option builder) \<Rightarrow> nat option builder" where
  "b_then m f = do { r \<leftarrow> m; case r of None \<Rightarrow> State_Monad.return None | Some x \<Rightarrow> f x }"

definition bindingElementTurn ::
  "cfg_options \<Rightarrow> bind_name \<Rightarrow> nat option \<Rightarrow> nat \<Rightarrow> (node \<times> binding_property) list \<Rightarrow> bool \<Rightarrow> (node \<times> node) list \<Rightarrow> bool \<Rightarrow>
     build_context \<Rightarrow> node \<Rightarrow> bool \<Rightarrow> nat \<Rightarrow> nat option builder" where
  "bindingElementTurn opts bindName iterator valueSlot properties hasRest targets initialize ctx element isLast entry =
     (if is_expr OmittedExpression element then
        (case iterator of
           Some slot \<Rightarrow> do {
             i \<leftarrow> buildBindingOperation (IteratorStepOp slot None) entry ctx;
             State_Monad.return (Some i) }
         | None \<Rightarrow> State_Monad.return (Some entry))
      else do {
        childSlot \<leftarrow> nextBindingValue;
        b_then (buildBindingElement opts bindName element childSlot entry ctx targets initialize) (\<lambda>child.
        b_then (bindingObtain iterator valueSlot properties hasRest ctx element isLast childSlot child) (\<lambda>obtain.
        b_then (bindingReference opts bindName targets ctx element obtain) (\<lambda>obtain.
        bindingKey opts bindName properties ctx element obtain))) })"

text \<open>A loop from the last element to the first that may leave the function with \<open>null\<close>.\<close>

fun b_backwards :: "('a \<Rightarrow> bool \<Rightarrow> nat \<Rightarrow> nat option builder) \<Rightarrow> 'a list \<Rightarrow> nat \<Rightarrow> nat option builder" where
  "b_backwards f [] entry = State_Monad.return (Some entry)"
| "b_backwards f (x # xs) entry = b_then (b_backwards f xs entry) (f x (xs = []))"

text \<open>The iterator of an array pattern, and the context in which closing it is obligatory.\<close>

definition openPattern :: "nat \<Rightarrow> build_context \<Rightarrow> (nat \<times> nat \<times> build_context) builder" where
  "openPattern release ctx = do {
     slot \<leftarrow> nextIterator False;
     entry \<leftarrow> newState (CIteratorClose False slot CloseNormal (Some release)) (ctx_exception ctx);
     closeThrow \<leftarrow> newState (CIteratorClose False slot CloseThrow (ctx_exception ctx)) (ctx_exception ctx);
     closeReturn \<leftarrow> newState (CIteratorClose False slot CloseReturn (ctx_return ctx)) (ctx_exception ctx);
     State_Monad.return (slot, entry, ctx\<lparr>ctx_exception := Some closeThrow, ctx_return := Some closeReturn\<rparr>) }"

definition buildArrayPattern ::
  "cfg_options \<Rightarrow> bind_name \<Rightarrow> node \<Rightarrow> nat \<Rightarrow> nat \<Rightarrow> build_context \<Rightarrow> (node \<times> node) list \<Rightarrow> bool \<Rightarrow> nat option builder" where
  "buildArrayPattern opts bindName binding valueSlot release ctx targets initialize = do {
     (slot, close, protectedContext) \<leftarrow> openPattern release ctx;
     b_then (b_backwards (bindingElementTurn opts bindName (Some slot) valueSlot [] False targets initialize protectedContext)
       (children binding ''elements'') close) (\<lambda>entry. do {
     i \<leftarrow> buildBindingOperation (IteratorOpenOp valueSlot slot) entry ctx;
     State_Monad.return (Some i) }) }"

definition buildObjectPattern ::
  "cfg_options \<Rightarrow> bind_name \<Rightarrow> node \<Rightarrow> nat \<Rightarrow> nat \<Rightarrow> build_context \<Rightarrow> (node \<times> node) list \<Rightarrow> bool \<Rightarrow> nat option builder" where
  "buildObjectPattern opts bindName binding valueSlot release ctx targets initialize = do {
     properties \<leftarrow> bindingProperties opts (children binding ''elements'');
     case properties of
       None \<Rightarrow> State_Monad.return None
     | Some ps \<Rightarrow>
         b_then (b_backwards (bindingElementTurn opts bindName None valueSlot ps (list_ex is_rest (children binding ''elements''))
           targets initialize ctx) (children binding ''elements'') release) (\<lambda>entry. do {
         i \<leftarrow> buildBindingOperation (CheckOp valueSlot) entry ctx;
         State_Monad.return (Some i) }) }"

definition bindingName_body :: "cfg_options \<Rightarrow> bind_name \<Rightarrow> bind_name" where
  "bindingName_body opts bindName binding valueSlot next ctx targets initialize =
     (if isIdentifier binding then
        b_then (buildBindingIdentifier opts bindName binding valueSlot None next ctx targets initialize) (\<lambda>assigned. do {
        reference \<leftarrow> bindingAssignmentTarget opts binding targets;
        case reference of
          Some r \<Rightarrow> buildBindingAssignmentPreparation opts bindName r assigned ctx
        | None \<Rightarrow> State_Monad.return (Some assigned) })
      else do {
        release \<leftarrow> buildBindingOperation (ReleaseOp valueSlot) next ctx;
        if is_elem ArrayBindingPattern binding
        then buildArrayPattern opts bindName binding valueSlot release ctx targets initialize
        else buildObjectPattern opts bindName binding valueSlot release ctx targets initialize })"

fun buildBindingName :: "cfg_options \<Rightarrow> nat \<Rightarrow> bind_name" where
  "buildBindingName opts 0 = (\<lambda>binding valueSlot next ctx targets initialize. b_exhaust None)"
| "buildBindingName opts (Suc fuel) = bindingName_body opts (buildBindingName opts fuel)"

definition buildSuspendingBinding ::
  "bind_name \<Rightarrow> node \<Rightarrow> binding_source \<Rightarrow> nat \<Rightarrow> build_context \<Rightarrow> nat option builder" where
  "buildSuspendingBinding bindName binding source next ctx = do {
     bound \<leftarrow> buildBindingFromValueSlot bindName binding next ctx [] True;
     case bound of
       None \<Rightarrow> State_Monad.return None
     | Some (entry, valueSlot) \<Rightarrow> do {
         i \<leftarrow> buildBindingOperation (SourceOp source valueSlot False) entry ctx;
         State_Monad.return (Some i) } }"

end
