(* ===== verification/Async_Cfg_Statements.thy ===== *)
theory Async_Cfg_Statements
  imports Async_Cfg
begin

text \<open>
  The statement layer of the control-flow planner (\<open>src/src/emit/async-cfg.ts\<close>). The mutually
  recursive closures are the jobs of one recursion with fuel: \<open>rec\<close> stands for the recursive call in
  the handler of each job.
\<close>

section \<open>Jobs\<close>

datatype cfg_job =
    StatementJob node
  | SequenceJob "node list"
  | BlockJob node
  | LoopJob node "string option"
  | IteratorLoopJob node "string option"
  | CatchJob node

type_synonym build_job = "cfg_job \<Rightarrow> nat \<Rightarrow> build_context \<Rightarrow> nat builder"

section \<open>Finalization regions\<close>

text \<open>\<open>wrapTarget\<close> and \<open>closeNormal\<close>: one state per original target, kept in a map.\<close>

definition wrapTarget :: "(nat \<Rightarrow> cfg_core) \<Rightarrow> nat option \<Rightarrow> nat \<Rightarrow> (nat \<times> nat) list \<Rightarrow> (nat \<times> (nat \<times> nat) list) builder" where
  "wrapTarget core exc original wrapped =
     (case map_of wrapped original of
        Some existing \<Rightarrow> State_Monad.return (existing, wrapped)
      | None \<Rightarrow> do {
          i \<leftarrow> newState (core original) exc;
          State_Monad.return (i, (original, i) # wrapped) })"

definition wrapOption ::
  "(nat \<Rightarrow> cfg_core) \<Rightarrow> nat option \<Rightarrow> nat option \<Rightarrow> (nat \<times> nat) list \<Rightarrow> (nat option \<times> (nat \<times> nat) list) builder" where
  "wrapOption core exc original wrapped =
     (case original of
        None \<Rightarrow> State_Monad.return (None, wrapped)
      | Some t \<Rightarrow> do {
          (w, wrapped') \<leftarrow> wrapTarget core exc t wrapped;
          State_Monad.return (Some w, wrapped') })"

fun wrapLabels ::
  "(nat \<Rightarrow> cfg_core) \<Rightarrow> nat option \<Rightarrow> (string \<times> (nat \<times> nat option)) list \<Rightarrow> (nat \<times> nat) list \<Rightarrow>
     (string \<times> (nat \<times> nat option)) list builder" where
  "wrapLabels core exc [] wrapped = State_Monad.return []"
| "wrapLabels core exc ((label, (brk, cont)) # labels) wrapped = do {
     (brk', wrapped1) \<leftarrow> wrapTarget core exc brk wrapped;
     (cont', wrapped2) \<leftarrow> wrapOption core exc cont wrapped1;
     rest \<leftarrow> wrapLabels core exc labels wrapped2;
     State_Monad.return ((label, (brk', cont')) # rest) }"

definition wrapLoop ::
  "(nat \<Rightarrow> cfg_core) \<Rightarrow> nat option \<Rightarrow> (nat \<times> nat) option \<Rightarrow> (nat \<times> nat) list \<Rightarrow> ((nat \<times> nat) option \<times> (nat \<times> nat) list) builder" where
  "wrapLoop core exc original wrapped =
     (case original of
        None \<Rightarrow> State_Monad.return (None, wrapped)
      | Some (brk, cont) \<Rightarrow> do {
          (brk', wrapped1) \<leftarrow> wrapTarget core exc brk wrapped;
          (cont', wrapped2) \<leftarrow> wrapTarget core exc cont wrapped1;
          State_Monad.return (Some (brk', cont'), wrapped2) })"

definition protectContext ::
  "(nat \<Rightarrow> cfg_core) \<Rightarrow> build_context \<Rightarrow> nat \<Rightarrow> nat \<Rightarrow> nat \<Rightarrow> build_context builder" where
  "protectContext core ctx next normalEnter returnEnter = do {
     (lp, wrapped1) \<leftarrow> wrapLoop core (ctx_exception ctx) (ctx_loop ctx) [(next, normalEnter)];
     (brk, wrapped2) \<leftarrow> wrapOption core (ctx_exception ctx) (ctx_break ctx) wrapped1;
     labels \<leftarrow> wrapLabels core (ctx_exception ctx) (ctx_labels ctx) wrapped2;
     State_Monad.return (ctx\<lparr>ctx_loop := lp, ctx_break := brk, ctx_labels := labels, ctx_return := Some returnEnter\<rparr>) }"

definition buildFinalizationRegion ::
  "nat \<Rightarrow> build_context \<Rightarrow> (nat \<Rightarrow> nat \<Rightarrow> nat builder) \<Rightarrow> (nat \<Rightarrow> nat \<Rightarrow> build_context \<Rightarrow> nat builder) \<Rightarrow> nat builder" where
  "buildFinalizationRegion next ctx buildFinalizer buildProtected = do {
     region \<leftarrow> nextFinally;
     finallyExit \<leftarrow> b_reserve;
     finallyEntry \<leftarrow> buildFinalizer finallyExit region;
     normalEnter \<leftarrow> newState (CFinallyEnter region finallyEntry (Some next)) (ctx_exception ctx);
     throwEnter \<leftarrow> newState (CFinallyEnter region finallyEntry None) (ctx_exception ctx);
     returnEnter \<leftarrow> newState (CFinallyReturnEnter region finallyEntry) (ctx_exception ctx);
     setState finallyExit (CFinallyExit region (ctx_return ctx)) (ctx_exception ctx);
     protectedContext \<leftarrow>
       protectContext (\<lambda>t. CFinallyEnter region finallyEntry (Some t)) ctx next normalEnter returnEnter;
     buildProtected normalEnter throwEnter protectedContext }"

definition addScopeOwner :: "node \<Rightarrow> unit builder" where
  "addScopeOwner n = State_Monad.update (\<lambda>s. s\<lparr>b_retainedScopeOwners := n # b_retainedScopeOwners s\<rparr>)"

definition isScopeOwner :: "node \<Rightarrow> bool builder" where
  "isScopeOwner n = b_read (\<lambda>s. n \<in> set (b_retainedScopeOwners s))"

definition buildLexicalRegion ::
  "node \<Rightarrow> node list \<Rightarrow> node list \<Rightarrow> nat \<Rightarrow> build_context \<Rightarrow> (nat \<Rightarrow> build_context \<Rightarrow> nat builder) \<Rightarrow> nat builder" where
  "buildLexicalRegion owner bindings functions next ctx buildBody = do {
     addScopeOwner owner;
     i \<leftarrow> b_reserve;
     buildFinalizationRegion next ctx
       (\<lambda>exit region. newState (CEnvironmentExit i exit) (ctx_exception ctx))
       (\<lambda>normal thrown protectedContext. do {
          entry \<leftarrow> buildBody normal (protectedContext\<lparr>ctx_exception := Some thrown\<rparr>);
          setState i (CScopeEnter True bindings functions entry) (ctx_exception ctx) }) }"

section \<open>Resources\<close>

definition using_statement :: "node \<Rightarrow> bool" where
  "using_statement statement \<longleftrightarrow> is_stmt VariableStatement statement \<and> has_flag (field statement ''declarationList'') flag_Using"

definition declarations_of :: "node \<Rightarrow> node list" where
  "declarations_of statement = children (field statement ''declarationList'') ''declarations''"

definition unbound_resource :: "bstate \<Rightarrow> node \<Rightarrow> bool" where
  "unbound_resource s declaration \<longleftrightarrow> map_of (b_resourceBindings s) declaration = None"

definition await_using_parent :: "cfg_options \<Rightarrow> node \<Rightarrow> bool" where
  "await_using_parent opts declaration =
     (case parent_of (syntax_env opts) declaration of Some p \<Rightarrow> has_all_flags p flag_AwaitUsing | None \<Rightarrow> False)"

definition addResourceScope :: "node list \<Rightarrow> bool \<Rightarrow> nat builder" where
  "addResourceScope resources asynchronous = do {
     slot \<leftarrow> b_read (\<lambda>s. length (b_resourceScopes s));
     State_Monad.update (\<lambda>s. s\<lparr>b_resourceScopes := b_resourceScopes s @ [(resources, asynchronous)],
       b_resourceBindings := map (\<lambda>d. (d, slot)) resources @ b_resourceBindings s\<rparr>);
     State_Monad.return slot }"

definition buildResourceRegion ::
  "cfg_options \<Rightarrow> node list \<Rightarrow> nat \<Rightarrow> build_context \<Rightarrow> (nat \<Rightarrow> build_context \<Rightarrow> nat builder) \<Rightarrow> nat builder" where
  "buildResourceRegion opts resources next ctx buildProtected =
     (if list_ex (\<lambda>d. \<not> isIdentifier (field d ''name'')) resources then b_unsupported next
      else do {
        let asynchronous = list_ex (await_using_parent opts) resources;
        slot \<leftarrow> addResourceScope resources asynchronous;
        buildFinalizationRegion next ctx
          (\<lambda>finallyExit region. do {
             i \<leftarrow> b_reserve;
             (if asynchronous then countAwait else State_Monad.return ());
             setState i (CResourceDispose slot region asynchronous finallyExit) (ctx_exception ctx) })
          (\<lambda>normalEnter throwEnter protectedContext. do {
             entry \<leftarrow> buildProtected normalEnter (protectedContext\<lparr>ctx_exception := Some throwEnter\<rparr>);
             newState (CResourceEnter slot entry) (ctx_exception ctx) }) })"

definition buildResourceScope ::
  "cfg_options \<Rightarrow> build_job \<Rightarrow> node list \<Rightarrow> nat \<Rightarrow> nat \<Rightarrow> build_context \<Rightarrow> nat builder" where
  "buildResourceScope opts rec sequence firstResource next ctx =
     (let protectedStatements = drop firstResource sequence;
          resources = concat (map (\<lambda>s. if using_statement s then declarations_of s else []) protectedStatements)
      in if list_ex (\<lambda>d. \<not> has_child d ''initializer'') resources then b_unsupported next
         else do {
           entry \<leftarrow> buildResourceRegion opts resources next ctx (\<lambda>normal protectedContext.
             rec (SequenceJob protectedStatements) normal protectedContext);
           rec (SequenceJob (take firstResource sequence)) entry ctx })"

section \<open>Sequences and blocks\<close>

fun sequenceStatements :: "build_job \<Rightarrow> node list \<Rightarrow> nat \<Rightarrow> build_context \<Rightarrow> nat builder" where
  "sequenceStatements rec [] entry ctx = State_Monad.return entry"
| "sequenceStatements rec (statement # rest) entry ctx = do {
     entry' \<leftarrow> sequenceStatements rec rest entry ctx;
     supported \<leftarrow> b_read b_supported;
     if supported then rec (StatementJob statement) entry' ctx else State_Monad.return entry' }"

fun findIndex :: "('a \<Rightarrow> bool) \<Rightarrow> 'a list \<Rightarrow> nat option" where
  "findIndex p [] = None"
| "findIndex p (x # xs) = (if p x then Some 0 else map_option Suc (findIndex p xs))"

definition buildSequence :: "cfg_options \<Rightarrow> build_job \<Rightarrow> node list \<Rightarrow> nat \<Rightarrow> build_context \<Rightarrow> nat builder" where
  "buildSequence opts rec sequence next ctx = do {
     firstResource \<leftarrow> b_read (\<lambda>s.
       findIndex (\<lambda>st. using_statement st \<and> list_ex (unbound_resource s) (declarations_of st)) sequence);
     case firstResource of
       Some i \<Rightarrow> buildResourceScope opts rec sequence i next ctx
     | None \<Rightarrow> sequenceStatements rec sequence next ctx }"

definition declared_names :: "node list \<Rightarrow> node list" where
  "declared_names declarations = map (\<lambda>d. field d ''name'') declarations"

definition declared_functions :: "node list \<Rightarrow> node list" where
  "declared_functions declarations = filter (is_stmt FunctionDeclaration) declarations"

definition named_declarations :: "node list \<Rightarrow> node list" where
  "named_declarations declarations = filter (\<lambda>d. \<not> is_elem VariableDeclaration d) declarations"

definition buildLexicalBlock :: "cfg_options \<Rightarrow> build_job \<Rightarrow> node \<Rightarrow> nat \<Rightarrow> build_context \<Rightarrow> nat builder" where
  "buildLexicalBlock opts rec block next ctx =
     (let statements = children block ''statements'' in
      if block = root_body opts \<and> instantiatedRoot opts then rec (SequenceJob statements) next ctx
      else
        (let lexical = directLexicalDeclarations statements;
             bindings = declared_names lexical;
             functions = declared_functions lexical
         in do {
           addBindingIdentifiers (declared_names (named_declarations lexical));
           if bindings = [] then rec (SequenceJob statements) next ctx
           else if retainedSourceEnvironments opts then
             buildLexicalRegion block bindings functions next ctx (\<lambda>normal protectedContext.
               rec (SequenceJob statements) normal protectedContext)
           else do {
             i \<leftarrow> b_reserve;
             entry \<leftarrow> rec (SequenceJob statements) next ctx;
             setState i (CScopeEnter False bindings functions entry) (ctx_exception ctx) } }))"

section \<open>Synthesized statements\<close>

definition createExpressionStatement :: "cfg_options \<Rightarrow> node \<Rightarrow> node" where
  "createExpressionStatement opts e =
     synthesized 0 (Statement ExpressionStatement) [] [(''expression'', factory_statementExpression opts e)]"

definition createVariableStatement :: "node list \<Rightarrow> node \<Rightarrow> node" where
  "createVariableStatement modifiers declarationList =
     synthesized 0 (Statement VariableStatement) [] (map (Pair ''modifiers'') modifiers @ [(''declarationList'', declarationList)])"

definition createVariableDeclarationList :: "node \<Rightarrow> 32 word \<Rightarrow> node" where
  "createVariableDeclarationList declaration flags =
     Node 0 (Element VariableDeclarationList) (OtherToken 0) [] (flags AND flag_BlockScoped) None [(''declarations'', declaration)]"

definition createTrue :: node where
  "createTrue = synthesized 0 TrueKeyword [] []"

definition createEmptyStatement :: node where
  "createEmptyStatement = synthesized 0 (Statement EmptyStatement) [] []"

text \<open>The return statement of an async generator awaits its operand.\<close>

definition awaitedReturn :: "cfg_options \<Rightarrow> node \<Rightarrow> node \<Rightarrow> node" where
  "awaitedReturn opts statement e =
     Node 0 (Statement ReturnStatement) (OtherToken 0) [] 0 (Some statement)
       [(''expression'', synthesized 0 (Expression AwaitExpression) [] [(''expression'', factory_prefixOperand opts e)])]"

section \<open>Loops\<close>

definition loop_head :: "node \<Rightarrow> node option" where
  "loop_head statement =
     (if is_stmt ForStatement statement then
        (case child statement ''initializer'' of
           Some i \<Rightarrow> if is_elem VariableDeclarationList i then Some i else None
         | None \<Rightarrow> None)
      else None)"

definition is_for :: "node \<Rightarrow> bool" where
  "is_for statement \<longleftrightarrow> is_stmt ForInStatement statement \<or> is_stmt ForOfStatement statement"

definition is_loop :: "node \<Rightarrow> bool" where
  "is_loop statement \<longleftrightarrow> is_stmt WhileStatement statement \<or> is_stmt DoStatement statement \<or> is_stmt ForStatement statement"

definition loopContext :: "build_context \<Rightarrow> string option \<Rightarrow> nat \<Rightarrow> nat \<Rightarrow> build_context" where
  "loopContext ctx label brk cont =
     ctx\<lparr>ctx_loop := Some (brk, cont), ctx_break := Some brk,
       ctx_labels := (case label of Some l \<Rightarrow> if l = [] then ctx_labels ctx else AList.update l (brk, Some cont) (ctx_labels ctx)
                                  | None \<Rightarrow> ctx_labels ctx)\<rparr>"

definition changeLoopDepth :: "(nat \<Rightarrow> nat) \<Rightarrow> unit builder" where
  "changeLoopDepth f = State_Monad.update (\<lambda>s. s\<lparr>b_currentLoopDepth := f (b_currentLoopDepth s)\<rparr>)"

definition buildLoopBody :: "build_job \<Rightarrow> node \<Rightarrow> nat \<Rightarrow> build_context \<Rightarrow> nat builder" where
  "buildLoopBody rec body next ctx =
     (if is_stmt Block body then rec (BlockJob body) next ctx else rec (SequenceJob [body]) next ctx)"

text \<open>The copied environments of a \<open>let\<close> head: the back edge and the initial iteration.\<close>

definition buildLetClones :: "node \<Rightarrow> nat \<Rightarrow> nat \<Rightarrow> build_context \<Rightarrow> (nat \<times> nat option) builder" where
  "buildLetClones statement conditionId continueTarget ctx =
     (case loop_head statement of
        None \<Rightarrow> State_Monad.return (continueTarget, None)
      | Some headList \<Rightarrow>
          if \<not> has_flag headList flag_Let then State_Monad.return (continueTarget, None)
          else do {
            let bindings = declared_names (lexicalDeclarationsFromList headList);
            backEdge \<leftarrow> newState (CScopeClone bindings continueTarget) (ctx_exception ctx);
            initial \<leftarrow> newState (CScopeClone bindings conditionId) (ctx_exception ctx);
            State_Monad.return (backEdge, Some initial) })"

text \<open>The condition state: a branch, or a forwarding state to the graph of a suspending condition.\<close>

definition buildLoopCondition ::
  "cfg_options \<Rightarrow> bind_name \<Rightarrow> node \<Rightarrow> nat \<Rightarrow> nat \<Rightarrow> nat \<Rightarrow> build_context \<Rightarrow> bool builder" where
  "buildLoopCondition opts bindName statement conditionId bodyEntry next ctx =
     (let condition = transparent (if is_stmt ForStatement statement
            then (case child statement ''condition'' of Some c \<Rightarrow> c | None \<Rightarrow> createTrue)
            else field statement ''expression'')
      in if \<not> containsAwait opts condition then do {
           setState conditionId (CBranch condition bodyEntry next) (ctx_exception ctx);
           State_Monad.return True }
         else do {
           State_Monad.update (\<lambda>s. s\<lparr>b_loopAwaitDepth := max (b_loopAwaitDepth s) (b_currentLoopDepth s + 1)\<rparr>);
           entry \<leftarrow> buildExpressionSequence opts bindName condition None next ctx None
             (Some \<lparr>branch_kind = TruthyBranch, branch_truthy = bodyEntry, branch_falsy = next, branch_nullish = None\<rparr>) None;
           case entry of
             None \<Rightarrow> b_unsupported False
           | Some e \<Rightarrow> do {
               setState conditionId (CSync createEmptyStatement e) (ctx_exception ctx);
               State_Monad.return True } })"

definition buildLoopEntry ::
  "cfg_options \<Rightarrow> build_job \<Rightarrow> node \<Rightarrow> nat \<Rightarrow> build_context \<Rightarrow> nat builder" where
  "buildLoopEntry opts rec statement entry ctx = do {
     entry' \<leftarrow> (case child statement ''initializer'' of
         Some i \<Rightarrow>
           if is_stmt ForStatement statement then
             rec (StatementJob (if is_elem VariableDeclarationList i then createVariableStatement [] i
                                else createExpressionStatement opts i)) entry ctx
           else State_Monad.return entry
       | None \<Rightarrow> State_Monad.return entry);
     owner \<leftarrow> isScopeOwner statement;
     let headBindings = (case loop_head statement of Some l \<Rightarrow> declared_names (lexicalDeclarationsFromList l) | None \<Rightarrow> []);
     if headBindings \<noteq> [] \<and> \<not> owner then newState (CScopeEnter False headBindings [] entry') (ctx_exception ctx)
     else State_Monad.return entry' }"

definition buildLoopStates ::
  "cfg_options \<Rightarrow> bind_name \<Rightarrow> build_job \<Rightarrow> node \<Rightarrow> nat \<Rightarrow> build_context \<Rightarrow> string option \<Rightarrow> nat \<Rightarrow> nat \<Rightarrow> nat builder" where
  "buildLoopStates opts bindName rec statement next ctx label conditionId increment = do {
     (continueTarget, initial) \<leftarrow> buildLetClones statement conditionId increment ctx;
     changeLoopDepth (\<lambda>d. d + 1);
     bodyEntry \<leftarrow> buildLoopBody rec (field statement ''statement'') continueTarget (loopContext ctx label next continueTarget);
     changeLoopDepth (\<lambda>d. d - 1);
     ok \<leftarrow> buildLoopCondition opts bindName statement conditionId bodyEntry next ctx;
     if \<not> ok then State_Monad.return next
     else buildLoopEntry opts rec statement
       (if is_stmt DoStatement statement then bodyEntry else (case initial of Some i \<Rightarrow> i | None \<Rightarrow> conditionId)) ctx }"

definition buildPlainLoop ::
  "cfg_options \<Rightarrow> bind_name \<Rightarrow> build_job \<Rightarrow> node \<Rightarrow> nat \<Rightarrow> build_context \<Rightarrow> string option \<Rightarrow> nat builder" where
  "buildPlainLoop opts bindName rec statement next ctx label = do {
     conditionId \<leftarrow> b_reserve;
     case (if is_stmt ForStatement statement then child statement ''incrementor'' else None) of
       None \<Rightarrow> buildLoopStates opts bindName rec statement next ctx label conditionId conditionId
     | Some e \<Rightarrow> do {
         increment \<leftarrow> rec (StatementJob (createExpressionStatement opts e)) conditionId ctx;
         supported \<leftarrow> b_read b_supported;
         if \<not> supported then State_Monad.return next
         else buildLoopStates opts bindName rec statement next ctx label conditionId increment } }"

definition buildLoop ::
  "cfg_options \<Rightarrow> bind_name \<Rightarrow> build_job \<Rightarrow> node \<Rightarrow> nat \<Rightarrow> build_context \<Rightarrow> string option \<Rightarrow> nat builder" where
  "buildLoop opts bindName rec statement next ctx label = do {
     owner \<leftarrow> isScopeOwner statement;
     case loop_head statement of
       None \<Rightarrow> buildPlainLoop opts bindName rec statement next ctx label
     | Some headList \<Rightarrow>
         if retainedSourceEnvironments opts \<and> \<not> owner \<and> has_flag headList flag_BlockScoped then
           buildLexicalRegion statement (declared_names (children headList ''declarations'')) [] next ctx
             (\<lambda>normal protectedContext. rec (LoopJob statement label) normal protectedContext)
         else do {
           unbound \<leftarrow> b_read (\<lambda>s. list_ex (unbound_resource s) (children headList ''declarations''));
           if has_flag headList flag_Using \<and> unbound then
             buildResourceRegion opts (children headList ''declarations'') next ctx
               (\<lambda>normal protectedContext. rec (LoopJob statement label) normal protectedContext)
           else buildPlainLoop opts bindName rec statement next ctx label } }"

section \<open>Iterator loops\<close>

text \<open>The binding of the loop head with its assignment targets; \<open>None\<close> is an unsupported head.\<close>

definition iteratorBinding :: "node \<Rightarrow> (node \<times> (node \<times> node) list) option builder" where
  "iteratorBinding statement =
     (let initializer = field statement ''initializer'' in
      if is_elem VariableDeclarationList initializer then
        (case children initializer ''declarations'' of
           [declaration] \<Rightarrow>
             if has_child declaration ''initializer'' then b_unsupported None
             else do {
               collectDeclarations [declaration];
               State_Monad.return (Some (field declaration ''name'', [])) }
         | _ \<Rightarrow> b_unsupported None)
      else do {
        fresh \<leftarrow> b_read b_fresh;
        let (binding, (targets, fresh')) = normalizeAssignmentTarget initializer ([], fresh);
        State_Monad.update (\<lambda>s. s\<lparr>b_fresh := fresh'\<rparr>);
        case binding of
          None \<Rightarrow> b_unsupported None
        | Some b \<Rightarrow> State_Monad.return (Some (b, targets)) })"

definition is_asynchronous :: "node \<Rightarrow> bool" where
  "is_asynchronous statement \<longleftrightarrow> is_stmt ForOfStatement statement \<and> has_child statement ''awaitModifier''"

definition iterationContext :: "bool \<Rightarrow> nat \<Rightarrow> nat \<Rightarrow> nat \<Rightarrow> build_context \<Rightarrow> string option \<Rightarrow> build_context builder" where
  "iterationContext asynchronous slot nextId next ctx label = do {
     closeReturn \<leftarrow> newState (CIteratorClose asynchronous slot CloseReturn (ctx_return ctx)) (ctx_exception ctx);
     closeThrow \<leftarrow> newState (CIteratorClose asynchronous slot CloseThrow (ctx_exception ctx)) (ctx_exception ctx);
     let close = (\<lambda>t. CIteratorClose asynchronous slot CloseNormal (Some t));
     (brk, closed) \<leftarrow> wrapTarget close (ctx_exception ctx) next [];
     labels \<leftarrow> wrapLabels close (ctx_exception ctx) (ctx_labels ctx) closed;
     State_Monad.return (loopContext \<lparr>ctx_loop = None, ctx_break = None, ctx_labels = labels,
       ctx_exception = Some closeThrow, ctx_return = Some closeReturn\<rparr> label brk nextId) }"

definition buildIteration ::
  "bind_name \<Rightarrow> build_job \<Rightarrow> node \<Rightarrow> node \<Rightarrow> (node \<times> node) list \<Rightarrow> nat \<Rightarrow> build_context \<Rightarrow> nat builder" where
  "buildIteration bindName rec statement binding targets bodyNext ctx = do {
     bodyEntry \<leftarrow> buildLoopBody rec (field statement ''statement'') bodyNext ctx;
     bound \<leftarrow> buildBindingFromValueSlot bindName binding bodyEntry ctx targets
       (is_elem VariableDeclarationList (field statement ''initializer''));
     case bound of
       None \<Rightarrow> b_unsupported bodyNext
     | Some (entry, valueSlot) \<Rightarrow> do {
         State_Monad.update (\<lambda>s. s\<lparr>b_iterationSlot := Some valueSlot\<rparr>);
         State_Monad.return entry } }"

definition iteration_resources :: "node \<Rightarrow> node list" where
  "iteration_resources statement =
     (let initializer = field statement ''initializer'' in
      if is_elem VariableDeclarationList initializer \<and> has_flag initializer flag_Using
      then children initializer ''declarations'' else [])"

definition iteratorEntry ::
  "cfg_options \<Rightarrow> bind_name \<Rightarrow> node \<Rightarrow> node \<Rightarrow> (node \<times> node) list \<Rightarrow> nat \<Rightarrow> nat option \<Rightarrow> nat \<Rightarrow> nat \<Rightarrow> nat \<Rightarrow> build_context \<Rightarrow> nat builder" where
  "iteratorEntry opts bindName statement binding targets slot sourceResultSlot initId nextId next ctx = do {
     init \<leftarrow> setState initId (CIteratorInit (is_asynchronous statement) statement binding targets slot sourceResultSlot nextId)
       (ctx_exception ctx);
     sourceEntry \<leftarrow> (case sourceResultSlot of
         None \<Rightarrow> State_Monad.return (Some init)
       | Some r \<Rightarrow> buildExpressionResult opts bindName (field statement ''expression'') r init ctx);
     owner \<leftarrow> isScopeOwner statement;
     case sourceEntry of
       None \<Rightarrow> b_unsupported next
     | Some e \<Rightarrow>
         if is_elem VariableDeclarationList (field statement ''initializer'') \<and>
            has_flag (field statement ''initializer'') flag_BlockScoped \<and> \<not> owner
         then newState (CScopeEnter False [binding] [] e) (ctx_exception ctx)
         else State_Monad.return e }"

definition buildIteratorStates ::
  "cfg_options \<Rightarrow> bind_name \<Rightarrow> build_job \<Rightarrow> node \<Rightarrow> node \<Rightarrow> (node \<times> node) list \<Rightarrow> nat \<Rightarrow> build_context \<Rightarrow> string option \<Rightarrow> nat builder" where
  "buildIteratorStates opts bindName rec statement binding targets next ctx label = do {
     slot \<leftarrow> nextIterator (is_asynchronous statement);
     initId \<leftarrow> b_reserve;
     nextId \<leftarrow> b_reserve;
     sourceResultSlot \<leftarrow> (if containsAwait opts (field statement ''expression'')
        then do { r \<leftarrow> pushResult (field statement ''expression''); State_Monad.return (Some r) }
        else State_Monad.return None);
     bodyContext \<leftarrow> iterationContext (is_asynchronous statement) slot nextId next ctx label;
     changeLoopDepth (\<lambda>d. d + 1);
     State_Monad.update (\<lambda>s. s\<lparr>b_iterationSlot := None\<rparr>);
     bindingEntry \<leftarrow> (if iteration_resources statement \<noteq> []
        then buildResourceRegion opts (iteration_resources statement) nextId bodyContext (buildIteration bindName rec statement binding targets)
        else buildIteration bindName rec statement binding targets nextId bodyContext);
     changeLoopDepth (\<lambda>d. d - 1);
     supported \<leftarrow> b_read b_supported;
     valueSlot \<leftarrow> b_read b_iterationSlot;
     case valueSlot of
       None \<Rightarrow> b_unsupported next
     | Some v \<Rightarrow>
         if \<not> supported then State_Monad.return next
         else do {
           setState nextId (CIteratorNext (is_asynchronous statement) statement binding targets slot v bindingEntry next) (ctx_exception ctx);
           iteratorEntry opts bindName statement binding targets slot sourceResultSlot initId nextId next ctx } }"

definition buildIteratorLoop ::
  "cfg_options \<Rightarrow> bind_name \<Rightarrow> build_job \<Rightarrow> node \<Rightarrow> nat \<Rightarrow> build_context \<Rightarrow> string option \<Rightarrow> nat builder" where
  "buildIteratorLoop opts bindName rec statement next ctx label = do {
     owner \<leftarrow> isScopeOwner statement;
     let initializer = field statement ''initializer'';
     if retainedSourceEnvironments opts \<and> \<not> owner \<and> is_elem VariableDeclarationList initializer \<and>
        has_flag initializer flag_BlockScoped then
       buildLexicalRegion statement (declared_names (children initializer ''declarations'')) [] next ctx
         (\<lambda>normal protectedContext. rec (IteratorLoopJob statement label) normal protectedContext)
     else do {
       bound \<leftarrow> iteratorBinding statement;
       case bound of
         None \<Rightarrow> State_Monad.return next
       | Some (binding, targets) \<Rightarrow> buildIteratorStates opts bindName rec statement binding targets next ctx label } }"

section \<open>Statements\<close>

definition b_orElse :: "nat option builder \<Rightarrow> nat builder \<Rightarrow> nat builder" where
  "b_orElse m m' = do { r \<leftarrow> m; case r of Some x \<Rightarrow> State_Monad.return x | None \<Rightarrow> m' }"

definition buildWith ::
  "cfg_options \<Rightarrow> bind_name \<Rightarrow> build_job \<Rightarrow> node \<Rightarrow> nat \<Rightarrow> build_context \<Rightarrow> nat builder" where
  "buildWith opts bindName rec statement next ctx = do {
     slot \<leftarrow> b_reserve;
     sourceResultSlot \<leftarrow> pushResult (field statement ''expression'');
     buildFinalizationRegion next ctx
       (\<lambda>exit region. newState (CEnvironmentExit slot exit) (ctx_exception ctx))
       (\<lambda>normal thrown protectedContext. do {
          entry \<leftarrow> rec (StatementJob (field statement ''statement'')) normal (protectedContext\<lparr>ctx_exception := Some thrown\<rparr>);
          entered \<leftarrow> setState slot (CObjectScopeEnter slot sourceResultSlot entry) (ctx_exception ctx);
          b_orElse (buildExpressionResult opts bindName (field statement ''expression'') sourceResultSlot entered ctx)
            (State_Monad.return next) }) }"

definition opaque_loop :: "cfg_options \<Rightarrow> string option \<Rightarrow> node \<Rightarrow> bool" where
  "opaque_loop opts label statement \<longleftrightarrow>
     \<not> is_asynchronous statement \<and> opaqueSynchronousLoopSupported opts label statement"

definition buildLabeled ::
  "cfg_options \<Rightarrow> build_job \<Rightarrow> node \<Rightarrow> nat \<Rightarrow> build_context \<Rightarrow> nat builder" where
  "buildLabeled opts rec statement next ctx =
     (let inner = field statement ''statement''; label = node_text (field statement ''label'') in
      if is_loop inner then rec (LoopJob inner (Some label)) next ctx
      else if is_for inner \<and> \<not> containsUnsupportedNestedFunctionOrClass opts statement then
        if opaque_loop opts (Some label) inner then newState (CSync statement next) (ctx_exception ctx)
        else rec (IteratorLoopJob inner (Some label)) next ctx
      else rec (StatementJob inner) next (ctx\<lparr>ctx_labels := AList.update label (next, None) (ctx_labels ctx)\<rparr>))"

definition buildIf ::
  "cfg_options \<Rightarrow> bind_name \<Rightarrow> build_job \<Rightarrow> node \<Rightarrow> nat \<Rightarrow> build_context \<Rightarrow> nat builder" where
  "buildIf opts bindName rec statement next ctx = do {
     truthy \<leftarrow> rec (StatementJob (field statement ''thenStatement'')) next ctx;
     falsy \<leftarrow> (case child statement ''elseStatement'' of
         Some e \<Rightarrow> rec (StatementJob e) next ctx
       | None \<Rightarrow> State_Monad.return next);
     let condition = transparent (field statement ''expression'');
     if containsAwait opts condition then
       b_orElse (buildExpressionSequence opts bindName condition None next ctx None
         (Some \<lparr>branch_kind = TruthyBranch, branch_truthy = truthy, branch_falsy = falsy, branch_nullish = None\<rparr>) None)
         (b_unsupported next)
     else newState (CBranch condition truthy falsy) (ctx_exception ctx) }"

subsection \<open>Switch\<close>

definition switch_clauses :: "node \<Rightarrow> node list" where
  "switch_clauses statement = children (field statement ''caseBlock'') ''clauses''"

definition switch_declarations :: "node \<Rightarrow> node list" where
  "switch_declarations statement =
     directLexicalDeclarations (concat (map (\<lambda>c. children c ''statements'') (switch_clauses statement)))"

definition clause_expression :: "node \<Rightarrow> node option" where
  "clause_expression clause = (if is_elem CaseClause clause then Some (field clause ''expression'') else None)"

text \<open>The clause array; a \<open>None\<close> is a hole that the loop left when it stopped.\<close>

fun switchClauses ::
  "build_job \<Rightarrow> node list \<Rightarrow> nat \<Rightarrow> build_context \<Rightarrow> (nat \<times> (node option \<times> nat) option list) builder" where
  "switchClauses rec [] next ctx = State_Monad.return (next, [])"
| "switchClauses rec (clause # rest) next ctx = do {
     (fallthrough, entries) \<leftarrow> switchClauses rec rest next ctx;
     supported \<leftarrow> b_read b_supported;
     if supported then do {
       entry \<leftarrow> rec (SequenceJob (children clause ''statements'')) fallthrough ctx;
       State_Monad.return (entry, Some (clause_expression clause, entry) # entries) }
     else State_Monad.return (fallthrough, None # entries) }"

text \<open>\<open>clauses.find(clause => clause.expression === null)\<close>, which throws on a hole.\<close>

fun find_default :: "(node option \<times> nat) option list \<Rightarrow> nat option option" where
  "find_default [] = Some None"
| "find_default (None # cs) = None"
| "find_default (Some (e, t) # cs) = (if e = None then Some (Some t) else find_default cs)"

fun switchTests ::
  "cfg_options \<Rightarrow> bind_name \<Rightarrow> node \<Rightarrow> nat \<Rightarrow> build_context \<Rightarrow> nat \<Rightarrow> (node option \<times> nat) list \<Rightarrow> (nat \<times> bool) option builder" where
  "switchTests opts bindName statement discriminator ctx defaultTarget [] = State_Monad.return (Some (defaultTarget, False))"
| "switchTests opts bindName statement discriminator ctx defaultTarget ((None, t) # cs) =
     switchTests opts bindName statement discriminator ctx defaultTarget cs"
| "switchTests opts bindName statement discriminator ctx defaultTarget ((Some e, t) # cs) = do {
     later \<leftarrow> switchTests opts bindName statement discriminator ctx defaultTarget cs;
     case later of
       None \<Rightarrow> State_Monad.return None
     | Some (testEntry, hasLaterCase) \<Rightarrow> do {
         caseResultSlot \<leftarrow> (if containsAwait opts e then do { r \<leftarrow> pushResult e; State_Monad.return (Some r) }
                           else State_Monad.return None);
         compare \<leftarrow> newState (CSwitchCompare statement e discriminator caseResultSlot t testEntry (\<not> hasLaterCase)) (ctx_exception ctx);
         caseEntry \<leftarrow> (case caseResultSlot of
             None \<Rightarrow> State_Monad.return (Some compare)
           | Some r \<Rightarrow> buildExpressionResult opts bindName e r compare ctx);
         State_Monad.return (map_option (\<lambda>i. (i, True)) caseEntry) } }"

definition switchSelection ::
  "cfg_options \<Rightarrow> bind_name \<Rightarrow> node \<Rightarrow> nat \<Rightarrow> build_context \<Rightarrow> nat \<Rightarrow> (node option \<times> nat) list \<Rightarrow> nat option builder" where
  "switchSelection opts bindName statement discriminator ctx defaultTarget clauses =
     (if list_ex (\<lambda>c. is_elem CaseClause c \<and> containsAwait opts (field c ''expression'')) (switch_clauses statement) then do {
        tests \<leftarrow> switchTests opts bindName statement discriminator ctx defaultTarget clauses;
        State_Monad.return (map_option fst tests) }
      else do {
        i \<leftarrow> newState (CSwitchDispatch statement discriminator clauses defaultTarget) (ctx_exception ctx);
        State_Monad.return (Some i) })"

definition switchScope :: "node \<Rightarrow> nat \<Rightarrow> build_context \<Rightarrow> nat builder" where
  "switchScope statement selection ctx = do {
     let lexical = switch_declarations statement;
     addBindingIdentifiers (declared_names (named_declarations lexical));
     owner \<leftarrow> isScopeOwner statement;
     if owner then State_Monad.return selection
     else newState (CScopeEnter False (declared_names lexical) (declared_functions lexical) selection) (ctx_exception ctx) }"

definition switchDispatch ::
  "cfg_options \<Rightarrow> bind_name \<Rightarrow> node \<Rightarrow> nat \<Rightarrow> build_context \<Rightarrow> nat \<Rightarrow> (node option \<times> nat) list \<Rightarrow> nat builder" where
  "switchDispatch opts bindName statement next ctx defaultTarget clauses = do {
     known \<leftarrow> b_read (\<lambda>s. map_of (b_retainedSwitchDiscriminators s) statement);
     discriminator \<leftarrow> (case known of Some slot \<Rightarrow> State_Monad.return slot | None \<Rightarrow> pushResult (field statement ''expression''));
     selection \<leftarrow> switchSelection opts bindName statement discriminator ctx defaultTarget clauses;
     case selection of
       None \<Rightarrow> b_unsupported next
     | Some e \<Rightarrow> do {
         scope \<leftarrow> switchScope statement e ctx;
         retained \<leftarrow> b_read (\<lambda>s. map_of (b_retainedSwitchDiscriminators s) statement \<noteq> None);
         if retained then State_Monad.return scope
         else b_orElse (buildExpressionResult opts bindName (field statement ''expression'') discriminator scope ctx)
           (b_unsupported next) } }"

definition buildSwitchClauses ::
  "cfg_options \<Rightarrow> bind_name \<Rightarrow> build_job \<Rightarrow> node \<Rightarrow> nat \<Rightarrow> build_context \<Rightarrow> nat builder" where
  "buildSwitchClauses opts bindName rec statement next ctx = do {
     (fallthrough, entries) \<leftarrow> switchClauses rec (switch_clauses statement) next (ctx\<lparr>ctx_break := Some next\<rparr>);
     case find_default entries of
       None \<Rightarrow> do { b_throw; State_Monad.return next }
     | Some dflt \<Rightarrow>
         switchDispatch opts bindName statement next ctx (case dflt of Some t \<Rightarrow> t | None \<Rightarrow> next)
           (concat (map (\<lambda>entry. case entry of Some c \<Rightarrow> [c] | None \<Rightarrow> []) entries)) }"

definition retainSwitch :: "node \<Rightarrow> nat \<Rightarrow> unit builder" where
  "retainSwitch statement slot =
     State_Monad.update (\<lambda>s. s\<lparr>b_retainedSwitchDiscriminators := (statement, slot) # b_retainedSwitchDiscriminators s\<rparr>)"

definition buildSwitch ::
  "cfg_options \<Rightarrow> bind_name \<Rightarrow> build_job \<Rightarrow> node \<Rightarrow> nat \<Rightarrow> build_context \<Rightarrow> nat builder" where
  "buildSwitch opts bindName rec statement next ctx = do {
     owner \<leftarrow> isScopeOwner statement;
     let scopeDeclarations = switch_declarations statement;
     if retainedSourceEnvironments opts \<and> scopeDeclarations \<noteq> [] \<and> \<not> owner then do {
       resultSlot \<leftarrow> pushResult (field statement ''expression'');
       retainSwitch statement resultSlot;
       entered \<leftarrow> buildLexicalRegion statement (declared_names scopeDeclarations) (declared_functions scopeDeclarations) next ctx
         (\<lambda>normal protectedContext. rec (StatementJob statement) normal protectedContext);
       b_orElse (buildExpressionResult opts bindName (field statement ''expression'') resultSlot entered ctx) (State_Monad.return next) }
     else buildSwitchClauses opts bindName rec statement next ctx }"

subsection \<open>Try\<close>

definition catch_binding :: "node \<Rightarrow> node option" where
  "catch_binding catchClause = map_option (\<lambda>d. field d ''name'') (child catchClause ''variableDeclaration'')"

definition bindCatch ::
  "bind_name \<Rightarrow> node \<Rightarrow> nat \<Rightarrow> nat \<Rightarrow> build_context \<Rightarrow> nat builder" where
  "bindCatch bindName catchClause catchEntry catchNext ctx = do {
     collectDeclarations (case child catchClause ''variableDeclaration'' of Some d \<Rightarrow> [d] | None \<Rightarrow> []);
     case catch_binding catchClause of
       None \<Rightarrow> newState (CCatchBind None catchEntry) (ctx_exception ctx)
     | Some binding \<Rightarrow>
         if containsSuspendingBindingExpression binding then do {
           bound \<leftarrow> buildSuspendingBinding bindName binding (ExceptionSource binding) catchEntry ctx;
           case bound of
             None \<Rightarrow> b_unsupported catchNext
           | Some b \<Rightarrow> newState (CScopeEnter False [binding] [] b) (ctx_exception ctx) }
         else newState (CCatchBind (Some binding) catchEntry) (ctx_exception ctx) }"

definition buildCatchEntry ::
  "cfg_options \<Rightarrow> bind_name \<Rightarrow> build_job \<Rightarrow> node \<Rightarrow> nat \<Rightarrow> build_context \<Rightarrow> nat builder" where
  "buildCatchEntry opts bindName rec catchClause catchNext ctx = do {
     owner \<leftarrow> isScopeOwner catchClause;
     if retainedSourceEnvironments opts \<and> catch_binding catchClause \<noteq> None \<and> \<not> owner then
       buildLexicalRegion catchClause [the (catch_binding catchClause)] [] catchNext ctx
         (\<lambda>normal protectedContext. rec (CatchJob catchClause) normal protectedContext)
     else do {
       catchEntry \<leftarrow> rec (BlockJob (field catchClause ''block'')) catchNext ctx;
       bindCatch bindName catchClause catchEntry catchNext ctx } }"

definition buildTry ::
  "build_job \<Rightarrow> node \<Rightarrow> nat \<Rightarrow> build_context \<Rightarrow> nat builder" where
  "buildTry rec statement next ctx =
     (case child statement ''finallyBlock'' of
        None \<Rightarrow>
          (case child statement ''catchClause'' of
             None \<Rightarrow> b_unsupported next
           | Some catchClause \<Rightarrow> do {
               catchEntry \<leftarrow> rec (CatchJob catchClause) next ctx;
               rec (BlockJob (field statement ''tryBlock'')) next (ctx\<lparr>ctx_exception := Some catchEntry\<rparr>) })
      | Some finallyBlock \<Rightarrow>
          buildFinalizationRegion next ctx
            (\<lambda>finallyExit region. rec (BlockJob finallyBlock) finallyExit ctx)
            (\<lambda>normalEnter throwEnter protectedContext. do {
               tryException \<leftarrow> (case child statement ''catchClause'' of
                   Some catchClause \<Rightarrow> rec (CatchJob catchClause) normalEnter (protectedContext\<lparr>ctx_exception := Some throwEnter\<rparr>)
                 | None \<Rightarrow> State_Monad.return throwEnter);
               rec (BlockJob (field statement ''tryBlock'')) normalEnter (protectedContext\<lparr>ctx_exception := Some tryException\<rparr>) }))"

subsection \<open>Completions\<close>

definition jump_target :: "node \<Rightarrow> build_context \<Rightarrow> nat option" where
  "jump_target statement ctx =
     (case child statement ''label'' of
        Some label \<Rightarrow>
          (case map_of (ctx_labels ctx) (node_text label) of
             None \<Rightarrow> None
           | Some (brk, cont) \<Rightarrow> if is_stmt BreakStatement statement then Some brk else cont)
      | None \<Rightarrow> if is_stmt BreakStatement statement then ctx_break ctx else map_option snd (ctx_loop ctx))"

definition buildJump :: "node \<Rightarrow> nat \<Rightarrow> build_context \<Rightarrow> nat builder" where
  "buildJump statement next ctx =
     (case jump_target statement ctx of None \<Rightarrow> b_unsupported next | Some t \<Rightarrow> State_Monad.return t)"

definition completionState :: "completion_edge \<Rightarrow> build_context \<Rightarrow> cfg_core" where
  "completionState completion ctx =
     (case completion of
        ReturnEdge v a s \<Rightarrow>
          (case ctx_return ctx of Some t \<Rightarrow> CReturnRoute completion t | None \<Rightarrow> CCompletion completion)
      | ThrowEdge v a s \<Rightarrow>
          (case ctx_exception ctx of Some t \<Rightarrow> CThrowRoute v t | None \<Rightarrow> CCompletion completion))"

definition completion_route_of :: "completion_edge \<Rightarrow> build_context \<Rightarrow> completion_route" where
  "completion_route_of completion ctx =
     (case completion of ReturnEdge v a s \<Rightarrow> ReturnRoute (ctx_return ctx) | ThrowEdge v a s \<Rightarrow> ThrowRoute)"

definition buildCompletion ::
  "cfg_options \<Rightarrow> bind_name \<Rightarrow> node \<Rightarrow> nat \<Rightarrow> build_context \<Rightarrow> nat builder" where
  "buildCompletion opts bindName statement next ctx =
     (case planAsyncFunctionCompletionEdge statement (\<lambda>e. e) of
        None \<Rightarrow> State_Monad.return next
      | Some completion \<Rightarrow>
          (case child statement ''expression'' of
             Some e \<Rightarrow>
               if containsAwait opts e then
                 b_orElse (buildExpressionSequence opts bindName e None next ctx (Some (completion_route_of completion ctx)) None None)
                   (b_unsupported next)
               else newState (completionState completion ctx) (ctx_exception ctx)
           | None \<Rightarrow> newState (completionState completion ctx) (ctx_exception ctx)))"

subsection \<open>Variable statements\<close>

definition single_declarations :: "node \<Rightarrow> node list" where
  "single_declarations statement =
     map (\<lambda>d. createVariableStatement (children statement ''modifiers'')
            (createVariableDeclarationList d (node_flags (field statement ''declarationList'')))) (declarations_of statement)"

definition inside_with :: "cfg_options \<Rightarrow> node \<Rightarrow> bool" where
  "inside_with opts declaration \<longleftrightarrow>
     list_ex (\<lambda>n. is_stmt WithStatement n \<and> node_pos opts (field n ''statement'') \<le> node_pos opts declaration \<and>
       node_end opts (field n ''statement'') \<ge> node_end opts declaration) (ancestors (syntax_env opts) declaration)"

definition buildPatternDeclaration ::
  "cfg_options \<Rightarrow> bind_name \<Rightarrow> node \<Rightarrow> node \<Rightarrow> nat \<Rightarrow> build_context \<Rightarrow> nat builder" where
  "buildPatternDeclaration opts bindName name initializer next ctx = do {
     resultSlot \<leftarrow> pushResult initializer;
     bind \<leftarrow> (if containsSuspendingBindingExpression name
        then buildSuspendingBinding bindName name (ResultSource resultSlot) next ctx
        else do { i \<leftarrow> newState (CBindingInit name resultSlot next) (ctx_exception ctx); State_Monad.return (Some i) });
     case bind of
       None \<Rightarrow> b_unsupported next
     | Some b \<Rightarrow> b_orElse (buildExpressionResult opts bindName initializer resultSlot b ctx) (b_unsupported next) }"

text \<open>A single declaration; \<open>None\<close> falls through to the cases after variable statements.\<close>

definition buildDeclaration ::
  "cfg_options \<Rightarrow> bind_name \<Rightarrow> node \<Rightarrow> node \<Rightarrow> nat \<Rightarrow> build_context \<Rightarrow> nat option builder" where
  "buildDeclaration opts bindName statement declaration next ctx =
     (let name = field declaration ''name''; some = (\<lambda>m. do { i \<leftarrow> m; State_Monad.return (Some i) }) in
      case child declaration ''initializer'' of
        None \<Rightarrow> if isIdentifier name then State_Monad.return None else b_unsupported (Some next)
      | Some initializer \<Rightarrow>
          if \<not> has_flag (field statement ''declarationList'') flag_BlockScoped \<and> inside_with opts declaration then
            some (b_orElse (buildExpressionSequence opts bindName (createAssignment (assignmentTargetFromBinding name) initializer)
              None next ctx None None None) (b_unsupported next))
          else if \<not> isIdentifier name then some (buildPatternDeclaration opts bindName name initializer next ctx)
          else if containsAwait opts (transparent initializer) then
            buildExpressionSequence opts bindName initializer (Some name) next ctx None None None
          else State_Monad.return None)"

definition buildVariable ::
  "cfg_options \<Rightarrow> bind_name \<Rightarrow> build_job \<Rightarrow> node \<Rightarrow> nat \<Rightarrow> build_context \<Rightarrow> nat option builder" where
  "buildVariable opts bindName rec statement next ctx =
     (if length (declarations_of statement) > 1 \<and>
         (containsAwait opts statement \<or> list_ex (\<lambda>d. \<not> isIdentifier (field d ''name'')) (declarations_of statement)) then do {
        i \<leftarrow> rec (SequenceJob (single_declarations statement)) next ctx;
        State_Monad.return (Some i) }
      else do {
        collectDeclarations (declarations_of statement);
        supported \<leftarrow> b_read b_supported;
        if \<not> supported then State_Monad.return (Some next)
        else case declarations_of statement of
            [declaration] \<Rightarrow> buildDeclaration opts bindName statement declaration next ctx
          | _ \<Rightarrow> State_Monad.return None })"

subsection \<open>Other statements\<close>

definition module_export :: "cfg_options \<Rightarrow> node \<Rightarrow> bool" where
  "module_export opts statement \<longleftrightarrow> instantiatedRoot opts \<and>
     (is_stmt ExportAssignment statement \<and> node_operator statement \<noteq> EqualsToken \<or>
      is_stmt ClassDeclaration statement \<and> (\<not> has_child statement ''name'' \<or> isModuleDefaultClass opts statement))"

definition freshClassExpression :: "node \<Rightarrow> node builder" where
  "freshClassExpression statement = do {
     fresh \<leftarrow> b_read b_fresh;
     State_Monad.update (\<lambda>s. s\<lparr>b_fresh := fresh + 1\<rparr>);
     State_Monad.return (classExpressionFromDeclaration fresh statement) }"

definition buildModuleExport ::
  "cfg_options \<Rightarrow> bind_name \<Rightarrow> node \<Rightarrow> nat \<Rightarrow> build_context \<Rightarrow> nat builder" where
  "buildModuleExport opts bindName statement next ctx = do {
     expression \<leftarrow> (if is_stmt ExportAssignment statement then State_Monad.return (field statement ''expression'')
                   else freshClassExpression statement);
     valueSlot \<leftarrow> pushOperationResult expression;
     completed \<leftarrow> newState (CModuleExport statement valueSlot next) (ctx_exception ctx);
     b_orElse (buildExpressionSequence opts bindName expression None completed ctx None None (Some valueSlot))
       (b_unsupported next) }"

definition opaque_unsupported :: "cfg_options \<Rightarrow> node \<Rightarrow> bool" where
  "opaque_unsupported opts statement \<longleftrightarrow>
     containsAwait opts statement \<or> containsUnsupportedNestedFunctionOrClass opts statement \<or>
     (is_for statement \<and> \<not> opaqueSynchronousLoopSupported opts None statement) \<or>
     (is_stmt FunctionDeclaration statement \<and> \<not> isSupportedNestedFunction opts statement) \<or>
     (is_stmt ClassDeclaration statement \<and> \<not> isSupportedNestedClass opts statement)"

definition buildAwaitedClass ::
  "cfg_options \<Rightarrow> bind_name \<Rightarrow> node \<Rightarrow> nat \<Rightarrow> build_context \<Rightarrow> nat option builder" where
  "buildAwaitedClass opts bindName statement next ctx =
     (if is_stmt ClassDeclaration statement \<and> has_child statement ''name'' \<and> containsAwait opts statement \<and>
         isSupportedNestedClass opts statement then do {
        expression \<leftarrow> freshClassExpression statement;
        buildExpressionSequence opts bindName expression (child statement ''name'') next ctx None None None }
      else State_Monad.return None)"

definition buildOther ::
  "cfg_options \<Rightarrow> bind_name \<Rightarrow> build_job \<Rightarrow> node \<Rightarrow> nat \<Rightarrow> build_context \<Rightarrow> nat builder" where
  "buildOther opts bindName rec statement next ctx =
     b_orElse (if is_stmt VariableStatement statement then buildVariable opts bindName rec statement next ctx
               else State_Monad.return None)
     (b_orElse (if is_stmt ExpressionStatement statement \<and> containsAwait opts (field statement ''expression'')
                then buildExpressionSequence opts bindName (field statement ''expression'') None next ctx None None None
                else State_Monad.return None)
     (if module_export opts statement then buildModuleExport opts bindName statement next ctx
      else b_orElse (buildAwaitedClass opts bindName statement next ctx)
        (if opaque_unsupported opts statement then b_unsupported next
         else newState (CSync statement next) (ctx_exception ctx))))"

definition rewriteReturn :: "cfg_options \<Rightarrow> node \<Rightarrow> node" where
  "rewriteReturn opts statement =
     (case child statement ''expression'' of
        Some e \<Rightarrow> if suspensionKind opts = AsyncGeneratorFunctions \<and> is_stmt ReturnStatement statement
                  then awaitedReturn opts statement e else statement
      | None \<Rightarrow> statement)"

definition buildStatement ::
  "cfg_options \<Rightarrow> bind_name \<Rightarrow> build_job \<Rightarrow> node \<Rightarrow> nat \<Rightarrow> build_context \<Rightarrow> nat builder" where
  "buildStatement opts bindName rec source next ctx =
     (let statement = rewriteReturn opts source in
      if is_stmt Block statement then rec (BlockJob statement) next ctx
      else if is_stmt WithStatement statement then buildWith opts bindName rec statement next ctx
      else if is_stmt LabeledStatement statement then buildLabeled opts rec statement next ctx
      else if is_loop statement then rec (LoopJob statement None) next ctx
      else if is_for statement \<and> \<not> containsUnsupportedNestedFunctionOrClass opts statement then
        if opaque_loop opts None statement then newState (CSync statement next) (ctx_exception ctx)
        else rec (IteratorLoopJob statement None) next ctx
      else if is_stmt IfStatement statement then buildIf opts bindName rec statement next ctx
      else if is_stmt SwitchStatement statement then buildSwitch opts bindName rec statement next ctx
      else if is_stmt TryStatement statement then buildTry rec statement next ctx
      else if is_stmt BreakStatement statement \<or> is_stmt ContinueStatement statement then buildJump statement next ctx
      else if is_stmt ReturnStatement statement \<or> is_stmt ThrowStatement statement then buildCompletion opts bindName statement next ctx
      else buildOther opts bindName rec statement next ctx)"

section \<open>The recursion\<close>

definition job_body :: "cfg_options \<Rightarrow> bind_name \<Rightarrow> build_job \<Rightarrow> build_job" where
  "job_body opts bindName rec job next ctx =
     (case job of
        StatementJob statement \<Rightarrow> buildStatement opts bindName rec statement next ctx
      | SequenceJob statements \<Rightarrow> buildSequence opts rec statements next ctx
      | BlockJob block \<Rightarrow> buildLexicalBlock opts rec block next ctx
      | LoopJob statement label \<Rightarrow> buildLoop opts bindName rec statement next ctx label
      | IteratorLoopJob statement label \<Rightarrow> buildIteratorLoop opts bindName rec statement next ctx label
      | CatchJob catchClause \<Rightarrow> buildCatchEntry opts bindName rec catchClause next ctx)"

fun buildJob :: "cfg_options \<Rightarrow> bind_name \<Rightarrow> nat \<Rightarrow> build_job" where
  "buildJob opts bindName 0 = (\<lambda>job next ctx. b_exhaust next)"
| "buildJob opts bindName (Suc fuel) = job_body opts bindName (buildJob opts bindName fuel)"

end
