(* ===== verification/Async_Cfg_Graph.thy ===== *)
theory Async_Cfg_Graph
  imports Async_Cfg_Statements
begin

text \<open>
  The last phase of the control-flow planner (\<open>src/src/emit/async-cfg.ts\<close>): the successors of a state,
  the reachability loop whose edges out of a \<open>finally\<close> exit depend on the states found reachable, and
  the published graph.
\<close>

section \<open>Successors\<close>

definition normal_exits :: "cfg_state list \<Rightarrow> nat set \<Rightarrow> nat \<Rightarrow> nat list" where
  "normal_exits states reachable region =
     concat (map (\<lambda>candidate.
       case cs_core candidate of
         CFinallyEnter r entry (Some normal) \<Rightarrow> if r = region \<and> cs_id candidate \<in> reachable then [normal] else []
       | _ \<Rightarrow> []) states)"

definition resumable_successors :: "resumable_state \<Rightarrow> (nat \<times> nat) list \<Rightarrow> nat \<Rightarrow> nat option \<Rightarrow> nat list" where
  "resumable_successors st targets next returnTarget =
     (case st of
        RComplete i v \<Rightarrow> [next]
      | RBranch i v m yes no \<Rightarrow> [target_of targets yes, target_of targets no]
      | _ \<Rightarrow> [target_of targets (rnext st)]) @
     (if is_suspend st then (case returnTarget of Some t \<Rightarrow> [t] | None \<Rightarrow> []) else [])"

definition complete_successors :: "completion_route option \<Rightarrow> expression_branch option \<Rightarrow> nat option \<Rightarrow> nat list" where
  "complete_successors completion branch next =
     (case branch of
        Some b \<Rightarrow> [branch_truthy b, branch_falsy b] @ (case branch_nullish b of Some t \<Rightarrow> [t] | None \<Rightarrow> [])
      | None \<Rightarrow>
          (case completion of
             Some (ReturnRoute (Some t)) \<Rightarrow> [t]
           | Some _ \<Rightarrow> []
           | None \<Rightarrow> (case next of Some t \<Rightarrow> [t] | None \<Rightarrow> [])))"

definition option_list :: "'a option \<Rightarrow> 'a list" where
  "option_list x = (case x of Some y \<Rightarrow> [y] | None \<Rightarrow> [])"

fun core_successors :: "cfg_state list \<Rightarrow> nat set \<Rightarrow> cfg_core \<Rightarrow> nat list" where
  "core_successors states reachable (CResumable st defs entry slots targets next returnTarget) =
     resumable_successors st targets next returnTarget"
| "core_successors states reachable (CSync s next) = [next]"
| "core_successors states reachable (CScopeEnter r bs fs next) = [next]"
| "core_successors states reachable (CScopeClone bs next) = [next]"
| "core_successors states reachable (CObjectScopeEnter slot source next) = [next]"
| "core_successors states reachable (CEnvironmentExit slot next) = [next]"
| "core_successors states reachable (CExpressionSync e slot next) = [next]"
| "core_successors states reachable (CResourceEnter slot next) = [next]"
| "core_successors states reachable (CResourceDispose slot region a next) = [next]"
| "core_successors states reachable (CCatchBind b next) = [next]"
| "core_successors states reachable (CBindingInit b slot next) = [next]"
| "core_successors states reachable (CBindingOp oper next) =
     next # (case oper of DefaultTestOp v t \<Rightarrow> [t] | _ \<Rightarrow> [])"
| "core_successors states reachable (CModuleExport s slot next) = [next]"
| "core_successors states reachable (CExpressionComplete e source a completion branch result next) =
     complete_successors completion branch next"
| "core_successors states reachable (CBranch e truthy falsy) = [truthy, falsy]"
| "core_successors states reachable (CSwitchCompare s e d c match miss release) = [match, miss]"
| "core_successors states reachable (CIteratorInit a s b ts slot source next) = [next]"
| "core_successors states reachable (CIteratorNext a s b ts slot v body done) = [body, done]"
| "core_successors states reachable (CIteratorClose a slot completion next) = option_list next"
| "core_successors states reachable (CSwitchDispatch s d clauses defaultTarget) = map snd clauses @ [defaultTarget]"
| "core_successors states reachable (CThrowRoute e target) = [target]"
| "core_successors states reachable (CReturnRoute c target) = [target]"
| "core_successors states reachable (CFinallyEnter region entry normal) = [entry]"
| "core_successors states reachable (CFinallyReturnEnter region entry) = [entry]"
| "core_successors states reachable (CFinallyExit region returnTarget) =
     normal_exits states reachable region @ option_list returnTarget"
| "core_successors states reachable (CCompletion c) = []"

definition successors :: "cfg_state list \<Rightarrow> nat set \<Rightarrow> cfg_state \<Rightarrow> nat list" where
  "successors states reachable st = option_list (cs_exception st) @ core_successors states reachable (cs_core st)"

section \<open>Reachability\<close>

text \<open>
  The inner loop pops the last identifier; the worklist is kept with its last element first.
  \<open>None\<close> is the \<open>return null\<close> of a missing state.
\<close>

function discover :: "cfg_state list \<Rightarrow> nat set \<Rightarrow> nat list \<Rightarrow> nat set \<Rightarrow> nat set option" where
  "discover states reachable [] discovered = Some discovered"
| "discover states reachable (i # worklist) discovered =
     (if i \<in> discovered then discover states reachable worklist discovered
      else if length states \<le> i then None
      else discover states reachable (rev (successors states reachable (states ! i)) @ worklist) (insert i discovered))"
  by pat_completeness auto
termination
proof (relation "measures [\<lambda>(states, r, w, d). card ({..<length states} - d), \<lambda>(states, r, w, d). length w]")
  fix states :: "cfg_state list" and reachable :: "nat set" and i worklist and discovered :: "nat set"
  assume "i \<notin> discovered" "\<not> length states \<le> i"
  then have "i \<in> {..<length states} - discovered" by simp
  then have "card (({..<length states} - discovered) - {i}) < card ({..<length states} - discovered)"
    by (intro card_Diff1_less) simp_all
  moreover have "{..<length states} - insert i discovered = ({..<length states} - discovered) - {i}" by blast
  ultimately have "card ({..<length states} - insert i discovered) < card ({..<length states} - discovered)" by simp
  then show "((states, reachable, rev (successors states reachable (states ! i)) @ worklist, insert i discovered),
      states, reachable, i # worklist, discovered)
    \<in> measures [\<lambda>(states, r, w, d). card ({..<length states} - d), \<lambda>(states, r, w, d). length w]"
    by simp
qed simp_all

datatype 'a fueled = OutOfFuel | Done 'a

text \<open>The outer loop repeats the discovery until the reachable set is stable.\<close>

fun reachability :: "nat \<Rightarrow> cfg_state list \<Rightarrow> nat \<Rightarrow> nat set \<Rightarrow> nat set option fueled" where
  "reachability 0 states entry reachable = OutOfFuel"
| "reachability (Suc fuel) states entry reachable =
     (case discover states reachable [entry] {} of
        None \<Rightarrow> Done None
      | Some discovered \<Rightarrow>
          if discovered = reachable then Done (Some discovered) else reachability fuel states entry discovered)"

definition suspends :: "cfg_state \<Rightarrow> bool" where
  "suspends st =
     (case cs_core st of
        CResourceDispose slot region asynchronous next \<Rightarrow> asynchronous
      | CIteratorNext asynchronous s b ts slot v body done \<Rightarrow> asynchronous
      | CIteratorClose asynchronous slot completion next \<Rightarrow> asynchronous
      | CResumable oper defs entry slots targets next returnTarget \<Rightarrow> is_suspend oper
      | CReturnRoute completion target \<Rightarrow> edge_await completion \<noteq> None
      | _ \<Rightarrow> False)"

section \<open>The planner\<close>

datatype cfg_plan = CfgGraph cfg_graph | CfgNull | CfgThrows | CfgOutOfFuel

definition publishGraph :: "bstate \<Rightarrow> nat \<Rightarrow> cfg_state list \<Rightarrow> nat set \<Rightarrow> cfg_graph" where
  "publishGraph s entry states reachable =
     (let reachableStates = filter (\<lambda>st. cs_id st \<in> reachable) states in
      \<lparr>cfg_entry = entry, cfg_states = reachableStates, cfg_declarations = b_declarations s,
       cfg_bindingIdentifiers = b_bindingIdentifiers s, cfg_awaitCount = length (filter suspends reachableStates),
       cfg_loopAwaitDepth = b_loopAwaitDepth s, cfg_finallyCount = b_finallyCount s, cfg_iteratorCount = b_iteratorCount s,
       cfg_asyncIteratorCount = b_asyncIteratorCount s, cfg_bindingValueCount = b_bindingValueCount s,
       cfg_resourceScopes = b_resourceScopes s, cfg_expressionSyncs = b_expressionSyncs s,
       cfg_expressionResults = b_expressionResults s, cfg_operationResultSlots = b_operationResultSlots s\<rparr>)"

definition finishGraph :: "cfg_options \<Rightarrow> bstate \<Rightarrow> nat \<Rightarrow> cfg_plan" where
  "finishGraph opts s entry =
     (if b_exhausted s then CfgOutOfFuel
      else if b_thrown s then CfgThrows
      else if \<not> b_supported s \<or> None \<in> set (b_states s) then CfgNull
      else
        (let states = map the (b_states s) in
         case reachability (length states + 2) states entry {} of
           OutOfFuel \<Rightarrow> CfgOutOfFuel
         | Done None \<Rightarrow> CfgNull
         | Done (Some reachable) \<Rightarrow>
             (let graph = publishGraph s entry states reachable in
              if cfg_awaitCount graph < 1 \<and> b_awaitCount s < 1 \<and> \<not> generator_like opts then CfgNull else CfgGraph graph)))"

definition createReturnStatement :: node where
  "createReturnStatement = synthesized 0 (Statement ReturnStatement) [] []"

definition empty_context :: build_context where
  "empty_context = \<lparr>ctx_loop = None, ctx_break = None, ctx_labels = [], ctx_exception = None, ctx_return = None\<rparr>"

text \<open>The terminal state completes with the edge of an empty return statement.\<close>

definition buildGraph :: "cfg_options \<Rightarrow> nat \<Rightarrow> nat builder" where
  "buildGraph opts fuel = do {
     terminal \<leftarrow> newState (CCompletion (the (planAsyncFunctionCompletionEdge createReturnStatement (\<lambda>e. e)))) None;
     buildJob opts (buildBindingName opts fuel) fuel (BlockJob (root_body opts)) terminal empty_context }"

definition planAsyncControlFlowGraph :: "cfg_options \<Rightarrow> nat \<Rightarrow> nat \<Rightarrow> cfg_plan" where
  "planAsyncControlFlowGraph opts fuel fresh =
     (case run_state (buildGraph opts fuel) (b_initial fresh) of (entry, s) \<Rightarrow> finishGraph opts s entry)"

end
