(* ===== verification/Resumable_Bindings.thy ===== *)
theory Resumable_Bindings
  imports Resumable_Graph
begin

text \<open>
  What the binding states of an expression graph contain: the patterns that the planner makes of assignment
  targets bind names of the source or names it has just numbered, and every expression in them is a smaller part
  of the planned expression.
\<close>

section \<open>Parts of an expression\<close>

text \<open>Every identifier in a node, or in a node it was made from, is numbered below \<open>F\<close>.\<close>

function names_below :: "nat \<Rightarrow> node \<Rightarrow> bool" where
  "names_below F n \<longleftrightarrow>
     (isIdentifier n \<longrightarrow> node_id n < F) \<and> (\<forall>c\<in>set (forEachChild n). names_below F c) \<and>
     (\<forall>m\<in>set_option (node_original n). names_below F m)"
  by pat_completeness auto
termination
  by (relation "measure (\<lambda>(F, n). size n)") (auto simp: forEachChild_size original_size)

declare names_below.simps [simp del]

definition within :: "nat \<Rightarrow> nat \<Rightarrow> node \<Rightarrow> bool" where
  "within F M n \<longleftrightarrow> size n \<le> M \<and> names_below F n"

definition inside :: "nat \<Rightarrow> nat \<Rightarrow> node \<Rightarrow> bool" where
  "inside F M n \<longleftrightarrow> size n < M \<and> names_below F n"

named_theorems within_rules

lemma names_below_missing [simp]: "names_below F missing_node"
  by (subst names_below.simps) (simp add: missing_node_def isIdentifier_def forEachChild_def)

lemma names_below_child: "names_below F n \<Longrightarrow> (f, c) \<in> set (node_children n) \<Longrightarrow> names_below F c"
  by (subst (asm) names_below.simps) (force simp: forEachChild_def)

lemma names_below_field: "names_below F n \<Longrightarrow> names_below F (field n f)"
  by (auto simp: field_def dest: names_below_child child_in split: option.split)

lemma names_below_id: "names_below F n \<Longrightarrow> isIdentifier n \<Longrightarrow> node_id n < F"
  by (simp add: names_below.simps [of F n])

lemma inside_within: "inside F M n \<Longrightarrow> within F M n"
  by (simp add: within_def inside_def)

lemma within_inside: "within F k n \<Longrightarrow> k < M \<Longrightarrow> inside F M n"
  by (simp add: within_def inside_def)

lemma inside_part: "within F M n \<Longrightarrow> (f, c) \<in> set (node_children n) \<Longrightarrow> inside F M c"
  using size_child_less [of f c n] names_below_child [of F n f c] by (simp add: within_def inside_def)

lemma inside_child: "within F M n \<Longrightarrow> child n f = Some c \<Longrightarrow> inside F M c"
  by (rule inside_part [OF _ child_in])

lemma inside_children: "within F M n \<Longrightarrow> c \<in> set (children n f) \<Longrightarrow> inside F M c"
  by (auto simp: children_def intro: inside_part)

lemma inside_field: "within F M n \<Longrightarrow> field n f \<noteq> missing_node \<Longrightarrow> inside F M (field n f)"
  by (auto simp: field_def intro: inside_child split: option.splits)

lemmas within_child = inside_within [OF inside_child]
lemmas within_children = inside_within [OF inside_children]

lemma within_field [within_rules]: "within F M n \<Longrightarrow> within F M (field n f)"
  unfolding within_def using order_trans [OF field_le] names_below_field by blast

lemma inside_field_inside: "inside F M n \<Longrightarrow> inside F M (field n f)"
  unfolding inside_def using le_less_trans [OF field_le] names_below_field by blast

lemma within_transparent [within_rules]: "within F M n \<Longrightarrow> within F M (transparent n)"
proof (induction "\<lambda>_ :: node. False" n rule: unwrapTransparentExpression.induct)
  case (1 n)
  have missing: "within F M missing_node" using 1(2) size_missing [of n] by (simp add: within_def)
  show ?case
  proof (cases "is_transparent n")
    case True
    show ?thesis
    proof (cases "child n ''expression''")
      case (Some e)
      with 1(1) [of e] True within_child [OF 1(2) Some] show ?thesis by (simp add: unwrapTransparentExpression.simps [of _ n])
    qed (use True missing in \<open>simp add: unwrapTransparentExpression.simps [of _ n]\<close>)
  qed (use 1(2) in \<open>simp add: unwrapTransparentExpression.simps [of _ n]\<close>)
qed

lemma within_original [within_rules]: "within F M n \<Longrightarrow> within F M (getOriginalNode n)"
proof (induction n rule: getOriginalNode.induct)
  case (1 n)
  show ?case
  proof (cases "node_original n")
    case (Some m)
    then have "within F M m"
      using 1(2) original_size [OF Some] by (simp add: within_def names_below.simps [of F n])
    then show ?thesis using 1(1) [OF Some] Some by (simp add: getOriginalNode.simps [of n])
  qed (use 1(2) in \<open>simp add: getOriginalNode.simps [of n]\<close>)
qed

lemma within_definition [within_rules]: "within F M n \<Longrightarrow> within F M (sourceClassDefinition n)"
  by (simp add: sourceClassDefinition_def within_original)

lemma within_computed_key: "within F M m \<Longrightarrow> computed_key m = Some e \<Longrightarrow> within F M e"
  by (auto simp: computed_key_def intro!: within_field intro: within_child split: option.splits if_splits)

lemma within_stages:
  assumes "within F M d" "stage \<in> set (classDefinitionPlan d)"
  shows "\<And>e. stage = HeritageStage e \<Longrightarrow> within F M e" "\<And>m k. stage = ElementStage m (Some k) \<Longrightarrow> within F M k"
proof -
  have members: "within F M m" if "m \<in> set (children d ''members'')" for m using within_children [OF assms(1) that] .
  have types: "within F M (field h ''expression'')"
    if "c \<in> set (children d ''heritageClauses'')" "h \<in> set (children c ''types'')" for c h
    by (rule within_field [OF within_children [OF within_children [OF assms(1) that(1)] that(2)]])
  show "within F M e" if "stage = HeritageStage e" for e
    using assms(2) that types by (auto simp: classDefinitionPlan_def split: if_splits)
  show "within F M k" if "stage = ElementStage m (Some k)" for m k
    using assms(2) that members within_computed_key by (fastforce simp: classDefinitionPlan_def split: if_splits)
qed


section \<open>Patterns\<close>

text \<open>A binding pattern of bounded depth whose names and whose initializers and computed keys are in two sets.\<close>

fun pattern_ok :: "nat \<Rightarrow> (node \<Rightarrow> bool) \<Rightarrow> (node \<Rightarrow> bool) \<Rightarrow> node \<Rightarrow> bool" where
  "pattern_ok 0 names exprs b = False"
| "pattern_ok (Suc d) names exprs b =
     (if isIdentifier b then names b
      else \<forall>e\<in>set (children b ''elements'').
        (\<forall>i. child e ''initializer'' = Some i \<longrightarrow> exprs i) \<and>
        (\<forall>p. child e ''propertyName'' = Some p \<longrightarrow> exprs (field p ''expression'')) \<and>
        (is_expr OmittedExpression e \<or> pattern_ok d names exprs (field e ''name'')))"

definition pattern_element_ok :: "nat \<Rightarrow> (node \<Rightarrow> bool) \<Rightarrow> (node \<Rightarrow> bool) \<Rightarrow> node \<Rightarrow> bool" where
  "pattern_element_ok d names exprs e \<longleftrightarrow>
     (\<forall>i. child e ''initializer'' = Some i \<longrightarrow> exprs i) \<and>
     (\<forall>p. child e ''propertyName'' = Some p \<longrightarrow> exprs (field p ''expression'')) \<and>
     (is_expr OmittedExpression e \<or> pattern_ok d names exprs (field e ''name''))"

lemma pattern_ok_elements:
  "\<not> isIdentifier b \<Longrightarrow> pattern_ok (Suc d) names exprs b \<longleftrightarrow> (\<forall>e\<in>set (children b ''elements''). pattern_element_ok d names exprs e)"
  by (simp add: pattern_element_ok_def)

lemma pattern_ok_mono:
  "pattern_ok d names exprs b \<Longrightarrow> d \<le> d' \<Longrightarrow> (\<And>x. names x \<Longrightarrow> names' x) \<Longrightarrow> (\<And>x. exprs x \<Longrightarrow> exprs' x) \<Longrightarrow>
   pattern_ok d' names' exprs' b"
proof (induction d names exprs b arbitrary: d' rule: pattern_ok.induct)
  case (2 d names exprs b)
  then obtain k where k: "d' = Suc k" "d \<le> k" by (cases d') auto
  have "pattern_ok k names' exprs' (field e ''name'')"
    if "\<not> isIdentifier b" "e \<in> set (children b ''elements'')" "\<not> is_expr OmittedExpression e" for e
    using 2(1) [OF that(1,2) _ k(2) 2(4,5)] 2(2) that by (auto simp del: pattern_ok.simps simp: pattern_ok_elements pattern_element_ok_def)
  then show ?case using 2(2,4,5) k(1) by (auto split: if_splits)
qed simp

lemma pattern_element_ok_mono:
  "pattern_element_ok d names exprs b \<Longrightarrow> d \<le> d' \<Longrightarrow> (\<And>x. names x \<Longrightarrow> names' x) \<Longrightarrow> pattern_element_ok d' names' exprs b"
  unfolding pattern_element_ok_def using pattern_ok_mono [of d names exprs "field b ''name''" d' names' exprs] by blast

text \<open>A binding of the source is such a pattern.\<close>

lemma pattern_ok_source:
  "within F M n \<Longrightarrow> size n \<le> d \<Longrightarrow> pattern_ok d (\<lambda>x. node_id x < F) (inside F M) n"
proof (induction d arbitrary: n)
  case 0
  then show ?case using node_size_pos [of n] by simp
next
  case (Suc d)
  show ?case
  proof (cases "isIdentifier n")
    case True
    then show ?thesis using names_below_id Suc.prems(1) by (simp add: within_def)
  next
    case False
    have "pattern_element_ok d (\<lambda>x. node_id x < F) (inside F M) e" if "e \<in> set (children n ''elements'')" for e
    proof -
      have e: "within F M e" by (rule within_children [OF Suc.prems(1) that])
      have "size (field e ''name'') \<le> d" using children_size [OF that] field_le [of e "''name''"] Suc.prems(2) by linarith
      then have "pattern_ok d (\<lambda>x. node_id x < F) (inside F M) (field e ''name'')" by (rule Suc.IH [OF within_field [OF e]])
      then show ?thesis
        unfolding pattern_element_ok_def using inside_child [OF e] inside_field_inside by blast
    qed
    then show ?thesis using pattern_ok_elements [OF False] by blast
  qed
qed

section \<open>Normalised assignment targets\<close>

definition bound_name :: "nat \<Rightarrow> (node \<times> node) list \<Rightarrow> node \<Rightarrow> bool" where
  "bound_name F targets x \<longleftrightarrow> node_id x < F \<or> x \<in> fst ` set targets"

text \<open>What a step adds to the targets: names numbered by the step, for smaller targets.\<close>

definition targets_step :: "nat \<Rightarrow> nat \<Rightarrow> normalize_state \<Rightarrow> normalize_state \<Rightarrow> bool" where
  "targets_step F M st st' \<longleftrightarrow> snd st \<le> snd st' \<and> (\<exists>new. fst st' = fst st @ new \<and>
     (\<forall>(x, t)\<in>set new. snd st \<le> node_id x \<and> node_id x < snd st' \<and> inside F M t))"

lemma targets_step_refl [simp]: "targets_step F M st st"
  by (simp add: targets_step_def)

lemma targets_step_trans: "targets_step F M st st' \<Longrightarrow> targets_step F M st' st'' \<Longrightarrow> targets_step F M st st''"
  unfolding targets_step_def by fastforce

lemma targets_step_fresh: "targets_step F M st (ts, f) \<Longrightarrow> f \<le> f' \<Longrightarrow> targets_step F M st (ts, f')"
  unfolding targets_step_def by fastforce

lemma targets_step_bound: "targets_step F M st st' \<Longrightarrow> bound_name F (fst st) x \<Longrightarrow> bound_name F (fst st') x"
  by (auto simp: targets_step_def bound_name_def)

lemma targets_step_lower: "targets_step F M st st' \<Longrightarrow> snd st \<le> snd st'"
  by (simp add: targets_step_def)

lemma default_assignment_Some: "default_assignment v = Some a \<Longrightarrow> a = v"
  by (simp add: default_assignment_def split: if_splits)

lemma inside_assignment_left: "inside F M n \<Longrightarrow> inside F M (assignment_left (transparent n))"
proof -
  assume n: "inside F M n"
  have "within F (size n) n" using n by (simp add: inside_def within_def)
  from within_transparent [OF this] have "within F (size n) (assignment_left (transparent n))"
    by (auto simp: assignment_left_def intro: within_field dest: default_assignment_Some split: option.split)
  then show ?thesis by (rule within_inside) (use n in \<open>simp add: inside_def\<close>)
qed

lemma inside_transparent: "inside F M n \<Longrightarrow> inside F M (transparent n)"
  using within_transparent [of F "size n" n] within_inside [of F "size n" "transparent n" M]
  by (simp add: inside_def within_def)

lemma inside_assignment_right: "inside F M n \<Longrightarrow> assignment_right (transparent n) = Some i \<Longrightarrow> inside F M i"
  by (auto simp: assignment_right_def dest!: default_assignment_Some intro!: inside_field_inside inside_transparent split: option.splits)

lemma inside_children_inside: "inside F M n \<Longrightarrow> c \<in> set (children n f) \<Longrightarrow> inside F M c"
  by (rule inside_children [OF inside_within])

lemma createBindingElement_ok:
  "pattern_element_ok d names exprs (createBindingElement i r p n e) \<longleftrightarrow>
     (\<forall>x. e = Some x \<longrightarrow> exprs x) \<and> (\<forall>x. p = Some x \<longrightarrow> exprs (field x ''expression'')) \<and> pattern_ok d names exprs n"
  by (simp add: pattern_element_ok_def is_expr_def)


lemma normalize_ok:
  "normalizeAssignmentTarget e st = (Some b, st') \<Longrightarrow> inside F M e \<Longrightarrow> F \<le> snd st \<Longrightarrow>
   targets_step F M st st' \<and> pattern_ok (size e) (bound_name F (fst st')) (inside F M) b"
  "normalize_elements es st = (Some bs, st') \<Longrightarrow> \<forall>e\<in>set es. inside F M e \<and> size e \<le> d \<Longrightarrow> F \<le> snd st \<Longrightarrow>
   targets_step F M st st' \<and> (\<forall>b\<in>set bs. pattern_element_ok d (bound_name F (fst st')) (inside F M) b)"
  "normalize_properties es st = (Some bs, st') \<Longrightarrow> \<forall>e\<in>set es. inside F M e \<and> size e \<le> d \<Longrightarrow> F \<le> snd st \<Longrightarrow>
   targets_step F M st st' \<and> (\<forall>b\<in>set bs. pattern_element_ok d (bound_name F (fst st')) (inside F M) b)"
proof (induction e st and es st and es st arbitrary: b st' and bs st' d and bs st' d
    rule: normalizeAssignmentTarget_normalize_elements_normalize_properties.induct)
  case (1 expression targets fresh)
  define t where "t = transparent expression"
  have t: "inside F M t" "size t \<le> size expression"
    using inside_transparent [OF 1(4)] unwrap_size [of "\<lambda>_. False" expression] by (simp_all add: t_def)
  obtain k where k: "size expression = Suc k" using node_size_pos [of expression] gr0_conv_Suc by metis
  have elements: "\<forall>e\<in>set (children t f). inside F M e \<and> size e \<le> k" for f
    using inside_children_inside [OF t(1)] children_size [of _ t f] t(2) k by fastforce
  have eq: "normalizeAssignmentTarget expression (targets, fresh) = (Some b, st')" by (rule 1(3))
  note unfolded = normalizeAssignmentTarget.simps [of expression targets fresh, unfolded Let_def t_def [symmetric]]
  consider (name) "isIdentifier t" | (access) "\<not> isIdentifier t" "isAccess t"
    | (array) "\<not> isIdentifier t" "\<not> isAccess t" "is_expr ArrayLiteralExpression t"
    | (object) "\<not> isIdentifier t" "\<not> isAccess t" "\<not> is_expr ArrayLiteralExpression t" "is_expr ObjectLiteralExpression t"
    using eq unfolded by (auto split: if_splits)
  then show ?case
  proof cases
    case name
    then have "b = t" "st' = (targets, fresh)" using eq unfolded by auto
    moreover have "node_id t < F" using names_below_id name t(1) by (auto simp: inside_def)
    ultimately show ?thesis using name k by (simp add: bound_name_def)
  next
    case access
    then show ?thesis
      using eq unfolded t(1) k by (auto simp: targets_step_def bound_name_def isIdentifier_def)
  next
    case array
    then obtain bs ts f where n: "normalize_elements (children t ''elements'') (targets, fresh) = (Some bs, (ts, f))"
        "b = synthesized f (Element ArrayBindingPattern) [] (map (Pair ''elements'') bs)" "st' = (ts, f + 1)"
      using eq unfolded by (auto split: prod.splits option.splits)
    from 1(1) [OF t_def array this(1) elements] 1(5)
    have step: "targets_step F M (targets, fresh) (ts, f)"
      and ok: "\<forall>b\<in>set bs. pattern_element_ok k (bound_name F ts) (inside F M) b" by auto
    have "\<not> isIdentifier b" by (simp add: n(2) isIdentifier_def)
    from pattern_ok_elements [OF this, of k] ok k show ?thesis
      using targets_step_fresh [OF step, of "f + 1"] by (simp add: n(2,3))
  next
    case object
    then obtain bs ts f where n: "normalize_properties (children t ''properties'') (targets, fresh) = (Some bs, (ts, f))"
        "b = synthesized f (Element ObjectBindingPattern) [] (map (Pair ''elements'') bs)" "st' = (ts, f + 1)"
      using eq unfolded by (auto split: prod.splits option.splits)
    from 1(2) [OF t_def object this(1) elements] 1(5)
    have step: "targets_step F M (targets, fresh) (ts, f)"
      and ok: "\<forall>b\<in>set bs. pattern_element_ok k (bound_name F ts) (inside F M) b" by auto
    have "\<not> isIdentifier b" by (simp add: n(2) isIdentifier_def)
    from pattern_ok_elements [OF this, of k] ok k show ?thesis
      using targets_step_fresh [OF step, of "f + 1"] by (simp add: n(2,3))
  qed
next
  case (2 st)
  then show ?case by simp
next
  case (3 element rest st)
  have e: "inside F M element" "size element \<le> d" and rest: "\<forall>e\<in>set rest. inside F M e \<and> size e \<le> d"
    using 3(6) by simp_all
  consider (omitted) "is_expr OmittedExpression element"
    | (spread) "\<not> is_expr OmittedExpression element" "is_expr SpreadElement element" "rest = []"
    | (other) "\<not> is_expr OmittedExpression element" "\<not> is_expr SpreadElement element"
    using 3(5) by (auto split: if_splits)
  then show ?case
  proof cases
    case omitted
    then obtain bs' where n: "normalize_elements rest st = (Some bs', st')" "bs = element # bs'"
      using 3(5) by (auto split: prod.splits option.splits)
    have "pattern_element_ok d names (inside F M) element" for names
      using omitted inside_child [OF inside_within [OF e(1)]] inside_field_inside
      unfolding pattern_element_ok_def by blast
    with 3(1) [OF omitted n(1) rest 3(7)] n(2) show ?thesis by simp
  next
    case spread
    then obtain name ts f where n: "normalizeAssignmentTarget (field element ''expression'') st = (Some name, (ts, f))"
        "bs = [createBindingElement f True None name None]" "st' = (ts, f + 1)"
      using 3(5) by (auto split: prod.splits option.splits)
    have "\<not> rest \<noteq> []" using spread(3) by simp
    from 3(2) [OF spread(1,2) this n(1) inside_field_inside [OF e(1)] 3(7)]
    have step: "targets_step F M st (ts, f)"
      and ok: "pattern_ok (size (field element ''expression'')) (bound_name F ts) (inside F M) name" by auto
    have "pattern_ok d (bound_name F ts) (inside F M) name"
      by (rule pattern_ok_mono [OF ok]) (use order_trans [OF field_le e(2)] in auto)
    then show ?thesis
      using targets_step_fresh [OF step, of "f + 1"] by (simp add: n(2,3) createBindingElement_ok)
  next
    case other
    let ?v = "transparent element"
    obtain name ts f where n: "normalizeAssignmentTarget (assignment_left ?v) st = (Some name, (ts, f))"
      using 3(5) other by (auto simp: Let_def split: prod.splits option.splits)
    then obtain bs' where m: "normalize_elements rest (ts, f + 1) = (Some bs', st')"
        "bs = createBindingElement f False None name (assignment_right ?v) # bs'"
      using 3(5) other by (auto simp: Let_def split: prod.splits option.splits)
    from 3(3) [OF other refl n inside_assignment_left [OF e(1)] 3(7)]
    have step: "targets_step F M st (ts, f)"
      and ok: "pattern_ok (size (assignment_left ?v)) (bound_name F ts) (inside F M) name" by auto
    have step': "targets_step F M st (ts, f + 1)" by (rule targets_step_fresh [OF step]) simp
    have "F \<le> snd (ts, f + 1)" using targets_step_lower [OF step'] 3(7) by simp
    from 3(4) [OF other refl n [symmetric] refl refl m(1) rest this]
    have rest_step: "targets_step F M (ts, f + 1) st'"
      and bs': "\<forall>b\<in>set bs'. pattern_element_ok d (bound_name F (fst st')) (inside F M) b" by auto
    have "size (assignment_left ?v) \<le> d" using assignment_value_size(1) [of element] e(2) by linarith
    then have "pattern_ok d (bound_name F (fst st')) (inside F M) name"
      by (rule pattern_ok_mono [OF ok]) (use targets_step_bound [OF rest_step] in auto)
    moreover have "\<forall>i. assignment_right ?v = Some i \<longrightarrow> inside F M i" using inside_assignment_right [OF e(1)] by blast
    ultimately have "pattern_element_ok d (bound_name F (fst st')) (inside F M) (createBindingElement f False None name (assignment_right ?v))"
      by (simp add: createBindingElement_ok)
    with bs' targets_step_trans [OF step' rest_step] show ?thesis by (simp add: m(2))
  qed
next
  case (4 st)
  then show ?case by simp
next
  case (5 property rest st)
  have e: "inside F M property" "size property \<le> d" and rest: "\<forall>e\<in>set rest. inside F M e \<and> size e \<le> d"
    using 5(5) by simp_all
  let ?head = "if is_elem SpreadAssignment property then
          (case normalizeAssignmentTarget (field property ''expression'') st of
             (None, st') \<Rightarrow> (None, st')
           | (Some name, (targets, fresh)) \<Rightarrow>
               (Some (createBindingElement fresh True None name None), (targets, fresh + 1)))
        else if is_elem ShorthandPropertyAssignment property then
          (case st of (targets, fresh) \<Rightarrow>
             (Some (createBindingElement fresh False None (field property ''name'')
                (child property ''objectAssignmentInitializer'')), (targets, fresh + 1)))
        else if \<not> is_elem PropertyAssignment property then (None, st)
        else
          (let value = transparent (field property ''initializer'') in
           case normalizeAssignmentTarget (assignment_left value) st of
             (None, st') \<Rightarrow> (None, st')
           | (Some name, (targets, fresh)) \<Rightarrow>
               (Some (createBindingElement fresh False (Some (field property ''name'')) name (assignment_right value)),
                (targets, fresh + 1)))"
  obtain b0 st0 bs' where h: "?head = (Some b0, st0)" and m: "normalize_properties rest st0 = (Some bs', st')" "bs = b0 # bs'"
    using 5(4) unfolding normalize_properties.simps by (cases ?head) (auto split: prod.splits option.splits)
  have head: "targets_step F M st st0 \<and> pattern_element_ok d (bound_name F (fst st0)) (inside F M) b0"
  proof -
    consider (spread) "is_elem SpreadAssignment property"
      | (shorthand) "\<not> is_elem SpreadAssignment property" "is_elem ShorthandPropertyAssignment property"
      | (property) "\<not> is_elem SpreadAssignment property" "\<not> is_elem ShorthandPropertyAssignment property"
          "\<not> \<not> is_elem PropertyAssignment property"
      using h by (auto split: if_splits)
    then show ?thesis
    proof cases
      case spread
      then obtain name ts f where n: "normalizeAssignmentTarget (field property ''expression'') st = (Some name, (ts, f))"
          "b0 = createBindingElement f True None name None" "st0 = (ts, f + 1)"
        using h by (auto split: prod.splits option.splits)
      from 5(1) [OF spread n(1) inside_field_inside [OF e(1)] 5(6)]
      have step: "targets_step F M st (ts, f)"
        and ok: "pattern_ok (size (field property ''expression'')) (bound_name F ts) (inside F M) name" by auto
      have "pattern_ok d (bound_name F ts) (inside F M) name"
        by (rule pattern_ok_mono [OF ok]) (use order_trans [OF field_le e(2)] in auto)
      then show ?thesis using targets_step_fresh [OF step, of "f + 1"] by (simp add: n(2,3) createBindingElement_ok)
    next
      case shorthand
      then have n: "b0 = createBindingElement (snd st) False None (field property ''name'') (child property ''objectAssignmentInitializer'')"
          "st0 = (fst st, snd st + 1)"
        using h by (auto split: prod.splits)
      have "pattern_ok d (\<lambda>x. node_id x < F) (inside F M) (field property ''name'')"
        by (rule pattern_ok_source [OF within_field [OF inside_within [OF e(1)]] order_trans [OF field_le e(2)]])
      then have "pattern_ok d (bound_name F (fst st)) (inside F M) (field property ''name'')"
        by (rule pattern_ok_mono) (auto simp: bound_name_def)
      then show ?thesis
        using inside_child [OF inside_within [OF e(1)]] by (simp add: n createBindingElement_ok targets_step_def)
    next
      case property
      let ?v = "transparent (field property ''initializer'')"
      obtain name ts f where n: "normalizeAssignmentTarget (assignment_left ?v) st = (Some name, (ts, f))"
          "b0 = createBindingElement f False (Some (field property ''name'')) name (assignment_right ?v)" "st0 = (ts, f + 1)"
        using h property by (auto simp: Let_def split: prod.splits option.splits)
      note i = inside_field_inside [OF e(1), of "''initializer''"]
      from 5(2) [OF property refl n(1) inside_assignment_left [OF i] 5(6)]
      have step: "targets_step F M st (ts, f)"
        and ok: "pattern_ok (size (assignment_left ?v)) (bound_name F ts) (inside F M) name" by auto
      have "size (assignment_left ?v) \<le> d" using assignment_value_size(2) [of property "''initializer''"] e(2) by linarith
      then have "pattern_ok d (bound_name F ts) (inside F M) name" by (rule pattern_ok_mono [OF ok]) auto
      then show ?thesis
        using targets_step_fresh [OF step, of "f + 1"] inside_assignment_right [OF i] inside_field_inside [OF inside_field_inside [OF e(1)]]
        by (simp add: n(2,3) createBindingElement_ok)
    qed
  qed
  have "F \<le> snd st0" using targets_step_lower [OF conjunct1 [OF head]] 5(6) by simp
  from 5(3) [OF h [symmetric] refl m(1) rest this] head
  have rest_step: "targets_step F M st0 st'"
    and bs': "\<forall>b\<in>set bs'. pattern_element_ok d (bound_name F (fst st')) (inside F M) b" by auto
  have "pattern_element_ok d (bound_name F (fst st')) (inside F M) b0"
    by (rule pattern_element_ok_mono [OF conjunct2 [OF head]]) (use targets_step_bound [OF rest_step] in auto)
  with bs' targets_step_trans [OF conjunct1 [OF head] rest_step] show ?case by (simp add: m(2))
qed


lemma normalize_fresh:
  "snd st \<le> snd (snd (normalizeAssignmentTarget e st))"
  "snd st \<le> snd (snd (normalize_elements es st))"
  "snd st \<le> snd (snd (normalize_properties es st))"
proof (induction e st and es st and es st rule: normalizeAssignmentTarget_normalize_elements_normalize_properties.induct)
  case (1 expression targets fresh)
  then show ?case
    by (auto simp: normalizeAssignmentTarget.simps [of expression targets fresh] Let_def split: prod.split option.split)
next
  case (3 element rest st)
  let ?v = "transparent element"
  obtain o1 ts f where n: "normalizeAssignmentTarget (assignment_left ?v) st = (o1, (ts, f))" by (metis prod.collapse)
  have "f + 1 \<le> snd (snd (normalize_elements rest (ts, f + 1)))"
    if "\<not> is_expr OmittedExpression element" "\<not> is_expr SpreadElement element" "o1 = Some b" for b
    using 3(4) [OF that(1,2) refl n [symmetric] that(3) refl] by simp
  with 3(1-3) n show ?case
    by (auto simp: Let_def split: prod.split option.split)
next
  case (5 property rest st)
  let ?left = "assignment_left (transparent (field property ''initializer''))"
  obtain o1 ts f where n: "normalizeAssignmentTarget (field property ''expression'') st = (o1, (ts, f))" by (metis prod.collapse)
  obtain o2 ts' f' where m: "normalizeAssignmentTarget ?left st = (o2, (ts', f'))" by (metis prod.collapse)
  have 1: "is_elem SpreadAssignment property \<Longrightarrow> snd st \<le> f" using 5(1) n by simp
  have 2: "\<not> is_elem SpreadAssignment property \<Longrightarrow> \<not> is_elem ShorthandPropertyAssignment property \<Longrightarrow>
      is_elem PropertyAssignment property \<Longrightarrow> snd st \<le> f'" using 5(2) m by simp
  show ?case
    using 1 2 5(3) n m by (cases st) (auto simp: Let_def split: prod.split option.split)
qed simp_all

section \<open>What the planner emits\<close>

definition binding_part :: "resumable_state \<Rightarrow> (node \<times> (node \<times> node) list) option" where
  "binding_part st = (case st of RBinding i n b ts v w x \<Rightarrow> Some (b, ts) | _ \<Rightarrow> None)"

text \<open>A binding with targets of an expression of size \<open>M\<close> planned with supply \<open>f0\<close>.\<close>

definition planned_binding :: "nat \<Rightarrow> nat \<Rightarrow> nat \<Rightarrow> nat \<Rightarrow> node \<times> (node \<times> node) list \<Rightarrow> bool" where
  "planned_binding F M f0 f p \<longleftrightarrow>
     pattern_ok M (bound_name F (snd p)) (inside F M) (fst p) \<and>
     (\<forall>(x, t)\<in>set (snd p). f0 \<le> node_id x \<and> node_id x < f \<and> inside F M t)"

definition emitted :: "nat \<Rightarrow> nat \<Rightarrow> nat \<Rightarrow> rplan \<Rightarrow> bool" where
  "emitted F M f0 s \<longleftrightarrow>
     f0 \<le> r_fresh s \<and> (\<forall>t\<in>set (r_worklist s). within F M (task_source t)) \<and>
     (\<forall>st p. Some st \<in> set (r_states s) \<longrightarrow> binding_part st = Some p \<longrightarrow> planned_binding F M f0 (r_fresh s) p)"

definition emits :: "nat \<Rightarrow> nat \<Rightarrow> nat \<Rightarrow> 'a planner \<Rightarrow> bool" where
  "emits F M f0 m \<longleftrightarrow> (\<forall>s. emitted F M f0 s \<longrightarrow> emitted F M f0 (snd (run_state m s)))"

named_theorems emits_rules

lemma emits_return [emits_rules]: "emits F M f0 (State_Monad.return x)"
  by (simp add: emits_def)

lemma emits_bind:
  assumes "emits F M f0 m" "\<And>x. emits F M f0 (g x)"
  shows "emits F M f0 (State_Monad.bind m g)"
proof -
  have "emitted F M f0 (snd (run_state (State_Monad.bind m g) s))" if "emitted F M f0 s" for s
  proof -
    obtain x s' where m: "run_state m s = (x, s')" by fastforce
    then have "emitted F M f0 s'" using assms(1) that by (metis emits_def snd_conv)
    then have "emitted F M f0 (snd (run_state (g x) s'))" using assms(2) by (simp add: emits_def)
    with m show ?thesis by simp
  qed
  then show ?thesis by (simp add: emits_def)
qed

lemma emitted_defined:
  assumes "emitted F M f0 s" "binding_part st = None"
  shows "emitted F M f0 (s\<lparr>r_states := (r_states s)[i := Some st]\<rparr>)"
    "emitted F M f0 (s\<lparr>r_states := r_states s @ [Some st]\<rparr>)" "emitted F M f0 (s\<lparr>r_states := r_states s @ [None]\<rparr>)"
  using assms by (auto simp: emitted_def dest: set_update_subset_insert [THEN subsetD])

lemma emits_primitives [emits_rules]:
  "emits F M f0 (r_reject n)" "emits F M f0 r_throw" "emits F M f0 (r_value v)"
  "emits F M f0 (r_operation oper output next)" "emits F M f0 (r_copy a b c)" "emits F M f0 (r_jump i j)"
  by (auto simp: emits_def r_reject_def r_throw_def r_value_def r_operation_def r_new_def r_reserve_def r_put_def
      r_copy_def r_jump_def State_Monad.update_def binding_part_def list_update_append intro!: emitted_defined)
    (simp_all add: emitted_def)

lemma emits_new [emits_rules]: "(\<And>i. binding_part (st i) = None) \<Longrightarrow> (\<And>i. rid (st i) = i) \<Longrightarrow> emits F M f0 (r_new st)"
  by (auto simp: emits_def r_new_def r_reserve_def r_put_def State_Monad.update_def list_update_append intro!: emitted_defined)

lemma emits_build [emits_rules]: "within F M e \<Longrightarrow> emits F M f0 (r_build e v next exit)"
  by (auto simp: emits_def r_build_def r_reserve_def State_Monad.update_def emitted_def)

lemma emits_if [emits_rules]: "(b \<Longrightarrow> emits F M f0 m) \<Longrightarrow> (\<not> b \<Longrightarrow> emits F M f0 m') \<Longrightarrow> emits F M f0 (if b then m else m')"
  by simp

lemma emits_case_option [emits_rules]:
  "(x = None \<Longrightarrow> emits F M f0 m) \<Longrightarrow> (\<And>y. x = Some y \<Longrightarrow> emits F M f0 (g y)) \<Longrightarrow>
   emits F M f0 (case x of None \<Rightarrow> m | Some y \<Rightarrow> g y)"
  by (cases x) simp_all

lemma emits_some_entry [emits_rules]: "emits F M f0 m \<Longrightarrow> emits F M f0 (some_entry m)"
  unfolding some_entry_def by (intro emits_bind emits_rules)

lemma emits_backwards [emits_rules]:
  "(\<And>x e. x \<in> set xs \<Longrightarrow> emits F M f0 (g x e)) \<Longrightarrow> emits F M f0 (r_backwards g xs entry)"
  by (induction xs arbitrary: entry) (auto intro!: emits_bind emits_rules)


lemma emits_buildReference [emits_rules]:
  assumes "within F M n" "\<And>ref. emits F M f0 (consumer ref)"
  shows "emits F M f0 (r_buildReference n consumer exit)"
proof -
  have "within F M (field (transparent n) f)" for f by (intro within_rules assms)
  then show ?thesis
    unfolding r_buildReference_def Let_def
    by (intro emits_bind emits_rules assms(2)) (auto simp: binding_part_def)
qed

lemma emits_buildOrdered: "(\<And>e. e \<in> set (map fst cs) \<Longrightarrow> within F M e) \<Longrightarrow> emits F M f0 (r_buildOrdered cs next)"
  unfolding r_buildOrdered_def by (rule emits_backwards) (force intro!: emits_rules)

lemma emits_appendArgument [emits_rules]: "within F M e \<Longrightarrow> emits F M f0 (r_appendArgument t a e entry)"
proof -
  assume "within F M e"
  then have "within F M (snd (spread_source e))" by (auto simp: spread_source_def intro: within_rules)
  then show ?thesis
    unfolding r_appendArgument_def
    by (cases "spread_source e") (auto simp: binding_part_def intro!: emits_bind emits_rules)
qed

lemma within_call:
  assumes "within F M n"
  shows "within F M (call_target n)" "e \<in> set (call_arguments n) \<Longrightarrow> within F M e"
  using assms by (auto simp: call_target_def call_arguments_def intro!: within_field intro: within_children within_field split: if_splits)

lemma emits_callReceiver [emits_rules]: "emits F M f0 (r_callReceiver t)"
  unfolding r_callReceiver_def by (intro emits_rules)

lemma emits_call [emits_rules]:
  assumes "within F M n"
  shows "emits F M f0 (r_taggedTemplate n actuals entry)"
    "emits F M f0 (r_buildCallee n callee receiver skip entry)" "emits F M f0 (r_buildCall n output next exit)"
proof -
  show 2: "emits F M f0 (r_taggedTemplate n actuals entry)" for actuals entry
    unfolding r_taggedTemplate_def by (intro emits_bind emits_rules) (simp_all add: binding_part_def)
  show 3: "emits F M f0 (r_buildCallee n callee receiver skip entry)" for callee receiver skip entry
    unfolding r_buildCallee_def Let_def
    by (intro emits_bind emits_rules within_rules within_call(1) assms)
      (auto intro!: emits_bind emits_rules split: resumable_reference.split option.split)
  show "emits F M f0 (r_buildCall n output next exit)"
    unfolding r_buildCall_def
    by (intro emits_bind emits_rules 2 3) (auto simp: binding_part_def intro: within_call [OF assms])
qed

lemma emits_memberKey [emits_rules]: "within F M name \<Longrightarrow> emits F M f0 (r_memberKey name key entry)"
  unfolding r_memberKey_def by (intro emits_bind emits_rules within_rules)

lemma emits_objectMember [emits_rules]:
  "within F M property \<Longrightarrow> emits F M f0 (r_objectMember n output property entry)"
  unfolding r_objectMember_def Let_def
  by (intro emits_bind emits_rules within_rules) (auto simp: binding_part_def intro: within_rules)

lemma emits_literal [emits_rules]: "within F M n \<Longrightarrow> emits F M f0 (r_buildLiteral n output next)"
  unfolding r_buildLiteral_def r_arrayElement_def
  by (intro emits_bind emits_rules) (auto simp: binding_part_def intro: within_children)


subsection \<open>Tasks\<close>

lemma emits_classExpression:
  assumes "within F M n"
  shows "emits F M f0 (r_classExpression t n)"
proof -
  define d where "d = sourceClassDefinition n"
  have d: "within F M d" unfolding d_def by (rule within_definition [OF assms])
  have update: "emits F M f0 (State_Monad.update (\<lambda>s. s\<lparr>r_classDefinitions := r_classDefinitions s @ [c]\<rparr>))" for c
    by (simp add: emits_def State_Monad.update_def emitted_def)
  have stage: "emits F M f0 (r_classStage d out stage e)" if "stage \<in> set (classDefinitionPlan d)" for out stage e
  proof (cases stage)
    case (HeritageStage x)
    then show ?thesis using within_stages(1) [OF d that] unfolding r_classStage_def
      by (auto intro!: emits_bind emits_rules)
  next
    case (ElementStage m k)
    then show ?thesis using within_stages(2) [OF d that, of m] unfolding r_classStage_def
      by (cases k) (auto intro!: emits_bind emits_rules)
  qed (auto simp: r_classStage_def intro!: emits_rules)
  show ?thesis
    unfolding r_classExpression_def Let_def d_def [symmetric]
    by (intro emits_bind update emits_rules stage) simp_all
qed

lemma emits_suspension: "within F M n \<Longrightarrow> emits F M f0 (r_suspension ag t n)"
  unfolding r_suspension_def Let_def
  by (intro emits_bind emits_rules) (auto simp: binding_part_def intro!: emits_rules intro: within_child split: option.split)

lemma emits_fields:
  assumes "within F M n"
  shows "emits F M f0 (r_conditional t n)" "emits F M f0 (r_comma t n)" "emits F M f0 (r_logical oper t n)"
    "emits F M f0 (r_compoundRight oper t n a b c d)"
  unfolding r_conditional_def r_comma_def r_logical_def r_compoundRight_def
  by (intro emits_bind emits_rules within_rules assms; simp add: binding_part_def)+

lemma emits_destructure:
  assumes "within F M n" "target = transparent (field n ''left'')" "target \<noteq> missing_node" "F \<le> f0"
  shows "emits F M f0 (r_destructure t n target)"
proof -
  have left: "field n ''left'' \<noteq> missing_node" using assms(2,3) transparent_id [of missing_node] by (auto simp: is_transparent_def missing_node_def)
  have target: "inside F M target" unfolding assms(2) by (intro inside_transparent inside_field assms(1) left)
  have "emitted F M f0 (snd (run_state (r_destructure t n target) s))" if s: "emitted F M f0 s" for s
  proof -
    obtain b ts f where n: "normalizeAssignmentTarget target ([], r_fresh s) = (b, (ts, f))" by (metis prod.collapse)
    have f: "r_fresh s \<le> f" using normalize_fresh(1) [of "([], r_fresh s)" target] n by simp
    have F: "F \<le> snd ([], r_fresh s)" using s assms(4) by (simp add: emitted_def)
    have mono: "planned_binding F M f0 (r_fresh s) p \<Longrightarrow> planned_binding F M f0 f p" for p
      using f by (auto simp: planned_binding_def)
    have s': "emitted F M f0 (s\<lparr>r_fresh := f\<rparr>)" using s f mono by (auto simp: emitted_def)
    show ?thesis
    proof (cases b)
      case None
      then show ?thesis using n s' emits_primitives(1) [of F M f0 "field n ''left''"] by (simp add: r_destructure_def emits_def)
    next
      case (Some binding)
      from normalize_ok(1) [OF n [unfolded Some] target F]
      have step: "targets_step F M ([], r_fresh s) (ts, f)" and ok: "pattern_ok (size target) (bound_name F ts) (inside F M) binding"
        by auto
      have "pattern_ok M (bound_name F ts) (inside F M) binding"
        by (rule pattern_ok_mono [OF ok]) (use target in \<open>simp_all add: inside_def\<close>)
      then have planned: "planned_binding F M f0 f (binding, ts)"
        using step s by (fastforce simp: planned_binding_def targets_step_def emitted_def)
      have bind: "emitted F M f0 (snd (run_state (r_new (\<lambda>i. RBinding i n binding ts right (task_output t) (task_next t))) q))"
        if "emitted F M f0 q" "f = r_fresh q" for q right
        using that planned
        by (auto simp: r_new_def r_reserve_def r_put_def State_Monad.update_def list_update_append emitted_def binding_part_def)
      obtain right q where q: "run_state (r_value (field n ''right'')) (s\<lparr>r_fresh := f\<rparr>) = (right, q)" by fastforce
      then have "emitted F M f0 q" "f = r_fresh q"
        using s' emits_primitives(3) [of F M f0 "field n ''right''"] unfolding emits_def by (metis snd_conv, auto simp: r_value_def)
      moreover obtain j q2 where q2: "run_state (r_new (\<lambda>i. RBinding i n binding ts right (task_output t) (task_next t))) q = (j, q2)"
        by fastforce
      ultimately have "emitted F M f0 q2" using bind [of q right] by simp
      have rest: "emits F M f0 (do { entry \<leftarrow> r_build (field n ''right'') right bind None; r_jump (task_anchor t) entry })"
        for right bind by (intro emits_bind emits_rules within_rules assms(1))
      from this [of right j] \<open>emitted F M f0 q2\<close>
      have "emitted F M f0 (snd (run_state (do { entry \<leftarrow> r_build (field n ''right'') right j None; r_jump (task_anchor t) entry }) q2))"
        by (simp add: emits_def)
      then show ?thesis using n Some q q2 by (simp add: r_destructure_def)
    qed
  qed
  then show ?thesis by (simp add: emits_def)
qed


lemma emits_assign:
  assumes "within F M n" "F \<le> f0"
  shows "emits F M f0 (r_assign t n)"
proof -
  have "transparent (field n ''left'') \<noteq> missing_node"
    if "is_expr ArrayLiteralExpression (transparent (field n ''left'')) \<or> is_expr ObjectLiteralExpression (transparent (field n ''left''))"
    using that kind_not_missing(1) by blast
  then show ?thesis
    unfolding r_assign_def Let_def
    by (intro emits_if emits_destructure assms refl emits_bind emits_rules within_rules) simp_all
qed

lemma emits_updates:
  assumes "within F M n"
  shows "emits F M f0 (r_compound oper t n)" "emits F M f0 (r_delete t n)" "emits F M f0 (r_template t n)"
proof -
  show "emits F M f0 (r_compound oper t n)" "emits F M f0 (r_delete t n)"
    unfolding r_compound_def r_delete_def Let_def
    by (intro emits_bind emits_rules emits_fields within_rules assms)+
  have "emits F M f0 (r_templateSpan out span e)" if "span \<in> set (children n ''templateSpans'')" for out span e
    unfolding r_templateSpan_def
    by (intro emits_bind emits_rules within_rules within_children [OF assms that]) (simp_all add: binding_part_def)
  then show "emits F M f0 (r_template t n)"
    unfolding r_template_def by (intro emits_bind emits_rules) simp_all
qed

lemma emits_bind_inputs:
  assumes "\<And>inputs. map fst inputs = es \<Longrightarrow> emits F M f0 (g inputs)"
  shows "emits F M f0 (State_Monad.bind (r_inputs es) g)"
proof -
  have inputs: "emits F M f0 (r_inputs es)" by (induction es) (auto intro!: emits_bind emits_rules)
  have "emitted F M f0 (snd (run_state (State_Monad.bind (r_inputs es) g) s))" if s: "emitted F M f0 s" for s
  proof -
    obtain xs s' where i: "run_state (r_inputs es) s = (xs, s')" by fastforce
    then have "emitted F M f0 s'" using inputs s by (metis emits_def snd_conv)
    moreover have "emits F M f0 (g xs)" using assms [of xs] inputs_fst [of es s] i by simp
    ultimately show ?thesis using i by (simp add: emits_def)
  qed
  then show ?thesis by (simp add: emits_def)
qed

lemma emits_ordinary:
  assumes "within F M n"
  shows "emits F M f0 (r_ordinary t n)"
proof (cases "operand_children n")
  case (Some es)
  have "within F M e" if "e \<in> set es" for e
    using Some that within_field [OF assms] by (auto simp: operand_children_def split: if_splits)
  then show ?thesis
    unfolding r_ordinary_def Some option.case
    by (intro emits_bind_inputs emits_bind emits_rules emits_buildOrdered) simp
qed (simp add: r_ordinary_def emits_rules)

lemma emits_other: "within F M n \<Longrightarrow> emits F M f0 (r_other t n exit)"
  unfolding r_other_def
  by (intro emits_bind emits_rules emits_updates emits_ordinary within_rules; assumption)

lemma emits_binary: "within F M n \<Longrightarrow> F \<le> f0 \<Longrightarrow> emits F M f0 (r_binary t n exit)"
  unfolding r_binary_def
  by (intro emits_case_option emits_if emits_fields emits_assign emits_updates emits_other)

lemma emits_task:
  assumes "within F M (task_source t)" "F \<le> f0"
  shows "emits F M f0 (r_task ag dec t)"
  unfolding r_task_def Let_def
  by (intro emits_bind emits_rules emits_classExpression emits_suspension emits_fields emits_binary within_rules assms)

lemma r_run_emitted:
  assumes "F \<le> f0"
  shows "emitted F M f0 s \<Longrightarrow> emitted F M f0 (r_run fuel ag dec s)"
proof (induction fuel arbitrary: s)
  case (Suc fuel)
  show ?case
  proof (cases "r_worklist s")
    case (Cons t rest)
    have "within F M (task_source t)" using Suc.prems Cons by (simp add: emitted_def)
    moreover have "emitted F M f0 (s\<lparr>r_worklist := rest\<rparr>)" using Suc.prems Cons by (simp add: emitted_def)
    ultimately have "emitted F M f0 (snd (run_state (r_task ag dec t) (s\<lparr>r_worklist := rest\<rparr>)))"
      using emits_task [OF _ assms] by (simp add: emits_def)
    from Suc.IH [OF this] show ?thesis using Suc.prems Cons by simp
  qed (use Suc.prems in simp)
qed simp

subsection \<open>The published graph\<close>

lemma with_binding: "binding_part (with_next x (with_id i st)) = binding_part st"
  by (cases st) (simp_all add: with_next_def with_id_def binding_part_def)

lemma compact_state_binding: "compact_state states resolved i st = (st', r) \<Longrightarrow> binding_part st' = binding_part st"
  by (cases st) (auto simp: compact_state_def with_next_def with_id_def binding_part_def split: prod.splits)

lemma compact_states_binding:
  "compact_states states resolved xs = (sts, r) \<Longrightarrow> binding_part ` set sts \<subseteq> binding_part ` snd ` set xs"
  by (induction states resolved xs arbitrary: sts r rule: compact_states.induct)
    (fastforce split: prod.splits dest: compact_state_binding)+

text \<open>The graph of an expression: the bindings in it, and the supply after it.\<close>

lemma planResumableExpression_bindings:
  assumes "within F M expression" "F \<le> fresh"
    and plan: "planResumableExpression env ag expression fresh = (result, fresh')"
  shows "fresh \<le> fresh'"
    "result = PlanGraph g \<Longrightarrow> st \<in> set (graph_states g) \<Longrightarrow> binding_part st = Some p \<Longrightarrow> planned_binding F M fresh fresh' p"
proof -
  obtain entry s0 where start: "run_state (r_start expression) (r_initial fresh) = (entry, s0)" by fastforce
  define s where "s = r_run (task_cost expression) ag (is_decomposed (decomposed_map env expression)) s0"
  have "emitted F M fresh (r_initial fresh)" by (simp add: r_initial_def emitted_def)
  moreover have "emits F M fresh (r_start expression)"
    unfolding r_start_def by (intro emits_bind emits_rules assms(1)) (simp_all add: binding_part_def)
  ultimately have "emitted F M fresh s0" using start by (metis emits_def snd_conv)
  then have s: "emitted F M fresh s" unfolding s_def by (rule r_run_emitted [OF assms(2)])
  have eq: "planResumableExpression env ag expression fresh =
      (if r_thrown s then PlanThrows
       else case r_failure s of
           Some n \<Rightarrow> PlanUnsupported n
         | None \<Rightarrow> if r_worklist s \<noteq> [] then PlanOutOfFuel else if None \<in> set (r_states s) then PlanThrows
                  else PlanGraph (r_publish s entry), r_fresh s)"
    unfolding planResumableExpression_def start prod.case Let_def s_def [symmetric] by simp
  show "fresh \<le> fresh'" using s plan eq by (simp add: emitted_def)
  assume g: "result = PlanGraph g" and st: "st \<in> set (graph_states g)" "binding_part st = Some p"
  have graph: "g = r_publish s entry" "None \<notin> set (r_states s)" and f: "fresh' = r_fresh s"
    using plan g unfolding eq by (auto split: if_splits option.splits)
  define retained where "retained = filter (\<lambda>st. \<not> is_jump st) (map the (r_states s))"
  obtain sts r where sts: "compact_states (map the (r_states s)) [] (enumerate 0 retained) = (sts, r)" by fastforce
  have "graph_states g = sts" using sts by (simp add: graph(1) r_publish_def retained_def split: prod.split)
  then obtain i st0 where "(i, st0) \<in> set (enumerate 0 retained)" "binding_part st0 = Some p"
    using compact_states_binding [OF sts] st by fastforce
  then have "st0 \<in> set retained" by (auto simp: in_set_enumerate_eq)
  then have "Some st0 \<in> set (r_states s)" using graph(2) by (auto simp: retained_def) (metis option.collapse)
  then show "planned_binding F M fresh fresh' p" using s \<open>binding_part st0 = Some p\<close> unfolding emitted_def f by blast
qed

end
