(* ===== verification/Async_Cfg_Agree.thy ===== *)
theory Async_Cfg_Agree
  imports Async_Cfg_Graph Resumable_Bindings
begin

text \<open>
  The recursion of the control-flow planner ends: from some fuel on, more fuel does not change the plan. Two runs
  of an action that differ in the fuel of the recursive calls are compared, \<open>agree\<close>, and the rules for it follow
  the structure of the planner. What makes the recursion end is kept in a frame: the nodes that own a scope, the
  resources that have one, and the assignment targets of the expression that is planned.
\<close>

section \<open>Frames\<close>

text \<open>
  Nodes of the source are numbered below \<open>fr_source\<close>; \<open>fr_targets\<close> are the names that stand for property
  References in the current expression, with these References, whose size is below \<open>fr_size\<close>.
\<close>

record plan_frame =
  fr_source :: nat
  fr_owners :: "node set"
  fr_resources :: "node set"
  fr_targets :: "(node \<times> node) set"
  fr_size :: nat

fun staged_node :: "staged_expression \<Rightarrow> node" where
  "staged_node (StagedSync e slot) = e"
| "staged_node (StagedResult e slot) = e"

fun target_nodes :: "binding_assignment_target \<Rightarrow> node list" where
  "target_nodes (PropertyTarget n r) = [staged_node r]"
| "target_nodes (ElementTarget n r i) = [staged_node r, staged_node i]"

abbreviation frame_expr :: "plan_frame \<Rightarrow> node \<Rightarrow> bool" where
  "frame_expr c e \<equiv> inside (fr_source c) (fr_size c) e"

definition frame_name :: "plan_frame \<Rightarrow> node \<Rightarrow> bool" where
  "frame_name c x \<longleftrightarrow> node_id x < fr_source c \<or> x \<in> fst ` fr_targets c"

abbreviation owners :: "bstate \<Rightarrow> node set" where "owners s \<equiv> set (b_retainedScopeOwners s)"
abbreviation bound_resources :: "bstate \<Rightarrow> node set" where "bound_resources s \<equiv> fst ` set (b_resourceBindings s)"
abbreviation planned_target :: "bstate \<Rightarrow> node \<Rightarrow> binding_assignment_target \<Rightarrow> bool" where
  "planned_target s x p \<equiv> (x, Some p) \<in> set (b_bindingAssignmentTargets s)"

definition frame_ok :: "plan_frame \<Rightarrow> bstate \<Rightarrow> bool" where
  "frame_ok c s \<longleftrightarrow>
     \<not> b_exhausted s \<and> fr_source c \<le> b_fresh s \<and> fr_owners c \<subseteq> owners s \<and> fr_resources c \<subseteq> bound_resources s \<and>
     (\<forall>x p. planned_target s x p \<longrightarrow> fr_source c \<le> node_id x \<and> node_id x < b_fresh s \<and>
        (x \<in> fst ` fr_targets c \<longrightarrow> list_all (frame_expr c) (target_nodes p))) \<and>
     (\<forall>(x, t)\<in>fr_targets c. fr_source c \<le> node_id x \<and> node_id x < b_fresh s \<and> frame_expr c t)"

definition advances :: "plan_frame \<Rightarrow> bstate \<Rightarrow> bstate \<Rightarrow> bool" where
  "advances c s s' \<longleftrightarrow>
     frame_ok c s' \<and> b_fresh s \<le> b_fresh s' \<and> owners s \<subseteq> owners s' \<and> bound_resources s \<subseteq> bound_resources s' \<and>
     (\<forall>x p. planned_target s' x p \<longrightarrow> planned_target s x p \<or> x \<in> fst ` fr_targets c \<or> b_fresh s \<le> node_id x)"

definition agree :: "plan_frame \<Rightarrow> ('a \<Rightarrow> bool) \<Rightarrow> 'a builder \<Rightarrow> 'a builder \<Rightarrow> bool" where
  "agree c Q m m' \<longleftrightarrow>
     (\<forall>s. frame_ok c s \<longrightarrow> run_state m s = run_state m' s \<and> advances c s (snd (run_state m s)) \<and> Q (fst (run_state m s)))"

abbreviation agrees :: "plan_frame \<Rightarrow> 'a builder \<Rightarrow> 'a builder \<Rightarrow> bool" where
  "agrees c \<equiv> agree c (\<lambda>_. True)"

lemma advances_refl: "frame_ok c s \<Longrightarrow> advances c s s"
  by (simp add: advances_def)

lemma advances_trans: "advances c s s' \<Longrightarrow> advances c s' s'' \<Longrightarrow> advances c s s''"
  unfolding advances_def by (meson order_trans)

lemma agreeD:
  "agree c Q m m' \<Longrightarrow> frame_ok c s \<Longrightarrow> run_state m' s = run_state m s \<and> advances c s (snd (run_state m s)) \<and> Q (fst (run_state m s))"
  unfolding agree_def by metis

section \<open>Rules\<close>

named_theorems agree_rules

lemma agree_return [agree_rules]: "Q x \<Longrightarrow> agree c Q (State_Monad.return x) (State_Monad.return x)"
  by (simp add: agree_def advances_refl)

lemmas [agree_rules] = TrueI

lemma agree_bind:
  assumes "agree c P m m'" "\<And>x. P x \<Longrightarrow> agree c Q (f x) (f' x)"
  shows "agree c Q (State_Monad.bind m f) (State_Monad.bind m' f')"
  unfolding agree_def
proof (intro allI impI)
  fix s
  assume s: "frame_ok c s"
  obtain x t where m: "run_state m s = (x, t)" by fastforce
  with agreeD [OF assms(1) s] have m': "run_state m' s = (x, t)" and t: "advances c s t" and x: "P x" by auto
  then have ok: "frame_ok c t" by (simp add: advances_def)
  from agreeD [OF assms(2) [OF x] ok] m m' t
  show "run_state (State_Monad.bind m f) s = run_state (State_Monad.bind m' f') s \<and>
      advances c s (snd (run_state (State_Monad.bind m f) s)) \<and> Q (fst (run_state (State_Monad.bind m f) s))"
    using advances_trans by auto
qed

lemmas agree_seq [agree_rules] = agree_bind [where P = "\<lambda>_. True", simplified]

lemma agree_if [agree_rules]:
  "(b \<Longrightarrow> agree c Q m m') \<Longrightarrow> (\<not> b \<Longrightarrow> agree c Q n n') \<Longrightarrow> agree c Q (if b then m else n) (if b then m' else n')"
  by simp

lemma agree_case_option [agree_rules]:
  "(x = None \<Longrightarrow> agree c Q m m') \<Longrightarrow> (\<And>y. x = Some y \<Longrightarrow> agree c Q (f y) (f' y)) \<Longrightarrow>
   agree c Q (case x of None \<Rightarrow> m | Some y \<Rightarrow> f y) (case x of None \<Rightarrow> m' | Some y \<Rightarrow> f' y)"
  by (cases x) simp_all

lemma agree_case_prod [agree_rules]:
  "(\<And>a b. x = (a, b) \<Longrightarrow> agree c Q (f a b) (f' a b)) \<Longrightarrow> agree c Q (case x of (a, b) \<Rightarrow> f a b) (case x of (a, b) \<Rightarrow> f' a b)"
  by (cases x) simp

lemma agree_case_list [agree_rules]:
  "(x = [] \<Longrightarrow> agree c Q m m') \<Longrightarrow> (\<And>y ys. x = y # ys \<Longrightarrow> agree c Q (f y ys) (f' y ys)) \<Longrightarrow>
   agree c Q (case x of [] \<Rightarrow> m | y # ys \<Rightarrow> f y ys) (case x of [] \<Rightarrow> m' | y # ys \<Rightarrow> f' y ys)"
  by (cases x) simp_all

lemma agree_weaken: "agree c P m m' \<Longrightarrow> (\<And>x. P x \<Longrightarrow> Q x) \<Longrightarrow> agree c Q m m'"
  unfolding agree_def by blast

lemma agree_True: "agree c P m m' \<Longrightarrow> agrees c m m'"
  by (erule agree_weaken) simp

text \<open>Actions on the fields that frames do not mention.\<close>

definition same_frame :: "bstate \<Rightarrow> bstate \<Rightarrow> bool" where
  "same_frame s s' \<longleftrightarrow> b_exhausted s' = b_exhausted s \<and> b_fresh s' = b_fresh s \<and> b_retainedScopeOwners s' = b_retainedScopeOwners s \<and>
     b_resourceBindings s' = b_resourceBindings s \<and> b_bindingAssignmentTargets s' = b_bindingAssignmentTargets s"

lemma same_frame_advances: "same_frame s s' \<Longrightarrow> frame_ok c s \<Longrightarrow> advances c s s'"
  by (simp add: same_frame_def advances_def frame_ok_def)

lemma agree_same_frame: "(\<And>s. same_frame s (snd (run_state m s))) \<Longrightarrow> agrees c m m"
  by (simp add: agree_def same_frame_advances)

lemma agree_update [agree_rules]:
  "(\<And>s. same_frame s (g s)) \<Longrightarrow> agrees c (State_Monad.update g) (State_Monad.update g)"
  by (rule agree_same_frame) (simp add: State_Monad.update_def)

lemma same_frame_fields [simp]:
  "same_frame s (s\<lparr>b_states := a\<rparr>)" "same_frame s (s\<lparr>b_supported := b\<rparr>)" "same_frame s (s\<lparr>b_currentLoopDepth := d\<rparr>)"
  "same_frame s (s\<lparr>b_loopAwaitDepth := d\<rparr>)" "same_frame s (s\<lparr>b_iterationSlot := e\<rparr>)"
  "same_frame s (s\<lparr>b_retainedSwitchDiscriminators := f\<rparr>)"
  by (simp_all add: same_frame_def)

lemma agree_read [agree_rules]: "agrees c (b_read f) (b_read f)"
  by (rule agree_same_frame) (simp add: b_read_def same_frame_def)

lemma agree_primitives [agree_rules]:
  "agrees c b_reserve b_reserve" "agrees c (setState i core exc) (setState i core exc)"
  "agrees c (newState core exc) (newState core exc)" "agrees c (b_unsupported x) (b_unsupported x)" "agrees c b_throw b_throw"
  "agrees c (pushResult e) (pushResult e)" "agrees c (pushOperationResult e) (pushOperationResult e)"
  "agrees c nextBindingValue nextBindingValue" "agrees c (nextIterator a) (nextIterator a)" "agrees c nextFinally nextFinally"
  "agrees c countAwait countAwait" "agrees c (addDeclaration e) (addDeclaration e)"
  "agrees c (addBindingIdentifiers ids) (addBindingIdentifiers ids)"
  "agrees c (buildBindingOperation oper next ctx) (buildBindingOperation oper next ctx)"
  "agrees c (planBindingStagedExpression opts e) (planBindingStagedExpression opts e)"
  "agrees c (retainSwitch e i) (retainSwitch e i)" "agrees c (changeLoopDepth g) (changeLoopDepth g)"
  "agrees c (isScopeOwner e) (isScopeOwner e)"
  by (rule agree_same_frame; simp add: same_frame_def b_reserve_def setState_def newState_def b_unsupported_def b_throw_def pushResult_def
      pushOperationResult_def nextBindingValue_def nextIterator_def nextFinally_def countAwait_def addDeclaration_def
      addBindingIdentifiers_def buildBindingOperation_def planBindingStagedExpression_def retainSwitch_def changeLoopDepth_def
      isScopeOwner_def b_read_def State_Monad.update_def split: option.split)+

lemma agree_map [agree_rules]: "(\<And>x. agrees c (f x) (f' x)) \<Longrightarrow> agrees c (b_map f xs) (b_map f' xs)"
  by (induction xs) (auto intro!: agree_rules)

lemma agree_collectDeclarations [agree_rules]: "agrees c (collectDeclarations ds) (collectDeclarations ds)"
  by (induction ds) (auto intro!: agree_rules)


section \<open>Nested frames\<close>

lemma advances_nested:
  assumes s: "frame_ok c s" "b_fresh s \<le> f"
    and c': "fr_source c' = fr_source c" "fr_owners c \<subseteq> fr_owners c'" "fr_resources c \<subseteq> fr_resources c'"
      "\<forall>(x, t)\<in>fr_targets c'. b_fresh s \<le> node_id x"
    and t: "advances c' (s\<lparr>b_fresh := f\<rparr>) t"
  shows "advances c s t"
proof -
  have new: "planned_target s x p \<or> b_fresh s \<le> node_id x" if "planned_target t x p" for x p
  proof -
    have "planned_target s x p \<or> x \<in> fst ` fr_targets c' \<or> f \<le> node_id x"
      using t that unfolding advances_def by simp
    then consider "planned_target s x p" | "x \<in> fst ` fr_targets c'" | "f \<le> node_id x" by blast
    then show ?thesis by cases (use c'(4) s(2) in auto)
  qed
  have table: "fr_source c \<le> node_id x \<and> node_id x < b_fresh t \<and> (x \<in> fst ` fr_targets c \<longrightarrow> list_all (frame_expr c) (target_nodes p))"
    if "planned_target t x p" for x p
  proof -
    have "fr_source c \<le> node_id x \<and> node_id x < b_fresh t" using t c'(1) that by (auto simp: advances_def frame_ok_def)
    moreover have "planned_target s x p" if "x \<in> fst ` fr_targets c"
      using new [OF \<open>planned_target t x p\<close>] that s(1) by (fastforce simp: frame_ok_def)
    ultimately show ?thesis using s(1) unfolding frame_ok_def by blast
  qed
  have "b_fresh s \<le> b_fresh t" using t s(2) by (simp add: advances_def)
  moreover have "\<forall>(x, e)\<in>fr_targets c. fr_source c \<le> node_id x \<and> node_id x < b_fresh t \<and> frame_expr c e"
    using s(1) calculation by (fastforce simp: frame_ok_def)
  moreover have "\<not> b_exhausted t" "fr_source c \<le> b_fresh t" "fr_owners c \<subseteq> owners t" "fr_resources c \<subseteq> bound_resources t"
      "owners s \<subseteq> owners t" "bound_resources s \<subseteq> bound_resources t"
    using t c'(1-3) by (auto simp: advances_def frame_ok_def)
  ultimately show ?thesis
    using table new unfolding advances_def frame_ok_def by blast
qed

lemma agree_lift:
  assumes "agree c' Q m m'" "fr_source c' = fr_source c" "fr_owners c' = fr_owners c" "fr_resources c' = fr_resources c" "fr_targets c' = {}"
  shows "agree c Q m m'"
  unfolding agree_def
proof (intro allI impI)
  fix s
  assume s: "frame_ok c s"
  then have s': "frame_ok c' s" using assms(2-5) by (simp add: frame_ok_def)
  have "advances c s (snd (run_state m s))"
    by (rule advances_nested [OF s order_refl assms(2)]) (use agreeD [OF assms(1) s'] assms(3-5) in simp_all)
  then show "run_state m s = run_state m' s \<and> advances c s (snd (run_state m s)) \<and> Q (fst (run_state m s))"
    using agreeD [OF assms(1) s'] by simp
qed

section \<open>Expressions\<close>

text \<open>The fuel of \<open>buildBindingName\<close>: the depth of the pattern, and a bound for the expressions in it.\<close>

definition bind_agree :: "nat \<Rightarrow> bind_name \<Rightarrow> bind_name \<Rightarrow> bool" where
  "bind_agree k bn bn' \<longleftrightarrow>
     (\<forall>c d binding slot next ctx targets initialize.
        d + fr_size c * (fr_size c + 1) \<le> k \<longrightarrow> set targets \<subseteq> fr_targets c \<longrightarrow> pattern_ok d (frame_name c) (frame_expr c) binding \<longrightarrow>
        agrees c (bn binding slot next ctx targets initialize) (bn' binding slot next ctx targets initialize))"

definition plannable :: "nat \<Rightarrow> nat \<Rightarrow> node \<Rightarrow> bool" where
  "plannable F k e \<longleftrightarrow> names_below F e \<and> size e + size e * (size e + 1) \<le> k"

lemma frame_expr_plannable:
  assumes "frame_expr c e" "fr_size c * (fr_size c + 1) \<le> k"
  shows "plannable (fr_source c) k e"
proof -
  have "size e < fr_size c" using assms(1) by (simp add: inside_def)
  then have "size e + 1 \<le> fr_size c" by linarith
  then have "(size e + 1) * (size e + 1) \<le> fr_size c * fr_size c" by (metis mult_le_mono)
  then have "size e + size e * (size e + 1) \<le> fr_size c * (fr_size c + 1)" by simp
  then show ?thesis using assms by (simp add: plannable_def inside_def)
qed

lemma agree_bindingFromValueSlot:
  assumes "bind_agree k bn bn'" "d + fr_size c * (fr_size c + 1) \<le> k" "set targets \<subseteq> fr_targets c"
    "pattern_ok d (frame_name c) (frame_expr c) binding"
  shows "agrees c (buildBindingFromValueSlot bn binding next ctx targets i) (buildBindingFromValueSlot bn' binding next ctx targets i)"
  using assms unfolding buildBindingFromValueSlot_def bind_agree_def by (intro agree_rules) simp_all

definition graph_frame :: "plan_frame \<Rightarrow> nat \<Rightarrow> resumable_state list \<Rightarrow> plan_frame" where
  "graph_frame c M sts = c\<lparr>fr_targets := \<Union>(set ` snd ` {p. Some p \<in> binding_part ` set sts}), fr_size := M\<rparr>"

lemma agree_expressionOperations:
  assumes "bind_agree k bn bn'" "M + fr_size c * (fr_size c + 1) \<le> k"
    and "\<And>st b ts. st \<in> set sts \<Longrightarrow> binding_part st = Some (b, ts) \<Longrightarrow>
      set ts \<subseteq> fr_targets c \<and> pattern_ok M (frame_name c) (frame_expr c) b"
  shows "agrees c (expressionOperations opts bn ctx graph slots targets ct sts) (expressionOperations opts bn' ctx graph slots targets ct sts)"
  using assms(3)
proof (induction sts)
  case (Cons st sts)
  have operation: "agrees c (resumableOperation opts ctx graph slots targets ct st) (resumableOperation opts ctx graph slots targets ct st)"
    unfolding resumableOperation_def by (intro agree_rules)
  have binding: "agrees c (bindingStateOperation bn ctx slots targets i n b ts v w x) (bindingStateOperation bn' ctx slots targets i n b ts v w x)"
    if "st = RBinding i n b ts v w x" for i n b ts v w x
    unfolding bindingStateOperation_def
    by (intro agree_rules agree_bindingFromValueSlot [OF assms(1,2)]) (use Cons.prems [of st b ts] that in \<open>simp_all add: binding_part_def\<close>)
  have rest: "agrees c (expressionOperations opts bn ctx graph slots targets ct sts) (expressionOperations opts bn' ctx graph slots targets ct sts)"
    by (rule Cons.IH) (rule Cons.prems, simp_all)
  show ?case
    unfolding expressionOperations.simps
    by (intro agree_rules rest) (cases st; use operation binding in simp)
qed (simp add: agree_rules)

lemma agree_expressionGraph:
  assumes "bind_agree k bn bn'" "M + fr_size c * (fr_size c + 1) \<le> k"
    and "\<And>st b ts. st \<in> set (graph_states graph) \<Longrightarrow> binding_part st = Some (b, ts) \<Longrightarrow>
      set ts \<subseteq> fr_targets c \<and> pattern_ok M (frame_name c) (frame_expr c) b"
  shows "agrees c (expressionGraph opts bn e a next ctx completion branch slot graph) (expressionGraph opts bn' e a next ctx completion branch slot graph)"
  unfolding expressionGraph_def Let_def
  by (intro agree_rules agree_expressionOperations [OF assms]) simp_all

lemma agree_expressionSequence:
  assumes "bind_agree k bn bn'" "plannable (fr_source c) k e"
  shows "agrees c (buildExpressionSequence opts bn e a next ctx completion branch slot) (buildExpressionSequence opts bn' e a next ctx completion branch slot)"
  unfolding agree_def
proof (intro allI impI)
  fix s
  assume s: "frame_ok c s"
  let ?M = "size e"
  obtain plan f where plan: "planResumableExpression (syntax_env opts) (suspensionKind opts = AsyncGeneratorFunctions) e (b_fresh s) = (plan, f)"
    by fastforce
  have e: "within (fr_source c) ?M e" using assms(2) by (simp add: plannable_def within_def)
  have F: "fr_source c \<le> b_fresh s" using s by (simp add: frame_ok_def)
  note planned = planResumableExpression_bindings [OF e F plan]
  have f: "b_fresh s \<le> f" by (rule planned(1))
  let ?s = "s\<lparr>b_fresh := f\<rparr>"
  have keep: "advances c s ?s"
    using s f by (fastforce simp: advances_def frame_ok_def)
  let ?run = "\<lambda>bn. run_state (buildExpressionSequence opts bn e a next ctx completion branch slot) s"
  show "?run bn = ?run bn' \<and> advances c s (snd (?run bn)) \<and> True"
  proof (cases plan)
    case (PlanGraph graph)
    let ?c = "graph_frame c ?M (graph_states graph)"
    have fields: "fr_source ?c = fr_source c" "fr_owners ?c = fr_owners c" "fr_resources ?c = fr_resources c" "fr_size ?c = ?M"
      by (simp_all add: graph_frame_def)
    have part: "planned_binding (fr_source c) ?M (b_fresh s) f p" if "st \<in> set (graph_states graph)" "binding_part st = Some p" for st p
      using planned(2) [OF PlanGraph that] .
    have targets: "b_fresh s \<le> node_id x \<and> node_id x < f \<and> inside (fr_source c) ?M t" if xt: "(x, t) \<in> fr_targets ?c" for x t
    proof -
      have "\<exists>p. Some p \<in> binding_part ` set (graph_states graph) \<and> (x, t) \<in> set (snd p)"
        using xt unfolding graph_frame_def by simp
      then obtain st p where "st \<in> set (graph_states graph)" "binding_part st = Some p" "(x, t) \<in> set (snd p)"
        by (metis imageE)
      with part [of st p] show ?thesis by (fastforce simp: planned_binding_def)
    qed
    have ok: "frame_ok ?c ?s"
      unfolding frame_ok_def fields
    proof (intro conjI allI impI ballI)
      fix x p
      assume "planned_target ?s x p"
      then have x: "fr_source c \<le> node_id x" "node_id x < b_fresh s" using s by (auto simp: frame_ok_def)
      then show "fr_source c \<le> node_id x" "node_id x < b_fresh ?s" using f by simp_all
      assume "x \<in> fst ` fr_targets ?c"
      then show "list_all (inside (fr_source c) ?M) (target_nodes p)" using targets x(2) by fastforce
    next
      fix xt
      assume "xt \<in> fr_targets ?c"
      then show "case xt of (x, t) \<Rightarrow> fr_source c \<le> node_id x \<and> node_id x < b_fresh ?s \<and> inside (fr_source c) ?M t"
        using targets F by fastforce
    qed (use s F f in \<open>auto simp: frame_ok_def\<close>)
    have "agrees ?c (expressionGraph opts bn e a next ctx completion branch slot graph) (expressionGraph opts bn' e a next ctx completion branch slot graph)"
    proof (rule agree_expressionGraph [OF assms(1), of ?M])
      show "?M + fr_size ?c * (fr_size ?c + 1) \<le> k" using assms(2) by (simp add: plannable_def fields)
      fix st b ts
      assume st: "st \<in> set (graph_states graph)" "binding_part st = Some (b, ts)"
      have ts: "set ts \<subseteq> fr_targets ?c" using st by (force simp: graph_frame_def)
      have "pattern_ok ?M (bound_name (fr_source c) ts) (inside (fr_source c) ?M) b" using part [OF st] by (simp add: planned_binding_def)
      then have "pattern_ok ?M (frame_name ?c) (frame_expr ?c) b"
        by (rule pattern_ok_mono) (use ts in \<open>auto simp: bound_name_def frame_name_def fields\<close>)
      with ts show "set ts \<subseteq> fr_targets ?c \<and> pattern_ok ?M (frame_name ?c) (frame_expr ?c) b" ..
    qed
    from agreeD [OF this ok]
    have run: "run_state (expressionGraph opts bn' e a next ctx completion branch slot graph) ?s =
        run_state (expressionGraph opts bn e a next ctx completion branch slot graph) ?s"
      and adv: "advances ?c ?s (snd (run_state (expressionGraph opts bn e a next ctx completion branch slot graph) ?s))" by simp_all
    have "advances c s (snd (run_state (expressionGraph opts bn e a next ctx completion branch slot graph) ?s))"
      by (rule advances_nested [OF s f _ _ _ _ adv]) (use targets fields in auto)
    moreover have "?run b = run_state (expressionGraph opts b e a next ctx completion branch slot graph) ?s" for b
      using plan PlanGraph by (simp add: buildExpressionSequence_def b_planExpression_def b_read_def State_Monad.update_def Let_def)
    ultimately show ?thesis using run by simp
  next
    case PlanOutOfFuel
    then show ?thesis
      using planResumableExpression_wf [of "syntax_env opts" "suspensionKind opts = AsyncGeneratorFunctions" e "b_fresh s"] plan by simp
  next
    case PlanThrows
    then show ?thesis
      using planResumableExpression_wf [of "syntax_env opts" "suspensionKind opts = AsyncGeneratorFunctions" e "b_fresh s"] plan by simp
  next
    case (PlanUnsupported n)
    then show ?thesis
      using plan keep by (simp add: buildExpressionSequence_def b_planExpression_def b_read_def State_Monad.update_def Let_def)
  qed
qed


lemma agree_expressionResult:
  assumes "bind_agree k bn bn'" "plannable (fr_source c) k e"
  shows "agrees c (buildExpressionResult opts bn e slot next ctx) (buildExpressionResult opts bn' e slot next ctx)"
  unfolding buildExpressionResult_def by (intro agree_rules agree_expressionSequence [OF assms])

section \<open>Bindings\<close>

lemma agree_stagedPlan: "agree c (\<lambda>st. staged_node st = e) (planBindingStagedExpression opts e) (planBindingStagedExpression opts e)"
proof -
  have "staged_node (fst (run_state (planBindingStagedExpression opts e) s)) = e" for s
    by (simp add: planBindingStagedExpression_def pushResult_def b_read_def State_Monad.update_def split: option.split)
  then show ?thesis using agree_primitives(15) [of c opts e] by (simp add: agree_def)
qed

lemma agree_planTarget:
  assumes "\<And>t. target = Some t \<Longrightarrow> frame_expr c t"
  shows "agree c (\<lambda>r. \<forall>p. r = Some p \<longrightarrow> list_all (frame_expr c) (target_nodes p))
    (planBindingAssignmentTarget opts target) (planBindingAssignmentTarget opts target)"
  unfolding planBindingAssignmentTarget_def
  by (intro agree_case_option agree_if agree_bind [OF agree_stagedPlan] agree_return)
    (auto dest!: assms intro: inside_field_inside)

lemma agree_assignmentTarget:
  assumes "set targets \<subseteq> fr_targets c" "frame_name c x"
  shows "agree c (\<lambda>r. \<forall>p. r = Some p \<longrightarrow> list_all (frame_expr c) (target_nodes p))
    (bindingAssignmentTarget opts x targets) (bindingAssignmentTarget opts x targets)"
  unfolding agree_def
proof (intro allI impI conjI refl)
  fix s
  assume s: "frame_ok c s"
  let ?m = "bindingAssignmentTarget opts x targets"
  have "advances c s (snd (run_state ?m s)) \<and> (\<forall>p. fst (run_state ?m s) = Some p \<longrightarrow> list_all (frame_expr c) (target_nodes p))"
  proof (cases "map_of (b_bindingAssignmentTargets s) x")
    case (Some plan)
    then have "planned_target s x p" if "plan = Some p" for p using that by (auto dest: map_of_SomeD)
    then have "list_all (frame_expr c) (target_nodes p)" if "plan = Some p" for p
      using that s assms(2) unfolding frame_ok_def frame_name_def by (metis not_le)
    with Some advances_refl [OF s] show ?thesis by (simp add: bindingAssignmentTarget_def b_read_def)
  next
    case None
    let ?p = "planBindingAssignmentTarget opts (map_of (rev targets) x)"
    obtain plan t where run: "run_state ?p s = (plan, t)" by fastforce
    have target: "(x, e) \<in> fr_targets c" if "map_of (rev targets) x = Some e" for e
      using map_of_SomeD [OF that] assms(1) by auto
    then have "frame_expr c e" if "map_of (rev targets) x = Some e" for e
      using that s by (fastforce simp: frame_ok_def)
    from agreeD [OF agree_planTarget [where opts = opts and target = "map_of (rev targets) x", OF this] s] run
    have t: "advances c s t" and plan: "\<And>p. plan = Some p \<Longrightarrow> list_all (frame_expr c) (target_nodes p)" by auto
    have none: "plan = None" if "map_of (rev targets) x = None" using run that by (simp add: planBindingAssignmentTarget_def)
    have x: "fr_source c \<le> node_id x \<and> node_id x < b_fresh s \<and> x \<in> fst ` fr_targets c" if p: "plan = Some p" for p
    proof -
      obtain e where "map_of (rev targets) x = Some e" using none p by fastforce
      then have e: "(x, e) \<in> fr_targets c" by (rule target)
      moreover have "case (x, e) of (x, t) \<Rightarrow> fr_source c \<le> node_id x \<and> node_id x < b_fresh s \<and> frame_expr c t"
        using s e unfolding frame_ok_def by blast
      ultimately show ?thesis by (auto intro: rev_image_eqI)
    qed
    let ?t = "t\<lparr>b_bindingAssignmentTargets := (x, plan) # b_bindingAssignmentTargets t\<rparr>"
    have "frame_ok c ?t"
      unfolding frame_ok_def
    proof (intro conjI allI impI)
      fix y p
      assume "planned_target ?t y p"
      then consider "planned_target t y p" | "y = x" "plan = Some p" by auto
      note cs = this
      have tf: "b_fresh s \<le> b_fresh t" "planned_target t y p \<Longrightarrow> fr_source c \<le> node_id y \<and> node_id y < b_fresh t \<and>
          (y \<in> fst ` fr_targets c \<longrightarrow> list_all (frame_expr c) (target_nodes p))"
        using t by (simp_all add: advances_def frame_ok_def)
      from cs have all: "fr_source c \<le> node_id y \<and> node_id y < b_fresh t \<and>
          (y \<in> fst ` fr_targets c \<longrightarrow> list_all (frame_expr c) (target_nodes p))"
      proof cases
        case 2
        with x [OF 2(2)] plan [OF 2(2)] tf(1) show ?thesis by simp
      qed (rule tf(2))
      then show "fr_source c \<le> node_id y" "node_id y < b_fresh ?t" by simp_all
      show "list_all (frame_expr c) (target_nodes p)" if "y \<in> fst ` fr_targets c" using all that by blast
    qed (use t in \<open>auto simp: advances_def frame_ok_def\<close>)
    moreover have "planned_target ?t y p \<Longrightarrow> planned_target s y p \<or> y \<in> fst ` fr_targets c \<or> b_fresh s \<le> node_id y" for y p
      using t x by (auto simp: advances_def)
    ultimately have "advances c s ?t" using t by (simp add: advances_def)
    moreover have "run_state ?m s = (plan, ?t)"
      using None run by (simp add: bindingAssignmentTarget_def b_read_def State_Monad.update_def)
    ultimately show ?thesis using plan by simp
  qed
  then show "advances c s (snd (run_state ?m s))" "\<And>p. fst (run_state ?m s) = Some p \<Longrightarrow> list_all (frame_expr c) (target_nodes p)"
    by blast+
qed


text \<open>Everything under one frame, for a recursion that has the fuel for its patterns and expressions.\<close>

definition binds :: "plan_frame \<Rightarrow> nat \<Rightarrow> nat \<Rightarrow> bind_name \<Rightarrow> bind_name \<Rightarrow> bool" where
  "binds c d k bn bn' \<longleftrightarrow> bind_agree k bn bn' \<and> d + fr_size c * (fr_size c + 1) \<le> k"

lemma binds_result:
  assumes "binds c d k bn bn'" "frame_expr c e"
  shows "agrees c (buildExpressionResult opts bn e slot next ctx) (buildExpressionResult opts bn' e slot next ctx)"
  using assms by (intro agree_expressionResult [where k = k] frame_expr_plannable) (auto simp: binds_def)

lemma binds_staged:
  assumes "binds c d k bn bn'" "frame_expr c (staged_node st)"
  shows "agrees c (buildBindingStagedExpression opts bn st next ctx) (buildBindingStagedExpression opts bn' st next ctx)"
  using assms(2) unfolding buildBindingStagedExpression_def
  by (cases st) (auto intro!: agree_rules binds_result [OF assms(1)])

lemma binds_preparation:
  assumes "binds c d k bn bn'" "list_all (frame_expr c) (target_nodes p)"
  shows "agrees c (buildBindingAssignmentPreparation opts bn p next ctx) (buildBindingAssignmentPreparation opts bn' p next ctx)"
  using assms(2) unfolding buildBindingAssignmentPreparation_def
  by (cases p) (auto intro!: agree_rules binds_staged [OF assms(1)])

lemma binds_default:
  assumes "binds c d k bn bn'" "frame_expr c e"
  shows "agrees c (buildBindingDefault opts bn e slot assign ctx) (buildBindingDefault opts bn' e slot assign ctx)"
  unfolding buildBindingDefault_def by (intro agree_rules binds_result [OF assms])

lemma binds_identifier:
  assumes "binds c d k bn bn'" "set targets \<subseteq> fr_targets c" "frame_name c x" "\<And>e. init = Some e \<Longrightarrow> frame_expr c e"
  shows "agrees c (buildBindingIdentifier opts bn x slot init next ctx targets i) (buildBindingIdentifier opts bn' x slot init next ctx targets i)"
  unfolding buildBindingIdentifier_def
  by (intro agree_bind [OF agree_assignmentTarget [OF assms(2,3)]] agree_rules binds_default [OF assms(1)] assms(4))

lemma binds_name:
  assumes "binds c d k bn bn'" "set targets \<subseteq> fr_targets c" "pattern_ok d (frame_name c) (frame_expr c) b"
  shows "agrees c (bn b slot next ctx targets i) (bn' b slot next ctx targets i)"
  using assms unfolding binds_def bind_agree_def by blast

lemma binds_element:
  assumes "binds c d k bn bn'" "set targets \<subseteq> fr_targets c" "pattern_element_ok d (frame_name c) (frame_expr c) e"
    "\<not> is_expr OmittedExpression e"
  shows "agrees c (buildBindingElement opts bn e slot next ctx targets i) (buildBindingElement opts bn' e slot next ctx targets i)"
proof -
  have name: "pattern_ok d (frame_name c) (frame_expr c) (field e ''name'')"
    and init: "\<And>x. child e ''initializer'' = Some x \<Longrightarrow> frame_expr c x"
    using assms(3,4) by (auto simp: pattern_element_ok_def)
  have x: "frame_name c (field e ''name'')" if "isIdentifier (field e ''name'')" using name that by (cases d) auto
  have default: "agrees c (case (bound, child e ''initializer'') of
        (Some b, Some x) \<Rightarrow> buildBindingDefault opts bn x slot b ctx | _ \<Rightarrow> State_Monad.return bound)
      (case (bound, child e ''initializer'') of
        (Some b, Some x) \<Rightarrow> buildBindingDefault opts bn' x slot b ctx | _ \<Rightarrow> State_Monad.return bound)" for bound
    using init by (auto intro!: agree_rules binds_default [OF assms(1)] split: option.split)
  show ?thesis
    unfolding buildBindingElement_def
    by (intro agree_if agree_seq binds_identifier [OF assms(1,2)] binds_name [OF assms(1,2) name] init x default)
qed

lemma agree_then [agree_rules]:
  "agrees c m m' \<Longrightarrow> (\<And>x. agrees c (f x) (f' x)) \<Longrightarrow> agrees c (b_then m f) (b_then m' f')"
  unfolding b_then_def by (intro agree_rules)

lemma agree_backwards:
  "(\<And>x l e. x \<in> set xs \<Longrightarrow> agrees c (f x l e) (f' x l e)) \<Longrightarrow> agrees c (b_backwards f xs entry) (b_backwards f' xs entry)"
  by (induction xs) (auto intro!: agree_rules)

definition properties_ok :: "plan_frame \<Rightarrow> (node \<times> binding_property) list \<Rightarrow> bool" where
  "properties_ok c ps \<longleftrightarrow> (\<forall>(e, p)\<in>set ps. \<forall>key. bp_key p = Some key \<longrightarrow> frame_expr c (staged_node key))"

lemma agree_bindingProperty:
  assumes "is_elem ComputedPropertyName name \<Longrightarrow> frame_expr c (field name ''expression'')"
  shows "agree c (\<lambda>p. properties_ok c [(e, p)]) (bindingProperty opts name) (bindingProperty opts name)"
  unfolding bindingProperty_def
  by (intro agree_if agree_bind [OF agree_stagedPlan] agree_seq agree_primitives agree_return) (use assms in \<open>auto simp: properties_ok_def\<close>)

lemma agree_bindingProperties:
  assumes "\<And>e. e \<in> set es \<Longrightarrow> pattern_element_ok d (frame_name c) (frame_expr c) e"
  shows "agree c (\<lambda>r. \<forall>ps. r = Some ps \<longrightarrow> properties_ok c ps) (bindingProperties opts es) (bindingProperties opts es)"
  using assms
proof (induction es)
  case (Cons e es)
  have "frame_expr c (field name ''expression'')" if "property_name e = Some name" "is_elem ComputedPropertyName name" for name
    using that Cons.prems [of e] by (auto simp: property_name_def pattern_element_ok_def isIdentifier_def is_elem_def split: option.splits if_splits)
  then have property: "agree c (\<lambda>p. properties_ok c [(e, p)]) (bindingProperty opts name) (bindingProperty opts name)"
    if "property_name e = Some name" for name
    using that by (intro agree_bindingProperty)
  have rest: "agree c (\<lambda>r. \<forall>ps. r = Some ps \<longrightarrow> properties_ok c ps) (bindingProperties opts es) (bindingProperties opts es)"
    using Cons by simp
  show ?case
    unfolding bindingProperties.simps
    by (intro agree_if rest agree_case_option agree_return agree_bind [OF property] agree_bind [OF rest])
      (fastforce simp: properties_ok_def)+
qed (simp add: agree_return properties_ok_def)

lemma agree_obtain [agree_rules]:
  "agrees c (bindingObtain iterator v ps h ctx e l slot next) (bindingObtain iterator v ps h ctx e l slot next)"
  unfolding bindingObtain_def by (intro agree_rules)

lemma binds_turn:
  assumes "binds c d k bn bn'" "set targets \<subseteq> fr_targets c" "pattern_element_ok d (frame_name c) (frame_expr c) e" "properties_ok c ps"
  shows "agrees c (bindingElementTurn opts bn iterator v ps h targets i ctx e l entry) (bindingElementTurn opts bn' iterator v ps h targets i ctx e l entry)"
proof -
  have key: "agrees c (bindingKey opts bn ps ctx e x) (bindingKey opts bn' ps ctx e x)" for x
    unfolding bindingKey_def
    by (intro agree_rules binds_staged [OF assms(1)]) (use assms(4) in \<open>fastforce simp: properties_ok_def dest: map_of_SomeD\<close>)
  have reference: "agrees c (bindingReference opts bn targets ctx e x) (bindingReference opts bn' targets ctx e x)"
    if "\<not> is_expr OmittedExpression e" for x
  proof -
    have "frame_name c (field e ''name'')" if "isIdentifier (field e ''name'')"
      using assms(3) that \<open>\<not> is_expr OmittedExpression e\<close> by (cases d) (auto simp: pattern_element_ok_def)
    then have "agree c (\<lambda>r. \<forall>p. r = Some p \<longrightarrow> list_all (frame_expr c) (target_nodes p))
        (if isIdentifier (field e ''name'') then bindingAssignmentTarget opts (field e ''name'') targets else State_Monad.return None)
        (if isIdentifier (field e ''name'') then bindingAssignmentTarget opts (field e ''name'') targets else State_Monad.return None)"
      by (intro agree_if agree_assignmentTarget [OF assms(2)] agree_return) simp_all
    then show ?thesis
      unfolding bindingReference_def by (rule agree_bind) (auto intro!: agree_rules binds_preparation [OF assms(1)])
  qed
  show ?thesis
    unfolding bindingElementTurn_def
    by (intro agree_rules binds_element [OF assms(1-3)] reference key)
qed

lemma agree_openPattern [agree_rules]: "agrees c (openPattern release ctx) (openPattern release ctx)"
  unfolding openPattern_def by (intro agree_rules)

lemma binds_patterns:
  assumes "binds c d k bn bn'" "set targets \<subseteq> fr_targets c"
    "\<And>e. e \<in> set (children b ''elements'') \<Longrightarrow> pattern_element_ok d (frame_name c) (frame_expr c) e"
  shows "agrees c (buildArrayPattern opts bn b slot release ctx targets i) (buildArrayPattern opts bn' b slot release ctx targets i)"
    "agrees c (buildObjectPattern opts bn b slot release ctx targets i) (buildObjectPattern opts bn' b slot release ctx targets i)"
proof -
  show "agrees c (buildArrayPattern opts bn b slot release ctx targets i) (buildArrayPattern opts bn' b slot release ctx targets i)"
    unfolding buildArrayPattern_def
    by (intro agree_rules agree_backwards binds_turn [OF assms]) (simp_all add: properties_ok_def)
  show "agrees c (buildObjectPattern opts bn b slot release ctx targets i) (buildObjectPattern opts bn' b slot release ctx targets i)"
    unfolding buildObjectPattern_def
    by (rule agree_bind [OF agree_bindingProperties [OF assms(3)]])
      (auto intro!: agree_rules agree_backwards binds_turn [OF assms])
qed

lemma bind_agree_body:
  assumes "bind_agree k bn bn'"
  shows "bind_agree (Suc k) (bindingName_body opts bn) (bindingName_body opts bn')"
  unfolding bind_agree_def
proof (intro allI impI)
  fix c d b slot "next" ctx targets i
  assume d: "d + fr_size c * (fr_size c + 1) \<le> Suc k" and targets: "set targets \<subseteq> fr_targets c"
    and b: "pattern_ok d (frame_name c) (frame_expr c) b"
  obtain d' where d': "d = Suc d'" using b by (cases d) auto
  have binds: "binds c d' k bn bn'" using assms d by (simp add: binds_def d')
  show "agrees c (bindingName_body opts bn b slot next ctx targets i) (bindingName_body opts bn' b slot next ctx targets i)"
  proof (cases "isIdentifier b")
    case True
    then have x: "frame_name c b" using b by (simp add: d')
    have "agrees c (do { reference \<leftarrow> bindingAssignmentTarget opts b targets;
          case reference of Some r \<Rightarrow> buildBindingAssignmentPreparation opts bn r a ctx | None \<Rightarrow> State_Monad.return (Some a) })
        (do { reference \<leftarrow> bindingAssignmentTarget opts b targets;
          case reference of Some r \<Rightarrow> buildBindingAssignmentPreparation opts bn' r a ctx | None \<Rightarrow> State_Monad.return (Some a) })" for a
      by (rule agree_bind [OF agree_assignmentTarget [OF targets x]]) (auto intro!: agree_rules binds_preparation [OF binds])
    note prepared = this
    show ?thesis
      unfolding bindingName_body_def if_P [OF True]
      by (intro agree_then prepared binds_identifier [OF binds targets x]) simp
  next
    case False
    have "pattern_element_ok d' (frame_name c) (frame_expr c) e" if "e \<in> set (children b ''elements'')" for e
      using b pattern_ok_elements [OF False] that by (simp add: d')
    then show ?thesis
      unfolding bindingName_body_def using False
      by (auto intro!: agree_rules binds_patterns [OF binds targets])
  qed
qed

text \<open>With this fuel \<open>buildBindingName\<close> no longer depends on it.\<close>

lemma bind_agree_fuel: "k \<le> fuel \<Longrightarrow> k \<le> fuel' \<Longrightarrow> bind_agree k (buildBindingName opts fuel) (buildBindingName opts fuel')"
proof (induction k arbitrary: fuel fuel')
  case 0
  have "\<not> pattern_ok 0 P Q b" for P Q b by simp
  then show ?case by (auto simp: bind_agree_def)
next
  case (Suc k)
  then obtain f f' where "fuel = Suc f" "fuel' = Suc f'" "k \<le> f" "k \<le> f'" by (metis Suc_le_D Suc_le_mono)
  with Suc.IH [of f f'] show ?case by (simp add: bind_agree_body)
qed

end
