(* ===== verification/Async_Cfg_Fuel.thy ===== *)
theory Async_Cfg_Fuel
  imports Async_Cfg_Agree
begin

text \<open>
  The statement layer of the control-flow planner does not depend on its fuel either, once there is enough: every
  recursive call is for a smaller statement, or for the same statement after its scope has been opened or its
  resources have been bound. Hence \<open>planAsyncControlFlowGraph\<close> is total.
\<close>

section \<open>State rules\<close>

lemma agree_restrict:
  assumes "agree c' Q m m'" "frame_ok c' s" "frame_ok c s" "fr_source c' = fr_source c" "fr_targets c' = fr_targets c" "fr_size c' = fr_size c"
  shows "run_state m s = run_state m' s \<and> advances c s (snd (run_state m s)) \<and> Q (fst (run_state m s))"
proof -
  note run = agreeD [OF assms(1,2)]
  let ?t = "snd (run_state m s)"
  have ok: "frame_ok c' ?t" "owners s \<subseteq> owners ?t" "bound_resources s \<subseteq> bound_resources ?t"
    using run by (simp_all add: advances_def)
  have "fr_owners c \<subseteq> owners ?t" "fr_resources c \<subseteq> bound_resources ?t"
    using assms(3) ok(2,3) by (auto simp: frame_ok_def)
  with ok(1) have "frame_ok c ?t" by (simp add: frame_ok_def assms(4-6))
  then show ?thesis using run assms(4,5) by (simp add: advances_def)
qed

text \<open>What is known of the state at a read.\<close>

definition frame_at :: "plan_frame \<Rightarrow> bstate \<Rightarrow> plan_frame" where
  "frame_at c s = c\<lparr>fr_owners := owners s, fr_resources := bound_resources s\<rparr>"

lemma frame_at_simps [simp]:
  "fr_source (frame_at c s) = fr_source c" "fr_targets (frame_at c s) = fr_targets c" "fr_size (frame_at c s) = fr_size c"
  "fr_owners (frame_at c s) = owners s" "fr_resources (frame_at c s) = bound_resources s"
  by (simp_all add: frame_at_def)

lemma agree_at:
  assumes "\<And>s. fr_owners c \<subseteq> owners s \<Longrightarrow> fr_resources c \<subseteq> bound_resources s \<Longrightarrow> agree (frame_at c s) Q (k (f s)) (k' (f s))"
  shows "agree c Q (State_Monad.bind (b_read f) k) (State_Monad.bind (b_read f) k')"
  unfolding agree_def
proof (intro allI impI)
  fix s
  assume s: "frame_ok c s"
  then have at: "frame_ok (frame_at c s) s" by (simp add: frame_ok_def)
  have eq: "run_state (State_Monad.bind (b_read f) h) s = run_state (h (f s)) s" for h by (simp add: b_read_def)
  have sub: "fr_owners c \<subseteq> owners s" "fr_resources c \<subseteq> bound_resources s" using s by (simp_all add: frame_ok_def)
  show "run_state (State_Monad.bind (b_read f) k) s = run_state (State_Monad.bind (b_read f) k') s \<and>
      advances c s (snd (run_state (State_Monad.bind (b_read f) k) s)) \<and> Q (fst (run_state (State_Monad.bind (b_read f) k) s))"
    unfolding eq by (rule agree_restrict [OF assms [OF sub] at s]) simp_all
qed

lemma agree_isOwner:
  assumes "agree c Q (k True) (k' True)" "n \<notin> fr_owners c \<Longrightarrow> agree c Q (k False) (k' False)"
  shows "agree c Q (State_Monad.bind (isScopeOwner n) k) (State_Monad.bind (isScopeOwner n) k')"
  unfolding agree_def
proof (intro allI impI)
  fix s
  assume s: "frame_ok c s"
  let ?b = "n \<in> owners s"
  have "agree c Q (k ?b) (k' ?b)"
    using assms s by (cases ?b) (auto simp: frame_ok_def)
  from agreeD [OF this s]
  show "run_state (State_Monad.bind (isScopeOwner n) k) s = run_state (State_Monad.bind (isScopeOwner n) k') s \<and>
      advances c s (snd (run_state (State_Monad.bind (isScopeOwner n) k) s)) \<and> Q (fst (run_state (State_Monad.bind (isScopeOwner n) k) s))"
    by (simp add: isScopeOwner_def b_read_def)
qed

text \<open>Opening a scope and binding resources extend the frame.\<close>

lemma agree_extend:
  assumes "agree c' Q (k x) (k' x)" "fr_source c' = fr_source c" "fr_targets c' = fr_targets c" "fr_size c' = fr_size c"
    and s: "frame_ok c s" "frame_ok c' t" "frame_ok c t" "advances c s t" "run_state m s = (x, t)"
  shows "run_state (State_Monad.bind m k) s = run_state (State_Monad.bind m k') s \<and>
    advances c s (snd (run_state (State_Monad.bind m k) s)) \<and> Q (fst (run_state (State_Monad.bind m k) s))"
  using agree_restrict [OF assms(1) s(2,3) assms(2-4)] s(5) advances_trans [OF s(4)] by auto

lemma agree_addScopeOwner:
  assumes "agree (c\<lparr>fr_owners := insert n (fr_owners c)\<rparr>) Q (k ()) (k' ())"
  shows "agree c Q (State_Monad.bind (addScopeOwner n) k) (State_Monad.bind (addScopeOwner n) k')"
  unfolding agree_def
proof (intro allI impI)
  fix s
  assume s: "frame_ok c s"
  let ?t = "s\<lparr>b_retainedScopeOwners := n # b_retainedScopeOwners s\<rparr>"
  show "run_state (State_Monad.bind (addScopeOwner n) k) s = run_state (State_Monad.bind (addScopeOwner n) k') s \<and>
      advances c s (snd (run_state (State_Monad.bind (addScopeOwner n) k) s)) \<and> Q (fst (run_state (State_Monad.bind (addScopeOwner n) k) s))"
    by (rule agree_extend [where k = k and k' = k' and x = "()" and t = ?t, OF assms])
      (use s in \<open>auto simp: frame_ok_def advances_def addScopeOwner_def State_Monad.update_def\<close>)
qed

lemma agree_addResourceScope:
  assumes "\<And>slot. agree (c\<lparr>fr_resources := fr_resources c \<union> set resources\<rparr>) Q (k slot) (k' slot)"
  shows "agree c Q (State_Monad.bind (addResourceScope resources a) k) (State_Monad.bind (addResourceScope resources a) k')"
  unfolding agree_def
proof (intro allI impI)
  fix s
  assume s: "frame_ok c s"
  let ?slot = "length (b_resourceScopes s)"
  let ?t = "s\<lparr>b_resourceScopes := b_resourceScopes s @ [(resources, a)],
       b_resourceBindings := map (\<lambda>d. (d, ?slot)) resources @ b_resourceBindings s\<rparr>"
  show "run_state (State_Monad.bind (addResourceScope resources a) k) s = run_state (State_Monad.bind (addResourceScope resources a) k') s \<and>
      advances c s (snd (run_state (State_Monad.bind (addResourceScope resources a) k) s)) \<and>
      Q (fst (run_state (State_Monad.bind (addResourceScope resources a) k) s))"
    by (rule agree_extend [where k = k and k' = k' and x = ?slot and t = ?t, OF assms])
      (use s in \<open>auto simp: frame_ok_def advances_def addResourceScope_def b_read_def State_Monad.update_def image_Un image_image\<close>)
qed

section \<open>Regions\<close>

lemma agree_wrap [agree_rules]:
  "agrees c (wrapTarget core exc t w) (wrapTarget core exc t w)"
  "agrees c (wrapOption core exc u w) (wrapOption core exc u w)"
  "agrees c (wrapLoop core exc l w) (wrapLoop core exc l w)"
proof -
  show 1: "agrees c (wrapTarget core exc t w) (wrapTarget core exc t w)" for t w
    unfolding wrapTarget_def by (intro agree_rules)
  show "agrees c (wrapOption core exc u w) (wrapOption core exc u w)" "agrees c (wrapLoop core exc l w) (wrapLoop core exc l w)"
    unfolding wrapOption_def wrapLoop_def by (intro agree_rules 1)+
qed

lemma agree_wrapLabels [agree_rules]: "agrees c (wrapLabels core exc ls w) (wrapLabels core exc ls w)"
  by (induction ls arbitrary: w) (auto intro!: agree_rules)

lemma agree_protectContext [agree_rules]: "agrees c (protectContext core ctx next n r) (protectContext core ctx next n r)"
  unfolding protectContext_def by (intro agree_rules)

lemma agree_finalization:
  assumes "\<And>x r. agrees c (fin x r) (fin' x r)" "\<And>x y ctx. agrees c (prot x y ctx) (prot' x y ctx)"
  shows "agrees c (buildFinalizationRegion next ctx fin prot) (buildFinalizationRegion next ctx fin' prot')"
  unfolding buildFinalizationRegion_def by (intro agree_rules assms)

lemma agree_lexicalRegion:
  assumes "\<And>x ctx. agrees (c\<lparr>fr_owners := insert owner (fr_owners c)\<rparr>) (body x ctx) (body' x ctx)"
  shows "agrees c (buildLexicalRegion owner bs fs next ctx body) (buildLexicalRegion owner bs fs next ctx body')"
  unfolding buildLexicalRegion_def
  by (intro agree_addScopeOwner agree_seq agree_finalization agree_primitives assms)

lemma agree_resourceRegion:
  assumes "\<And>x ctx. agrees (c\<lparr>fr_resources := fr_resources c \<union> set resources\<rparr>) (body x ctx) (body' x ctx)"
  shows "agrees c (buildResourceRegion opts resources next ctx body) (buildResourceRegion opts resources next ctx body')"
  unfolding buildResourceRegion_def Let_def
  by (intro agree_if agree_addResourceScope agree_finalization agree_rules assms)


section \<open>The source\<close>

text \<open>
  The nodes of the source with what the planner synthesizes from them: \<open>K\<close> bounds the expressions that are planned.
\<close>

definition awaited_operand :: "cfg_options \<Rightarrow> node \<Rightarrow> node" where
  "awaited_operand opts e = synthesized 0 (Expression AwaitExpression) [] [(''expression'', factory_prefixOperand opts e)]"

definition source_nodes :: "cfg_options \<Rightarrow> nat \<Rightarrow> nat \<Rightarrow> node set \<Rightarrow> bool" where
  "source_nodes opts F K S \<longleftrightarrow> missing_node \<in> S \<and>
     (\<forall>n\<in>S. set (forEachChild n) \<subseteq> S \<and> within F K n \<and> within F K (awaited_operand opts n) \<and>
        within F K (factory_statementExpression opts n) \<and> (\<forall>i. within F K (classExpressionFromDeclaration i n)) \<and>
        (\<forall>m\<in>S. within F K (createAssignment (assignmentTargetFromBinding m) n)))"

definition planning :: "cfg_options \<Rightarrow> nat \<Rightarrow> nat \<Rightarrow> node set \<Rightarrow> nat \<Rightarrow> bind_name \<Rightarrow> bind_name \<Rightarrow> bool" where
  "planning opts F K S k bn bn' \<longleftrightarrow> source_nodes opts F K S \<and> bind_agree k bn bn' \<and> K + (K + 1) * (K + 2) \<le> k"

lemma source_children: "source_nodes opts F K S \<Longrightarrow> n \<in> S \<Longrightarrow> c \<in> set (children n f) \<Longrightarrow> c \<in> S"
  by (fastforce simp: source_nodes_def children_def forEachChild_def)

lemma source_child: "source_nodes opts F K S \<Longrightarrow> n \<in> S \<Longrightarrow> child n f = Some c \<Longrightarrow> c \<in> S"
  using child_in [of n f c] by (force simp: source_nodes_def forEachChild_def)

lemma source_field: "source_nodes opts F K S \<Longrightarrow> n \<in> S \<Longrightarrow> field n f \<in> S"
proof (cases "child n f")
  case None
  then show "source_nodes opts F K S \<Longrightarrow> field n f \<in> S" by (simp add: field_def source_nodes_def)
next
  case (Some c)
  then show "source_nodes opts F K S \<Longrightarrow> n \<in> S \<Longrightarrow> field n f \<in> S" using source_child by (fastforce simp: field_def)
qed

lemma source_within: "source_nodes opts F K S \<Longrightarrow> n \<in> S \<Longrightarrow> within F K n"
  by (simp add: source_nodes_def)

lemma plan_sequence:
  assumes "planning opts F K S k bn bn'" "fr_source c = F" "within F K e"
  shows "agrees c (buildExpressionSequence opts bn e a next ctx completion branch slot) (buildExpressionSequence opts bn' e a next ctx completion branch slot)"
proof (rule agree_expressionSequence [where k = k])
  show "bind_agree k bn bn'" using assms(1) by (simp add: planning_def)
  have e: "size e \<le> K" using assms(3) by (simp add: within_def)
  then have "size e * (size e + 1) \<le> K * (K + 1)" by (intro mult_le_mono) simp_all
  moreover have "K + K * (K + 1) \<le> K + (K + 1) * (K + 2)" by simp
  ultimately show "plannable (fr_source c) k e"
    using assms e by (simp add: planning_def plannable_def within_def)
qed

lemma plan_result:
  assumes "planning opts F K S k bn bn'" "fr_source c = F" "within F K e"
  shows "agrees c (buildExpressionResult opts bn e slot next ctx) (buildExpressionResult opts bn' e slot next ctx)"
  unfolding buildExpressionResult_def by (intro agree_rules plan_sequence [OF assms])

text \<open>The frame for a binding of the source, or for one made of an assignment target of the source.\<close>

definition loop_binding :: "nat \<Rightarrow> plan_frame \<Rightarrow> node \<Rightarrow> (node \<times> node) list \<Rightarrow> bool" where
  "loop_binding K c b ts \<longleftrightarrow> fr_size c = K + 1 \<and> set ts \<subseteq> fr_targets c \<and> pattern_ok K (frame_name c) (frame_expr c) b"

lemma plan_loopBinding:
  assumes "planning opts F K S k bn bn'" "fr_source c = F" "loop_binding K c b ts"
  shows "agrees c (buildBindingFromValueSlot bn b next ctx ts i) (buildBindingFromValueSlot bn' b next ctx ts i)"
  using assms by (intro agree_bindingFromValueSlot [where k = k and d = K]) (auto simp: planning_def loop_binding_def)

definition plain_frame :: "nat \<Rightarrow> plan_frame \<Rightarrow> plan_frame" where
  "plain_frame K c = c\<lparr>fr_targets := {}, fr_size := K + 1\<rparr>"

lemma plain_frame_simps [simp]:
  "fr_source (plain_frame K c) = fr_source c" "fr_owners (plain_frame K c) = fr_owners c"
  "fr_resources (plain_frame K c) = fr_resources c" "fr_targets (plain_frame K c) = {}" "fr_size (plain_frame K c) = K + 1"
  by (simp_all add: plain_frame_def)

lemma agree_plain: "agree (plain_frame K c) Q m m' \<Longrightarrow> agree c Q m m'"
  by (erule agree_lift) simp_all

lemma source_binding:
  assumes "within (fr_source c) K b"
  shows "loop_binding K (plain_frame K c) b []"
proof -
  have "pattern_ok K (\<lambda>x. node_id x < fr_source c) (inside (fr_source c) K) b"
    using assms by (intro pattern_ok_source) (simp_all add: within_def)
  then have "pattern_ok K (frame_name (plain_frame K c)) (frame_expr (plain_frame K c)) b"
    by (rule pattern_ok_mono) (simp_all add: frame_name_def inside_def)
  then show ?thesis by (simp add: loop_binding_def)
qed

lemma plan_binding:
  assumes "planning opts F K S k bn bn'" "fr_source c = F" "b \<in> S"
  shows "agrees c (buildBindingFromValueSlot bn b next ctx [] i) (buildBindingFromValueSlot bn' b next ctx [] i)"
proof (rule agree_plain [where K = K], rule plan_loopBinding [OF assms(1)])
  show "fr_source (plain_frame K c) = F" using assms(2) by simp
  have "within (fr_source c) K b" using assms source_within [of opts F K S b] by (simp add: planning_def)
  then show "loop_binding K (plain_frame K c) b []" by (rule source_binding)
qed

lemma plan_suspendingBinding:
  assumes "planning opts F K S k bn bn'" "fr_source c = F" "b \<in> S"
  shows "agrees c (buildSuspendingBinding bn b source next ctx) (buildSuspendingBinding bn' b source next ctx)"
  unfolding buildSuspendingBinding_def by (intro agree_rules plan_binding [OF assms])

section \<open>The fuel of a job\<close>

definition is_container :: "node \<Rightarrow> bool" where
  "is_container st \<longleftrightarrow> is_stmt Block st \<or> is_stmt WithStatement st \<or> is_stmt LabeledStatement st \<or> is_loop st \<or> is_for st \<or>
     is_stmt IfStatement st \<or> is_stmt SwitchStatement st \<or> is_stmt TryStatement st"

definition statement_need :: "node set \<Rightarrow> node \<Rightarrow> nat" where
  "statement_need W st =
     (if is_container st then 10 * size st + 6 + (if is_stmt SwitchStatement st \<and> st \<notin> W then 1 else 0)
      else if is_stmt VariableStatement st \<and> length (declarations_of st) > 1 then 6 else 1)"

definition max_need :: "node set \<Rightarrow> node list \<Rightarrow> nat" where
  "max_need W ss = foldr (\<lambda>st. max (statement_need W st)) ss 0"

definition head_declarations :: "node \<Rightarrow> node list" where
  "head_declarations st = (case loop_head st of Some l \<Rightarrow> children l ''declarations'' | None \<Rightarrow> [])"

definition sequence_need :: "node set \<Rightarrow> node set \<Rightarrow> node list \<Rightarrow> nat" where
  "sequence_need W R ss =
     1 + (if \<exists>st\<in>set ss. using_statement st \<and> \<not> set (declarations_of st) \<subseteq> R then 1 else 0) + max_need W ss"

fun job_need :: "node set \<Rightarrow> node set \<Rightarrow> cfg_job \<Rightarrow> nat" where
  "job_need W R (StatementJob st) = statement_need W st"
| "job_need W R (SequenceJob ss) = sequence_need W R ss"
| "job_need W R (BlockJob b) = 1 + sequence_need W R (children b ''statements'')"
| "job_need W R (LoopJob st l) =
     10 * size st + (if st \<in> W then 0 else 1) + (if set (head_declarations st) \<subseteq> R then 0 else 1)"
| "job_need W R (IteratorLoopJob st l) = 10 * size st + (if st \<in> W then 0 else 1)"
| "job_need W R (CatchJob cl) = 10 * size cl + 1 + (if cl \<in> W then 0 else 1)"

text \<open>The jobs of a source; synthesized statements only hold nodes of the source.\<close>

definition statement_fits :: "nat \<Rightarrow> nat \<Rightarrow> node set \<Rightarrow> node \<Rightarrow> bool" where
  "statement_fits F K S st \<longleftrightarrow> st \<in> S \<or> is_stmt VariableStatement st \<and> set (declarations_of st) \<subseteq> S \<or>
     is_stmt ExpressionStatement st \<and> within F K (field st ''expression'')"

fun job_fits :: "nat \<Rightarrow> nat \<Rightarrow> node set \<Rightarrow> cfg_job \<Rightarrow> bool" where
  "job_fits F K S (StatementJob st) = statement_fits F K S st"
| "job_fits F K S (SequenceJob ss) = (\<forall>st\<in>set ss. statement_fits F K S st)"
| "job_fits F K S (BlockJob b) = (b \<in> S)"
| "job_fits F K S (LoopJob st l) = (st \<in> S)"
| "job_fits F K S (IteratorLoopJob st l) = (st \<in> S)"
| "job_fits F K S (CatchJob cl) = (cl \<in> S)"

definition job_agree :: "nat \<Rightarrow> nat \<Rightarrow> node set \<Rightarrow> nat \<Rightarrow> build_job \<Rightarrow> build_job \<Rightarrow> bool" where
  "job_agree F K S n rec rec' \<longleftrightarrow>
     (\<forall>c j next ctx. fr_source c = F \<longrightarrow> job_fits F K S j \<longrightarrow> job_need (fr_owners c) (fr_resources c) j < n \<longrightarrow>
        agrees c (rec j next ctx) (rec' j next ctx))"

lemma job_agreeD:
  "job_agree F K S n rec rec' \<Longrightarrow> fr_source c = F \<Longrightarrow> job_fits F K S j \<Longrightarrow> job_need (fr_owners c) (fr_resources c) j < n \<Longrightarrow>
   agrees c (rec j next ctx) (rec' j next ctx)"
  by (simp add: job_agree_def)

lemma max_need_le: "st \<in> set ss \<Longrightarrow> statement_need W st \<le> max_need W ss"
  by (induction ss) (auto simp: max_need_def)

lemma max_need_bound: "(\<And>st. st \<in> set ss \<Longrightarrow> statement_need W st \<le> b) \<Longrightarrow> max_need W ss \<le> b"
  by (induction ss) (auto simp: max_need_def)

lemma statement_need_mono: "W \<subseteq> W' \<Longrightarrow> statement_need W' st \<le> statement_need W st"
  by (auto simp: statement_need_def)

lemma max_need_mono: "W \<subseteq> W' \<Longrightarrow> set ss' \<subseteq> set ss \<Longrightarrow> max_need W' ss' \<le> max_need W ss"
  by (rule max_need_bound) (meson max_need_le order_trans statement_need_mono subsetD)

lemma statement_need_size: "statement_need W st \<le> 10 * size st + 7"
  using node_size_pos [of st] by (auto simp: statement_need_def)

lemma statement_need_missing: "statement_need W missing_node = 1"
  by (simp add: statement_need_def is_container_def is_loop_def is_for_def is_stmt_def missing_node_def)

lemma statement_need_child: "child n f = Some st \<Longrightarrow> statement_need W st + 3 \<le> 10 * size n"
  using statement_need_size [of W st] child_size [of n f st] by linarith

lemma statement_need_children: "st \<in> set (children n f) \<Longrightarrow> statement_need W st + 3 \<le> 10 * size n"
  using statement_need_size [of W st] children_size [of st n f] by linarith

lemma statement_need_field: "statement_need W (field n f) + 3 \<le> 10 * size n"
proof (cases "child n f")
  case None
  then have "statement_need W (field n f) = 1" using statement_need_missing by (simp add: field_def)
  then show ?thesis using node_size_pos [of n] by linarith
qed (use statement_need_child in \<open>simp add: field_def\<close>)

lemma max_need_children: "max_need W (children n f) + 3 \<le> 10 * size n"
proof -
  have "max_need W (children n f) \<le> 10 * size n - 3"
    by (rule max_need_bound) (use statement_need_children [of _ n f W] in fastforce)
  then show ?thesis using node_size_pos [of n] by linarith
qed


lemma sequence_need_le: "sequence_need W R ss \<le> 2 + max_need W ss"
  by (simp add: sequence_need_def)

lemma block_need: "job_need W R (BlockJob b) \<le> 10 * size b"
  using sequence_need_le [of W R "children b ''statements''"] max_need_children [of W b "''statements''"] by simp

lemma block_need_child: "child n f = Some b \<Longrightarrow> job_need W R (BlockJob b) + 3 \<le> 10 * size n"
  using block_need [of W R b] child_size [of n f b] by linarith

lemma block_need_field: "job_need W R (BlockJob (field n f)) + 3 \<le> 10 * size n"
proof (cases "child n f")
  case None
  then have "job_need W R (BlockJob (field n f)) = 2" by (simp add: field_def sequence_need_def max_need_def)
  then show ?thesis using node_size_pos [of n] by linarith
qed (use block_need_child in \<open>simp add: field_def\<close>)

section \<open>Statements\<close>

lemma agree_job:
  assumes "job_agree F K S n rec rec'" "fr_source c = F" "job_fits F K S j" "job_need (fr_owners c) (fr_resources c) j < n"
  shows "agrees c (rec j next ctx) (rec' j next ctx)"
  using assms by (rule job_agreeD)

lemma agree_loopBody:
  assumes "job_agree F K S n rec rec'" "fr_source c = F" "source_nodes opts F K S" "st \<in> S" "10 * size st \<le> n"
  shows "agrees c (buildLoopBody rec (field st ''statement'') next ctx) (buildLoopBody rec' (field st ''statement'') next ctx)"
proof -
  let ?b = "field st ''statement''"
  have b: "?b \<in> S" by (rule source_field [OF assms(3,4)])
  have "job_need (fr_owners c) (fr_resources c) (BlockJob ?b) < n"
    using block_need_field [of "fr_owners c" "fr_resources c" st "''statement''"] assms(5) by linarith
  moreover have "job_need (fr_owners c) (fr_resources c) (SequenceJob [?b]) < n"
    using sequence_need_le [of "fr_owners c" "fr_resources c" "[?b]"] statement_need_field [of "fr_owners c" st "''statement''"] assms(5)
    by (simp add: max_need_def)
  ultimately show ?thesis
    unfolding buildLoopBody_def using b
    by (intro agree_if agree_job [OF assms(1,2)]) (simp_all add: statement_fits_def)
qed

lemma agree_letClones [agree_rules]: "agrees c (buildLetClones st i t ctx) (buildLetClones st i t ctx)"
  unfolding buildLetClones_def Let_def by (intro agree_rules)

lemma within_true: "size missing_node \<le> K \<Longrightarrow> within F K createTrue"
proof -
  have "names_below F createTrue"
    by (subst names_below.simps) (simp add: createTrue_def synthesized_def isIdentifier_def forEachChild_def)
  then show "size missing_node \<le> K \<Longrightarrow> ?thesis" by (simp add: within_def createTrue_def synthesized_def missing_node_def)
qed

lemma agree_loopCondition:
  assumes "planning opts F K S k bn bn'" "fr_source c = F" "st \<in> S"
  shows "agrees c (buildLoopCondition opts bn st i b next ctx) (buildLoopCondition opts bn' st i b next ctx)"
proof -
  have S: "source_nodes opts F K S" using assms(1) by (simp add: planning_def)
  have "within F K (case child st ''condition'' of Some e \<Rightarrow> e | None \<Rightarrow> createTrue)"
  proof (cases "child st ''condition''")
    case None
    have "size missing_node \<le> K" using S by (simp add: source_nodes_def within_def)
    then show ?thesis using None within_true by simp
  qed (use source_child [OF S assms(3)] source_within [OF S] in simp)
  then have "within F K (transparent (if is_stmt ForStatement st
      then (case child st ''condition'' of Some e \<Rightarrow> e | None \<Rightarrow> createTrue) else field st ''expression''))"
    using source_within [OF S source_field [OF S assms(3)]] by (intro within_transparent) simp
  then show ?thesis
    unfolding buildLoopCondition_def Let_def by (intro agree_rules plan_sequence [OF assms(1,2)]) simp_all
qed

lemma statement_need_synthesized:
  "statement_need W (createExpressionStatement opts e) = 1" "statement_need W (createVariableStatement mods l) \<le> 6"
  by (simp_all add: statement_need_def is_container_def is_loop_def is_for_def is_stmt_def createExpressionStatement_def
      createVariableStatement_def)

lemma declarations_of_synthesized: "declarations_of (createVariableStatement mods l) = children l ''declarations''"
proof -
  have "map_of (map (Pair ''modifiers'') mods @ [(''declarationList'', l)]) ''declarationList'' = Some l"
    by (induction mods) simp_all
  then show ?thesis by (simp add: declarations_of_def createVariableStatement_def field_def)
qed

lemma expressionStatement_fits:
  "source_nodes opts F K S \<Longrightarrow> e \<in> S \<Longrightarrow> statement_fits F K S (createExpressionStatement opts e)"
  by (simp add: statement_fits_def createExpressionStatement_def is_stmt_def field_def source_nodes_def)

lemma variableStatement_fits:
  "set (children l ''declarations'') \<subseteq> S \<Longrightarrow> statement_fits F K S (createVariableStatement mods l)"
  by (simp add: statement_fits_def declarations_of_synthesized) (simp add: is_stmt_def createVariableStatement_def)

lemma agree_loopEntry:
  assumes "job_agree F K S n rec rec'" "fr_source c = F" "source_nodes opts F K S" "st \<in> S" "6 < n"
  shows "agrees c (buildLoopEntry opts rec st entry ctx) (buildLoopEntry opts rec' st entry ctx)"
proof -
  have "agrees c (rec (StatementJob (if is_elem VariableDeclarationList i then createVariableStatement [] i
          else createExpressionStatement opts i)) entry ctx)
      (rec' (StatementJob (if is_elem VariableDeclarationList i then createVariableStatement [] i
          else createExpressionStatement opts i)) entry ctx)" if "child st ''initializer'' = Some i" for i
  proof (rule agree_job [OF assms(1,2)])
    have i: "i \<in> S" by (rule source_child [OF assms(3,4) that])
    then have "set (children i ''declarations'') \<subseteq> S" using source_children [OF assms(3)] by blast
    then show "job_fits F K S (StatementJob (if is_elem VariableDeclarationList i then createVariableStatement [] i
          else createExpressionStatement opts i))"
      using expressionStatement_fits [OF assms(3) i] variableStatement_fits by simp
    show "job_need (fr_owners c) (fr_resources c) (StatementJob (if is_elem VariableDeclarationList i then createVariableStatement [] i
          else createExpressionStatement opts i)) < n"
      using le_less_trans [OF statement_need_synthesized(2) assms(5)] assms(5) by (simp add: statement_need_synthesized(1))
  qed
  then show ?thesis
    unfolding buildLoopEntry_def Let_def by (intro agree_rules)
qed

lemma agree_loopStates:
  assumes "planning opts F K S k bn bn'" "job_agree F K S n rec rec'" "fr_source c = F" "st \<in> S" "10 * size st \<le> n"
  shows "agrees c (buildLoopStates opts bn rec st next ctx l i inc) (buildLoopStates opts bn' rec' st next ctx l i inc)"
proof -
  have S: "source_nodes opts F K S" using assms(1) by (simp add: planning_def)
  have n: "6 < n" using assms(5) node_size_pos [of st] by linarith
  show ?thesis
    unfolding buildLoopStates_def
    by (intro agree_rules agree_loopBody [OF assms(2,3) S assms(4,5)] agree_loopCondition [OF assms(1,3,4)]
        agree_loopEntry [OF assms(2,3) S assms(4) n])
qed

lemma agree_plainLoop:
  assumes "planning opts F K S k bn bn'" "job_agree F K S n rec rec'" "fr_source c = F" "st \<in> S" "10 * size st \<le> n"
  shows "agrees c (buildPlainLoop opts bn rec st next ctx l) (buildPlainLoop opts bn' rec' st next ctx l)"
proof -
  have S: "source_nodes opts F K S" using assms(1) by (simp add: planning_def)
  have n: "1 < n" using assms(5) node_size_pos [of st] by linarith
  have "agrees c (rec (StatementJob (createExpressionStatement opts e)) i ctx) (rec' (StatementJob (createExpressionStatement opts e)) i ctx)"
    if "child st ''incrementor'' = Some e" for e i
    using expressionStatement_fits [OF S source_child [OF S assms(4) that]] n
    by (intro agree_job [OF assms(2,3)]) (simp_all add: statement_need_synthesized)
  then show ?thesis
    unfolding buildPlainLoop_def
    by (intro agree_rules agree_loopStates [OF assms]) (simp_all split: if_splits)
qed

lemma agree_loop:
  assumes "planning opts F K S k bn bn'" "job_agree F K S n rec rec'" "fr_source c = F" "st \<in> S"
    "job_need (fr_owners c) (fr_resources c) (LoopJob st l) \<le> n"
  shows "agrees c (buildLoop opts bn rec st next ctx l) (buildLoop opts bn' rec' st next ctx l)"
proof -
  have n: "10 * size st \<le> n" using assms(5) by simp
  have owned: "agrees (c\<lparr>fr_owners := insert st (fr_owners c)\<rparr>) (rec (LoopJob st l) x y) (rec' (LoopJob st l) x y)"
    if "st \<notin> fr_owners c" for x y
    using assms(3-5) that by (intro agree_job [OF assms(2)]) auto
  have bound: "agrees (d\<lparr>fr_resources := fr_resources d \<union> set (head_declarations st)\<rparr>) (rec (LoopJob st l) x y) (rec' (LoopJob st l) x y)"
    if "fr_source d = F" "fr_owners c \<subseteq> fr_owners d" "\<not> set (head_declarations st) \<subseteq> fr_resources c" for x y d
    using assms(3-5) that by (intro agree_job [OF assms(2)]) (auto split: if_splits)
  have plain: "agrees d (buildPlainLoop opts bn rec st next ctx l) (buildPlainLoop opts bn' rec' st next ctx l)" if "fr_source d = F" for d
    by (rule agree_plainLoop [OF assms(1,2) that assms(4) n])
  have tail: "agrees c
      (do { unbound \<leftarrow> b_read (\<lambda>s. list_ex (unbound_resource s) (children h ''declarations''));
        if has_flag h flag_Using \<and> unbound then
          buildResourceRegion opts (children h ''declarations'') next ctx (\<lambda>x y. rec (LoopJob st l) x y)
        else buildPlainLoop opts bn rec st next ctx l })
      (do { unbound \<leftarrow> b_read (\<lambda>s. list_ex (unbound_resource s) (children h ''declarations''));
        if has_flag h flag_Using \<and> unbound then
          buildResourceRegion opts (children h ''declarations'') next ctx (\<lambda>x y. rec' (LoopJob st l) x y)
        else buildPlainLoop opts bn' rec' st next ctx l })" if h: "loop_head st = Some h" for h
  proof (rule agree_at, intro agree_if plain)
    fix s
    assume s: "fr_owners c \<subseteq> owners s" "fr_resources c \<subseteq> bound_resources s"
      and u: "has_flag h flag_Using \<and> list_ex (unbound_resource s) (children h ''declarations'')"
    have d: "head_declarations st = children h ''declarations''" using h by (simp add: head_declarations_def)
    have "\<not> set (head_declarations st) \<subseteq> bound_resources s"
      using u unfolding d by (auto simp: list_ex_iff unbound_resource_def map_of_eq_None_iff)
    then have "\<not> set (head_declarations st) \<subseteq> fr_resources c" using s(2) by blast
    with bound [of "frame_at c s"] assms(3) s(1)
    show "agrees (frame_at c s) (buildResourceRegion opts (children h ''declarations'') next ctx (\<lambda>x y. rec (LoopJob st l) x y))
        (buildResourceRegion opts (children h ''declarations'') next ctx (\<lambda>x y. rec' (LoopJob st l) x y))"
      by (intro agree_resourceRegion) (simp add: d)
  qed (use assms(3) in simp)
  show ?thesis
    unfolding buildLoop_def
    by (intro agree_isOwner agree_case_option agree_if agree_lexicalRegion owned tail plain assms(3)) simp_all
qed

end
