(* ===== verification/Async_Cfg_Reach.thy ===== *)
theory Async_Cfg_Reach
  imports Async_Cfg_Graph
begin

text \<open>
  The reachability phase of the control-flow planner: the discovery loop finds the states reachable
  over the current successors, the outer loop reaches the least set closed under the successors whose
  \<open>finally\<close> exits continue only where a reachable state entered the region normally.
\<close>

section \<open>The discovery loop\<close>

abbreviation state_successors :: "cfg_state list \<Rightarrow> nat set \<Rightarrow> nat \<Rightarrow> nat list" where
  "state_successors states reachable \<equiv> \<lambda>i. successors states reachable (states ! i)"

lemma discover_closed:
  "discover states r w d = Some x \<Longrightarrow>
   d \<subseteq> x \<and> set w \<subseteq> x \<and> (\<forall>i\<in>x - d. i < length states \<and> set (state_successors states r i) \<subseteq> x) \<and>
   x \<subseteq> d \<union> reach_from (state_successors states r) (set w)"
proof (induction states r w d rule: discover.induct)
  case (2 states r i w d)
  let ?f = "state_successors states r"
  show ?case
  proof (cases "i \<in> d")
    case True
    then have "d \<subseteq> x \<and> set w \<subseteq> x \<and> (\<forall>i\<in>x - d. i < length states \<and> set (?f i) \<subseteq> x) \<and> x \<subseteq> d \<union> reach_from ?f (set w)"
      using 2 by simp
    moreover have "reach_from ?f (set w) \<subseteq> reach_from ?f (set (i # w))"
      using reach_from_start by (intro reach_from_mono) fastforce
    ultimately show ?thesis using True by auto
  next
    case False
    then have i: "i < length states" using 2(3) by (simp split: if_splits)
    have IH: "insert i d \<subseteq> x" "set (rev (?f i) @ w) \<subseteq> x"
        "\<forall>j\<in>x - insert i d. j < length states \<and> set (?f j) \<subseteq> x" "x \<subseteq> insert i d \<union> reach_from ?f (set (rev (?f i) @ w))"
      using 2(2) [OF False] 2(3) False i by simp_all
    have "reach_from ?f (set (rev (?f i) @ w)) \<subseteq> reach_from ?f (set (i # w))"
    proof (rule reach_from_mono)
      have "set (i # w) \<subseteq> reach_from ?f (set (i # w))" by (rule reach_from_start)
      then show "set (rev (?f i) @ w) \<subseteq> reach_from ?f (set (i # w))" by (auto intro: reach_from_step)
    qed
    moreover have "i \<in> reach_from ?f (set (i # w))" using reach_from_start [of "set (i # w)"] by auto
    moreover have "j < length states \<and> set (?f j) \<subseteq> x" if "j \<in> x - d" for j
      using that IH(2,3) i by (cases "j = i") auto
    ultimately show ?thesis using IH by auto
  qed
qed simp

lemma discover_reach:
  assumes "discover states r [entry] {} = Some x"
  shows "x = reach_from (state_successors states r) {entry}" and "x \<subseteq> {..<length states}"
proof -
  note d = discover_closed [OF assms]
  have "reach_from (state_successors states r) {entry} \<subseteq> x"
    by (rule reach_from_least) (use d in auto)
  then show "x = reach_from (state_successors states r) {entry}" using d by auto
  show "x \<subseteq> {..<length states}" using d by auto
qed

lemma discover_total:
  assumes "\<forall>i<length states. set (state_successors states r i) \<subseteq> {..<length states}"
  shows "set w \<subseteq> {..<length states} \<Longrightarrow> discover states r w d \<noteq> None"
  using assms by (induction states r w d rule: discover.induct) (auto simp: subset_eq)

declare discover.simps [simp del]

section \<open>The outer loop\<close>

lemma normal_exits_set:
  "set (normal_exits states r region) =
     {t. \<exists>c\<in>set states. cs_id c \<in> r \<and> (\<exists>e. cs_core c = CFinallyEnter region e (Some t))}"
proof -
  have "t \<in> set (case cs_core c of
         CFinallyEnter q entry (Some normal) \<Rightarrow> if q = region \<and> cs_id c \<in> r then [normal] else []
       | _ \<Rightarrow> []) \<longleftrightarrow> cs_id c \<in> r \<and> (\<exists>e. cs_core c = CFinallyEnter region e (Some t))" for t c
    by (cases "cs_core c") (auto split: option.splits)
  then show ?thesis unfolding normal_exits_def set_concat set_map UN_simps by blast
qed

lemma normal_exits_empty [simp]: "normal_exits states {} region = []"
  using normal_exits_set [of states "{}" region] by simp

lemma core_successors_finally:
  "set (core_successors states r c) = set (core_successors states {} c) \<union>
     (case c of CFinallyExit region t \<Rightarrow> set (normal_exits states r region) | _ \<Rightarrow> {})"
  by (cases c) auto

lemma successors_finally:
  "set (successors states r st) = set (successors states {} st) \<union>
     (case cs_core st of CFinallyExit region t \<Rightarrow> set (normal_exits states r region) | _ \<Rightarrow> {})"
  unfolding successors_def set_append by (subst core_successors_finally) (simp only: Un_assoc)

lemma successors_mono: "r \<subseteq> r' \<Longrightarrow> set (successors states r st) \<subseteq> set (successors states r' st)"
  by (subst (1 2) successors_finally, cases "cs_core st") (auto simp: normal_exits_set)

lemma reach_from_successors_mono:
  assumes "r \<subseteq> r'"
  shows "reach_from (state_successors states r) R \<subseteq> reach_from (state_successors states r') R"
proof (rule reach_from_least)
  show "R \<subseteq> reach_from (state_successors states r') R" by (rule reach_from_start)
  fix x y
  assume x: "x \<in> reach_from (state_successors states r') R" and "y \<in> set (state_successors states r x)"
  then have "y \<in> set (state_successors states r' x)" using successors_mono [OF assms] by blast
  with x show "y \<in> reach_from (state_successors states r') R" by (rule reach_from_step)
qed

text \<open>Reachability as a specification: a \<open>finally\<close> exit continues where a reached state entered the region.\<close>

inductive_set cfg_reachable :: "cfg_state list \<Rightarrow> nat \<Rightarrow> nat set" for states entry where
  entry: "entry \<in> cfg_reachable states entry"
| step: "i \<in> cfg_reachable states entry \<Longrightarrow> t \<in> set (state_successors states {} i) \<Longrightarrow> t \<in> cfg_reachable states entry"
| exit: "i \<in> cfg_reachable states entry \<Longrightarrow> cs_core (states ! i) = CFinallyExit region r \<Longrightarrow> c \<in> set states \<Longrightarrow>
    cs_id c \<in> cfg_reachable states entry \<Longrightarrow> cs_core c = CFinallyEnter region e (Some t) \<Longrightarrow> t \<in> cfg_reachable states entry"

lemma successors_reachable:
  assumes "i \<in> cfg_reachable states entry" "r \<subseteq> cfg_reachable states entry" "t \<in> set (state_successors states r i)"
  shows "t \<in> cfg_reachable states entry"
proof -
  consider "t \<in> set (state_successors states {} i)"
    | region u where "cs_core (states ! i) = CFinallyExit region u" "t \<in> set (normal_exits states r region)"
    using assms(3) unfolding successors_finally [of states r] by (cases "cs_core (states ! i)") auto
  then show ?thesis
  proof cases
    case 1
    then show ?thesis using assms(1) by (rule cfg_reachable.step [rotated])
  next
    case 2
    then obtain c e where "c \<in> set states" "cs_id c \<in> r" "cs_core c = CFinallyEnter region e (Some t)"
      by (auto simp: normal_exits_set)
    then show ?thesis using assms 2 by (blast intro: cfg_reachable.exit)
  qed
qed

lemma reachable_closed:
  assumes "entry \<in> x" "\<And>i. i \<in> x \<Longrightarrow> set (state_successors states x i) \<subseteq> x"
  shows "cfg_reachable states entry \<subseteq> x"
proof
  fix t assume "t \<in> cfg_reachable states entry"
  then show "t \<in> x"
  proof induction
    case (step i t)
    then show ?case using assms(2) [of i] successors_mono [of "{}" x] by blast
  next
    case (exit i region r c e t)
    then have "t \<in> set (normal_exits states x region)" by (auto simp: normal_exits_set)
    then have "t \<in> set (state_successors states x i)" using exit(2) by (simp add: successors_def)
    then show ?case using assms(2) exit(6) by blast
  qed (use assms in simp)
qed

lemma reachability_correct:
  assumes range: "\<And>r i. i < length states \<Longrightarrow> set (state_successors states r i) \<subseteq> {..<length states}"
    and entry: "entry < length states"
    and r: "r \<subseteq> reach_from (state_successors states r) {entry}" "r \<subseteq> cfg_reachable states entry" "r \<subseteq> {..<length states}"
    and fuel: "card ({..<length states} - r) + 1 < fuel"
  shows "reachability fuel states entry r = Done (Some (cfg_reachable states entry))"
  using r fuel
proof (induction fuel arbitrary: r)
  case (Suc fuel)
  let ?f = "reach_from (state_successors states r) {entry}"
  have "discover states r [entry] {} \<noteq> None" by (rule discover_total) (use range entry in simp_all)
  then obtain x where d: "discover states r [entry] {} = Some x" by blast
  note x = discover_reach [OF d]
  have sub: "?f \<subseteq> cfg_reachable states entry"
    by (rule reach_from_least) (use Suc(3) successors_reachable in \<open>blast intro: cfg_reachable.entry\<close>)+
  show ?case
  proof (cases "x = r")
    case True
    have "cfg_reachable states entry \<subseteq> x"
    proof (rule reachable_closed)
      show "entry \<in> x" unfolding x(1) using reach_from_start [of "{entry}"] by simp
      show "set (state_successors states x i) \<subseteq> x" if "i \<in> x" for i
      proof
        fix t assume "t \<in> set (state_successors states x i)"
        then have "t \<in> set (state_successors states r i)" using True by simp
        moreover have "i \<in> ?f" using that x(1) by (rule back_subst)
        ultimately have "t \<in> ?f" by (rule reach_from_step [rotated])
        then show "t \<in> x" using x(1) by (rule forw_subst [rotated])
      qed
    qed
    moreover have "x \<subseteq> cfg_reachable states entry" using x(1) sub by (rule ord_eq_le_trans)
    ultimately have "x = cfg_reachable states entry" by (rule subset_antisym [rotated])
    then show ?thesis using True d by simp
  next
    case False
    have "r \<subset> x" using False Suc(2) x by auto
    then have "{..<length states} - x \<subset> {..<length states} - r" using x(2) by blast
    then have less: "card ({..<length states} - x) < card ({..<length states} - r)" by (intro psubset_card_mono) simp
    have "x \<subseteq> reach_from (state_successors states x) {entry}"
      using Suc(2) x(1) reach_from_successors_mono [of r x states "{entry}"] by auto
    then have "reachability fuel states entry x = Done (Some (cfg_reachable states entry))"
      using Suc(1) [of x] sub x less Suc(5) by auto
    then show ?thesis using d False by simp
  qed
qed simp

lemma reachability_exact:
  assumes "\<And>r i. i < length states \<Longrightarrow> set (state_successors states r i) \<subseteq> {..<length states}" "entry < length states"
  shows "reachability (length states + 2) states entry {} = Done (Some (cfg_reachable states entry))"
  by (rule reachability_correct [OF assms]) simp_all

lemma reachable_range:
  assumes "\<And>r i. i < length states \<Longrightarrow> set (state_successors states r i) \<subseteq> {..<length states}" "entry < length states"
  shows "cfg_reachable states entry \<subseteq> {..<length states}"
  by (rule reachable_closed) (use assms in auto)

end
