(* ===== verification/Async_Cfg_Wf.thy ===== *)
theory Async_Cfg_Wf
  imports Async_Cfg_Reach Resumable_Graph
begin

text \<open>
  Well-formedness of the control-flow graph. A reference is a use of something the planner allocates:
  a state, a result slot, a synchronous slot, a binding value slot, an iterator slot, a resource scope
  or a finalization region. The invariant of the planner state is that every reference held anywhere
  is valid; \<open>bspec K Q m\<close> is the contract of an action that may use the references \<open>K\<close> and returns a
  value carrying the references \<open>Q\<close>.
\<close>

section \<open>References\<close>

datatype (plugins only: code size) cfg_ref =
    TargetRef nat | ResultRef nat | SyncRef nat | ValueRef nat | IteratorRef bool nat | ResourceRef nat | RegionRef nat

fun ref_valid :: "bstate \<Rightarrow> cfg_ref \<Rightarrow> bool" where
  "ref_valid s (TargetRef i) = (i < length (b_states s))"
| "ref_valid s (ResultRef i) = (i < length (b_expressionResults s))"
| "ref_valid s (SyncRef i) = (i < length (b_expressionSyncs s))"
| "ref_valid s (ValueRef i) = (i < b_bindingValueCount s)"
| "ref_valid s (IteratorRef a i) = (i < (if a then b_asyncIteratorCount s else b_iteratorCount s))"
| "ref_valid s (ResourceRef i) = (i < length (b_resourceScopes s))"
| "ref_valid s (RegionRef i) = (i < b_finallyCount s)"

fun staged_refs :: "staged_expression \<Rightarrow> cfg_ref set" where
  "staged_refs (StagedSync e i) = {SyncRef i}"
| "staged_refs (StagedResult e i) = {ResultRef i}"

fun target_refs :: "binding_assignment_target \<Rightarrow> cfg_ref set" where
  "target_refs (PropertyTarget n r) = staged_refs r"
| "target_refs (ElementTarget n r i) = staged_refs r \<union> staged_refs i"

fun source_refs :: "binding_source \<Rightarrow> cfg_ref set" where
  "source_refs (ResultSource i) = {ResultRef i}"
| "source_refs (ExceptionSource n) = {}"

fun exclusion_refs :: "rest_exclusion \<Rightarrow> cfg_ref set" where
  "exclusion_refs (ExcludeName n) = {}"
| "exclusion_refs (ExcludeValue v) = {ValueRef v}"

fun operation_refs :: "binding_operation \<Rightarrow> cfg_ref set" where
  "operation_refs (SourceOp source v p) = insert (ValueRef v) (source_refs source)"
| "operation_refs (CheckOp v) = {ValueRef v}"
| "operation_refs (BindingKeyOp key v) = insert (ValueRef v) (staged_refs key)"
| "operation_refs (PropertyOp source v n k r) = {ValueRef source, ValueRef v} \<union> ValueRef ` set_option k"
| "operation_refs (IteratorOpenOp v i) = {ValueRef v, IteratorRef False i}"
| "operation_refs (IteratorStepOp i v) = insert (IteratorRef False i) (ValueRef ` set_option v)"
| "operation_refs (IteratorRestOp i v) = insert (IteratorRef False i) (ValueRef ` set_option v)"
| "operation_refs (ObjectRestOp source v ex) = {ValueRef source, ValueRef v} \<union> (\<Union>e\<in>set ex. exclusion_refs e)"
| "operation_refs (DefaultTestOp v t) = {ValueRef v, TargetRef t}"
| "operation_refs (DefaultApplyOp r v) = {ResultRef r, ValueRef v}"
| "operation_refs (AssignOp n t v i) = insert (ValueRef v) (\<Union>u\<in>set_option t. target_refs u)"
| "operation_refs (ReleaseOp v) = {ValueRef v}"

fun route_refs :: "completion_route \<Rightarrow> cfg_ref set" where
  "route_refs (ReturnRoute t) = TargetRef ` set_option t"
| "route_refs ThrowRoute = {}"

definition branch_refs :: "expression_branch \<Rightarrow> cfg_ref set" where
  "branch_refs b = {TargetRef (branch_truthy b), TargetRef (branch_falsy b)} \<union> TargetRef ` set_option (branch_nullish b)"

fun core_refs :: "cfg_core \<Rightarrow> cfg_ref set" where
  "core_refs (CModuleExport s v t) = {ResultRef v, TargetRef t}"
| "core_refs (CResumable st defs e slots targets t r) =
     ResultRef ` set slots \<union> TargetRef ` snd ` set targets \<union> {TargetRef t} \<union> TargetRef ` set_option r"
| "core_refs (CSync s t) = {TargetRef t}"
| "core_refs (CScopeEnter r bs fs t) = {TargetRef t}"
| "core_refs (CScopeClone bs t) = {TargetRef t}"
| "core_refs (CObjectScopeEnter i r t) = {TargetRef i, ResultRef r, TargetRef t}"
| "core_refs (CEnvironmentExit i t) = {TargetRef i, TargetRef t}"
| "core_refs (CBranch e t f) = {TargetRef t, TargetRef f}"
| "core_refs (CIteratorInit a s b ts i r t) = {IteratorRef a i, TargetRef t} \<union> ResultRef ` set_option r"
| "core_refs (CIteratorNext a s b ts i v t d) = {IteratorRef a i, ValueRef v, TargetRef t, TargetRef d}"
| "core_refs (CIteratorClose a i c t) = insert (IteratorRef a i) (TargetRef ` set_option t)"
| "core_refs (CCompletion c) = {}"
| "core_refs (CResourceEnter i t) = {ResourceRef i, TargetRef t}"
| "core_refs (CResourceDispose i r a t) = {ResourceRef i, RegionRef r, TargetRef t}"
| "core_refs (CSwitchDispatch s d cs t) = {ResultRef d, TargetRef t} \<union> TargetRef ` snd ` set cs"
| "core_refs (CSwitchCompare s e d c t m r) = {ResultRef d, TargetRef t, TargetRef m} \<union> ResultRef ` set_option c"
| "core_refs (CCatchBind b t) = {TargetRef t}"
| "core_refs (CBindingInit b r t) = {ResultRef r, TargetRef t}"
| "core_refs (CBindingOp oper t) = insert (TargetRef t) (operation_refs oper)"
| "core_refs (CThrowRoute e t) = {TargetRef t}"
| "core_refs (CFinallyEnter r f t) = {RegionRef r, TargetRef f} \<union> TargetRef ` set_option t"
| "core_refs (CFinallyExit r t) = insert (RegionRef r) (TargetRef ` set_option t)"
| "core_refs (CFinallyReturnEnter r f) = {RegionRef r, TargetRef f}"
| "core_refs (CReturnRoute c t) = {TargetRef t}"
| "core_refs (CExpressionSync e i t) = {SyncRef i, TargetRef t}"
| "core_refs (CExpressionComplete e source a c b r t) =
     ResultRef ` set_option source \<union> (\<Union>x\<in>set_option c. route_refs x) \<union> (\<Union>x\<in>set_option b. branch_refs x) \<union>
     ResultRef ` set_option r \<union> TargetRef ` set_option t"

text \<open>An expression operation uses slots of its table and has a target for each of its edges.\<close>

fun core_closed :: "cfg_core \<Rightarrow> bool" where
  "core_closed (CResumable st defs e slots targets t r) \<longleftrightarrow>
     (\<forall>v\<in>set (state_slots st). v < length slots) \<and> (\<forall>c\<in>set defs. snd c < length slots) \<and>
     set (edge_ids st) \<subseteq> fst ` set targets"
| "core_closed c \<longleftrightarrow> True"

lemma drop_next_refs: "core_refs (drop_next c) \<subseteq> core_refs c"
  by (cases c) (auto simp: drop_next_def)

lemma drop_next_closed: "core_closed (drop_next c) = core_closed c"
  by (cases c) (auto simp: drop_next_def)

definition state_refs :: "cfg_state \<Rightarrow> cfg_ref set" where
  "state_refs st = core_refs (cs_core st) \<union> TargetRef ` set_option (cs_exception st)"

section \<open>The invariant\<close>

definition table_refs :: "bstate \<Rightarrow> cfg_ref set" where
  "table_refs s =
     SyncRef ` snd ` set (b_expressionSyncSlots s) \<union>
     (\<Union>p\<in>set (b_bindingAssignmentTargets s). \<Union>t\<in>set_option (snd p). target_refs t) \<union>
     ResultRef ` snd ` set (b_retainedSwitchDiscriminators s) \<union> ResultRef ` b_operationResultSlots s \<union>
     ValueRef ` set_option (b_iterationSlot s)"

definition b_inv :: "bstate \<Rightarrow> bool" where
  "b_inv s \<longleftrightarrow>
     (\<forall>i<length (b_states s). \<forall>st. b_states s ! i = Some st \<longrightarrow>
        cs_id st = i \<and> core_closed (cs_core st) \<and> (\<forall>r\<in>state_refs st. ref_valid s r)) \<and>
     (\<forall>r\<in>table_refs s. ref_valid s r)"

definition b_grows :: "bstate \<Rightarrow> bstate \<Rightarrow> bool" where
  "b_grows s s' \<longleftrightarrow> (\<forall>r. ref_valid s r \<longrightarrow> ref_valid s' r)"

lemma b_grows_refl [simp]: "b_grows s s"
  by (simp add: b_grows_def)

lemma b_grows_trans: "b_grows s s' \<Longrightarrow> b_grows s' s'' \<Longrightarrow> b_grows s s''"
  by (simp add: b_grows_def)

definition bspec :: "cfg_ref set \<Rightarrow> ('a \<Rightarrow> cfg_ref set) \<Rightarrow> 'a builder \<Rightarrow> bool" where
  "bspec K Q m \<longleftrightarrow>
     (\<forall>s x s'. run_state m s = (x, s') \<longrightarrow> b_inv s \<longrightarrow> (\<forall>r\<in>K. ref_valid s r) \<longrightarrow>
        b_inv s' \<and> b_grows s s' \<and> (\<forall>r\<in>Q x. ref_valid s' r))"

lemma bspecI:
  "(\<And>s x s'. run_state m s = (x, s') \<Longrightarrow> b_inv s \<Longrightarrow> (\<And>r. r \<in> K \<Longrightarrow> ref_valid s r) \<Longrightarrow>
     b_inv s' \<and> b_grows s s' \<and> (\<forall>r\<in>Q x. ref_valid s' r)) \<Longrightarrow> bspec K Q m"
  by (auto simp: bspec_def)

lemma bspecD:
  "bspec K Q m \<Longrightarrow> run_state m s = (x, s') \<Longrightarrow> b_inv s \<Longrightarrow> (\<And>r. r \<in> K \<Longrightarrow> ref_valid s r) \<Longrightarrow>
   b_inv s' \<and> b_grows s s' \<and> (\<forall>r\<in>Q x. ref_valid s' r)"
  by (auto simp: bspec_def)

lemma bspec_mono: "bspec K Q m \<Longrightarrow> K \<subseteq> K' \<Longrightarrow> (\<And>x. Q' x \<subseteq> Q x) \<Longrightarrow> bspec K' Q' m"
  unfolding bspec_def by blast

section \<open>Rules\<close>

named_theorems bspec_rules

lemma bspec_bind:
  assumes "bspec K P m" "\<And>x. bspec (P x \<union> K) Q (f x)"
  shows "bspec K Q (State_Monad.bind m f)"
proof (rule bspecI)
  fix s x s'
  assume run: "run_state (State_Monad.bind m f) s = (x, s')" and s: "b_inv s" "\<And>r. r \<in> K \<Longrightarrow> ref_valid s r"
  obtain y t where y: "run_state m s = (y, t)" by fastforce
  note first = bspecD [OF assms(1) y s]
  have "b_inv s' \<and> b_grows t s' \<and> (\<forall>r\<in>Q x. ref_valid s' r)"
    by (rule bspecD [OF assms(2) [of y], of t]) (use run y first s in \<open>auto simp: b_grows_def\<close>)
  then show "b_inv s' \<and> b_grows s s' \<and> (\<forall>r\<in>Q x. ref_valid s' r)" using first b_grows_trans by blast
qed

lemma bspec_return [bspec_rules]: "Q x \<subseteq> K \<Longrightarrow> bspec K Q (State_Monad.return x)"
  by (auto simp: bspec_def)

lemma bspec_if [bspec_rules]:
  "(b \<Longrightarrow> bspec K Q m) \<Longrightarrow> (\<not> b \<Longrightarrow> bspec K Q m') \<Longrightarrow> bspec K Q (if b then m else m')"
  by simp

lemma bspec_case_option [bspec_rules]:
  "(x = None \<Longrightarrow> bspec K Q m) \<Longrightarrow> (\<And>y. x = Some y \<Longrightarrow> bspec K Q (f y)) \<Longrightarrow>
   bspec K Q (case x of None \<Rightarrow> m | Some y \<Rightarrow> f y)"
  by (cases x) simp_all

lemma bspec_case_prod [bspec_rules]:
  "(\<And>y z. x = (y, z) \<Longrightarrow> bspec K Q (f y z)) \<Longrightarrow> bspec K Q (case x of (y, z) \<Rightarrow> f y z)"
  by (cases x) simp

lemma bspec_bind_bind [bspec_rules]:
  "bspec K Q (State_Monad.bind m (\<lambda>x. State_Monad.bind (g x) f)) \<Longrightarrow> bspec K Q (State_Monad.bind (State_Monad.bind m g) f)"
  by simp

lemma bspec_bind_return [bspec_rules]: "bspec K Q (f x) \<Longrightarrow> bspec K Q (State_Monad.bind (State_Monad.return x) f)"
  by simp

lemma bspec_bind_if [bspec_rules]:
  "(b \<Longrightarrow> bspec K Q (State_Monad.bind m f)) \<Longrightarrow> (\<not> b \<Longrightarrow> bspec K Q (State_Monad.bind m' f)) \<Longrightarrow>
   bspec K Q (State_Monad.bind (if b then m else m') f)"
  by simp

lemma bspec_bind_case_option [bspec_rules]:
  "(y = None \<Longrightarrow> bspec K Q (State_Monad.bind m f)) \<Longrightarrow> (\<And>z. y = Some z \<Longrightarrow> bspec K Q (State_Monad.bind (h z) f)) \<Longrightarrow>
   bspec K Q (State_Monad.bind (case y of None \<Rightarrow> m | Some z \<Rightarrow> h z) f)"
  by (cases y) simp_all

lemma bspec_bind_case_prod [bspec_rules]:
  "(\<And>y z. x = (y, z) \<Longrightarrow> bspec K Q (State_Monad.bind (h y z) f)) \<Longrightarrow>
   bspec K Q (State_Monad.bind (case x of (y, z) \<Rightarrow> h y z) f)"
  by (cases x) simp

section \<open>Primitive actions\<close>

lemma state_kept:
  assumes "b_inv s" "b_grows s s'" "i < length (b_states s)" "b_states s ! i = Some st"
  shows "cs_id st = i \<and> core_closed (cs_core st) \<and> (\<forall>r\<in>state_refs st. ref_valid s' r)"
  using assms by (auto simp: b_inv_def b_grows_def)

text \<open>An update that keeps the states.\<close>

lemma b_inv_update:
  assumes "b_inv s" "b_states s' = b_states s" "b_grows s s'" "\<And>r. r \<in> table_refs s' \<Longrightarrow> r \<in> table_refs s \<or> ref_valid s' r"
  shows "b_inv s'"
  using assms unfolding b_inv_def b_grows_def by metis

lemma bspec_direct:
  assumes "\<And>s. run_state m s = (g s, f s)" "\<And>s. b_states (f s) = b_states s" "\<And>s. b_grows s (f s)"
    "\<And>s r. b_inv s \<Longrightarrow> (\<And>r. r \<in> K \<Longrightarrow> ref_valid s r) \<Longrightarrow> r \<in> table_refs (f s) \<Longrightarrow> r \<in> table_refs s \<or> ref_valid (f s) r"
    "\<And>s r. b_inv s \<Longrightarrow> (\<And>r. r \<in> K \<Longrightarrow> ref_valid s r) \<Longrightarrow> r \<in> Q (g s) \<Longrightarrow> ref_valid (f s) r"
  shows "bspec K Q m"
proof (rule bspecI)
  fix s x s'
  assume run: "run_state m s = (x, s')" and s: "b_inv s" "\<And>r. r \<in> K \<Longrightarrow> ref_valid s r"
  have s': "s' = f s" "x = g s" using run assms(1) by simp_all
  have "b_inv (f s)" by (rule b_inv_update [OF s(1)]) (use assms(2-4) s in blast)+
  then show "b_inv s' \<and> b_grows s s' \<and> (\<forall>r\<in>Q x. ref_valid s' r)" using assms(3,5) s by (simp add: s')
qed

lemma bspec_update:
  assumes "\<And>s. b_states (f s) = b_states s" "\<And>s. b_grows s (f s)" "\<And>s. table_refs (f s) = table_refs s"
  shows "bspec K (\<lambda>_. {}) (State_Monad.update f)"
  by (rule bspec_direct [where f = f and g = "\<lambda>_. ()"]) (use assms in \<open>auto simp: State_Monad.update_def\<close>)

lemma bspec_read: "(\<And>s. b_inv s \<Longrightarrow> (\<And>r. r \<in> K \<Longrightarrow> ref_valid s r) \<Longrightarrow> \<forall>r\<in>Q (f s). ref_valid s r) \<Longrightarrow> bspec K Q (b_read f)"
  by (auto simp: bspec_def b_read_def)

lemma bspec_read_any: "bspec K (\<lambda>_. {}) (b_read f)"
  by (rule bspec_read) simp

lemma grows_lists:
  assumes "length (b_states s) \<le> length (b_states s')" "length (b_expressionResults s) \<le> length (b_expressionResults s')"
    "length (b_expressionSyncs s) \<le> length (b_expressionSyncs s')" "b_bindingValueCount s \<le> b_bindingValueCount s'"
    "b_iteratorCount s \<le> b_iteratorCount s'" "b_asyncIteratorCount s \<le> b_asyncIteratorCount s'"
    "length (b_resourceScopes s) \<le> length (b_resourceScopes s')" "b_finallyCount s \<le> b_finallyCount s'"
  shows "b_grows s s'"
  unfolding b_grows_def
proof (intro allI impI)
  fix r assume "ref_valid s r"
  then show "ref_valid s' r" using assms by (cases r) auto
qed

lemma bspec_reserve: "bspec K (\<lambda>i. {TargetRef i}) b_reserve"
proof (rule bspecI)
  fix s x s'
  assume run: "run_state b_reserve s = (x, s')" and s: "b_inv s"
  have s': "s' = s\<lparr>b_states := b_states s @ [None]\<rparr>" "x = length (b_states s)"
    using run by (simp_all add: b_reserve_def b_read_def State_Monad.update_def)
  have g: "b_grows s s'" by (rule grows_lists) (simp_all add: s')
  have "b_inv s'"
    unfolding b_inv_def
  proof (intro conjI allI impI)
    fix i st assume "i < length (b_states s')" "b_states s' ! i = Some st"
    then have "i < length (b_states s)" "b_states s ! i = Some st" by (auto simp: s' nth_append_new split: if_splits)
    then show "cs_id st = i" "core_closed (cs_core st)" "\<forall>r\<in>state_refs st. ref_valid s' r" using state_kept [OF s g] by blast+
  next
    have "table_refs s' = table_refs s" by (simp add: s' table_refs_def)
    then show "\<forall>r\<in>table_refs s'. ref_valid s' r" using s g by (auto simp: b_inv_def b_grows_def)
  qed
  then show "b_inv s' \<and> b_grows s s' \<and> (\<forall>r\<in>{TargetRef x}. ref_valid s' r)" using g by (simp add: s')
qed

lemma bspec_setState:
  assumes "TargetRef i \<in> K" "core_refs core \<subseteq> K" "TargetRef ` set_option exc \<subseteq> K" "core_closed core"
  shows "bspec K (\<lambda>i. {TargetRef i}) (setState i core exc)"
proof (rule bspecI)
  fix s x s'
  assume run: "run_state (setState i core exc) s = (x, s')" and s: "b_inv s" and K: "\<And>r. r \<in> K \<Longrightarrow> ref_valid s r"
  let ?new = "\<lparr>cs_id = i, cs_core = drop_next core, cs_exception = exc\<rparr>"
  have s': "s' = s\<lparr>b_states := (b_states s)[i := Some ?new]\<rparr>" "x = i"
    using run by (auto simp: setState_def State_Monad.update_def)
  have g: "b_grows s s'" by (rule grows_lists) (simp_all add: s')
  have i: "i < length (b_states s)" using K [OF assms(1)] by simp
  have "\<forall>r\<in>state_refs ?new. ref_valid s r" using K assms(2,3) drop_next_refs [of core] by (auto simp: state_refs_def)
  then have new: "\<forall>r\<in>state_refs ?new. ref_valid s' r" using g by (simp add: b_grows_def)
  have "b_inv s'"
    unfolding b_inv_def
  proof (intro conjI allI impI)
    fix j st assume j: "j < length (b_states s')" "b_states s' ! j = Some st"
    have "cs_id st = j \<and> core_closed (cs_core st) \<and> (\<forall>r\<in>state_refs st. ref_valid s' r)"
    proof (cases "j = i")
      case True
      then have "st = ?new" using j i by (simp add: s')
      then show ?thesis using new assms(4) True by (simp add: drop_next_closed)
    next
      case False
      then show ?thesis using j state_kept [OF s g, of j st] by (simp add: s')
    qed
    then show "cs_id st = j" "core_closed (cs_core st)" "\<forall>r\<in>state_refs st. ref_valid s' r" by blast+
  next
    have "table_refs s' = table_refs s" by (simp add: s' table_refs_def)
    then show "\<forall>r\<in>table_refs s'. ref_valid s' r" using s g by (auto simp: b_inv_def b_grows_def)
  qed
  then show "b_inv s' \<and> b_grows s s' \<and> (\<forall>r\<in>{TargetRef x}. ref_valid s' r)" using g i by (simp add: s')
qed

lemma bspec_newState:
  assumes "core_refs core \<subseteq> K" "TargetRef ` set_option exc \<subseteq> K" "core_closed core"
  shows "bspec K (\<lambda>i. {TargetRef i}) (newState core exc)"
  unfolding newState_def by (rule bspec_bind [OF bspec_reserve], rule bspec_setState) (use assms in auto)

lemma bspec_pushResult: "bspec K (\<lambda>i. {ResultRef i}) (pushResult e)"
  by (rule bspec_direct [where f = "\<lambda>s. s\<lparr>b_expressionResults := b_expressionResults s @ [e]\<rparr>" and g = "\<lambda>s. length (b_expressionResults s)"])
    (auto simp: pushResult_def b_read_def State_Monad.update_def table_refs_def intro!: grows_lists)

lemma bspec_nextBindingValue: "bspec K (\<lambda>i. {ValueRef i}) nextBindingValue"
  by (rule bspec_direct [where f = "\<lambda>s. s\<lparr>b_bindingValueCount := b_bindingValueCount s + 1\<rparr>" and g = b_bindingValueCount])
    (auto simp: nextBindingValue_def b_read_def State_Monad.update_def table_refs_def intro!: grows_lists)

lemma bspec_nextFinally: "bspec K (\<lambda>i. {RegionRef i}) nextFinally"
  by (rule bspec_direct [where f = "\<lambda>s. s\<lparr>b_finallyCount := b_finallyCount s + 1\<rparr>" and g = b_finallyCount])
    (auto simp: nextFinally_def b_read_def State_Monad.update_def table_refs_def intro!: grows_lists)

lemma bspec_nextIterator: "bspec K (\<lambda>i. {IteratorRef a i}) (nextIterator a)"
proof (cases a)
  case True
  then show ?thesis
    by (intro bspec_direct [where f = "\<lambda>s. s\<lparr>b_asyncIteratorCount := b_asyncIteratorCount s + 1\<rparr>" and g = b_asyncIteratorCount])
      (auto simp: nextIterator_def b_read_def State_Monad.update_def table_refs_def intro!: grows_lists)
next
  case False
  then show ?thesis
    by (intro bspec_direct [where f = "\<lambda>s. s\<lparr>b_iteratorCount := b_iteratorCount s + 1\<rparr>" and g = b_iteratorCount])
      (auto simp: nextIterator_def b_read_def State_Monad.update_def table_refs_def intro!: grows_lists)
qed

lemma bspec_addResourceScope: "bspec K (\<lambda>i. {ResourceRef i}) (addResourceScope resources a)"
  by (rule bspec_direct [where f = "\<lambda>s. s\<lparr>b_resourceScopes := b_resourceScopes s @ [(resources, a)],
       b_resourceBindings := map (\<lambda>d. (d, length (b_resourceScopes s))) resources @ b_resourceBindings s\<rparr>"
       and g = "\<lambda>s. length (b_resourceScopes s)"])
    (auto simp: addResourceScope_def b_read_def State_Monad.update_def table_refs_def intro!: grows_lists)

lemma bspec_pushOperationResult: "bspec K (\<lambda>i. {ResultRef i}) (pushOperationResult e)"
  by (rule bspec_direct [where f = "\<lambda>s. s\<lparr>b_expressionResults := b_expressionResults s @ [e],
       b_operationResultSlots := insert (length (b_expressionResults s)) (b_operationResultSlots s)\<rparr>"
       and g = "\<lambda>s. length (b_expressionResults s)"])
    (auto simp: pushOperationResult_def pushResult_def b_read_def State_Monad.update_def table_refs_def intro!: grows_lists)

lemma bspec_retainSwitch: "ResultRef slot \<in> K \<Longrightarrow> bspec K (\<lambda>_. {}) (retainSwitch statement slot)"
  by (rule bspec_direct [where f = "\<lambda>s. s\<lparr>b_retainedSwitchDiscriminators := (statement, slot) # b_retainedSwitchDiscriminators s\<rparr>" and g = "\<lambda>_. ()"])
    (fastforce simp: retainSwitch_def State_Monad.update_def table_refs_def intro!: grows_lists)+

lemma bspec_setIteration: "ValueRef v \<in> K \<Longrightarrow> bspec K (\<lambda>_. {}) (State_Monad.update (\<lambda>s. s\<lparr>b_iterationSlot := Some v\<rparr>))"
  by (rule bspec_direct [where f = "\<lambda>s. s\<lparr>b_iterationSlot := Some v\<rparr>" and g = "\<lambda>_. ()"])
    (fastforce simp: State_Monad.update_def table_refs_def intro!: grows_lists)+

lemma bspec_clearIteration: "bspec K (\<lambda>_. {}) (State_Monad.update (\<lambda>s. s\<lparr>b_iterationSlot := None\<rparr>))"
  by (rule bspec_direct [where f = "\<lambda>s. s\<lparr>b_iterationSlot := None\<rparr>" and g = "\<lambda>_. ()"])
    (fastforce simp: State_Monad.update_def table_refs_def intro!: grows_lists)+

lemma bspec_rememberTarget:
  "(\<Union>t\<in>set_option plan. target_refs t) \<subseteq> K \<Longrightarrow>
   bspec K (\<lambda>_. {}) (State_Monad.update (\<lambda>s. s\<lparr>b_bindingAssignmentTargets := (n, plan) # b_bindingAssignmentTargets s\<rparr>))"
proof (rule bspec_direct [where f = "\<lambda>s. s\<lparr>b_bindingAssignmentTargets := (n, plan) # b_bindingAssignmentTargets s\<rparr>" and g = "\<lambda>_. ()"])
  fix s :: bstate and r
  let ?s = "s\<lparr>b_bindingAssignmentTargets := (n, plan) # b_bindingAssignmentTargets s\<rparr>"
  assume plan: "(\<Union>t\<in>set_option plan. target_refs t) \<subseteq> K" and K: "\<And>r. r \<in> K \<Longrightarrow> ref_valid s r" and r: "r \<in> table_refs ?s"
  have "b_grows s ?s" by (rule grows_lists) simp_all
  then show "r \<in> table_refs s \<or> ref_valid ?s r" using plan K r by (auto simp: table_refs_def b_grows_def)
qed (auto simp: State_Monad.update_def intro!: grows_lists)

lemma bspec_plain_updates:
  "bspec K (\<lambda>_. {}) countAwait"
  "bspec K (\<lambda>_. {}) (addDeclaration d)"
  "bspec K (\<lambda>_. {}) (addBindingIdentifiers ns)"
  "bspec K (\<lambda>_. {}) b_throw"
  "bspec K (\<lambda>_. {}) (addScopeOwner n)"
  "bspec K (\<lambda>_. {}) (changeLoopDepth h)"
  "bspec K (\<lambda>_. {}) (State_Monad.update (\<lambda>s. s\<lparr>b_fresh := k\<rparr>))"
  "bspec K (\<lambda>_. {}) (State_Monad.update (\<lambda>s. s\<lparr>b_supported := v\<rparr>))"
  "bspec K (\<lambda>_. {}) (State_Monad.update (\<lambda>s. s\<lparr>b_exhausted := v\<rparr>))"
  "bspec K (\<lambda>_. {}) (State_Monad.update (\<lambda>s. s\<lparr>b_loopAwaitDepth := max (b_loopAwaitDepth s) (b_currentLoopDepth s + 1)\<rparr>))"
  unfolding countAwait_def addDeclaration_def addBindingIdentifiers_def b_throw_def addScopeOwner_def changeLoopDepth_def
  by (rule bspec_update; auto simp: table_refs_def intro!: grows_lists)+

lemma bspec_unsupported [bspec_rules]: "Q x \<subseteq> K \<Longrightarrow> bspec K Q (b_unsupported x)"
  unfolding b_unsupported_def by (rule bspec_bind [OF bspec_plain_updates(8)], rule bspec_return) auto

lemma bspec_exhaust [bspec_rules]: "Q x \<subseteq> K \<Longrightarrow> bspec K Q (b_exhaust x)"
  unfolding b_exhaust_def by (rule bspec_bind [OF bspec_plain_updates(9)], rule bspec_return) auto

text \<open>The binding of a primitive action.\<close>

lemmas bspec_primitives =
  bspec_reserve bspec_setState bspec_newState bspec_pushResult bspec_pushOperationResult bspec_nextBindingValue
  bspec_nextFinally bspec_nextIterator bspec_addResourceScope bspec_retainSwitch bspec_setIteration bspec_clearIteration
  bspec_rememberTarget bspec_plain_updates

lemmas bspec_bind_primitives [bspec_rules] = bspec_primitives [THEN bspec_bind]

lemmas bspec_tail_primitives [bspec_rules] =
  bspec_reserve bspec_setState bspec_newState bspec_pushResult

abbreviation tgt :: "nat \<Rightarrow> cfg_ref set" where "tgt i \<equiv> {TargetRef i}"
abbreviation opt_tgt :: "nat option \<Rightarrow> cfg_ref set" where "opt_tgt x \<equiv> TargetRef ` set_option x"

lemma bspec_bind_map:
  fixes f :: "'x \<Rightarrow> 'y builder"
  assumes "\<And>K x. bspec K P (f x)"
    and "\<And>ys. length ys = length xs \<Longrightarrow> bspec ((\<Union>y\<in>set ys. P y) \<union> K) Q (g ys)"
  shows "bspec K Q (State_Monad.bind (b_map f xs) g)"
  using assms(2)
proof (induction xs arbitrary: K g)
  case (Cons x xs)
  have "bspec K Q (State_Monad.bind (f x) (\<lambda>y. State_Monad.bind (b_map f xs) (\<lambda>ys. g (y # ys))))"
  proof (rule bspec_bind [OF assms(1)], rule Cons.IH)
    fix y and ys :: "'y list"
    assume "length ys = length xs"
    then have "bspec ((\<Union>z\<in>set (y # ys). P z) \<union> K) Q (g (y # ys))" by (intro Cons.prems) simp
    then show "bspec ((\<Union>z\<in>set ys. P z) \<union> (P y \<union> K)) Q (g (y # ys))" by (rule bspec_mono) auto
  qed
  then show ?case by simp
qed simp

section \<open>Expressions and bindings\<close>

definition ctx_refs :: "build_context \<Rightarrow> cfg_ref set" where
  "ctx_refs ctx =
     (\<Union>p\<in>set_option (ctx_loop ctx). {TargetRef (fst p), TargetRef (snd p)}) \<union> TargetRef ` set_option (ctx_break ctx) \<union>
     (\<Union>l\<in>set (ctx_labels ctx). insert (TargetRef (fst (snd l))) (TargetRef ` set_option (snd (snd l)))) \<union>
     TargetRef ` set_option (ctx_exception ctx) \<union> TargetRef ` set_option (ctx_return ctx)"

lemma ctx_mem:
  assumes "ctx_refs ctx \<subseteq> K"
  shows "\<And>t. ctx_exception ctx = Some t \<Longrightarrow> TargetRef t \<in> K" "\<And>t. ctx_return ctx = Some t \<Longrightarrow> TargetRef t \<in> K"
    "\<And>t. ctx_break ctx = Some t \<Longrightarrow> TargetRef t \<in> K" "\<And>b c. ctx_loop ctx = Some (b, c) \<Longrightarrow> TargetRef b \<in> K \<and> TargetRef c \<in> K"
    "\<And>l b c. (l, b, c) \<in> set (ctx_labels ctx) \<Longrightarrow> TargetRef b \<in> K"
    "\<And>l b c. (l, b, Some c) \<in> set (ctx_labels ctx) \<Longrightarrow> TargetRef c \<in> K"
  using assms by (force simp: ctx_refs_def)+

text \<open>The contract of \<open>buildBindingName\<close>.\<close>

definition binds :: "bind_name \<Rightarrow> bool" where
  "binds bindName \<longleftrightarrow>
     (\<forall>K b v next ctx ts i. ValueRef v \<in> K \<longrightarrow> TargetRef next \<in> K \<longrightarrow> ctx_refs ctx \<subseteq> K \<longrightarrow>
        bspec K opt_tgt (bindName b v next ctx ts i))"

lemma bindsD: "binds bindName \<Longrightarrow> ValueRef v \<in> K \<Longrightarrow> TargetRef next \<in> K \<Longrightarrow> ctx_refs ctx \<subseteq> K \<Longrightarrow>
    bspec K opt_tgt (bindName b v next ctx ts i)"
  by (simp add: binds_def)

lemma bspec_fromValueSlot:
  assumes "binds bindName" "TargetRef next \<in> K" "ctx_refs ctx \<subseteq> K"
  shows "bspec K (\<lambda>r. \<Union>(e, v)\<in>set_option r. {TargetRef e, ValueRef v}) (buildBindingFromValueSlot bindName b next ctx ts i)"
  unfolding buildBindingFromValueSlot_def
  by (rule bspec_bind [OF bspec_nextBindingValue], rule bspec_bind [OF bindsD [OF assms(1)]], use assms in auto)
    (rule bspec_return, auto)

lemma target_of_mem: "i \<in> fst ` set targets \<Longrightarrow> target_of targets i \<in> snd ` set targets"
proof -
  assume "i \<in> fst ` set targets"
  then have "map_of (rev targets) i \<noteq> None" by (simp add: map_of_eq_None_iff)
  then obtain t where t: "map_of (rev targets) i = Some t" by blast
  then have "(i, t) \<in> set targets" using map_of_SomeD [OF t] by simp
  then show ?thesis using t by (force simp: target_of_def)
qed

text \<open>What an operation of the expression graph needs of the tables: its edges have targets and its slots exist.\<close>

definition operation_known :: "nat list \<Rightarrow> (nat \<times> nat) list \<Rightarrow> resumable_state \<Rightarrow> bool" where
  "operation_known slots targets st \<longleftrightarrow>
     rid st \<in> fst ` set targets \<and> set (edge_ids st) \<subseteq> fst ` set targets \<and> (\<forall>v\<in>set (state_slots st). v < length slots)"

lemma target_of_ref: "TargetRef ` snd ` set targets \<subseteq> K \<Longrightarrow> i \<in> fst ` set targets \<Longrightarrow> TargetRef (target_of targets i) \<in> K"
  using target_of_mem by blast

lemma slot_ref: "ResultRef ` set slots \<subseteq> K \<Longrightarrow> v < length slots \<Longrightarrow> ResultRef (slots ! v) \<in> K"
  by (meson image_subset_iff nth_mem)

lemma bspec_bindingState:
  assumes "binds bindName" "ctx_refs ctx \<subseteq> K" "ResultRef ` set slots \<subseteq> K" "TargetRef ` snd ` set targets \<subseteq> K"
    and "operation_known slots targets (RBinding i n b ts source output next)"
  shows "bspec K (\<lambda>_. {}) (bindingStateOperation bindName ctx slots targets i n b ts source output next)"
proof -
  have refs: "ResultRef (slots ! source) \<in> K" "ResultRef (slots ! output) \<in> K"
      "TargetRef (target_of targets next) \<in> K" "TargetRef (target_of targets i) \<in> K"
    using assms(3-5) by (auto simp: operation_known_def edge_ids_def intro!: target_of_ref slot_ref)
  show ?thesis
    unfolding bindingStateOperation_def
    by (intro bspec_rules bspec_fromValueSlot [THEN bspec_bind]) (use assms refs ctx_mem [OF assms(2)] in auto)
qed

lemma edge_ids_targets: "edge_ids st = state_targets st" if "\<not> is_jump st"
  using that by (cases st) (auto simp: edge_ids_def is_jump_def)

lemma bspec_resumableOperation:
  assumes "ctx_refs ctx \<subseteq> K" "ResultRef ` set slots \<subseteq> K" "TargetRef ` snd ` set targets \<subseteq> K" "TargetRef complete \<in> K"
    and known: "operation_known slots targets st" and defs: "\<forall>c\<in>set (graph_classDefinitions graph). snd c < length slots"
  shows "bspec K (\<lambda>_. {}) (resumableOperation opts ctx graph slots targets complete st)"
proof -
  have targets: "TargetRef (target_of targets i) \<in> K" if "i \<in> insert (rid st) (set (edge_ids st))" for i
    using that known assms(3) by (intro target_of_ref) (auto simp: operation_known_def)
  have closed: "core_closed (CResumable st (graph_classDefinitions graph) e slots (map (\<lambda>i. (i, target_of targets i)) (edge_ids st)) t r)" for e t r
    using known defs by (auto simp: operation_known_def image_image)
  have next': "TargetRef (case edge_ids st of [] \<Rightarrow> complete | i # x \<Rightarrow> target_of targets i) \<in> K"
    using targets assms(4) by (cases "edge_ids st") auto
  show ?thesis
    unfolding resumableOperation_def
    by (intro bspec_rules closed) (use assms(1,2) targets next' ctx_mem [OF assms(1)] in auto)
qed

lemma bspec_expressionOperations:
  assumes "binds bindName" "ctx_refs ctx \<subseteq> K" "ResultRef ` set slots \<subseteq> K" "TargetRef ` snd ` set targets \<subseteq> K" "TargetRef complete \<in> K"
    and "\<forall>c\<in>set (graph_classDefinitions graph). snd c < length slots" "\<forall>st\<in>set sts. operation_known slots targets st"
  shows "bspec K (\<lambda>_. {}) (expressionOperations opts bindName ctx graph slots targets complete sts)"
  using assms(7)
proof (induction sts)
  case (Cons st sts)
  have "bspec K (\<lambda>_. {}) (case st of
        RBinding i n binding assignmentTargets source output next \<Rightarrow>
          bindingStateOperation bindName ctx slots targets i n binding assignmentTargets source output next
      | _ \<Rightarrow> resumableOperation opts ctx graph slots targets complete st)"
    using Cons(2) bspec_resumableOperation [OF assms(2-5) _ assms(6), of st opts] bspec_bindingState [OF assms(1-4)]
    by (cases st) simp_all
  then show ?case
    unfolding expressionOperations.simps
    by (rule bspec_bind) (use Cons in \<open>auto intro!: bspec_rules\<close>)
qed (simp add: bspec_return)

lemma zip_snd_subset: "snd ` set (zip xs ys) \<subseteq> set ys"
  by (auto dest: set_zip_rightD)

lemma bspec_expressionGraph:
  assumes "binds bindName" "ctx_refs ctx \<subseteq> K" "TargetRef next \<in> K" "graph_ok graph"
    and "(\<Union>x\<in>set_option completion. route_refs x) \<subseteq> K" "(\<Union>x\<in>set_option branch. branch_refs x) \<subseteq> K"
    and "ResultRef ` set_option result \<subseteq> K"
  shows "bspec K opt_tgt (expressionGraph opts bindName e assignment next ctx completion branch result graph)"
proof -
  let ?n = "length (graph_states graph)"
  have known: "operation_known slots (zip (map rid (graph_states graph)) reserved) st"
    if slots: "length slots = length (graph_values graph)" and reserved: "length reserved = ?n" and st: "st \<in> set (graph_states graph)"
    for slots reserved st
  proof -
    obtain i where i: "i < ?n" "st = graph_states graph ! i" using st by (auto simp: in_set_conv_nth)
    have ids: "fst ` set (zip (map rid (graph_states graph)) reserved) = {..<?n}"
    proof -
      have "map rid (graph_states graph) = [0..<?n]"
        using assms(4) by (intro nth_equalityI) (auto simp: graph_ok_def Let_def)
      then show ?thesis using reserved by (metis atLeast_upt length_map map_fst_zip set_map)
    qed
    have "\<not> is_jump st" using i assms(4) by (auto simp: graph_ok_def Let_def)
    then show ?thesis using i assms(4) slots by (auto simp: operation_known_def ids edge_ids_targets graph_ok_def Let_def)
  qed
  have entry: "TargetRef (target_of (zip (map rid (graph_states graph)) reserved) (graph_entry graph)) \<in> K'"
    if "length reserved = ?n" "TargetRef ` set reserved \<subseteq> K'" for reserved K'
  proof (rule target_of_ref)
    have "map rid (graph_states graph) = [0..<?n]"
      using assms(4) by (intro nth_equalityI) (auto simp: graph_ok_def Let_def)
    then show "graph_entry graph \<in> fst ` set (zip (map rid (graph_states graph)) reserved)"
      using that(1) assms(4) by (metis atLeast_upt graph_ok_def length_map lessThan_iff map_fst_zip set_map)
    show "TargetRef ` snd ` set (zip (map rid (graph_states graph)) reserved) \<subseteq> K'"
      using image_mono [OF zip_snd_subset, of TargetRef] that(2) by (rule order_trans)
  qed
  have result: "graph_result graph < length (graph_values graph)" using assms(4) by (simp add: graph_ok_def)
  show ?thesis
    unfolding expressionGraph_def Let_def
  proof (rule bspec_bind_map [OF bspec_pushOperationResult], rule bspec_bind [OF bspec_newState], goal_cases)
    case (4 slots complete)
    show ?case
    proof (rule bspec_bind_map [OF bspec_reserve], rule bspec_bind [OF bspec_expressionOperations], goal_cases)
      case (7 reserved)
      then show ?case using known [OF 4] by simp
    next
      case (8 reserved ok)
      then show ?case using entry [of reserved] by (intro bspec_return) auto
    qed (use assms 4 in \<open>auto dest: set_zip_rightD simp: graph_ok_def\<close>)
  qed (use assms result ctx_mem [OF assms(2)] in \<open>auto intro!: slot_ref\<close>)
qed

lemma bspec_planExpression:
  assumes "\<And>graph. graph_ok graph \<Longrightarrow> bspec K Q (f (PlanGraph graph))" "\<And>n. bspec K Q (f (PlanUnsupported n))"
  shows "bspec K Q (State_Monad.bind (b_planExpression opts e) f)"
proof (rule bspecI)
  fix s x s'
  assume run: "run_state (State_Monad.bind (b_planExpression opts e) f) s = (x, s')" and s: "b_inv s" "\<And>r. r \<in> K \<Longrightarrow> ref_valid s r"
  let ?p = "planResumableExpression (syntax_env opts) (suspensionKind opts = AsyncGeneratorFunctions) e (b_fresh s)"
  let ?t = "s\<lparr>b_fresh := snd ?p\<rparr>"
  have plan: "bspec K Q (f (fst ?p))"
    using planResumableExpression_ok [of "syntax_env opts" "suspensionKind opts = AsyncGeneratorFunctions" e "b_fresh s"] assms
    by (cases "fst ?p") auto
  have run': "run_state (f (fst ?p)) ?t = (x, s')"
    using run by (simp add: b_planExpression_def b_read_def State_Monad.update_def case_prod_unfold Let_def)
  have "run_state (State_Monad.update (\<lambda>s. s\<lparr>b_fresh := snd ?p\<rparr>)) s = ((), ?t)" by (simp add: State_Monad.update_def)
  note t = bspecD [OF bspec_plain_updates(7) this s(1), of "{}"]
  have "b_inv s' \<and> b_grows ?t s' \<and> (\<forall>r\<in>Q x. ref_valid s' r)"
    by (rule bspecD [OF plan run']) (use t s in \<open>auto simp: b_grows_def\<close>)
  then show "b_inv s' \<and> b_grows s s' \<and> (\<forall>r\<in>Q x. ref_valid s' r)" using t b_grows_trans by blast
qed

lemma bspec_sequence:
  assumes "binds bindName" "ctx_refs ctx \<subseteq> K" "TargetRef next \<in> K"
    and "(\<Union>x\<in>set_option completion. route_refs x) \<subseteq> K" "(\<Union>x\<in>set_option branch. branch_refs x) \<subseteq> K"
    and "ResultRef ` set_option result \<subseteq> K"
  shows "bspec K opt_tgt (buildExpressionSequence opts bindName e assignment next ctx completion branch result)"
  unfolding buildExpressionSequence_def
  by (rule bspec_planExpression) (use assms in \<open>auto intro!: bspec_expressionGraph bspec_return\<close>)

lemma bspec_result:
  assumes "binds bindName" "ctx_refs ctx \<subseteq> K" "TargetRef next \<in> K" "ResultRef result \<in> K"
  shows "bspec K opt_tgt (buildExpressionResult opts bindName e result next ctx)"
  unfolding buildExpressionResult_def
  by (intro bspec_rules bspec_sequence) (use assms ctx_mem [OF assms(2)] in auto)

lemma bspec_bindingOperation:
  "operation_refs oper \<subseteq> K \<Longrightarrow> TargetRef next \<in> K \<Longrightarrow> ctx_refs ctx \<subseteq> K \<Longrightarrow> bspec K tgt (buildBindingOperation oper next ctx)"
  unfolding buildBindingOperation_def by (rule bspec_newState) (use ctx_mem [of ctx K] in auto)

lemmas bspec_bind_operation [bspec_rules] = bspec_bindingOperation [THEN bspec_bind]

lemma bspec_planStaged: "bspec K staged_refs (planBindingStagedExpression opts e)"
proof -
  let ?known = "b_read (\<lambda>s. map_of (b_expressionSyncSlots s) e)"
  have read: "bspec K (\<lambda>x. SyncRef ` set_option x) ?known"
    by (rule bspec_read) (auto simp: b_inv_def table_refs_def ball_Un dest!: map_of_SomeD)
  have add: "bspec K (\<lambda>i. {SyncRef i}) (do {
      slot \<leftarrow> b_read (\<lambda>s. length (b_expressionSyncs s));
      State_Monad.update (\<lambda>s. s\<lparr>b_expressionSyncs := b_expressionSyncs s @ [e],
        b_expressionSyncSlots := (e, slot) # b_expressionSyncSlots s\<rparr>);
      State_Monad.return slot })" for K
    by (rule bspec_direct [where f = "\<lambda>s. s\<lparr>b_expressionSyncs := b_expressionSyncs s @ [e],
        b_expressionSyncSlots := (e, length (b_expressionSyncs s)) # b_expressionSyncSlots s\<rparr>" and g = "\<lambda>s. length (b_expressionSyncs s)"])
      (auto simp: b_read_def State_Monad.update_def table_refs_def intro!: grows_lists)
  have add': "bspec K staged_refs (do {
      slot \<leftarrow> b_read (\<lambda>s. length (b_expressionSyncs s));
      State_Monad.update (\<lambda>s. s\<lparr>b_expressionSyncs := b_expressionSyncs s @ [e],
        b_expressionSyncSlots := (e, slot) # b_expressionSyncSlots s\<rparr>);
      State_Monad.return (StagedSync e slot) })" for K
    using bspec_bind [OF add [of K], of staged_refs "\<lambda>slot. State_Monad.return (StagedSync e slot)"]
    by (simp add: bspec_return)
  show ?thesis
    unfolding planBindingStagedExpression_def
    by (intro bspec_rules read [THEN bspec_bind] add') auto
qed

lemmas bspec_bind_planStaged [bspec_rules] = bspec_planStaged [THEN bspec_bind]

lemma bspec_planTarget: "bspec K (\<lambda>x. \<Union>t\<in>set_option x. target_refs t) (planBindingAssignmentTarget opts target)"
  unfolding planBindingAssignmentTarget_def by (intro bspec_rules) auto

lemma bspec_assignmentTarget: "bspec K (\<lambda>x. \<Union>t\<in>set_option x. target_refs t) (bindingAssignmentTarget opts n targets)"
proof -
  have read: "bspec K (\<lambda>x. \<Union>y\<in>set_option x. \<Union>t\<in>set_option y. target_refs t) (b_read (\<lambda>s. map_of (b_bindingAssignmentTargets s) n))"
    by (rule bspec_read) (fastforce simp: b_inv_def table_refs_def ball_Un dest!: map_of_SomeD)
  show ?thesis
    unfolding bindingAssignmentTarget_def
    by (intro bspec_rules read [THEN bspec_bind] bspec_planTarget [THEN bspec_bind]) auto
qed

lemma bspec_staged:
  assumes "binds bindName" "ctx_refs ctx \<subseteq> K" "TargetRef next \<in> K" "staged_refs staged \<subseteq> K"
  shows "bspec K opt_tgt (buildBindingStagedExpression opts bindName staged next ctx)"
  unfolding buildBindingStagedExpression_def
  by (cases staged; simp only: staged_expression.case; intro bspec_rules bspec_result)
    (use assms ctx_mem [OF assms(2)] in auto)

lemma bspec_preparation:
  assumes "binds bindName" "ctx_refs ctx \<subseteq> K" "TargetRef next \<in> K" "target_refs t \<subseteq> K"
  shows "bspec K opt_tgt (buildBindingAssignmentPreparation opts bindName t next ctx)"
  unfolding buildBindingAssignmentPreparation_def
  by (cases t; simp only: binding_assignment_target.case; intro bspec_rules bspec_staged [THEN bspec_bind] bspec_staged)
    (use assms in auto)

lemma bspec_default:
  assumes "binds bindName" "ctx_refs ctx \<subseteq> K" "TargetRef assign \<in> K" "ValueRef v \<in> K"
  shows "bspec K opt_tgt (buildBindingDefault opts bindName e v assign ctx)"
  unfolding buildBindingDefault_def
  by (intro bspec_rules bspec_result [THEN bspec_bind]) (use assms in auto)

lemma bspec_identifier:
  assumes "binds bindName" "ctx_refs ctx \<subseteq> K" "TargetRef next \<in> K" "ValueRef v \<in> K"
  shows "bspec K opt_tgt (buildBindingIdentifier opts bindName n v e next ctx ts i)"
  unfolding buildBindingIdentifier_def
  by (intro bspec_rules bspec_assignmentTarget [THEN bspec_bind] bspec_default) (use assms in auto)

lemma bspec_element:
  assumes "binds bindName" "ctx_refs ctx \<subseteq> K" "TargetRef next \<in> K" "ValueRef v \<in> K"
  shows "bspec K opt_tgt (buildBindingElement opts bindName n v next ctx ts i)"
  unfolding buildBindingElement_def
  by (intro bspec_rules bspec_identifier bindsD [THEN bspec_bind]; (auto split: option.split intro!: bspec_rules bspec_default)?)
    (use assms in auto)

definition property_refs :: "binding_property \<Rightarrow> cfg_ref set" where
  "property_refs p = (\<Union>k\<in>set_option (bp_key p). staged_refs k) \<union> ValueRef ` set_option (bp_keySlot p)"

definition key_slotted :: "binding_property \<Rightarrow> bool" where
  "key_slotted p \<longleftrightarrow> (bp_key p = None \<longleftrightarrow> bp_keySlot p = None)"

lemma bspec_bind_property:
  assumes "\<And>p. key_slotted p \<Longrightarrow> bspec (property_refs p \<union> K) Q (f p)"
  shows "bspec K Q (State_Monad.bind (bindingProperty opts name) f)"
proof -
  have K: "bspec K' Q (f p)" if "key_slotted p" "property_refs p \<union> K \<subseteq> K'" for p K'
    using assms [OF that(1)] that(2) by (rule bspec_mono) simp
  show ?thesis
    unfolding bindingProperty_def by (intro bspec_rules K) (auto simp: key_slotted_def property_refs_def)
qed

lemma bspec_bind_properties:
  assumes "\<And>x. (\<forall>p\<in>snd ` set (concat (option_list x)). key_slotted p) \<Longrightarrow>
      bspec ((\<Union>p\<in>snd ` set (concat (option_list x)). property_refs p) \<union> K) Q (f x)"
  shows "bspec K Q (State_Monad.bind (bindingProperties opts elements) f)"
  using assms
proof (induction elements arbitrary: K f)
  case Nil
  then show ?case using Nil [of "Some []"] by (simp add: option_list_def)
next
  case (Cons element elements)
  have none: "bspec K Q (f None)" using Cons.prems [of None] by (simp add: option_list_def)
  show ?case
  proof (cases "\<not> is_elem BindingElement element \<or> is_rest element")
    case True
    then show ?thesis using Cons.IH [OF Cons.prems] by simp
  next
    case False
    show ?thesis
    proof (cases "property_name element")
      case None
      then show ?thesis using False none by simp
    next
      case (Some name)
      have "bspec K Q (State_Monad.bind (bindingProperty opts name)
          (\<lambda>p. State_Monad.bind (bindingProperties opts elements) (\<lambda>x. f (map_option (\<lambda>ps. (element, p) # ps) x))))"
      proof (rule bspec_bind_property, rule Cons.IH)
        fix p :: binding_property and x
        let ?x = "map_option (\<lambda>ps. (element, p) # ps) x"
        assume p: "key_slotted p" and x: "\<forall>p\<in>snd ` set (concat (option_list x)). key_slotted p"
        have "bspec ((\<Union>p\<in>snd ` set (concat (option_list ?x)). property_refs p) \<union> K) Q (f ?x)"
          by (rule Cons.prems) (use p x in \<open>fastforce simp: option_list_def split: option.splits\<close>)
        then show "bspec ((\<Union>p\<in>snd ` set (concat (option_list x)). property_refs p) \<union> (property_refs p \<union> K)) Q (f ?x)"
          by (rule bspec_mono) (fastforce simp: option_list_def split: option.splits)+
      qed
      then show ?thesis using False Some by simp
    qed
  qed
qed

lemma bspec_then:
  "bspec K opt_tgt m \<Longrightarrow> (\<And>x. bspec (insert (TargetRef x) K) opt_tgt (f x)) \<Longrightarrow> bspec K opt_tgt (b_then m f)"
  unfolding b_then_def by (erule bspec_bind) (auto intro!: bspec_rules)

definition properties_known :: "cfg_ref set \<Rightarrow> (node \<times> binding_property) list \<Rightarrow> bool" where
  "properties_known K ps \<longleftrightarrow> (\<forall>p\<in>snd ` set ps. key_slotted p \<and> property_refs p \<subseteq> K)"

lemma properties_known_mono: "properties_known K ps \<Longrightarrow> K \<subseteq> K' \<Longrightarrow> properties_known K' ps"
  unfolding properties_known_def by blast

lemma property_known: "properties_known K ps \<Longrightarrow> map_of ps n = Some p \<Longrightarrow> key_slotted p \<and> property_refs p \<subseteq> K"
  by (force simp: properties_known_def dest: map_of_SomeD)

lemma exclusions_known: "properties_known K ps \<Longrightarrow> (\<Union>e\<in>set (map (rest_exclusion_of \<circ> snd) ps). exclusion_refs e) \<subseteq> K"
proof -
  have "exclusion_refs (rest_exclusion_of p) \<subseteq> property_refs p" for p
    by (auto simp: rest_exclusion_of_def property_refs_def split: option.splits)
  then show "properties_known K ps \<Longrightarrow> ?thesis" unfolding properties_known_def set_map by fastforce
qed

lemma bspec_obtain:
  assumes "properties_known K ps" "ctx_refs ctx \<subseteq> K" "TargetRef next \<in> K" "ValueRef v \<in> K" "ValueRef c \<in> K"
    and "IteratorRef False ` set_option iter \<subseteq> K"
  shows "bspec K opt_tgt (bindingObtain iter v ps hasRest ctx n isLast c next)"
proof -
  have ex: "(\<Union>p\<in>set ps. exclusion_refs (rest_exclusion_of (snd p))) \<subseteq> K" using exclusions_known [OF assms(1)] by simp
  have keys: "ValueRef k \<in> K" if "map_of ps n = Some p" "bp_keySlot p = Some k" for p k
    using property_known [OF assms(1) that(1)] that(2) by (auto simp: property_refs_def)
  show ?thesis
    unfolding bindingObtain_def
    by (intro bspec_rules) (use assms(2-6) ex keys in \<open>auto split: option.splits\<close>)
qed

lemma bspec_reference:
  assumes "binds bindName" "ctx_refs ctx \<subseteq> K" "TargetRef next \<in> K"
  shows "bspec K opt_tgt (bindingReference opts bindName ts ctx n next)"
  unfolding bindingReference_def
  by (intro bspec_rules bspec_assignmentTarget [THEN bspec_bind] bspec_preparation) (use assms in auto)

lemma bspec_key:
  assumes "binds bindName" "properties_known K ps" "ctx_refs ctx \<subseteq> K" "TargetRef next \<in> K"
  shows "bspec K opt_tgt (bindingKey opts bindName ps ctx n next)"
proof -
  have keys: "staged_refs k \<subseteq> K \<and> ValueRef (the (bp_keySlot p)) \<in> K" if "map_of ps n = Some p" "bp_key p = Some k" for p k
    using property_known [OF assms(2) that(1)] that(2) by (auto simp: property_refs_def key_slotted_def)
  show ?thesis
    unfolding bindingKey_def
    by (intro bspec_rules bspec_staged) (use assms keys in auto)
qed

lemma bspec_turn:
  assumes "binds bindName" "properties_known K ps" "ctx_refs ctx \<subseteq> K" "TargetRef entry \<in> K" "ValueRef v \<in> K"
    and "IteratorRef False ` set_option iter \<subseteq> K"
  shows "bspec K opt_tgt (bindingElementTurn opts bindName iter v ps hasRest ts i ctx n isLast entry)"
  unfolding bindingElementTurn_def
  by (intro bspec_rules bspec_then bspec_element bspec_obtain bspec_reference bspec_key properties_known_mono [OF assms(2)])
    (use assms in auto)

lemma bspec_backwards:
  assumes "\<And>x l e. bspec (insert (TargetRef e) K) opt_tgt (f x l e)" "TargetRef entry \<in> K"
  shows "bspec K opt_tgt (b_backwards f xs entry)"
  using assms(2)
  by (induction xs) (auto intro!: bspec_rules bspec_then assms(1))

lemma ctx_refs_updates [simp]:
  "ctx_refs (ctx\<lparr>ctx_exception := Some t, ctx_return := Some u\<rparr>) \<subseteq> K \<longleftrightarrow>
     TargetRef t \<in> K \<and> TargetRef u \<in> K \<and> ctx_refs (ctx\<lparr>ctx_exception := None, ctx_return := None\<rparr>) \<subseteq> K"
  "ctx_refs (ctx\<lparr>ctx_exception := Some t\<rparr>) \<subseteq> K \<longleftrightarrow> TargetRef t \<in> K \<and> ctx_refs (ctx\<lparr>ctx_exception := None\<rparr>) \<subseteq> K"
  by (auto simp: ctx_refs_def)

lemma ctx_refs_none:
  "ctx_refs ctx \<subseteq> K \<Longrightarrow> ctx_refs (ctx\<lparr>ctx_exception := None, ctx_return := None\<rparr>) \<subseteq> K"
  "ctx_refs ctx \<subseteq> K \<Longrightarrow> ctx_refs (ctx\<lparr>ctx_exception := None\<rparr>) \<subseteq> K"
  by (auto simp: ctx_refs_def)

lemma bspec_openPattern:
  assumes "ctx_refs ctx \<subseteq> K" "TargetRef release \<in> K"
  shows "bspec K (\<lambda>(slot, entry, c). {IteratorRef False slot, TargetRef entry} \<union> ctx_refs c) (openPattern release ctx)"
  unfolding openPattern_def
  by (intro bspec_rules) (use assms ctx_mem [OF assms(1)] ctx_refs_none [OF assms(1)] in auto)

lemma bspec_arrayPattern:
  assumes "binds bindName" "ctx_refs ctx \<subseteq> K" "TargetRef release \<in> K" "ValueRef v \<in> K"
  shows "bspec K opt_tgt (buildArrayPattern opts bindName b v release ctx ts i)"
  unfolding buildArrayPattern_def
  by (intro bspec_rules bspec_openPattern [THEN bspec_bind] bspec_then bspec_backwards bspec_turn)
    (use assms in \<open>auto simp: properties_known_def\<close>)

lemma bspec_objectPattern:
  assumes "binds bindName" "ctx_refs ctx \<subseteq> K" "TargetRef release \<in> K" "ValueRef v \<in> K"
  shows "bspec K opt_tgt (buildObjectPattern opts bindName b v release ctx ts i)"
  unfolding buildObjectPattern_def
proof (rule bspec_bind_properties, rule bspec_case_option, goal_cases)
  case (2 x ps)
  then have ps: "properties_known ((\<Union>p\<in>snd ` set (concat (option_list x)). property_refs p) \<union> K) ps"
    by (auto simp: properties_known_def option_list_def)
  show ?case
    by (intro bspec_rules bspec_then bspec_backwards bspec_turn properties_known_mono [OF ps]) (use assms in auto)
qed (auto intro!: bspec_rules)

lemma bspec_bindingName_body:
  assumes "binds bindName"
  shows "binds (bindingName_body opts bindName)"
  unfolding binds_def bindingName_body_def
  by (intro allI impI bspec_rules bspec_then bspec_identifier bspec_preparation bspec_assignmentTarget [THEN bspec_bind]
      bspec_arrayPattern bspec_objectPattern) (use assms in auto)

lemma binds_buildBindingName: "binds (buildBindingName opts fuel)"
proof (induction fuel)
  case 0
  then show ?case by (auto simp: binds_def intro!: bspec_rules)
qed (simp add: bspec_bindingName_body)

lemma bspec_suspendingBinding:
  assumes "binds bindName" "ctx_refs ctx \<subseteq> K" "TargetRef next \<in> K" "source_refs source \<subseteq> K"
  shows "bspec K opt_tgt (buildSuspendingBinding bindName b source next ctx)"
  unfolding buildSuspendingBinding_def
  by (intro bspec_rules bspec_fromValueSlot [THEN bspec_bind]) (use assms in auto)

section \<open>Statements\<close>

definition runs :: "build_job \<Rightarrow> bool" where
  "runs rec \<longleftrightarrow> (\<forall>K job next ctx. TargetRef next \<in> K \<longrightarrow> ctx_refs ctx \<subseteq> K \<longrightarrow> bspec K tgt (rec job next ctx))"

lemma runsD: "runs rec \<Longrightarrow> TargetRef next \<in> K \<Longrightarrow> ctx_refs ctx \<subseteq> K \<Longrightarrow> bspec K tgt (rec job next ctx)"
  by (simp add: runs_def)

abbreviation wrapped_refs :: "(nat \<times> nat) list \<Rightarrow> cfg_ref set" where "wrapped_refs w \<equiv> TargetRef ` snd ` set w"

definition wraps :: "cfg_ref set \<Rightarrow> (nat \<Rightarrow> cfg_core) \<Rightarrow> bool" where
  "wraps K core \<longleftrightarrow> (\<forall>t. core_closed (core t) \<and> core_refs (core t) \<subseteq> insert (TargetRef t) K)"

lemma wraps_mono: "wraps K core \<Longrightarrow> K \<subseteq> K' \<Longrightarrow> wraps K' core"
  unfolding wraps_def by blast

lemma bspec_wrapTarget:
  assumes "wraps K core" "TargetRef ` set_option exc \<subseteq> K" "TargetRef t \<in> K" "wrapped_refs w \<subseteq> K"
  shows "bspec K (\<lambda>(i, w). insert (TargetRef i) (wrapped_refs w)) (wrapTarget core exc t w)"
proof -
  have "core_refs (core t) \<subseteq> K" "core_closed (core t)" using assms(1,3) by (auto simp: wraps_def)
  moreover have "TargetRef b \<in> K" if "(a, b) \<in> set w" for a b using assms(4) that by force
  moreover note map_of_SomeD [of w t]
  ultimately show ?thesis unfolding wrapTarget_def by (intro bspec_rules) (use assms in auto)
qed

lemma bspec_wrapOption:
  assumes "wraps K core" "TargetRef ` set_option exc \<subseteq> K" "TargetRef ` set_option t \<subseteq> K" "wrapped_refs w \<subseteq> K"
  shows "bspec K (\<lambda>(i, w). opt_tgt i \<union> wrapped_refs w) (wrapOption core exc t w)"
  unfolding wrapOption_def
  by (intro bspec_rules bspec_wrapTarget [THEN bspec_bind]) (use assms in auto)

lemma bspec_wrapLoop:
  assumes "wraps K core" "TargetRef ` set_option exc \<subseteq> K" "\<And>b c. t = Some (b, c) \<Longrightarrow> TargetRef b \<in> K \<and> TargetRef c \<in> K"
    "wrapped_refs w \<subseteq> K"
  shows "bspec K (\<lambda>(i, w). (\<Union>p\<in>set_option i. {TargetRef (fst p), TargetRef (snd p)}) \<union> wrapped_refs w) (wrapLoop core exc t w)"
  unfolding wrapLoop_def
  by (intro bspec_rules bspec_wrapTarget [THEN bspec_bind] wraps_mono [OF assms(1)]) (use assms in auto)

abbreviation label_refs :: "(string \<times> (nat \<times> nat option)) list \<Rightarrow> cfg_ref set" where
  "label_refs ls \<equiv> (\<Union>l\<in>set ls. insert (TargetRef (fst (snd l))) (TargetRef ` set_option (snd (snd l))))"

lemma label_mem: "label_refs ls \<subseteq> K \<Longrightarrow> (l, b, c) \<in> set ls \<Longrightarrow> insert (TargetRef b) (opt_tgt c) \<subseteq> K"
  by (auto dest!: UN_subset_iff [THEN iffD1])

lemma wrapped_mem: "wrapped_refs w \<subseteq> K \<Longrightarrow> (a, b) \<in> set w \<Longrightarrow> TargetRef b \<in> K"
  by force

lemma bspec_wrapLabels:
  assumes "wraps K core" "TargetRef ` set_option exc \<subseteq> K" "label_refs ls \<subseteq> K" "wrapped_refs w \<subseteq> K"
  shows "bspec K label_refs (wrapLabels core exc ls w)"
  using assms
proof (induction core exc ls w arbitrary: K rule: wrapLabels.induct)
  case (2 core exc label brk cont labels w)
  have ls: "label_refs labels \<subseteq> K" and brk: "TargetRef brk \<in> K" "opt_tgt cont \<subseteq> K" using 2(4) by simp_all
  note labels = label_mem [OF ls] and w = wrapped_mem [OF 2(5)]
  show ?case
    unfolding wrapLabels.simps
    by (intro bspec_rules bspec_wrapTarget [THEN bspec_bind] bspec_wrapOption [THEN bspec_bind] 2(1) [THEN bspec_bind]
        wraps_mono [OF 2(2)]) (use 2(2,3) brk labels w in \<open>auto simp: subset_iff\<close>)
qed (auto intro!: bspec_rules)

lemma bspec_protectContext:
  assumes "wraps K core" "ctx_refs ctx \<subseteq> K" "TargetRef normal \<in> K" "TargetRef return \<in> K"
  shows "bspec K ctx_refs (protectContext core ctx next normal return)"
proof -
  have labels: "label_refs (ctx_labels ctx) \<subseteq> K" using assms(2) by (auto simp: ctx_refs_def)
  have new: "ctx_refs (ctx\<lparr>ctx_loop := l, ctx_break := b, ctx_labels := ls, ctx_return := Some return\<rparr>) \<subseteq>
      (\<Union>p\<in>set_option l. {TargetRef (fst p), TargetRef (snd p)}) \<union> opt_tgt b \<union> label_refs ls \<union> K" for l b ls
    using assms(2,4) by (auto simp: ctx_refs_def)
  show ?thesis
    unfolding protectContext_def
    by (intro bspec_rules bspec_wrapLoop [THEN bspec_bind] bspec_wrapOption [THEN bspec_bind] bspec_wrapLabels [THEN bspec_bind]
        wraps_mono [OF assms(1)] order_trans [OF new]) (use assms labels ctx_mem [OF assms(2)] in auto)
qed

lemma bspec_region:
  assumes ctx: "ctx_refs ctx \<subseteq> K" "TargetRef next \<in> K"
    and finalizer: "\<And>exit region K'. K \<subseteq> K' \<Longrightarrow> TargetRef exit \<in> K' \<Longrightarrow> RegionRef region \<in> K' \<Longrightarrow> bspec K' tgt (buildFinalizer exit region)"
    and protected: "\<And>n t c K'. K \<subseteq> K' \<Longrightarrow> TargetRef n \<in> K' \<Longrightarrow> TargetRef t \<in> K' \<Longrightarrow> ctx_refs c \<subseteq> K' \<Longrightarrow> bspec K' tgt (buildProtected n t c)"
  shows "bspec K tgt (buildFinalizationRegion next ctx buildFinalizer buildProtected)"
  unfolding buildFinalizationRegion_def
  by (intro bspec_rules finalizer [THEN bspec_bind] bspec_protectContext [THEN bspec_bind] protected)
    (use ctx ctx_mem [OF ctx(1)] in \<open>auto simp: wraps_def\<close>)

lemma ctx_refs_exception: "TargetRef t \<in> K \<Longrightarrow> ctx_refs ctx \<subseteq> K \<Longrightarrow> ctx_refs (ctx\<lparr>ctx_exception := Some t\<rparr>) \<subseteq> K"
  using ctx_refs_none by simp

lemma bspec_lexicalRegion:
  assumes ctx: "ctx_refs ctx \<subseteq> K" "TargetRef next \<in> K"
    and body: "\<And>n c K'. K \<subseteq> K' \<Longrightarrow> TargetRef n \<in> K' \<Longrightarrow> ctx_refs c \<subseteq> K' \<Longrightarrow> bspec K' tgt (buildBody n c)"
  shows "bspec K tgt (buildLexicalRegion owner bs fs next ctx buildBody)"
  unfolding buildLexicalRegion_def
  by (intro bspec_rules bspec_region body [THEN bspec_bind] ctx_refs_exception) (use ctx ctx_mem [OF ctx(1)] in auto)

lemma bspec_resourceRegion:
  assumes ctx: "ctx_refs ctx \<subseteq> K" "TargetRef next \<in> K"
    and body: "\<And>n c K'. K \<subseteq> K' \<Longrightarrow> TargetRef n \<in> K' \<Longrightarrow> ctx_refs c \<subseteq> K' \<Longrightarrow> bspec K' tgt (buildBody n c)"
  shows "bspec K tgt (buildResourceRegion opts resources next ctx buildBody)"
  unfolding buildResourceRegion_def Let_def
  by (intro bspec_rules bspec_region body [THEN bspec_bind] ctx_refs_exception) (use ctx ctx_mem [OF ctx(1)] in auto)

lemma bspec_resourceScope:
  assumes "runs rec" "ctx_refs ctx \<subseteq> K" "TargetRef next \<in> K"
  shows "bspec K tgt (buildResourceScope opts rec sequence i next ctx)"
  unfolding buildResourceScope_def Let_def
  by (intro bspec_rules bspec_resourceRegion [THEN bspec_bind] runsD [OF assms(1)]) (use assms in auto)

lemma bspec_sequenceStatements:
  assumes "runs rec" "ctx_refs ctx \<subseteq> K" "TargetRef next \<in> K"
  shows "bspec K tgt (sequenceStatements rec ss next ctx)"
  using assms(3)
proof (induction ss)
  case (Cons st ss)
  show ?case
    unfolding sequenceStatements.simps
    by (intro bspec_rules Cons.IH [THEN bspec_bind] bspec_read_any [THEN bspec_bind] runsD [OF assms(1)]) (use assms Cons.prems in auto)
qed (auto intro!: bspec_rules)

lemma bspec_buildSequence:
  assumes "runs rec" "ctx_refs ctx \<subseteq> K" "TargetRef next \<in> K"
  shows "bspec K tgt (buildSequence opts rec ss next ctx)"
  unfolding buildSequence_def
  by (intro bspec_rules bspec_read_any [THEN bspec_bind] bspec_resourceScope bspec_sequenceStatements) (use assms in auto)

lemma bspec_block:
  assumes "runs rec" "ctx_refs ctx \<subseteq> K" "TargetRef next \<in> K"
  shows "bspec K tgt (buildLexicalBlock opts rec block next ctx)"
  unfolding buildLexicalBlock_def Let_def
  by (intro bspec_rules bspec_lexicalRegion runsD [OF assms(1)] runsD [OF assms(1), THEN bspec_bind]) (use assms ctx_mem [OF assms(2)] in auto)

subsection \<open>Loops\<close>

lemma update_label_refs: "label_refs (AList.update l (b, c) ls) \<subseteq> insert (TargetRef b) (opt_tgt c) \<union> label_refs ls"
  by (induction ls) auto

lemma ctx_refs_loopContext:
  assumes "ctx_refs ctx \<subseteq> K" "TargetRef b \<in> K" "TargetRef c \<in> K"
  shows "ctx_refs (loopContext ctx label b c) \<subseteq> K"
proof -
  let ?ls = "case label of Some l \<Rightarrow> if l = [] then ctx_labels ctx else AList.update l (b, Some c) (ctx_labels ctx) | None \<Rightarrow> ctx_labels ctx"
  have "label_refs ?ls \<subseteq> {TargetRef b, TargetRef c} \<union> label_refs (ctx_labels ctx)"
    using update_label_refs [of _ b "Some c" "ctx_labels ctx"] by (cases label) auto
  moreover have "{TargetRef b, TargetRef c} \<union> label_refs (ctx_labels ctx) \<subseteq> K" using assms by (auto simp: ctx_refs_def)
  ultimately have "label_refs ?ls \<subseteq> K" by (rule order_trans)
  moreover have "opt_tgt (ctx_exception ctx) \<subseteq> K" "opt_tgt (ctx_return ctx) \<subseteq> K" using ctx_mem(1,2) [OF assms(1)] by auto
  moreover have "ctx_refs (loopContext ctx label b c) =
      {TargetRef b, TargetRef c} \<union> label_refs ?ls \<union> opt_tgt (ctx_exception ctx) \<union> opt_tgt (ctx_return ctx)"
    by (auto simp: ctx_refs_def loopContext_def)
  ultimately show ?thesis using assms(2,3) by (simp only: Un_subset_iff insert_subset empty_subsetI simp_thms)
qed

lemma bspec_loopBody:
  assumes "runs rec" "ctx_refs ctx \<subseteq> K" "TargetRef next \<in> K"
  shows "bspec K tgt (buildLoopBody rec body next ctx)"
  unfolding buildLoopBody_def by (intro bspec_rules runsD [OF assms(1)]) (use assms in auto)

lemma bspec_letClones:
  assumes "ctx_refs ctx \<subseteq> K" "TargetRef condition \<in> K" "TargetRef cont \<in> K"
  shows "bspec K (\<lambda>(c, i). insert (TargetRef c) (opt_tgt i)) (buildLetClones statement condition cont ctx)"
  unfolding buildLetClones_def Let_def
  by (intro bspec_rules) (use assms ctx_mem [OF assms(1)] in auto)

lemma bspec_loopCondition:
  assumes "binds bindName" "ctx_refs ctx \<subseteq> K" "TargetRef condition \<in> K" "TargetRef body \<in> K" "TargetRef next \<in> K"
  shows "bspec K (\<lambda>_. {}) (buildLoopCondition opts bindName statement condition body next ctx)"
  unfolding buildLoopCondition_def Let_def
  by (intro bspec_rules bspec_sequence [THEN bspec_bind]) (use assms ctx_mem [OF assms(2)] in \<open>auto simp: branch_refs_def\<close>)

lemma bspec_loopEntry:
  assumes "runs rec" "ctx_refs ctx \<subseteq> K" "TargetRef entry \<in> K"
  shows "bspec K tgt (buildLoopEntry opts rec statement entry ctx)"
  unfolding buildLoopEntry_def Let_def isScopeOwner_def
  by (intro bspec_rules runsD [OF assms(1), THEN bspec_bind] bspec_read_any [THEN bspec_bind]) (use assms ctx_mem [OF assms(2)] in auto)

lemma bspec_loopStates:
  assumes "binds bindName" "runs rec" "ctx_refs ctx \<subseteq> K" "TargetRef next \<in> K" "TargetRef condition \<in> K" "TargetRef increment \<in> K"
  shows "bspec K tgt (buildLoopStates opts bindName rec statement next ctx label condition increment)"
  unfolding buildLoopStates_def
  by (intro bspec_rules bspec_letClones [THEN bspec_bind] bspec_loopBody [THEN bspec_bind] bspec_loopCondition [THEN bspec_bind]
      bspec_loopEntry ctx_refs_loopContext) (use assms in \<open>auto split: option.splits\<close>)

lemma bspec_plainLoop:
  assumes "binds bindName" "runs rec" "ctx_refs ctx \<subseteq> K" "TargetRef next \<in> K"
  shows "bspec K tgt (buildPlainLoop opts bindName rec statement next ctx label)"
  unfolding buildPlainLoop_def
  by (intro bspec_rules bspec_loopStates runsD [OF assms(2), THEN bspec_bind] bspec_read_any [THEN bspec_bind]) (use assms in auto)

lemma bspec_loop:
  assumes "binds bindName" "runs rec" "ctx_refs ctx \<subseteq> K" "TargetRef next \<in> K"
  shows "bspec K tgt (buildLoop opts bindName rec statement next ctx label)"
  unfolding buildLoop_def isScopeOwner_def
  by (intro bspec_rules bspec_plainLoop bspec_lexicalRegion bspec_resourceRegion runsD [OF assms(2)] bspec_read_any [THEN bspec_bind])
    (use assms in auto)

subsection \<open>Iterator loops\<close>

lemma bspec_collectDeclarations: "bspec K (\<lambda>_. {}) (collectDeclarations ds)"
  by (induction ds arbitrary: K) (auto intro!: bspec_rules)

lemma bspec_iteratorBinding: "bspec K (\<lambda>_. {}) (iteratorBinding statement)"
  unfolding iteratorBinding_def Let_def
  by (auto intro!: bspec_rules bspec_collectDeclarations [THEN bspec_bind] bspec_read_any [THEN bspec_bind] split: list.split prod.split)

lemma bspec_iterationContext:
  assumes "ctx_refs ctx \<subseteq> K" "IteratorRef a slot \<in> K" "TargetRef nextId \<in> K" "TargetRef next \<in> K"
  shows "bspec K ctx_refs (iterationContext a slot nextId next ctx label)"
proof -
  have labels: "label_refs (ctx_labels ctx) \<subseteq> K" using assms(1) by (auto simp: ctx_refs_def)
  have empty: "ctx_refs \<lparr>ctx_loop = None, ctx_break = None, ctx_labels = ls, ctx_exception = Some e, ctx_return = Some r\<rparr> =
      {TargetRef e, TargetRef r} \<union> label_refs ls" for ls e r
    by (auto simp: ctx_refs_def)
  show ?thesis
    unfolding iterationContext_def Let_def
    by (intro bspec_rules bspec_wrapTarget [THEN bspec_bind] bspec_wrapLabels [THEN bspec_bind] ctx_refs_loopContext;
        (simp only: empty)?) (use assms label_mem [OF labels] ctx_mem [OF assms(1)] in \<open>auto simp: wraps_def subset_iff\<close>)
qed

lemma bspec_iteration:
  assumes "binds bindName" "runs rec" "ctx_refs ctx \<subseteq> K" "TargetRef next \<in> K"
  shows "bspec K tgt (buildIteration bindName rec statement b ts next ctx)"
  unfolding buildIteration_def
  by (intro bspec_rules bspec_loopBody [THEN bspec_bind] bspec_fromValueSlot [THEN bspec_bind]) (use assms in auto)

lemma bspec_iteratorEntry:
  assumes "binds bindName" "ctx_refs ctx \<subseteq> K" "IteratorRef (is_asynchronous statement) slot \<in> K" "TargetRef initId \<in> K"
    "TargetRef nextId \<in> K" "TargetRef next \<in> K" "ResultRef ` set_option source \<subseteq> K"
  shows "bspec K tgt (iteratorEntry opts bindName statement b ts slot source initId nextId next ctx)"
  unfolding iteratorEntry_def isScopeOwner_def
  by (intro bspec_rules bspec_result [THEN bspec_bind] bspec_read_any [THEN bspec_bind])
    (use assms ctx_mem [OF assms(2)] in auto)

lemma bspec_iterationSlot: "bspec K (\<lambda>x. ValueRef ` set_option x) (b_read b_iterationSlot)"
  by (rule bspec_read) (auto simp: b_inv_def table_refs_def ball_Un)

lemma bspec_iteratorStates:
  assumes "binds bindName" "runs rec" "ctx_refs ctx \<subseteq> K" "TargetRef next \<in> K"
  shows "bspec K tgt (buildIteratorStates opts bindName rec statement b ts next ctx label)"
  unfolding buildIteratorStates_def
  by (intro bspec_rules bspec_iterationContext [THEN bspec_bind] bspec_resourceRegion [THEN bspec_bind] bspec_iteration
      bspec_iteration [THEN bspec_bind] bspec_iterationSlot [THEN bspec_bind] bspec_read_any [THEN bspec_bind] bspec_iteratorEntry)
    (use assms ctx_mem [OF assms(3)] in auto)

lemma bspec_iteratorLoop:
  assumes "binds bindName" "runs rec" "ctx_refs ctx \<subseteq> K" "TargetRef next \<in> K"
  shows "bspec K tgt (buildIteratorLoop opts bindName rec statement next ctx label)"
  unfolding buildIteratorLoop_def isScopeOwner_def Let_def
  by (intro bspec_rules bspec_lexicalRegion bspec_iteratorStates bspec_iteratorBinding [THEN bspec_bind] runsD [OF assms(2)]
      bspec_read_any [THEN bspec_bind]) (use assms in auto)

subsection \<open>Other statements\<close>

lemma bspec_orElse: "bspec K opt_tgt m \<Longrightarrow> bspec K tgt m' \<Longrightarrow> bspec K tgt (b_orElse m m')"
  unfolding b_orElse_def by (erule bspec_bind) (auto intro!: bspec_rules elim!: bspec_mono)

lemma bspec_with:
  assumes "binds bindName" "runs rec" "ctx_refs ctx \<subseteq> K" "TargetRef next \<in> K"
  shows "bspec K tgt (buildWith opts bindName rec statement next ctx)"
  unfolding buildWith_def
  by (intro bspec_rules bspec_region bspec_orElse bspec_result runsD [OF assms(2), THEN bspec_bind] ctx_refs_exception)
    (use assms ctx_mem [OF assms(3)] in auto)

lemma ctx_refs_label:
  assumes "ctx_refs ctx \<subseteq> K" "TargetRef b \<in> K"
  shows "ctx_refs (ctx\<lparr>ctx_labels := AList.update l (b, None) (ctx_labels ctx)\<rparr>) \<subseteq> K"
proof -
  have "label_refs (ctx_labels ctx) \<subseteq> K" using assms(1) by (auto simp: ctx_refs_def)
  then have "label_refs (AList.update l (b, None) (ctx_labels ctx)) \<subseteq> K"
    using assms(2) by (intro order_trans [OF update_label_refs]) simp
  then show ?thesis using assms(1) by (auto simp: ctx_refs_def)
qed

lemma bspec_labeled:
  assumes "runs rec" "ctx_refs ctx \<subseteq> K" "TargetRef next \<in> K"
  shows "bspec K tgt (buildLabeled opts rec statement next ctx)"
  unfolding buildLabeled_def Let_def
  by (intro bspec_rules runsD [OF assms(1)] ctx_refs_label) (use assms ctx_mem [OF assms(2)] in auto)

lemma bspec_if_statement:
  assumes "binds bindName" "runs rec" "ctx_refs ctx \<subseteq> K" "TargetRef next \<in> K"
  shows "bspec K tgt (buildIf opts bindName rec statement next ctx)"
  unfolding buildIf_def Let_def
  by (intro bspec_rules runsD [OF assms(2), THEN bspec_bind] bspec_orElse bspec_sequence)
    (use assms ctx_mem [OF assms(3)] in \<open>auto simp: branch_refs_def\<close>)

abbreviation clause_refs :: "(node option \<times> nat) option list \<Rightarrow> cfg_ref set" where
  "clause_refs cs \<equiv> (\<Union>c\<in>set cs. TargetRef ` snd ` set_option c)"

lemma bspec_switchClauses:
  assumes "runs rec" "ctx_refs ctx \<subseteq> K" "TargetRef next \<in> K"
  shows "bspec K (\<lambda>(f, cs). insert (TargetRef f) (clause_refs cs)) (switchClauses rec clauses next ctx)"
  using assms(3)
proof (induction clauses)
  case (Cons c cs)
  show ?case
    unfolding switchClauses.simps
    by (intro bspec_rules Cons.IH [THEN bspec_bind] bspec_read_any [THEN bspec_bind] runsD [OF assms(1), THEN bspec_bind])
      (use assms Cons.prems in auto)
qed (auto intro!: bspec_rules)

lemma bspec_switchTests:
  assumes "binds bindName" "ctx_refs ctx \<subseteq> K" "ResultRef d \<in> K" "TargetRef dflt \<in> K" "TargetRef ` snd ` set cs \<subseteq> K"
  shows "bspec K (\<lambda>x. TargetRef ` fst ` set_option x) (switchTests opts bindName statement d ctx dflt cs)"
  using assms(4,5)
proof (induction cs)
  case (Cons c cs)
  obtain e t where c: "c = (e, t)" by fastforce
  have IH: "bspec K (\<lambda>x. TargetRef ` fst ` set_option x) (switchTests opts bindName statement d ctx dflt cs)" using Cons by simp
  show ?case
  proof (cases e)
    case (Some e')
    then show ?thesis
      unfolding c Some switchTests.simps
      by (intro bspec_rules IH [THEN bspec_bind] bspec_result [THEN bspec_bind])
        (use assms(1-3) Cons.prems c ctx_mem [OF assms(2)] in auto)
  qed (use IH c in simp)
qed (auto intro!: bspec_rules)

lemma bspec_switchSelection:
  assumes "binds bindName" "ctx_refs ctx \<subseteq> K" "ResultRef d \<in> K" "TargetRef dflt \<in> K" "TargetRef ` snd ` set cs \<subseteq> K"
  shows "bspec K opt_tgt (switchSelection opts bindName statement d ctx dflt cs)"
  unfolding switchSelection_def
  by (intro bspec_rules bspec_switchTests [THEN bspec_bind]) (use assms ctx_mem [OF assms(2)] in auto)

lemma bspec_switchScope:
  assumes "ctx_refs ctx \<subseteq> K" "TargetRef e \<in> K"
  shows "bspec K tgt (switchScope statement e ctx)"
  unfolding switchScope_def isScopeOwner_def Let_def
  by (intro bspec_rules bspec_read_any [THEN bspec_bind]) (use assms ctx_mem [OF assms(1)] in auto)

lemma bspec_discriminator: "bspec K (\<lambda>x. ResultRef ` set_option x) (b_read (\<lambda>s. map_of (b_retainedSwitchDiscriminators s) statement))"
  by (rule bspec_read) (auto simp: b_inv_def table_refs_def ball_Un dest!: map_of_SomeD)

lemma bspec_switchDispatch:
  assumes "binds bindName" "ctx_refs ctx \<subseteq> K" "TargetRef next \<in> K" "TargetRef dflt \<in> K" "TargetRef ` snd ` set cs \<subseteq> K"
  shows "bspec K tgt (switchDispatch opts bindName statement next ctx dflt cs)"
proof -
  have tail: "bspec K' tgt (do {
      selection \<leftarrow> switchSelection opts bindName statement d ctx dflt cs;
      case selection of
        None \<Rightarrow> b_unsupported next
      | Some e \<Rightarrow> do {
          scope \<leftarrow> switchScope statement e ctx;
          retained \<leftarrow> b_read (\<lambda>s. map_of (b_retainedSwitchDiscriminators s) statement \<noteq> None);
          if retained then State_Monad.return scope
          else b_orElse (buildExpressionResult opts bindName (field statement ''expression'') d scope ctx) (b_unsupported next) } })"
    if "K \<subseteq> K'" "ResultRef d \<in> K'" for K' d
    by (intro bspec_rules bspec_switchSelection [THEN bspec_bind] bspec_switchScope [THEN bspec_bind] bspec_read_any [THEN bspec_bind]
        bspec_orElse bspec_result) (use assms that in auto)
  show ?thesis
    unfolding switchDispatch_def
    by (intro bspec_discriminator [THEN bspec_bind] bspec_bind_case_option bspec_bind_return bspec_pushResult [THEN bspec_bind] tail) auto
qed

lemma find_default_refs:
  "find_default cs = Some dflt \<Longrightarrow> TargetRef ` set_option dflt \<subseteq> clause_refs cs"
  by (induction cs rule: find_default.induct) (auto split: if_splits)

lemma bspec_throw_then: "Q x \<subseteq> K \<Longrightarrow> bspec K Q (State_Monad.bind b_throw (\<lambda>_. State_Monad.return x))"
  by (intro bspec_rules) auto

lemma bspec_buildSwitchClauses:
  assumes "binds bindName" "runs rec" "ctx_refs ctx \<subseteq> K" "TargetRef next \<in> K"
  shows "bspec K tgt (buildSwitchClauses opts bindName rec statement next ctx)"
proof -
  have ctx: "ctx_refs (ctx\<lparr>ctx_break := Some next\<rparr>) \<subseteq> K" using assms(3,4) by (auto simp: ctx_refs_def)
  have clauses: "TargetRef ` snd ` set (concat (map (\<lambda>entry. case entry of Some c \<Rightarrow> [c] | None \<Rightarrow> []) es)) \<subseteq> clause_refs es" for es
    by (auto split: option.splits)
  show ?thesis
    unfolding buildSwitchClauses_def
  proof (rule bspec_bind [OF bspec_switchClauses [OF assms(2) ctx assms(4)]], rule bspec_case_prod, rule bspec_case_option, goal_cases)
    case (2 x f es dflt)
    have "bspec (insert (TargetRef f) (clause_refs es) \<union> K) tgt (switchDispatch opts bindName statement next ctx
        (case dflt of None \<Rightarrow> next | Some t \<Rightarrow> t) (concat (map (\<lambda>entry. case entry of Some c \<Rightarrow> [c] | None \<Rightarrow> []) es)))"
      using find_default_refs [OF 2(2)] order_trans [OF clauses, of es "insert (TargetRef f) (clause_refs es) \<union> K"] assms
      by (intro bspec_switchDispatch) (auto split: option.splits)
    then show ?case using 2(1) by simp
  qed (use assms(4) in \<open>auto intro!: bspec_throw_then\<close>)
qed

lemma bspec_switch:
  assumes "binds bindName" "runs rec" "ctx_refs ctx \<subseteq> K" "TargetRef next \<in> K"
  shows "bspec K tgt (buildSwitch opts bindName rec statement next ctx)"
  unfolding buildSwitch_def isScopeOwner_def Let_def
  by (intro bspec_rules bspec_read_any [THEN bspec_bind] bspec_lexicalRegion [THEN bspec_bind] bspec_orElse bspec_result
      runsD [OF assms(2)] bspec_buildSwitchClauses) (use assms in auto)

lemma bspec_bindCatch:
  assumes "binds bindName" "ctx_refs ctx \<subseteq> K" "TargetRef e \<in> K" "TargetRef next \<in> K"
  shows "bspec K tgt (bindCatch bindName c e next ctx)"
  unfolding bindCatch_def
  by (intro bspec_rules bspec_collectDeclarations [THEN bspec_bind] bspec_suspendingBinding [THEN bspec_bind])
    (use assms ctx_mem [OF assms(2)] in auto)

lemma bspec_catch:
  assumes "binds bindName" "runs rec" "ctx_refs ctx \<subseteq> K" "TargetRef next \<in> K"
  shows "bspec K tgt (buildCatchEntry opts bindName rec c next ctx)"
  unfolding buildCatchEntry_def isScopeOwner_def
  by (intro bspec_rules bspec_read_any [THEN bspec_bind] bspec_lexicalRegion bspec_bindCatch runsD [OF assms(2)]
      runsD [OF assms(2), THEN bspec_bind]) (use assms in auto)

lemma bspec_try:
  assumes "runs rec" "ctx_refs ctx \<subseteq> K" "TargetRef next \<in> K"
  shows "bspec K tgt (buildTry rec statement next ctx)"
  unfolding buildTry_def
  by (intro bspec_rules bspec_region runsD [OF assms(1)] runsD [OF assms(1), THEN bspec_bind] ctx_refs_exception)
    (use assms in auto)

lemma bspec_jump:
  assumes "ctx_refs ctx \<subseteq> K" "TargetRef next \<in> K"
  shows "bspec K tgt (buildJump statement next ctx)"
proof -
  have "TargetRef t \<in> K" if "jump_target statement ctx = Some t" for t
    using that ctx_mem [OF assms(1)] map_of_SomeD [of "ctx_labels ctx"]
    by (fastforce simp: jump_target_def split: option.splits if_splits)
  then show ?thesis unfolding buildJump_def by (intro bspec_rules) (use assms in auto)
qed

lemma completionState_refs: "ctx_refs ctx \<subseteq> K \<Longrightarrow> core_refs (completionState c ctx) \<subseteq> K \<and> core_closed (completionState c ctx)"
  using ctx_mem [of ctx K] by (auto simp: completionState_def split: completion_edge.split option.split)

lemma bspec_completion:
  assumes "binds bindName" "ctx_refs ctx \<subseteq> K" "TargetRef next \<in> K"
  shows "bspec K tgt (buildCompletion opts bindName statement next ctx)"
proof -
  have "route_refs (completion_route_of c ctx) \<subseteq> K" for c
    using ctx_mem [OF assms(2)] by (auto simp: completion_route_of_def split: completion_edge.split)
  then show ?thesis
    unfolding buildCompletion_def
    by (intro bspec_rules bspec_orElse bspec_sequence) (use assms ctx_mem [OF assms(2)] completionState_refs [OF assms(2)] in auto)
qed

lemma bspec_patternDeclaration:
  assumes "binds bindName" "ctx_refs ctx \<subseteq> K" "TargetRef next \<in> K"
  shows "bspec K tgt (buildPatternDeclaration opts bindName name e next ctx)"
  unfolding buildPatternDeclaration_def
  by (intro bspec_rules bspec_suspendingBinding [THEN bspec_bind] bspec_orElse bspec_result)
    (use assms ctx_mem [OF assms(2)] in auto)

lemma bspec_declaration:
  assumes "binds bindName" "ctx_refs ctx \<subseteq> K" "TargetRef next \<in> K"
  shows "bspec K opt_tgt (buildDeclaration opts bindName statement d next ctx)"
  unfolding buildDeclaration_def Let_def
  by (intro bspec_rules bspec_orElse [THEN bspec_bind] bspec_patternDeclaration [THEN bspec_bind] bspec_sequence)
    (use assms in auto)

lemma bspec_variable:
  assumes "binds bindName" "runs rec" "ctx_refs ctx \<subseteq> K" "TargetRef next \<in> K"
  shows "bspec K opt_tgt (buildVariable opts bindName rec statement next ctx)"
proof -
  have one: "bspec K' opt_tgt (case ds of [d] \<Rightarrow> buildDeclaration opts bindName statement d next ctx | _ \<Rightarrow> State_Monad.return None)"
    if "K \<subseteq> K'" for ds K'
    using that assms by (auto intro!: bspec_rules bspec_declaration split: list.split)
  show ?thesis
    unfolding buildVariable_def
    by (intro bspec_rules runsD [OF assms(2), THEN bspec_bind] bspec_collectDeclarations [THEN bspec_bind]
        bspec_read_any [THEN bspec_bind] one) (use assms in auto)
qed

lemma bspec_moduleExport:
  assumes "binds bindName" "ctx_refs ctx \<subseteq> K" "TargetRef next \<in> K"
  shows "bspec K tgt (buildModuleExport opts bindName statement next ctx)"
  unfolding buildModuleExport_def freshClassExpression_def
  by (intro bspec_rules bspec_read_any [THEN bspec_bind] bspec_orElse bspec_sequence) (use assms ctx_mem [OF assms(2)] in auto)

lemma bspec_awaitedClass:
  assumes "binds bindName" "ctx_refs ctx \<subseteq> K" "TargetRef next \<in> K"
  shows "bspec K opt_tgt (buildAwaitedClass opts bindName statement next ctx)"
  unfolding buildAwaitedClass_def freshClassExpression_def
  by (intro bspec_rules bspec_read_any [THEN bspec_bind] bspec_sequence) (use assms in auto)

lemma bspec_other:
  assumes "binds bindName" "runs rec" "ctx_refs ctx \<subseteq> K" "TargetRef next \<in> K"
  shows "bspec K tgt (buildOther opts bindName rec statement next ctx)"
  unfolding buildOther_def
  by (intro bspec_rules bspec_orElse bspec_variable bspec_sequence bspec_moduleExport bspec_awaitedClass)
    (use assms ctx_mem [OF assms(3)] in auto)

lemma bspec_statement:
  assumes "binds bindName" "runs rec" "ctx_refs ctx \<subseteq> K" "TargetRef next \<in> K"
  shows "bspec K tgt (buildStatement opts bindName rec statement next ctx)"
  unfolding buildStatement_def Let_def
  by (intro bspec_rules bspec_with bspec_labeled bspec_if_statement bspec_switch bspec_try bspec_jump bspec_completion bspec_other
      runsD [OF assms(2)]) (use assms ctx_mem [OF assms(3)] in auto)

lemma runs_job_body: "binds bindName \<Longrightarrow> runs rec \<Longrightarrow> runs (job_body opts bindName rec)"
  unfolding runs_def job_body_def
  by (auto intro!: bspec_statement bspec_buildSequence bspec_block bspec_loop bspec_iteratorLoop bspec_catch
      simp: runs_def split: cfg_job.split)

lemma runs_buildJob: "binds bindName \<Longrightarrow> runs (buildJob opts bindName fuel)"
proof (induction fuel)
  case 0
  then show ?case by (auto simp: runs_def intro!: bspec_rules)
qed (simp add: runs_job_body)

section \<open>The published graph\<close>

fun graph_ref :: "cfg_graph \<Rightarrow> cfg_ref \<Rightarrow> bool" where
  "graph_ref g (TargetRef i) = True"
| "graph_ref g (ResultRef i) = (i < length (cfg_expressionResults g))"
| "graph_ref g (SyncRef i) = (i < length (cfg_expressionSyncs g))"
| "graph_ref g (ValueRef i) = (i < cfg_bindingValueCount g)"
| "graph_ref g (IteratorRef a i) = (i < (if a then cfg_asyncIteratorCount g else cfg_iteratorCount g))"
| "graph_ref g (ResourceRef i) = (i < length (cfg_resourceScopes g))"
| "graph_ref g (RegionRef i) = (i < cfg_finallyCount g)"

definition cfg_ids :: "cfg_graph \<Rightarrow> nat set" where
  "cfg_ids g = cs_id ` set (cfg_states g)"

text \<open>A set of identifiers that contains the entry and follows the edges of the graph.\<close>

definition cfg_follows :: "cfg_graph \<Rightarrow> nat set \<Rightarrow> bool" where
  "cfg_follows g c \<longleftrightarrow> cfg_entry g \<in> c \<and>
     (\<forall>st\<in>set (cfg_states g). cs_id st \<in> c \<longrightarrow> set (successors (cfg_states g) c st) \<subseteq> c)"

definition cfg_ok :: "cfg_graph \<Rightarrow> bool" where
  "cfg_ok g \<longleftrightarrow>
     sorted_wrt (<) (map cs_id (cfg_states g)) \<and> cfg_follows g (cfg_ids g) \<and> (\<forall>c. cfg_follows g c \<longrightarrow> cfg_ids g \<subseteq> c) \<and>
     cfg_awaitCount g = length (filter suspends (cfg_states g)) \<and>
     (\<forall>st\<in>set (cfg_states g). core_closed (cs_core st) \<and> (\<forall>r\<in>state_refs st. graph_ref g r)) \<and>
     (\<forall>i\<in>cfg_operationResultSlots g. i < length (cfg_expressionResults g))"

lemma resumable_successors_refs:
  assumes "core_closed (CResumable st defs e slots targets next ret)" "t \<in> set (resumable_successors st targets next ret)"
  shows "TargetRef t \<in> core_refs (CResumable st defs e slots targets next ret)"
proof -
  have "target_of targets i \<in> snd ` set targets" if "i \<in> set (edge_ids st)" for i
    using that assms(1) by (intro target_of_mem) auto
  then show ?thesis
    using assms(2) by (cases st) (auto simp: resumable_successors_def edge_ids_def is_suspend_def split: option.splits if_splits)
qed

lemma complete_successors_refs:
  "t \<in> set (complete_successors c b n) \<Longrightarrow> TargetRef t \<in> core_refs (CExpressionComplete e source a c b r n)"
  by (auto simp: complete_successors_def branch_refs_def split: option.splits completion_route.splits)

lemma core_successors_refs:
  assumes "core_closed c" "t \<in> set (core_successors states R c)"
  shows "TargetRef t \<in> core_refs c \<or> (\<exists>d\<in>set states. TargetRef t \<in> core_refs (cs_core d))"
proof (cases c)
  case (CFinallyExit region ret)
  then consider "t \<in> set (normal_exits states R region)" | "ret = Some t"
    using assms(2) by (auto simp: option_list_def split: option.splits)
  then show ?thesis
  proof cases
    case 1
    then obtain d e where "d \<in> set states" "cs_core d = CFinallyEnter region e (Some t)" by (auto simp: normal_exits_set)
    then show ?thesis by (intro disjI2 bexI [of _ d]) simp_all
  qed (simp add: CFinallyExit)
next
  case (CResumable st defs e slots targets nxt ret)
  then have "t \<in> set (resumable_successors st targets nxt ret)" using assms(2) by simp
  then show ?thesis unfolding CResumable by (rule disjI1 [OF resumable_successors_refs [OF assms(1) [unfolded CResumable]]])
next
  case (CExpressionComplete e source a c b r n)
  then show ?thesis using assms(2) complete_successors_refs [of t c b n] by simp
next
  case (CBindingOp oper nxt)
  then show ?thesis using assms(2) by (cases oper) auto
qed (use assms(2) in \<open>auto simp: option_list_def split: option.splits\<close>)

text \<open>The states of a supported plan, all defined, with its entry.\<close>

definition planned :: "bstate \<Rightarrow> cfg_state list \<Rightarrow> nat \<Rightarrow> bool" where
  "planned s states entry \<longleftrightarrow> b_inv s \<and> b_states s = map Some states \<and> entry < length states"

abbreviation kept :: "cfg_state list \<Rightarrow> nat \<Rightarrow> cfg_state list" where
  "kept states entry \<equiv> filter (\<lambda>st. cs_id st \<in> cfg_reachable states entry) states"

lemma state_at:
  assumes "planned s states entry" "i < length states"
  shows "cs_id (states ! i) = i" "core_closed (cs_core (states ! i))" "\<forall>r\<in>state_refs (states ! i). ref_valid s r"
  using assms by (auto simp: planned_def b_inv_def)

lemma state_in:
  assumes "planned s states entry" "st \<in> set states"
  shows "states ! cs_id st = st" "cs_id st < length states" "core_closed (cs_core st)" "\<forall>r\<in>state_refs st. ref_valid s r"
proof -
  obtain i where "i < length states" "st = states ! i" using assms(2) by (metis in_set_conv_nth)
  then show "states ! cs_id st = st" "cs_id st < length states" "core_closed (cs_core st)" "\<forall>r\<in>state_refs st. ref_valid s r"
    using state_at [OF assms(1), of i] by simp_all
qed

lemma successors_range:
  assumes "planned s states entry" "i < length states"
  shows "set (state_successors states R i) \<subseteq> {..<length states}"
proof
  fix t assume t: "t \<in> set (state_successors states R i)"
  have "TargetRef t \<in> state_refs (states ! i) \<or> (\<exists>d\<in>set states. TargetRef t \<in> state_refs d)"
  proof (cases "t \<in> set (option_list (cs_exception (states ! i)))")
    case True
    then show ?thesis by (auto simp: state_refs_def option_list_def split: option.splits)
  next
    case False
    then have "t \<in> set (core_successors states R (cs_core (states ! i)))" using t by (simp add: successors_def)
    from core_successors_refs [OF state_at(2) [OF assms] this] show ?thesis by (auto simp: state_refs_def)
  qed
  then have "ref_valid s (TargetRef t)" using state_at(3) [OF assms] state_in(4) [OF assms(1)] by blast
  then show "t \<in> {..<length states}" using assms(1) by (simp add: planned_def)
qed

lemma reachability_planned:
  assumes "planned s states entry"
  shows "reachability (length states + 2) states entry {} = Done (Some (cfg_reachable states entry))"
  by (rule reachability_exact) (use successors_range [OF assms] assms in \<open>auto simp: planned_def\<close>)

lemma reached_range:
  assumes "planned s states entry"
  shows "cfg_reachable states entry \<subseteq> {..<length states}"
  by (rule reachable_range) (use successors_range [OF assms] assms in \<open>auto simp: planned_def\<close>)

lemma kept_at:
  assumes "planned s states entry" "i \<in> cfg_reachable states entry"
  shows "states ! i \<in> set (kept states entry)" "cs_id (states ! i) = i"
proof -
  have i: "i < length states" using reached_range [OF assms(1)] assms(2) by blast
  then show "cs_id (states ! i) = i" by (rule state_at [OF assms(1)])
  then show "states ! i \<in> set (kept states entry)" using i assms(2) by simp
qed

lemma kept_ids: "planned s states entry \<Longrightarrow> cs_id ` set (kept states entry) = cfg_reachable states entry"
  using kept_at by (force simp: image_iff)

lemma kept_sorted:
  assumes "planned s states entry"
  shows "sorted_wrt (<) (map cs_id (kept states entry))"
proof -
  have "map cs_id states = [0..<length states]" using state_at(1) [OF assms] by (intro nth_equalityI) simp_all
  then have "sorted_wrt (<) (map cs_id states)" by simp
  then show ?thesis unfolding sorted_wrt_map by (rule sorted_wrt_filter)
qed

lemma kept_successors:
  "set (successors (kept states entry) c st) = set (successors states (c \<inter> cfg_reachable states entry) st)"
proof -
  have "set (normal_exits (kept states entry) c region) = set (normal_exits states (c \<inter> cfg_reachable states entry) region)" for region
    unfolding normal_exits_set by auto
  moreover have "set (core_successors (kept states entry) {} d) = set (core_successors states {} d)" for d
    by (cases d) simp_all
  ultimately show ?thesis
    unfolding successors_finally [of "kept states entry" c] successors_finally [of states "c \<inter> cfg_reachable states entry"]
    by (cases "cs_core st") (simp_all add: successors_def)
qed

lemma kept_closed:
  assumes "planned s states entry" "st \<in> set (kept states entry)"
  shows "set (successors (kept states entry) (cfg_reachable states entry) st) \<subseteq> cfg_reachable states entry"
proof -
  have st: "cs_id st \<in> cfg_reachable states entry" "states ! cs_id st = st" using assms state_in(1) [OF assms(1), of st] by simp_all
  show ?thesis
    unfolding kept_successors using successors_reachable [OF st(1), of "cfg_reachable states entry"] st(2) by auto
qed

lemma kept_least:
  assumes "planned s states entry" "entry \<in> c"
    and "\<And>st. st \<in> set (kept states entry) \<Longrightarrow> cs_id st \<in> c \<Longrightarrow> set (successors (kept states entry) c st) \<subseteq> c"
  shows "cfg_reachable states entry \<subseteq> c"
proof -
  let ?r = "cfg_reachable states entry"
  have "?r \<subseteq> c \<inter> ?r"
  proof (rule reachable_closed)
    show "entry \<in> c \<inter> ?r" using assms(2) cfg_reachable.entry by blast
    fix i assume i: "i \<in> c \<inter> ?r"
    then have kept: "states ! i \<in> set (kept states entry)" "cs_id (states ! i) = i" using kept_at [OF assms(1)] by simp_all
    have "set (state_successors states (c \<inter> ?r) i) \<subseteq> c"
      using assms(3) [OF kept(1)] kept(2) i unfolding kept_successors by simp
    moreover have "set (state_successors states (c \<inter> ?r) i) \<subseteq> ?r"
      using successors_reachable [of i states entry "c \<inter> ?r"] i by auto
    ultimately show "set (state_successors states (c \<inter> ?r) i) \<subseteq> c \<inter> ?r" by blast
  qed
  then show ?thesis by blast
qed

lemma publishGraph_ok:
  assumes "planned s states entry"
  shows "cfg_ok (publishGraph s entry states (cfg_reachable states entry))"
proof -
  let ?r = "cfg_reachable states entry"
  let ?g = "publishGraph s entry states ?r"
  have states: "cfg_states ?g = kept states entry" and ids: "cfg_ids ?g = ?r" and e: "cfg_entry ?g = entry"
    using kept_ids [OF assms] by (simp_all add: publishGraph_def cfg_ids_def Let_def)
  have refs: "graph_ref ?g r" if "ref_valid s r" for r
    using that by (cases r) (auto simp: publishGraph_def Let_def)
  have "cfg_follows ?g ?r"
    unfolding cfg_follows_def states e using kept_closed [OF assms] cfg_reachable.entry by blast
  moreover have "?r \<subseteq> c" if "cfg_follows ?g c" for c
    using that unfolding cfg_follows_def states e by (intro kept_least [OF assms]) blast+
  moreover have "core_closed (cs_core st) \<and> (\<forall>r\<in>state_refs st. graph_ref ?g r)" if "st \<in> set (kept states entry)" for st
    using state_in(3,4) [OF assms, of st] that refs by simp
  moreover have "i < length (b_expressionResults s)" if "i \<in> b_operationResultSlots s" for i
  proof -
    have "ref_valid s (ResultRef i)" using assms that unfolding planned_def b_inv_def table_refs_def by blast
    then show ?thesis by simp
  qed
  ultimately show ?thesis
    unfolding cfg_ok_def ids states using kept_sorted [OF assms] by (simp add: publishGraph_def Let_def)
qed

lemma finishGraph_ok:
  assumes "b_inv s" "ref_valid s (TargetRef entry)"
  shows "case finishGraph opts s entry of CfgGraph g \<Rightarrow> cfg_ok g | CfgOutOfFuel \<Rightarrow> b_exhausted s | CfgThrows \<Rightarrow> b_thrown s | CfgNull \<Rightarrow> True"
proof (cases "b_exhausted s \<or> b_thrown s \<or> \<not> b_supported s \<or> None \<in> set (b_states s)")
  case False
  define states where "states = map the (b_states s)"
  have "b_states s = map Some states" using False unfolding states_def map_map comp_def by (intro map_idI [symmetric]) (metis option.collapse)
  then have p: "planned s states entry" using assms by (simp add: planned_def)
  show ?thesis
    using False publishGraph_ok [OF p]
    by (simp add: finishGraph_def states_def [symmetric] reachability_planned [OF p] Let_def del: reachability.simps add_2_eq_Suc')
qed (auto simp: finishGraph_def)

lemma empty_inv: "b_inv (b_initial fresh)"
  by (simp add: b_inv_def b_initial_def table_refs_def)

lemma bspec_buildGraph: "bspec {} tgt (buildGraph opts fuel)"
  unfolding buildGraph_def
  by (intro bspec_rules runsD [OF runs_buildJob [OF binds_buildBindingName]]) (auto simp: empty_context_def ctx_refs_def)

text \<open>C1 A graph that \<open>planAsyncControlFlowGraph\<close> publishes is well formed: its states are stored under
  increasing identifiers, the entry is one of them, every successor of a state of the graph is a state
  of the graph, no smaller set of states follows the edges (the edges out of a \<open>finally\<close> region lead
  only where a state of the graph entered the region), the await count is the number of suspending
  states, and every result slot, synchronous slot, binding value, iterator, resource scope and
  finalization region that a state uses has been allocated.\<close>

theorem planAsyncControlFlowGraph_wf:
  "case planAsyncControlFlowGraph opts fuel fresh of
     CfgGraph g \<Rightarrow> cfg_ok g
   | _ \<Rightarrow> True"
proof -
  obtain entry s where run: "run_state (buildGraph opts fuel) (b_initial fresh) = (entry, s)" by fastforce
  note ok = bspecD [OF bspec_buildGraph run empty_inv]
  then show ?thesis
    using finishGraph_ok [of s entry opts] by (auto simp: planAsyncControlFlowGraph_def run split: cfg_plan.splits)
qed

end
