(* ===== verification/Async_Cfg_Errors.thy ===== *)
theory Async_Cfg_Errors
  imports Async_Cfg_Wf
begin

text \<open>
  An error path of the control-flow planner: a \<open>switch\<close> whose clause loop stops at an unsupported
  clause leaves holes in the clause array, and the search for the default clause reads them.
\<close>

definition example_node :: "nat \<Rightarrow> syntax_kind \<Rightarrow> string \<Rightarrow> (string \<times> node) list \<Rightarrow> node" where
  "example_node i k text cs = Node i k (OtherToken 0) text 0 None cs"

text \<open>\<open>switch (x) { case 1: ; case 2: (function () {}); }\<close>\<close>

definition example_switch :: node where
  "example_switch = example_node 1 (Statement Block) [] [(''statements'',
     example_node 2 (Statement SwitchStatement) [] [
       (''expression'', example_node 3 Identifier ''x'' []),
       (''caseBlock'', example_node 4 (OtherKind 1) [] [
         (''clauses'', example_node 5 (Element CaseClause) [] [
           (''expression'', example_node 6 (Literal NumericLiteral) ''1'' []),
           (''statements'', example_node 7 (Statement EmptyStatement) [] [])]),
         (''clauses'', example_node 8 (Element CaseClause) [] [
           (''expression'', example_node 9 (Literal NumericLiteral) ''2'' []),
           (''statements'', example_node 10 (Statement ExpressionStatement) [] [
             (''expression'', example_node 11 (Expression FunctionExpression) [] [])])])])])]"

text \<open>An async function none of whose nested functions is supported.\<close>

definition example_options :: "node \<Rightarrow> cfg_options" where
  "example_options body = \<lparr>retainedSourceEnvironments = False, suspensionKind = AsyncFunctions, instantiatedRoot = False,
     isModuleDefaultClass = (\<lambda>_. False), isSupportedNestedFunction = (\<lambda>_. False), isSupportedNestedClass = (\<lambda>_. False),
     root_body = body, syntax_env = \<lparr>ancestors = (\<lambda>_. []), isStrictCodeContext = (\<lambda>_. True)\<rparr>,
     node_pos = (\<lambda>_. 0), node_end = (\<lambda>_. 0), factory_prefixOperand = (\<lambda>e. e), factory_statementExpression = (\<lambda>e. e)\<rparr>"


end
