(* ===== verification/Async_Cfg_Total.thy ===== *)
theory Async_Cfg_Total
  imports Async_Cfg_Fuel Async_Cfg_Errors
begin

text \<open>
  The handlers of the control-flow planner, each for a recursion that has the fuel for smaller jobs; the recursion
  over the fuel; and the planner as a total function.
\<close>

section \<open>Sequences and blocks\<close>

lemma findIndex_None: "findIndex p xs = None \<longleftrightarrow> (\<forall>x\<in>set xs. \<not> p x)"
  by (induction xs) auto

lemma findIndex_Some: "findIndex p xs = Some i \<Longrightarrow> i < length xs \<and> p (xs ! i) \<and> (\<forall>x\<in>set (take i xs). \<not> p x)"
  by (induction xs arbitrary: i) (auto split: if_splits)

lemma unbound_declarations: "list_ex (unbound_resource s) ds \<longleftrightarrow> \<not> set ds \<subseteq> bound_resources s"
  by (auto simp: list_ex_iff unbound_resource_def map_of_eq_None_iff)

lemma flag_mono: "(A \<longrightarrow> B) \<Longrightarrow> a \<le> b \<Longrightarrow> 1 + (if A then 1 else 0) + a \<le> 1 + (if B then 1 else 0) + (b :: nat)"
  by auto

lemma sequence_need_mono:
  assumes "W \<subseteq> W'" "R \<subseteq> R'" "set ss' \<subseteq> set ss"
  shows "sequence_need W' R' ss' \<le> sequence_need W R ss"
proof -
  have "(\<exists>st\<in>set ss'. using_statement st \<and> \<not> set (declarations_of st) \<subseteq> R') \<longrightarrow>
      (\<exists>st\<in>set ss. using_statement st \<and> \<not> set (declarations_of st) \<subseteq> R)"
    using assms(2,3) by blast
  then show ?thesis unfolding sequence_need_def by (rule flag_mono) (rule max_need_mono [OF assms(1,3)])
qed

lemma sequence_need_plain:
  "\<forall>st\<in>set ss. using_statement st \<longrightarrow> set (declarations_of st) \<subseteq> R \<Longrightarrow> sequence_need W R ss = 1 + max_need W ss"
  by (simp add: sequence_need_def)

lemma agree_sequenceStatements:
  assumes "job_agree F K S n rec rec'" "fr_source c = F" "\<forall>st\<in>set ss. statement_fits F K S st" "max_need (fr_owners c) ss < n"
  shows "agrees c (sequenceStatements rec ss next ctx) (sequenceStatements rec' ss next ctx)"
  using assms(3,4)
proof (induction ss)
  case (Cons st ss)
  have "agrees c (rec (StatementJob st) x ctx) (rec' (StatementJob st) x ctx)" for x
    using Cons.prems by (intro agree_job [OF assms(1,2)]) (simp_all add: max_need_def)
  moreover have "agrees c (sequenceStatements rec ss next ctx) (sequenceStatements rec' ss next ctx)"
    using Cons by (simp add: max_need_def)
  ultimately show ?case unfolding sequenceStatements.simps by (intro agree_rules)
qed (simp add: agree_rules)

lemma agree_sequence:
  assumes "job_agree F K S n rec rec'" "fr_source c = F" "job_fits F K S (SequenceJob ss)"
    "job_need (fr_owners c) (fr_resources c) (SequenceJob ss) \<le> n"
  shows "agrees c (buildSequence opts rec ss next ctx) (buildSequence opts rec' ss next ctx)"
  unfolding buildSequence_def
proof (rule agree_at)
  fix s
  assume s: "fr_owners c \<subseteq> owners s" "fr_resources c \<subseteq> bound_resources s"
  let ?p = "\<lambda>st. using_statement st \<and> list_ex (unbound_resource s) (declarations_of st)"
  let ?c = "frame_at c s"
  have F: "fr_source ?c = F" using assms(2) by simp
  show "agrees ?c (case findIndex ?p ss of Some i \<Rightarrow> buildResourceScope opts rec ss i next ctx | None \<Rightarrow> sequenceStatements rec ss next ctx)
      (case findIndex ?p ss of Some i \<Rightarrow> buildResourceScope opts rec' ss i next ctx | None \<Rightarrow> sequenceStatements rec' ss next ctx)"
  proof (rule agree_case_option)
    have "max_need (fr_owners ?c) ss \<le> max_need (fr_owners c) ss" using s by (simp add: max_need_mono)
    then show "agrees ?c (sequenceStatements rec ss next ctx) (sequenceStatements rec' ss next ctx)"
      using assms(3,4) by (intro agree_sequenceStatements [OF assms(1) F]) (simp_all add: sequence_need_def)
  next
    fix i
    assume i: "findIndex ?p ss = Some i"
    note found = findIndex_Some [OF i]
    have "using_statement (ss ! i) \<and> \<not> set (declarations_of (ss ! i)) \<subseteq> fr_resources c"
      using found s(2) by (auto simp: unbound_declarations)
    then have "\<exists>st\<in>set ss. using_statement st \<and> \<not> set (declarations_of st) \<subseteq> fr_resources c"
      using found by (meson nth_mem)
    then have n: "2 + max_need (fr_owners c) ss \<le> n" using assms(4) by (simp add: sequence_need_def)
    let ?resources = "concat (map (\<lambda>s. if using_statement s then declarations_of s else []) (drop i ss))"
    let ?d = "?c\<lparr>fr_resources := fr_resources ?c \<union> set ?resources\<rparr>"
    have "\<forall>st\<in>set (drop i ss). using_statement st \<longrightarrow> set (declarations_of st) \<subseteq> fr_resources ?d"
      by auto
    moreover have "max_need (fr_owners ?d) (drop i ss) \<le> max_need (fr_owners c) ss"
      using s(1) by (intro max_need_mono) (simp_all add: set_drop_subset)
    ultimately have "job_need (fr_owners ?d) (fr_resources ?d) (SequenceJob (drop i ss)) < n"
      using n sequence_need_plain [where W = "fr_owners ?d"] by simp
    then have protected: "agrees ?d (rec (SequenceJob (drop i ss)) x y) (rec' (SequenceJob (drop i ss)) x y)" for x y
      using F assms(3) by (intro agree_job [OF assms(1)]) (auto dest: in_set_dropD)
    have "\<forall>st\<in>set (take i ss). using_statement st \<longrightarrow> set (declarations_of st) \<subseteq> fr_resources ?c"
      using found by (auto simp: unbound_declarations)
    moreover have "max_need (fr_owners ?c) (take i ss) \<le> max_need (fr_owners c) ss"
      using s(1) by (intro max_need_mono) (simp_all add: set_take_subset)
    ultimately have "job_need (fr_owners ?c) (fr_resources ?c) (SequenceJob (take i ss)) < n"
      using n sequence_need_plain [where W = "fr_owners ?c"] by simp
    then have before: "agrees ?c (rec (SequenceJob (take i ss)) x ctx) (rec' (SequenceJob (take i ss)) x ctx)" for x
      using F assms(3) by (intro agree_job [OF assms(1)]) (auto dest: in_set_takeD)
    show "agrees ?c (buildResourceScope opts rec ss i next ctx) (buildResourceScope opts rec' ss i next ctx)"
      unfolding buildResourceScope_def Let_def
      by (intro agree_if agree_seq agree_primitives agree_resourceRegion protected before)
  qed
qed

lemma children_fit: "source_nodes opts F K S \<Longrightarrow> b \<in> S \<Longrightarrow> job_fits F K S (SequenceJob (children b f))"
  using source_children by (auto simp: statement_fits_def)

lemma agree_block:
  assumes "source_nodes opts F K S" "job_agree F K S n rec rec'" "fr_source c = F" "b \<in> S"
    "job_need (fr_owners c) (fr_resources c) (BlockJob b) \<le> n"
  shows "agrees c (buildLexicalBlock opts rec b next ctx) (buildLexicalBlock opts rec' b next ctx)"
proof -
  have statements: "agrees d (rec (SequenceJob (children b ''statements'')) x y) (rec' (SequenceJob (children b ''statements'')) x y)"
    if "fr_source d = F" "fr_owners c \<subseteq> fr_owners d" "fr_resources c \<subseteq> fr_resources d" for d x y
  proof -
    have "sequence_need (fr_owners d) (fr_resources d) (children b ''statements'') \<le> sequence_need (fr_owners c) (fr_resources c) (children b ''statements'')"
      using that(2,3) by (simp add: sequence_need_mono)
    then show ?thesis
      using assms(5) by (intro agree_job [OF assms(2) that(1) children_fit [OF assms(1,4)]]) simp
  qed
  show ?thesis
    unfolding buildLexicalBlock_def Let_def
    by (intro agree_if agree_seq agree_primitives agree_lexicalRegion statements) (use assms(3) in auto)
qed

section \<open>Iterator loops\<close>

lemma loop_binding_frame [simp]:
  "loop_binding K (c\<lparr>fr_resources := R\<rparr>) b ts = loop_binding K c b ts"
  by (simp add: loop_binding_def frame_name_def [abs_def])

lemma agree_iterationContext [agree_rules]:
  "agrees c (iterationContext a slot i next ctx l) (iterationContext a slot i next ctx l)"
  unfolding iterationContext_def Let_def by (intro agree_rules)

lemma agree_iteration:
  assumes "planning opts F K S k bn bn'" "job_agree F K S n rec rec'" "fr_source c = F" "st \<in> S" "10 * size st \<le> n" "loop_binding K c b ts"
  shows "agrees c (buildIteration bn rec st b ts next ctx) (buildIteration bn' rec' st b ts next ctx)"
proof -
  have S: "source_nodes opts F K S" using assms(1) by (simp add: planning_def)
  show ?thesis
    unfolding buildIteration_def
    by (intro agree_rules agree_loopBody [OF assms(2,3) S assms(4,5)] plan_loopBinding [OF assms(1,3,6)]) simp_all
qed

lemma agree_iteratorEntry:
  assumes "planning opts F K S k bn bn'" "fr_source c = F" "st \<in> S"
  shows "agrees c (iteratorEntry opts bn st b ts slot r i j next ctx) (iteratorEntry opts bn' st b ts slot r i j next ctx)"
proof -
  have e: "within F K (field st ''expression'')"
    using assms source_within source_field unfolding planning_def by blast
  show ?thesis
    unfolding iteratorEntry_def by (intro agree_rules plan_result [OF assms(1,2) e])
qed

lemma agree_iteratorStates:
  assumes "planning opts F K S k bn bn'" "job_agree F K S n rec rec'" "fr_source c = F" "st \<in> S" "10 * size st \<le> n" "loop_binding K c b ts"
  shows "agrees c (buildIteratorStates opts bn rec st b ts next ctx l) (buildIteratorStates opts bn' rec' st b ts next ctx l)"
proof -
  have iteration: "agrees d (buildIteration bn rec st b ts x y) (buildIteration bn' rec' st b ts x y)"
    if "fr_source d = F" "loop_binding K d b ts" for d x y
    by (rule agree_iteration [OF assms(1,2) that(1) assms(4,5) that(2)])
  show ?thesis
    unfolding buildIteratorStates_def
    by (intro agree_rules agree_resourceRegion agree_iteratorEntry [OF assms(1,3,4)] iteration) (use assms(3,6) in simp_all)
qed

text \<open>The head of the loop: a declared binding, or the synthesized pattern of an assignment target.\<close>

lemma agree_plainBinding:
  assumes "planning opts F K S k bn bn'" "job_agree F K S n rec rec'" "fr_source c = F" "st \<in> S" "10 * size st \<le> n" "b \<in> S"
  shows "agrees c (buildIteratorStates opts bn rec st b [] next ctx l) (buildIteratorStates opts bn' rec' st b [] next ctx l)"
proof (rule agree_plain [where K = K], rule agree_iteratorStates [OF assms(1,2) _ assms(4,5)])
  show "fr_source (plain_frame K c) = F" using assms(3) by simp
  have "within (fr_source c) K b" using assms(1,3,6) source_within [of opts F K S b] by (simp add: planning_def)
  then show "loop_binding K (plain_frame K c) b []" by (rule source_binding)
qed

lemma agree_normalized:
  assumes "planning opts F K S k bn bn'" "job_agree F K S n rec rec'" "fr_source c = F" "st \<in> S" "10 * size st \<le> n" "e \<in> S"
    and s: "frame_ok c s" and e: "normalizeAssignmentTarget e ([], b_fresh s) = (Some b, ts, f)"
  shows "run_state (buildIteratorStates opts bn rec st b ts next ctx l) (s\<lparr>b_fresh := f\<rparr>) =
      run_state (buildIteratorStates opts bn' rec' st b ts next ctx l) (s\<lparr>b_fresh := f\<rparr>) \<and>
    advances c s (snd (run_state (buildIteratorStates opts bn rec st b ts next ctx l) (s\<lparr>b_fresh := f\<rparr>)))"
proof -
  let ?c = "c\<lparr>fr_targets := set ts, fr_size := K + 1\<rparr>"
  have "within F K e" using assms(1,6) source_within [of opts F K S e] by (simp add: planning_def)
  then have inside: "inside F (K + 1) e" "size e \<le> K" by (auto intro: within_inside simp: within_def)
  have F: "F \<le> b_fresh s" using s assms(3) by (simp add: frame_ok_def)
  have step: "targets_step F (K + 1) ([], b_fresh s) (ts, f)"
    and pattern: "pattern_ok (size e) (bound_name F ts) (inside F (K + 1)) b"
    using normalize_ok(1) [OF e inside(1)] F by simp_all
  have f: "b_fresh s \<le> f" using normalize_fresh(1) [of "([], b_fresh s)" e] e by simp
  have new: "b_fresh s \<le> node_id x \<and> node_id x < f \<and> inside F (K + 1) t" if "(x, t) \<in> set ts" for x t
    using step that by (auto simp: targets_step_def)
  have "frame_ok ?c (s\<lparr>b_fresh := f\<rparr>)"
    using s f F new assms(3) by (fastforce simp: frame_ok_def)
  moreover have "loop_binding K ?c b ts"
    using pattern_ok_mono [OF pattern inside(2)] assms(3) by (auto simp: loop_binding_def bound_name_def frame_name_def)
  ultimately show ?thesis
    using agreeD [OF agree_iteratorStates [OF assms(1,2) _ assms(4,5)], of ?c b ts "s\<lparr>b_fresh := f\<rparr>"] assms(3)
      advances_nested [OF s f, of ?c] new by fastforce
qed

lemma agree_unsupported: "Q x \<Longrightarrow> agree c Q (b_unsupported x) (b_unsupported x)"
  unfolding b_unsupported_def by (intro agree_seq agree_update agree_return) simp_all

lemma agree_declaredBinding:
  assumes "source_nodes opts F K S" "st \<in> S" "is_elem VariableDeclarationList (field st ''initializer'')"
  shows "agree c (\<lambda>r. \<forall>b ts. r = Some (b, ts) \<longrightarrow> b \<in> S \<and> ts = []) (iteratorBinding st) (iteratorBinding st)"
proof -
  let ?i = "field st ''initializer''"
  have "field d ''name'' \<in> S" if "children ?i ''declarations'' = d # ds" for d ds
  proof -
    have "d \<in> set (children ?i ''declarations'')" using that by simp
    then show ?thesis by (rule source_field [OF assms(1) source_children [OF assms(1) source_field [OF assms(1,2)]]])
  qed
  then show ?thesis
    unfolding iteratorBinding_def Let_def if_P [OF assms(3)]
    by (intro agree_case_list agree_if agree_seq agree_collectDeclarations agree_return agree_unsupported) auto
qed

lemma agree_iteratorHead:
  assumes "planning opts F K S k bn bn'" "job_agree F K S n rec rec'" "fr_source c = F" "st \<in> S" "10 * size st \<le> n"
  shows "agrees c
    (do { bound \<leftarrow> iteratorBinding st;
      case bound of None \<Rightarrow> State_Monad.return next | Some (b, ts) \<Rightarrow> buildIteratorStates opts bn rec st b ts next ctx l })
    (do { bound \<leftarrow> iteratorBinding st;
      case bound of None \<Rightarrow> State_Monad.return next | Some (b, ts) \<Rightarrow> buildIteratorStates opts bn' rec' st b ts next ctx l })"
    (is "agrees c (?m bn rec) (?m bn' rec')")
proof (cases "is_elem VariableDeclarationList (field st ''initializer'')")
  have S: "source_nodes opts F K S" using assms(1) by (simp add: planning_def)
  case True
  have "agrees c (buildIteratorStates opts bn rec st b ts next ctx l) (buildIteratorStates opts bn' rec' st b ts next ctx l)"
    if "b \<in> S \<and> ts = []" for b ts
    using that agree_plainBinding [OF assms] by simp
  then show ?thesis
    by (intro agree_bind [OF agree_declaredBinding [OF S assms(4) True]] agree_case_option agree_return) auto
next
  have S: "source_nodes opts F K S" using assms(1) by (simp add: planning_def)
  case False
  let ?i = "field st ''initializer''"
  show ?thesis
    unfolding agree_def
  proof (intro allI impI)
    fix s
    assume s: "frame_ok c s"
    obtain b ts f where e: "normalizeAssignmentTarget ?i ([], b_fresh s) = (b, ts, f)" by (metis prod.exhaust)
    have f: "b_fresh s \<le> f" using normalize_fresh(1) [of "([], b_fresh s)" ?i] e by simp
    have run: "run_state (?m bn rec) s = (case b of None \<Rightarrow> (next, s\<lparr>b_fresh := f, b_supported := False\<rparr>)
        | Some b \<Rightarrow> run_state (buildIteratorStates opts bn rec st b ts next ctx l) (s\<lparr>b_fresh := f\<rparr>))" for bn rec
      using e False by (simp add: iteratorBinding_def Let_def b_read_def State_Monad.update_def b_unsupported_def split: option.split)
    show "run_state (?m bn rec) s = run_state (?m bn' rec') s \<and> advances c s (snd (run_state (?m bn rec) s)) \<and> True"
    proof (cases b)
      case None
      have "advances c s (s\<lparr>b_fresh := f, b_supported := False\<rparr>)"
        using s f by (fastforce simp: advances_def frame_ok_def)
      with None show ?thesis unfolding run by simp
    next
      case (Some b)
      show ?thesis
        unfolding run Some option.case simp_thms by (rule agree_normalized [OF assms(1-5) source_field [OF S assms(4)] s e [unfolded Some]])
    qed
  qed
qed

lemma agree_iteratorLoop:
  assumes "planning opts F K S k bn bn'" "job_agree F K S n rec rec'" "fr_source c = F" "st \<in> S"
    "job_need (fr_owners c) (fr_resources c) (IteratorLoopJob st l) \<le> n"
  shows "agrees c (buildIteratorLoop opts bn rec st next ctx l) (buildIteratorLoop opts bn' rec' st next ctx l)"
proof -
  have n: "10 * size st \<le> n" using assms(5) by simp
  have owned: "agrees (c\<lparr>fr_owners := insert st (fr_owners c)\<rparr>) (rec (IteratorLoopJob st l) x y) (rec' (IteratorLoopJob st l) x y)"
    if "st \<notin> fr_owners c" for x y
    using assms(3-5) that by (intro agree_job [OF assms(2)]) auto
  show ?thesis
    unfolding buildIteratorLoop_def Let_def
    by (intro agree_isOwner agree_if agree_lexicalRegion owned agree_iteratorHead [OF assms(1-4) n]) simp_all
qed

section \<open>Compound statements\<close>

lemma agree_orElse [agree_rules]: "agrees c m m' \<Longrightarrow> agrees c h h' \<Longrightarrow> agrees c (b_orElse m h) (b_orElse m' h')"
  unfolding b_orElse_def by (intro agree_rules)

text \<open>A part of a statement.\<close>

lemma agree_part:
  assumes "source_nodes opts F K S" "job_agree F K S n rec rec'" "fr_source c = F" "st \<in> S" "10 * size st \<le> n"
  shows "agrees c (rec (StatementJob (field st f)) next ctx) (rec' (StatementJob (field st f)) next ctx)"
    "child st f = Some e \<Longrightarrow> agrees c (rec (StatementJob e) next ctx) (rec' (StatementJob e) next ctx)"
    "agrees c (rec (BlockJob (field st f)) next ctx) (rec' (BlockJob (field st f)) next ctx)"
    "child st f = Some e \<Longrightarrow> agrees c (rec (BlockJob e) next ctx) (rec' (BlockJob e) next ctx)"
proof -
  note job = agree_job [OF assms(2,3)]
  show "agrees c (rec (StatementJob (field st f)) next ctx) (rec' (StatementJob (field st f)) next ctx)"
    using source_field [OF assms(1,4), of f] statement_need_field [of "fr_owners c" st f] assms(5)
    by (intro job) (simp_all add: statement_fits_def)
  show "agrees c (rec (BlockJob (field st f)) next ctx) (rec' (BlockJob (field st f)) next ctx)"
    using source_field [OF assms(1,4), of f] block_need_field [of "fr_owners c" "fr_resources c" st f] assms(5)
    by (intro job) simp_all
  assume e: "child st f = Some e"
  show "agrees c (rec (StatementJob e) next ctx) (rec' (StatementJob e) next ctx)"
    using source_child [OF assms(1,4) e] statement_need_child [OF e, of "fr_owners c"] assms(5)
    by (intro job) (simp_all add: statement_fits_def)
  show "agrees c (rec (BlockJob e) next ctx) (rec' (BlockJob e) next ctx)"
    using source_child [OF assms(1,4) e] block_need_child [OF e, of "fr_owners c" "fr_resources c"] assms(5)
    by (intro job) simp_all
qed

lemma agree_with:
  assumes "planning opts F K S k bn bn'" "job_agree F K S n rec rec'" "fr_source c = F" "st \<in> S" "10 * size st \<le> n"
  shows "agrees c (buildWith opts bn rec st next ctx) (buildWith opts bn' rec' st next ctx)"
proof -
  have S: "source_nodes opts F K S" using assms(1) by (simp add: planning_def)
  show ?thesis
    unfolding buildWith_def
    by (intro agree_rules agree_finalization agree_part(1) [OF S assms(2-5)] plan_result [OF assms(1,3)]
        source_within [OF S source_field [OF S assms(4)]])
qed

lemma agree_labeled:
  assumes "planning opts F K S k bn bn'" "job_agree F K S n rec rec'" "fr_source c = F" "st \<in> S" "10 * size st \<le> n"
  shows "agrees c (buildLabeled opts rec st next ctx) (buildLabeled opts rec' st next ctx)"
proof -
  have S: "source_nodes opts F K S" using assms(1) by (simp add: planning_def)
  let ?inner = "field st ''statement''"
  have inner: "?inner \<in> S" by (rule source_field [OF S assms(4)])
  have size: "10 * size ?inner + 2 < n" if "is_loop ?inner \<or> is_for ?inner"
  proof -
    have "?inner \<noteq> missing_node" using that by (auto simp: is_loop_def is_for_def is_stmt_def missing_node_def)
    then have "size ?inner < size st" using child_size [of st "''statement''"] by (auto simp: field_def split: option.splits)
    then show ?thesis using assms(5) by linarith
  qed
  have loops: "agrees c (rec (LoopJob ?inner l) next ctx) (rec' (LoopJob ?inner l) next ctx)"
    "agrees c (rec (IteratorLoopJob ?inner l) next ctx) (rec' (IteratorLoopJob ?inner l) next ctx)"
    if "is_loop ?inner \<or> is_for ?inner" for l
    using size [OF that] inner by (auto intro!: agree_job [OF assms(2,3)])
  show ?thesis
    unfolding buildLabeled_def Let_def
    by (intro agree_rules agree_part(1) [OF S assms(2-5)] loops) simp_all
qed

lemma agree_ifStatement:
  assumes "planning opts F K S k bn bn'" "job_agree F K S n rec rec'" "fr_source c = F" "st \<in> S" "10 * size st \<le> n"
  shows "agrees c (buildIf opts bn rec st next ctx) (buildIf opts bn' rec' st next ctx)"
proof -
  have S: "source_nodes opts F K S" using assms(1) by (simp add: planning_def)
  show ?thesis
    unfolding buildIf_def Let_def
    by (intro agree_rules agree_part(1,2) [OF S assms(2-5)] plan_sequence [OF assms(1,3)]
        within_transparent source_within [OF S source_field [OF S assms(4)]])
qed

section \<open>Switch statements\<close>

lemma switch_clause:
  assumes "cl \<in> set (switch_clauses st)"
  shows "size cl < size st" "source_nodes opts F K S \<Longrightarrow> st \<in> S \<Longrightarrow> cl \<in> S"
proof -
  have cl: "cl \<in> set (children (field st ''caseBlock'') ''clauses'')" using assms by (simp add: switch_clauses_def)
  show "size cl < size st" using children_size [OF cl] field_le [of st "''caseBlock''"] by linarith
  show "source_nodes opts F K S \<Longrightarrow> st \<in> S \<Longrightarrow> cl \<in> S" by (rule source_children [OF _ source_field cl])
qed

definition clauses_ok :: "node set \<Rightarrow> (node option \<times> nat) list \<Rightarrow> bool" where
  "clauses_ok S cs \<longleftrightarrow> (\<forall>(e, t)\<in>set cs. set_option e \<subseteq> S)"

lemma agree_switchClauses:
  assumes "source_nodes opts F K S" "job_agree F K S n rec rec'" "fr_source c = F" "\<And>cl. cl \<in> set cls \<Longrightarrow> cl \<in> S \<and> 10 * size cl \<le> n"
  shows "agree c (\<lambda>r. \<forall>x\<in>set (snd r). \<forall>e\<in>set_option x. clauses_ok S [e]) (switchClauses rec cls next ctx) (switchClauses rec' cls next ctx)"
  using assms(4)
proof (induction cls)
  case (Cons cl cls)
  let ?Q = "\<lambda>r. \<forall>x\<in>set (snd r). \<forall>e\<in>set_option x. clauses_ok S [e]"
  have cl: "cl \<in> S" "10 * size cl \<le> n" using Cons.prems by simp_all
  have rest: "agree c ?Q (switchClauses rec cls next ctx) (switchClauses rec' cls next ctx)"
    by (rule Cons.IH) (simp add: Cons.prems)
  have "clauses_ok S [(clause_expression cl, t)]" for t
    using source_field [OF assms(1) cl(1)] by (simp add: clauses_ok_def clause_expression_def)
  moreover have "agrees c (rec (SequenceJob (children cl ''statements'')) x ctx) (rec' (SequenceJob (children cl ''statements'')) x ctx)" for x
    using sequence_need_le [of "fr_owners c" "fr_resources c" "children cl ''statements''"] max_need_children [of "fr_owners c" cl "''statements''"] cl(2)
    by (intro agree_job [OF assms(2,3) children_fit [OF assms(1) cl(1)]]) simp
  ultimately show ?case
    unfolding switchClauses.simps
    by (intro agree_bind [OF rest] agree_case_prod agree_seq agree_read agree_if agree_return) auto
qed (simp add: agree_return)

lemma agree_switchTests:
  assumes "planning opts F K S k bn bn'" "fr_source c = F" "clauses_ok S cs"
  shows "agrees c (switchTests opts bn st d ctx t cs) (switchTests opts bn' st d ctx t cs)"
  using assms(3)
proof (induction cs)
  case (Cons entry cs)
  obtain e i where entry: "entry = (e, i)" by fastforce
  have rest: "agrees c (switchTests opts bn st d ctx t cs) (switchTests opts bn' st d ctx t cs)"
    using Cons by (simp add: clauses_ok_def)
  show ?case
  proof (cases e)
    case None
    with rest show ?thesis by (simp add: entry)
  next
    case (Some x)
    then have "within F K x"
      using Cons.prems assms(1) source_within [of opts F K S x] by (simp add: entry clauses_ok_def planning_def)
    then show ?thesis
      unfolding entry Some switchTests.simps
      by (intro agree_rules rest plan_result [OF assms(1,2)])
  qed
qed (simp add: agree_return)

lemma agree_switchScope [agree_rules]: "agrees c (switchScope st i ctx) (switchScope st i ctx)"
  unfolding switchScope_def Let_def by (intro agree_rules)

lemma agree_switchDispatch:
  assumes "planning opts F K S k bn bn'" "fr_source c = F" "st \<in> S" "clauses_ok S cs"
  shows "agrees c (switchDispatch opts bn st next ctx t cs) (switchDispatch opts bn' st next ctx t cs)"
proof -
  have e: "within F K (field st ''expression'')"
    using assms(1,3) source_within source_field unfolding planning_def by blast
  show ?thesis
    unfolding switchDispatch_def switchSelection_def
    by (intro agree_rules agree_switchTests [OF assms(1,2,4)] plan_result [OF assms(1,2) e])
qed

lemma agree_buildSwitchClauses:
  assumes "planning opts F K S k bn bn'" "job_agree F K S n rec rec'" "fr_source c = F" "st \<in> S" "10 * size st \<le> n"
  shows "agrees c (buildSwitchClauses opts bn rec st next ctx) (buildSwitchClauses opts bn' rec' st next ctx)"
proof -
  have S: "source_nodes opts F K S" using assms(1) by (simp add: planning_def)
  have clauses: "cl \<in> S \<and> 10 * size cl \<le> n" if "cl \<in> set (switch_clauses st)" for cl
    using switch_clause [OF that] S assms(4,5) by fastforce
  have ok: "clauses_ok S (concat (map (\<lambda>e. case e of Some c \<Rightarrow> [c] | None \<Rightarrow> []) es))" if "\<forall>x\<in>set es. \<forall>e\<in>set_option x. clauses_ok S [e]" for es
    using that by (induction es) (auto simp: clauses_ok_def split: option.split)
  show ?thesis
    unfolding buildSwitchClauses_def
    by (intro agree_bind [OF agree_switchClauses [OF S assms(2,3) clauses]] agree_case_prod agree_case_option agree_seq agree_primitives
        agree_return agree_switchDispatch [OF assms(1,3,4)] ok) auto
qed

lemma agree_switch:
  assumes "planning opts F K S k bn bn'" "job_agree F K S n rec rec'" "fr_source c = F" "st \<in> S" "is_stmt SwitchStatement st"
    "job_need (fr_owners c) (fr_resources c) (StatementJob st) \<le> n"
  shows "agrees c (buildSwitch opts bn rec st next ctx) (buildSwitch opts bn' rec' st next ctx)"
proof -
  have S: "source_nodes opts F K S" using assms(1) by (simp add: planning_def)
  have container: "is_container st" using assms(5) by (simp add: is_container_def)
  have n: "10 * size st \<le> n" using assms(6) container by (simp add: statement_need_def)
  have e: "within F K (field st ''expression'')" by (rule source_within [OF S source_field [OF S assms(4)]])
  have owned: "agrees (c\<lparr>fr_owners := insert st (fr_owners c)\<rparr>) (rec (StatementJob st) x y) (rec' (StatementJob st) x y)"
    if "st \<notin> fr_owners c" for x y
    using assms(3-6) container that by (intro agree_job [OF assms(2)]) (simp_all add: statement_need_def statement_fits_def)
  have result: "agrees d (buildExpressionResult opts bn (field st ''expression'') slot x y) (buildExpressionResult opts bn' (field st ''expression'') slot x y)"
    if "fr_source d = F" for d slot x y
    by (rule plan_result [OF assms(1) that e])
  show ?thesis
    unfolding buildSwitch_def Let_def
    by (intro agree_isOwner agree_if agree_seq agree_primitives agree_return agree_orElse agree_lexicalRegion owned result
        agree_buildSwitchClauses [OF assms(1-4) n]) (use assms(3) in simp_all)
qed

section \<open>Try statements\<close>

lemma agree_bindCatch:
  assumes "planning opts F K S k bn bn'" "fr_source c = F" "cl \<in> S"
  shows "agrees c (bindCatch bn cl i next ctx) (bindCatch bn' cl i next ctx)"
proof -
  have S: "source_nodes opts F K S" using assms(1) by (simp add: planning_def)
  have b: "b \<in> S" if "catch_binding cl = Some b" for b
    using that source_field [OF S source_child [OF S assms(3)]] by (auto simp: catch_binding_def)
  show ?thesis
    unfolding bindCatch_def
    by (intro agree_rules plan_suspendingBinding [OF assms(1,2)] b) simp_all
qed

lemma agree_catch:
  assumes "planning opts F K S k bn bn'" "job_agree F K S n rec rec'" "fr_source c = F" "cl \<in> S"
    "job_need (fr_owners c) (fr_resources c) (CatchJob cl) \<le> n"
  shows "agrees c (buildCatchEntry opts bn rec cl next ctx) (buildCatchEntry opts bn' rec' cl next ctx)"
proof -
  have S: "source_nodes opts F K S" using assms(1) by (simp add: planning_def)
  have n: "10 * size cl \<le> n" using assms(5) by simp
  have owned: "agrees (c\<lparr>fr_owners := insert cl (fr_owners c)\<rparr>) (rec (CatchJob cl) x y) (rec' (CatchJob cl) x y)"
    if "cl \<notin> fr_owners c" for x y
    using assms(3-5) that by (intro agree_job [OF assms(2)]) auto
  show ?thesis
    unfolding buildCatchEntry_def
    by (intro agree_isOwner agree_if agree_seq agree_lexicalRegion owned agree_part(3) [OF S assms(2-4) n] agree_bindCatch [OF assms(1,3,4)])
      simp_all
qed

lemma agree_try:
  assumes "planning opts F K S k bn bn'" "job_agree F K S n rec rec'" "fr_source c = F" "st \<in> S" "10 * size st \<le> n"
  shows "agrees c (buildTry rec st next ctx) (buildTry rec' st next ctx)"
proof -
  have S: "source_nodes opts F K S" using assms(1) by (simp add: planning_def)
  have handler: "agrees c (rec (CatchJob cl) x y) (rec' (CatchJob cl) x y)" if "child st ''catchClause'' = Some cl" for cl x y
    using source_child [OF S assms(4) that] child_size [OF that] assms(5) by (intro agree_job [OF assms(2,3)]) auto
  show ?thesis
    unfolding buildTry_def
    by (intro agree_rules agree_finalization agree_part(3,4) [OF S assms(2-5)] handler)
qed

section \<open>Simple statements\<close>

lemma agree_jump [agree_rules]: "agrees c (buildJump st next ctx) (buildJump st next ctx)"
  unfolding buildJump_def by (intro agree_rules)

lemma agree_completion:
  assumes "planning opts F K S k bn bn'" "fr_source c = F" "\<And>e. child st ''expression'' = Some e \<Longrightarrow> within F K e"
  shows "agrees c (buildCompletion opts bn st next ctx) (buildCompletion opts bn' st next ctx)"
  unfolding buildCompletion_def by (intro agree_rules plan_sequence [OF assms(1,2)] assms(3))

lemma rewriteReturn_expression:
  assumes "source_nodes opts F K S" "st \<in> S" "child (rewriteReturn opts st) ''expression'' = Some e"
  shows "within F K e"
proof (cases "rewriteReturn opts st = st")
  case True
  then show ?thesis using assms source_child source_within by metis
next
  case False
  then obtain x where x: "child st ''expression'' = Some x" "rewriteReturn opts st = awaitedReturn opts st x"
    by (auto simp: rewriteReturn_def split: option.splits if_splits)
  then have "e = awaited_operand opts x" using assms(3) by (simp add: awaitedReturn_def awaited_operand_def child_def children_def)
  then show ?thesis using assms(1) source_child [OF assms(1,2) x(1)] by (simp add: source_nodes_def)
qed

lemma agree_declaration:
  assumes "planning opts F K S k bn bn'" "fr_source c = F" "d \<in> S"
  shows "agrees c (buildDeclaration opts bn st d next ctx) (buildDeclaration opts bn' st d next ctx)"
proof -
  have S: "source_nodes opts F K S" using assms(1) by (simp add: planning_def)
  have name: "field d ''name'' \<in> S" by (rule source_field [OF S assms(3)])
  have init: "within F K e" "within F K (createAssignment (assignmentTargetFromBinding (field d ''name'')) e)"
    if "child d ''initializer'' = Some e" for e
    using source_child [OF S assms(3) that] name S by (simp_all add: source_nodes_def)
  show ?thesis
    unfolding buildDeclaration_def buildPatternDeclaration_def Let_def
    by (intro agree_rules plan_sequence [OF assms(1,2)] plan_result [OF assms(1,2)] plan_suspendingBinding [OF assms(1,2) name] init)
qed

lemma single_declarations_job:
  assumes "set (declarations_of st) \<subseteq> S"
  shows "job_fits F K S (SequenceJob (single_declarations st))" "sequence_need W R (single_declarations st) \<le> 3"
proof -
  have "statement_fits F K S (createVariableStatement mods (createVariableDeclarationList d flags))" if "d \<in> S" for mods d flags
    using that by (intro variableStatement_fits) (simp add: createVariableDeclarationList_def children_def)
  then show "job_fits F K S (SequenceJob (single_declarations st))"
    using assms by (auto simp: single_declarations_def)
  have "statement_need W (createVariableStatement mods (createVariableDeclarationList d flags)) \<le> 1" for mods d flags
  proof -
    have "length (declarations_of (createVariableStatement mods (createVariableDeclarationList d flags))) \<le> 1"
      unfolding declarations_of_synthesized by (simp add: createVariableDeclarationList_def children_def)
    then show ?thesis
      by (simp add: statement_need_def is_container_def is_loop_def is_for_def is_stmt_def createVariableStatement_def)
  qed
  then have "max_need W (single_declarations st) \<le> 1"
    by (intro max_need_bound) (auto simp: single_declarations_def)
  then show "sequence_need W R (single_declarations st) \<le> 3"
    using sequence_need_le [of W R "single_declarations st"] by simp
qed

lemma agree_variable:
  assumes "planning opts F K S k bn bn'" "job_agree F K S n rec rec'" "fr_source c = F" "set (declarations_of st) \<subseteq> S"
    "length (declarations_of st) > 1 \<Longrightarrow> 3 < n"
  shows "agrees c (buildVariable opts bn rec st next ctx) (buildVariable opts bn' rec' st next ctx)"
proof -
  have single: "agrees c (rec (SequenceJob (single_declarations st)) next ctx) (rec' (SequenceJob (single_declarations st)) next ctx)"
    if "length (declarations_of st) > 1"
    using single_declarations_job(1) [OF assms(4)] le_less_trans [OF single_declarations_job(2) [OF assms(4)] assms(5) [OF that]]
    by (intro agree_job [OF assms(2,3)]) simp_all
  have each: "agrees c (buildDeclaration opts bn st d next ctx) (buildDeclaration opts bn' st d next ctx)"
    if "declarations_of st = d # ds" for d ds
    using that assms(4) by (intro agree_declaration [OF assms(1,3)]) simp
  show ?thesis
    unfolding buildVariable_def
    by (intro agree_rules single each) simp_all
qed

lemma agree_freshClass:
  assumes "source_nodes opts F K S" "st \<in> S"
  shows "agree c (within F K) (freshClassExpression st) (freshClassExpression st)"
  unfolding agree_def
proof (intro allI impI)
  fix s
  assume s: "frame_ok c s"
  have "advances c s (s\<lparr>b_fresh := b_fresh s + 1\<rparr>)"
    using s by (fastforce simp: advances_def frame_ok_def)
  moreover have "within F K (classExpressionFromDeclaration (b_fresh s) st)" using assms by (simp add: source_nodes_def)
  ultimately show "run_state (freshClassExpression st) s = run_state (freshClassExpression st) s \<and>
      advances c s (snd (run_state (freshClassExpression st) s)) \<and> within F K (fst (run_state (freshClassExpression st) s))"
    by (simp add: freshClassExpression_def b_read_def State_Monad.update_def)
qed

lemma agree_moduleExport:
  assumes "planning opts F K S k bn bn'" "fr_source c = F" "st \<in> S"
  shows "agrees c (buildModuleExport opts bn st next ctx) (buildModuleExport opts bn' st next ctx)"
proof -
  have S: "source_nodes opts F K S" using assms(1) by (simp add: planning_def)
  have "agree c (within F K)
      (if is_stmt ExportAssignment st then State_Monad.return (field st ''expression'') else freshClassExpression st)
      (if is_stmt ExportAssignment st then State_Monad.return (field st ''expression'') else freshClassExpression st)"
    by (intro agree_if agree_return agree_freshClass [OF S assms(3)] source_within [OF S source_field [OF S assms(3)]])
  then show ?thesis
    unfolding buildModuleExport_def
    by (rule agree_bind) (intro agree_rules plan_sequence [OF assms(1,2)])
qed

lemma agree_awaitedClass:
  assumes "planning opts F K S k bn bn'" "fr_source c = F" "is_stmt ClassDeclaration st \<Longrightarrow> st \<in> S"
  shows "agrees c (buildAwaitedClass opts bn st next ctx) (buildAwaitedClass opts bn' st next ctx)"
proof -
  have S: "source_nodes opts F K S" using assms(1) by (simp add: planning_def)
  show ?thesis
    unfolding buildAwaitedClass_def
    by (intro agree_if agree_return agree_bind [OF agree_freshClass [OF S assms(3)]] plan_sequence [OF assms(1,2)]) simp_all
qed

lemma agree_other:
  assumes "planning opts F K S k bn bn'" "job_agree F K S n rec rec'" "fr_source c = F" "statement_fits F K S st"
    "is_stmt VariableStatement st \<Longrightarrow> length (declarations_of st) > 1 \<Longrightarrow> 3 < n"
  shows "agrees c (buildOther opts bn rec st next ctx) (buildOther opts bn' rec' st next ctx)"
proof -
  have S: "source_nodes opts F K S" using assms(1) by (simp add: planning_def)
  have declarations: "set (declarations_of st) \<subseteq> S" if "is_stmt VariableStatement st"
  proof (cases "st \<in> S")
    case True
    then show ?thesis using source_children [OF S source_field [OF S]] by (auto simp: declarations_of_def)
  qed (use assms(4) that in \<open>auto simp: statement_fits_def is_stmt_def\<close>)
  have expression: "within F K (field st ''expression'')" if "is_stmt ExpressionStatement st"
    using assms(4) that source_within [OF S source_field [OF S]] by (auto simp: statement_fits_def is_stmt_def)
  have source: "st \<in> S" if "module_export opts st \<or> is_stmt ClassDeclaration st"
    using assms(4) that by (auto simp: statement_fits_def module_export_def is_stmt_def)
  show ?thesis
    unfolding buildOther_def
    by (intro agree_rules agree_variable [OF assms(1-3)] plan_sequence [OF assms(1,3)] agree_moduleExport [OF assms(1,3)]
        agree_awaitedClass [OF assms(1,3)] declarations expression source assms(5)) simp_all
qed

lemma rewriteReturn_kind: "is_stmt k (rewriteReturn opts st) = is_stmt k st"
  by (auto simp: rewriteReturn_def awaitedReturn_def is_stmt_def split: option.split)

lemma rewriteReturn_other: "\<not> is_stmt ReturnStatement st \<Longrightarrow> rewriteReturn opts st = st"
  by (simp add: rewriteReturn_def split: option.split)

lemma agree_returned:
  assumes "planning opts F K S k bn bn'" "fr_source c = F" "st \<in> S" "is_stmt ReturnStatement st"
  shows "agrees c (buildStatement opts bn rec st next ctx) (buildStatement opts bn' rec' st next ctx)"
proof -
  have S: "source_nodes opts F K S" using assms(1) by (simp add: planning_def)
  have kind: "is_stmt k (rewriteReturn opts st) \<longleftrightarrow> k = ReturnStatement" for k
    unfolding rewriteReturn_kind using assms(4) by (auto simp: is_stmt_def)
  show ?thesis
    unfolding buildStatement_def Let_def is_loop_def is_for_def kind
    using agree_completion [OF assms(1,2) rewriteReturn_expression [OF S assms(3)]] by simp
qed

lemma agree_statement:
  assumes "planning opts F K S k bn bn'" "job_agree F K S n rec rec'" "fr_source c = F" "job_fits F K S (StatementJob st)"
    "job_need (fr_owners c) (fr_resources c) (StatementJob st) \<le> n"
  shows "agrees c (buildStatement opts bn rec st next ctx) (buildStatement opts bn' rec' st next ctx)"
proof (cases "is_stmt ReturnStatement st")
  case True
  then have "st \<in> S" using assms(4) by (auto simp: statement_fits_def is_stmt_def)
  then show ?thesis using agree_returned [OF assms(1,3)] True by blast
next
  case False
  have S: "source_nodes opts F K S" using assms(1) by (simp add: planning_def)
  have source: "st \<in> S" if "is_container st \<or> is_stmt ThrowStatement st"
    using assms(4) that by (auto simp: statement_fits_def is_container_def is_loop_def is_for_def is_stmt_def)
  have size: "10 * size st + 6 \<le> n" if "is_container st" using assms(5) that by (simp add: statement_need_def)
  then have n: "10 * size st \<le> n" if "is_container st" using that by fastforce
  have container: "is_stmt Block st \<Longrightarrow> is_container st" "is_stmt WithStatement st \<Longrightarrow> is_container st"
    "is_stmt LabeledStatement st \<Longrightarrow> is_container st" "is_loop st \<Longrightarrow> is_container st" "is_for st \<Longrightarrow> is_container st"
    "is_stmt IfStatement st \<Longrightarrow> is_container st" "is_stmt SwitchStatement st \<Longrightarrow> is_container st" "is_stmt TryStatement st \<Longrightarrow> is_container st"
    by (simp_all add: is_container_def)
  have block: "agrees c (rec (BlockJob st) next ctx) (rec' (BlockJob st) next ctx)" if "is_container st"
    using source that block_need [of "fr_owners c" "fr_resources c" st] size [OF that] by (intro agree_job [OF assms(2,3)]) simp_all
  have loops: "agrees c (rec (LoopJob st l) next ctx) (rec' (LoopJob st l) next ctx)"
    "agrees c (rec (IteratorLoopJob st l) next ctx) (rec' (IteratorLoopJob st l) next ctx)" if "is_container st" for l
    using source that size [OF that] by (auto intro!: agree_job [OF assms(2,3)])
  have throw: "within F K e" if "is_stmt ThrowStatement st" "child st ''expression'' = Some e" for e
    using source_within [OF S source_child [OF S source that(2)]] that(1) by blast
  have several: "3 < n" if "is_stmt VariableStatement st" "length (declarations_of st) > 1"
    using assms(5) that by (simp add: statement_need_def split: if_splits)
  show ?thesis
    unfolding buildStatement_def Let_def rewriteReturn_other [OF False]
    by (intro agree_if agree_primitives block loops agree_jump
        agree_with [OF assms(1-3)] agree_labeled [OF assms(1-3)] agree_ifStatement [OF assms(1-3)] agree_try [OF assms(1-3)]
        agree_switch [OF assms(1-3)] agree_completion [OF assms(1,3)] agree_other [OF assms(1-3)])
      (use False source n throw several assms(4,5) container in auto)
qed

section \<open>The recursion\<close>

lemma job_agree_body:
  assumes "planning opts F K S k bn bn'" "job_agree F K S n rec rec'"
  shows "job_agree F K S (Suc n) (job_body opts bn rec) (job_body opts bn' rec')"
  unfolding job_agree_def
proof (intro allI impI)
  fix c :: plan_frame and job "next" ctx
  assume c: "fr_source c = F" and fits: "job_fits F K S job" and "job_need (fr_owners c) (fr_resources c) job < Suc n"
  then have need: "job_need (fr_owners c) (fr_resources c) job \<le> n" by simp
  have S: "source_nodes opts F K S" using assms(1) by (simp add: planning_def)
  show "agrees c (job_body opts bn rec job next ctx) (job_body opts bn' rec' job next ctx)"
  proof (cases job)
    case (StatementJob st)
    show ?thesis using agree_statement [OF assms c] fits need unfolding job_body_def StatementJob by simp
  next
    case (SequenceJob ss)
    show ?thesis using agree_sequence [OF assms(2) c] fits need unfolding job_body_def SequenceJob by simp
  next
    case (BlockJob b)
    show ?thesis using agree_block [OF S assms(2) c] fits need unfolding job_body_def BlockJob by simp
  next
    case (LoopJob st l)
    show ?thesis using agree_loop [OF assms c] fits need unfolding job_body_def LoopJob by simp
  next
    case (IteratorLoopJob st l)
    show ?thesis using agree_iteratorLoop [OF assms c] fits need unfolding job_body_def IteratorLoopJob by simp
  next
    case (CatchJob cl)
    show ?thesis using agree_catch [OF assms c] fits need unfolding job_body_def CatchJob by simp
  qed
qed

lemma job_agree_fuel:
  assumes "planning opts F K S k bn bn'"
  shows "n \<le> fuel \<Longrightarrow> n \<le> fuel' \<Longrightarrow> job_agree F K S n (buildJob opts bn fuel) (buildJob opts bn' fuel')"
proof (induction n arbitrary: fuel fuel')
  case 0
  show ?case by (simp add: job_agree_def)
next
  case (Suc n)
  then obtain f f' where "fuel = Suc f" "fuel' = Suc f'" "n \<le> f" "n \<le> f'" by (metis Suc_le_D Suc_le_mono)
  with Suc.IH [of f f'] show ?case by (simp add: job_agree_body [OF assms])
qed

section \<open>The source of a function\<close>

lemma descendants_self: "n \<in> set (descendants n)"
  by (cases n) simp

lemma descendants_child: "x \<in> set (descendants r) \<Longrightarrow> c \<in> set (forEachChild x) \<Longrightarrow> c \<in> set (descendants r)"
proof (induction r rule: descendants.induct)
  case (1 i k oper t fl orig cs)
  show ?case
  proof (cases "x = Node i k oper t fl orig cs")
    case True
    then show ?thesis using 1(3) descendants_self [of c] by (auto simp: forEachChild_def)
  next
    case False
    then obtain y where y: "y \<in> set cs" "x \<in> set (descendants (snd y))" using 1(2) by auto
    have "c \<in> set (descendants (snd y))" by (rule 1(1) [OF y 1(3)])
    then show ?thesis using y(1) by auto
  qed
qed

lemma names_below_descendants: "names_below F r \<Longrightarrow> x \<in> set (descendants r) \<Longrightarrow> names_below F x"
proof (induction r rule: descendants.induct)
  case (1 i k oper t fl orig cs)
  show ?case
  proof (cases "x = Node i k oper t fl orig cs")
    case False
    then obtain y where y: "y \<in> set cs" "x \<in> set (descendants (snd y))" using 1(3) by auto
    then have "names_below F (snd y)" using names_below_child [OF 1(2), of "fst y" "snd y"] by simp
    then show ?thesis using 1(1) y by blast
  qed (use 1(2) in simp)
qed

lemma names_below_synthesized:
  "k \<noteq> Identifier \<Longrightarrow> (\<And>f c. (f, c) \<in> set cs \<Longrightarrow> names_below F c) \<Longrightarrow> names_below F (synthesized i k t cs)"
  by (subst names_below.simps) (auto simp: synthesized_def isIdentifier_def forEachChild_def)

lemma names_below_assignment: "names_below F l \<Longrightarrow> names_below F r \<Longrightarrow> names_below F (createAssignment l r)"
  unfolding createAssignment_def by (rule names_below_synthesized) (auto intro: names_below_synthesized)

lemma names_below_class: "names_below F d \<Longrightarrow> names_below F (classExpressionFromDeclaration i d)"
proof -
  assume d: "names_below F d"
  have "names_below F c" if "(f, c) \<in> set (node_children d)" for f c by (rule names_below_child [OF d that])
  with d show ?thesis
    by (subst names_below.simps) (auto simp: classExpressionFromDeclaration_def isIdentifier_def forEachChild_def)
qed

lemma size_class: "size (classExpressionFromDeclaration i d) = size (classExpressionFromDeclaration 0 d)"
  by (simp add: classExpressionFromDeclaration_def)

lemma names_below_children: "names_below F n \<Longrightarrow> c \<in> set (children n f) \<Longrightarrow> names_below F c"
  by (auto simp: children_def dest: names_below_child)

lemma names_below_some: "names_below F n \<Longrightarrow> child n f = Some c \<Longrightarrow> names_below F c"
  by (rule names_below_child [OF _ child_in])

lemma names_below_target: "names_below F n \<Longrightarrow> names_below F (assignmentTargetFromBinding n)"
proof (induction n rule: measure_induct_rule [where f = size])
  case (less n)
  have element: "names_below F e" "names_below F (assignmentTargetFromBinding (field e ''name''))" if e: "e \<in> set (children n ''elements'')" for e
  proof -
    show below: "names_below F e" by (rule names_below_children [OF less.prems e])
    have "size (field e ''name'') < size n" using field_le [of e "''name''"] children_size [OF e] by linarith
    then show "names_below F (assignmentTargetFromBinding (field e ''name''))"
      by (rule less.IH) (rule names_below_field [OF below])
  qed
  have name: "names_below F (field e ''name'')" and some: "child e f = Some c \<Longrightarrow> names_below F c"
    if "e \<in> set (children n ''elements'')" for e f c
    using names_below_field [OF element(1)] names_below_some [OF element(1)] that by blast+
  show ?case
    by (subst assignmentTargetFromBinding.simps)
      (auto simp: Let_def less.prems element name split: option.split
        intro!: names_below_synthesized names_below_assignment; rule some; assumption)
qed

text \<open>The planner only needs the factory not to add identifiers when it parenthesizes an operand.\<close>

definition source_of :: "cfg_options \<Rightarrow> node set" where
  "source_of opts = insert missing_node (set (descendants (root_body opts)))"

lemma source_of_nodes:
  assumes "names_below F (root_body opts)" "\<And>e. names_below F e \<Longrightarrow> names_below F (factory_prefixOperand opts e)"
    "\<And>e. names_below F e \<Longrightarrow> names_below F (factory_statementExpression opts e)"
  shows "\<exists>K. source_nodes opts F K (source_of opts)"
proof -
  let ?S = "source_of opts"
  let ?parts = "?S \<union> awaited_operand opts ` ?S \<union> factory_statementExpression opts ` ?S \<union> classExpressionFromDeclaration 0 ` ?S \<union>
    (\<lambda>(m, n). createAssignment (assignmentTargetFromBinding m) n) ` (?S \<times> ?S)"
  have below: "names_below F n" if "n \<in> ?S" for n
    using that names_below_descendants [OF assms(1)] by (auto simp: source_of_def)
  have children: "set (forEachChild n) \<subseteq> ?S" if "n \<in> ?S" for n
    using that descendants_child [of n "root_body opts"] by (auto simp: source_of_def forEachChild_def missing_node_def)
  have awaited: "names_below F (awaited_operand opts n)" if "n \<in> ?S" for n
    using assms(2) [OF below [OF that]] unfolding awaited_operand_def by (intro names_below_synthesized) auto
  have "finite ?parts" by (simp add: source_of_def)
  then have size: "size p \<le> Max (size ` ?parts)" if "p \<in> ?parts" for p
    using that by (intro Max_ge) blast+
  have within: "within F (Max (size ` ?parts)) p" if "p \<in> ?parts" "names_below F p" for p
    using size [OF that(1)] that(2) unfolding within_def ..
  have "source_nodes opts F (Max (size ` ?parts)) ?S"
    unfolding source_nodes_def
  proof (intro conjI ballI allI)
    show "missing_node \<in> ?S" by (simp add: source_of_def)
    fix n
    assume n: "n \<in> ?S"
    show "set (forEachChild n) \<subseteq> ?S" by (rule children [OF n])
    show "within F (Max (size ` ?parts)) n" "within F (Max (size ` ?parts)) (awaited_operand opts n)"
      "within F (Max (size ` ?parts)) (factory_statementExpression opts n)"
      using n below awaited assms(3) by (intro within; blast)+
    have "within F (Max (size ` ?parts)) (classExpressionFromDeclaration 0 n)"
      using n names_below_class [OF below] by (intro within; blast)
    then show "within F (Max (size ` ?parts)) (classExpressionFromDeclaration i n)" for i
      using n names_below_class [OF below] by (simp add: within_def size_class [of i])
    show "within F (Max (size ` ?parts)) (createAssignment (assignmentTargetFromBinding m) n)" if "m \<in> ?S" for m
      using n that by (intro within names_below_assignment names_below_target below) auto
  qed
  then show ?thesis ..
qed

section \<open>Totality\<close>

definition start_frame :: "nat \<Rightarrow> plan_frame" where
  "start_frame F = \<lparr>fr_source = F, fr_owners = {}, fr_resources = {}, fr_targets = {}, fr_size = 0\<rparr>"

lemma start_frame_ok: "frame_ok (start_frame F) (b_initial F)"
  by (simp add: frame_ok_def start_frame_def b_initial_def)

lemma agree_buildGraph:
  assumes "source_nodes opts F K (source_of opts)" "10 * size (root_body opts) + K + (K + 1) * (K + 2) < fuel"
    "10 * size (root_body opts) + K + (K + 1) * (K + 2) < fuel'"
  shows "agrees (start_frame F) (buildGraph opts fuel) (buildGraph opts fuel')"
proof -
  let ?S = "source_of opts" and ?k = "K + (K + 1) * (K + 2)" and ?n = "10 * size (root_body opts) + 1"
  have "bind_agree ?k (buildBindingName opts fuel) (buildBindingName opts fuel')"
    using assms(2,3) by (intro bind_agree_fuel) simp_all
  with assms(1) have planning: "planning opts F K ?S ?k (buildBindingName opts fuel) (buildBindingName opts fuel')"
    by (simp add: planning_def)
  have agreement: "job_agree F K ?S ?n (buildJob opts (buildBindingName opts fuel) fuel) (buildJob opts (buildBindingName opts fuel') fuel')"
    using assms(2,3) by (intro job_agree_fuel [OF planning]) simp_all
  have root: "root_body opts \<in> ?S" using descendants_self by (simp add: source_of_def)
  have "agrees (start_frame F) (buildJob opts (buildBindingName opts fuel) fuel (BlockJob (root_body opts)) t empty_context)
      (buildJob opts (buildBindingName opts fuel') fuel' (BlockJob (root_body opts)) t empty_context)" for t
    using block_need [of "{}" "{}" "root_body opts"] root by (intro agree_job [OF agreement]) (simp_all add: start_frame_def)
  then show ?thesis unfolding buildGraph_def by (intro agree_rules)
qed

lemma planned_inside:
  assumes "\<not> b_exhausted (snd (run_state (buildGraph opts fuel) (b_initial fresh)))"
  shows "planAsyncControlFlowGraph opts fuel fresh \<noteq> CfgOutOfFuel"
proof -
  obtain entry s where run: "run_state (buildGraph opts fuel) (b_initial fresh) = (entry, s)" by fastforce
  note ok = bspecD [OF bspec_buildGraph run empty_inv]
  then show ?thesis
    using finishGraph_ok [of s entry opts] assms run by (auto simp: planAsyncControlFlowGraph_def split: cfg_plan.splits)
qed

text \<open>C6 The control-flow planner terminates: for a function whose identifiers are numbered below the fresh ones, and
  a factory that adds no identifier when it parenthesizes an operand, there is an amount of fuel from which on the
  plan is a result (a graph, the \<open>null\<close> of an unsupported function, or the thrown exception) that more fuel
  does not change.\<close>

theorem planAsyncControlFlowGraph_total:
  assumes "names_below fresh (root_body opts)"
    and "\<And>e. names_below fresh e \<Longrightarrow> names_below fresh (factory_prefixOperand opts e)"
    and "\<And>e. names_below fresh e \<Longrightarrow> names_below fresh (factory_statementExpression opts e)"
  shows "\<exists>N plan. plan \<noteq> CfgOutOfFuel \<and> (\<forall>k. planAsyncControlFlowGraph opts (N + k) fresh = plan)"
proof -
  obtain K where K: "source_nodes opts fresh K (source_of opts)" using source_of_nodes [OF assms] by blast
  define N where "N = 10 * size (root_body opts) + K + (K + 1) * (K + 2) + 1"
  have agree: "agrees (start_frame fresh) (buildGraph opts N) (buildGraph opts (N + k))" for k
    by (rule agree_buildGraph [OF K]) (simp_all add: N_def)
  have run: "run_state (buildGraph opts (N + k)) (b_initial fresh) = run_state (buildGraph opts N) (b_initial fresh)" for k
    using agreeD [OF agree start_frame_ok] by blast
  have "\<not> b_exhausted (snd (run_state (buildGraph opts N) (b_initial fresh)))"
    using agreeD [OF agree start_frame_ok] by (simp add: advances_def frame_ok_def)
  from planned_inside [OF this] have "planAsyncControlFlowGraph opts N fresh \<noteq> CfgOutOfFuel" .
  moreover have "planAsyncControlFlowGraph opts (N + k) fresh = planAsyncControlFlowGraph opts N fresh" for k
    by (simp add: planAsyncControlFlowGraph_def run)
  ultimately show ?thesis by blast
qed

lemma planAsyncControlFlowGraph_total_witness:
  "\<exists>N plan. plan \<noteq> CfgOutOfFuel \<and> (\<forall>k. planAsyncControlFlowGraph (example_options example_switch) (N + k) 100 = plan)"
proof (rule planAsyncControlFlowGraph_total)
  show "names_below 100 (root_body (example_options example_switch))" by code_simp
qed (simp_all add: example_options_def)

end
