(* ===== verification/JS_String.thy ===== *)
theory JS_String
  imports TSC_Prelude
begin

text \<open>
  The string operations of the JavaScript standard library that the host-side parts of the compiler
  use: \<open>split\<close> and \<open>join\<close> on one code unit, \<open>trim\<close>, \<open>indexOf\<close> and \<open>lastIndexOf\<close>, the code-unit
  order of \<open><\<close> on strings, decimal printing, and the character classes of the regular expressions.
\<close>

section \<open>Splitting and joining\<close>

text \<open>\<open>text.split(separator)\<close> and \<open>parts.join(separator)\<close> for a separator of one code unit.\<close>

fun split_on :: "'a \<Rightarrow> 'a list \<Rightarrow> 'a list list" where
  "split_on c [] = [[]]"
| "split_on c (x # xs) = (if x = c then [] # split_on c xs
     else (case split_on c xs of [] \<Rightarrow> [[x]] | p # ps \<Rightarrow> (x # p) # ps))"

fun join_with :: "'a list \<Rightarrow> 'a list list \<Rightarrow> 'a list" where
  "join_with sep [] = []"
| "join_with sep [x] = x"
| "join_with sep (x # y # ys) = x @ sep @ join_with sep (y # ys)"

lemma split_on_nonempty [simp]: "split_on c s \<noteq> []"
  by (cases s) (simp_all split: list.splits)

lemma join_with_Cons: "xs \<noteq> [] \<Longrightarrow> join_with sep (x # xs) = x @ sep @ join_with sep xs"
  by (cases xs) simp_all

lemma join_with_Cons_hd: "join_with sep ((x # p) # ps) = x # join_with sep (p # ps)"
  by (cases ps) simp_all

lemma join_split: "join_with [c] (split_on c s) = s"
proof (induction s)
  case (Cons x xs)
  then show ?case
    by (cases "x = c") (auto simp: join_with_Cons join_with_Cons_hd split: list.splits)
qed simp

lemma split_on_no_separator: "p \<in> set (split_on c s) \<Longrightarrow> c \<notin> set p"
proof (induction s arbitrary: p)
  case (Cons x xs)
  then show ?case
    by (cases "split_on c xs") (auto split: if_splits)
qed simp

lemma split_on_plain: "c \<notin> set p \<Longrightarrow> split_on c p = [p]"
  by (induction p) auto

lemma split_on_append: "c \<notin> set p \<Longrightarrow> split_on c (p @ c # s) = p # split_on c s"
  by (induction p) auto

lemma split_join:
  assumes "ps \<noteq> []" "\<And>p. p \<in> set ps \<Longrightarrow> c \<notin> set p"
  shows "split_on c (join_with [c] ps) = ps"
  using assms
proof (induction ps rule: induct_list012)
  case (3 x y zs)
  have "split_on c (join_with [c] (y # zs)) = y # zs" using 3 by (intro 3(2)) auto
  with 3(4) [of x] show ?case by (simp add: split_on_append)
qed (simp_all add: split_on_plain)

lemma join_with_middle: "\<exists>pre post. join_with sep (l @ x # r) = pre @ x @ post"
proof (induction l)
  case Nil
  show ?case by (cases r) (force intro: exI [of _ "[]"])+
next
  case (Cons y l)
  then obtain pre post where "join_with sep (l @ x # r) = pre @ x @ post" by blast
  then have "join_with sep ((y # l) @ x # r) = (y @ sep @ pre) @ x @ post" by (simp add: join_with_Cons)
  then show ?case by blast
qed

lemma set_join_with: "set (join_with sep ps) \<subseteq> set sep \<union> \<Union> (set ` set ps)"
  by (induction ps rule: induct_list012) auto

lemma split_on_cover:
  assumes "u \<in> set s" "u \<noteq> c"
  obtains p where "p \<in> set (split_on c s)" "u \<in> set p"
  using set_join_with [of "[c]" "split_on c s"] assms by (auto simp: join_split)

text \<open>Encoded items with a separator between them and an end mark behind can be told apart.\<close>

context prefix_code
begin

lemma join_enc_inject:
  assumes "list_all valid as" "list_all valid bs" "c \<noteq> d" "\<And>a. valid a \<Longrightarrow> hd (enc a) \<noteq> d"
    and "join_with [c] (map enc as) @ d # r = join_with [c] (map enc bs) @ d # r'"
  shows "as = bs \<and> r = r'"
  using assms(1,2,5)
proof (induction as arbitrary: bs)
  have start: "join_with [c] (enc b # xs) @ s \<noteq> d # s'" if "valid b" for b xs s s'
    using enc_nonempty [OF that] assms(4) [OF that] by (cases "enc b"; cases xs) auto
  {
    case Nil
    then show ?case using start by (cases bs) (auto simp: eq_commute)
  next
    case (Cons a as)
    from Cons.prems start [of a] obtain b bs' where bs: "bs = b # bs'" by (cases bs) auto
    define rest where "rest = (\<lambda>as r. (if as = [] then [] else c # join_with [c] (map enc as)) @ d # r)"
    have unfold: "join_with [c] (map enc (a # as)) @ d # r = enc a @ rest as r" for a as r
      by (cases as) (simp_all add: rest_def)
    have "rd (enc a @ rest as r) = rd (enc b @ rest bs' r')" using Cons.prems(3) unfolding bs unfold by simp
    then have "a = b \<and> rest as r = rest bs' r'"
      using Cons.prems(1,2) bs by (simp add: rd_enc)
    with Cons.prems(1,2) Cons.IH [of bs'] bs assms(3) show ?case
      by (auto simp: rest_def split: if_splits)
  }
qed

end

section \<open>Searching\<close>

text \<open>\<open>indexOf\<close> and \<open>lastIndexOf\<close> of one code unit, with \<open>None\<close> for \<open>-1\<close>.\<close>

fun indexOf :: "'a \<Rightarrow> 'a list \<Rightarrow> nat option" where
  "indexOf c [] = None"
| "indexOf c (x # xs) = (if x = c then Some 0 else map_option Suc (indexOf c xs))"

fun lastIndexOf :: "'a \<Rightarrow> 'a list \<Rightarrow> nat option" where
  "lastIndexOf c [] = None"
| "lastIndexOf c (x # xs) =
     (case lastIndexOf c xs of Some i \<Rightarrow> Some (Suc i) | None \<Rightarrow> if x = c then Some 0 else None)"

definition slice :: "nat \<Rightarrow> nat \<Rightarrow> 'a list \<Rightarrow> 'a list" where
  "slice i j s = take (j - i) (drop i s)"

lemma indexOf_None [simp]: "indexOf c s = None \<longleftrightarrow> c \<notin> set s"
  by (induction s) auto

lemma lastIndexOf_None [simp]: "lastIndexOf c s = None \<longleftrightarrow> c \<notin> set s"
  by (induction s) (auto split: option.splits)

lemma indexOf_append: "c \<notin> set p \<Longrightarrow> indexOf c (p @ c # s) = Some (length p)"
  by (induction p) auto

lemma lastIndexOf_append: "c \<notin> set s \<Longrightarrow> lastIndexOf c (p @ c # s) = Some (length p)"
  by (induction p) (auto split: option.splits)

section \<open>White space\<close>

text \<open>The code units \<open>trim\<close> removes: WhiteSpace and LineTerminator of ECMA-262.\<close>

definition is_js_space :: "code_unit \<Rightarrow> bool" where
  "is_js_space u \<longleftrightarrow> (9 \<le> u \<and> u \<le> 13) \<or> (0x2000 \<le> u \<and> u \<le> 0x200A) \<or>
     u \<in> set [0x20, 0xA0, 0x1680, 0x2028, 0x2029, 0x202F, 0x205F, 0x3000, 0xFEFF]"

definition trim :: "js_string \<Rightarrow> js_string" where
  "trim s = rev (dropWhile is_js_space (rev (dropWhile is_js_space s)))"

section \<open>Character classes\<close>

definition is_digit :: "code_unit \<Rightarrow> bool" where
  "is_digit u \<longleftrightarrow> 0x30 \<le> u \<and> u \<le> 0x39"

definition is_lower_letter :: "code_unit \<Rightarrow> bool" where
  "is_lower_letter u \<longleftrightarrow> 0x61 \<le> u \<and> u \<le> 0x7A"

definition is_upper_letter :: "code_unit \<Rightarrow> bool" where
  "is_upper_letter u \<longleftrightarrow> 0x41 \<le> u \<and> u \<le> 0x5A"

text \<open>\<open>toLowerCase\<close> on ASCII text.\<close>

definition ascii_lower :: "code_unit \<Rightarrow> code_unit" where
  "ascii_lower u = (if is_upper_letter u then u + 0x20 else u)"

definition is_ascii :: "js_string \<Rightarrow> bool" where
  "is_ascii s \<longleftrightarrow> list_all (\<lambda>u. u < 0x80) s"

lemma ascii_lower_letter: "is_upper_letter u \<Longrightarrow> is_lower_letter (ascii_lower u)"
  by (auto simp: ascii_lower_def is_upper_letter_def is_lower_letter_def word_le_nat_alt unat_word_ariths)

section \<open>Decimal numbers\<close>

text \<open>A non-negative integer printed by a template literal, and \<open>Number(text)\<close> of decimal digits.\<close>

definition js_nat :: "nat \<Rightarrow> js_string" where
  "js_nat n = js (to_radix 10 n)"

definition number_of :: "js_string \<Rightarrow> nat" where
  "number_of s = digits_value 10 (map (\<lambda>u. unat u - 48) s)"

lemma js_append [simp]: "js (s @ t) = js s @ js t"
  by (simp add: js_def)

lemma unat_digit [simp]: "d < 10 \<Longrightarrow> unat (48 + word_of_nat d :: code_unit) = 48 + d"
  by (simp add: unat_word_ariths unat_of_nat)

lemma js_nat_digits: "js_nat n = map (\<lambda>d. word_of_nat (48 + d)) (nat_digits 10 n)"
  by (auto simp: js_nat_def js_def to_radix_def digit_char_def of_char_of dest!: nat_digits_less [rotated])

lemma number_of_js_nat [simp]: "number_of (js_nat n) = n"
proof -
  have "map (\<lambda>u. unat u - 48) (js_nat n) = nat_digits 10 n"
    by (auto simp: js_nat_digits intro!: map_idI dest!: nat_digits_less [rotated])
  then show ?thesis by (simp add: number_of_def digits_value_nat_digits)
qed

lemma js_nat_is_digit: "u \<in> set (js_nat n) \<Longrightarrow> is_digit u"
  by (auto simp: js_nat_digits is_digit_def word_le_nat_alt dest!: nat_digits_less [rotated])

lemma js_nat_nonempty [simp]: "js_nat n \<noteq> []"
  by (simp add: js_nat_digits)

lemma js_nat_inject: "js_nat m = js_nat n \<longleftrightarrow> m = n"
  by (metis number_of_js_nat)

end
