(* ===== verification/Net_Policy.thy ===== *)
theory Net_Policy
  imports JS_String
begin

text \<open>
  The network allowlist of \<open>link/net-policy.ts\<close>: parsing of the \<open>--allow-net\<close> entries and printing of
  the table the binary is linked with. \<open>isIP\<close> of \<open>node:net\<close> and the Unicode table behind
  \<open>toLowerCase\<close> are parameters; what is used of them is named below.
\<close>

section \<open>Data\<close>

record net_rule =
  host :: js_string
  port :: "nat option"

record net_policy =
  rules :: "net_rule list"

text \<open>The errors, with the texts their messages quote.\<close>

datatype net_policy_error =
    LeadingZeros js_string
  | ScopedIPv6 js_string
  | InvalidHost js_string js_string
  | InvalidPort js_string js_string
  | InvalidBracketed js_string
  | UnbracketedIPv6 js_string
  | UnvalidatedHost js_string

text \<open>\<open>isIP\<close> answers 4, 6 or 0; \<open>toLowerCase\<close> maps a string to a string.\<close>

record net_host =
  isIP :: "js_string \<Rightarrow> nat"
  toLowerCase :: "js_string \<Rightarrow> js_string"

section \<open>Hosts and ports\<close>

definition is_ldh_alnum :: "code_unit \<Rightarrow> bool" where
  "is_ldh_alnum u \<longleftrightarrow> is_lower_letter u \<or> is_digit u"

text \<open>\<open>/^[a-z0-9](?:[a-z0-9-]{0,61}[a-z0-9])?$/\<close>\<close>

definition LABEL :: "js_string \<Rightarrow> bool" where
  "LABEL t \<longleftrightarrow> t \<noteq> [] \<and> length t \<le> 63 \<and> is_ldh_alnum (hd t) \<and> is_ldh_alnum (last t) \<and>
     list_all (\<lambda>u. is_ldh_alnum u \<or> u = 0x2D) t"

text \<open>\<open>/^[0-9]+$/\<close> and \<open>/^(?:0x[0-9a-f]*|[0-9]+)$/\<close>\<close>

definition all_digits :: "js_string \<Rightarrow> bool" where
  "all_digits t \<longleftrightarrow> t \<noteq> [] \<and> list_all is_digit t"

definition is_hex_lower :: "code_unit \<Rightarrow> bool" where
  "is_hex_lower u \<longleftrightarrow> is_digit u \<or> (0x61 \<le> u \<and> u \<le> 0x66)"

definition numeric_label :: "js_string \<Rightarrow> bool" where
  "numeric_label t \<longleftrightarrow> starts_with t (js ''0x'') \<and> list_all is_hex_lower (drop 2 t) \<or> all_digits t"

definition parseHost :: "net_host \<Rightarrow> js_string \<Rightarrow> js_string \<Rightarrow> net_policy_error + js_string" where
  "parseHost env t entry =
     (if isIP env t = 4 then
        if \<not> list_all (\<lambda>part. part = js ''0'' \<or> \<not> starts_with part (js ''0'')) (split_on 0x2E t)
        then Inl (LeadingZeros entry) else Inr t
      else if isIP env t = 6 then
        if 0x25 \<in> set t then Inl (ScopedIPv6 entry) else Inr (toLowerCase env t)
      else let h = toLowerCase env (if ends_with t (js ''.'') then butlast t else t);
               labels = split_on 0x2E h
        in if h = [] \<or> length h > 253 \<or> \<not> list_all LABEL labels \<or> all_digits (last labels) \<or>
              list_all numeric_label labels
           then Inl (InvalidHost t entry) else Inr h)"

text \<open>\<open>/^[1-9][0-9]{0,4}$/\<close>\<close>

fun port_syntax :: "js_string \<Rightarrow> bool" where
  "port_syntax [] = False"
| "port_syntax (d # ds) \<longleftrightarrow> 0x31 \<le> d \<and> d \<le> 0x39 \<and> length ds \<le> 4 \<and> list_all is_digit ds"

definition parsePort :: "js_string \<Rightarrow> js_string \<Rightarrow> net_policy_error + nat" where
  "parsePort t entry =
     (if \<not> port_syntax t \<or> number_of t > 65535 then Inl (InvalidPort t entry) else Inr (number_of t))"

section \<open>Entries and policies\<close>

definition mk_rule :: "net_policy_error + js_string \<Rightarrow> net_policy_error + nat option \<Rightarrow> net_policy_error + net_rule" where
  "mk_rule h p = (case h of Inl e \<Rightarrow> Inl e | Inr h \<Rightarrow>
     (case p of Inl e \<Rightarrow> Inl e | Inr p \<Rightarrow> Inr \<lparr>host = h, port = p\<rparr>))"

definition parseNetEntry :: "net_host \<Rightarrow> js_string \<Rightarrow> net_policy_error + net_rule" where
  "parseNetEntry env entry =
     (if starts_with entry (js ''['') then
        (case indexOf 0x5D entry of
           None \<Rightarrow> Inl (InvalidBracketed entry)
         | Some close \<Rightarrow>
             let rest = drop (close + 1) entry; address = slice 1 close entry
             in if (rest \<noteq> [] \<and> \<not> starts_with rest (js '':'')) \<or> isIP env address \<noteq> 6
                then Inl (InvalidBracketed entry)
                else mk_rule (parseHost env address entry)
                       (if rest = [] then Inr None else map_sum id Some (parsePort (drop 1 rest) entry)))
      else if isIP env entry = 6 then mk_rule (parseHost env entry entry) (Inr None)
      else
        (case lastIndexOf 0x3A entry of
           None \<Rightarrow> mk_rule (parseHost env entry entry) (Inr None)
         | Some colon \<Rightarrow>
             if indexOf 0x3A entry \<noteq> Some colon then Inl (UnbracketedIPv6 entry)
             else mk_rule (parseHost env (take colon entry) entry)
                    (map_sum id Some (parsePort (drop (colon + 1) entry) entry))))"

definition port_text :: "nat option \<Rightarrow> js_string" where
  "port_text p = (case p of None \<Rightarrow> js ''-1'' | Some n \<Rightarrow> js_nat n)"

definition rule_key :: "net_rule \<Rightarrow> js_string" where
  "rule_key r = host r @ [0] @ port_text (port r)"

text \<open>The body of the two nested loops, on the rules and keys so far, and the loops.\<close>

definition entry_turn :: "net_host \<Rightarrow> js_string \<Rightarrow> net_rule list \<times> js_string list \<Rightarrow>
    net_policy_error + net_rule list \<times> js_string list" where
  "entry_turn env raw st =
     (let entry = trim raw
      in if entry = [] then Inr st
         else case parseNetEntry env entry of
             Inl e \<Rightarrow> Inl e
           | Inr r \<Rightarrow> Inr (if rule_key r \<in> set (snd st) then st else (fst st @ [r], snd st @ [rule_key r])))"

fun entries_loop :: "net_host \<Rightarrow> js_string list \<Rightarrow> net_rule list \<times> js_string list \<Rightarrow>
    net_policy_error + net_rule list \<times> js_string list" where
  "entries_loop env [] st = Inr st"
| "entries_loop env (raw # raws) st =
     (case entry_turn env raw st of Inl e \<Rightarrow> Inl e | Inr st' \<Rightarrow> entries_loop env raws st')"

fun values_loop :: "net_host \<Rightarrow> js_string list \<Rightarrow> net_rule list \<times> js_string list \<Rightarrow>
    net_policy_error + net_rule list \<times> js_string list" where
  "values_loop env [] st = Inr st"
| "values_loop env (value # values) st =
     (case entries_loop env (split_on 0x2C value) st of Inl e \<Rightarrow> Inl e | Inr st' \<Rightarrow> values_loop env values st')"

definition parseNetPolicy :: "net_host \<Rightarrow> js_string list option \<Rightarrow> net_policy_error + net_policy option" where
  "parseNetPolicy env vs =
     (case vs of None \<Rightarrow> Inr None | Some [] \<Rightarrow> Inr None
      | Some (v # rest) \<Rightarrow> map_sum id (\<lambda>st. Some \<lparr>rules = fst st\<rparr>) (values_loop env (v # rest) ([], [])))"

section \<open>The generated table\<close>

text \<open>\<open>/^[a-z0-9.:-]+$/\<close>\<close>

definition is_host_unit :: "code_unit \<Rightarrow> bool" where
  "is_host_unit u \<longleftrightarrow> is_ldh_alnum u \<or> u = 0x2E \<or> u = 0x3A \<or> u = 0x2D"

definition safe_host :: "js_string \<Rightarrow> bool" where
  "safe_host h \<longleftrightarrow> h \<noteq> [] \<and> list_all is_host_unit h"

definition rule_line :: "net_rule \<Rightarrow> js_string" where
  "rule_line r = js ''    { \"'' @ host r @ js ''\", '' @ port_text (port r) @ js '' },''"

definition emitNetPolicyC :: "net_policy option \<Rightarrow> net_policy_error + js_string" where
  "emitNetPolicyC policy =
     (let lines = [js ''#include \"tsc_runtime.h\"'', []]
      in case policy of
          None \<Rightarrow> Inr (join_with [10] (lines @ [js ''const tsc_net_policy_t tsc_net_policy = { false, NULL, 0 };'']) @ [10])
        | Some p \<Rightarrow>
            (case find (\<lambda>r. \<not> safe_host (host r)) (rules p) of
               Some r \<Rightarrow> Inl (UnvalidatedHost (host r))
             | None \<Rightarrow> Inr (join_with [10]
                 (if rules p \<noteq> [] then
                    lines @ [js ''static const tsc_net_rule_t tsc_net_rules[] = {''] @ map rule_line (rules p) @ [js ''};''] @
                    [js ''const tsc_net_policy_t tsc_net_policy = { true, tsc_net_rules, '' @ js_nat (length (rules p)) @ js '' };'']
                  else lines @ [js ''const tsc_net_policy_t tsc_net_policy = { true, NULL, 0 };'']) @ [10])))"

section \<open>What a parsed policy holds\<close>

text \<open>The documented behaviour of \<open>isIP\<close> (dotted decimal; hexadecimal groups with colons, dots and a
  possible zone after \<open>%\<close>) and of \<open>toLowerCase\<close> on ASCII text.\<close>

definition is_hex_digit :: "code_unit \<Rightarrow> bool" where
  "is_hex_digit u \<longleftrightarrow> is_digit u \<or> is_lower_letter u \<or> is_upper_letter u"

definition isIP_documented :: "net_host \<Rightarrow> bool" where
  "isIP_documented env \<longleftrightarrow> (\<forall>t. isIP env t = 4 \<longrightarrow> t \<noteq> [] \<and> list_all (\<lambda>u. is_digit u \<or> u = 0x2E) t) \<and>
     (\<forall>t. isIP env t = 6 \<and> 0x25 \<notin> set t \<longrightarrow>
        t \<noteq> [] \<and> list_all (\<lambda>u. is_hex_digit u \<or> u = 0x3A \<or> u = 0x2E) t)"

definition toLowerCase_documented :: "net_host \<Rightarrow> bool" where
  "toLowerCase_documented env \<longleftrightarrow> (\<forall>t. is_ascii t \<longrightarrow> toLowerCase env t = map ascii_lower t)"

lemma toLowerCase_ascii:
  assumes "toLowerCase_documented env" "list_all (\<lambda>u. is_hex_digit u \<or> u = 0x3A \<or> u = 0x2E) t"
  shows "toLowerCase env t = map ascii_lower t"
proof -
  have "is_ascii t"
    using assms(2) unfolding is_ascii_def
    by (rule list.pred_mono_strong)
      (auto simp: is_hex_digit_def is_digit_def is_lower_letter_def is_upper_letter_def word_less_nat_alt word_le_nat_alt)
  with assms(1) show ?thesis by (simp add: toLowerCase_documented_def)
qed

lemma host_unit_lower: "is_hex_digit u \<or> u = 0x3A \<or> u = 0x2E \<Longrightarrow> is_host_unit (ascii_lower u)"
  using ascii_lower_letter [of u] by (auto simp: is_hex_digit_def is_host_unit_def is_ldh_alnum_def ascii_lower_def)

lemma labels_host_units:
  assumes "list_all LABEL (split_on 0x2E h)" "u \<in> set h"
  shows "is_host_unit u"
proof (cases "u = 0x2E")
  case False
  with assms(2) obtain p where "p \<in> set (split_on 0x2E h)" "u \<in> set p" by (rule split_on_cover)
  with assms(1) show ?thesis by (auto simp: list_all_iff LABEL_def is_host_unit_def)
qed (simp add: is_host_unit_def)

lemma parseHost_safe:
  assumes "isIP_documented env" "toLowerCase_documented env" "parseHost env t entry = Inr h"
  shows "safe_host h"
proof -
  consider "isIP env t = 4" "h = t" | "isIP env t = 6" "0x25 \<notin> set t" "h = toLowerCase env t"
    | "h \<noteq> []" "list_all LABEL (split_on 0x2E h)"
    using assms(3) by (auto simp: parseHost_def Let_def split: if_splits)
  then show ?thesis
  proof cases
    case 1
    with assms(1) show ?thesis
      by (auto simp: isIP_documented_def safe_host_def list_all_iff is_host_unit_def is_ldh_alnum_def)
  next
    case 2
    with assms(1) have t: "t \<noteq> []" "list_all (\<lambda>u. is_hex_digit u \<or> u = 0x3A \<or> u = 0x2E) t"
      unfolding isIP_documented_def by blast+
    then show ?thesis
      using host_unit_lower by (auto simp: 2(3) toLowerCase_ascii [OF assms(2)] safe_host_def list_all_iff)
  next
    case 3
    then show ?thesis by (auto simp: safe_host_def list_all_iff intro: labels_host_units)
  qed
qed

lemma digits_value_pos: "list_all (\<lambda>d. d < r) ds \<Longrightarrow> 0 < d \<Longrightarrow> 0 < r \<Longrightarrow> 0 < digits_value r (d # ds)"
  by (induction ds rule: rev_induct) (auto simp: digits_value_snoc simp flip: append_Cons, simp add: digits_value_def)

lemma parsePort_range:
  assumes "parsePort t entry = Inr n"
  shows "1 \<le> n \<and> n \<le> 65535"
proof -
  obtain d ds where t: "t = d # ds" "0x31 \<le> d" "list_all is_digit ds" "n = number_of t" "n \<le> 65535"
    using assms by (cases t) (auto simp: parsePort_def split: if_splits)
  moreover have "list_all (\<lambda>d. d < 10) (map (\<lambda>u. unat u - 48) ds)"
    using t(3) by (auto simp: list_all_iff is_digit_def word_le_nat_alt)
  moreover have "0 < unat d - 48" using t(2) by (simp add: word_le_nat_alt)
  ultimately have "0 < n" using digits_value_pos [of 10 "map (\<lambda>u. unat u - 48) ds" "unat d - 48"]
    by (simp add: number_of_def)
  with t show ?thesis by simp
qed

text \<open>What the table promises of a rule.\<close>

definition rule_ok :: "net_rule \<Rightarrow> bool" where
  "rule_ok r \<longleftrightarrow> safe_host (host r) \<and> (case port r of None \<Rightarrow> True | Some n \<Rightarrow> 1 \<le> n \<and> n \<le> 65535)"

lemma mk_rule_Inr: "mk_rule h p = Inr r \<longleftrightarrow> (\<exists>h' p'. h = Inr h' \<and> p = Inr p' \<and> r = \<lparr>host = h', port = p'\<rparr>)"
  by (auto simp: mk_rule_def split: sum.splits)

lemma map_sum_Inr: "map_sum f g x = Inr p \<longleftrightarrow> (\<exists>n. x = Inr n \<and> p = g n)"
  "Inr p = map_sum f g x \<longleftrightarrow> (\<exists>n. x = Inr n \<and> p = g n)"
  by (cases x; auto)+

lemma parseNetEntry_ok:
  assumes "isIP_documented env" "toLowerCase_documented env" "parseNetEntry env entry = Inr r"
  shows "rule_ok r"
proof -
  have "\<exists>t. parseHost env t entry = Inr (host r) \<and>
      (port r = None \<or> (\<exists>p n. port r = Some n \<and> parsePort p entry = Inr n))"
    using assms(3)
    by (auto simp: parseNetEntry_def Let_def mk_rule_Inr map_sum_Inr split: if_splits option.splits)
  then show ?thesis
    using parseHost_safe [OF assms(1,2)] parsePort_range by (fastforce simp: rule_ok_def)
qed

section \<open>The loops against their reference\<close>

text \<open>The entries a list of option values holds, and the rules they denote or the first error.\<close>

definition net_entries :: "js_string list \<Rightarrow> js_string list" where
  "net_entries vs = filter (\<lambda>e. e \<noteq> []) (map trim (concat (map (split_on 0x2C) vs)))"

fun parse_all :: "('a \<Rightarrow> 'e + 'b) \<Rightarrow> 'a list \<Rightarrow> 'e + 'b list" where
  "parse_all f [] = Inr []"
| "parse_all f (x # xs) = (case f x of Inl e \<Rightarrow> Inl e | Inr y \<Rightarrow> map_sum id ((#) y) (parse_all f xs))"

lemma port_text_digits: "u \<in> set (port_text p) \<Longrightarrow> is_digit u \<or> u = 0x2D"
  by (auto simp: port_text_def js_def is_digit_def split: option.splits dest: js_nat_is_digit)

lemma zero_not_in_port_text: "0 \<notin> set (port_text p)"
  using port_text_digits by (fastforce simp: is_digit_def)

lemma port_text_inject: "port_text p = port_text q \<longleftrightarrow> p = q"
proof -
  have "js_nat n \<noteq> js ''-1''" for n
    using js_nat_is_digit [of "0x2D" n] by (auto simp: js_def is_digit_def)
  then show ?thesis by (auto simp: port_text_def js_nat_inject split: option.splits dest: sym)
qed

lemma append_separator_eq:
  assumes "c \<notin> set s" "c \<notin> set t" "x @ c # s = y @ c # t"
  shows "x = y \<and> s = t"
proof -
  have "length x = length y"
    using lastIndexOf_append [OF assms(1), of x] lastIndexOf_append [OF assms(2), of y] assms(3) by simp
  with assms(3) show ?thesis by simp
qed

text \<open>The key of a rule identifies it.\<close>

lemma rule_key_inject: "rule_key r = rule_key r' \<longleftrightarrow> r = r'"
  using append_separator_eq [of 0 "port_text (port r)" "port_text (port r')" "host r" "host r'"]
  by (auto simp: rule_key_def port_text_inject zero_not_in_port_text)

lemma entries_loop_append:
  "entries_loop env (xs @ ys) st =
     (case entries_loop env xs st of Inl e \<Rightarrow> Inl e | Inr st' \<Rightarrow> entries_loop env ys st')"
  by (induction xs arbitrary: st) (auto split: sum.splits)

lemma values_loop_entries: "values_loop env vs st = entries_loop env (concat (map (split_on 0x2C) vs)) st"
  by (induction vs arbitrary: st) (auto simp: entries_loop_append split: sum.splits)

lemma entries_loop_reference:
  "entries_loop env raws (rs, map rule_key rs) =
     map_sum id (\<lambda>new. let all = set_add_all rs new in (all, map rule_key all))
       (parse_all (parseNetEntry env) (filter (\<lambda>e. e \<noteq> []) (map trim raws)))"
proof (induction raws arbitrary: rs)
  case (Cons raw raws)
  show ?case
  proof (cases "trim raw = []")
    case True
    with Cons show ?thesis by (simp add: entry_turn_def)
  next
    case False
    show ?thesis
    proof (cases "parseNetEntry env (trim raw)")
      case (Inr r)
      have mem: "rule_key r \<in> rule_key ` set rs \<longleftrightarrow> r \<in> set rs" by (auto simp: rule_key_inject)
      show ?thesis
        using Cons [of rs] Cons [of "rs @ [r]"] False Inr mem
        by (simp add: entry_turn_def sum.map_comp comp_def)
    qed (use False in \<open>simp add: entry_turn_def\<close>)
  qed
qed (simp add: Let_def)

text \<open>The nested loops of \<open>parseNetPolicy\<close> compute the first occurrences, in order, of the rules of all
  non-blank entries of all option values, or the error of the first invalid entry; no option value at
  all means no policy, and blank values a policy without rules.\<close>

theorem parseNetPolicy_reference:
  "parseNetPolicy env vs =
     (if vs = None \<or> vs = Some [] then Inr None
      else map_sum id (\<lambda>rs. Some \<lparr>rules = set_add_all [] rs\<rparr>) (parse_all (parseNetEntry env) (net_entries (the vs))))"
  using entries_loop_reference [of env "concat (map (split_on 0x2C) (the vs))" "[]"]
  by (auto simp: parseNetPolicy_def net_entries_def values_loop_entries sum.map_comp comp_def id_def Let_def
      split: option.splits list.splits)

lemma parse_all_Inr: "parse_all f xs = Inr ys \<Longrightarrow> \<forall>y\<in>set ys. \<exists>x\<in>set xs. f x = Inr y"
proof (induction xs arbitrary: ys)
  case (Cons x xs)
  then show ?case by (cases "parse_all f xs") (auto split: sum.splits)
qed simp

lemma values_loop_Inr:
  assumes "values_loop env vs ([], []) = Inr st"
  shows "distinct (fst st) \<and> (\<forall>r\<in>set (fst st). \<exists>entry. parseNetEntry env entry = Inr r)"
proof -
  obtain new where "parse_all (parseNetEntry env) (net_entries vs) = Inr new" "fst st = set_add_all [] new"
    using assms entries_loop_reference [of env "concat (map (split_on 0x2C) vs)" "[]"]
    by (auto simp: values_loop_entries net_entries_def Let_def map_sum_Inr)
  then show ?thesis using parse_all_Inr by (fastforce intro: set_add_all_distinct)
qed

lemma emitNetPolicyC_safe: "(\<And>r. r \<in> set (rules p) \<Longrightarrow> safe_host (host r)) \<Longrightarrow> \<exists>t. emitNetPolicyC (Some p) = Inr t"
  by (auto simp: emitNetPolicyC_def Let_def find_Some_iff split: option.splits)

text \<open>C17 With the documented behaviour of \<open>isIP\<close> and \<open>toLowerCase\<close>, every rule of a parsed policy has a
  non-empty host over \<open>[a-z0-9.:-]\<close> and a port between 1 and 65535 if any, no rule occurs twice, and the
  table of the policy is generated without an error.\<close>

theorem parseNetPolicy_safe:
  assumes "isIP_documented env" "toLowerCase_documented env" "parseNetPolicy env vs = Inr (Some p)"
  shows "list_all rule_ok (rules p) \<and> distinct (rules p) \<and> (\<exists>t. emitNetPolicyC (Some p) = Inr t)"
proof -
  obtain us st where "values_loop env us ([], []) = Inr st" "rules p = fst st"
    using assms(3) by (auto simp: parseNetPolicy_def map_sum_Inr simp del: values_loop.simps split: option.splits list.splits)
  then have r: "distinct (rules p)" "\<And>r. r \<in> set (rules p) \<Longrightarrow> rule_ok r"
    using values_loop_Inr parseNetEntry_ok [OF assms(1,2)] by metis+
  moreover have "\<exists>t. emitNetPolicyC (Some p) = Inr t"
    by (rule emitNetPolicyC_safe) (use r(2) in \<open>auto simp: rule_ok_def\<close>)
  ultimately show ?thesis by (simp add: list_all_iff)
qed

definition example_env :: net_host where
  "example_env = \<lparr>isIP = (\<lambda>t. if t = js ''127.0.0.1'' then 4 else if t = js ''FE80::1'' then 6 else 0),
     toLowerCase = map ascii_lower\<rparr>"

definition example_values :: "js_string list" where
  "example_values = [js '' Example.org:443, 127.0.0.1'', js ''[FE80::1]:80,example.org.:443,'']"

lemmas parse_eval = parseNetPolicy_def example_env_def example_values_def js_def parseNetEntry_def trim_def is_js_space_def
  entry_turn_def Let_def parseHost_def parsePort_def number_of_def digits_value_def starts_with_def ends_with_def slice_def
  LABEL_def is_ldh_alnum_def is_lower_letter_def is_digit_def numeric_label_def all_digits_def is_hex_lower_def mk_rule_def
  rule_key_def port_text_def ascii_lower_def is_upper_letter_def js_nat_def

definition example_policy :: net_policy where
  "example_policy = \<lparr>rules =
     [\<lparr>host = js ''example.org'', port = Some 443\<rparr>, \<lparr>host = js ''127.0.0.1'', port = None\<rparr>,
      \<lparr>host = js ''fe80::1'', port = Some 80\<rparr>]\<rparr>"

theorem parseNetPolicy_safe_witness:
  "parseNetPolicy example_env (Some example_values) = Inr (Some example_policy) \<and>
   list_all rule_ok (rules example_policy) \<and> distinct (rules example_policy)"
proof -
  have ip: "isIP_documented example_env"
    unfolding isIP_documented_def example_env_def
    by (auto simp: js_def is_digit_def is_hex_digit_def is_lower_letter_def is_upper_letter_def)
  have lower: "toLowerCase_documented example_env"
    by (simp add: toLowerCase_documented_def example_env_def)
  have "parseNetPolicy example_env (Some example_values) = Inr (Some example_policy)"
    by (simp add: parse_eval example_policy_def)
  with parseNetPolicy_safe [OF ip lower this] show ?thesis by blast
qed

section \<open>Reading the table back\<close>

text \<open>What a C compiler finds in the generated file: the fields of the rule table, line by line.\<close>

definition read_rule :: "js_string \<Rightarrow> net_rule option" where
  "read_rule l =
     (let start = js ''    { \"''; body = drop (length start) l;
          h = takeWhile (\<lambda>u. u \<noteq> 0x22) body; rest = drop (length h + 3) body; p = take (length rest - 3) rest
      in if l = start @ h @ js ''\", '' @ p @ js '' },''
         then Some \<lparr>host = h, port = (if p = js ''-1'' then None else Some (number_of p))\<rparr> else None)"

definition read_policy :: "js_string \<Rightarrow> net_policy option option" where
  "read_policy t =
     (let l = split_on 10 t ! 2; ls = takeWhile (\<lambda>l. l \<noteq> js ''};'') (drop 3 (split_on 10 t))
      in if l = js ''const tsc_net_policy_t tsc_net_policy = { false, NULL, 0 };'' then Some None
         else if l = js ''const tsc_net_policy_t tsc_net_policy = { true, NULL, 0 };'' then Some (Some \<lparr>rules = []\<rparr>)
         else if list_all (\<lambda>l. read_rule l \<noteq> None) ls then Some (Some \<lparr>rules = map (the \<circ> read_rule) ls\<rparr>) else None)"

lemma safe_host_units: "safe_host h \<Longrightarrow> u \<in> set h \<Longrightarrow> u \<noteq> 0x22 \<and> u \<noteq> 10"
  by (auto simp: safe_host_def list_all_iff is_host_unit_def is_ldh_alnum_def is_digit_def is_lower_letter_def)

lemma read_rule_line: 
  assumes "safe_host (host r)"
  shows "read_rule (rule_line r) = Some r"
proof -
  have body: "takeWhile (\<lambda>u. u \<noteq> 0x22) (host r @ js ''\", '' @ s) = host r" for s
    using safe_host_units [OF assms] by (subst takeWhile_append2) (auto simp: js_def)
  have n: "(if port_text p = js ''-1'' then None else Some (number_of (port_text p))) = p" for p
    using port_text_inject [of p None] by (auto simp: port_text_def split: option.splits)
  have drop_start: "drop (length p) (p @ s) = s" for p s :: js_string by simp
  have rest: "drop (length (host r) + 3) (host r @ js ''\", '' @ s) = s" for s
    by (simp add: js_def)
  have number: "take (length (q @ js '' },'') - 3) (q @ js '' },'') = q" for q
    by (simp add: js_def)
  have "read_rule (rule_line r) =
      Some \<lparr>host = host r, port = (if port_text (port r) = js ''-1'' then None else Some (number_of (port_text (port r))))\<rparr>"
    unfolding read_rule_def rule_line_def Let_def drop_start
    by (simp only: body rest number if_True refl)
  then show ?thesis using n [of "port r"] by simp
qed

lemma newline_free: "safe_host (host r) \<Longrightarrow> 10 \<notin> set (rule_line r)"
  using safe_host_units port_text_digits [of 10 "port r"] by (auto simp: rule_line_def js_def is_digit_def)

lemma rule_line_not_end: "rule_line r \<noteq> js ''};''"
  by (simp add: rule_line_def js_def)

lemma join_with_last: "ps \<noteq> [] \<Longrightarrow> join_with sep ps @ sep = join_with sep (ps @ [[]])"
  by (induction ps rule: induct_list012) auto

lemma read_table:
  assumes "rules p \<noteq> []" "\<And>r. r \<in> set (rules p) \<Longrightarrow> safe_host (host r)"
  shows "\<exists>t. emitNetPolicyC (Some p) = Inr t \<and> read_policy t = Some (Some p)"
proof -
  have none: "find (\<lambda>r. \<not> safe_host (host r)) (rules p) = None" using assms(2) by (auto simp: find_None_iff)
  define head_lines where "head_lines = [js ''#include \"tsc_runtime.h\"'', [], js ''static const tsc_net_rule_t tsc_net_rules[] = {'']"
  define tail_lines where "tail_lines = [js ''};'',
    js ''const tsc_net_policy_t tsc_net_policy = { true, tsc_net_rules, '' @ js_nat (length (rules p)) @ js '' };'', []]"
  have emit: "emitNetPolicyC (Some p) = Inr (join_with [10] (head_lines @ map rule_line (rules p) @ tail_lines))"
    using none assms(1) by (simp add: emitNetPolicyC_def Let_def head_lines_def tail_lines_def join_with_last)
  have "10 \<notin> set l" if "l \<in> set (head_lines @ map rule_line (rules p) @ tail_lines)" for l
    using that newline_free assms(2) js_nat_is_digit [of 10 "length (rules p)"]
    by (auto simp: head_lines_def tail_lines_def js_def is_digit_def)
  then have split: "split_on 10 (join_with [10] (head_lines @ map rule_line (rules p) @ tail_lines)) =
      head_lines @ map rule_line (rules p) @ tail_lines"
    by (intro split_join) (simp_all add: head_lines_def)
  have first_line: "js ''static const tsc_net_rule_t tsc_net_rules[] = {'' \<noteq> js ''const tsc_net_policy_t tsc_net_policy = { false, NULL, 0 };''"
      "js ''static const tsc_net_rule_t tsc_net_rules[] = {'' \<noteq> js ''const tsc_net_policy_t tsc_net_policy = { true, NULL, 0 };''"
    by (simp_all add: js_def)
  have table: "takeWhile (\<lambda>l. l \<noteq> js ''};'') (map rule_line (rules p) @ tail_lines) = map rule_line (rules p)"
    using rule_line_not_end by (subst takeWhile_append2) (auto simp: tail_lines_def)
  have "map (the \<circ> read_rule) (map rule_line (rules p)) = rules p"
    using assms(2) by (auto simp: read_rule_line intro!: map_idI)
  moreover have "list_all (\<lambda>l. read_rule l \<noteq> None) (map rule_line (rules p))"
    using assms(2) by (auto simp: list_all_iff read_rule_line)
  ultimately have "read_policy (join_with [10] (head_lines @ map rule_line (rules p) @ tail_lines)) = Some (Some p)"
    unfolding read_policy_def split Let_def by (simp add: head_lines_def table first_line)
  then show ?thesis by (simp add: emit)
qed


end
