(* ===== verification/Module_Request.thy ===== *)
theory Module_Request
  imports JS_String TS_Ast "HOL-Library.List_Lexorder" "HOL-Library.Product_Lexorder" "HOL-Library.Multiset"
begin

text \<open>
  Module requests, after \<open>module-request.ts\<close>: the records of the static import and export edges, their
  order-independent identity through \<open>JSON.stringify\<close>, the accumulation of the requests of a module,
  the host's resolution check, and the search for the dynamic \<open>import()\<close> calls of a tree. Strings are
  ordered by code units (\<open><\<close> of JavaScript), \<open>Array.prototype.sort\<close> is stable.
\<close>

section \<open>JSON.stringify\<close>

text \<open>\<open>QuoteJSONString\<close> of ECMA-262: named escapes, \<open>\u\<close> escapes of control characters and of isolated
  surrogates, everything else as it is.\<close>

definition unicode_escape :: "code_unit \<Rightarrow> js_string" where
  "unicode_escape u = [0x5C, 0x75] @ js (pad_start 4 (digit_char 0) (to_radix 16 (unat u)))"

definition named_escapes :: "(code_unit \<times> code_unit) list" where
  "named_escapes = [(0x22, 0x22), (0x5C, 0x5C), (0x08, 0x62), (0x0C, 0x66), (0x0A, 0x6E), (0x0D, 0x72), (0x09, 0x74)]"

definition is_high_surrogate :: "code_unit \<Rightarrow> bool" where
  "is_high_surrogate u \<longleftrightarrow> 0xD800 \<le> u \<and> u \<le> 0xDBFF"

definition is_low_surrogate :: "code_unit \<Rightarrow> bool" where
  "is_low_surrogate u \<longleftrightarrow> 0xDC00 \<le> u \<and> u \<le> 0xDFFF"

definition json_unit :: "code_unit \<Rightarrow> js_string" where
  "json_unit u = (case map_of named_escapes u of
       Some e \<Rightarrow> [0x5C, e]
     | None \<Rightarrow> if u < 0x20 \<or> is_high_surrogate u \<or> is_low_surrogate u then unicode_escape u else [u])"

fun json_units :: "js_string \<Rightarrow> js_string" where
  "json_units [] = []"
| "json_units [u] = json_unit u"
| "json_units (u # v # s) =
     (if is_high_surrogate u \<and> is_low_surrogate v then u # v # json_units s else json_unit u @ json_units (v # s))"

definition json_string :: "js_string \<Rightarrow> js_string" where
  "json_string s = [0x22] @ json_units s @ [0x22]"

definition json_array :: "js_string list \<Rightarrow> js_string" where
  "json_array ps = [0x5B] @ join_with [0x2C] ps @ [0x5D]"

section \<open>Records\<close>

record import_attribute =
  attribute_key :: js_string
  attribute_value :: js_string

record module_request =
  specifier :: js_string
  attributes :: "import_attribute list"

type_synonym module_request_parse_result = "js_string + module_request"

text \<open>What the code reads of a static import or export declaration: the text of the module specifier
  when there is one and it is a string literal, and the attributes clause with its keyword, the decoded
  key of each element and the text of its value when that is a string literal.\<close>

record attribute_element =
  element_name :: js_string
  element_literal :: "js_string option"

record attributes_clause =
  with_keyword :: bool
  clause_elements :: "attribute_element list"

record static_declaration =
  specifier_text :: "js_string option"
  attributes_of :: "attributes_clause option"

section \<open>Requests of static declarations\<close>

fun attributes_loop :: "attribute_element list \<Rightarrow> js_string list \<Rightarrow> import_attribute list \<Rightarrow> js_string + import_attribute list" where
  "attributes_loop [] keys acc = Inr acc"
| "attributes_loop (e # es) keys acc =
     (case element_literal e of
        None \<Rightarrow> Inl (js ''import attribute '' @ json_string (element_name e) @ js '' must have a string literal value'')
      | Some v \<Rightarrow>
          if element_name e \<in> set keys then Inl (js ''duplicate import attribute key '' @ json_string (element_name e))
          else attributes_loop es (keys @ [element_name e]) (acc @ [\<lparr>attribute_key = element_name e, attribute_value = v\<rparr>]))"

definition moduleRequestFromDeclaration :: "static_declaration \<Rightarrow> module_request_parse_result option" where
  "moduleRequestFromDeclaration d =
     (case specifier_text d of
        None \<Rightarrow> None
      | Some t \<Rightarrow> Some (case attributes_of d of
            None \<Rightarrow> Inr \<lparr>specifier = t, attributes = []\<rparr>
          | Some clause \<Rightarrow>
              if \<not> with_keyword clause
              then Inl (js ''legacy import assertions are not valid ECMAScript 2026 import attributes'')
              else map_sum id (\<lambda>as. \<lparr>specifier = t, attributes = sort_key attribute_key as\<rparr>)
                     (attributes_loop (clause_elements clause) [] [])))"

section \<open>Identity of requests\<close>

definition attribute_pair :: "import_attribute \<Rightarrow> js_string \<times> js_string" where
  "attribute_pair a = (attribute_key a, attribute_value a)"

definition moduleRequestKey :: "module_request \<Rightarrow> js_string" where
  "moduleRequestKey r =
     json_array [json_string (specifier r),
       json_array (map (\<lambda>a. json_array [json_string (attribute_key a), json_string (attribute_value a)])
         (sort_key attribute_pair (attributes r)))]"

definition moduleRequestsEqual :: "module_request \<Rightarrow> module_request \<Rightarrow> bool" where
  "moduleRequestsEqual left right \<longleftrightarrow> moduleRequestKey left = moduleRequestKey right"

fun unique_loop :: "module_request list \<Rightarrow> (js_string \<times> module_request) list \<Rightarrow> (js_string \<times> module_request) list" where
  "unique_loop [] unique = unique"
| "unique_loop (r # rs) unique =
     unique_loop rs (if moduleRequestKey r \<in> set (map fst unique) then unique else unique @ [(moduleRequestKey r, r)])"

definition uniqueModuleRequests :: "module_request list \<Rightarrow> module_request list" where
  "uniqueModuleRequests rs = map snd (unique_loop rs [])"

section \<open>Host resolution\<close>

text \<open>\<open>/\.json$/i\<close>: without the \<open>u\<close> flag only ASCII letters match ASCII letters.\<close>

definition is_json_file :: "js_string \<Rightarrow> bool" where
  "is_json_file f \<longleftrightarrow> ends_with (map ascii_lower f) (js ''.json'')"

definition request_type :: "module_request \<Rightarrow> js_string option" where
  "request_type r = map_option attribute_value (find (\<lambda>a. attribute_key a = js ''type'') (attributes r))"

definition staticModuleRequestResolutionError :: "module_request \<Rightarrow> js_string \<Rightarrow> js_string option" where
  "staticModuleRequestResolutionError r resolvedFileName =
     (case find (\<lambda>a. attribute_key a \<noteq> js ''type'') (attributes r) of
        Some a \<Rightarrow> Some (js ''unsupported import attribute '' @ json_string (attribute_key a))
      | None \<Rightarrow>
          let type = request_type r; json = is_json_file resolvedFileName
          in if json \<and> type \<noteq> Some (js ''json'') then Some (js ''JSON modules require import attribute type \"json\"'')
             else if \<not> json \<and> type \<noteq> None \<and> type \<noteq> Some (js ''javascript'')
             then Some (js ''import attribute type '' @ json_string (the type) @ js '' does not match an ECMAScript Module'')
             else None)"

section \<open>Dynamic imports\<close>

definition is_import_call :: "node \<Rightarrow> bool" where
  "is_import_call n \<longleftrightarrow> is_expr CallExpression n \<and> node_kind (field n ''expression'') = ImportKeyword"

text \<open>The worklist is a stack: the last child of a node is visited first.\<close>

function import_calls_loop :: "node list \<Rightarrow> node list \<Rightarrow> node list" where
  "import_calls_loop [] calls = calls"
| "import_calls_loop (n # stack) calls =
     import_calls_loop (rev (forEachChild n) @ stack) (if is_import_call n then calls @ [n] else calls)"
  by pat_completeness auto

termination
  by (relation "measure (\<lambda>(stack, _). sum_list (map size stack))")
    (auto simp: rev_map [symmetric] sum_list_rev forEachChild_sum)

definition dynamicImportCalls :: "node \<Rightarrow> node list" where
  "dynamicImportCalls root = import_calls_loop [root] []"

text \<open>The proof of the possible texts of an expression (\<open>sourceFileExpressionTexts\<close>) is an argument.\<close>

definition dynamicImportSpecifiersFromCall ::
    "(node \<Rightarrow> js_string list option) \<Rightarrow> node \<Rightarrow> (js_string + js_string list) option" where
  "dynamicImportSpecifiersFromCall expression_texts call =
     (if node_kind (field call ''expression'') \<noteq> ImportKeyword then None
      else Some (case children call ''arguments'' of
          [] \<Rightarrow> Inl (js ''dynamic import requires a module specifier'')
        | a # _ \<Rightarrow> (case expression_texts a of
              None \<Rightarrow> Inl (js ''dynamic import needs a finite AOT specifier proof'')
            | Some texts \<Rightarrow> Inr texts)))"

section \<open>Reading JSON strings back\<close>

definition hex_unit :: "js_string \<Rightarrow> code_unit" where
  "hex_unit ds = word_of_nat (digits_value 16 (map (\<lambda>u. char_digit (char_of (unat u))) ds))"

definition named_unescape :: "code_unit \<Rightarrow> code_unit option" where
  "named_unescape e = map_of (map prod.swap named_escapes) e"

function read_units :: "js_string \<Rightarrow> (js_string \<times> js_string) option" where
  "read_units [] = None"
| "read_units (c # s) =
     (if c = 0x22 then Some ([], s)
      else if c = 0x5C then
        (case s of [] \<Rightarrow> None
         | e # r \<Rightarrow>
             if e = 0x75 then map_option (apfst ((#) (hex_unit (take 4 r)))) (read_units (drop 4 r))
             else (case named_unescape e of None \<Rightarrow> None
                   | Some u \<Rightarrow> map_option (apfst ((#) u)) (read_units r)))
      else map_option (apfst ((#) c)) (read_units s))"
  by pat_completeness auto
termination
  by (relation "measure length") auto

definition read_json_string :: "js_string \<Rightarrow> (js_string \<times> js_string) option" where
  "read_json_string s = (case s of [] \<Rightarrow> None | c # r \<Rightarrow> if c = 0x22 then read_units r else None)"

lemma char_of_js: "char_of (unat (word_of_nat (of_char c) :: code_unit)) = c"
proof -
  have "(of_char c :: nat) < 256" by (metis char_of_char mod_less_divisor of_char_of zero_less_numeral)
  then have "(of_char c :: nat) mod 65536 = of_char c" by (intro mod_less) linarith
  then show ?thesis by (simp add: unat_of_nat)
qed

lemma hex_unit_escape: "hex_unit (js (pad_start 4 (digit_char 0) (to_radix 16 (unat u)))) = u"
proof -
  have "map (\<lambda>u. char_digit (char_of (unat u))) (js t) = map char_digit t" for t
    by (simp add: js_def char_of_js)
  then show ?thesis by (simp add: hex_unit_def pad_start_inverse)
qed

lemma read_unicode_escape: "read_units (unicode_escape u @ s) = map_option (apfst ((#) u)) (read_units s)"
proof -
  have "length (pad_start 4 (digit_char 0) (to_radix 16 (unat u))) = 4"
    using pad_start_width [of 16 "unat u" 4] by simp
  then have "take 4 (js (pad_start 4 (digit_char 0) (to_radix 16 (unat u))) @ s) = js (pad_start 4 (digit_char 0) (to_radix 16 (unat u)))"
      "drop 4 (js (pad_start 4 (digit_char 0) (to_radix 16 (unat u))) @ s) = s"
    by (simp_all add: js_def)
  then show ?thesis by (simp add: unicode_escape_def hex_unit_escape)
qed

lemma read_named_escape: "map_of named_escapes u = Some e \<Longrightarrow> e \<noteq> 0x75 \<and> named_unescape e = Some u"
  by (auto simp: named_escapes_def named_unescape_def split: if_splits)

lemma read_json_unit: "read_units (json_unit u @ s) = map_option (apfst ((#) u)) (read_units s)"
proof (cases "map_of named_escapes u")
  case None
  then have "u \<noteq> 0x22" "u \<noteq> 0x5C" by (auto simp: named_escapes_def)
  with None show ?thesis by (simp add: json_unit_def read_unicode_escape)
next
  case (Some e)
  with read_named_escape [OF Some] show ?thesis by (simp add: json_unit_def)
qed

lemma read_json_units: "read_units (json_units s @ 0x22 # r) = Some (s, r)"
proof (induction s rule: json_units.induct)
  case (3 u v s)
  show ?case
  proof (cases "is_high_surrogate u \<and> is_low_surrogate v")
    case True
    then have "u \<noteq> 0x22" "u \<noteq> 0x5C" "v \<noteq> 0x22" "v \<noteq> 0x5C"
      by (auto simp: is_high_surrogate_def is_low_surrogate_def)
    with True 3(1) show ?thesis by simp
  next
    case False
    with 3(2) show ?thesis by (auto simp: read_json_unit simp del: json_units.simps(2))
  qed
qed (simp_all add: read_json_unit)

definition json_pair :: "js_string \<times> js_string \<Rightarrow> js_string" where
  "json_pair p = json_array [json_string (fst p), json_string (snd p)]"

definition read_pair :: "js_string \<Rightarrow> ((js_string \<times> js_string) \<times> js_string) option" where
  "read_pair s = (case read_json_string (drop 1 s) of None \<Rightarrow> None
     | Some (k, t) \<Rightarrow> (case read_json_string (drop 1 t) of None \<Rightarrow> None | Some (v, r) \<Rightarrow> Some ((k, v), drop 1 r)))"

interpretation json_string_code: prefix_code "\<lambda>_. True" json_string read_json_string
  by unfold_locales (simp_all add: json_string_def read_json_string_def read_json_units)

interpretation json_pair_code: prefix_code "\<lambda>_. True" json_pair read_pair
  by unfold_locales
    (simp_all add: json_pair_def json_array_def read_pair_def json_string_code.rd_enc [simplified])

lemma map_sort_key: "map f (sort_key f xs) = sort (map f xs)"
  by (rule properties_for_sort [symmetric]) (simp_all add: mset_map)

lemma sort_eq_iff: "sort xs = sort ys \<longleftrightarrow> mset xs = mset ys"
  by (metis mset_sort properties_for_sort sorted_sort)

lemma moduleRequestKey_alt:
  "moduleRequestKey r = [0x5B] @ json_string (specifier r) @
     [0x2C, 0x5B] @ join_with [0x2C] (map json_pair (sort (map attribute_pair (attributes r)))) @ 0x5D # [0x5D]"
proof -
  have "(\<lambda>a. json_array [json_string (attribute_key a), json_string (attribute_value a)]) = json_pair \<circ> attribute_pair"
    by (simp add: fun_eq_iff json_pair_def attribute_pair_def)
  then show ?thesis
    by (simp add: moduleRequestKey_def json_array_def map_sort_key [symmetric] flip: map_map)
qed

lemma moduleRequestKey_inject:
  "moduleRequestKey r = moduleRequestKey r' \<longleftrightarrow>
     specifier r = specifier r' \<and> mset (map attribute_pair (attributes r)) = mset (map attribute_pair (attributes r'))"
proof -
  have pairs: "join_with [0x2C] (map json_pair as) = join_with [0x2C] (map json_pair bs) \<longleftrightarrow> as = bs"
    for as bs
    using json_pair_code.join_enc_inject [of as bs "0x2C" "0x5D" "[0x5D]" "[0x5D]"]
    by (auto simp: json_pair_def json_array_def list_all_iff)
  have "json_string s @ x = json_string t @ y \<longleftrightarrow> s = t \<and> x = y" for s t x y
    by (metis Pair_inject json_string_code.rd_enc option.inject)
  then show ?thesis unfolding moduleRequestKey_alt append_assoc by (simp add: pairs sort_eq_iff)
qed


text \<open>C16 The key of a module request identifies it up to the order of its attributes: two requests have
  the same key, and are equal for \<open>moduleRequestsEqual\<close>, exactly when they have the same specifier and the
  same attributes with the same multiplicities, whatever characters the strings contain.\<close>

theorem moduleRequestKey_identity:
  "moduleRequestsEqual r r' \<longleftrightarrow>
     specifier r = specifier r' \<and> mset (map attribute_pair (attributes r)) = mset (map attribute_pair (attributes r'))"
  by (simp add: moduleRequestsEqual_def moduleRequestKey_inject del: mset_map)

section \<open>Accumulation\<close>

text \<open>The abstract list accumulation of ECMA-262: append a request unless an equal one is there.\<close>

definition add_request :: "module_request \<Rightarrow> module_request list \<Rightarrow> module_request list" where
  "add_request r rs = (if list_ex (moduleRequestsEqual r) rs then rs else rs @ [r])"

lemma unique_loop_refines:
  assumes "map fst unique = map (moduleRequestKey \<circ> snd) unique"
  shows "map snd (unique_loop rs unique) = fold add_request rs (map snd unique)"
  using assms
proof (induction rs arbitrary: unique)
  case (Cons r rs)
  have "moduleRequestKey r \<in> set (map fst unique) \<longleftrightarrow> list_ex (moduleRequestsEqual r) (map snd unique)"
    by (auto simp: Cons.prems list_ex_iff moduleRequestsEqual_def)
  with Cons.prems show ?case
    by (simp add: Cons.IH add_request_def)
qed simp

lemma fold_add_request:
  assumes "sorted_wrt (\<lambda>a b. \<not> moduleRequestsEqual a b) us"
  shows "sorted_wrt (\<lambda>a b. \<not> moduleRequestsEqual a b) (fold add_request rs us)"
    and "set us \<subseteq> set (fold add_request rs us)" and "set (fold add_request rs us) \<subseteq> set us \<union> set rs"
    and "\<forall>r\<in>set us \<union> set rs. list_ex (moduleRequestsEqual r) (fold add_request rs us)"
  using assms
proof (induction rs arbitrary: us)
  case Nil
  {
    case 4 then show ?case by (auto simp: list_ex_iff moduleRequestsEqual_def)
  }
next
  case (Cons r rs)
  have "sorted_wrt (\<lambda>a b. \<not> moduleRequestsEqual a b) us \<Longrightarrow>
      sorted_wrt (\<lambda>a b. \<not> moduleRequestsEqual a b) (add_request r us)" for us :: "module_request list"
    by (auto simp: add_request_def sorted_wrt_append list_ex_iff moduleRequestsEqual_def)
  note IH = Cons.IH [OF this]
  {
    case 1 then show ?case using IH(1) by simp
  next
    case 2 then show ?case using IH(2) by (force simp: add_request_def)
  next
    case 3 then show ?case using IH(3) by (force simp: add_request_def split: if_splits)
  next
    case 4
    have "list_ex (moduleRequestsEqual r) (fold add_request rs (add_request r us))"
    proof -
      have "list_ex (moduleRequestsEqual r) (add_request r us)"
        by (simp add: add_request_def moduleRequestsEqual_def)
      with IH(2) [OF 4] show ?thesis by (auto simp: list_ex_iff)
    qed
    moreover have "set us \<subseteq> set (add_request r us)" by (auto simp: add_request_def)
    ultimately show ?case using IH(4) [OF 4] by auto
  }
qed simp_all

text \<open>C33 The map-backed loop of \<open>uniqueModuleRequests\<close> refines the list accumulation of ECMA-262: it adds the
  requests one by one, in source order, unless an equal one is there. So the result holds only given
  requests, no two of them equal, and for each given request an equal one.\<close>

theorem uniqueModuleRequests_refines:
  "uniqueModuleRequests rs = fold add_request rs [] \<and>
   sorted_wrt (\<lambda>a b. \<not> moduleRequestsEqual a b) (uniqueModuleRequests rs) \<and>
   set (uniqueModuleRequests rs) \<subseteq> set rs \<and>
   list_all (\<lambda>r. list_ex (moduleRequestsEqual r) (uniqueModuleRequests rs)) rs"
proof -
  have "uniqueModuleRequests rs = fold add_request rs []"
    using unique_loop_refines [of "[]" rs] by (simp add: uniqueModuleRequests_def)
  then show ?thesis using fold_add_request [of "[]" rs] by (auto simp: list_all_iff)
qed


section \<open>Requests of declarations\<close>

text \<open>What an attributes clause may be: every value a string literal, every key at most once.\<close>

definition elements_ok :: "attribute_element list \<Rightarrow> bool" where
  "elements_ok es \<longleftrightarrow> list_all (\<lambda>e. element_literal e \<noteq> None) es \<and> distinct (map element_name es)"

definition element_attribute :: "attribute_element \<Rightarrow> import_attribute" where
  "element_attribute e = \<lparr>attribute_key = element_name e, attribute_value = the (element_literal e)\<rparr>"

lemma attributes_loop_ok:
  "elements_ok es \<Longrightarrow> set (map element_name es) \<inter> set keys = {} \<Longrightarrow>
   attributes_loop es keys acc = Inr (acc @ map element_attribute es)"
proof (induction es arbitrary: keys acc)
  case (Cons e es)
  then show ?case by (auto simp: elements_ok_def element_attribute_def Cons.IH)
qed simp

lemma attributes_loop_error:
  "\<not> (elements_ok es \<and> set (map element_name es) \<inter> set keys = {}) \<Longrightarrow> \<exists>m. attributes_loop es keys acc = Inl m"
proof (induction es arbitrary: keys acc)
  case (Cons e es)
  show ?case
  proof (cases "element_literal e = None \<or> element_name e \<in> set keys")
    case False
    then have "\<not> (elements_ok es \<and> set (map element_name es) \<inter> set (keys @ [element_name e]) = {})"
      using Cons.prems by (auto simp: elements_ok_def)
    with Cons.IH False show ?thesis by (cases "element_literal e") auto
  qed (cases "element_literal e"; auto)
qed (simp add: elements_ok_def)

text \<open>A static declaration gives a request exactly when its specifier is a string literal and its clause, if
  any, uses \<open>with\<close>, has only string literals as values and no key twice; the request then has the
  specifier and the attributes of the clause, sorted by key. Everything else is an error, or no request
  at all when there is no literal specifier.\<close>

theorem moduleRequestFromDeclaration_spec:
  "case specifier_text d of
     None \<Rightarrow> moduleRequestFromDeclaration d = None
   | Some t \<Rightarrow>
       let es = (case attributes_of d of None \<Rightarrow> [] | Some clause \<Rightarrow> clause_elements clause)
       in if elements_ok es \<and> (case attributes_of d of None \<Rightarrow> True | Some clause \<Rightarrow> with_keyword clause)
          then moduleRequestFromDeclaration d =
            Some (Inr \<lparr>specifier = t, attributes = sort_key attribute_key (map element_attribute es)\<rparr>)
          else \<exists>message. moduleRequestFromDeclaration d = Some (Inl message)"
proof (cases "\<exists>t clause. specifier_text d = Some t \<and> attributes_of d = Some clause \<and> with_keyword clause")
  case True
  then obtain t clause where d: "specifier_text d = Some t" "attributes_of d = Some clause" "with_keyword clause" by blast
  then show ?thesis
    using attributes_loop_ok [of "clause_elements clause" "[]" "[]"] attributes_loop_error [of "clause_elements clause" "[]" "[]"]
    by (auto simp: moduleRequestFromDeclaration_def Let_def)
qed (auto simp: moduleRequestFromDeclaration_def elements_ok_def split: option.splits)

section \<open>Host resolution\<close>

text \<open>The host accepts a request for a file exactly when it has no attribute but \<open>type\<close> and the type fits the
  file: \<open>json\<close> for a file with extension \<open>.json\<close>, nothing or \<open>javascript\<close> for every other file.\<close>

theorem staticModuleRequestResolutionError_None:
  "staticModuleRequestResolutionError r f = None \<longleftrightarrow>
     list_all (\<lambda>a. attribute_key a = js ''type'') (attributes r) \<and>
     (if is_json_file f then request_type r = Some (js ''json'')
      else request_type r = None \<or> request_type r = Some (js ''javascript''))"
proof -
  have "list_all (\<lambda>a. attribute_key a = js ''type'') (attributes r) \<longleftrightarrow>
      find (\<lambda>a. attribute_key a \<noteq> js ''type'') (attributes r) = None"
    by (auto simp: find_None_iff list_all_iff)
  then show ?thesis
    by (auto simp: staticModuleRequestResolutionError_def Let_def simp del: find_None_iff split: option.splits)
qed

section \<open>Dynamic imports\<close>

text \<open>All nodes of a tree, a node before its children and later children first.\<close>

function tree_nodes :: "node \<Rightarrow> node list" where
  "tree_nodes n = n # concat (map tree_nodes (rev (forEachChild n)))"
  by pat_completeness auto
termination
  by (relation "measure size") (auto simp: forEachChild_size)

declare tree_nodes.simps [simp del]

lemma import_calls_loop_filter:
  "import_calls_loop stack calls = calls @ filter is_import_call (concat (map tree_nodes stack))"
proof (induction stack calls rule: import_calls_loop.induct)
  case (2 n stack calls)
  then show ?case by (simp add: tree_nodes.simps [of n])
qed simp

text \<open>The worklist of \<open>dynamicImportCalls\<close> visits every node of the tree exactly once, in pre-order with later
  children first, and collects exactly the calls whose callee is the \<open>import\<close> keyword.\<close>

theorem dynamicImportCalls_all: "dynamicImportCalls root = filter is_import_call (tree_nodes root)"
  by (simp add: dynamicImportCalls_def import_calls_loop_filter)

end
