(* ===== verification/Choice_Tuples.thy ===== *)
theory Choice_Tuples
  imports TSC_Prelude
begin

text \<open>
  The generator of \<open>source-choice-tuples.ts\<close>: all tuples of a finite product, by an odometer of positions
  that is advanced in place. The list of yielded values stands for the generator.
\<close>

text \<open>The inner loop, with \<open>index + 1\<close> as its argument: the positions it leaves and whether it broke off.\<close>

fun advance_positions :: "'a list list \<Rightarrow> nat list \<Rightarrow> nat \<Rightarrow> nat list \<times> bool" where
  "advance_positions parts positions 0 = (positions, False)"
| "advance_positions parts positions (Suc index) =
     (let positions' = positions[index := positions ! index + 1]
      in if positions' ! index < length (parts ! index) then (positions', True)
         else advance_positions parts (positions'[index := 0]) index)"

definition current_tuple :: "'a list list \<Rightarrow> nat list \<Rightarrow> 'a list" where
  "current_tuple parts positions = map2 (!) parts positions"

fun tuples_loop :: "nat \<Rightarrow> 'a list list \<Rightarrow> nat list \<Rightarrow> 'a list list option" where
  "tuples_loop 0 parts positions = None"
| "tuples_loop (Suc n) parts positions =
     map_option ((#) (current_tuple parts positions))
       (case advance_positions parts positions (length parts) of
          (positions', True) \<Rightarrow> tuples_loop n parts positions'
        | (_, False) \<Rightarrow> Some [])"

definition sourceChoiceTuples :: "nat \<Rightarrow> 'a list list \<Rightarrow> 'a list list option" where
  "sourceChoiceTuples fuel parts =
     (if list_ex (\<lambda>values. values = []) parts then Some []
      else tuples_loop fuel parts (map (\<lambda>_. 0) parts))"

text \<open>The tuples from a position on, in lexicographic order.\<close>

fun remaining_tuples :: "'a list list \<Rightarrow> nat list \<Rightarrow> 'a list list" where
  "remaining_tuples (xs # parts) (i # positions) =
     map ((#) (xs ! i)) (remaining_tuples parts positions) @
     concat (map (\<lambda>x. map ((#) x) (product_lists parts)) (drop (Suc i) xs))"
| "remaining_tuples _ _ = [[]]"

lemma advance_Cons:
  assumes "k \<le> length positions"
  shows "advance_positions (xs # parts) (i # positions) (Suc k) =
     (case advance_positions parts positions k of
        (positions', True) \<Rightarrow> (i # positions', True)
      | (positions', False) \<Rightarrow> if Suc i < length xs then (Suc i # positions', True) else (0 # positions', False))"
  using assms
proof (induction k arbitrary: positions)
  case (Suc k)
  show ?case
    unfolding advance_positions.simps(2) [of _ _ "Suc k"] advance_positions.simps(2) [of parts positions k]
    using Suc by (simp add: Let_def)
qed simp

declare advance_positions.simps(2) [simp del]

lemma remaining_zero:
  "list_all (\<lambda>xs. xs \<noteq> []) parts \<Longrightarrow> remaining_tuples parts (map (\<lambda>_. 0) parts) = product_lists parts"
proof (induction parts)
  case (Cons xs parts)
  then show ?case by (cases xs) simp_all
qed simp

text \<open>One turn of the odometer: to the next tuple, or back to the first one after the last.\<close>

lemma advance_remaining:
  assumes "list_all2 (\<lambda>xs i. i < length xs) parts positions"
  shows "case advance_positions parts positions (length parts) of
      (positions', True) \<Rightarrow> list_all2 (\<lambda>xs i. i < length xs) parts positions' \<and>
        remaining_tuples parts positions = current_tuple parts positions # remaining_tuples parts positions'
    | (positions', False) \<Rightarrow> positions' = map (\<lambda>_. 0) parts \<and>
        remaining_tuples parts positions = [current_tuple parts positions]"
  using assms
proof (induction parts arbitrary: positions)
  case (Cons xs parts)
  then obtain i ps where pos: "positions = i # ps" and i: "i < length xs"
      and ps: "list_all2 (\<lambda>xs i. i < length xs) parts ps"
    by (cases positions) auto
  obtain ps' ok where adv: "advance_positions parts ps (length parts) = (ps', ok)" by fastforce
  have step: "advance_positions (xs # parts) (i # ps) (Suc (length parts)) =
     (if ok then (i # ps', True) else if Suc i < length xs then (Suc i # ps', True) else (0 # ps', False))"
    unfolding advance_Cons [OF eq_imp_le [OF list_all2_lengthD [OF ps]]] adv by simp
  have nonempty: "list_all (\<lambda>xs. xs \<noteq> []) parts"
    using ps by (auto simp: list_all_length list_all2_conv_all_nth)
  show ?case
  proof (cases ok)
    case True
    with Cons.IH [OF ps] adv show ?thesis using i by (simp add: pos step current_tuple_def)
  next
    case False
    with Cons.IH [OF ps] adv have IH: "ps' = map (\<lambda>_. 0) parts" "remaining_tuples parts ps = [current_tuple parts ps]"
      by auto
    show ?thesis
    proof (cases "Suc i < length xs")
      case True
      have "list_all2 (\<lambda>xs i. i < length xs) parts ps'"
        using nonempty by (simp add: IH(1) list_all2_conv_all_nth list_all_length)
      with True False IH show ?thesis
        using remaining_zero [OF nonempty] Cons_nth_drop_Suc [OF True, symmetric]
        by (simp add: pos step current_tuple_def)
    next
      case last: False
      with False IH show ?thesis by (simp add: pos step current_tuple_def)
    qed
  qed
qed (simp add: current_tuple_def)

lemma tuples_loop_remaining:
  assumes "list_all2 (\<lambda>xs i. i < length xs) parts positions" "length (remaining_tuples parts positions) \<le> n"
  shows "tuples_loop n parts positions = Some (remaining_tuples parts positions)"
  using assms
proof (induction n parts positions rule: tuples_loop.induct)
  case (1 parts positions)
  then show ?case using advance_remaining [OF 1(1)] by (auto split: prod.splits bool.splits)
next
  case (2 n parts positions)
  obtain positions' ok where adv: "advance_positions parts positions (length parts) = (positions', ok)" by fastforce
  show ?case
    using advance_remaining [OF 2(2)] 2(1) [OF adv [symmetric]] 2(3) by (cases ok) (auto simp: adv)
qed

text \<open>The generator yields exactly the tuples of the product, in lexicographic order and each position tuple
  once, after as many turns as there are tuples: nothing when an operand is empty, and one empty tuple
  for an empty list of operands.\<close>

theorem sourceChoiceTuples_product:
  "sourceChoiceTuples (length (product_lists parts) + n) parts = Some (product_lists parts)"
proof (cases "[] \<in> set parts")
  case True
  then have "product_lists parts = []" by (induction parts) auto
  with True show ?thesis by (auto simp: sourceChoiceTuples_def list_ex_iff)
next
  case False
  then have nonempty: "list_all (\<lambda>xs. xs \<noteq> []) parts" by (auto simp: list_all_iff)
  then have "list_all2 (\<lambda>xs i. i < length xs) parts (map (\<lambda>_. 0) parts)"
    by (simp add: list_all2_conv_all_nth list_all_length)
  from tuples_loop_remaining [OF this, of "length (product_lists parts) + n"] nonempty False show ?thesis
    by (auto simp: sourceChoiceTuples_def list_ex_iff remaining_zero)
qed

end
