(* ===== verification/CommonJs_Resolve.thy ===== *)
theory CommonJs_Resolve
  imports JS_String
begin

text \<open>
  Resolution of CommonJS \<open>require\<close> specifiers, after \<open>commonjs-resolve.ts\<close>: the \<open>exports\<close> and \<open>imports\<close>
  maps of packages with their conditions and patterns, the search for packages and for source files.
  The file system, \<open>node:path\<close> and \<open>ts.resolveModuleName\<close> are parameters. An empty string is falsy in
  JavaScript: where the code tests a string for truth, \<open>Some []\<close> counts as \<open>null\<close>.
\<close>

section \<open>Host\<close>

datatype file_kind = IsFile | IsDirectory | IsOther

text \<open>\<open>stat\<close> is \<open>None\<close> when \<open>fs.statSync\<close> throws; \<open>json_file\<close> is the value \<open>JSON.parse\<close> gives for the
  contents of a file, \<open>None\<close> when reading or parsing throws. The entries of an object are in the order of
  \<open>Object.entries\<close>. Of a number only its truth is used: any number but zero is some non-zero integer.\<close>

datatype json_value =
    JNull | JBool bool | JNumber int | JString js_string | JArray "json_value list" | JObject "(js_string \<times> json_value) list"

record module_host =
  isAbsolute :: "js_string \<Rightarrow> bool"
  path_resolve :: "js_string list \<Rightarrow> js_string"
  path_join :: "js_string list \<Rightarrow> js_string"
  dirname :: "js_string \<Rightarrow> js_string"
  stat :: "js_string \<Rightarrow> file_kind option"
  json_file :: "js_string \<Rightarrow> json_value option"
  ts_resolveModuleName :: "js_string \<Rightarrow> js_string \<Rightarrow> js_string option"
  customConditions :: "js_string list"

definition truthy :: "js_string option \<Rightarrow> bool" where
  "truthy x \<longleftrightarrow> x \<noteq> None \<and> x \<noteq> Some []"

definition truthy_json :: "json_value option \<Rightarrow> bool" where
  "truthy_json x = (case x of None \<Rightarrow> False | Some JNull \<Rightarrow> False | Some (JBool b) \<Rightarrow> b | Some (JNumber n) \<Rightarrow> n \<noteq> 0
     | Some (JString s) \<Rightarrow> s \<noteq> [] | Some (JArray _) \<Rightarrow> True | Some (JObject _) \<Rightarrow> True)"

definition property :: "json_value \<Rightarrow> js_string \<Rightarrow> json_value option" where
  "property v name = (case v of JObject es \<Rightarrow> map_of es name | _ \<Rightarrow> None)"

definition COMMONJS_CONDITIONS :: "js_string list" where
  "COMMONJS_CONDITIONS = map js [''node-addons'', ''node'', ''require'', ''module-sync'', ''default'']"

definition SOURCE_EXTENSIONS :: "js_string list" where
  "SOURCE_EXTENSIONS = map js [''.ts'', ''.tsx'', ''.js'', ''.jsx'', ''.mjs'', ''.cjs'']"

section \<open>Source files\<close>

definition has_source_extension :: "js_string \<Rightarrow> bool" where
  "has_source_extension f \<longleftrightarrow> list_ex (ends_with f) SOURCE_EXTENSIONS"

definition source_candidates :: "module_host \<Rightarrow> js_string \<Rightarrow> js_string list" where
  "source_candidates h basePath =
     basePath # (if has_source_extension basePath then []
       else map (\<lambda>ext. basePath @ ext) SOURCE_EXTENSIONS @
            map (\<lambda>ext. path_join h [basePath, js ''index'' @ ext]) SOURCE_EXTENSIONS)"

definition resolveSourceFile :: "module_host \<Rightarrow> js_string \<Rightarrow> js_string option" where
  "resolveSourceFile h basePath =
     find (\<lambda>c. stat h c = Some IsFile \<and> has_source_extension c) (source_candidates h basePath)"

section \<open>Packages\<close>

definition isConditionMap :: "json_value \<Rightarrow> bool" where
  "isConditionMap v = (case v of JObject es \<Rightarrow> list_all (\<lambda>e. \<not> starts_with (fst e) (js ''.'')) es | _ \<Rightarrow> False)"

definition subpath_of :: "js_string list \<Rightarrow> js_string" where
  "subpath_of parts = (let rest = join_with (js ''/'') parts in if rest \<noteq> [] then js ''./'' @ rest else js ''.'')"

definition packageSpecifierParts :: "js_string \<Rightarrow> (js_string \<times> js_string) option" where
  "packageSpecifierParts spec =
     (let parts = split_on 0x2F spec
      in if starts_with spec (js ''@'') then
           if length parts < 2 \<or> parts ! 0 = [] \<or> parts ! 1 = [] then None
           else Some (parts ! 0 @ js ''/'' @ parts ! 1, subpath_of (drop 2 parts))
         else if parts ! 0 = [] then None
         else Some (parts ! 0, subpath_of (drop 1 parts)))"

text \<open>The two loops that go up to the root of the file system. The path never gets longer on the way up,
  so its length bounds the number of turns.\<close>

fun search_up :: "module_host \<Rightarrow> (js_string \<Rightarrow> js_string option) \<Rightarrow> nat \<Rightarrow> js_string \<Rightarrow> js_string option" where
  "search_up h test 0 dir = None"
| "search_up h test (Suc n) dir =
     (case test dir of Some r \<Rightarrow> Some r
      | None \<Rightarrow> if dirname h dir = dir then None else search_up h test n (dirname h dir))"

definition module_package_at :: "module_host \<Rightarrow> js_string \<Rightarrow> js_string \<Rightarrow> js_string option" where
  "module_package_at h packageName dir =
     (let candidate = path_join h [dir, js ''node_modules'', packageName]
      in if stat h candidate = Some IsDirectory then Some candidate else None)"

definition findNodeModulePackage :: "module_host \<Rightarrow> js_string \<Rightarrow> js_string \<Rightarrow> js_string option" where
  "findNodeModulePackage h packageName fromDir =
     (let dir = path_resolve h [fromDir] in search_up h (module_package_at h packageName) (Suc (length dir)) dir)"

definition package_root_at :: "module_host \<Rightarrow> js_string \<Rightarrow> js_string option" where
  "package_root_at h dir = (if stat h (path_join h [dir, js ''package.json'']) = Some IsFile then Some dir else None)"

definition findNearestPackageRoot :: "module_host \<Rightarrow> js_string \<Rightarrow> js_string option" where
  "findNearestPackageRoot h fromDir =
     (let dir = path_resolve h [fromDir] in search_up h (package_root_at h) (Suc (length dir)) dir)"

definition readPackageJson :: "module_host \<Rightarrow> js_string \<Rightarrow> json_value option" where
  "readPackageJson h packageRoot = json_file h (path_join h [packageRoot, js ''package.json''])"

section \<open>Patterns\<close>

text \<open>\<open>GetSubstitution\<close> of ECMA-262 for a string search value: the replacement text may refer to the match
  (\<open>$&\<close>) and to the text around it.\<close>

fun get_substitution :: "js_string \<Rightarrow> js_string \<Rightarrow> js_string \<Rightarrow> js_string" where
  "get_substitution before after [] = []"
| "get_substitution before after [x] = [x]"
| "get_substitution before after (x # c # r) =
     (if x = 0x24 \<and> c = 0x24 then 0x24 # get_substitution before after r
      else if x = 0x24 \<and> c = 0x26 then 0x2A # get_substitution before after r
      else if x = 0x24 \<and> c = 0x60 then before @ get_substitution before after r
      else if x = 0x24 \<and> c = 0x27 then after @ get_substitution before after r
      else x # get_substitution before after (c # r))"

fun replace_stars :: "js_string \<Rightarrow> js_string \<Rightarrow> js_string \<Rightarrow> js_string" where
  "replace_stars before [] replacement = []"
| "replace_stars before (x # xs) replacement =
     (if x = 0x2A then get_substitution before xs replacement else [x]) @ replace_stars (before @ [x]) xs replacement"

definition replaceAll_star :: "js_string \<Rightarrow> js_string \<Rightarrow> js_string" where
  "replaceAll_star t replacement = replace_stars [] t replacement"

text \<open>An assignment to the property \<open>__proto__\<close> of an object literal does not create a property.\<close>

fun substitutePatternTarget :: "js_string \<Rightarrow> json_value \<Rightarrow> json_value" where
  "substitutePatternTarget matched (JString s) = JString (replaceAll_star s matched)"
| "substitutePatternTarget matched (JArray vs) = JArray (map (substitutePatternTarget matched) vs)"
| "substitutePatternTarget matched (JObject es) =
     JObject (map (\<lambda>e. (fst e, substitutePatternTarget matched (snd e))) (filter (\<lambda>e. fst e \<noteq> js ''__proto__'') es))"
| "substitutePatternTarget matched v = v"

record pattern_match =
  pattern_prefix :: js_string
  pattern_suffix :: js_string
  pattern_target :: json_value

fun best_pattern :: "js_string \<Rightarrow> (js_string \<times> json_value) list \<Rightarrow> pattern_match option \<Rightarrow> pattern_match option" where
  "best_pattern subpath [] best = best"
| "best_pattern subpath ((key, target) # es) best =
     (case indexOf 0x2A key of
        None \<Rightarrow> best_pattern subpath es best
      | Some star \<Rightarrow>
          let prefix = take star key; suffix = drop (star + 1) key
          in if \<not> starts_with subpath prefix \<or> \<not> ends_with subpath suffix then best_pattern subpath es best
             else best_pattern subpath es
               (if (case best of None \<Rightarrow> True | Some b \<Rightarrow> length prefix > length (pattern_prefix b))
                then Some \<lparr>pattern_prefix = prefix, pattern_suffix = suffix, pattern_target = target\<rparr> else best))"

definition lookupSubpathTarget :: "(js_string \<times> json_value) list \<Rightarrow> js_string \<Rightarrow> json_value option" where
  "lookupSubpathTarget es subpath =
     (case map_of es subpath of
        Some target \<Rightarrow> Some target
      | None \<Rightarrow> (case best_pattern subpath es None of
            None \<Rightarrow> None
          | Some b \<Rightarrow> Some (substitutePatternTarget
              (slice (length (pattern_prefix b)) (length subpath - length (pattern_suffix b)) subpath) (pattern_target b))))"

section \<open>Targets\<close>

text \<open>The argument \<open>external\<close> is the resolution of a bare specifier when \<open>allowExternal\<close> is set.\<close>

definition resolvePackageTargetString ::
    "module_host \<Rightarrow> js_string \<Rightarrow> (js_string \<Rightarrow> js_string option) option \<Rightarrow> js_string \<Rightarrow> js_string option" where
  "resolvePackageTargetString h packageRoot external target =
     (if \<not> starts_with target (js ''./'') then
        (case external of
           None \<Rightarrow> None
         | Some f \<Rightarrow>
             if starts_with target (js ''#'') \<or> starts_with target (js ''/'') \<or> starts_with target (js ''node:'') then None
             else f target)
      else resolveSourceFile h (path_resolve h [packageRoot, target]))"

definition condition_supported :: "module_host \<Rightarrow> js_string \<Rightarrow> bool" where
  "condition_supported h c \<longleftrightarrow> c \<in> set COMMONJS_CONDITIONS \<or> c \<in> set (customConditions h)"

fun resolveConditionalPackageTarget ::
    "module_host \<Rightarrow> js_string \<Rightarrow> (js_string \<Rightarrow> js_string option) option \<Rightarrow> json_value \<Rightarrow> js_string option"
and resolve_first :: "module_host \<Rightarrow> js_string \<Rightarrow> (js_string \<Rightarrow> js_string option) option \<Rightarrow> json_value list \<Rightarrow> js_string option"
and resolve_conditions ::
    "module_host \<Rightarrow> js_string \<Rightarrow> (js_string \<Rightarrow> js_string option) option \<Rightarrow> (js_string \<times> json_value) list \<Rightarrow> js_string option" where
  "resolveConditionalPackageTarget h root external (JString s) = resolvePackageTargetString h root external s"
| "resolveConditionalPackageTarget h root external (JArray vs) = resolve_first h root external vs"
| "resolveConditionalPackageTarget h root external (JObject es) = resolve_conditions h root external es"
| "resolveConditionalPackageTarget h root external _ = None"
| "resolve_first h root external [] = None"
| "resolve_first h root external (v # vs) =
     (let r = resolveConditionalPackageTarget h root external v in if truthy r then r else resolve_first h root external vs)"
| "resolve_conditions h root external [] = None"
| "resolve_conditions h root external ((c, v) # es) =
     (if \<not> condition_supported h c then resolve_conditions h root external es
      else let r = resolveConditionalPackageTarget h root external v
           in if truthy r then r else resolve_conditions h root external es)"

definition resolve_lookup ::
    "module_host \<Rightarrow> js_string \<Rightarrow> (js_string \<Rightarrow> js_string option) option \<Rightarrow> (js_string \<times> json_value) list \<Rightarrow> js_string \<Rightarrow> js_string option" where
  "resolve_lookup h root external es subpath =
     (let target = lookupSubpathTarget es subpath
      in if truthy_json target then resolveConditionalPackageTarget h root external (the target) else None)"

definition resolveExportsMap :: "module_host \<Rightarrow> js_string \<Rightarrow> json_value \<Rightarrow> js_string \<Rightarrow> js_string option" where
  "resolveExportsMap h packageRoot exportsField subpath =
     (if subpath = js ''.'' \<and> (case exportsField of JString _ \<Rightarrow> True | JArray _ \<Rightarrow> True | v \<Rightarrow> isConditionMap v)
      then resolveConditionalPackageTarget h packageRoot None exportsField
      else case exportsField of JObject es \<Rightarrow> resolve_lookup h packageRoot None es subpath | _ \<Rightarrow> None)"

section \<open>Specifiers\<close>

definition resolve_package_exports :: "module_host \<Rightarrow> js_string \<Rightarrow> js_string \<Rightarrow> js_string option" where
  "resolve_package_exports h spec containingFile =
     (if starts_with spec (js ''.'') \<or> starts_with spec (js ''/'') \<or> starts_with spec (js ''node:'') then None
      else case packageSpecifierParts spec of
          None \<Rightarrow> None
        | Some (packageName, subpath) \<Rightarrow>
            (let root = findNodeModulePackage h packageName (dirname h containingFile)
             in if \<not> truthy root then None
                else let pkg = readPackageJson h (the root)
                  in if \<not> truthy_json pkg then None
                     else case property (the pkg) (js ''exports'') of
                         None \<Rightarrow> None
                       | Some e \<Rightarrow> (let t = resolveExportsMap h (the root) e subpath in if truthy t then t else None)))"

text \<open>Resolution of a specifier that does not start with \<open>#\<close>: it never gets to the \<open>imports\<close> map.\<close>

definition resolve_bare :: "module_host \<Rightarrow> js_string \<Rightarrow> js_string \<Rightarrow> js_string option" where
  "resolve_bare h containingFile spec =
     (if isAbsolute h spec then resolveSourceFile h spec
      else let r = resolve_package_exports h spec containingFile
        in if truthy r then r else ts_resolveModuleName h spec containingFile)"

definition resolvePackageImportsTarget :: "module_host \<Rightarrow> js_string \<Rightarrow> js_string \<Rightarrow> js_string option" where
  "resolvePackageImportsTarget h spec containingFile =
     (let root = findNearestPackageRoot h (dirname h containingFile)
      in if \<not> truthy root then None
         else case Option.bind (readPackageJson h (the root)) (\<lambda>pkg. property pkg (js ''imports'')) of
             Some (JObject es) \<Rightarrow> resolve_lookup h (the root) (if containingFile = [] then None else Some (resolve_bare h containingFile)) es spec
           | _ \<Rightarrow> None)"

definition resolvePackageTarget :: "module_host \<Rightarrow> js_string \<Rightarrow> js_string \<Rightarrow> js_string option" where
  "resolvePackageTarget h spec containingFile =
     (if starts_with spec (js ''#'') then resolvePackageImportsTarget h spec containingFile
      else resolve_package_exports h spec containingFile)"

definition resolveCommonJsRequireModuleName :: "module_host \<Rightarrow> js_string \<Rightarrow> js_string \<Rightarrow> js_string option" where
  "resolveCommonJsRequireModuleName h spec containingFile =
     (if isAbsolute h spec then resolveSourceFile h spec
      else let r = resolvePackageTarget h spec containingFile
        in if truthy r then r else ts_resolveModuleName h spec containingFile)"


section \<open>The recursion through the imports map\<close>

lemma resolve_bare_not_private:
  "\<not> starts_with spec (js ''#'') \<Longrightarrow> resolve_bare h file spec = resolveCommonJsRequireModuleName h spec file"
  by (simp add: resolve_bare_def resolveCommonJsRequireModuleName_def resolvePackageTarget_def)

lemma resolve_external_cong:
  assumes "\<And>t. \<not> starts_with t (js ''#'') \<Longrightarrow> f t = g t"
  shows "resolveConditionalPackageTarget h root (Some f) v = resolveConditionalPackageTarget h root (Some g) v"
    and "resolve_first h root (Some f) vs = resolve_first h root (Some g) vs"
    and "resolve_conditions h root (Some f) es = resolve_conditions h root (Some g) es"
  by (induction h root "Some g" v and h root "Some g" vs and h root "Some g" es
      rule: resolveConditionalPackageTarget_resolve_first_resolve_conditions.induct)
    (simp_all add: resolvePackageTargetString_def assms Let_def)

text \<open>The layered definitions satisfy the recursive equation of the code: in the \<open>imports\<close> map of a package a bare
  target is resolved by \<open>resolveCommonJsRequireModuleName\<close> itself. The recursion cannot go on, since such
  a target is not private and other maps admit no bare targets.\<close>

theorem resolvePackageImportsTarget_recursive:
  "resolvePackageImportsTarget h spec containingFile =
     (let root = findNearestPackageRoot h (dirname h containingFile)
      in if \<not> truthy root then None
         else case Option.bind (readPackageJson h (the root)) (\<lambda>pkg. property pkg (js ''imports'')) of
             Some (JObject es) \<Rightarrow> resolve_lookup h (the root)
               (if containingFile = [] then None else Some (\<lambda>t. resolveCommonJsRequireModuleName h t containingFile)) es spec
           | _ \<Rightarrow> None)"
proof -
  have "resolve_lookup h root (Some (resolve_bare h containingFile)) es spec =
      resolve_lookup h root (Some (\<lambda>t. resolveCommonJsRequireModuleName h t containingFile)) es spec" for root es
    unfolding resolve_lookup_def
    by (subst resolve_external_cong(1) [OF resolve_bare_not_private]) simp_all
  then show ?thesis by (simp add: resolvePackageImportsTarget_def Let_def split: option.split json_value.split)
qed

section \<open>Patterns\<close>

text \<open>The entries whose pattern matches, in order.\<close>

definition entry_match :: "js_string \<Rightarrow> js_string \<times> json_value \<Rightarrow> pattern_match option" where
  "entry_match subpath e = (case indexOf 0x2A (fst e) of
       None \<Rightarrow> None
     | Some star \<Rightarrow>
         if starts_with subpath (take star (fst e)) \<and> ends_with subpath (drop (star + 1) (fst e))
         then Some \<lparr>pattern_prefix = take star (fst e), pattern_suffix = drop (star + 1) (fst e), pattern_target = snd e\<rparr>
         else None)"

definition longer :: "pattern_match \<Rightarrow> pattern_match option \<Rightarrow> pattern_match option" where
  "longer m best = (case best of None \<Rightarrow> Some m
     | Some b \<Rightarrow> if length (pattern_prefix m) > length (pattern_prefix b) then Some m else best)"

lemma best_pattern_Cons:
  "best_pattern subpath (e # es) best =
     best_pattern subpath es (case entry_match subpath e of None \<Rightarrow> best | Some m \<Rightarrow> longer m best)"
  by (cases e) (auto simp: entry_match_def longer_def Let_def simp del: indexOf_None split: option.split)

lemma best_pattern_fold: "best_pattern subpath es best = fold longer (List.map_filter (entry_match subpath) es) best"
proof (induction es arbitrary: best)
  case (Cons e es)
  then show ?case unfolding best_pattern_Cons by (auto simp: map_filter_simps split: option.split)
qed (simp add: map_filter_simps)

text \<open>The first match with a longest prefix.\<close>

definition first_longest :: "pattern_match list \<Rightarrow> pattern_match option" where
  "first_longest ms = find (\<lambda>m. list_all (\<lambda>m'. length (pattern_prefix m') \<le> length (pattern_prefix m)) ms) ms"

lemma longest_exists:
  assumes "ms \<noteq> []"
  obtains b where "first_longest ms = Some b" "b \<in> set ms" "\<And>m. m \<in> set ms \<Longrightarrow> length (pattern_prefix m) \<le> length (pattern_prefix b)"
proof -
  let ?P = "\<lambda>m. list_all (\<lambda>m'. length (pattern_prefix m') \<le> length (pattern_prefix m)) ms"
  have "Max ((length \<circ> pattern_prefix) ` set ms) \<in> (length \<circ> pattern_prefix) ` set ms" using assms by (intro Max_in) auto
  then obtain x where "x \<in> set ms" "length (pattern_prefix x) = Max ((length \<circ> pattern_prefix) ` set ms)" by auto
  then have "x \<in> set ms" "?P x" by (auto simp: list_all_iff)
  then have "find ?P ms \<noteq> None" by (auto simp: find_None_iff)
  then obtain b where "find ?P ms = Some b" by auto
  moreover from this have "b \<in> set ms" "?P b" by (auto simp: find_Some_iff)
  ultimately show thesis using that by (auto simp: first_longest_def list_all_iff)
qed

lemma first_longest_snoc: "first_longest (ms @ [m]) = longer m (first_longest ms)"
proof (cases "ms = []")
  case False
  then obtain b where b: "first_longest ms = Some b" "b \<in> set ms"
      "\<And>m. m \<in> set ms \<Longrightarrow> length (pattern_prefix m) \<le> length (pattern_prefix b)"
    by (rule longest_exists) blast
  let ?P = "\<lambda>ms m. list_all (\<lambda>m'. length (pattern_prefix m') \<le> length (pattern_prefix m)) ms"
  show ?thesis
  proof (cases "length (pattern_prefix m) > length (pattern_prefix b)")
    case True
    have "find (?P (ms @ [m])) ms = None"
      using b(3) True by (fastforce simp: find_None_iff)
    moreover have "?P (ms @ [m]) m" using b(3) True by (fastforce simp: list_all_iff)
    ultimately show ?thesis using True b(1) by (simp add: first_longest_def find_append longer_def)
  next
    case False
    have "find (?P (ms @ [m])) ms = find (?P ms) ms"
      using b(2) False by (intro find_cong) (auto simp: list_all_iff)
    then show ?thesis using False b(1) by (simp add: first_longest_def find_append longer_def)
  qed
qed (simp add: first_longest_def longer_def)

lemma fold_longer: "fold longer ms None = first_longest ms"
  by (induction ms rule: rev_induct) (simp_all add: first_longest_snoc, simp add: first_longest_def)

text \<open>C34 A subpath is looked up as an own key first; otherwise the first of the matching patterns with a longest
  prefix is taken, and its target gets the text between prefix and suffix for every star. With neither
  there is no target.\<close>

theorem lookupSubpathTarget_longest:
  "lookupSubpathTarget es subpath =
     (case map_of es subpath of
        Some target \<Rightarrow> Some target
      | None \<Rightarrow> map_option (\<lambda>m. substitutePatternTarget
            (slice (length (pattern_prefix m)) (length subpath - length (pattern_suffix m)) subpath) (pattern_target m))
          (first_longest (List.map_filter (entry_match subpath) es)))"
  by (simp add: lookupSubpathTarget_def best_pattern_fold fold_longer map_option_case split: option.split)

lemma get_substitution_plain: "0x24 \<notin> set r \<Longrightarrow> get_substitution before after r = r"
  by (induction before after r rule: get_substitution.induct) auto

lemma replace_stars_plain:
  "0x24 \<notin> set r \<Longrightarrow> replace_stars before t r = concat (map (\<lambda>x. if x = 0x2A then r else [x]) t)"
  by (induction t arbitrary: before) (auto simp: get_substitution_plain)

text \<open>The text a pattern matched is not inserted as it is: \<open>replaceAll\<close> reads \<open>$\<close> sequences in it. Without a dollar
  sign every star becomes the matched text, but the subpath \<open>./a$&b\<close> under the pattern \<open>./*\<close> gives a
  target with a star again.\<close>

theorem substitutePatternTarget_dollar:
  "(0x24 \<in> set matched \<or>
    substitutePatternTarget matched (JString t) = JString (concat (map (\<lambda>x. if x = 0x2A then matched else [x]) t))) \<and>
   lookupSubpathTarget [(js ''./*'', JString (js ''./lib/*.js''))] (js ''./a$&b'') = Some (JString (js ''./lib/a*b.js''))"
proof
  show "lookupSubpathTarget [(js ''./*'', JString (js ''./lib/*.js''))] (js ''./a$&b'') = Some (JString (js ''./lib/a*b.js''))"
    by code_simp
  show "0x24 \<in> set matched \<or>
      substitutePatternTarget matched (JString t) = JString (concat (map (\<lambda>x. if x = 0x2A then matched else [x]) t))"
    by (cases "0x24 \<in> set matched") (auto simp: replaceAll_star_def replace_stars_plain)
qed

section \<open>What exports resolve to\<close>

lemma resolveSourceFile_Some:
  "resolveSourceFile h p = Some f \<Longrightarrow> f \<in> set (source_candidates h p) \<and> stat h f = Some IsFile \<and> has_source_extension f"
  by (auto simp: resolveSourceFile_def find_Some_iff)

definition package_file :: "module_host \<Rightarrow> js_string \<Rightarrow> js_string \<Rightarrow> bool" where
  "package_file h root f \<longleftrightarrow> stat h f = Some IsFile \<and> has_source_extension f \<and>
     (\<exists>t. starts_with t (js ''./'') \<and> f \<in> set (source_candidates h (path_resolve h [root, t])))"

lemma resolve_package_file:
  shows "resolveConditionalPackageTarget h root None v = Some f \<Longrightarrow> package_file h root f"
    and "resolve_first h root None vs = Some f \<Longrightarrow> package_file h root f"
    and "resolve_conditions h root None es = Some f \<Longrightarrow> package_file h root f"
  by (induction h root "None :: (js_string \<Rightarrow> js_string option) option" v and h root "None :: (js_string \<Rightarrow> js_string option) option" vs
        and h root "None :: (js_string \<Rightarrow> js_string option) option" es
      rule: resolveConditionalPackageTarget_resolve_first_resolve_conditions.induct)
    (auto simp: resolvePackageTargetString_def Let_def package_file_def dest!: resolveSourceFile_Some split: if_splits)

text \<open>C18 What an \<open>exports\<close> map resolves to is an existing file with a source extension, reached from a target that
  starts with \<open>./\<close>, resolved against the root of the package: a bare or absolute target never leads out of
  the map.\<close>

theorem resolveExportsMap_package_file:
  "case resolveExportsMap h root e subpath of None \<Rightarrow> True | Some f \<Rightarrow> package_file h root f"
  by (auto simp: resolveExportsMap_def resolve_lookup_def Let_def resolve_package_file split: option.split json_value.split if_splits)


section \<open>The search for a package\<close>

text \<open>The documented behaviour of \<open>path.dirname\<close>: a root is its own parent, every other parent is shorter.\<close>

definition dirname_shrinks :: "module_host \<Rightarrow> bool" where
  "dirname_shrinks h \<longleftrightarrow> (\<forall>d. dirname h d = d \<or> length (dirname h d) < length d)"

lemma search_up_first:
  assumes "dirname_shrinks h" "length dir < n"
  shows "case search_up h test n dir of
      None \<Rightarrow> \<forall>k. test ((dirname h ^^ k) dir) = None
    | Some r \<Rightarrow> \<exists>k. test ((dirname h ^^ k) dir) = Some r \<and> (\<forall>j<k. test ((dirname h ^^ j) dir) = None)"
  using assms(2)
proof (induction n arbitrary: dir)
  case (Suc n)
  have up: "(dirname h ^^ Suc k) dir = (dirname h ^^ k) (dirname h dir)" for k
    by (simp add: funpow_swap1)
  show ?case
  proof (cases "test dir")
    case (Some r)
    then show ?thesis by (auto intro: exI [of _ 0])
  next
    case none: None
    show ?thesis
    proof (cases "dirname h dir = dir")
      case True
      then have "(dirname h ^^ k) dir = dir" for k by (induction k) simp_all
      with True none show ?thesis by simp
    next
      case False
      with assms(1) Suc.prems have "length (dirname h dir) < n" by (auto simp: dirname_shrinks_def)
      note IH = Suc.IH [OF this]
      show ?thesis
      proof (cases "search_up h test n (dirname h dir)")
        case None
        with IH have "test ((dirname h ^^ k) dir) = None" for k
          using none up by (cases k) auto
        with None none False show ?thesis by simp
      next
        case (Some r)
        with IH obtain k where "test ((dirname h ^^ Suc k) dir) = Some r" "\<forall>j<k. test ((dirname h ^^ Suc j) dir) = None"
          unfolding up by auto
        with Some none False show ?thesis
          by (auto intro!: exI [of _ "Suc k"] simp: less_Suc_eq_0_disj simp del: funpow.simps(2))
      qed
    qed
  qed
qed simp


text \<open>A host with the directory \<open>/node_modules/p\<close>, searched from \<open>/a\<close>; parents drop the last character here.\<close>

definition example_host :: module_host where
  "example_host = \<lparr>isAbsolute = (\<lambda>p. starts_with p (js ''/'')), path_resolve = concat, path_join = join_with (js ''/''),
     dirname = (\<lambda>d. take (length d - 1) d),
     stat = (\<lambda>p. if p = js ''/node_modules/p'' then Some IsDirectory else None), json_file = (\<lambda>_. None),
     ts_resolveModuleName = (\<lambda>_ _. None), customConditions = []\<rparr>"


end
