(* ===== verification/Reaching_Graph.thy ===== *)
theory Reaching_Graph
  imports Resumable_Expression
begin

text \<open>
  The may-flow graph of \<open>source-reaching-writes.ts\<close>: the constructor of \<open>SourceReachingWrites\<close> lowers one
  body into points and edges, by a stack of tasks. The fields of the object are the record \<open>flow_state\<close>,
  threaded by the state monad; maps keyed by nodes are association lists by node identity. The writes of
  a node, the frame test, the symbols of the checker and the normalization of destructuring targets are
  arguments of the constructor, here the record \<open>flow_env\<close>.
\<close>

section \<open>Data\<close>

record lexical_write =
  write_id :: nat
  write_origin :: node
  write_reference :: node

record flow_point =
  point_successors :: "nat list"
  point_write :: "lexical_write option"
  point_symbol :: "nat option"

datatype flow_task =
    NodeTask (task_node: node) (flow_entry: nat) (flow_exit: nat)
  | BindingTask (task_binding: node) (task_origin: node) (flow_entry: nat) (flow_exit: nat)
      (task_references: "(nat \<times> node) list option") (task_initializer: "node option") (task_key: "node option")

text \<open>\<open>assignmentTarget\<close> may be missing; its result has a binding or none, and the references of its identifiers.\<close>

record flow_env =
  env_writes :: "node \<Rightarrow> (nat \<times> lexical_write) list"
  sameFrame :: "node \<Rightarrow> bool"
  symbolFor :: "node \<Rightarrow> nat option"
  assignmentTarget :: "(node \<Rightarrow> node option \<times> (nat \<times> node) list) option"

record flow_state =
  points :: "flow_point list"
  entries :: "(node \<times> nat) list"
  tasks :: "flow_task list"

type_synonym 'a flow = "(flow_state, 'a) state"

section \<open>Points and edges\<close>

definition new_point :: "flow_env \<Rightarrow> lexical_write option \<Rightarrow> nat flow" where
  "new_point env w = do {
     s \<leftarrow> State_Monad.get;
     State_Monad.set (s\<lparr>points := points s @ [\<lparr>point_successors = [], point_write = w,
       point_symbol = Option.bind w (\<lambda>w. symbolFor env (write_reference w))\<rparr>]\<rparr>);
     State_Monad.return (length (points s)) }"

definition add_successor :: "nat \<Rightarrow> flow_point \<Rightarrow> flow_point" where
  "add_successor to p = (if to \<in> set (point_successors p) then p
     else p\<lparr>point_successors := point_successors p @ [to]\<rparr>)"

definition flow_edge :: "nat \<Rightarrow> nat \<Rightarrow> unit flow" where
  "flow_edge from to = State_Monad.update (\<lambda>s. s\<lparr>points := (points s)[from := add_successor to (points s ! from)]\<rparr>)"

definition push_task :: "flow_task \<Rightarrow> unit flow" where
  "push_task t = State_Monad.update (\<lambda>s. s\<lparr>tasks := t # tasks s\<rparr>)"

text \<open>\<open>Map.set\<close>: a new key is appended, an old one keeps its place.\<close>

definition has_entry :: "node \<Rightarrow> (node \<times> nat) list \<Rightarrow> bool" where
  "has_entry n es \<longleftrightarrow> node_id n \<in> set (map (\<lambda>e. node_id (fst e)) es)"

definition entry_at :: "node \<Rightarrow> (node \<times> nat) list \<Rightarrow> nat option" where
  "entry_at n es = map_of (map (\<lambda>e. (node_id (fst e), snd e)) es) (node_id n)"

definition set_entry :: "node \<Rightarrow> nat \<Rightarrow> unit flow" where
  "set_entry n i = State_Monad.update (\<lambda>s. s\<lparr>entries :=
     (if has_entry n (entries s) then map (\<lambda>e. if node_id (fst e) = node_id n then (fst e, i) else e) (entries s)
      else entries s @ [(n, i)])\<rparr>)"

fun flow_sequence :: "flow_env \<Rightarrow> node list \<Rightarrow> nat \<Rightarrow> nat \<Rightarrow> unit flow" where
  "flow_sequence env [] entry exit = flow_edge entry exit"
| "flow_sequence env [n] entry exit = push_task (NodeTask n entry exit)"
| "flow_sequence env (n # m # ns) entry exit = do {
     next_point \<leftarrow> new_point env None;
     push_task (NodeTask n entry next_point);
     flow_sequence env (m # ns) next_point exit }"

fun opaque_stores :: "flow_env \<Rightarrow> nat \<Rightarrow> lexical_write list \<Rightarrow> unit flow" where
  "opaque_stores env hub [] = State_Monad.return ()"
| "opaque_stores env hub (w # ws) = do {
     store \<leftarrow> new_point env (Some w);
     flow_edge hub store;
     flow_edge store hub;
     opaque_stores env hub ws }"

definition opaque_node :: "flow_env \<Rightarrow> nat \<Rightarrow> node \<Rightarrow> unit flow" where
  "opaque_node env hub n = do {
     s \<leftarrow> State_Monad.get;
     (if has_entry n (entries s) then State_Monad.return ()
      else do {
        read \<leftarrow> new_point env None;
        set_entry n read;
        flow_edge hub read;
        flow_edge read hub });
     opaque_stores env hub (map snd (env_writes env n)) }"

function opaque_loop :: "flow_env \<Rightarrow> nat \<Rightarrow> node list \<Rightarrow> nat list \<Rightarrow> unit flow" where
  "opaque_loop env hub [] visited = State_Monad.return ()"
| "opaque_loop env hub (n # pending) visited =
     (if node_id n \<in> set visited \<or> \<not> sameFrame env n then opaque_loop env hub pending visited
      else do {
        opaque_node env hub n;
        opaque_loop env hub (rev (forEachChild n) @ pending) (visited @ [node_id n]) })"
  by pat_completeness auto
termination
proof (relation "measure (\<lambda>(env, hub, pending, visited). sum_list (map size pending))")
  show "((env, hub, rev (forEachChild n) @ pending, visited @ [node_id n]), env, hub, n # pending, visited)
      \<in> measure (\<lambda>(env, hub, pending, visited). sum_list (map size pending))"
    for env :: flow_env and hub n pending visited
    using forEachChild_sum [of n] by (simp add: rev_map [symmetric] sum_list_rev)
qed (auto simp: node_size_pos)

text \<open>The stack starts with the roots in order: the last root is visited first.\<close>

definition flow_opaque :: "flow_env \<Rightarrow> node list \<Rightarrow> nat \<Rightarrow> nat \<Rightarrow> unit flow" where
  "flow_opaque env roots entry exit = do {
     hub \<leftarrow> new_point env None;
     flow_edge entry hub;
     flow_edge hub exit;
     opaque_loop env hub (rev roots) [] }"

definition flow_store :: "flow_env \<Rightarrow> node \<Rightarrow> node \<Rightarrow> nat \<Rightarrow> nat \<Rightarrow> bool flow" where
  "flow_store env n reference entry exit =
     (case map_of (env_writes env n) (node_id reference) of
        None \<Rightarrow> State_Monad.return False
      | Some w \<Rightarrow> do {
          p \<leftarrow> new_point env (Some w);
          flow_edge entry p;
          flow_edge p exit;
          State_Monad.return True })"

section \<open>Bindings\<close>

definition initialize_binding :: "flow_env \<Rightarrow> node option \<Rightarrow> nat \<Rightarrow> nat \<Rightarrow> unit flow" where
  "initialize_binding env initializer from afterDefault =
     (case initializer of
        None \<Rightarrow> flow_edge from afterDefault
      | Some e \<Rightarrow> do {
          selected \<leftarrow> new_point env None;
          flow_edge from afterDefault;
          flow_edge from selected;
          flow_sequence env [e] selected afterDefault })"

definition element_task_key :: "node \<Rightarrow> node option" where
  "element_task_key element = (case child element ''propertyName'' of
       Some p \<Rightarrow> if is_elem ComputedPropertyName p then Some (field p ''expression'') else None
     | None \<Rightarrow> None)"

fun push_elements :: "flow_env \<Rightarrow> node \<Rightarrow> (nat \<times> node) list option \<Rightarrow> node list \<Rightarrow> nat \<Rightarrow> nat \<Rightarrow> unit flow" where
  "push_elements env origin references [] previous exit = State_Monad.return ()"
| "push_elements env origin references (e # es) previous exit = do {
     next_point \<leftarrow> (if es = [] then State_Monad.return exit else new_point env None);
     push_task (BindingTask (field e ''name'') origin previous next_point references (child e ''initializer'') (element_task_key e));
     push_elements env origin references es next_point exit }"

definition binding_reference :: "(nat \<times> node) list option \<Rightarrow> node \<Rightarrow> node" where
  "binding_reference references b =
     transparent (case Option.bind references (\<lambda>m. map_of m (node_id b)) of Some r \<Rightarrow> r | None \<Rightarrow> b)"

definition lowerBinding :: "flow_env \<Rightarrow> node \<Rightarrow> node \<Rightarrow> nat \<Rightarrow> nat \<Rightarrow> (nat \<times> node) list option \<Rightarrow> node option \<Rightarrow> node option \<Rightarrow> unit flow" where
  "lowerBinding env binding origin start exit references initializer key = do {
     entry \<leftarrow> (case key of
         None \<Rightarrow> State_Monad.return start
       | Some k \<Rightarrow> do { next_point \<leftarrow> new_point env None; flow_sequence env [k] start next_point; State_Monad.return next_point });
     afterDefault \<leftarrow> new_point env None;
     (if isIdentifier binding then do {
        let reference = binding_reference references binding;
        afterReference \<leftarrow> new_point env None;
        set_entry reference entry;
        (if isIdentifier reference then flow_edge entry afterReference
         else flow_sequence env [reference] entry afterReference);
        initialize_binding env initializer afterReference afterDefault;
        stored \<leftarrow> (if isIdentifier reference then flow_store env origin reference afterDefault exit else State_Monad.return False);
        (if stored then State_Monad.return () else flow_edge afterDefault exit) }
      else do {
        initialize_binding env initializer entry afterDefault;
        let elements = filter (is_elem BindingElement) (children binding ''elements'');
        push_elements env origin references elements afterDefault exit;
        (if elements = [] then flow_edge afterDefault exit else State_Monad.return ()) }) }"


section \<open>Statements and expressions\<close>

definition lower_declaration :: "flow_env \<Rightarrow> node \<Rightarrow> nat \<Rightarrow> nat \<Rightarrow> unit flow" where
  "lower_declaration env n entry exit =
     (case child n ''initializer'' of
        None \<Rightarrow> flow_edge entry exit
      | Some e \<Rightarrow> do {
          completed \<leftarrow> new_point env None;
          flow_sequence env [e] entry completed;
          push_task (BindingTask (field n ''name'') n completed exit None None None) })"

definition lower_if :: "flow_env \<Rightarrow> node \<Rightarrow> nat \<Rightarrow> nat \<Rightarrow> unit flow" where
  "lower_if env n entry exit = do {
     selected \<leftarrow> new_point env None;
     flow_sequence env [field n ''expression''] entry selected;
     left \<leftarrow> new_point env None;
     right \<leftarrow> new_point env None;
     flow_edge selected left;
     flow_edge selected right;
     push_task (NodeTask (field n ''thenStatement'') left exit);
     (case child n ''elseStatement'' of
        Some e \<Rightarrow> push_task (NodeTask e right exit)
      | None \<Rightarrow> flow_edge right exit) }"

definition lower_conditional :: "flow_env \<Rightarrow> node \<Rightarrow> nat \<Rightarrow> nat \<Rightarrow> unit flow" where
  "lower_conditional env n entry exit = do {
     selected \<leftarrow> new_point env None;
     left \<leftarrow> new_point env None;
     right \<leftarrow> new_point env None;
     flow_sequence env [field n ''condition''] entry selected;
     flow_edge selected left;
     flow_edge selected right;
     push_task (NodeTask (field n ''whenTrue'') left exit);
     push_task (NodeTask (field n ''whenFalse'') right exit) }"

text \<open>A selection between going on and evaluating the right operand first.\<close>

definition lower_selection :: "flow_env \<Rightarrow> node \<Rightarrow> node \<Rightarrow> nat \<Rightarrow> nat \<Rightarrow> nat \<Rightarrow> unit flow" where
  "lower_selection env first second entry exit after_second = do {
     selected \<leftarrow> new_point env None;
     right \<leftarrow> new_point env None;
     flow_sequence env [first] entry selected;
     flow_edge selected exit;
     flow_edge selected right;
     flow_sequence env [second] right after_second }"

definition lower_identifier_assignment :: "flow_env \<Rightarrow> node \<Rightarrow> token_kind \<Rightarrow> node \<Rightarrow> nat \<Rightarrow> nat \<Rightarrow> unit flow" where
  "lower_identifier_assignment env n operator left entry exit = do {
     beforeStore \<leftarrow> new_point env None;
     set_entry left entry;
     stored \<leftarrow> flow_store env n left beforeStore exit;
     (if \<not> stored then flow_opaque env [n] entry exit
      else if is_logical_assignment operator then lower_selection env left (field n ''right'') entry exit beforeStore
      else flow_sequence env (if operator = EqualsToken then [field n ''right''] else [left, field n ''right'']) entry beforeStore) }"

definition lower_pattern_assignment :: "flow_env \<Rightarrow> node \<Rightarrow> token_kind \<Rightarrow> node \<Rightarrow> nat \<Rightarrow> nat \<Rightarrow> unit flow" where
  "lower_pattern_assignment env n operator left entry exit =
     (case (if operator = EqualsToken then assignmentTarget env else None) of
        None \<Rightarrow> flow_opaque env [n] entry exit
      | Some f \<Rightarrow> (case f left of
            (None, _) \<Rightarrow> flow_opaque env [n] entry exit
          | (Some binding, references) \<Rightarrow> do {
              completed \<leftarrow> new_point env None;
              flow_sequence env [field n ''right''] entry completed;
              push_task (BindingTask binding n completed exit (Some references) None None) }))"

definition lower_binary :: "flow_env \<Rightarrow> node \<Rightarrow> nat \<Rightarrow> nat \<Rightarrow> unit flow" where
  "lower_binary env n entry exit =
     (let operator = (case binary_operator n of Some k \<Rightarrow> k | None \<Rightarrow> OtherToken 0); left = transparent (field n ''left'')
      in if is_assignment_token operator \<and> isIdentifier left then lower_identifier_assignment env n operator left entry exit
         else if is_assignment_token operator \<and> (is_expr ArrayLiteralExpression left \<or> is_expr ObjectLiteralExpression left)
         then lower_pattern_assignment env n operator left entry exit
         else if operator \<in> {AmpersandAmpersandToken, BarBarToken, QuestionQuestionToken}
         then lower_selection env (field n ''left'') (field n ''right'') entry exit exit
         else flow_sequence env [field n ''left'', field n ''right''] entry exit)"

definition lower_unary :: "flow_env \<Rightarrow> node \<Rightarrow> nat \<Rightarrow> nat \<Rightarrow> unit flow" where
  "lower_unary env n entry exit =
     (let operand = transparent (field n ''operand'')
      in if is_update n \<and> isIdentifier operand then do {
           completed \<leftarrow> new_point env None;
           stored \<leftarrow> flow_store env n operand completed exit;
           (if stored then flow_sequence env [operand] entry completed
            else flow_sequence env [field n ''operand''] entry exit) }
         else flow_sequence env [field n ''operand''] entry exit)"

definition computed_name :: "node \<Rightarrow> node list" where
  "computed_name n = (if is_elem ComputedPropertyName (field n ''name'') then [field (field n ''name'') ''expression''] else [])"

definition template_expressions :: "node \<Rightarrow> node list" where
  "template_expressions t = map (\<lambda>span. field span ''expression'') (children t ''templateSpans'')"

text \<open>The nodes evaluated one after the other, for the kinds that have no control flow of their own.\<close>

definition sequential_parts :: "node \<Rightarrow> node list option" where
  "sequential_parts n =
     (if is_kind SourceFile n \<or> is_stmt Block n then Some (children n ''statements'')
      else if is_stmt ExpressionStatement n then Some [field n ''expression'']
      else if is_stmt VariableStatement n then Some (children (field n ''declarationList'') ''declarations'')
      else if (is_expr CallExpression n \<or> is_expr NewExpression n) \<and> \<not> has_flag n flag_OptionalChain
      then Some (field n ''expression'' # children n ''arguments'')
      else if is_expr PropertyAccessExpression n then Some [field n ''expression'']
      else if is_expr ElementAccessExpression n \<and> \<not> has_flag n flag_OptionalChain
      then Some (field n ''expression'' # (case child n ''argumentExpression'' of Some e \<Rightarrow> [e] | None \<Rightarrow> []))
      else if is_expr ArrayLiteralExpression n then Some (children n ''elements'')
      else if is_expr ObjectLiteralExpression n then Some (children n ''properties'')
      else if is_elem PropertyAssignment n then Some (computed_name n @ [field n ''initializer''])
      else if is_elem ShorthandPropertyAssignment n \<and> \<not> has_child n ''objectAssignmentInitializer'' then Some [field n ''name'']
      else if is_expr SpreadElement n \<or> is_elem SpreadAssignment n then Some [field n ''expression'']
      else if is_elem MethodDeclaration n \<or> is_elem GetAccessor n \<or> is_elem SetAccessor n then Some (computed_name n)
      else if is_stmt FunctionDeclaration n \<or> is_expr FunctionExpression n \<or> is_expr ArrowFunction n then Some []
      else if is_expr TypeOfExpression n \<or> is_expr VoidExpression n \<or> is_expr DeleteExpression n \<or>
        is_expr AwaitExpression n \<or> is_expr YieldExpression n
      then Some (case child n ''expression'' of Some e \<Rightarrow> [e] | None \<Rightarrow> [])
      else if is_expr TemplateExpression n then Some (template_expressions n)
      else if is_expr TaggedTemplateExpression n
      then Some (field n ''tag'' # (if is_expr TemplateExpression (field n ''template'') then template_expressions (field n ''template'') else []))
      else None)"

definition flow_lower :: "flow_env \<Rightarrow> node \<Rightarrow> nat \<Rightarrow> nat \<Rightarrow> nat \<Rightarrow> unit flow" where
  "flow_lower env n entry exit final_exit = do {
     set_entry n entry;
     (if \<not> sameFrame env n then flow_edge entry exit
      else if is_transparent n then flow_sequence env [transparent n] entry exit
      else if is_elem VariableDeclaration n then lower_declaration env n entry exit
      else if is_stmt IfStatement n then lower_if env n entry exit
      else if is_expr ConditionalExpression n then lower_conditional env n entry exit
      else if is_stmt ReturnStatement n \<or> is_stmt ThrowStatement n
      then flow_sequence env (case child n ''expression'' of Some e \<Rightarrow> [e] | None \<Rightarrow> []) entry final_exit
      else if is_expr BinaryExpression n then lower_binary env n entry exit
      else if is_expr PrefixUnaryExpression n \<or> is_expr PostfixUnaryExpression n then lower_unary env n entry exit
      else case sequential_parts n of
          Some parts \<Rightarrow> flow_sequence env parts entry exit
        | None \<Rightarrow> flow_opaque env [n] entry exit) }"

section \<open>Construction\<close>

definition flow_turn :: "flow_env \<Rightarrow> nat \<Rightarrow> flow_task \<Rightarrow> unit flow" where
  "flow_turn env final_exit t = (case t of
       NodeTask n entry exit \<Rightarrow> flow_lower env n entry exit final_exit
     | BindingTask b origin entry exit references initializer key \<Rightarrow> lowerBinding env b origin entry exit references initializer key)"

text \<open>The loop over the task stack; \<open>None\<close> when the fuel does not suffice.\<close>

fun flow_loop :: "nat \<Rightarrow> flow_env \<Rightarrow> nat \<Rightarrow> flow_state \<Rightarrow> flow_state option" where
  "flow_loop 0 env final_exit s = (if tasks s = [] then Some s else None)"
| "flow_loop (Suc n) env final_exit s =
     (case tasks s of
        [] \<Rightarrow> Some s
      | t # ts \<Rightarrow> flow_loop n env final_exit (snd (run_state (flow_turn env final_exit t) (s\<lparr>tasks := ts\<rparr>))))"

definition flow_start :: "flow_env \<Rightarrow> node \<Rightarrow> node list \<Rightarrow> nat flow" where
  "flow_start env root parameters = do {
     entry \<leftarrow> new_point env None;
     final_exit \<leftarrow> new_point env None;
     (if parameters \<noteq> [] then do {
        body \<leftarrow> new_point env None;
        flow_opaque env parameters entry body;
        push_task (NodeTask root body final_exit) }
      else push_task (NodeTask root entry final_exit));
     State_Monad.return final_exit }"

definition buildReachingWrites :: "nat \<Rightarrow> flow_env \<Rightarrow> node \<Rightarrow> node list \<Rightarrow> flow_state option" where
  "buildReachingWrites fuel env root parameters =
     (case run_state (flow_start env root parameters) \<lparr>points = [], entries = [], tasks = []\<rparr> of
        (final_exit, s) \<Rightarrow> flow_loop fuel env final_exit s)"

end
