(* ===== verification/Reaching_Bounds.thy ===== *)
theory Reaching_Bounds
  imports Reaching_Graph
begin

text \<open>
  Every index the construction of the flow graph hands around is the index of a point: successors, entries
  of nodes, and the ends of waiting tasks. \<open>fspec k m Q\<close> is the contract of an action that may use the
  indices below \<open>k\<close>; its result satisfies \<open>Q\<close> with respect to the number of points afterwards.
\<close>

definition point_ok :: "nat \<Rightarrow> flow_point \<Rightarrow> bool" where
  "point_ok n p \<longleftrightarrow> (\<forall>j\<in>set (point_successors p). j < n)"

definition task_ok :: "nat \<Rightarrow> flow_task \<Rightarrow> bool" where
  "task_ok n t \<longleftrightarrow> flow_entry t < n \<and> flow_exit t < n"

definition flow_ok :: "flow_state \<Rightarrow> bool" where
  "flow_ok s \<longleftrightarrow> (\<forall>p\<in>set (points s). point_ok (length (points s)) p) \<and>
     (\<forall>e\<in>set (entries s). snd e < length (points s)) \<and> (\<forall>t\<in>set (tasks s). task_ok (length (points s)) t) \<and>
     distinct (map (\<lambda>e. node_id (fst e)) (entries s))"

definition fspec :: "nat \<Rightarrow> 'a flow \<Rightarrow> ('a \<Rightarrow> nat \<Rightarrow> bool) \<Rightarrow> bool" where
  "fspec k m Q \<longleftrightarrow> (\<forall>s. flow_ok s \<and> k \<le> length (points s) \<longrightarrow>
     (case run_state m s of (r, s') \<Rightarrow> flow_ok s' \<and> length (points s) \<le> length (points s') \<and> Q r (length (points s'))))"

abbreviation fok :: "nat \<Rightarrow> 'a flow \<Rightarrow> bool" where
  "fok k m \<equiv> fspec k m (\<lambda>_ _. True)"

named_theorems flow_rules

lemma fspec_return: "(\<And>n. k \<le> n \<Longrightarrow> Q x n) \<Longrightarrow> fspec k (State_Monad.return x) Q"
  by (auto simp: fspec_def State_Monad.return_def)

lemma fspec_bind:
  assumes "fspec k m Q" "\<And>r n. k \<le> n \<Longrightarrow> Q r n \<Longrightarrow> fspec n (f r) R"
  shows "fspec k (State_Monad.bind m f) R"
  unfolding fspec_def
proof (intro allI impI)
  fix s
  assume s: "flow_ok s \<and> k \<le> length (points s)"
  obtain r s1 where m: "run_state m s = (r, s1)" by fastforce
  with assms(1) s have s1: "flow_ok s1" "length (points s) \<le> length (points s1)" "Q r (length (points s1))"
    by (auto simp: fspec_def)
  with assms(2) [of "length (points s1)" r] s show
    "case run_state (State_Monad.bind m f) s of (r, s') \<Rightarrow> flow_ok s' \<and> length (points s) \<le> length (points s') \<and> R r (length (points s'))"
    by (fastforce simp: fspec_def State_Monad.bind_def m split: prod.splits)
qed

lemma fspec_mono: "fspec k m Q \<Longrightarrow> k \<le> n \<Longrightarrow> fspec n m Q"
  by (auto simp: fspec_def)

lemma fspec_weaken: "fspec k m Q \<Longrightarrow> fok k m"
  by (auto simp: fspec_def split: prod.splits)

lemma fspec_get: "(\<And>s. fspec k (f s) R) \<Longrightarrow> fspec k (State_Monad.bind State_Monad.get f) R"
  by (auto simp: fspec_def State_Monad.bind_def State_Monad.get_def)

lemma fspec_update:
  assumes "\<And>s. flow_ok s \<Longrightarrow> k \<le> length (points s) \<Longrightarrow> flow_ok (f s) \<and> length (points (f s)) = length (points s)"
  shows "fok k (State_Monad.update f)"
  using assms by (auto simp: fspec_def State_Monad.update_def State_Monad.bind_def State_Monad.get_def State_Monad.set_def)

lemma fspec_new_point: "fspec k (new_point env w) (\<lambda>r n. r < n)"
  by (fastforce simp: fspec_def new_point_def State_Monad.bind_def State_Monad.get_def State_Monad.set_def
      State_Monad.return_def flow_ok_def point_ok_def task_ok_def less_Suc_eq)

lemma fspec_edge:
  assumes "a < k" "b < k"
  shows "fok k (flow_edge a b)"
  unfolding flow_edge_def
proof (rule fspec_update)
  fix s
  assume s: "flow_ok s" "k \<le> length (points s)"
  have "point_ok (length (points s)) (add_successor b (points s ! a))"
    using s assms by (auto simp: flow_ok_def point_ok_def add_successor_def)
  with s show "flow_ok (s\<lparr>points := (points s)[a := add_successor b (points s ! a)]\<rparr>) \<and>
      length (points (s\<lparr>points := (points s)[a := add_successor b (points s ! a)]\<rparr>)) = length (points s)"
    by (auto simp: flow_ok_def dest: set_update_subset_insert [THEN subsetD])
qed

lemma fspec_push: "task_ok k t \<Longrightarrow> fok k (push_task t)"
  unfolding push_task_def by (rule fspec_update) (auto simp: flow_ok_def task_ok_def)

lemma fspec_set_entry:
  assumes "i < k"
  shows "fok k (set_entry n i)"
  unfolding set_entry_def
proof (rule fspec_update)
  fix s
  assume s: "flow_ok s" "k \<le> length (points s)"
  have ids: "map (\<lambda>e. node_id (fst e)) (map (\<lambda>e. if node_id (fst e) = node_id n then (fst e, i) else e) es) =
      map (\<lambda>e. node_id (fst e)) es" for es :: "(node \<times> nat) list"
    by simp
  from s assms show "flow_ok (s\<lparr>entries := if has_entry n (entries s)
        then map (\<lambda>e. if node_id (fst e) = node_id n then (fst e, i) else e) (entries s) else entries s @ [(n, i)]\<rparr>) \<and>
      length (points (s\<lparr>entries := if has_entry n (entries s)
        then map (\<lambda>e. if node_id (fst e) = node_id n then (fst e, i) else e) (entries s) else entries s @ [(n, i)]\<rparr>)) = length (points s)"
    by (auto simp: flow_ok_def has_entry_def ids simp del: map_map)
qed


lemmas fspec_point_bind = fspec_bind [OF fspec_new_point]

lemma fspec_if: "(b \<Longrightarrow> fspec k m Q) \<Longrightarrow> (\<not> b \<Longrightarrow> fspec k m' Q) \<Longrightarrow> fspec k (if b then m else m') Q"
  by simp

lemma fspec_option: "(x = None \<Longrightarrow> fspec k m Q) \<Longrightarrow> (\<And>y. x = Some y \<Longrightarrow> fspec k (f y) Q) \<Longrightarrow> fspec k (case x of None \<Rightarrow> m | Some y \<Rightarrow> f y) Q"
  by (cases x) auto

lemma fspec_bind_unit: "fok k m \<Longrightarrow> (\<And>n. k \<le> n \<Longrightarrow> fspec n (f ()) R) \<Longrightarrow> fspec k (State_Monad.bind m f) R"
  by (rule fspec_bind) auto

lemma task_ok_simps [simp]:
  "task_ok k (NodeTask n a b) \<longleftrightarrow> a < k \<and> b < k"
  "task_ok k (BindingTask target n i j r x y) \<longleftrightarrow> i < k \<and> j < k"
  by (simp_all add: task_ok_def)

lemma fspec_sequence: "a < k \<Longrightarrow> b < k \<Longrightarrow> fok k (flow_sequence env ns a b)"
proof (induction env ns a b arbitrary: k rule: flow_sequence.induct)
  case (3 env n m ns a b)
  show ?case
    unfolding flow_sequence.simps
    by (intro fspec_point_bind fspec_bind_unit fspec_push "3.IH") (use "3.prems" in auto)
qed (simp_all add: fspec_edge fspec_push)

lemma fspec_opaque_stores: "hub < k \<Longrightarrow> fok k (opaque_stores env hub ws)"
proof (induction ws arbitrary: k)
  case (Cons w ws)
  show ?case
    unfolding opaque_stores.simps
    by (intro fspec_point_bind fspec_bind_unit fspec_edge Cons.IH) (use Cons.prems in auto)
qed (simp add: fspec_return)

lemma fspec_opaque_node: "hub < k \<Longrightarrow> fok k (opaque_node env hub n)"
  unfolding opaque_node_def
  by (intro fspec_get fspec_bind_unit fspec_if fspec_return fspec_point_bind fspec_set_entry fspec_edge fspec_opaque_stores) auto

lemma fspec_opaque_loop: "hub < k \<Longrightarrow> fok k (opaque_loop env hub ns visited)"
proof (induction env hub ns visited arbitrary: k rule: opaque_loop.induct)
  case (2 env hub n ns visited)
  show ?case
    unfolding opaque_loop.simps
    by (intro fspec_if fspec_bind_unit fspec_opaque_node "2.IH") (use "2.prems" in auto)
qed (simp add: fspec_return)

lemma fspec_opaque: "a < k \<Longrightarrow> b < k \<Longrightarrow> fok k (flow_opaque env roots a b)"
  unfolding flow_opaque_def by (intro fspec_point_bind fspec_bind_unit fspec_edge fspec_opaque_loop) auto

lemma fspec_store: "a < k \<Longrightarrow> b < k \<Longrightarrow> fok k (flow_store env n r a b)"
  unfolding flow_store_def by (intro fspec_option fspec_return fspec_point_bind fspec_bind_unit fspec_edge) auto

lemmas flow_ops = fspec_if fspec_option fspec_return fspec_point_bind fspec_bind_unit fspec_edge fspec_push
  fspec_set_entry fspec_sequence fspec_opaque fspec_bind [OF fspec_store]

lemma fspec_initialize: "a < k \<Longrightarrow> b < k \<Longrightarrow> fok k (initialize_binding env e a b)"
  unfolding initialize_binding_def by (intro flow_ops) auto

lemma fspec_push_elements: "a < k \<Longrightarrow> b < k \<Longrightarrow> fok k (push_elements env origin refs es a b)"
proof (induction es arbitrary: a k)
  case (Cons e es)
  have next_point: "fspec k (if es = [] then State_Monad.return b else new_point env None) (\<lambda>r n. r < n)"
    using Cons.prems by (auto intro: fspec_return fspec_new_point)
  show ?case
    unfolding push_elements.simps
    by (rule fspec_bind [OF next_point], intro flow_ops Cons.IH) (use Cons.prems in auto)
qed (simp add: fspec_return)

lemma fspec_lowerBinding:
  assumes "a < k" "b < k"
  shows "fok k (lowerBinding env binding origin a b refs e key)"
proof -
  have entry: "fspec k (case key of None \<Rightarrow> State_Monad.return a
      | Some x \<Rightarrow> do { p \<leftarrow> new_point env None; flow_sequence env [x] a p; State_Monad.return p }) (\<lambda>r n. r < n)"
    by (intro flow_ops) (use assms in auto)
  have stored: "fok n (if isIdentifier r then flow_store env origin r c d else State_Monad.return False)"
    if "c < n" "d < n" for r c d n
    using that by (auto intro: fspec_store fspec_return)
  show ?thesis
    unfolding lowerBinding_def Let_def
    by (rule fspec_bind [OF entry], intro fspec_initialize fspec_push_elements fspec_bind [OF stored] flow_ops) (use assms in auto)
qed

lemma fspec_selection: "a < k \<Longrightarrow> b < k \<Longrightarrow> c < k \<Longrightarrow> fok k (lower_selection env x y a b c)"
  unfolding lower_selection_def by (intro flow_ops) auto

lemma fspec_binary: "a < k \<Longrightarrow> b < k \<Longrightarrow> fok k (lower_binary env n a b)"
  unfolding lower_binary_def lower_identifier_assignment_def lower_pattern_assignment_def Let_def prod.case_distrib
  by (intro flow_ops fspec_selection) (auto split: prod.split option.split intro!: flow_ops fspec_selection)


lemma fspec_lower:
  assumes "a < k" "b < k" "c < k"
  shows "fok k (flow_lower env n a b c)"
  unfolding flow_lower_def lower_declaration_def lower_if_def lower_conditional_def lower_unary_def Let_def
  by (intro flow_ops fspec_binary) (use assms in auto)

lemma fspec_turn: "task_ok k t \<Longrightarrow> c < k \<Longrightarrow> fok k (flow_turn env c t)"
  by (cases t) (auto simp: flow_turn_def intro!: fspec_lower fspec_lowerBinding)

lemma fspecD:
  assumes "fspec k m Q" "flow_ok s" "k \<le> length (points s)"
  shows "flow_ok (snd (run_state m s))" "length (points s) \<le> length (points (snd (run_state m s)))"
    "Q (fst (run_state m s)) (length (points (snd (run_state m s))))"
  using assms by (cases "run_state m s"; fastforce simp: fspec_def)+

lemma flow_loop_ok:
  "flow_loop n env c s = Some g \<Longrightarrow> flow_ok s \<Longrightarrow> c < length (points s) \<Longrightarrow>
   flow_ok g \<and> length (points s) \<le> length (points g) \<and> tasks g = []"
proof (induction n arbitrary: s)
  case (Suc n)
  show ?case
  proof (cases "tasks s")
    case (Cons t ts)
    define s1 where "s1 = s\<lparr>tasks := ts\<rparr>"
    have ok: "flow_ok s1" "task_ok (length (points s1)) t" "points s1 = points s"
      using Suc.prems(2) Cons by (auto simp: flow_ok_def s1_def)
    note turn = fspecD [OF fspec_turn [OF ok(2), of c env] ok(1) order_refl]
    from Suc.IH [of "snd (run_state (flow_turn env c t) s1)"] Suc.prems turn ok Cons show ?thesis
      by (simp add: s1_def)
  qed (use Suc.prems in auto)
qed (auto split: if_splits)

lemma fspec_start: "fspec 0 (flow_start env root parameters) (\<lambda>r n. r < n)"
  unfolding flow_start_def by (intro fspec_point_bind fspec_bind_unit fspec_if fspec_opaque fspec_push fspec_return) auto

lemma buildReachingWrites_ok:
  assumes "buildReachingWrites fuel env root parameters = Some g"
  shows "flow_ok g \<and> points g \<noteq> [] \<and> tasks g = []"
proof -
  let ?s = "\<lparr>points = [], entries = [], tasks = []\<rparr>"
  note start = fspecD [OF fspec_start, of ?s env root parameters]
  have "flow_ok ?s" by (simp add: flow_ok_def)
  with start assms flow_loop_ok show ?thesis
    by (fastforce simp: buildReachingWrites_def split: prod.splits)
qed

end
