(* ===== verification/Reaching_Fuel.thy ===== *)
theory Reaching_Fuel
  imports Reaching_Bounds
begin

text \<open>
  The construction of the flow graph ends: every task is worth the size of the syntax it stands for, and the
  tasks it pushes are worth less. \<open>pushes m c\<close> bounds by \<open>c\<close> what an action adds to the stack.
\<close>

section \<open>The cost of tasks\<close>

definition node_cost :: "node \<Rightarrow> nat" where
  "node_cost n = (if n = missing_node then 1 else 8 * size n)"

text \<open>A target is worth the expressions its elements evaluate: references, defaults and computed keys.\<close>

function binding_cost :: "(nat \<times> node) list option \<Rightarrow> node \<Rightarrow> nat" where
  "binding_cost references b =
     (if isIdentifier b then (if isIdentifier (binding_reference references b) then 0 else node_cost (binding_reference references b))
      else sum_list (map (\<lambda>e. 1 + (if has_child e ''name'' then binding_cost references (field e ''name'') else 0) +
        (case child e ''initializer'' of Some x \<Rightarrow> node_cost x | None \<Rightarrow> 0) +
        (case element_task_key e of Some x \<Rightarrow> node_cost x | None \<Rightarrow> 0))
      (filter (is_elem BindingElement) (children b ''elements''))))"
  by pat_completeness auto
termination
proof (relation "measure (\<lambda>(references, b). size b)")
  show "((references, field e ''name''), references, b) \<in> measure (\<lambda>(references, b). size b)"
    if "e \<in> set (filter (is_elem BindingElement) (children b ''elements''))" "has_child e ''name''"
    for references :: "(nat \<times> node) list option" and b e
    using that children_size [of e b "''elements''"] field_size [OF that(2)] by auto
qed simp

declare binding_cost.simps [simp del]

fun flow_cost :: "flow_task \<Rightarrow> nat" where
  "flow_cost (NodeTask n a b) = node_cost n"
| "flow_cost (BindingTask target origin a b references initializer key) =
     1 + binding_cost references target + (case initializer of Some e \<Rightarrow> node_cost e | None \<Rightarrow> 0) +
     (case key of Some e \<Rightarrow> node_cost e | None \<Rightarrow> 0)"

definition stack_cost :: "flow_task list \<Rightarrow> nat" where
  "stack_cost ts = sum_list (map flow_cost ts)"

definition pushes :: "'a flow \<Rightarrow> nat \<Rightarrow> bool" where
  "pushes m c \<longleftrightarrow> (\<forall>s. stack_cost (tasks (snd (run_state m s))) \<le> stack_cost (tasks s) + c)"

lemma pushes_return: "pushes (State_Monad.return x) 0"
  by (simp add: pushes_def State_Monad.return_def)

lemma pushes_bind:
  assumes "pushes m c" "\<And>r. pushes (f r) d"
  shows "pushes (State_Monad.bind m f) (c + d)"
  unfolding pushes_def
proof
  fix s
  obtain r s1 where m: "run_state m s = (r, s1)" by fastforce
  have "stack_cost (tasks s1) \<le> stack_cost (tasks s) + c" using assms(1) m by (auto simp: pushes_def dest: spec [of _ s])
  moreover have "stack_cost (tasks (snd (run_state (f r) s1))) \<le> stack_cost (tasks s1) + d" using assms(2) by (simp add: pushes_def)
  ultimately show "stack_cost (tasks (snd (run_state (State_Monad.bind m f) s))) \<le> stack_cost (tasks s) + (c + d)"
    by (simp add: State_Monad.bind_def m)
qed

lemma pushes_mono: "pushes m c \<Longrightarrow> c \<le> d \<Longrightarrow> pushes m d"
  unfolding pushes_def by (meson add_left_mono order_trans)

lemma pushes_get: "(\<And>s. pushes (f s) c) \<Longrightarrow> pushes (State_Monad.bind State_Monad.get f) c"
  by (simp add: pushes_def State_Monad.bind_def State_Monad.get_def)

lemma pushes_update: "(\<And>s. tasks (f s) = tasks s) \<Longrightarrow> pushes (State_Monad.update f) 0"
  by (simp add: pushes_def State_Monad.update_def State_Monad.bind_def State_Monad.get_def State_Monad.set_def)

lemma pushes_point: "pushes (new_point env w) 0"
  by (simp add: pushes_def new_point_def State_Monad.bind_def State_Monad.get_def State_Monad.set_def State_Monad.return_def)

lemma pushes_edge: "pushes (flow_edge a b) 0"
  unfolding flow_edge_def by (rule pushes_update) simp

lemma pushes_set_entry: "pushes (set_entry n i) 0"
  unfolding set_entry_def by (rule pushes_update) simp

lemma pushes_push: "pushes (push_task t) (flow_cost t)"
  by (simp add: pushes_def push_task_def State_Monad.update_def State_Monad.bind_def State_Monad.get_def
      State_Monad.set_def stack_cost_def)

text \<open>Sequencing when one side pushes nothing.\<close>

lemma pushes_seq: "pushes m 0 \<Longrightarrow> (\<And>r. pushes (f r) c) \<Longrightarrow> pushes (State_Monad.bind m f) c"
  using pushes_bind [of m 0 f c] by simp

lemma pushes_if: "(b \<Longrightarrow> pushes m c) \<Longrightarrow> (\<not> b \<Longrightarrow> pushes m' c) \<Longrightarrow> pushes (if b then m else m') c"
  by simp

lemma pushes_sequence: "pushes (flow_sequence env ns a b) (sum_list (map node_cost ns))"
proof (induction env ns a b rule: flow_sequence.induct)
  case (3 env n m ns a b)
  have "pushes (State_Monad.bind (push_task (NodeTask n a p)) (\<lambda>_. flow_sequence env (m # ns) p b))
      (node_cost n + sum_list (map node_cost (m # ns)))" for p
    using pushes_bind [OF pushes_push [of "NodeTask n a p"] 3] by simp
  from pushes_seq [OF pushes_point this] show ?case by simp
qed (use pushes_push [of "NodeTask _ _ _"] in \<open>simp_all add: pushes_edge\<close>)

lemma pushes_opaque_stores: "pushes (opaque_stores env hub ws) 0"
  by (induction ws) (simp_all add: pushes_return pushes_seq pushes_point pushes_edge)

lemma pushes_opaque_node: "pushes (opaque_node env hub n) 0"
  unfolding opaque_node_def
  by (intro pushes_get pushes_seq pushes_if pushes_return pushes_point pushes_set_entry pushes_edge pushes_opaque_stores)

lemma pushes_opaque: "pushes (flow_opaque env roots a b) 0"
proof -
  have "pushes (opaque_loop env hub ns visited) 0" for hub ns visited
    by (induction env hub ns visited rule: opaque_loop.induct) (simp_all add: pushes_return pushes_seq pushes_opaque_node)
  then show ?thesis unfolding flow_opaque_def by (intro pushes_seq pushes_point pushes_edge)
qed

lemma pushes_store: "pushes (flow_store env n r a b) 0"
  unfolding flow_store_def by (auto split: option.split intro!: pushes_seq pushes_point pushes_edge pushes_return)


section \<open>Fields are worth less than the node\<close>

definition kids :: "node \<Rightarrow> string \<Rightarrow> nat" where
  "kids n f = sum_list (map (\<lambda>c. 8 * size c) (children n f))"

lemma kids_sum:
  assumes "distinct fs"
  shows "sum_list (map (kids n) fs) + 8 \<le> 8 * size n"
proof -
  have "sum_list (map (\<lambda>f. sum_list (map size (map snd (filter (\<lambda>c. fst c = f) cs)))) fs) \<le> sum_list (map size (map snd cs))"
    for cs :: "(string \<times> node) list"
  proof (induction cs)
    case (Cons c cs)
    have "sum_list (map (\<lambda>f. (if fst c = f then size (snd c) else 0) + x f) fs) \<le> size (snd c) + sum_list (map x fs)" for x
    proof -
      have "sum_list (map (\<lambda>f. if fst c = f then size (snd c) else 0) fs) \<le> size (snd c)"
        using assms by (induction fs) (auto simp: sum_list_0 cong: map_cong)
      then show ?thesis by (simp add: sum_list_addf)
    qed
    from this [of "\<lambda>f. sum_list (map size (map snd (filter (\<lambda>c. fst c = f) cs)))"] Cons show ?case
      by (simp add: if_distrib if_distribR cong: if_cong)
  qed simp
  from this [of "node_children n"] forEachChild_sum [of n]
  have "sum_list (map (\<lambda>f. sum_list (map size (children n f))) fs) < size n"
    by (simp add: children_def forEachChild_def)
  moreover have "kids n = (\<lambda>f. 8 * sum_list (map size (children n f)))"
    by (simp add: fun_eq_iff kids_def sum_list_const_mult)
  ultimately show ?thesis by (simp add: sum_list_const_mult)
qed

lemma node_cost_pos [simp]: "0 < node_cost n" "node_cost n \<noteq> 0"
  by (simp_all add: node_cost_def)

lemma node_cost_le: "node_cost n \<le> 8 * size n"
  using node_size_pos [of n] by (auto simp: node_cost_def Suc_le_eq)

lemma children_cost: "sum_list (map node_cost (children n f)) \<le> kids n f"
  unfolding kids_def by (rule sum_list_mono) (rule node_cost_le)

lemma child_cost: "child n f = Some c \<Longrightarrow> 8 * size c \<le> kids n f"
proof -
  assume "child n f = Some c"
  then have "c \<in> set (children n f)" by (force simp: children_def dest!: child_in)
  then show ?thesis unfolding kids_def by (intro member_le_sum_list) auto
qed

lemma field_cost: "node_cost (field n f) \<le> kids n f + 1"
  using child_cost [of n f] node_cost_le by (fastforce simp: field_def node_cost_def split: option.split)

lemma option_cost: "(case child n f of Some e \<Rightarrow> node_cost e | None \<Rightarrow> 0) \<le> kids n f"
  using child_cost [of n f] node_cost_le by (fastforce split: option.split intro: order_trans)

lemma transparent_cost_le: "node_cost (transparent n) \<le> node_cost n"
proof (cases "transparent n = missing_node")
  case False
  then have "n \<noteq> missing_node" using transparent_id [of n] by (auto simp: is_transparent_def missing_node_def)
  with False show ?thesis using unwrap_size [of _ n] by (simp add: node_cost_def)
qed (simp add: node_cost_def Suc_le_eq)

lemma transparent_cost: "is_transparent n \<Longrightarrow> node_cost (transparent n) \<le> kids n ''expression'' + 1"
  using field_cost [of n "''expression''"] transparent_cost_le [of "field n ''expression''"]
  by (auto simp: unwrapTransparentExpression.simps [of _ n] field_def node_cost_def split: option.splits)


section \<open>Bindings\<close>

lemma key_cost: "(case element_task_key e of Some x \<Rightarrow> node_cost x | None \<Rightarrow> 0) \<le> kids e ''propertyName''"
proof (cases "child e ''propertyName''")
  case (Some p)
  have "node_cost (field p ''expression'') \<le> 8 * size p"
    using field_cost [of p "''expression''"] kids_sum [of "[''expression'']" p] by simp
  with child_cost [OF Some] show ?thesis by (auto simp: element_task_key_def Some)
qed (simp add: element_task_key_def)

lemma binding_cost_missing [simp]: "binding_cost references missing_node = 0"
  by (subst binding_cost.simps) (simp add: missing_node_def isIdentifier_def children_def)

lemma binding_cost_field: "binding_cost references (field e f) = (if has_child e f then binding_cost references (field e f) else 0)"
  by (simp add: field_def has_child_def)

lemma binding_cost_None: "binding_cost None b < 8 * size b"
proof (induction "None :: (nat \<times> node) list option" b rule: binding_cost.induct)
  case (1 b)
  show ?case
  proof (cases "isIdentifier b")
    case True
    then have "transparent b = b" by (intro transparent_id) (simp add: isIdentifier_def is_transparent_def)
    with True show ?thesis by (simp add: binding_cost.simps [of _ b] binding_reference_def)
  next
    case False
    have "1 + (if has_child e ''name'' then binding_cost None (field e ''name'') else 0) +
        (case child e ''initializer'' of Some x \<Rightarrow> node_cost x | None \<Rightarrow> 0) +
        (case element_task_key e of Some x \<Rightarrow> node_cost x | None \<Rightarrow> 0) \<le> 8 * size e"
      if e: "e \<in> set (filter (is_elem BindingElement) (children b ''elements''))" for e
    proof -
      have "(if has_child e ''name'' then binding_cost None (field e ''name'') else 0) \<le> kids e ''name''"
        using 1 [OF False e] child_cost [of e "''name''"] by (auto simp: has_child_def field_def)
      then show ?thesis
        using option_cost [of e "''initializer''"] key_cost [of e] kids_sum [of "[''name'', ''initializer'', ''propertyName'']" e]
        by simp
    qed
    then have "binding_cost None b \<le> sum_list (map (\<lambda>e. 8 * size e) (filter (is_elem BindingElement) (children b ''elements'')))"
      using False by (simp only: binding_cost.simps [of _ b] if_False) (intro sum_list_mono)
    also have "\<dots> \<le> kids b ''elements''"
      unfolding kids_def by (induction "children b ''elements''") (auto simp: sum_list_filter_le_nat)
    finally show ?thesis using kids_sum [of "[''elements'']" b] by simp
  qed
qed

lemma pushes_initialize: "pushes (initialize_binding env e a b) (case e of Some x \<Rightarrow> node_cost x | None \<Rightarrow> 0)"
proof (cases e)
  case (Some x)
  have "pushes (flow_sequence env [x] c b) (node_cost x)" for c
    using pushes_sequence [of env "[x]" c b] by simp
  then show ?thesis unfolding initialize_binding_def Some by (simp add: pushes_seq pushes_point pushes_edge)
qed (simp add: initialize_binding_def pushes_edge)

definition element_cost :: "(nat \<times> node) list option \<Rightarrow> node \<Rightarrow> nat" where
  "element_cost references e = 1 + binding_cost references (field e ''name'') +
     (case child e ''initializer'' of Some x \<Rightarrow> node_cost x | None \<Rightarrow> 0) +
     (case element_task_key e of Some x \<Rightarrow> node_cost x | None \<Rightarrow> 0)"

lemma pattern_cost:
  "\<not> isIdentifier b \<Longrightarrow>
   binding_cost references b = sum_list (map (element_cost references) (filter (is_elem BindingElement) (children b ''elements'')))"
  by (subst binding_cost.simps) (simp add: element_cost_def binding_cost_field [symmetric] fun_eq_iff cong: map_cong)

lemma pushes_elements:
  "pushes (push_elements env origin references es a b) (sum_list (map (element_cost references) es))"
proof (induction es arbitrary: a)
  case (Cons e es)
  let ?task = "\<lambda>p. BindingTask (field e ''name'') origin a p references (child e ''initializer'') (element_task_key e)"
  have "pushes (push_task (?task p)) (element_cost references e)" for p
    using pushes_push [of "?task p"] by (simp add: element_cost_def)
  from pushes_bind [OF this Cons]
  have push: "pushes (State_Monad.bind (push_task (?task p)) (\<lambda>_. push_elements env origin references es p b))
      (sum_list (map (element_cost references) (e # es)))" for p
    by simp
  have "pushes (if es = [] then State_Monad.return b else new_point env None) 0"
    by (simp add: pushes_return pushes_point)
  from pushes_seq [OF this push] show ?case unfolding push_elements.simps .
qed (simp add: pushes_return)

lemma pushes_lowerBinding:
  "pushes (lowerBinding env b origin start exit references e key)
     (binding_cost references b + (case e of Some x \<Rightarrow> node_cost x | None \<Rightarrow> 0) + (case key of Some x \<Rightarrow> node_cost x | None \<Rightarrow> 0))"
proof -
  let ?init = "case e of Some x \<Rightarrow> node_cost x | None \<Rightarrow> 0" and ?key = "case key of Some x \<Rightarrow> node_cost x | None \<Rightarrow> 0"
  have entry: "pushes (case key of None \<Rightarrow> State_Monad.return start
      | Some k \<Rightarrow> do { p \<leftarrow> new_point env None; flow_sequence env [k] start p; State_Monad.return p }) ?key"
  proof (cases key)
    case (Some k)
    have "pushes (flow_sequence env [k] start p) (node_cost k)" for p using pushes_sequence [of env "[k]" start p] by simp
    from pushes_seq [OF pushes_point pushes_bind [OF this pushes_return]] Some show ?thesis by simp
  qed (simp add: pushes_return)
  have reference: "pushes (if isIdentifier r then flow_edge c d else flow_sequence env [r] c d) (if isIdentifier r then 0 else node_cost r)" for r c d
    using pushes_sequence [of env "[r]" c d] by (simp add: pushes_edge)
  have stored: "pushes (do { stored \<leftarrow> (if isIdentifier r then flow_store env origin r c d else State_Monad.return False);
      (if stored then State_Monad.return () else flow_edge c d) }) 0" for r c d
    by (intro pushes_seq pushes_if pushes_store pushes_return pushes_edge)
  show ?thesis
  proof (cases "isIdentifier b")
    case True
    let ?r = "binding_reference references b"
    have "pushes (do { c \<leftarrow> new_point env None; set_entry ?r f;
        (if isIdentifier ?r then flow_edge f c else flow_sequence env [?r] f c);
        initialize_binding env e c d;
        stored \<leftarrow> (if isIdentifier ?r then flow_store env origin ?r d exit else State_Monad.return False);
        (if stored then State_Monad.return () else flow_edge d exit) }) (binding_cost references b + ?init)" for f d
    proof -
      have cost: "binding_cost references b + ?init = (if isIdentifier ?r then 0 else node_cost ?r) + (?init + 0)"
        using True by (simp add: binding_cost.simps [of references b])
      show ?thesis
        unfolding cost
        by (rule pushes_seq [OF pushes_point], rule pushes_seq [OF pushes_set_entry], rule pushes_bind [OF reference],
            rule pushes_bind [OF pushes_initialize], rule stored)
    qed
    from pushes_bind [OF entry pushes_seq [OF pushes_point this]] True show ?thesis
      by (simp add: lowerBinding_def Let_def add.commute add.left_commute)
  next
    case False
    let ?es = "filter (is_elem BindingElement) (children b ''elements'')"
    have last: "pushes (if ?es = [] then flow_edge d exit else State_Monad.return ()) 0" for d
      by (simp add: pushes_edge pushes_return)
    have "pushes (do { initialize_binding env e f d; push_elements env origin references ?es d exit;
        (if ?es = [] then flow_edge d exit else State_Monad.return ()) }) (?init + (binding_cost references b + 0))" for f d
      unfolding pattern_cost [OF False]
      by (rule pushes_bind [OF pushes_initialize], rule pushes_bind [OF pushes_elements], rule last)
    from pushes_bind [OF entry pushes_seq [OF pushes_point this]] False show ?thesis
      by (simp add: lowerBinding_def Let_def add.commute add.left_commute)
  qed
qed


section \<open>Nodes\<close>

text \<open>A normalized destructuring target is not worth more than the target.\<close>

definition targets_bounded :: "flow_env \<Rightarrow> bool" where
  "targets_bounded env \<longleftrightarrow> (case assignmentTarget env of None \<Rightarrow> True
     | Some f \<Rightarrow> \<forall>left b references. f left = (Some b, references) \<longrightarrow> binding_cost (Some references) b < node_cost left)"

lemma pushes_single: "pushes (flow_sequence env [e] a b) (node_cost e)"
  using pushes_sequence [of env "[e]" a b] by simp

lemma pushes_node: "pushes (push_task (NodeTask n a b)) (node_cost n)"
  using pushes_push [of "NodeTask n a b"] by simp

lemma pushes_selection: "pushes (lower_selection env x y a b c) (node_cost x + node_cost y)"
  unfolding lower_selection_def
  by (rule pushes_seq [OF pushes_point], rule pushes_seq [OF pushes_point], rule pushes_bind [OF pushes_single],
      rule pushes_seq [OF pushes_edge], rule pushes_seq [OF pushes_edge], rule pushes_single)

lemma pushes_declaration: "pushes (lower_declaration env n a b) (kids n ''initializer'' + kids n ''name'' + 1)"
proof (cases "child n ''initializer''")
  case (Some e)
  let ?task = "\<lambda>p. BindingTask (field n ''name'') n p b None None None"
  have name: "flow_cost (?task p) \<le> kids n ''name'' + 1" for p
    using binding_cost_None [of "field n ''name''"] child_cost [of n "''name''"]
    by (auto simp: field_def split: option.splits)
  have "node_cost e + flow_cost (?task p) \<le> kids n ''initializer'' + kids n ''name'' + 1" for p
    using name [of p] child_cost [OF Some] node_cost_le [of e] by linarith
  then have "pushes (do { flow_sequence env [e] a p; push_task (?task p) }) (kids n ''initializer'' + kids n ''name'' + 1)" for p
    by (rule pushes_mono [OF pushes_bind [OF pushes_single pushes_push]])
  from pushes_seq [OF pushes_point this] show ?thesis by (simp only: lower_declaration_def Some option.case)
qed (simp add: lower_declaration_def pushes_mono [OF pushes_edge])

lemma pushes_if_statement:
  "pushes (lower_if env n a b) (kids n ''expression'' + kids n ''thenStatement'' + kids n ''elseStatement'' + 2)"
proof -
  have orelse: "pushes (case child n ''elseStatement'' of Some e \<Rightarrow> push_task (NodeTask e c b) | None \<Rightarrow> flow_edge c b)
      (case child n ''elseStatement'' of Some e \<Rightarrow> node_cost e | None \<Rightarrow> 0)" for c
    by (cases "child n ''elseStatement''") (simp_all add: pushes_edge pushes_node)
  have "pushes (lower_if env n a b) (node_cost (field n ''expression'') + (node_cost (field n ''thenStatement'') +
      (case child n ''elseStatement'' of Some e \<Rightarrow> node_cost e | None \<Rightarrow> 0)))"
    unfolding lower_if_def
    by (rule pushes_seq [OF pushes_point], rule pushes_bind [OF pushes_single], rule pushes_seq [OF pushes_point],
        rule pushes_seq [OF pushes_point], rule pushes_seq [OF pushes_edge], rule pushes_seq [OF pushes_edge],
        rule pushes_bind [OF pushes_node], rule orelse)
  then show ?thesis
    by (rule pushes_mono)
      (use field_cost [of n "''expression''"] field_cost [of n "''thenStatement''"] option_cost [of n "''elseStatement''"] in simp)
qed

lemma pushes_conditional:
  "pushes (lower_conditional env n a b) (kids n ''condition'' + kids n ''whenTrue'' + kids n ''whenFalse'' + 3)"
proof -
  have "pushes (lower_conditional env n a b) (node_cost (field n ''condition'') + (node_cost (field n ''whenTrue'') +
      node_cost (field n ''whenFalse'')))"
    unfolding lower_conditional_def
    by (rule pushes_seq [OF pushes_point], rule pushes_seq [OF pushes_point], rule pushes_seq [OF pushes_point],
        rule pushes_bind [OF pushes_single], rule pushes_seq [OF pushes_edge], rule pushes_seq [OF pushes_edge],
        rule pushes_bind [OF pushes_node], rule pushes_node)
  then show ?thesis
    by (rule pushes_mono)
      (use field_cost [of n "''condition''"] field_cost [of n "''whenTrue''"] field_cost [of n "''whenFalse''"] in simp)
qed

lemma flow_operand_cost: "node_cost (transparent (field n f)) \<le> kids n f + 1"
  using transparent_cost_le [of "field n f"] field_cost [of n f] by simp

lemma pushes_identifier_assignment:
  "pushes (lower_identifier_assignment env n operator left a b) (node_cost left + node_cost (field n ''right''))"
proof -
  have "pushes (if \<not> stored then flow_opaque env [n] a b
      else if is_logical_assignment operator then lower_selection env left (field n ''right'') a b c
      else flow_sequence env (if operator = EqualsToken then [field n ''right''] else [left, field n ''right'']) a c)
      (node_cost left + node_cost (field n ''right''))" for stored c
    using pushes_sequence [of env "[left, field n ''right'']" a c]
    by (auto intro: pushes_mono [OF pushes_opaque] pushes_mono [OF pushes_node] pushes_selection)
  then show ?thesis unfolding lower_identifier_assignment_def by (intro pushes_seq pushes_point pushes_set_entry pushes_store)
qed

lemma pushes_pattern_assignment:
  assumes "targets_bounded env"
  shows "pushes (lower_pattern_assignment env n operator left a b) (node_cost left + node_cost (field n ''right''))"
proof (cases "\<exists>f binding references. operator = EqualsToken \<and> assignmentTarget env = Some f \<and> f left = (Some binding, references)")
  case True
  then obtain f binding references where t: "operator = EqualsToken" "assignmentTarget env = Some f" "f left = (Some binding, references)"
    by blast
  let ?task = "\<lambda>p. BindingTask binding n p b (Some references) None None"
  have "node_cost (field n ''right'') + flow_cost (?task p) \<le> node_cost left + node_cost (field n ''right'')" for p
    using assms t by (force simp: targets_bounded_def)
  then have "pushes (do { flow_sequence env [field n ''right''] a p; push_task (?task p) }) (node_cost left + node_cost (field n ''right''))" for p
    by (rule pushes_mono [OF pushes_bind [OF pushes_single pushes_push]])
  from pushes_seq [OF pushes_point this] t show ?thesis by (simp add: lower_pattern_assignment_def)
next
  case False
  then have "lower_pattern_assignment env n operator left a b = flow_opaque env [n] a b"
    by (auto simp: lower_pattern_assignment_def split: option.splits prod.splits)
  then show ?thesis by (simp add: pushes_mono [OF pushes_opaque])
qed

lemma pushes_binary:
  assumes "targets_bounded env"
  shows "pushes (lower_binary env n a b) (kids n ''left'' + kids n ''right'' + 2)"
proof -
  have cost: "node_cost (transparent (field n ''left'')) + node_cost (field n ''right'') \<le> kids n ''left'' + kids n ''right'' + 2"
      "node_cost (field n ''left'') + node_cost (field n ''right'') \<le> kids n ''left'' + kids n ''right'' + 2"
    using flow_operand_cost [of n "''left''"] field_cost [of n "''left''"] field_cost [of n "''right''"] by simp_all
  have sequence: "pushes (flow_sequence env [field n ''left'', field n ''right''] a b) (node_cost (field n ''left'') + node_cost (field n ''right''))"
    using pushes_sequence [of env "[field n ''left'', field n ''right'']" a b] by simp
  show ?thesis
    unfolding lower_binary_def Let_def
    by (intro pushes_if pushes_mono [OF pushes_identifier_assignment cost(1)] pushes_mono [OF pushes_pattern_assignment [OF assms] cost(1)]
        pushes_mono [OF pushes_selection cost(2)] pushes_mono [OF sequence cost(2)])
qed

lemma pushes_unary: "pushes (lower_unary env n a b) (kids n ''operand'' + 1)"
  unfolding lower_unary_def Let_def
  by (intro pushes_if pushes_seq pushes_point pushes_store pushes_mono [OF pushes_single flow_operand_cost] pushes_mono [OF pushes_single field_cost])


lemma computed_name_cost: "sum_list (map node_cost (computed_name n)) \<le> kids n ''name''"
proof (cases "child n ''name''")
  case (Some p)
  have "node_cost (field p ''expression'') \<le> 8 * size p"
    using field_cost [of p "''expression''"] kids_sum [of "[''expression'']" p] by simp
  with child_cost [OF Some] show ?thesis by (simp add: computed_name_def field_def Some)
qed (simp add: computed_name_def field_def missing_node_def is_elem_def)

lemma template_cost: "sum_list (map node_cost (template_expressions t)) \<le> kids t ''templateSpans''"
proof -
  have "node_cost (field span ''expression'') \<le> 8 * size span" for span
    using field_cost [of span "''expression''"] kids_sum [of "[''expression'']" span] by simp
  then show ?thesis unfolding template_expressions_def kids_def map_map comp_def by (rule sum_list_mono)
qed

lemma nested_cost: "kids (field n f) g \<le> kids n f"
proof (cases "child n f")
  case (Some c)
  then show ?thesis using child_cost [OF Some] kids_sum [of "[g]" c] by (simp add: field_def)
qed (simp add: field_def kids_def missing_node_def children_def)

lemma option_list_cost: "sum_list (map node_cost (case child n f of Some e \<Rightarrow> [e] | None \<Rightarrow> [])) \<le> kids n f"
  using option_cost [of n f] by (simp split: option.splits)

definition cheap :: "node \<Rightarrow> node list \<Rightarrow> bool" where
  "cheap n parts \<longleftrightarrow> sum_list (map node_cost parts) < 8 * size n"

lemma cheap_children: "cheap n (children n f)"
  using children_cost [of n f] kids_sum [of "[f]" n] by (simp add: cheap_def)

lemma cheap_field: "cheap n [field n f]"
  using field_cost [of n f] kids_sum [of "[f]" n] by (simp add: cheap_def)

lemma cheap_field_then:
  assumes "sum_list (map node_cost parts) \<le> kids n g" "f \<noteq> g"
  shows "cheap n (field n f # parts)" and "cheap n (parts @ [field n f])"
  using field_cost [of n f] kids_sum [of "[f, g]" n] assms by (simp_all add: cheap_def)

lemma cheap_kids: "sum_list (map node_cost parts) \<le> kids n f \<Longrightarrow> cheap n parts"
  using kids_sum [of "[f]" n] by (simp add: cheap_def)

lemma cheap_nested: "cheap n (children (field n f) g)"
  by (rule cheap_kids [of _ _ f]) (use children_cost [of "field n f" g] nested_cost [of n f g] in simp)

lemma tagged_cost: "sum_list (map node_cost (if b then template_expressions (field n ''template'') else [])) \<le> kids n ''template''"
  using template_cost [of "field n ''template''"] nested_cost [of n "''template''" "''templateSpans''"] by simp

lemma if_Some_cases: "(if b then Some x else y) = Some z \<Longrightarrow> (b \<Longrightarrow> x = z \<Longrightarrow> P) \<Longrightarrow> (\<not> b \<Longrightarrow> y = Some z \<Longrightarrow> P) \<Longrightarrow> P"
  by (cases b) auto

lemma sequential_cost: "sequential_parts n = Some parts \<Longrightarrow> cheap n parts"
  unfolding sequential_parts_def
  by (elim if_Some_cases; (hypsubst, (rule cheap_children cheap_field cheap_nested cheap_field_then [OF children_cost]
        cheap_field_then [OF option_list_cost] cheap_field_then [OF computed_name_cost] cheap_kids [OF computed_name_cost]
        cheap_kids [OF option_list_cost] cheap_kids [OF template_cost] cheap_field_then [OF tagged_cost]; simp) | simp add: cheap_def))

lemma pushes_lower:
  assumes "targets_bounded env"
  shows "\<exists>c < node_cost n. pushes (flow_lower env n a b x) c"
proof (cases "n = missing_node")
  case True
  then have "pushes (flow_lower env n a b x) 0"
    unfolding flow_lower_def
    by (auto simp: missing_node_def is_transparent_def is_elem_def is_stmt_def is_expr_def is_kind_def sequential_parts_def
        intro!: pushes_seq pushes_set_entry pushes_edge pushes_opaque)
  then show ?thesis by (intro exI [of _ 0]) simp
next
  case False
  define c where "c = 8 * size n - 1"
  have c: "c < node_cost n" using False node_size_pos [of n] by (simp add: c_def node_cost_def)
  have small: "m \<le> c" if "m < 8 * size n" for m using that by (simp add: c_def)
  note kids1 = kids_sum [of "[f]" n for f] and kids2 = kids_sum [of "[f, g]" n for f g] and kids3 = kids_sum [of "[f, g, h]" n for f g h]
  have "pushes (flow_sequence env [transparent n] a b) c" if "is_transparent n"
    by (rule pushes_mono [OF pushes_single small])
      (use transparent_cost [OF that] kids_sum [of "[''expression'']" n] in simp)
  moreover have "pushes (lower_declaration env n a b) c"
    by (rule pushes_mono [OF pushes_declaration small]) (use kids_sum [of "[''initializer'', ''name'']" n] in simp)
  moreover have "pushes (lower_if env n a b) c"
    by (rule pushes_mono [OF pushes_if_statement small])
      (use kids_sum [of "[''expression'', ''thenStatement'', ''elseStatement'']" n] in simp)
  moreover have "pushes (lower_conditional env n a b) c"
    by (rule pushes_mono [OF pushes_conditional small])
      (use kids_sum [of "[''condition'', ''whenTrue'', ''whenFalse'']" n] in simp)
  moreover have "pushes (flow_sequence env (case child n ''expression'' of Some e \<Rightarrow> [e] | None \<Rightarrow> []) a x) c"
    by (rule pushes_mono [OF pushes_sequence small])
      (use option_list_cost [of n "''expression''"] kids_sum [of "[''expression'']" n] in simp)
  moreover have "pushes (lower_binary env n a b) c"
    by (rule pushes_mono [OF pushes_binary [OF assms] small]) (use kids_sum [of "[''left'', ''right'']" n] in simp)
  moreover have "pushes (lower_unary env n a b) c"
    by (rule pushes_mono [OF pushes_unary small]) (use kids_sum [of "[''operand'']" n] in simp)
  moreover have "pushes (case sequential_parts n of Some parts \<Rightarrow> flow_sequence env parts a b | None \<Rightarrow> flow_opaque env [n] a b) c"
    by (auto split: option.split intro: pushes_mono [OF pushes_opaque] pushes_mono [OF pushes_sequence small] sequential_cost [unfolded cheap_def])
  ultimately have "pushes (flow_lower env n a b x) c"
    unfolding flow_lower_def by (intro pushes_seq pushes_set_entry pushes_if pushes_mono [OF pushes_edge]) auto
  with c show ?thesis by blast
qed

lemma pushes_turn:
  assumes "targets_bounded env"
  shows "\<exists>c < flow_cost t. pushes (flow_turn env x t) c"
proof (cases t)
  case (NodeTask n a b)
  then show ?thesis using pushes_lower [OF assms, of n a b x] by (simp add: flow_turn_def)
next
  case (BindingTask b origin i j references e key)
  let ?c = "binding_cost references b + (case e of Some x \<Rightarrow> node_cost x | None \<Rightarrow> 0) + (case key of Some x \<Rightarrow> node_cost x | None \<Rightarrow> 0)"
  have "?c < flow_cost t" by (simp add: BindingTask)
  moreover have "pushes (flow_turn env x t) ?c" by (simp add: BindingTask flow_turn_def pushes_lowerBinding)
  ultimately show ?thesis by blast
qed

lemma flow_loop_returns:
  assumes "targets_bounded env" "stack_cost (tasks s) \<le> n"
  shows "\<exists>g. flow_loop n env x s = Some g"
  using assms(2)
proof (induction n arbitrary: s)
  case 0
  then have "tasks s = []" by (cases "tasks s"; cases "hd (tasks s)") (auto simp: stack_cost_def)
  then show ?case by simp
next
  case (Suc n)
  show ?case
  proof (cases "tasks s")
    case (Cons t ts)
    obtain c where c: "c < flow_cost t" "pushes (flow_turn env x t) c" using pushes_turn [OF assms(1)] by blast
    have "stack_cost (tasks (snd (run_state (flow_turn env x t) (s\<lparr>tasks := ts\<rparr>)))) \<le> stack_cost ts + c"
      using c(2) [unfolded pushes_def, rule_format, of "s\<lparr>tasks := ts\<rparr>"] by simp
    with c(1) Suc.prems Cons show ?thesis by (simp add: Suc.IH stack_cost_def)
  qed simp
qed



text \<open>The body \<open>{ x = y; }\<close> of a frame with one write, the one of \<open>x\<close>.\<close>

definition example_identifier :: "nat \<Rightarrow> string \<Rightarrow> node" where
  "example_identifier i t = synthesized i Identifier t []"

definition example_assignment :: node where
  "example_assignment = synthesized 3 (Expression BinaryExpression) [] [(''left'', example_identifier 4 ''x''),
     (''operatorToken'', synthesized 5 (Token EqualsToken) [] []), (''right'', example_identifier 6 ''y'')]"

definition example_body :: node where
  "example_body = synthesized 1 (Statement Block) []
     [(''statements'', synthesized 2 (Statement ExpressionStatement) [] [(''expression'', example_assignment)])]"

definition example_flow_env :: flow_env where
  "example_flow_env = \<lparr>env_writes = (\<lambda>n. if node_id n = 3 then [(4, \<lparr>write_id = 0, write_origin = n, write_reference = example_identifier 4 ''x''\<rparr>)] else []),
     sameFrame = (\<lambda>_. True), symbolFor = (\<lambda>n. if node_text n = ''x'' then Some 0 else None), assignmentTarget = None\<rparr>"


end
