(* ===== verification/Reaching_Solver.thy ===== *)
theory Reaching_Solver
  imports Reaching_Bounds
begin

text \<open>
  The solver of \<open>SourceReachingWrites.reaching\<close>: forward propagation of definitions over the points of the
  graph, with a worklist of points and the definitions that arrived since their last turn. Theorems: it
  ends, and what it computes for a read are exactly the last stores on the paths that lead to the read.
\<close>

section \<open>The solver\<close>

type_synonym definition_value = "lexical_write option"

text \<open>\<open>facts\<close> and \<open>deltas\<close> are maps from points to sets in insertion order; a missing key is the empty list.\<close>

record solver_state =
  facts :: "nat \<Rightarrow> definition_value list"
  deltas :: "nat \<Rightarrow> definition_value list"
  pending :: "nat list"
  queued :: "nat list"
  stored :: "nat list"

definition add_values :: "definition_value list \<Rightarrow> nat \<Rightarrow> solver_state \<Rightarrow> solver_state" where
  "add_values values index s =
     (let new = filter (\<lambda>v. v \<notin> set (facts s index)) values;
          delta = deltas s index @ new;
          s' = s\<lparr>facts := (facts s)(index := facts s index @ new), deltas := (deltas s)(index := delta)\<rparr>
      in if delta \<noteq> [] \<and> index \<notin> set (queued s)
         then s'\<lparr>queued := index # queued s, pending := index # pending s\<rparr> else s')"

definition is_store :: "flow_point list \<Rightarrow> nat \<Rightarrow> nat \<Rightarrow> bool" where
  "is_store pts symbol i \<longleftrightarrow> point_write (pts ! i) \<noteq> None \<and> point_symbol (pts ! i) = Some symbol"

definition solver_turn :: "flow_point list \<Rightarrow> nat \<Rightarrow> nat \<Rightarrow> solver_state \<Rightarrow> solver_state" where
  "solver_turn pts symbol index s =
     (let delta = deltas s index; p = pts ! index;
          s1 = s\<lparr>pending := tl (pending s), queued := filter (\<lambda>i. i \<noteq> index) (queued s), deltas := (deltas s)(index := [])\<rparr>
      in if is_store pts symbol index then
           if index \<in> set (stored s) then s1
           else fold (add_values [point_write p]) (point_successors p) (s1\<lparr>stored := index # stored s\<rparr>)
         else fold (add_values delta) (point_successors p) s1)"

fun solver_loop :: "nat \<Rightarrow> flow_point list \<Rightarrow> nat \<Rightarrow> solver_state \<Rightarrow> solver_state option" where
  "solver_loop 0 pts symbol s = (if pending s = [] then Some s else None)"
| "solver_loop (Suc n) pts symbol s =
     (case pending s of [] \<Rightarrow> Some s | index # _ \<Rightarrow> solver_loop n pts symbol (solver_turn pts symbol index s))"

definition solver_start :: solver_state where
  "solver_start = add_values [None] 0 \<lparr>facts = (\<lambda>_. []), deltas = (\<lambda>_. []), pending = [], queued = [], stored = []\<rparr>"

text \<open>Every turn of the loop follows a definition that arrived at a point: with \<open>n\<close> points there are at most
  \<open>n * (n + 1)\<close> of them.\<close>

definition solver_fuel :: "flow_point list \<Rightarrow> nat" where
  "solver_fuel pts = length pts * Suc (length pts)"

definition readsOf :: "flow_env \<Rightarrow> flow_state \<Rightarrow> nat \<Rightarrow> nat list" where
  "readsOf env g symbol =
     map snd (filter (\<lambda>e. isIdentifier (fst e) \<and> symbolFor env (fst e) = Some symbol) (entries g))"

text \<open>What is kept of a solution: the definitions at the reads of the symbol, \<open>None\<close> elsewhere.\<close>

type_synonym solution = "(nat \<times> definition_value list) list"

definition solve :: "flow_env \<Rightarrow> flow_state \<Rightarrow> nat \<Rightarrow> solution option" where
  "solve env g symbol = map_option
     (\<lambda>s. map (\<lambda>i. (i, facts s i)) (filter (\<lambda>i. facts s i \<noteq> []) (readsOf env g symbol)))
     (solver_loop (solver_fuel (points g)) (points g) symbol solver_start)"

text \<open>A query, with the cache of the solutions so far. The outer \<open>None\<close> is the end of the fuel, the inner one
  is \<open>null\<close>.\<close>

definition reaching :: "flow_env \<Rightarrow> flow_state \<Rightarrow> node \<Rightarrow> (nat \<times> solution) list \<Rightarrow>
    (definition_value list option \<times> (nat \<times> solution) list) option" where
  "reaching env g reference solutions =
     (case (entry_at reference (entries g), symbolFor env reference) of
        (Some at, Some symbol) \<Rightarrow>
          (let answer = (\<lambda>sol. case map_of sol at of
                 None \<Rightarrow> None | Some ds \<Rightarrow> if None \<in> set ds then None else Some ds)
           in case map_of solutions symbol of
               Some sol \<Rightarrow> Some (answer sol, solutions)
             | None \<Rightarrow> map_option (\<lambda>sol. (answer sol, (symbol, sol) # solutions)) (solve env g symbol))
      | _ \<Rightarrow> Some (None, solutions))"

section \<open>Paths\<close>

text \<open>The meaning of the graph: along a path a store of the symbol replaces the definition, at the start there
  is none.\<close>

inductive flows :: "flow_point list \<Rightarrow> nat \<Rightarrow> definition_value \<Rightarrow> nat \<Rightarrow> bool" for pts symbol where
  flow_start: "flows pts symbol None 0"
| flow_step: "flows pts symbol v i \<Longrightarrow> j \<in> set (point_successors (pts ! i)) \<Longrightarrow>
    flows pts symbol (if is_store pts symbol i then point_write (pts ! i) else v) j"

text \<open>All successors are points.\<close>

definition graph_ok :: "flow_point list \<Rightarrow> bool" where
  "graph_ok pts \<longleftrightarrow> pts \<noteq> [] \<and> (\<forall>p\<in>set pts. \<forall>j\<in>set (point_successors p). j < length pts)"


lemma flows_point: "flows pts symbol v i \<Longrightarrow> graph_ok pts \<Longrightarrow> i < length pts"
  by (induction rule: flows.induct) (auto simp: graph_ok_def)

text \<open>The definitions that can reach anything: none, and the writes of the points.\<close>

definition possible_values :: "flow_point list \<Rightarrow> definition_value set" where
  "possible_values pts = insert None (point_write ` set pts)"

lemma flows_possible: "flows pts symbol v i \<Longrightarrow> graph_ok pts \<Longrightarrow> v \<in> possible_values pts"
  by (induction rule: flows.induct) (auto simp: possible_values_def dest: flows_point)

lemma card_possible: "card (possible_values pts) \<le> Suc (length pts)"
  unfolding possible_values_def
  using card_insert_le_m1 [of "Suc (length pts)" "point_write ` set pts" None] card_image_le [of "set pts" point_write] card_length [of pts]
  by simp

section \<open>The invariant of the solver\<close>

definition solver_base :: "flow_point list \<Rightarrow> nat \<Rightarrow> solver_state \<Rightarrow> bool" where
  "solver_base pts symbol s \<longleftrightarrow>
     (\<forall>i. distinct (facts s i) \<and> (\<forall>v\<in>set (facts s i). flows pts symbol v i) \<and> set (deltas s i) \<subseteq> set (facts s i) \<and>
        distinct (deltas s i) \<and> (deltas s i \<noteq> [] \<longleftrightarrow> i \<in> set (pending s))) \<and>
     set (queued s) = set (pending s) \<and> distinct (pending s)"

definition total_facts :: "flow_point list \<Rightarrow> solver_state \<Rightarrow> nat" where
  "total_facts pts s = (\<Sum>i<length pts. length (facts s i))"

definition grows :: "flow_point list \<Rightarrow> solver_state \<Rightarrow> solver_state \<Rightarrow> bool" where
  "grows pts s s' \<longleftrightarrow> stored s' = stored s \<and> length (pending s') + total_facts pts s \<le> length (pending s) + total_facts pts s'"

lemma add_values_sets:
  "set (facts (add_values vs j s) i) = set (facts s i) \<union> (if i = j then set vs else {})"
  "set (deltas (add_values vs j s) i) = set (deltas s i) \<union> (if i = j then set vs - set (facts s i) else {})"
  by (auto simp: add_values_def Let_def)

lemma total_facts_update:
  assumes "j < length pts"
  shows "total_facts pts (s\<lparr>facts := (facts s)(j := facts s j @ new)\<rparr>) = total_facts pts s + length new"
proof -
  have "(\<Sum>i<length pts. length (if i = j then facts s j @ new else facts s i)) =
      (\<Sum>i<length pts. length (facts s i) + (if i = j then length new else 0))"
    by (intro sum.cong) auto
  also have "\<dots> = (\<Sum>i<length pts. length (facts s i)) + length new"
    using assms by (simp add: sum.distrib)
  finally show ?thesis by (simp add: total_facts_def fun_upd_def)
qed

lemma add_values_base:
  assumes "solver_base pts symbol s" "distinct vs" "\<And>v. v \<in> set vs \<Longrightarrow> flows pts symbol v j" "j < length pts"
  shows "solver_base pts symbol (add_values vs j s)" and "grows pts s (add_values vs j s)"
proof -
  define new where "new = filter (\<lambda>v. v \<notin> set (facts s j)) vs"
  have new: "distinct new" "set new \<inter> set (facts s j) = {}" "\<And>v. v \<in> set new \<Longrightarrow> flows pts symbol v j"
    using assms(2,3) by (auto simp: new_def)
  have add: "add_values vs j s =
      (let s' = s\<lparr>facts := (facts s)(j := facts s j @ new), deltas := (deltas s)(j := deltas s j @ new)\<rparr>
       in if deltas s j @ new \<noteq> [] \<and> j \<notin> set (queued s)
          then s'\<lparr>queued := j # queued s, pending := j # pending s\<rparr> else s')"
    by (simp add: add_values_def new_def Let_def)
  show "solver_base pts symbol (add_values vs j s)"
    using assms(1) new unfolding solver_base_def add Let_def by auto
  have "total_facts pts (add_values vs j s) = total_facts pts s + length new"
    using total_facts_update [OF assms(4), of s new] by (simp add: add Let_def total_facts_def)
  moreover have "deltas s j = []" if "j \<notin> set (queued s)"
    using assms(1) that by (auto simp: solver_base_def)
  ultimately show "grows pts s (add_values vs j s)"
    by (auto simp: grows_def add Let_def neq_Nil_conv)
qed

lemma fold_add_values:
  assumes "solver_base pts symbol s" "distinct vs" "\<And>v j. v \<in> set vs \<Longrightarrow> j \<in> set ks \<Longrightarrow> flows pts symbol v j"
    and "\<And>j. j \<in> set ks \<Longrightarrow> j < length pts"
  shows "solver_base pts symbol (fold (add_values vs) ks s) \<and> grows pts s (fold (add_values vs) ks s) \<and>
    (\<forall>i. set (facts (fold (add_values vs) ks s) i) = set (facts s i) \<union> (if i \<in> set ks then set vs else {}) \<and>
      set (deltas (fold (add_values vs) ks s) i) = set (deltas s i) \<union> (if i \<in> set ks then set vs - set (facts s i) else {}))"
  using assms(1,3,4)
proof (induction ks arbitrary: s)
  case (Cons j ks)
  have step: "solver_base pts symbol (add_values vs j s)" "grows pts s (add_values vs j s)"
    using add_values_base [OF Cons.prems(1) assms(2)] Cons.prems(2,3) by auto
  from Cons.IH [OF step(1)] Cons.prems(2,3) step(2) show ?case
    by (auto simp: add_values_sets grows_def)
qed (simp add: grows_def)


text \<open>What was propagated: a definition that is no longer waiting has gone to all successors, a store that
  was reached and has had its turn has sent out its write.\<close>

definition solver_inv :: "flow_point list \<Rightarrow> nat \<Rightarrow> solver_state \<Rightarrow> bool" where
  "solver_inv pts symbol s \<longleftrightarrow> solver_base pts symbol s \<and> None \<in> set (facts s 0) \<and>
     (\<forall>i. \<forall>j\<in>set (point_successors (pts ! i)).
        (\<not> is_store pts symbol i \<longrightarrow> set (facts s i) - set (deltas s i) \<subseteq> set (facts s j)) \<and>
        (is_store pts symbol i \<and> i \<in> set (stored s) \<longrightarrow> point_write (pts ! i) \<in> set (facts s j))) \<and>
     (\<forall>i. is_store pts symbol i \<and> facts s i \<noteq> [] \<and> i \<notin> set (stored s) \<longrightarrow> deltas s i \<noteq> [])"

lemma solver_invD:
  assumes "solver_inv pts symbol s"
  shows "solver_base pts symbol s" "None \<in> set (facts s 0)"
    "\<And>i j v. j \<in> set (point_successors (pts ! i)) \<Longrightarrow> \<not> is_store pts symbol i \<Longrightarrow> v \<in> set (facts s i) \<Longrightarrow> v \<notin> set (deltas s i) \<Longrightarrow>
       v \<in> set (facts s j)"
    "\<And>i j. j \<in> set (point_successors (pts ! i)) \<Longrightarrow> is_store pts symbol i \<Longrightarrow> i \<in> set (stored s) \<Longrightarrow>
       point_write (pts ! i) \<in> set (facts s j)"
    "\<And>i. is_store pts symbol i \<Longrightarrow> facts s i \<noteq> [] \<Longrightarrow> i \<notin> set (stored s) \<Longrightarrow> deltas s i \<noteq> []"
  using assms unfolding solver_inv_def by blast+

lemma solver_baseD:
  assumes "solver_base pts symbol s"
  shows "\<And>i. distinct (facts s i)" "\<And>i v. v \<in> set (facts s i) \<Longrightarrow> flows pts symbol v i"
    "\<And>i v. v \<in> set (deltas s i) \<Longrightarrow> v \<in> set (facts s i)" "\<And>i. deltas s i \<noteq> [] \<longleftrightarrow> i \<in> set (pending s)"
    "set (queued s) = set (pending s)" "distinct (pending s)" "\<And>i. distinct (deltas s i)"
  using assms unfolding solver_base_def by blast+

text \<open>The state in a turn, when the point is off the worklist.\<close>

definition popped :: "nat \<Rightarrow> solver_state \<Rightarrow> solver_state" where
  "popped index s = s\<lparr>pending := tl (pending s), queued := filter (\<lambda>i. i \<noteq> index) (queued s), deltas := (deltas s)(index := [])\<rparr>"

lemma popped_base:
  assumes "solver_base pts symbol s" "pending s = index # rest"
  shows "solver_base pts symbol (popped index s)"
  using assms unfolding solver_base_def popped_def by (auto split: if_splits)

lemma popped_simps [simp]:
  "facts (popped index s) = facts s" "stored (popped index s) = stored s" "pending (popped index s) = tl (pending s)"
  "deltas (popped index s) = (deltas s)(index := [])"
  by (simp_all add: popped_def)

lemma base_stored [simp]: "solver_base pts symbol (s\<lparr>stored := x\<rparr>) = solver_base pts symbol s"
  by (simp add: solver_base_def)

lemma total_simps [simp]: "total_facts pts (popped index s) = total_facts pts s" "total_facts pts (s\<lparr>stored := x\<rparr>) = total_facts pts s"
  by (simp_all add: total_facts_def)

lemma pending_flows:
  assumes "solver_base pts symbol s" "pending s = index # rest"
  obtains v where "flows pts symbol v index"
  using solver_baseD(2,3,4) [OF assms(1)] assms(2) by (metis list.set_intros(1) neq_Nil_conv)

lemma solver_turn_store:
  assumes g: "graph_ok pts" and inv: "solver_inv pts symbol s" and p: "pending s = index # rest"
    and store: "is_store pts symbol index" "index \<notin> set (stored s)"
  shows "solver_inv pts symbol (solver_turn pts symbol index s) \<and>
    Suc (length (pending (solver_turn pts symbol index s))) + total_facts pts s
      \<le> length (pending s) + total_facts pts (solver_turn pts symbol index s)"
proof -
  let ?ks = "point_successors (pts ! index)" and ?w = "point_write (pts ! index)"
  define s1 where "s1 = (popped index s)\<lparr>stored := index # stored s\<rparr>"
  note base = solver_invD(1) [OF inv]
  obtain u where u: "flows pts symbol u index" by (rule pending_flows [OF base p])
  have index: "index < length pts" by (rule flows_point [OF u g])
  have w: "flows pts symbol ?w j" if "j \<in> set ?ks" for j
    using flows.flow_step [OF u that] store(1) by simp
  define s' where "s' = fold (add_values [?w]) ?ks s1"
  have turn: "solver_turn pts symbol index s = s'"
    using store by (simp add: solver_turn_def Let_def s1_def s'_def popped_def)
  have base': "solver_base pts symbol s'" and grows: "grows pts s1 s'"
    and F: "\<And>i. set (facts s' i) = set (facts s i) \<union> (if i \<in> set ?ks then {?w} else {})"
    and D: "\<And>i. set (deltas s' i) = set (((deltas s)(index := [])) i) \<union> (if i \<in> set ?ks then {?w} - set (facts s i) else {})"
    using fold_add_values [of pts symbol s1 "[?w]" ?ks] popped_base [OF base p] w flows_point [OF w g]
    by (auto simp: s1_def s'_def)
  have stored': "stored s' = index # stored s"
    and len: "Suc (length (pending s')) + total_facts pts s \<le> length (pending s) + total_facts pts s'"
    using grows p by (auto simp: grows_def s1_def)
  have "solver_inv pts symbol s'"
    unfolding solver_inv_def
  proof (intro conjI allI ballI impI)
    show "None \<in> set (facts s' 0)" using solver_invD(2) [OF inv] by (simp add: F)
    show "set (facts s' i) - set (deltas s' i) \<subseteq> set (facts s' j)"
      if "j \<in> set (point_successors (pts ! i))" "\<not> is_store pts symbol i" for i j
      using solver_invD(3) [OF inv that] that(2) store(1) by (auto simp: F D)
    show "point_write (pts ! i) \<in> set (facts s' j)"
      if "j \<in> set (point_successors (pts ! i))" "is_store pts symbol i \<and> i \<in> set (stored s')" for i j
      using solver_invD(4) [OF inv that(1)] that by (auto simp: F stored')
    show "deltas s' i \<noteq> []"
      if a: "is_store pts symbol i \<and> facts s' i \<noteq> [] \<and> i \<notin> set (stored s')" for i
    proof (cases "facts s i = []")
      case True
      with a F [of i] have "i \<in> set ?ks" by (cases "i \<in> set ?ks") auto
      with True D [of i] show ?thesis by auto
    next
      case False
      then show ?thesis using solver_invD(5) [OF inv, of i] a D [of i] by (auto simp: stored')
    qed
  qed (rule base')
  with len show ?thesis by (simp add: turn)
qed

lemma solver_turn_flow:
  assumes g: "graph_ok pts" and inv: "solver_inv pts symbol s" and p: "pending s = index # rest"
    and store: "\<not> is_store pts symbol index"
  shows "solver_inv pts symbol (solver_turn pts symbol index s) \<and>
    Suc (length (pending (solver_turn pts symbol index s))) + total_facts pts s
      \<le> length (pending s) + total_facts pts (solver_turn pts symbol index s)"
proof -
  let ?ks = "point_successors (pts ! index)" and ?vs = "deltas s index"
  note base = solver_invD(1) [OF inv]
  have vs: "flows pts symbol v j" if "v \<in> set ?vs" "j \<in> set ?ks" for v j
    using flows.flow_step [OF solver_baseD(2) [OF base solver_baseD(3) [OF base that(1)]] that(2)] store by simp
  obtain u where u: "flows pts symbol u index" by (rule pending_flows [OF base p])
  have ks: "j < length pts" if "j \<in> set ?ks" for j
    using flows_point [OF flows.flow_step [OF u that] g] .
  define s' where "s' = fold (add_values ?vs) ?ks (popped index s)"
  have turn: "solver_turn pts symbol index s = s'"
    using store by (simp add: solver_turn_def Let_def s'_def popped_def)
  have base': "solver_base pts symbol s'" and grows: "grows pts (popped index s) s'"
    and F: "\<And>i. set (facts s' i) = set (facts s i) \<union> (if i \<in> set ?ks then set ?vs else {})"
    and D: "\<And>i. set (deltas s' i) = set (((deltas s)(index := [])) i) \<union> (if i \<in> set ?ks then set ?vs - set (facts s i) else {})"
    using fold_add_values [OF popped_base [OF base p] solver_baseD(7) [OF base] vs ks] by (auto simp: s'_def)
  have stored': "stored s' = stored s"
    and len: "Suc (length (pending s')) + total_facts pts s \<le> length (pending s) + total_facts pts s'"
    using grows p by (auto simp: grows_def)
  have "solver_inv pts symbol s'"
    unfolding solver_inv_def
  proof (intro conjI allI ballI impI)
    show "None \<in> set (facts s' 0)" using solver_invD(2) [OF inv] by (simp add: F)
    show "set (facts s' i) - set (deltas s' i) \<subseteq> set (facts s' j)"
      if "j \<in> set (point_successors (pts ! i))" "\<not> is_store pts symbol i" for i j
    proof
      fix v
      assume v: "v \<in> set (facts s' i) - set (deltas s' i)"
      then have "v \<in> set (facts s i)" by (auto simp: F D split: if_splits)
      with v that solver_invD(3) [OF inv that] show "v \<in> set (facts s' j)"
        by (cases "i = index") (auto simp: F D split: if_splits)
    qed
    show "point_write (pts ! i) \<in> set (facts s' j)"
      if "j \<in> set (point_successors (pts ! i))" "is_store pts symbol i \<and> i \<in> set (stored s')" for i j
      using solver_invD(4) [OF inv that(1)] that by (auto simp: F stored')
    show "deltas s' i \<noteq> []"
      if a: "is_store pts symbol i \<and> facts s' i \<noteq> [] \<and> i \<notin> set (stored s')" for i
    proof (cases "facts s i = []")
      case True
      have "\<exists>v. v \<in> set (facts s' i)" using a by (cases "facts s' i") auto
      with True F [of i] have "i \<in> set ?ks" "?vs \<noteq> []" by (auto split: if_splits)
      with True D [of i] show ?thesis by (cases ?vs) auto
    next
      case False
      then have "deltas s i \<noteq> []" using solver_invD(5) [OF inv, of i] a by (auto simp: stored')
      with a store D [of i] show ?thesis by (cases "i = index") auto
    qed
  qed (rule base')
  with len show ?thesis by (simp add: turn)
qed

lemma solver_turn_again:
  assumes inv: "solver_inv pts symbol s" and p: "pending s = index # rest"
    and store: "is_store pts symbol index" "index \<in> set (stored s)"
  shows "solver_inv pts symbol (solver_turn pts symbol index s) \<and>
    Suc (length (pending (solver_turn pts symbol index s))) + total_facts pts s
      \<le> length (pending s) + total_facts pts (solver_turn pts symbol index s)"
proof -
  have turn: "solver_turn pts symbol index s = popped index s"
    using store by (simp add: solver_turn_def Let_def popped_def)
  have "solver_inv pts symbol (popped index s)"
    unfolding solver_inv_def using solver_invD(2-5) [OF inv] popped_base [OF solver_invD(1) [OF inv] p] store by auto
  then show ?thesis using p by (simp add: turn)
qed

lemma solver_turn_inv:
  assumes "graph_ok pts" "solver_inv pts symbol s" "pending s = index # rest"
  shows "solver_inv pts symbol (solver_turn pts symbol index s)"
    and "Suc (length (pending (solver_turn pts symbol index s))) + total_facts pts s
      \<le> length (pending s) + total_facts pts (solver_turn pts symbol index s)"
  using solver_turn_store [OF assms] solver_turn_flow [OF assms] solver_turn_again [OF assms(2,3)] by blast+

lemma total_facts_bound:
  assumes "graph_ok pts" "solver_base pts symbol s"
  shows "total_facts pts s \<le> solver_fuel pts"
proof -
  have "length (facts s i) \<le> Suc (length pts)" for i
  proof -
    have "set (facts s i) \<subseteq> possible_values pts"
      using solver_baseD(2) [OF assms(2)] assms(1) by (auto intro: flows_possible)
    then have "card (set (facts s i)) \<le> card (possible_values pts)"
      by (intro card_mono) (simp_all add: possible_values_def)
    then show ?thesis
      using card_possible [of pts] distinct_card [OF solver_baseD(1) [OF assms(2)], of i] by simp
  qed
  then show ?thesis
    using sum_bounded_above [of "{..<length pts}" "\<lambda>i. length (facts s i)" "Suc (length pts)"]
    by (simp add: total_facts_def solver_fuel_def)
qed

lemma solver_loop_returns:
  assumes "graph_ok pts" "solver_inv pts symbol s" "length (pending s) + (solver_fuel pts - total_facts pts s) \<le> n"
  shows "\<exists>s'. solver_loop n pts symbol s = Some s' \<and> solver_inv pts symbol s' \<and> pending s' = []"
  using assms(2,3)
proof (induction n arbitrary: s)
  case (Suc n)
  show ?case
  proof (cases "pending s")
    case (Cons index rest)
    note turn = solver_turn_inv [OF assms(1) Suc.prems(1) Cons]
    have "length (pending (solver_turn pts symbol index s)) +
        (solver_fuel pts - total_facts pts (solver_turn pts symbol index s)) \<le> n"
      using turn(2) Suc.prems(2) total_facts_bound [OF assms(1) solver_invD(1) [OF turn(1)]] by linarith
    from Suc.IH [OF turn(1) this] Cons show ?thesis by simp
  qed (use Suc.prems in auto)
qed auto

lemma solver_inv_complete:
  assumes "solver_inv pts symbol s" "pending s = []"
  shows "v \<in> set (facts s i) \<longleftrightarrow> flows pts symbol v i"
proof
  have deltas: "deltas s k = []" for k
    using solver_baseD(4) [OF solver_invD(1) [OF assms(1)]] assms(2) by fastforce
  assume "flows pts symbol v i"
  then show "v \<in> set (facts s i)"
  proof (induction rule: flows.induct)
    case flow_start
    show ?case by (rule solver_invD(2) [OF assms(1)])
  next
    case (flow_step v i j)
    have "i \<in> set (stored s)" if "is_store pts symbol i"
      using solver_invD(5) [OF assms(1) that] flow_step.IH deltas by fastforce
    with flow_step deltas show ?case
      using solver_invD(3,4) [OF assms(1) flow_step.hyps(2)] by auto
  qed
qed (rule solver_baseD(2) [OF solver_invD(1) [OF assms(1)]])

lemma solver_start_inv:
  assumes "graph_ok pts"
  shows "solver_inv pts symbol solver_start" and "pending solver_start = [0]" and "total_facts pts solver_start = 1"
proof -
  have facts: "facts solver_start = (\<lambda>i. if i = 0 then [None] else [])" "deltas solver_start = facts solver_start"
    and queue: "pending solver_start = [0]" "queued solver_start = [0]" "stored solver_start = []"
    by (auto simp: solver_start_def add_values_def Let_def fun_eq_iff)
  show "pending solver_start = [0]" by (rule queue)
  show "solver_inv pts symbol solver_start"
    unfolding solver_inv_def solver_base_def using facts queue by (auto intro: flows.flow_start)
  have "{..<length pts} = insert 0 {1..<length pts}" using assms by (auto simp: graph_ok_def)
  then show "total_facts pts solver_start = 1" by (simp add: total_facts_def facts)
qed

lemma solver_exact:
  assumes "graph_ok pts"
  obtains s where "solver_loop (solver_fuel pts) pts symbol solver_start = Some s"
    "\<And>i v. v \<in> set (facts s i) \<longleftrightarrow> flows pts symbol v i"
proof -
  have "0 < length pts" using assms by (simp add: graph_ok_def)
  then have "length (pending solver_start) + (solver_fuel pts - total_facts pts solver_start) \<le> solver_fuel pts"
    by (simp add: solver_start_inv [OF assms] solver_fuel_def)
  from solver_loop_returns [OF assms solver_start_inv(1) [OF assms] this] that solver_inv_complete
  show thesis by metis
qed


section \<open>Queries\<close>

text \<open>The meaning of a query: \<open>null\<close> when the node is not a read of a known symbol in the frame, when the read
  cannot be reached or when it can be reached without a store; otherwise the stores that can come last.\<close>

definition reaching_definitions :: "flow_env \<Rightarrow> flow_state \<Rightarrow> node \<Rightarrow> definition_value set option" where
  "reaching_definitions env g reference =
     (case (entry_at reference (entries g), symbolFor env reference) of
        (Some at, Some symbol) \<Rightarrow>
          (let D = {v. flows (points g) symbol v at} in if D = {} \<or> None \<in> D then None else Some D)
      | _ \<Rightarrow> None)"

text \<open>A sequence of queries with the shared cache.\<close>

fun reaching_queries :: "flow_env \<Rightarrow> flow_state \<Rightarrow> node list \<Rightarrow> (nat \<times> solution) list \<Rightarrow> definition_value list option list option" where
  "reaching_queries env g [] solutions = Some []"
| "reaching_queries env g (r # rs) solutions =
     (case reaching env g r solutions of
        None \<Rightarrow> None
      | Some (answer, solutions') \<Rightarrow> map_option ((#) answer) (reaching_queries env g rs solutions'))"

text \<open>A query asks for an identifier node, and the node of the graph with its identity is that node.\<close>

definition query_ok :: "flow_state \<Rightarrow> node \<Rightarrow> bool" where
  "query_ok g r \<longleftrightarrow> isIdentifier r \<and> (\<forall>e\<in>set (entries g). node_id (fst e) = node_id r \<longrightarrow> fst e = r)"

definition cache_ok :: "flow_env \<Rightarrow> flow_state \<Rightarrow> (nat \<times> solution) list \<Rightarrow> bool" where
  "cache_ok env g solutions \<longleftrightarrow> (\<forall>e\<in>set solutions. solve env g (fst e) = Some (snd e))"

lemma graph_ok_build: "flow_ok g \<Longrightarrow> points g \<noteq> [] \<Longrightarrow> graph_ok (points g)"
  by (simp add: graph_ok_def flow_ok_def point_ok_def)

lemma solve_exact:
  assumes "graph_ok (points g)"
  obtains sol where "solve env g symbol = Some sol"
    "\<And>i. i \<in> set (readsOf env g symbol) \<Longrightarrow> (case map_of sol i of None \<Rightarrow> {v. flows (points g) symbol v i} = {}
       | Some ds \<Rightarrow> ds \<noteq> [] \<and> set ds = {v. flows (points g) symbol v i})"
proof -
  obtain s where s: "solver_loop (solver_fuel (points g)) (points g) symbol solver_start = Some s"
      "\<And>i v. v \<in> set (facts s i) \<longleftrightarrow> flows (points g) symbol v i"
    using solver_exact [OF assms] by metis
  have lookup: "map_of (map (\<lambda>i. (i, f i)) is) i = (if i \<in> set is then Some (f i) else None)"
    for f :: "nat \<Rightarrow> definition_value list" and "is" i
    by (induction "is") auto
  have "set (facts s i) = {v. flows (points g) symbol v i}" for i using s(2) by auto
  moreover from this have "facts s i = [] \<longleftrightarrow> {v. flows (points g) symbol v i} = {}" for i
    by (metis set_empty)
  ultimately show thesis
    using that s(1) by (auto simp: solve_def lookup)
qed

lemma entry_at_reads:
  assumes "query_ok g r" "entry_at r (entries g) = Some at" "symbolFor env r = Some symbol"
  shows "at \<in> set (readsOf env g symbol)"
proof -
  obtain e where "e \<in> set (entries g)" "node_id (fst e) = node_id r" "snd e = at"
    using map_of_SomeD [OF assms(2) [unfolded entry_at_def]] by auto
  with assms(1,3) show ?thesis by (force simp: query_ok_def readsOf_def)
qed

lemma reaching_answer:
  assumes "graph_ok (points g)" "query_ok g r" "cache_ok env g solutions"
  shows "\<exists>answer solutions'. reaching env g r solutions = Some (answer, solutions') \<and> cache_ok env g solutions' \<and>
    map_option set answer = reaching_definitions env g r"
proof (cases "\<exists>at symbol. entry_at r (entries g) = Some at \<and> symbolFor env r = Some symbol")
  case True
  then obtain at symbol where r: "entry_at r (entries g) = Some at" "symbolFor env r = Some symbol" by blast
  obtain sol where sol: "solve env g symbol = Some sol" "case map_of sol at of None \<Rightarrow> {v. flows (points g) symbol v at} = {}
       | Some ds \<Rightarrow> ds \<noteq> [] \<and> set ds = {v. flows (points g) symbol v at}"
  proof -
    obtain sol where "solve env g symbol = Some sol"
      "\<And>i. i \<in> set (readsOf env g symbol) \<Longrightarrow> (case map_of sol i of None \<Rightarrow> {v. flows (points g) symbol v i} = {}
       | Some ds \<Rightarrow> ds \<noteq> [] \<and> set ds = {v. flows (points g) symbol v i})"
      by (rule solve_exact [OF assms(1), of env symbol], rule that)
    from that [OF this(1) this(2) [OF entry_at_reads [OF assms(2) r]]] show thesis .
  qed
  have cached: "map_of solutions symbol = Some sol' \<Longrightarrow> sol' = sol" for sol'
    using assms(3) sol(1) by (auto simp: cache_ok_def dest!: map_of_SomeD)
  have answer: "map_option set (case map_of sol at of None \<Rightarrow> None | Some ds \<Rightarrow> if None \<in> set ds then None else Some ds) =
      reaching_definitions env g r"
  proof (cases "map_of sol at")
    case (Some ds)
    with sol(2) have "{v. flows (points g) symbol v at} = set ds" "ds \<noteq> []" by simp_all
    with Some show ?thesis unfolding reaching_definitions_def r Let_def by simp
  qed (use sol(2) in \<open>simp add: reaching_definitions_def r Let_def\<close>)
  show ?thesis
  proof (cases "map_of solutions symbol")
    case None
    with sol(1) assms(3) answer show ?thesis by (auto simp: reaching_def r cache_ok_def)
  next
    case (Some sol')
    with cached [OF Some] assms(3) answer show ?thesis by (auto simp: reaching_def r)
  qed
next
  case False
  then show ?thesis
    using assms(3) by (auto simp: reaching_def reaching_definitions_def split: option.splits)
qed

lemma reaching_queries_answers:
  assumes "graph_ok (points g)" "list_all (query_ok g) rs" "cache_ok env g solutions"
  shows "map_option (map (map_option set)) (reaching_queries env g rs solutions) = Some (map (reaching_definitions env g) rs)"
  using assms(2,3)
proof (induction rs arbitrary: solutions)
  case (Cons r rs)
  obtain answer solutions' where "reaching env g r solutions = Some (answer, solutions')" "cache_ok env g solutions'"
      "map_option set answer = reaching_definitions env g r"
    using reaching_answer [OF assms(1) _ Cons.prems(2), of r] Cons.prems(1) by auto
  with Cons.IH [of solutions'] Cons.prems(1) show ?case by (auto simp: option.map_comp comp_def)
qed simp

text \<open>C9 Every sequence of queries on a constructed graph is answered, whatever was cached before: a query returns
  exactly the stores that can be the last one on a path from the entry of the frame to the read, and
  \<open>null\<close> exactly when the read is unknown, unreachable or reachable without any store.\<close>

theorem reaching_exact:
  assumes "buildReachingWrites fuel env root parameters = Some g" "list_all (query_ok g) references"
  shows "map_option (map (map_option set)) (reaching_queries env g references []) =
    Some (map (reaching_definitions env g) references)"
  using reaching_queries_answers [OF graph_ok_build assms(2)] buildReachingWrites_ok [OF assms(1)] by (simp add: cache_ok_def)

text \<open>The body \<open>{ x = 1; x; }\<close>: the only definition that reaches the read is the assignment.\<close>

definition example_read :: node where
  "example_read = synthesized 8 Identifier ''x'' []"

definition example_write :: lexical_write where
  "example_write = \<lparr>write_id = 0, write_origin = missing_node, write_reference = synthesized 4 Identifier ''x'' []\<rparr>"

definition read_literal :: node where
  "read_literal = synthesized 6 (Literal NumericLiteral) ''1'' []"

definition read_target :: node where
  "read_target = synthesized 4 Identifier ''x'' []"

definition read_assignment :: node where
  "read_assignment = synthesized 3 (Expression BinaryExpression) [] [(''left'', read_target),
     (''operatorToken'', synthesized 5 (Token EqualsToken) [] []), (''right'', read_literal)]"

definition read_store :: node where
  "read_store = synthesized 2 (Statement ExpressionStatement) [] [(''expression'', read_assignment)]"

definition read_use :: node where
  "read_use = synthesized 7 (Statement ExpressionStatement) [] [(''expression'', example_read)]"

definition read_body :: node where
  "read_body = synthesized 1 (Statement Block) [] [(''statements'', read_store), (''statements'', read_use)]"

definition read_env :: flow_env where
  "read_env = \<lparr>env_writes = (\<lambda>n. if node_id n = 3 then [(4, example_write)] else []), sameFrame = (\<lambda>_. True),
     symbolFor = (\<lambda>n. if node_text n = ''x'' then Some 0 else None), assignmentTarget = None\<rparr>"

definition plain_point :: "nat list \<Rightarrow> flow_point" where
  "plain_point successors = \<lparr>point_successors = successors, point_write = None, point_symbol = None\<rparr>"

definition read_graph :: flow_state where
  "read_graph = \<lparr>points = [plain_point [6], plain_point [], plain_point [3], plain_point [1], plain_point [5],
       \<lparr>point_successors = [2], point_write = Some example_write, point_symbol = Some 0\<rparr>, plain_point [4]],
     entries = [(read_body, 0), (read_use, 2), (example_read, 2), (read_store, 0), (read_assignment, 0), (read_target, 0), (read_literal, 0)],
     tasks = []\<rparr>"

theorem reaching_exact_witness:
  "reaching_queries read_env read_graph [example_read] [] = Some [Some [Some example_write]] \<and>
   reaching_definitions read_env read_graph example_read = Some {Some example_write}"
proof -
  have build: "buildReachingWrites 20 read_env read_body [] = Some read_graph" by code_simp
  have "list_all (query_ok read_graph) [example_read]" by code_simp
  note exact = reaching_exact [OF build this]
  have "reaching_queries read_env read_graph [example_read] [] = Some [Some [Some example_write]]" by code_simp
  with exact show ?thesis by simp
qed

text \<open>C36 Every index in a constructed graph is the index of a point: the solver never reads a point that does not exist.
  The nodes of the graph are registered once, and no task is left.\<close>

theorem buildReachingWrites_bounds:
  "case buildReachingWrites fuel env root parameters of
     None \<Rightarrow> True
   | Some g \<Rightarrow> graph_ok (points g) \<and> list_all (\<lambda>e. snd e < length (points g)) (entries g) \<and>
       distinct (map (\<lambda>e. node_id (fst e)) (entries g)) \<and> tasks g = []"
  using buildReachingWrites_ok [of fuel env root parameters] graph_ok_build
  by (auto simp: flow_ok_def list_all_iff split: option.split)

end
