(* ===== verification/Hardening.thy ===== *)
theory Hardening
  imports JS_String "HOL-Library.List_Lexorder" "HOL-Library.Sublist"
begin

text \<open>
  Exploit mitigations of native builds, after \<open>link/hardening.ts\<close>: the requested sanitizers, the
  candidate mitigations, the probing of the compiler and the cache of its results. The file system, the
  compiler and the process environment are parameters; what they answer may depend on everything that
  happened before, which the state records as a trace of events.
\<close>

section \<open>The host\<close>

text \<open>
  A spawned process fails to start, or closes with an exit code (\<open>None\<close> when a signal ended it) and what
  it wrote to its error stream.
\<close>

datatype spawn_end = Spawn_Error js_string | Closed "int option" js_string

datatype host_event =
    Make_Dir js_string
  | Write_File js_string js_string
  | Remove_Dir js_string
  | Spawned js_string "js_string list" spawn_end
  | Console_Error js_string
  | Stderr_Write js_string

type_synonym host_trace = "host_event list"

text \<open>
  The environment of the process and the operations of \<open>fs\<close>, \<open>os\<close>, \<open>path\<close> and \<open>child_process\<close>. A file
  operation that throws answers with the message of its error.
\<close>

record tool_host =
  platform :: js_string
  arch :: js_string
  TSC2C_SANITIZE :: "js_string option"
  TSC2C_CC :: "js_string option"
  TSC2C_CXX :: "js_string option"
  tmpdir :: js_string
  path_join :: "js_string \<Rightarrow> js_string \<Rightarrow> js_string"
  path_dirname :: "js_string \<Rightarrow> js_string"
  path_basename :: "js_string \<Rightarrow> js_string"
  mkdtempSync :: "host_trace \<Rightarrow> js_string \<Rightarrow> js_string + js_string"
  writeFileSync :: "host_trace \<Rightarrow> js_string \<Rightarrow> js_string option"
  rmSync :: "host_trace \<Rightarrow> js_string \<Rightarrow> js_string option"
  spawn_process :: "host_trace \<Rightarrow> js_string \<Rightarrow> js_string list \<Rightarrow> spawn_end"

section \<open>Flags\<close>

record hardening_flags =
  compile :: "js_string list"
  link :: "js_string list"

text \<open>\<open>Mitigation\<close> has the fields of \<open>HardeningFlags\<close>.\<close>

type_synonym mitigation = hardening_flags

definition SANITIZERS :: "js_string list" where
  "SANITIZERS = [js ''address'', js ''undefined'']"

text \<open>The set of the trimmed names in insertion order, sorted by code units.\<close>

definition requestedSanitizers :: "js_string option \<Rightarrow> js_string + js_string list" where
  "requestedSanitizers value = (case value of
       None \<Rightarrow> Inr []
     | Some v \<Rightarrow> if trim v = [] then Inr []
         else let requested = sort (set_add_all [] (map trim (split_on 0x2C v)));
                  unknown = filter (\<lambda>name. name \<notin> set SANITIZERS) requested
              in if length unknown > 0
                 then Inl (js ''TSC2C_SANITIZE: unsupported sanitizer(s) '' @ join_with (js '', '') unknown @
                   js ''; expected '' @ join_with (js '', '') SANITIZERS)
                 else Inr requested)"

definition sanitizerMitigation :: "js_string list \<Rightarrow> mitigation" where
  "sanitizerMitigation sanitizers =
     (let flag = js ''-fsanitize='' @ join_with (js '','') sanitizers
      in \<lparr>compile = [flag, js ''-fno-sanitize-recover=all'', js ''-fno-omit-frame-pointer'', js ''-g''],
          link = [flag]\<rparr>)"

definition candidateMitigations :: "tool_host \<Rightarrow> js_string list \<Rightarrow> mitigation list" where
  "candidateMitigations h sanitizers =
     (let linux = (platform h = js ''linux'');
          x86 = (arch h = js ''x64'' \<or> arch h = js ''ia32'');
          arm64 = (arch h = js ''arm64'');
          list =
            [\<lparr>compile = [js ''-fstack-protector-strong''], link = []\<rparr>,
             \<lparr>compile = [js ''-fstack-clash-protection''], link = []\<rparr>,
             \<lparr>compile = [js ''-ftrivial-auto-var-init=zero''], link = []\<rparr>,
             \<lparr>compile = [js ''-fwrapv'', js ''-fno-strict-overflow''], link = []\<rparr>,
             \<lparr>compile = [js ''-fno-delete-null-pointer-checks''], link = []\<rparr>,
             \<lparr>compile = [js ''-fPIE''], link = [js ''-pie'']\<rparr>,
             \<lparr>compile = [js ''-Wformat'', js ''-Werror=format-security''], link = []\<rparr>,
             \<lparr>compile = [js ''-Werror=implicit-function-declaration''], link = []\<rparr>]
      in (if js ''address'' \<notin> set sanitizers
          then [\<lparr>compile = [js ''-U_FORTIFY_SOURCE'', js ''-D_FORTIFY_SOURCE=3''], link = []\<rparr>] else []) @
         list @
         (if x86 then [\<lparr>compile = [js ''-fcf-protection=full''], link = []\<rparr>] else []) @
         (if arm64 then [\<lparr>compile = [js ''-mbranch-protection=standard''], link = []\<rparr>] else []) @
         (if linux then [\<lparr>compile = [], link = [js ''-Wl,-z,relro'', js ''-Wl,-z,now'']\<rparr>,
                         \<lparr>compile = [], link = [js ''-Wl,-z,noexecstack'']\<rparr>] else []))"

definition merge_flags :: "mitigation list \<Rightarrow> hardening_flags" where
  "merge_flags ms = \<lparr>compile = concat (map compile ms), link = concat (map link ms)\<rparr>"

definition C_ONLY :: "js_string list" where
  "C_ONLY = [js ''-Werror=implicit-function-declaration'']"

definition cxxCompileFlags :: "hardening_flags \<Rightarrow> js_string list" where
  "cxxCompileFlags flags = filter (\<lambda>flag. flag \<notin> set C_ONLY) (compile flags)"

section \<open>Probing\<close>

text \<open>
  The state of the toolchain: what happened so far and the cache of probes. The cache holds promises, so
  a probe that failed stays failed.
\<close>

record toolchain =
  events :: host_trace
  flag_cache :: "js_string \<rightharpoonup> js_string + hardening_flags"

definition emit_event :: "host_event \<Rightarrow> host_trace \<Rightarrow> host_trace" where
  "emit_event e t = t @ [e]"

definition run_process :: "tool_host \<Rightarrow> js_string \<Rightarrow> js_string list \<Rightarrow> host_trace \<Rightarrow> spawn_end \<times> host_trace" where
  "run_process h command args t =
     (let r = spawn_process h t command args in (r, emit_event (Spawned command args r) t))"

definition probe_args :: "js_string \<Rightarrow> js_string \<Rightarrow> mitigation \<Rightarrow> js_string list" where
  "probe_args source output flags =
     [js ''-O2'', js ''-Werror''] @ compile flags @ [source] @ link flags @ [js ''-o'', output]"

definition accepts :: "tool_host \<Rightarrow> js_string \<Rightarrow> js_string \<Rightarrow> js_string \<Rightarrow> mitigation \<Rightarrow> host_trace \<Rightarrow> bool \<times> host_trace" where
  "accepts h compiler source output flags t =
     (case run_process h compiler (probe_args source output flags) t of
        (Spawn_Error e, t') \<Rightarrow> (False, t')
      | (Closed code e, t') \<Rightarrow> (code = Some 0, t'))"

fun admit :: "tool_host \<Rightarrow> js_string \<Rightarrow> js_string \<Rightarrow> js_string \<Rightarrow> mitigation list \<Rightarrow> mitigation list \<Rightarrow> host_trace
    \<Rightarrow> mitigation list \<times> host_trace" where
  "admit h compiler source output admitted [] t = (admitted, t)"
| "admit h compiler source output admitted (candidate # rest) t =
     (case accepts h compiler source output candidate t of
        (ok, t') \<Rightarrow> admit h compiler source output (if ok then admitted @ [candidate] else admitted) rest t')"

definition probe_text :: js_string where
  "probe_text = js ''#include <string.h>'' @ [10] @
     js ''int main(void){char b[8];memset(b,0,sizeof b);return b[0];}'' @ [10]"

text \<open>The part of \<open>probeHardening\<close> behind the required sanitizers.\<close>

definition probe_candidates :: "tool_host \<Rightarrow> js_string \<Rightarrow> js_string \<Rightarrow> js_string \<Rightarrow> js_string list \<Rightarrow> mitigation list
    \<Rightarrow> host_trace \<Rightarrow> hardening_flags \<times> host_trace" where
  "probe_candidates h compiler source output sanitizers required t =
     (let candidates = required @ candidateMitigations h sanitizers; everything = merge_flags candidates
      in case accepts h compiler source output everything t of
           (True, t1) \<Rightarrow> (everything, t1)
         | (False, t1) \<Rightarrow>
             (case admit h compiler source output required (drop (length required) candidates) t1 of
                (admitted, t2) \<Rightarrow> (merge_flags admitted, t2)))"

text \<open>The body of the \<open>try\<close> statement.\<close>

definition probe_body :: "tool_host \<Rightarrow> js_string \<Rightarrow> js_string list \<Rightarrow> js_string \<Rightarrow> host_trace
    \<Rightarrow> (js_string + hardening_flags) \<times> host_trace" where
  "probe_body h compiler sanitizers dir t =
     (let source = path_join h dir (js ''probe.c'');
          t1 = emit_event (Write_File source probe_text) t;
          output = path_join h dir (js ''probe'')
      in case writeFileSync h t source of
           Some message \<Rightarrow> (Inl message, t1)
         | None \<Rightarrow>
             if length sanitizers > 0 then
               let sanitizer = sanitizerMitigation sanitizers
               in case accepts h compiler source output sanitizer t1 of
                    (False, t2) \<Rightarrow> (Inl (js ''TSC2C_SANITIZE: '' @ compiler @ js '' cannot build with '' @
                       join_with (js '' '') (link sanitizer)), t2)
                  | (True, t2) \<Rightarrow>
                      map_prod Inr id (probe_candidates h compiler source output sanitizers [sanitizer] t2)
             else map_prod Inr id (probe_candidates h compiler source output sanitizers [] t1))"

text \<open>\<open>finally\<close> removes the directory; an error there replaces the result.\<close>

definition probeHardening :: "tool_host \<Rightarrow> js_string \<Rightarrow> js_string list \<Rightarrow> host_trace
    \<Rightarrow> (js_string + hardening_flags) \<times> host_trace" where
  "probeHardening h compiler sanitizers t =
     (case mkdtempSync h t (path_join h (tmpdir h) (js ''tsc2c-harden-'')) of
        Inl message \<Rightarrow> (Inl message, t)
      | Inr dir \<Rightarrow>
          (case probe_body h compiler sanitizers dir (emit_event (Make_Dir dir) t) of
             (result, t2) \<Rightarrow>
               (case rmSync h t2 dir of None \<Rightarrow> result | Some message \<Rightarrow> Inl message,
                emit_event (Remove_Dir dir) t2)))"

definition cache_key :: "js_string \<Rightarrow> js_string list \<Rightarrow> js_string" where
  "cache_key compiler sanitizers = compiler @ [0] @ join_with (js '','') sanitizers"

definition hardeningFlags :: "tool_host \<Rightarrow> js_string \<Rightarrow> toolchain \<Rightarrow> (js_string + hardening_flags) \<times> toolchain" where
  "hardeningFlags h compiler st =
     (case requestedSanitizers (TSC2C_SANITIZE h) of
        Inl message \<Rightarrow> (Inl message, st)
      | Inr sanitizers \<Rightarrow>
          (case flag_cache st (cache_key compiler sanitizers) of
             Some flags \<Rightarrow> (flags, st)
           | None \<Rightarrow>
               (case probeHardening h compiler sanitizers (events st) of
                  (flags, t) \<Rightarrow> (flags, st\<lparr>events := t,
                     flag_cache := (flag_cache st)(cache_key compiler sanitizers \<mapsto> flags)\<rparr>))))"

section \<open>Requested sanitizers\<close>

text \<open>A request that is accepted names only supported sanitizers, each once, and exactly the names of the list.\<close>

lemma requestedSanitizers_Inr:
  assumes "requestedSanitizers value = Inr sans"
  shows "set sans \<subseteq> set SANITIZERS" "distinct sans" "sorted sans"
    and "sans = [] \<longleftrightarrow> (case value of None \<Rightarrow> True | Some v \<Rightarrow> trim v = [])"
    and "\<And>v. value = Some v \<Longrightarrow> trim v \<noteq> [] \<Longrightarrow> set sans = set (map trim (split_on 0x2C v))"
proof -
  have nonempty: "set_add_all [] (map trim (split_on c v)) \<noteq> []" for c v
    using set_add_all_set [of "[]" "map trim (split_on c v)"] by (metis list.map_disc_iff set_empty split_on_nonempty sup_bot_left)
  have sort_nonempty: "sort xs = [] \<longleftrightarrow> xs = []" for xs :: "js_string list"
    by (metis set_empty set_sort)
  show "set sans \<subseteq> set SANITIZERS" "distinct sans" "sorted sans"
    and "sans = [] \<longleftrightarrow> (case value of None \<Rightarrow> True | Some v \<Rightarrow> trim v = [])"
    and "\<And>v. value = Some v \<Longrightarrow> trim v \<noteq> [] \<Longrightarrow> set sans = set (map trim (split_on 0x2C v))"
    using assms nonempty sort_nonempty
    by (auto simp: requestedSanitizers_def Let_def filter_empty_conv set_add_all_distinct
        split: option.splits if_splits)
qed

section \<open>What a probe establishes\<close>

text \<open>A mitigation was accepted when the trace has a run of the compiler with its flags that ended with code 0.\<close>

definition accepted_in :: "host_trace \<Rightarrow> js_string \<Rightarrow> mitigation \<Rightarrow> bool" where
  "accepted_in t compiler m \<longleftrightarrow>
     (\<exists>source output e. Spawned compiler (probe_args source output m) (Closed (Some 0) e) \<in> set t)"

definition required_mitigations :: "js_string list \<Rightarrow> mitigation list" where
  "required_mitigations sans = (if sans = [] then [] else [sanitizerMitigation sans])"

text \<open>
  The flags of a probe: the required sanitizers, which the compiler accepted, followed by candidates in
  their order, accepted one by one or all together.
\<close>

definition probed :: "host_trace \<Rightarrow> js_string \<Rightarrow> js_string list \<Rightarrow> hardening_flags \<Rightarrow> bool" where
  "probed t compiler sans fl \<longleftrightarrow>
     (\<exists>h admitted. subseq admitted (candidateMitigations h sans) \<and>
        fl = merge_flags (required_mitigations sans @ admitted) \<and>
        list_all (accepted_in t compiler) (required_mitigations sans) \<and>
        (accepted_in t compiler fl \<or> list_all (accepted_in t compiler) admitted))"

lemma accepted_in_append: "accepted_in t compiler m \<Longrightarrow> accepted_in (t @ t') compiler m"
  by (auto simp: accepted_in_def)

lemma list_all_accepted_append:
  "list_all (accepted_in t compiler) ms \<Longrightarrow> list_all (accepted_in (t @ t') compiler) ms"
  by (auto simp: list_all_iff intro: accepted_in_append)

lemma probed_append: "probed t compiler sans fl \<Longrightarrow> probed (t @ t') compiler sans fl"
  unfolding probed_def by (blast intro: accepted_in_append list_all_accepted_append)

lemma accepts_trace:
  assumes "accepts h compiler source output m t = (ok, t')"
  shows "\<exists>e. t' = t @ [e]" "ok \<Longrightarrow> accepted_in t' compiler m"
  using assms
  by (auto simp: accepts_def run_process_def emit_event_def accepted_in_def Let_def split: spawn_end.splits) blast

lemma admit_trace:
  "admit h compiler source output admitted cands t = (result, t') \<Longrightarrow>
   \<exists>new p. t' = t @ p \<and> result = admitted @ new \<and> subseq new cands \<and> list_all (accepted_in t' compiler) new"
proof (induction cands arbitrary: admitted t)
  case (Cons c cs)
  obtain ok t1 where a: "accepts h compiler source output c t = (ok, t1)" by force
  with Cons.prems have "admit h compiler source output (if ok then admitted @ [c] else admitted) cs t1 = (result, t')"
    by simp
  from Cons.IH [OF this] obtain new p where
    "t' = t1 @ p" "result = (if ok then admitted @ [c] else admitted) @ new" "subseq new cs"
    "list_all (accepted_in t' compiler) new" by blast
  with accepts_trace [OF a] show ?case
    by (intro exI [of _ "(if ok then [c] else []) @ new"]) (auto intro: accepted_in_append)
qed simp

lemma probe_candidates_trace:
  assumes "probe_candidates h compiler source output sans (required_mitigations sans) t = (fl, t')"
    and "list_all (accepted_in t compiler) (required_mitigations sans)"
  shows "probed t' compiler sans fl" "\<exists>p. t' = t @ p"
proof -
  let ?req = "required_mitigations sans" and ?cands = "candidateMitigations h sans"
  obtain ok t1 where a: "accepts h compiler source output (merge_flags (?req @ ?cands)) t = (ok, t1)" by force
  obtain adm t2 where b: "admit h compiler source output ?req ?cands t1 = (adm, t2)" by force
  obtain p where p: "t1 = t @ p" using accepts_trace(1) [OF a] by blast
  obtain new q where q: "t2 = t1 @ q" "adm = ?req @ new" "subseq new ?cands" "list_all (accepted_in t2 compiler) new"
    using admit_trace [OF b] by blast
  have "ok \<and> fl = merge_flags (?req @ ?cands) \<and> t' = t1 \<or> \<not> ok \<and> fl = merge_flags adm \<and> t' = t2"
    using assms(1) a b by (cases ok) (auto simp: probe_candidates_def)
  moreover have "list_all (accepted_in t1 compiler) ?req" "list_all (accepted_in t2 compiler) ?req"
    using assms(2) by (simp_all add: p q list_all_accepted_append)
  ultimately show "probed t' compiler sans fl" "\<exists>p. t' = t @ p"
    using accepts_trace(2) [OF a] p q unfolding probed_def by (blast intro: subseq_order.refl, auto)
qed

lemma probe_body_trace:
  assumes "probe_body h compiler sans dir t = (result, t')"
  shows "\<And>fl. result = Inr fl \<Longrightarrow> probed t' compiler sans fl" "\<exists>p. t' = t @ p"
proof -
  define t1 where "t1 = t @ [Write_File (path_join h dir (js ''probe.c'')) probe_text]"
  consider m where "result = Inl m" "t' = t1"
    | ok t2 where "accepts h compiler (path_join h dir (js ''probe.c'')) (path_join h dir (js ''probe'')) (sanitizerMitigation sans) t1 = (ok, t2)"
        "sans \<noteq> []" "\<not> ok \<and> t' = t2 \<and> (\<exists>m. result = Inl m) \<or> ok \<and> (result, t') = map_prod Inr id
          (probe_candidates h compiler (path_join h dir (js ''probe.c'')) (path_join h dir (js ''probe'')) sans (required_mitigations sans) t2)"
    | "sans = []" "(result, t') = map_prod Inr id
          (probe_candidates h compiler (path_join h dir (js ''probe.c'')) (path_join h dir (js ''probe'')) sans (required_mitigations sans) t1)"
    using assms
    by (cases "sans = []")
      (fastforce simp: probe_body_def t1_def emit_event_def Let_def required_mitigations_def split: option.splits bool.splits prod.splits)+
  then have "(\<forall>fl. result = Inr fl \<longrightarrow> probed t' compiler sans fl) \<and> (\<exists>p. t' = t1 @ p)"
  proof cases
    case (2 ok t2)
    then show ?thesis
      using accepts_trace [OF 2(1)] probe_candidates_trace [of h compiler _ _ sans t2]
      by (fastforce simp: required_mitigations_def map_prod_def split: prod.splits)
  next
    case 3
    then show ?thesis
      using probe_candidates_trace [of h compiler _ _ sans t1]
      by (fastforce simp: required_mitigations_def map_prod_def split: prod.splits)
  qed auto
  then show "\<And>fl. result = Inr fl \<Longrightarrow> probed t' compiler sans fl" "\<exists>p. t' = t @ p"
    by (auto simp: t1_def)
qed

lemma probeHardening_trace:
  assumes "probeHardening h compiler sans t = (result, t')"
  shows "\<And>fl. result = Inr fl \<Longrightarrow> probed t' compiler sans fl" "\<exists>p. t' = t @ p"
proof -
  show "\<exists>p. t' = t @ p"
    using assms probe_body_trace(2)
    by (auto simp: probeHardening_def emit_event_def split: sum.splits prod.splits; fastforce)
  show "probed t' compiler sans fl" if "result = Inr fl" for fl
    using assms that probe_body_trace(1)
    by (auto simp: probeHardening_def emit_event_def split: sum.splits prod.splits option.splits intro: probed_append)
qed

section \<open>The cache\<close>

lemma sanitizer_names: "s \<in> set SANITIZERS \<Longrightarrow> s \<noteq> [] \<and> 0 \<notin> set s \<and> 0x2C \<notin> set s"
  by (auto simp: SANITIZERS_def js_def)

lemma cache_key_inject:
  assumes "set sans \<subseteq> set SANITIZERS" "set sans' \<subseteq> set SANITIZERS" "cache_key c sans = cache_key c' sans'"
  shows "c = c' \<and> sans = sans'"
proof -
  have comma: "js '','' = [0x2C]" by (simp add: js_def)
  have no_nul: "0 \<notin> set (join_with [0x2C] ss)" if "set ss \<subseteq> set SANITIZERS" for ss
    using set_join_with [of "[0x2C]" ss] that sanitizer_names by fastforce
  have "c = c' \<and> join_with [0x2C] sans = join_with [0x2C] sans'"
    using assms(3) no_nul [OF assms(1)] no_nul [OF assms(2)] lastIndexOf_append [of 0 "join_with [0x2C] sans" c]
      lastIndexOf_append [of 0 "join_with [0x2C] sans'" c']
    by (simp add: cache_key_def comma)
  moreover have "split_on 0x2C (join_with [0x2C] ss) = (if ss = [] then [[]] else ss)" if "set ss \<subseteq> set SANITIZERS" for ss
    using that sanitizer_names by (auto intro!: split_join)
  ultimately have "(if sans = [] then [[]] else sans) = (if sans' = [] then [[]] else sans')"
    using assms(1,2) by metis
  with assms(1,2) sanitizer_names \<open>c = c' \<and> _\<close> show ?thesis by (fastforce split: if_splits)
qed

definition cache_sound :: "toolchain \<Rightarrow> bool" where
  "cache_sound st \<longleftrightarrow> (\<forall>compiler sans fl. set sans \<subseteq> set SANITIZERS \<longrightarrow>
     flag_cache st (cache_key compiler sans) = Some (Inr fl) \<longrightarrow> probed (events st) compiler sans fl)"

lemma cache_sound_append:
  "cache_sound st \<Longrightarrow> cache_sound (st\<lparr>events := events st @ t\<rparr>)"
  by (auto simp: cache_sound_def intro: probed_append)

lemma hardeningFlags_sound:
  assumes "cache_sound st" "hardeningFlags h compiler st = (result, st')"
  shows "cache_sound st'" "\<exists>p. events st' = events st @ p"
    and "\<And>fl. result = Inr fl \<Longrightarrow>
      \<exists>sans. requestedSanitizers (TSC2C_SANITIZE h) = Inr sans \<and> probed (events st') compiler sans fl \<and>
        flag_cache st' (cache_key compiler sans) = Some (Inr fl)"
proof -
  have goal: "cache_sound st' \<and> (\<exists>p. events st' = events st @ p) \<and>
    (\<forall>fl. result = Inr fl \<longrightarrow> (\<exists>sans. requestedSanitizers (TSC2C_SANITIZE h) = Inr sans \<and>
        probed (events st') compiler sans fl \<and> flag_cache st' (cache_key compiler sans) = Some (Inr fl)))"
  proof (cases "requestedSanitizers (TSC2C_SANITIZE h)")
    case (Inl m)
    with assms show ?thesis by (auto simp: hardeningFlags_def)
  next
    case (Inr sans)
    note sub = requestedSanitizers_Inr(1) [OF Inr]
    show ?thesis
    proof (cases "flag_cache st (cache_key compiler sans)")
      case None
      obtain r t where p: "probeHardening h compiler sans (events st) = (r, t)" by force
      have st': "result = r" "events st' = t" "flag_cache st' = (flag_cache st)(cache_key compiler sans \<mapsto> r)"
        using assms(2) Inr None p by (auto simp: hardeningFlags_def)
      obtain q where q: "t = events st @ q" using probeHardening_trace(2) [OF p] by blast
      have "probed t c ss fl"
        if "set ss \<subseteq> set SANITIZERS" "flag_cache st' (cache_key c ss) = Some (Inr fl)" for c ss fl
        using that probeHardening_trace(1) [OF p] assms(1) cache_key_inject [OF that(1) sub]
        by (auto simp: st' q cache_sound_def split: if_splits intro: probed_append) blast
      with probeHardening_trace(1) [OF p] Inr q show ?thesis by (auto simp: cache_sound_def st')
    next
      case (Some r)
      with assms Inr sub show ?thesis by (auto simp: hardeningFlags_def cache_sound_def)
    qed
  qed
  then show "cache_sound st'" "\<exists>p. events st' = events st @ p"
    "\<And>fl. result = Inr fl \<Longrightarrow>
      \<exists>sans. requestedSanitizers (TSC2C_SANITIZE h) = Inr sans \<and> probed (events st') compiler sans fl \<and>
        flag_cache st' (cache_key compiler sans) = Some (Inr fl)" by auto
qed

text \<open>A second request with the same environment is answered from the cache.\<close>

lemma hardeningFlags_cached:
  assumes "hardeningFlags h compiler st = (result, st')"
  shows "hardeningFlags h compiler st' = (result, st')"
  using assms by (auto simp: hardeningFlags_def split: sum.splits option.splits prod.splits)

end
