(* ===== verification/Native_Toolchain.thy ===== *)
theory Native_Toolchain
  imports Hardening
begin

text \<open>
  The invocation of the C and C++ compilers, after \<open>link/cc.ts\<close>: one run of the C compiler, or, when a
  source is C++, one run per source and a link run by the C++ compiler. Every run is an event of the
  trace of \<open>Hardening\<close>.
\<close>

section \<open>Options and results\<close>

record cc_options =
  sources :: "js_string list"
  output_path :: js_string
  includeDirs :: "js_string list"
  libs :: "js_string list"
  extraFlags :: "js_string list option"
  linkFlags :: "js_string list option"
  release :: bool
  verbose :: bool

record cc_result =
  exitCode :: int
  stderr_text :: js_string

text \<open>
  A process that cannot be started emits an \<open>error\<close> event. Here no listener takes it, so it ends the
  compiler itself as an uncaught exception.
\<close>

datatype cc_outcome = Uncaught js_string | Finished cc_result

definition releaseSectionFlags :: "bool \<Rightarrow> js_string list" where
  "releaseSectionFlags rel = (if rel then [js ''-ffunction-sections'', js ''-fdata-sections''] else [])"

definition releaseSectionGcLinkFlags :: "tool_host \<Rightarrow> bool \<Rightarrow> js_string list" where
  "releaseSectionGcLinkFlags h rel =
     (if \<not> rel \<or> platform h \<noteq> js ''linux'' then [] else [js ''-Wl,--gc-sections''])"

text \<open>\<open>||\<close> takes the default for an unset and for an empty variable.\<close>

definition or_default :: "js_string option \<Rightarrow> js_string \<Rightarrow> js_string" where
  "or_default v d = (case v of None \<Rightarrow> d | Some s \<Rightarrow> if s = [] then d else s)"

definition ccCommand :: "tool_host \<Rightarrow> js_string" where
  "ccCommand h = or_default (TSC2C_CC h) (js ''gcc'')"

definition cxxCommand :: "tool_host \<Rightarrow> js_string" where
  "cxxCommand h = or_default (TSC2C_CXX h) (js ''g++'')"

text \<open>\<open>/\.(cc|cpp|cxx)$/i\<close>\<close>

definition is_cxx_source :: "js_string \<Rightarrow> bool" where
  "is_cxx_source source \<longleftrightarrow>
     list_ex (ends_with (map ascii_lower source)) [js ''.cc'', js ''.cpp'', js ''.cxx'']"

section \<open>Running a compiler\<close>

definition log_command :: "bool \<Rightarrow> js_string \<Rightarrow> js_string list \<Rightarrow> host_trace \<Rightarrow> host_trace" where
  "log_command verb command args t =
     (if verb then emit_event (Console_Error (js ''[tsc2c] '' @ command @ js '' '' @ join_with (js '' '') args)) t else t)"

text \<open>The common tail of \<open>invokeCc\<close> and \<open>spawnCompiler\<close>.\<close>

definition spawnCompiler :: "tool_host \<Rightarrow> js_string \<Rightarrow> js_string list \<Rightarrow> bool \<Rightarrow> host_trace \<Rightarrow> cc_outcome \<times> host_trace" where
  "spawnCompiler h command args verb t =
     (case run_process h command args (log_command verb command args t) of
        (Spawn_Error message, t1) \<Rightarrow> (Uncaught message, t1)
      | (Closed code text, t1) \<Rightarrow>
          (Finished \<lparr>exitCode = (case code of None \<Rightarrow> 1 | Some c \<Rightarrow> c), stderr_text = text\<rparr>,
           if text \<noteq> [] \<and> (code \<noteq> Some 0 \<or> verb) then emit_event (Stderr_Write text) t1 else t1))"

definition optimization_flags :: "cc_options \<Rightarrow> js_string list" where
  "optimization_flags opts =
     [if release opts then js ''-Os'' else js ''-O2'', js ''-flto'', js ''-fno-plt'',
      js ''-fno-semantic-interposition'', js ''-fno-math-errno'', js ''-fno-trapping-math'']"

definition warning_flags :: "js_string list" where
  "warning_flags = [js ''-Wall'', js ''-Wno-unused-variable'', js ''-Wno-unused-parameter'',
     js ''-Wno-unused-but-set-variable'', js ''-Wno-parentheses-equality'', js ''-Wno-stringop-overflow'']"

definition include_flags :: "cc_options \<Rightarrow> js_string list" where
  "include_flags opts = concat (map (\<lambda>dir. [js ''-I'', dir]) (includeDirs opts))"

definition flags_or_none :: "js_string list option \<Rightarrow> js_string list" where
  "flags_or_none fs = (case fs of None \<Rightarrow> [] | Some l \<Rightarrow> l)"

definition cc_args :: "tool_host \<Rightarrow> cc_options \<Rightarrow> hardening_flags \<Rightarrow> js_string list" where
  "cc_args h opts hardening =
     [js ''-std=c11''] @ optimization_flags opts @ releaseSectionFlags (release opts) @ warning_flags @
     compile hardening @ (if release opts then [js ''-s''] else []) @ include_flags opts @
     flags_or_none (extraFlags opts) @ sources opts @ releaseSectionGcLinkFlags h (release opts) @
     link hardening @ flags_or_none (linkFlags opts) @ map (\<lambda>lib. js ''-l'' @ lib) (libs opts) @
     [js ''-o'', output_path opts]"

section \<open>Builds with C++ sources\<close>

text \<open>\<open>replace(/[^A-Za-z0-9_.-]/g, "_")\<close>\<close>

definition object_unit :: "code_unit \<Rightarrow> code_unit" where
  "object_unit u = (if is_upper_letter u \<or> is_lower_letter u \<or> is_digit u \<or> u \<in> set (js ''_.-'') then u else 0x5F)"

definition object_name :: "tool_host \<Rightarrow> js_string \<Rightarrow> js_string" where
  "object_name h source =
     path_join h (path_dirname h source) (map object_unit (path_basename h source) @ js ''.o'')"

definition compile_args :: "cc_options \<Rightarrow> hardening_flags \<Rightarrow> js_string \<Rightarrow> js_string \<Rightarrow> js_string list" where
  "compile_args opts hardening source obj =
     (let isCxx = is_cxx_source source
      in [if isCxx then js ''-std=c++20'' else js ''-std=c11''] @
         optimization_flags opts @ releaseSectionFlags (release opts) @ warning_flags @
         (if isCxx then cxxCompileFlags hardening else compile hardening) @
         include_flags opts @ flags_or_none (extraFlags opts) @ [js ''-c'', source, js ''-o'', obj])"

definition compile_command :: "tool_host \<Rightarrow> js_string \<Rightarrow> js_string" where
  "compile_command h source = (if is_cxx_source source then cxxCommand h else ccCommand h)"

definition link_args :: "tool_host \<Rightarrow> cc_options \<Rightarrow> hardening_flags \<Rightarrow> js_string list \<Rightarrow> js_string list" where
  "link_args h opts hardening objects =
     (if release opts then [js ''-s''] else []) @ optimization_flags opts @ objects @
     releaseSectionGcLinkFlags h (release opts) @ link hardening @ flags_or_none (linkFlags opts) @
     map (\<lambda>lib. js ''-l'' @ lib) (libs opts) @ [js ''-o'', output_path opts]"

text \<open>The loop over the sources: it returns the first outcome that is not a success.\<close>

fun compile_sources :: "tool_host \<Rightarrow> cc_options \<Rightarrow> hardening_flags \<Rightarrow> (js_string \<times> js_string) list \<Rightarrow> host_trace
    \<Rightarrow> cc_outcome option \<times> host_trace" where
  "compile_sources h opts hardening [] t = (None, t)"
| "compile_sources h opts hardening ((source, obj) # rest) t =
     (case spawnCompiler h (compile_command h source) (compile_args opts hardening source obj) (verbose opts) t of
        (Uncaught message, t1) \<Rightarrow> (Some (Uncaught message), t1)
      | (Finished result, t1) \<Rightarrow>
          if exitCode result \<noteq> 0 then (Some (Finished result), t1)
          else compile_sources h opts hardening rest t1)"

text \<open>A rejection of \<open>hardeningFlags\<close> is not caught here; it rejects the promise of \<open>invokeCc\<close>.\<close>

definition invokeCcWithCxx :: "tool_host \<Rightarrow> cc_options \<Rightarrow> toolchain \<Rightarrow> cc_outcome \<times> toolchain" where
  "invokeCcWithCxx h opts st =
     (case hardeningFlags h (ccCommand h) st of
        (Inl message, st1) \<Rightarrow> (Uncaught message, st1)
      | (Inr hardening, st1) \<Rightarrow>
          (let objects = map (object_name h) (sources opts)
           in case compile_sources h opts hardening (zip (sources opts) objects) (events st1) of
                (Some outcome, t) \<Rightarrow> (outcome, st1\<lparr>events := t\<rparr>)
              | (None, t) \<Rightarrow>
                  (case spawnCompiler h (cxxCommand h) (link_args h opts hardening objects) (verbose opts) t of
                     (outcome, t1) \<Rightarrow> (outcome, st1\<lparr>events := t1\<rparr>))))"

definition invokeCc :: "tool_host \<Rightarrow> cc_options \<Rightarrow> toolchain \<Rightarrow> cc_outcome \<times> toolchain" where
  "invokeCc h opts st =
     (case hardeningFlags h (ccCommand h) st of
        (Inl message, st1) \<Rightarrow>
          (let text = js ''tsc2c: '' @ message @ [10]
           in (Finished \<lparr>exitCode = 1, stderr_text = text\<rparr>, st1\<lparr>events := emit_event (Stderr_Write text) (events st1)\<rparr>))
      | (Inr flags, st1) \<Rightarrow>
          if list_ex is_cxx_source (sources opts) then invokeCcWithCxx h opts st1
          else (case hardeningFlags h (ccCommand h) st1 of
                  (Inl message, st2) \<Rightarrow> (Uncaught message, st2)
                | (Inr hardening, st2) \<Rightarrow>
                    (case spawnCompiler h (ccCommand h) (cc_args h opts hardening) (verbose opts) (events st2) of
                       (outcome, t) \<Rightarrow> (outcome, st2\<lparr>events := t\<rparr>))))"

section \<open>Sessions\<close>

text \<open>
  The states a compiler process can reach: builds one after the other, each in the environment of its
  moment, from an empty cache.
\<close>

inductive toolchain_reach :: "toolchain \<Rightarrow> bool" where
  start: "toolchain_reach \<lparr>events = t, flag_cache = Map.empty\<rparr>"
| build: "toolchain_reach st \<Longrightarrow> invokeCc h opts st = (outcome, st') \<Longrightarrow> toolchain_reach st'"

section \<open>Runs\<close>

text \<open>The processes of a trace: command, arguments and end.\<close>

definition runs :: "host_trace \<Rightarrow> (js_string \<times> js_string list \<times> spawn_end) list" where
  "runs t = concat (map (\<lambda>e. case e of Spawned command args r \<Rightarrow> [(command, args, r)] | _ \<Rightarrow> []) t)"

definition succeeded :: "js_string \<times> js_string list \<times> spawn_end \<Rightarrow> bool" where
  "succeeded run \<longleftrightarrow> (\<exists>e. snd (snd run) = Closed (Some 0) e)"

definition command_line :: "js_string \<times> js_string list \<times> spawn_end \<Rightarrow> js_string \<times> js_string list" where
  "command_line run = (fst run, fst (snd run))"

lemma runs_append [simp]: "runs (t @ t') = runs t @ runs t'"
  by (simp add: runs_def)

lemma runs_Nil [simp]: "runs [] = []"
  by (simp add: runs_def)

lemma command_line_simp [simp]: "command_line (command, args, r) = (command, args)"
  by (simp add: command_line_def)

text \<open>The command lines of a build, in the order they run.\<close>

definition build_commands :: "tool_host \<Rightarrow> cc_options \<Rightarrow> hardening_flags \<Rightarrow> (js_string \<times> js_string list) list" where
  "build_commands h opts fl =
     (if list_ex is_cxx_source (sources opts)
      then map (\<lambda>s. (compile_command h s, compile_args opts fl s (object_name h s))) (sources opts) @
        [(cxxCommand h, link_args h opts fl (map (object_name h) (sources opts)))]
      else [(ccCommand h, cc_args h opts fl)])"

lemma spawnCompiler_trace:
  assumes "spawnCompiler h command args verb t = (outcome, t')"
  shows "\<exists>p r. t' = t @ p \<and> runs p = [(command, args, r)] \<and>
    (\<forall>result. outcome = Finished result \<longrightarrow> exitCode result = 0 \<longrightarrow> succeeded (command, args, r))"
  using assms
  by (auto simp: spawnCompiler_def run_process_def log_command_def emit_event_def Let_def runs_def succeeded_def
      split: spawn_end.splits if_splits option.splits)

lemma compile_sources_trace:
  "compile_sources h opts fl ps t = (outcome, t') \<Longrightarrow>
   \<exists>p. t' = t @ p \<and>
     (outcome = None \<longrightarrow> list_all succeeded (runs p) \<and>
        map command_line (runs p) = map (\<lambda>(s, obj). (compile_command h s, compile_args opts fl s obj)) ps) \<and>
     (\<forall>result. outcome = Some (Finished result) \<longrightarrow> exitCode result \<noteq> 0)"
proof (induction ps arbitrary: t)
  case (Cons q ps)
  obtain s obj where q: "q = (s, obj)" by force
  obtain o1 t1 where one: "spawnCompiler h (compile_command h s) (compile_args opts fl s obj) (verbose opts) t = (o1, t1)"
    by force
  from spawnCompiler_trace [OF one] obtain p1 r where p1: "t1 = t @ p1"
    "runs p1 = [(compile_command h s, compile_args opts fl s obj, r)]"
    "\<And>result. o1 = Finished result \<Longrightarrow> exitCode result = 0 \<Longrightarrow> succeeded (compile_command h s, compile_args opts fl s obj, r)"
    by blast
  show ?case
  proof (cases "\<exists>result. o1 = Finished result \<and> exitCode result = 0")
    case True
    then obtain result where ok: "o1 = Finished result" "exitCode result = 0" by blast
    with Cons.prems one q have "compile_sources h opts fl ps t1 = (outcome, t')" by simp
    from Cons.IH [OF this] obtain p where "t' = t1 @ p"
      "outcome = None \<longrightarrow> list_all succeeded (runs p) \<and>
        map command_line (runs p) = map (\<lambda>(s, obj). (compile_command h s, compile_args opts fl s obj)) ps"
      "\<forall>result. outcome = Some (Finished result) \<longrightarrow> exitCode result \<noteq> 0" by blast
    with p1 ok q show ?thesis by (intro exI [of _ "p1 @ p"]) auto
  next
    case False
    with Cons.prems one q p1(1) show ?thesis by (auto split: cc_outcome.splits if_splits)
  qed
qed simp

text \<open>
  Behind the flags, both kinds of build run the same way: they extend the trace, and a build that succeeds
  ran exactly its commands, each with success.
\<close>

lemma build_trace:
  assumes "invokeCc h opts st = (outcome, st')" "hardeningFlags h (ccCommand h) st = (Inr fl, st1)"
  shows "\<exists>b. st' = st1\<lparr>events := events st1 @ b\<rparr> \<and>
    (\<forall>result. outcome = Finished result \<longrightarrow> exitCode result = 0 \<longrightarrow>
       list_all succeeded (runs b) \<and> map command_line (runs b) = build_commands h opts fl)"
proof (cases "list_ex is_cxx_source (sources opts)")
  case False
  obtain o1 t where one: "spawnCompiler h (ccCommand h) (cc_args h opts fl) (verbose opts) (events st1) = (o1, t)" by force
  with assms False hardeningFlags_cached [OF assms(2)] have "outcome = o1" "st' = st1\<lparr>events := t\<rparr>"
    by (auto simp: invokeCc_def)
  with spawnCompiler_trace [OF one] False show ?thesis by (fastforce simp: build_commands_def)
next
  case True
  let ?objects = "map (object_name h) (sources opts)"
  obtain early t where loop: "compile_sources h opts fl (zip (sources opts) ?objects) (events st1) = (early, t)" by force
  obtain p where p: "t = events st1 @ p"
    "early = None \<Longrightarrow> list_all succeeded (runs p) \<and>
        map command_line (runs p) = map (\<lambda>s. (compile_command h s, compile_args opts fl s (object_name h s))) (sources opts)"
    "\<And>result. early = Some (Finished result) \<Longrightarrow> exitCode result \<noteq> 0"
    using compile_sources_trace [OF loop] by (auto simp: zip_map2 zip_same_conv_map)
  have whole: "(outcome, st') = invokeCcWithCxx h opts st1"
    using assms True by (simp add: invokeCc_def)
  show ?thesis
  proof (cases early)
    case None
    obtain o2 t2 where two: "spawnCompiler h (cxxCommand h) (link_args h opts fl ?objects) (verbose opts) t = (o2, t2)" by force
    from whole have "outcome = o2" "st' = st1\<lparr>events := t2\<rparr>"
      using hardeningFlags_cached [OF assms(2)] loop None two by (simp_all add: invokeCcWithCxx_def)
    moreover from spawnCompiler_trace [OF two] obtain q r where "t2 = t @ q" "runs q = [(cxxCommand h, link_args h opts fl ?objects, r)]"
      "\<And>result. o2 = Finished result \<Longrightarrow> exitCode result = 0 \<Longrightarrow> succeeded (cxxCommand h, link_args h opts fl ?objects, r)"
      by blast
    ultimately show ?thesis
      using p None True by (intro exI [of _ "p @ q"]) (auto simp: build_commands_def)
  next
    case (Some o3)
    with whole have "outcome = o3" "st' = st1\<lparr>events := t\<rparr>"
      using hardeningFlags_cached [OF assms(2)] loop by (simp_all add: invokeCcWithCxx_def)
    with p Some show ?thesis by auto
  qed
qed

lemma invokeCc_trace:
  assumes "cache_sound st" "invokeCc h opts st = (outcome, st')"
  shows "cache_sound st'"
    and "\<exists>p b. events st' = events st @ p @ b \<and>
      (\<forall>result. outcome = Finished result \<longrightarrow> exitCode result = 0 \<longrightarrow>
         (\<exists>sans fl. requestedSanitizers (TSC2C_SANITIZE h) = Inr sans \<and> probed (events st @ p) (ccCommand h) sans fl \<and>
            list_all succeeded (runs b) \<and> map command_line (runs b) = build_commands h opts fl))"
proof -
  obtain res st1 where flags: "hardeningFlags h (ccCommand h) st = (res, st1)" by force
  note sound = hardeningFlags_sound [OF assms(1) flags]
  then obtain p where p: "events st1 = events st @ p" by blast
  have "cache_sound st' \<and> (\<exists>b. events st' = events st1 @ b \<and>
      (\<forall>result. outcome = Finished result \<longrightarrow> exitCode result = 0 \<longrightarrow>
         (\<exists>sans fl. requestedSanitizers (TSC2C_SANITIZE h) = Inr sans \<and> probed (events st1) (ccCommand h) sans fl \<and>
            list_all succeeded (runs b) \<and> map command_line (runs b) = build_commands h opts fl)))"
  proof (cases res)
    case (Inl m)
    with assms(2) flags cache_sound_append [OF sound(1)] show ?thesis
      by (auto simp: invokeCc_def emit_event_def Let_def)
  next
    case (Inr fl)
    with build_trace [OF assms(2)] flags sound(3) [OF Inr] cache_sound_append [OF sound(1)] show ?thesis by fastforce
  qed
  then show "cache_sound st'"
    and "\<exists>p b. events st' = events st @ p @ b \<and>
      (\<forall>result. outcome = Finished result \<longrightarrow> exitCode result = 0 \<longrightarrow>
         (\<exists>sans fl. requestedSanitizers (TSC2C_SANITIZE h) = Inr sans \<and> probed (events st @ p) (ccCommand h) sans fl \<and>
            list_all succeeded (runs b) \<and> map command_line (runs b) = build_commands h opts fl))"
    unfolding p append_assoc by blast+
qed

lemma toolchain_reach_sound: "toolchain_reach st \<Longrightarrow> cache_sound st"
proof (induction rule: toolchain_reach.induct)
  case (start t)
  then show ?case by (simp add: cache_sound_def)
qed (rule invokeCc_trace(1))

section \<open>Successful builds\<close>

lemma sanitizer_not_c_only: "set (compile (sanitizerMitigation sans)) \<inter> set C_ONLY = {}"
  by (auto simp: sanitizerMitigation_def C_ONLY_def js_def Let_def)

lemma probed_sanitizers:
  assumes "probed t compiler sans fl" "sans \<noteq> []"
  shows "set (compile (sanitizerMitigation sans)) \<subseteq> set (cxxCompileFlags fl)"
    and "set (link (sanitizerMitigation sans)) \<subseteq> set (link fl)"
    and "accepted_in t compiler (sanitizerMitigation sans)"
  using assms sanitizer_not_c_only [of sans]
  by (auto simp: probed_def required_mitigations_def merge_flags_def cxxCompileFlags_def)

lemma cxxCompileFlags_subset: "set (cxxCompileFlags fl) \<subseteq> set (compile fl)"
  by (auto simp: cxxCompileFlags_def)

lemma build_commands_source:
  assumes "s \<in> set (sources opts)"
  shows "\<exists>command args. (command, args) \<in> set (build_commands h opts fl) \<and> s \<in> set args \<and> set (cxxCompileFlags fl) \<subseteq> set args"
proof (cases "list_ex is_cxx_source (sources opts)")
  case True
  let ?args = "compile_args opts fl s (object_name h s)"
  have "(compile_command h s, ?args) \<in> set (build_commands h opts fl)"
    using True assms by (auto simp: build_commands_def)
  moreover have "s \<in> set ?args" "set (cxxCompileFlags fl) \<subseteq> set ?args"
    using cxxCompileFlags_subset by (auto simp: compile_args_def Let_def)
  ultimately show ?thesis by blast
next
  case False
  have "s \<in> set (cc_args h opts fl)" "set (cxxCompileFlags fl) \<subseteq> set (cc_args h opts fl)"
    using assms cxxCompileFlags_subset by (auto simp: cc_args_def)
  with False show ?thesis by (auto simp: build_commands_def)
qed

lemma build_commands_last:
  obtains init command args where "build_commands h opts fl = init @ [(command, args @ [js ''-o'', output_path opts])]"
    "set (link fl) \<subseteq> set args"
proof (cases "list_ex is_cxx_source (sources opts)")
  case True
  have "\<exists>args. link_args h opts fl objs = args @ [js ''-o'', output_path opts] \<and> set (link fl) \<subseteq> set args" for objs
    by (rule exI [of _ "butlast (butlast (link_args h opts fl objs))"]) (auto simp: link_args_def butlast_append)
  with True that show ?thesis by (fastforce simp: build_commands_def)
next
  case False
  have "\<exists>args. cc_args h opts fl = args @ [js ''-o'', output_path opts] \<and> set (link fl) \<subseteq> set args"
    by (rule exI [of _ "butlast (butlast (cc_args h opts fl))"]) (auto simp: cc_args_def butlast_append)
  with False that [of "[]"] show ?thesis by (fastforce simp: build_commands_def)
qed

text \<open>C13 Whenever a build of a session reports success: the request for sanitizers was well formed and the flags
  in use were established by the probe; after the probe every process that ran ended with code 0; every source
  was on the command line of one of them together with all hardening flags (the C-only one apart) and all
  flags of the requested sanitizers; and the last process wrote the output and got all link mitigations and
  the sanitizers' link flags. So a binary without the requested instrumentation is never reported as built.\<close>

theorem invokeCc_success:
  assumes "toolchain_reach st" "fst (invokeCc h opts st) = Finished result" "exitCode result = 0"
  shows "\<exists>sans fl p b. requestedSanitizers (TSC2C_SANITIZE h) = Inr sans \<and>
    events (snd (invokeCc h opts st)) = events st @ p @ b \<and> probed (events st @ p) (ccCommand h) sans fl \<and>
    list_all succeeded (runs b) \<and>
    (\<forall>s\<in>set (sources opts). \<exists>command args r. (command, args, r) \<in> set (runs b) \<and> s \<in> set args \<and> set (cxxCompileFlags fl) \<subseteq> set args \<and>
       (sans \<noteq> [] \<longrightarrow> set (compile (sanitizerMitigation sans)) \<subseteq> set args)) \<and>
    (\<exists>command args. command_line (last (runs b)) = (command, args @ [js ''-o'', output_path opts]) \<and>
       set (link fl) \<subseteq> set args \<and> (sans \<noteq> [] \<longrightarrow> set (link (sanitizerMitigation sans)) \<subseteq> set args))"
proof -
  obtain p b sans fl where ok: "events (snd (invokeCc h opts st)) = events st @ p @ b"
    "requestedSanitizers (TSC2C_SANITIZE h) = Inr sans" "probed (events st @ p) (ccCommand h) sans fl"
    "list_all succeeded (runs b)" and lines: "map command_line (runs b) = build_commands h opts fl"
    using invokeCc_trace(2) [OF toolchain_reach_sound [OF assms(1)], of h opts] assms(2,3) by (metis prod.collapse)
  note flags = probed_sanitizers [OF ok(3)]
  have "\<exists>command args r. (command, args, r) \<in> set (runs b) \<and> s \<in> set args \<and> set (cxxCompileFlags fl) \<subseteq> set args" if "s \<in> set (sources opts)" for s
    using build_commands_source [OF that, of h fl] unfolding lines [symmetric] by auto blast
  then have "\<forall>s\<in>set (sources opts). \<exists>command args r. (command, args, r) \<in> set (runs b) \<and> s \<in> set args \<and> set (cxxCompileFlags fl) \<subseteq> set args \<and>
       (sans \<noteq> [] \<longrightarrow> set (compile (sanitizerMitigation sans)) \<subseteq> set args)"
    using flags(1) by (meson subset_trans)
  moreover obtain init command args where last_line: "build_commands h opts fl = init @ [(command, args @ [js ''-o'', output_path opts])]"
    and "set (link fl) \<subseteq> set args" by (rule build_commands_last)
  moreover have "command_line (last (runs b)) = (command, args @ [js ''-o'', output_path opts])"
    using lines last_line by (metis Nil_is_map_conv append_is_Nil_conv last_map last_snoc not_Cons_self2)
  ultimately show ?thesis using ok flags(2) by blast
qed

text \<open>A compiler that accepts everything, asked for the address sanitizer on a C and a C++ source.\<close>

definition example_host :: tool_host where
  "example_host = \<lparr>platform = js ''linux'', arch = js ''x64'', TSC2C_SANITIZE = Some (js '' address''),
     TSC2C_CC = None, TSC2C_CXX = Some [], tmpdir = js ''/tmp'', path_join = (\<lambda>a b. a @ js ''/'' @ b),
     path_dirname = (\<lambda>_. js ''.''), path_basename = id, mkdtempSync = (\<lambda>_ p. Inr (p @ js ''x'')),
     writeFileSync = (\<lambda>_ _. None), rmSync = (\<lambda>_ _. None), spawn_process = (\<lambda>_ _ _. Closed (Some 0) [])\<rparr>"

definition example_options :: cc_options where
  "example_options = \<lparr>sources = [js ''a.c'', js ''b.CPP''], output_path = js ''a.out'', includeDirs = [], libs = [js ''m''],
     extraFlags = None, linkFlags = None, release = True, verbose = False\<rparr>"

theorem invokeCc_success_witness:
  "\<exists>fl p b. events (snd (invokeCc example_host example_options \<lparr>events = [], flag_cache = Map.empty\<rparr>)) = p @ b \<and>
     probed p (js ''gcc'') [js ''address''] fl \<and> list_all succeeded (runs b) \<and>
     (\<exists>command args r. (command, args, r) \<in> set (runs b) \<and> js ''b.CPP'' \<in> set args \<and> js ''-fsanitize=address'' \<in> set args)"
proof -
  have request: "requestedSanitizers (TSC2C_SANITIZE example_host) = Inr [js ''address'']"
    by (simp add: requestedSanitizers_def example_host_def js_def trim_def is_js_space_def SANITIZERS_def)
  have "fst (invokeCc example_host example_options \<lparr>events = [], flag_cache = Map.empty\<rparr>) =
      Finished \<lparr>exitCode = 0, stderr_text = []\<rparr>"
    using request
    by (simp add: invokeCc_def invokeCcWithCxx_def hardeningFlags_def probeHardening_def probe_body_def probe_candidates_def
        accepts_def run_process_def spawnCompiler_def Let_def example_host_def example_options_def is_cxx_source_def)
  note success = invokeCc_success [OF toolchain_reach.start this cc_result.select_convs(1), unfolded request]
  have cc: "ccCommand example_host = js ''gcc''" and source: "js ''b.CPP'' \<in> set (sources example_options)"
    and flag: "js ''-fsanitize=address'' \<in> set (compile (sanitizerMitigation [js ''address'']))"
    by (simp_all add: ccCommand_def or_default_def example_host_def example_options_def sanitizerMitigation_def js_def Let_def)
  from success obtain sans fl p b where facts: "Inr [js ''address''] = (Inr sans :: js_string + js_string list)"
    "events (snd (invokeCc example_host example_options \<lparr>events = [], flag_cache = Map.empty\<rparr>)) = p @ b"
    "probed p (js ''gcc'') sans fl" "list_all succeeded (runs b)"
    "\<forall>s\<in>set (sources example_options). \<exists>command args r. (command, args, r) \<in> set (runs b) \<and> s \<in> set args \<and>
       set (cxxCompileFlags fl) \<subseteq> set args \<and> (sans \<noteq> [] \<longrightarrow> set (compile (sanitizerMitigation sans)) \<subseteq> set args)"
    unfolding cc toolchain.select_convs append_Nil by (elim exE conjE) (rule that)
  have sans: "sans = [js ''address'']" using facts(1) by simp
  then have "sans \<noteq> []" by simp
  with facts(5) source obtain command args r where "(command, args, r) \<in> set (runs b)" "js ''b.CPP'' \<in> set args"
    "set (compile (sanitizerMitigation sans)) \<subseteq> set args" by blast
  with facts(2,3,4) flag show ?thesis unfolding sans by blast
qed

text \<open>C37 A request for an unknown sanitizer fails closed: the build answers with exit code 1 and a message that names
  the unknown ones, no process runs, and the state of the probes is unchanged.\<close>

theorem invokeCc_unknown_sanitizer:
  assumes "TSC2C_SANITIZE h = Some v" "trim v \<noteq> []" "name \<in> set (map trim (split_on 0x2C v))" "name \<notin> {js ''address'', js ''undefined''}"
  shows "\<exists>text pre post. invokeCc h opts st =
      (Finished \<lparr>exitCode = 1, stderr_text = text\<rparr>, st\<lparr>events := events st @ [Stderr_Write text]\<rparr>) \<and> text = pre @ name @ post"
proof -
  let ?requested = "sort (set_add_all [] (map trim (split_on 0x2C v)))"
  let ?unknown = "filter (\<lambda>name. name \<notin> set SANITIZERS) ?requested"
  have name: "name \<in> set ?unknown" using assms by (auto simp: SANITIZERS_def)
  then obtain l r where "?unknown = l @ name # r" by (meson split_list)
  then obtain pre post where shape: "join_with (js '', '') ?unknown = pre @ name @ post"
    by (metis join_with_middle)
  have "requestedSanitizers (TSC2C_SANITIZE h) = Inl (js ''TSC2C_SANITIZE: unsupported sanitizer(s) '' @
     join_with (js '', '') ?unknown @ js ''; expected '' @ join_with (js '', '') SANITIZERS)"
    using assms(1,2) length_pos_if_in_set [OF name] unfolding requestedSanitizers_def Let_def by simp
  then show ?thesis
    unfolding invokeCc_def hardeningFlags_def shape emit_event_def Let_def
    by (auto intro: exI [of _ "js ''tsc2c: TSC2C_SANITIZE: unsupported sanitizer(s) '' @ pre"] simp: js_def)
qed

theorem invokeCc_unknown_sanitizer_witness:
  "\<exists>text pre post. invokeCc (example_host\<lparr>TSC2C_SANITIZE := Some (js ''address, thread'')\<rparr>) example_options
       \<lparr>events = [], flag_cache = Map.empty\<rparr> =
     (Finished \<lparr>exitCode = 1, stderr_text = text\<rparr>, \<lparr>events = [Stderr_Write text], flag_cache = Map.empty\<rparr>) \<and>
     text = pre @ js ''thread'' @ post"
  using invokeCc_unknown_sanitizer [of "example_host\<lparr>TSC2C_SANITIZE := Some (js ''address, thread'')\<rparr>" "js ''address, thread''"
      "js ''thread''" example_options "\<lparr>events = [], flag_cache = Map.empty\<rparr>"]
  by (simp add: js_def trim_def is_js_space_def)

section \<open>Observations\<close>

text \<open>A compiler that cannot be started passes the probe without any mitigation, and then ends the process.\<close>

lemma missing_compiler_uncaught:
  assumes "\<And>t command args. spawn_process h t command args = Spawn_Error message"
    and "TSC2C_SANITIZE h = None" "mkdtempSync h (events st) (path_join h (tmpdir h) (js ''tsc2c-harden-'')) = Inr dir"
    and "\<And>t file. writeFileSync h t file = None" "\<And>t d. rmSync h t d = None" "flag_cache st = Map.empty"
  shows "fst (invokeCc h opts st) = Uncaught message \<or> list_ex is_cxx_source (sources opts)"
proof -
  have admit: "\<exists>t'. admit h c a b adm cands t = (adm, t')" for c a b adm cands t
    by (induction cands arbitrary: t) (simp_all add: accepts_def run_process_def Let_def assms)
  obtain r st1 where flags: "hardeningFlags h (ccCommand h) st = (r, st1)" by force
  moreover have "\<exists>fl. r = Inr fl"
    using flags admit assms
    by (auto simp: hardeningFlags_def requestedSanitizers_def probeHardening_def probe_body_def probe_candidates_def
        accepts_def run_process_def Let_def split: prod.splits)
  ultimately show ?thesis
    using hardeningFlags_cached [OF flags]
    by (auto simp: invokeCc_def spawnCompiler_def run_process_def assms Let_def)
qed

end
