(* ===== verification/TS_Located.thy ===== *)
theory TS_Located
  imports TS_Ast
begin

text \<open>
  Syntax trees with parent links: the code of the static semantics reads \<open>node.parent\<close>, so a node is taken
  together with the chain of its ancestors, nearest first. Also the two orders in which the worklists of
  the code visit a tree, the first failure of a sequence of checks, and the kinds of node that only this
  code names.
\<close>

section \<open>Located nodes\<close>

type_synonym located = "node \<times> node list"

definition parent_node :: "node list \<Rightarrow> node" where
  "parent_node ancs = (case ancs of [] \<Rightarrow> missing_node | p # _ \<Rightarrow> p)"

definition located_children :: "located \<Rightarrow> located list" where
  "located_children x = map (\<lambda>c. (c, fst x # snd x)) (forEachChild (fst x))"

text \<open>The nodes of a tree in the order of a stack that pushes all children: the last child first.\<close>

function located_nodes :: "located \<Rightarrow> located list" where
  "located_nodes x = x # concat (map located_nodes (rev (located_children x)))"
  by pat_completeness auto

termination
  by (relation "measure (\<lambda>x. size (fst x))") (auto simp: located_children_def forEachChild_size)

declare located_nodes.simps [simp del]

text \<open>The order of a stack whose children are pushed in reverse: the first child first.\<close>

function located_preorder :: "located \<Rightarrow> located list" where
  "located_preorder x = x # concat (map located_preorder (located_children x))"
  by pat_completeness auto

termination
  by (relation "measure (\<lambda>x. size (fst x))") (auto simp: located_children_def forEachChild_size)

declare located_preorder.simps [simp del]

lemma set_located_preorder: "set (located_preorder x) = set (located_nodes x)"
proof (induction x rule: located_nodes.induct)
  case (1 x)
  then show ?case by (simp add: located_nodes.simps [of x] located_preorder.simps [of x])
qed

definition stack_size :: "located list \<Rightarrow> nat" where
  "stack_size stack = sum_list (map (\<lambda>x. size (fst x)) stack)"

lemma stack_size_children: "stack_size (rev (located_children x) @ stack) < stack_size (x # stack)"
  using forEachChild_sum [of "fst x"]
  by (simp add: stack_size_def located_children_def rev_map [symmetric] sum_list_rev comp_def)

lemma stack_size_preorder: "stack_size (located_children x @ stack) < stack_size (x # stack)"
  using forEachChild_sum [of "fst x"]
  by (simp add: stack_size_def located_children_def comp_def)

section \<open>Further kinds\<close>

text \<open>Kinds that only the static semantics name: each has its own number of an open constructor.\<close>

definition PropertyDeclaration :: syntax_kind where "PropertyDeclaration = OtherKind 172"
definition ClassStaticBlockDeclaration :: syntax_kind where "ClassStaticBlockDeclaration = OtherKind 175"
definition IndexSignature :: syntax_kind where "IndexSignature = OtherKind 181"
definition Parameter :: syntax_kind where "Parameter = OtherKind 169"
definition ImportDeclaration :: syntax_kind where "ImportDeclaration = OtherKind 272"
definition NamespaceImport :: syntax_kind where "NamespaceImport = OtherKind 274"
definition ImportSpecifier :: syntax_kind where "ImportSpecifier = OtherKind 276"
definition ExportDeclaration :: syntax_kind where "ExportDeclaration = OtherKind 278"
definition NamespaceExport :: syntax_kind where "NamespaceExport = OtherKind 280"
definition ExportSpecifier :: syntax_kind where "ExportSpecifier = OtherKind 281"
definition InKeyword :: syntax_kind where "InKeyword = Token (OtherToken 103)"
definition StaticKeyword :: syntax_kind where "StaticKeyword = Token (OtherToken 126)"
definition DefaultKeyword :: syntax_kind where "DefaultKeyword = Token (OtherToken 90)"
definition ExportKeyword :: syntax_kind where "ExportKeyword = Token (OtherToken 95)"
definition NewKeyword :: token_kind where "NewKeyword = OtherToken 105"

lemmas further_kinds =
  PropertyDeclaration_def ClassStaticBlockDeclaration_def IndexSignature_def Parameter_def ImportDeclaration_def
  NamespaceImport_def ImportSpecifier_def ExportDeclaration_def NamespaceExport_def ExportSpecifier_def
  InKeyword_def StaticKeyword_def DefaultKeyword_def ExportKeyword_def NewKeyword_def

definition isPrivateIdentifier :: "node \<Rightarrow> bool" where
  "isPrivateIdentifier n \<longleftrightarrow> node_kind n = PrivateIdentifier"

text \<open>\<open>ts.getModifiers\<close> of a node that can have modifiers.\<close>

definition hasModifier :: "node \<Rightarrow> syntax_kind \<Rightarrow> bool" where
  "hasModifier n k \<longleftrightarrow> list_ex (\<lambda>m. node_kind m = k) (children n ''modifiers'')"

section \<open>First failures\<close>

fun first_failure :: "('a \<Rightarrow> 'b option) \<Rightarrow> 'a list \<Rightarrow> 'b option" where
  "first_failure f [] = None"
| "first_failure f (x # xs) = (case f x of Some e \<Rightarrow> Some e | None \<Rightarrow> first_failure f xs)"

lemma first_failure_append:
  "first_failure f (xs @ ys) = (case first_failure f xs of Some e \<Rightarrow> Some e | None \<Rightarrow> first_failure f ys)"
  by (induction xs) (auto split: option.split)

lemma first_failure_None: "first_failure f xs = None \<longleftrightarrow> list_all (\<lambda>x. f x = None) xs"
  by (induction xs) (auto split: option.split)

end
