(* ===== verification/Name_Collections.thy ===== *)
theory Name_Collections
  imports TS_Located
begin

text \<open>
  The name collections of \<open>module-static-semantics.ts\<close> that its checks and those of
  \<open>control-static-semantics.ts\<close> share: the bound names of a binding, of a declaration and of an import, the
  lexically declared and the var declared names of a statement list, and the search for a duplicate.
\<close>

record name_entry =
  entry_name :: string
  entry_node :: node
  entry_declaration :: "node option"

definition plain_entry :: "string \<Rightarrow> node \<Rightarrow> name_entry" where
  "plain_entry t n = \<lparr>entry_name = t, entry_node = n, entry_declaration = None\<rparr>"

definition strictModeBindingIdentifierNames :: "string list" where
  "strictModeBindingIdentifierNames =
     [''arguments'', ''eval'', ''implements'', ''interface'', ''let'', ''package'', ''private'', ''protected'',
      ''public'', ''static'', ''yield'']"

definition moduleBindingIdentifierNames :: "string list" where
  "moduleBindingIdentifierNames = strictModeBindingIdentifierNames @ [''await'']"

section \<open>Bound names\<close>

text \<open>The names of the elements of a pattern, holes left out.\<close>

definition pattern_names :: "node \<Rightarrow> node list" where
  "pattern_names n = map (\<lambda>e. field e ''name'') (filter (\<lambda>e. \<not> is_expr OmittedExpression e) (children n ''elements''))"

lemma pattern_names_sum: "sum_list (map size (pattern_names n)) < size n"
proof -
  have "sum_list (map size (map (\<lambda>e. field e ''name'') (filter P es))) \<le> sum_list (map size es)" for P es
    by (induction es) (auto intro: add_mono le_SucI trans_le_add2)
  from this [of _ "children n ''elements''"] show ?thesis
    unfolding pattern_names_def using children_sum [of n "''elements''"] by (rule le_less_trans)
qed

function binding_loop :: "node list \<Rightarrow> name_entry list \<Rightarrow> name_entry list" where
  "binding_loop [] entries = entries"
| "binding_loop (n # stack) entries =
     (if isIdentifier n then binding_loop stack (entries @ [plain_entry (node_text n) n])
      else binding_loop (pattern_names n @ stack) entries)"
  by pat_completeness auto

termination
  by (relation "measure (\<lambda>(stack, entries). sum_list (map size stack))")
    (use pattern_names_sum in auto)

definition bindingNameEntries :: "node \<Rightarrow> name_entry list" where
  "bindingNameEntries name = binding_loop [name] []"

definition bindingNames :: "node \<Rightarrow> string list" where
  "bindingNames name = map entry_name (bindingNameEntries name)"

text \<open>The bound names by recursion over the binding.\<close>

function bound_names :: "node \<Rightarrow> name_entry list" where
  "bound_names n = (if isIdentifier n then [plain_entry (node_text n) n] else concat (map bound_names (pattern_names n)))"
  by pat_completeness auto

termination
proof (relation "measure size")
  fix n x
  assume "x \<in> set (pattern_names n)"
  then show "(x, n) \<in> measure size"
    using pattern_names_sum [of n] member_le_sum_list [of "size x" "map size (pattern_names n)"] by auto
qed simp

declare bound_names.simps [simp del]

lemma binding_loop_bound: "binding_loop stack entries = entries @ concat (map bound_names stack)"
proof (induction stack entries rule: binding_loop.induct)
  case (2 n stack entries)
  then show ?case by (simp add: bound_names.simps [of n])
qed simp

lemma bindingNameEntries_bound: "bindingNameEntries name = bound_names name"
  by (simp add: bindingNameEntries_def binding_loop_bound)

definition declaration_names :: "node \<Rightarrow> name_entry list" where
  "declaration_names l = concat (map (\<lambda>d. bindingNameEntries (field d ''name'')) (children l ''declarations''))"

definition declarationBoundNames :: "node \<Rightarrow> name_entry list" where
  "declarationBoundNames s =
     (if is_stmt VariableStatement s then declaration_names (field s ''declarationList'')
      else if is_stmt FunctionDeclaration s \<or> is_stmt ClassDeclaration s then
        (case child s ''name'' of Some name \<Rightarrow> [plain_entry (node_text name) name] | None \<Rightarrow> []) @
        (if hasModifier s DefaultKeyword then [plain_entry ''*default*'' s] else [])
      else [])"

definition statementListLexicallyDeclaredNames :: "node list \<Rightarrow> bool \<Rightarrow> name_entry list" where
  "statementListLexicallyDeclaredNames statements functionsAreLexical =
     concat (map (\<lambda>s.
       if is_stmt VariableStatement s \<and> has_flag (field s ''declarationList'') flag_BlockScoped \<or>
          is_stmt ClassDeclaration s \<or> functionsAreLexical \<and> is_stmt FunctionDeclaration s
       then map (\<lambda>e. e\<lparr>entry_declaration := if is_stmt VariableStatement s then None else Some s\<rparr>) (declarationBoundNames s)
       else []) statements)"

definition importBoundNames :: "node \<Rightarrow> name_entry list" where
  "importBoundNames s = (case child s ''importClause'' of
       None \<Rightarrow> []
     | Some clause \<Rightarrow>
         (case child clause ''name'' of Some name \<Rightarrow> [plain_entry (node_text name) name] | None \<Rightarrow> []) @
         (case child clause ''namedBindings'' of
            None \<Rightarrow> []
          | Some bindings \<Rightarrow>
              if is_kind NamespaceImport bindings
              then [plain_entry (node_text (field bindings ''name'')) (field bindings ''name'')]
              else map (\<lambda>e. plain_entry (node_text (field e ''name'')) (field e ''name'')) (children bindings ''elements'')))"

section \<open>Var declared names\<close>

function var_loop :: "node list \<Rightarrow> name_entry list \<Rightarrow> name_entry list" where
  "var_loop [] entries = entries"
| "var_loop (n # stack) entries =
     (if isFunctionLike n \<or> isClassLike n then var_loop stack entries
      else if is_elem VariableDeclarationList n then
        var_loop stack (if \<not> has_flag n flag_BlockScoped then entries @ declaration_names n else entries)
      else var_loop (forEachChild n @ stack) entries)"
  by pat_completeness auto

termination
  by (relation "measure (\<lambda>(stack, entries). sum_list (map size stack))") (use forEachChild_sum in auto)

definition statementListVarDeclaredNames :: "node list \<Rightarrow> bool \<Rightarrow> name_entry list" where
  "statementListVarDeclaredNames statements topLevelFunctions =
     var_loop statements
       (if topLevelFunctions
        then concat (map (\<lambda>s. map (\<lambda>e. e\<lparr>entry_declaration := Some s\<rparr>) (declarationBoundNames s))
               (filter (is_stmt FunctionDeclaration) statements))
        else [])"

definition moduleVarDeclaredNames :: "node \<Rightarrow> name_entry list" where
  "moduleVarDeclaredNames source = statementListVarDeclaredNames (children source ''statements'') False"

text \<open>The declaration lists a statement reaches without entering a function or class.\<close>

function var_lists :: "node \<Rightarrow> node list" where
  "var_lists n =
     (if isFunctionLike n \<or> isClassLike n then []
      else if is_elem VariableDeclarationList n then [n]
      else concat (map var_lists (forEachChild n)))"
  by pat_completeness auto

termination
  by (relation "measure size") (auto simp: forEachChild_size)

declare var_lists.simps [simp del]

definition var_names :: "node \<Rightarrow> name_entry list" where
  "var_names n = concat (map declaration_names (filter (\<lambda>l. \<not> has_flag l flag_BlockScoped) (var_lists n)))"

lemma concat_filter_concat:
  "concat (map f (filter P (concat (map g ns)))) = concat (map (\<lambda>n. concat (map f (filter P (g n)))) ns)"
  by (induction ns) simp_all

lemma var_loop_names: "var_loop stack entries = entries @ concat (map var_names stack)"
proof (induction stack entries rule: var_loop.induct)
  case (2 n stack entries)
  have "var_names n = (if isFunctionLike n \<or> isClassLike n then []
      else if is_elem VariableDeclarationList n then (if \<not> has_flag n flag_BlockScoped then declaration_names n else [])
      else concat (map var_names (forEachChild n)))"
    by (simp add: var_names_def [abs_def] var_lists.simps [of n] concat_filter_concat)
  with 2 show ?case by simp
qed simp

section \<open>Duplicates\<close>

fun duplicate_loop :: "string list \<Rightarrow> name_entry list \<Rightarrow> name_entry option" where
  "duplicate_loop seen [] = None"
| "duplicate_loop seen (e # es) =
     (if entry_name e \<in> set seen then Some e else duplicate_loop (seen @ [entry_name e]) es)"

definition duplicateName :: "name_entry list \<Rightarrow> name_entry option" where
  "duplicateName entries = duplicate_loop [] entries"

lemma duplicateName_None: "duplicateName entries = None \<longleftrightarrow> distinct (map entry_name entries)"
proof -
  have "distinct seen \<Longrightarrow> duplicate_loop seen es = None \<longleftrightarrow> distinct (seen @ map entry_name es)" for seen es
    by (induction seen es rule: duplicate_loop.induct) auto
  from this [of "[]"] show ?thesis by (simp add: duplicateName_def)
qed

end
