(* ===== verification/Private_Names.thy ===== *)
theory Private_Names
  imports Tail_Position TS_Located
begin

text \<open>
  Private names of classes, after \<open>emit/private-names.ts\<close>: the name collection of a class, the lexical
  resolution of a private identifier, the early errors of declarations and references, the bindings
  visible at a node, and the names an eval source takes from outside. The \<open>WeakMap\<close> that remembers the
  collection of a class holds the value of a pure function and is left out.
\<close>

section \<open>Name collections\<close>

record class_private_name =
  private_definition :: node
  description :: string
  declarations :: "node list"

fun add_declaration :: "string \<Rightarrow> node \<Rightarrow> (string \<times> node list) list \<Rightarrow> (string \<times> node list) list" where
  "add_declaration key member [] = [(key, [member])]"
| "add_declaration key member ((k, ds) # names) =
     (if k = key then (k, ds @ [member]) # names else (k, ds) # add_declaration key member names)"

definition collect_member :: "node \<Rightarrow> (string \<times> node list) list \<Rightarrow> (string \<times> node list) list" where
  "collect_member member names = (case child member ''name'' of
       None \<Rightarrow> names
     | Some name \<Rightarrow> if isPrivateIdentifier name then add_declaration (node_text name) member names else names)"

definition classPrivateNames :: "node \<Rightarrow> class_private_name list" where
  "classPrivateNames d = map (\<lambda>(t, ds). \<lparr>private_definition = d, description = t, declarations = ds\<rparr>)
     (fold collect_member (children d ''members'') [])"

text \<open>A class whose member the walk comes from; a heritage expression is not one.\<close>

definition encloses_member :: "node \<Rightarrow> node \<Rightarrow> bool" where
  "encloses_member parent below \<longleftrightarrow> isClassLike parent \<and> below \<in> set (children parent ''members'')"

fun resolve_walk :: "string \<Rightarrow> node \<Rightarrow> node list \<Rightarrow> class_private_name option" where
  "resolve_walk t below [] = None"
| "resolve_walk t below (parent # rest) =
     (if \<not> encloses_member parent below then resolve_walk t parent rest
      else case List.find (\<lambda>c. description c = t) (classPrivateNames parent) of
             Some name \<Rightarrow> Some name
           | None \<Rightarrow> resolve_walk t parent rest)"

definition resolveClassPrivateName :: "located \<Rightarrow> class_private_name option" where
  "resolveClassPrivateName x = resolve_walk (node_text (fst x)) (fst x) (snd x)"

section \<open>Early errors\<close>

record private_failure =
  failure_node :: node
  message :: string

definition failure :: "node \<Rightarrow> private_failure" where
  "failure n = \<lparr>failure_node = n, message = ''invalid private name declaration or reference''\<rparr>"

text \<open>Declarations of private names are properties, methods and accessors, which can all have modifiers.\<close>

definition is_static :: "node \<Rightarrow> bool" where
  "is_static d \<longleftrightarrow> hasModifier d StaticKeyword"

text \<open>The loop over the declarations of one name; \<open>count\<close> is their number.\<close>

fun check_declarations :: "nat \<Rightarrow> bool \<Rightarrow> bool \<Rightarrow> bool option \<Rightarrow> node list \<Rightarrow> private_failure option" where
  "check_declarations count getter setter staticness [] = None"
| "check_declarations count getter setter staticness (d # ds) =
     (if staticness \<noteq> None \<and> staticness \<noteq> Some (is_static d) then Some (failure d)
      else if is_elem GetAccessor d then
        if getter then Some (failure d) else check_declarations count True setter (Some (is_static d)) ds
      else if is_elem SetAccessor d then
        if setter then Some (failure d) else check_declarations count getter True (Some (is_static d)) ds
      else if count \<noteq> 1 then Some (failure d)
      else check_declarations count getter setter (Some (is_static d)) ds)"

definition check_name :: "class_private_name \<Rightarrow> private_failure option" where
  "check_name name =
     (if description name = ''#constructor'' then Some (failure (hd (declarations name)))
      else check_declarations (length (declarations name)) False False None (declarations name))"

definition check_class :: "node \<Rightarrow> private_failure option" where
  "check_class n = (if isClassLike n then first_failure check_name (classPrivateNames n) else None)"

definition declares_private :: "located \<Rightarrow> bool" where
  "declares_private x \<longleftrightarrow> (let parent = parent_node (snd x)
     in node_kind parent \<in> set [PropertyDeclaration, Element MethodDeclaration, Element GetAccessor, Element SetAccessor] \<and>
        child parent ''name'' = Some (fst x) \<and> \<not> is_expr ObjectLiteralExpression (parent_node (tl (snd x))))"

definition private_property :: "located \<Rightarrow> bool" where
  "private_property x \<longleftrightarrow> (let parent = parent_node (snd x)
     in is_expr PropertyAccessExpression parent \<and> child parent ''name'' = Some (fst x))"

definition private_brand :: "located \<Rightarrow> bool" where
  "private_brand x \<longleftrightarrow> (let parent = parent_node (snd x)
     in is_expr BinaryExpression parent \<and> node_kind (field parent ''operatorToken'') = InKeyword \<and>
        child parent ''left'' = Some (fst x))"

text \<open>The access, with the parentheses around it, is the operand of \<open>delete\<close>.\<close>

definition deleted_reference :: "located \<Rightarrow> bool" where
  "deleted_reference x \<longleftrightarrow>
     (case dropWhile (is_kind (Wrapper ParenthesizedExpression)) (tl (snd x)) of
        [] \<Rightarrow> False | p # _ \<Rightarrow> is_expr DeleteExpression p)"

definition check_identifier :: "bool \<Rightarrow> located \<Rightarrow> private_failure option" where
  "check_identifier allowExternalNames x =
     (if \<not> isPrivateIdentifier (fst x) \<or> declares_private x then None
      else if \<not> private_property x \<and> \<not> private_brand x \<or> \<not> allowExternalNames \<and> resolveClassPrivateName x = None
      then Some (failure (fst x))
      else if private_property x then
        if node_kind (field (parent_node (snd x)) ''expression'') = SuperKeyword then Some (failure (fst x))
        else if deleted_reference x then Some (failure (fst x)) else None
      else None)"

function private_loop :: "bool \<Rightarrow> located list \<Rightarrow> private_failure option" where
  "private_loop allow [] = None"
| "private_loop allow (x # stack) =
     (case check_class (fst x) of Some e \<Rightarrow> Some e
      | None \<Rightarrow> (case check_identifier allow x of Some e \<Rightarrow> Some e
          | None \<Rightarrow> private_loop allow (rev (located_children x) @ stack)))"
  by pat_completeness auto

termination
  by (relation "measure (\<lambda>(allow, stack). stack_size stack)") (simp_all add: stack_size_children)

definition earlyPrivateStaticSemanticsFailure :: "node \<Rightarrow> bool \<Rightarrow> private_failure option" where
  "earlyPrivateStaticSemanticsFailure source allowExternalNames = private_loop allowExternalNames [(source, [])]"

section \<open>Scopes and external names\<close>

definition add_visible :: "class_private_name \<Rightarrow> class_private_name list \<Rightarrow> class_private_name list" where
  "add_visible name names = (if description name \<in> set (map description names) then names else names @ [name])"

fun scope_walk :: "class_private_name list \<Rightarrow> node \<Rightarrow> node list \<Rightarrow> class_private_name list" where
  "scope_walk names below [] = names"
| "scope_walk names below (parent # rest) =
     (if \<not> encloses_member parent below then scope_walk names parent rest
      else scope_walk (fold add_visible (classPrivateNames parent) names) parent rest)"

definition classPrivateNamesInScope :: "located \<Rightarrow> class_private_name list" where
  "classPrivateNamesInScope x = scope_walk [] (fst x) (snd x)"

definition is_external_reference :: "located \<Rightarrow> bool" where
  "is_external_reference x \<longleftrightarrow> isPrivateIdentifier (fst x) \<and> (private_property x \<or> private_brand x) \<and>
     resolveClassPrivateName x = None"

function external_loop :: "located list \<Rightarrow> string list \<Rightarrow> string list" where
  "external_loop [] names = names"
| "external_loop (x # stack) names =
     external_loop (rev (located_children x) @ stack)
       (if is_external_reference x \<and> node_text (fst x) \<notin> set names then names @ [node_text (fst x)] else names)"
  by pat_completeness auto

termination
  by (relation "measure (\<lambda>(stack, names). stack_size stack)") (simp_all add: stack_size_children)

definition externalPrivateNames :: "node \<Rightarrow> string list" where
  "externalPrivateNames source = external_loop [(source, [])] []"

section \<open>Traversal\<close>

definition check_node :: "bool \<Rightarrow> located \<Rightarrow> private_failure option" where
  "check_node allow x = (case check_class (fst x) of Some e \<Rightarrow> Some e | None \<Rightarrow> check_identifier allow x)"

lemma private_loop_first:
  "private_loop allow stack = first_failure (check_node allow) (concat (map located_nodes stack))"
proof (induction allow stack rule: private_loop.induct)
  case (2 allow x stack)
  then show ?case
    by (simp add: located_nodes.simps [of x] check_node_def first_failure_append split: option.split)
qed simp

lemma external_loop_set:
  "external_loop stack names =
     set_add_all names (map (node_text \<circ> fst) (filter is_external_reference (concat (map located_nodes stack))))"
proof (induction stack names rule: external_loop.induct)
  case (2 x stack names)
  then show ?case by (simp add: located_nodes.simps [of x])
qed simp

section \<open>Private bound names\<close>

text \<open>\<open>PrivateBoundIdentifiers\<close> of a class body, with the members that declare them.\<close>

definition private_bound :: "node \<Rightarrow> (string \<times> node) list" where
  "private_bound d = concat (map (\<lambda>m. case child m ''name'' of
       None \<Rightarrow> [] | Some name \<Rightarrow> if isPrivateIdentifier name then [(node_text name, m)] else []) (children d ''members''))"

definition bound_by :: "string \<Rightarrow> (string \<times> node) list \<Rightarrow> node list" where
  "bound_by t bound = map snd (filter (\<lambda>b. fst b = t) bound)"

definition grouped :: "(string \<times> node list) list \<Rightarrow> (string \<times> node) list \<Rightarrow> bool" where
  "grouped names bound \<longleftrightarrow> distinct (map fst names) \<and>
     (\<forall>t. map_of names t = (if bound_by t bound = [] then None else Some (bound_by t bound)))"

lemma add_declaration_keys: "set (map fst (add_declaration t m names)) = insert t (set (map fst names))"
  by (induction names rule: add_declaration.induct) auto

lemma add_declaration_distinct: "distinct (map fst names) \<Longrightarrow> distinct (map fst (add_declaration t m names))"
proof (induction t m names rule: add_declaration.induct)
  case (2 t m k ds names)
  then show ?case using add_declaration_keys [of t m names] by auto
qed simp

lemma map_of_add_declaration:
  "map_of (add_declaration t m names) t' =
     (if t' = t then Some ((case map_of names t of None \<Rightarrow> [] | Some ds \<Rightarrow> ds) @ [m]) else map_of names t')"
  by (induction t m names rule: add_declaration.induct) auto

lemma grouped_add:
  "grouped names bound \<Longrightarrow> grouped (add_declaration t m names) (bound @ [(t, m)])"
  by (auto simp: grouped_def add_declaration_distinct map_of_add_declaration bound_by_def)

lemma collect_grouped:
  "grouped (fold collect_member (children d ''members'') []) (private_bound d)"
proof -
  have "grouped names bound \<Longrightarrow> grouped (fold collect_member ms names) (bound @ concat (map (\<lambda>m. case child m ''name'' of
       None \<Rightarrow> [] | Some name \<Rightarrow> if isPrivateIdentifier name then [(node_text name, m)] else []) ms))" for ms names bound
  proof (induction ms arbitrary: names bound)
    case (Cons m ms)
    let ?new = "case child m ''name'' of None \<Rightarrow> [] | Some name \<Rightarrow> if isPrivateIdentifier name then [(node_text name, m)] else []"
    have "grouped (collect_member m names) (bound @ ?new)"
      using Cons.prems by (auto simp: collect_member_def grouped_add split: option.split)
    from Cons.IH [OF this] show ?case by simp
  qed simp
  from this [of "[]" "[]"] show ?thesis by (simp add: grouped_def bound_by_def private_bound_def)
qed

lemma classPrivateNames_iff:
  "name \<in> set (classPrivateNames d) \<longleftrightarrow> private_definition name = d \<and>
     declarations name = bound_by (description name) (private_bound d) \<and> declarations name \<noteq> []"
proof -
  let ?G = "fold collect_member (children d ''members'') []"
  have "(t, ds) \<in> set ?G \<longleftrightarrow> ds = bound_by t (private_bound d) \<and> ds \<noteq> []" for t ds
  proof -
    have "map_of ?G t = Some ds \<longleftrightarrow> (t, ds) \<in> set ?G" using collect_grouped [of d] by (intro map_of_eq_Some_iff) (simp add: grouped_def)
    with collect_grouped [of d] show ?thesis by (auto simp: grouped_def split: if_splits)
  qed
  moreover have "name \<in> set (classPrivateNames d) \<longleftrightarrow>
      (\<exists>t ds. (t, ds) \<in> set ?G \<and> name = \<lparr>private_definition = d, description = t, declarations = ds\<rparr>)"
    by (force simp: classPrivateNames_def)
  ultimately show ?thesis by (cases name) auto
qed

lemma classPrivateNames_distinct: "distinct (map description (classPrivateNames d))"
  using collect_grouped [of d] by (simp add: classPrivateNames_def grouped_def comp_def case_prod_unfold)

lemma classPrivateNames_all:
  "(\<forall>name\<in>set (classPrivateNames d). Q (description name)) \<longleftrightarrow> (\<forall>t. bound_by t (private_bound d) \<noteq> [] \<longrightarrow> Q t)"
proof
  assume all: "\<forall>name\<in>set (classPrivateNames d). Q (description name)"
  have "Q t" if "bound_by t (private_bound d) \<noteq> []" for t
    using all that classPrivateNames_iff [of "\<lparr>private_definition = d, description = t, declarations = bound_by t (private_bound d)\<rparr>" d]
    by force
  then show "\<forall>t. bound_by t (private_bound d) \<noteq> [] \<longrightarrow> Q t" by blast
qed (auto simp: classPrivateNames_iff)

section \<open>Declarations\<close>

text \<open>
  The rule of ECMA-262: a private name is declared twice only by a getter and a setter that agree in
  being static, and never is \<open>#constructor\<close>.
\<close>

definition accessor_pair :: "node \<Rightarrow> node \<Rightarrow> bool" where
  "accessor_pair a b \<longleftrightarrow> is_static a = is_static b \<and>
     (is_elem GetAccessor a \<and> is_elem SetAccessor b \<or> is_elem SetAccessor a \<and> is_elem GetAccessor b)"

definition private_declarations_ok :: "node \<Rightarrow> bool" where
  "private_declarations_ok d \<longleftrightarrow>
     list_all (\<lambda>b. fst b \<noteq> ''#constructor'') (private_bound d) \<and>
     sorted_wrt (\<lambda>a b. fst a = fst b \<longrightarrow> accessor_pair (snd a) (snd b)) (private_bound d)"

lemma sorted_wrt_groups:
  "sorted_wrt (\<lambda>a b. fst a = fst b \<longrightarrow> P (snd a) (snd b)) bound \<longleftrightarrow> (\<forall>t. sorted_wrt P (bound_by t bound))"
proof (induction bound)
  case (Cons x bound)
  have "(\<forall>t. sorted_wrt P (bound_by t (x # bound))) \<longleftrightarrow>
      (\<forall>t. sorted_wrt P (bound_by t bound)) \<and> (\<forall>b\<in>set (bound_by (fst x) bound). P (snd x) b)"
    by (auto simp: bound_by_def split: if_splits)
  with Cons.IH show ?case by (auto simp: bound_by_def)
qed (simp add: bound_by_def)

lemma check_declarations_None:
  "check_declarations (length ds) False False None ds = None \<longleftrightarrow> sorted_wrt accessor_pair ds"
proof -
  have "is_elem GetAccessor d \<Longrightarrow> \<not> is_elem SetAccessor d" for d by (simp add: is_elem_def)
  then show ?thesis
    by (cases ds; cases "tl ds"; cases "tl (tl ds)") (auto simp: accessor_pair_def)
qed

lemma check_class_None: "check_class d = None \<longleftrightarrow> \<not> isClassLike d \<or> private_declarations_ok d"
proof -
  let ?bound = "private_bound d"
  have name: "check_name name = None \<longleftrightarrow> description name \<noteq> ''#constructor'' \<and> sorted_wrt accessor_pair (bound_by (description name) ?bound)"
    if "name \<in> set (classPrivateNames d)" for name
    using that check_declarations_None by (simp add: check_name_def classPrivateNames_iff)
  from classPrivateNames_all [of d "\<lambda>t. t \<noteq> ''#constructor'' \<and> sorted_wrt accessor_pair (bound_by t ?bound)"]
  have "first_failure check_name (classPrivateNames d) = None \<longleftrightarrow>
      (\<forall>t. bound_by t ?bound \<noteq> [] \<longrightarrow> t \<noteq> ''#constructor'' \<and> sorted_wrt accessor_pair (bound_by t ?bound))"
    by (simp add: first_failure_None list_all_iff name)
  also have "\<dots> \<longleftrightarrow> private_declarations_ok d"
  proof -
    have "list_all (\<lambda>b. fst b \<noteq> ''#constructor'') ?bound \<longleftrightarrow> bound_by ''#constructor'' ?bound = []"
      by (auto simp: bound_by_def list_all_iff filter_empty_conv)
    moreover have "(\<forall>t. bound_by t ?bound \<noteq> [] \<longrightarrow> sorted_wrt accessor_pair (bound_by t ?bound)) \<longleftrightarrow>
        (\<forall>t. sorted_wrt accessor_pair (bound_by t ?bound))"
      by (metis sorted_wrt.simps(1))
    ultimately show ?thesis unfolding private_declarations_ok_def sorted_wrt_groups by blast
  qed
  finally show ?thesis by (simp add: check_class_def)
qed

section \<open>References\<close>

text \<open>A name is in scope when a class has it among its private bound names and a member of that class
  contains the reference.\<close>

definition in_private_scope :: "string \<Rightarrow> located \<Rightarrow> bool" where
  "in_private_scope t x \<longleftrightarrow>
     list_ex (\<lambda>(c, p). encloses_member p c \<and> t \<in> set (map fst (private_bound p))) (path_steps (fst x) (snd x))"

lemma find_description:
  "List.find (\<lambda>c. description c = t) (classPrivateNames d) = None \<longleftrightarrow> t \<notin> set (map fst (private_bound d))"
proof -
  have "(\<forall>c\<in>set (classPrivateNames d). description c \<noteq> t) \<longleftrightarrow> bound_by t (private_bound d) = []"
    using classPrivateNames_all [of d "\<lambda>t'. t' \<noteq> t"] by blast
  moreover have "bound_by t (private_bound d) = [] \<longleftrightarrow> t \<notin> set (map fst (private_bound d))"
    by (force simp: bound_by_def filter_empty_conv)
  ultimately show ?thesis by (auto simp: find_None_iff)
qed

lemma resolve_walk_None:
  "resolve_walk t below ancs = None \<longleftrightarrow> \<not> in_private_scope t (below, ancs)"
proof (induction t below ancs rule: resolve_walk.induct)
  case (2 t below parent rest)
  then show ?case
    using find_description [of t parent]
    by (cases "List.find (\<lambda>c. description c = t) (classPrivateNames parent)") (auto simp: in_private_scope_def)
qed (simp add: in_private_scope_def)

text \<open>
  The rule for references: a private identifier that is not the name of a class member is the name of a
  property access or the left operand of \<open>in\<close>, is in scope, and as a property is neither taken from
  \<open>super\<close> nor deleted.
\<close>

definition private_reference_ok :: "bool \<Rightarrow> located \<Rightarrow> bool" where
  "private_reference_ok allow x \<longleftrightarrow> (isPrivateIdentifier (fst x) \<and> \<not> declares_private x \<longrightarrow>
     (private_property x \<or> private_brand x) \<and> (allow \<or> in_private_scope (node_text (fst x)) x) \<and>
     (private_property x \<longrightarrow> node_kind (field (parent_node (snd x)) ''expression'') \<noteq> SuperKeyword \<and> \<not> deleted_reference x))"

lemma declares_not_reference: "declares_private x \<Longrightarrow> \<not> private_property x \<and> \<not> private_brand x"
  by (auto simp: declares_private_def private_property_def private_brand_def Let_def is_expr_def further_kinds)

lemma check_identifier_None: "check_identifier allow x = None \<longleftrightarrow> private_reference_ok allow x"
  using resolve_walk_None [of "node_text (fst x)" "fst x" "snd x"]
  by (auto simp: check_identifier_def private_reference_ok_def resolveClassPrivateName_def)

lemma check_node_None:
  "check_node allow x = None \<longleftrightarrow>
     (\<not> isClassLike (fst x) \<or> private_declarations_ok (fst x)) \<and> private_reference_ok allow x"
  unfolding check_class_None [symmetric] by (auto simp: check_node_def check_identifier_None split: option.split)

lemma early_failure_first:
  "earlyPrivateStaticSemanticsFailure source allow = first_failure (check_node allow) (located_nodes (source, []))"
  by (simp add: earlyPrivateStaticSemanticsFailure_def private_loop_first)

section \<open>Visible names\<close>

lemma find_add_visible:
  "List.find (\<lambda>c. description c = t) (fold add_visible new names) =
     (case List.find (\<lambda>c. description c = t) names of Some x \<Rightarrow> Some x | None \<Rightarrow> List.find (\<lambda>c. description c = t) new)"
proof (induction new arbitrary: names)
  case (Cons c new)
  have "List.find (\<lambda>c. description c = t) (add_visible c names) =
      (case List.find (\<lambda>c. description c = t) names of Some x \<Rightarrow> Some x
       | None \<Rightarrow> if description c = t then Some c else None)"
  proof (cases "List.find (\<lambda>c. description c = t) names")
    case None
    moreover from None have "t \<notin> description ` set names" by (auto simp: find_None_iff)
    ultimately show ?thesis by (auto simp: add_visible_def find_append)
  qed (simp add: add_visible_def find_append)
  with Cons.IH show ?case by (auto split: option.split)
qed (simp split: option.split)

lemma find_scope_walk:
  "List.find (\<lambda>c. description c = t) (scope_walk names below ancs) =
     (case List.find (\<lambda>c. description c = t) names of Some x \<Rightarrow> Some x | None \<Rightarrow> resolve_walk t below ancs)"
proof (induction ancs arbitrary: names below)
  case (Cons parent rest)
  then show ?case by (auto simp: find_add_visible split: option.split)
qed (simp split: option.split)

lemma add_visible_distinct:
  "distinct (map description names) \<Longrightarrow> distinct (map description (fold add_visible new names))"
  by (induction new arbitrary: names) (auto simp: add_visible_def)

lemma scope_walk_distinct:
  "distinct (map description names) \<Longrightarrow> distinct (map description (scope_walk names below ancs))"
  by (induction names below ancs rule: scope_walk.induct) (auto intro: add_visible_distinct)

definition private_node_ok :: "bool \<Rightarrow> located \<Rightarrow> bool" where
  "private_node_ok allow x \<longleftrightarrow>
     (isClassLike (fst x) \<longrightarrow> private_declarations_ok (fst x)) \<and> private_reference_ok allow x"

section \<open>Properties\<close>

text \<open>C12 A source file has no early error of private names exactly when every class declares each private
  name once, or as a getter and a setter that agree in being static, and never \<open>#constructor\<close>, and every
  private identifier that is not such a declaration is a property access or brand check of a name in scope
  (any name when external names are allowed) that is neither taken from \<open>super\<close> nor deleted.\<close>

theorem earlyPrivateStaticSemanticsFailure_None:
  "earlyPrivateStaticSemanticsFailure source allow = None \<longleftrightarrow>
     list_all (private_node_ok allow) (located_nodes (source, []))"
proof -
  have "check_node allow x = None \<longleftrightarrow> private_node_ok allow x" for x
    by (auto simp: check_node_None private_node_ok_def)
  then show ?thesis by (simp add: early_failure_first first_failure_None)
qed

text \<open>Validation without external names is validation with them together with the absence of external names,
  and the external names are reported once each.\<close>

theorem externalPrivateNames_split:
  "distinct (externalPrivateNames source) \<and>
   (earlyPrivateStaticSemanticsFailure source False = None \<longleftrightarrow>
      earlyPrivateStaticSemanticsFailure source True = None \<and> externalPrivateNames source = [])"
proof -
  have ext: "externalPrivateNames source = [] \<longleftrightarrow> list_all (\<lambda>x. \<not> is_external_reference x) (located_nodes (source, []))"
  proof -
    have "externalPrivateNames source = [] \<longleftrightarrow> set (externalPrivateNames source) = {}" by simp
    also have "\<dots> \<longleftrightarrow> list_all (\<lambda>x. \<not> is_external_reference x) (located_nodes (source, []))"
      unfolding externalPrivateNames_def external_loop_set set_add_all_set by (force simp: list_all_iff)
    finally show ?thesis .
  qed
  have "private_reference_ok False x \<longleftrightarrow> private_reference_ok True x \<and> \<not> is_external_reference x" for x
    using resolve_walk_None [of "node_text (fst x)" "fst x" "snd x"] declares_not_reference [of x]
    by (auto simp: private_reference_ok_def is_external_reference_def resolveClassPrivateName_def)
  then show ?thesis
    unfolding early_failure_first first_failure_None check_node_None ext
    by (auto simp: list_all_iff externalPrivateNames_def external_loop_set set_add_all_distinct)
qed

text \<open>C38 Resolution agrees with the visible names: a private identifier resolves to the entry of its name
  among the names in scope at its position, of which there is at most one.\<close>

theorem resolveClassPrivateName_in_scope:
  "resolveClassPrivateName x = List.find (\<lambda>c. description c = node_text (fst x)) (classPrivateNamesInScope x) \<and>
   distinct (map description (classPrivateNamesInScope x))"
  by (simp add: resolveClassPrivateName_def classPrivateNamesInScope_def find_scope_walk scope_walk_distinct)

end
