(* ===== verification/Module_Static_Semantics.thy ===== *)
theory Module_Static_Semantics
  imports CBuf Name_Collections Definition_Evaluation Binding_Tree Module_Request Private_Names
begin

text \<open>
  The early errors of a module, after \<open>module-static-semantics.ts\<close>: the collections of lexically declared,
  var declared and exported names, module export names as well-formed Unicode, the restrictions of strict
  mode, \<open>super\<close> and \<open>new.target\<close> outside of functions, and private identifiers. The text of a string
  literal and the attributes of a declaration come from the parser.
\<close>

section \<open>Environment and failures\<close>

record module_source =
  literal_text :: "node \<Rightarrow> js_string"
  static_declaration_of :: "node \<Rightarrow> static_declaration"

record static_failure =
  failing_node :: node
  failure_message :: js_string

definition fail_at :: "node \<Rightarrow> js_string \<Rightarrow> static_failure" where
  "fail_at n m = \<lparr>failing_node = n, failure_message = m\<rparr>"

definition quoted :: "string \<Rightarrow> string \<Rightarrow> string \<Rightarrow> js_string" where
  "quoted before name behind = js before @ [0x27] @ js name @ [0x27] @ js behind"

section \<open>Module export names\<close>

fun isWellFormedUnicode :: "js_string \<Rightarrow> bool" where
  "isWellFormedUnicode [] = True"
| "isWellFormedUnicode [u] = (\<not> is_high_surrogate u \<and> \<not> is_low_surrogate u)"
| "isWellFormedUnicode (u # v # s) =
     (if is_high_surrogate u then is_low_surrogate v \<and> isWellFormedUnicode s
      else if is_low_surrogate u then False
      else isWellFormedUnicode (v # s))"

definition is_module_export_name :: "located \<Rightarrow> bool" where
  "is_module_export_name x \<longleftrightarrow> (let parent = parent_node (snd x)
     in is_kind ImportSpecifier parent \<and> child parent ''propertyName'' = Some (fst x) \<or>
        is_kind ExportSpecifier parent \<and>
          (child parent ''propertyName'' = Some (fst x) \<or> child parent ''name'' = Some (fst x)) \<or>
        is_kind NamespaceExport parent \<and> child parent ''name'' = Some (fst x))"

definition check_export_name :: "module_source \<Rightarrow> located \<Rightarrow> static_failure option" where
  "check_export_name env x =
     (if isStringLiteralLike (fst x) \<and> is_module_export_name x \<and> \<not> isWellFormedUnicode (literal_text env (fst x))
      then Some (fail_at (fst x) (js ''ModuleExportName StringLiteral is not well-formed Unicode'')) else None)"

function export_name_loop :: "module_source \<Rightarrow> located list \<Rightarrow> static_failure option" where
  "export_name_loop env [] = None"
| "export_name_loop env (x # stack) =
     (case check_export_name env x of Some e \<Rightarrow> Some e
      | None \<Rightarrow> export_name_loop env (located_children x @ stack))"
  by pat_completeness auto

termination
  by (relation "measure (\<lambda>(env, stack). stack_size stack)") (simp_all add: stack_size_preorder)

definition moduleExportNameFailure :: "module_source \<Rightarrow> node \<Rightarrow> static_failure option" where
  "moduleExportNameFailure env source = export_name_loop env [(source, [])]"

section \<open>Strict mode\<close>

definition invalidBinding :: "name_entry \<Rightarrow> static_failure option" where
  "invalidBinding e =
     (if entry_name e \<in> set moduleBindingIdentifierNames
      then Some (fail_at (entry_node e) (quoted ''binding identifier '' (entry_name e) '' is not permitted in Module strict mode''))
      else None)"

text \<open>The loop unwraps parentheses and type assertions, but no non-null assertion.\<close>

definition assignmentIdentifier :: "node \<Rightarrow> node option" where
  "assignmentIdentifier n =
     (let e = unwrapTransparentExpression (is_kind (Wrapper NonNullExpression)) n
      in if isIdentifier e then Some e else None)"

definition invalidStrictAssignment :: "node \<Rightarrow> static_failure option" where
  "invalidStrictAssignment n = (case assignmentIdentifier n of
       None \<Rightarrow> None
     | Some i \<Rightarrow> if node_text i = ''eval'' \<or> node_text i = ''arguments''
         then Some (fail_at i (quoted ''assignment to '' (node_text i) '' is not permitted in Module strict mode''))
         else None)"

definition strict_entries :: "node \<Rightarrow> name_entry list" where
  "strict_entries n =
     (if is_elem VariableDeclaration n \<or> is_kind Parameter n then bindingNameEntries (field n ''name'')
      else if (is_stmt FunctionDeclaration n \<or> is_expr FunctionExpression n \<or> is_stmt ClassDeclaration n \<or>
               is_expr ClassExpression n) \<and> has_child n ''name''
      then [plain_entry (node_text (field n ''name'')) (field n ''name'')]
      else if is_kind ImportDeclaration n then importBoundNames n
      else [])"

definition is_assignment_token :: "syntax_kind \<Rightarrow> bool" where
  "is_assignment_token k = (case k of
       Token t \<Rightarrow> (case t of EqualsToken \<Rightarrow> True | AmpersandAmpersandEqualsToken \<Rightarrow> True | BarBarEqualsToken \<Rightarrow> True
         | QuestionQuestionEqualsToken \<Rightarrow> True | CompoundAssignmentToken i \<Rightarrow> True | _ \<Rightarrow> False)
     | _ \<Rightarrow> False)"

definition is_update :: "node \<Rightarrow> bool" where
  "is_update n \<longleftrightarrow> (is_expr PrefixUnaryExpression n \<or> is_expr PostfixUnaryExpression n) \<and>
     (node_operator n = PlusPlusToken \<or> node_operator n = MinusMinusToken)"

text \<open>The expressions a node assigns to: the left operand, the operand or the head of a loop.\<close>

definition strict_target :: "node \<Rightarrow> node option" where
  "strict_target n =
     (if is_expr BinaryExpression n \<and> is_assignment_token (node_kind (field n ''operatorToken'')) then Some (field n ''left'')
      else if is_update n then Some (field n ''operand'')
      else if (is_stmt ForInStatement n \<or> is_stmt ForOfStatement n) \<and>
              \<not> is_elem VariableDeclarationList (field n ''initializer'') then Some (field n ''initializer'')
      else None)"

definition check_strict :: "node \<Rightarrow> static_failure option" where
  "check_strict n = (case first_failure invalidBinding (strict_entries n) of
       Some e \<Rightarrow> Some e
     | None \<Rightarrow>
         if is_stmt WithStatement n then Some (fail_at n (js ''with statements are not permitted in Module strict mode''))
         else if is_expr DeleteExpression n \<and> isIdentifier (field n ''expression'')
         then Some (fail_at (field n ''expression'')
                (js ''deleting an unqualified identifier is not permitted in Module strict mode''))
         else (case strict_target n of None \<Rightarrow> None | Some target \<Rightarrow> invalidStrictAssignment target))"

function strict_loop :: "located list \<Rightarrow> static_failure option" where
  "strict_loop [] = None"
| "strict_loop (x # stack) =
     (case check_strict (fst x) of Some e \<Rightarrow> Some e | None \<Rightarrow> strict_loop (located_children x @ stack))"
  by pat_completeness auto

termination
  by (relation "measure stack_size") (simp_all add: stack_size_preorder)

definition strictModuleFailure :: "node \<Rightarrow> static_failure option" where
  "strictModuleFailure source = strict_loop [(source, [])]"

section \<open>Contains\<close>

definition check_contains :: "node \<Rightarrow> static_failure option" where
  "check_contains n =
     (if node_kind n = SuperKeyword then Some (fail_at n (js ''ModuleItemList contains super''))
      else if is_expr MetaProperty n \<and> node_operator n = NewKeyword \<and> node_text (field n ''name'') = ''target''
      then Some (fail_at n (js ''ModuleItemList contains NewTarget''))
      else None)"

definition computed_expressions :: "node \<Rightarrow> node list" where
  "computed_expressions m = (case computed_key m of Some e \<Rightarrow> [e] | None \<Rightarrow> [])"

definition heritage_expressions :: "node \<Rightarrow> node list" where
  "heritage_expressions n =
     concat (map (\<lambda>clause. map (\<lambda>t. field t ''expression'') (children clause ''types'')) (children n ''heritageClauses''))"

text \<open>What the walk enters: of a class its heritage and computed names, of a function other than an arrow its
  computed name.\<close>

definition contains_children :: "node \<Rightarrow> node list" where
  "contains_children n =
     (if isClassLike n
      then heritage_expressions n @
        concat (map (\<lambda>m. if node_kind m = ClassStaticBlockDeclaration then [] else computed_expressions m) (children n ''members''))
      else if isFunctionLike n \<and> \<not> is_expr ArrowFunction n then computed_expressions n
      else forEachChild n)"

lemma contains_children_sum: "sum_list (map size (contains_children n)) < size n"
proof -
  have clause: "sum_list (map size (map (\<lambda>t. field t ''expression'') (children clause ''types''))) \<le> size clause" for clause
    using sum_list_bound [of "children clause ''types''" "\<lambda>t. size (field t ''expression'')" size]
      children_sum [of clause "''types''"] by (simp add: comp_def)
  have member: "sum_list (map size (computed_expressions m)) \<le> size m" for m
    using computed_key_size [of m] by (auto simp: computed_expressions_def split: option.split)
  have "sum_list (map size (heritage_expressions n)) \<le> sum_list (map size (children n ''heritageClauses''))"
    unfolding heritage_expressions_def by (rule sum_list_concat_bound) (rule clause)
  moreover have "sum_list (map size (concat (map (\<lambda>m. if node_kind m = ClassStaticBlockDeclaration then []
      else computed_expressions m) (children n ''members'')))) \<le> sum_list (map size (children n ''members''))"
    by (rule sum_list_concat_bound) (simp add: member)
  moreover have "sum_list (map size (computed_expressions n)) < size n"
    using computed_key_size [of n] by (auto simp: computed_expressions_def split: option.split)
  ultimately show ?thesis
    using children_sum2 [of "''heritageClauses''" "''members''" n] forEachChild_sum [of n]
    by (simp add: contains_children_def)
qed

function contains_loop :: "node list \<Rightarrow> static_failure option" where
  "contains_loop [] = None"
| "contains_loop (n # stack) =
     (case check_contains n of Some e \<Rightarrow> Some e | None \<Rightarrow> contains_loop (contains_children n @ stack))"
  by pat_completeness auto

termination
  by (relation "measure (\<lambda>stack. sum_list (map size stack))") (use contains_children_sum in auto)

definition moduleContainsFailure :: "node \<Rightarrow> static_failure option" where
  "moduleContainsFailure source = contains_loop [source]"

section \<open>Private identifiers\<close>

definition isClassElement :: "node \<Rightarrow> bool" where
  "isClassElement n \<longleftrightarrow> node_kind n \<in> set [Element Constructor, PropertyDeclaration, Element MethodDeclaration,
     Element GetAccessor, Element SetAccessor, IndexSignature, ClassStaticBlockDeclaration, Element SemicolonClassElement]"

definition member_private_names :: "node \<Rightarrow> string list" where
  "member_private_names n = concat (map (\<lambda>m. case child m ''name'' of
       Some name \<Rightarrow> if isPrivateIdentifier name then [node_text name] else [] | None \<Rightarrow> []) (children n ''members''))"

text \<open>A frame is a located node with the names of its private environment.\<close>

function private_frames :: "(located \<times> string list) list \<Rightarrow> static_failure option" where
  "private_frames [] = None"
| "private_frames ((x, names) # stack) =
     (if isPrivateIdentifier (fst x) then
        let parent = parent_node (snd x)
        in if \<not> (snd x \<noteq> [] \<and> isClassElement parent \<and> child parent ''name'' = Some (fst x)) \<and>
              node_text (fst x) \<notin> set names
           then Some (fail_at (fst x)
                  (quoted ''private identifier '' (node_text (fst x)) '' is not valid in this lexical private environment''))
           else private_frames stack
      else
        let childNames = if isClassLike (fst x) then set_add_all names (member_private_names (fst x)) else names
        in private_frames (map (\<lambda>c. (c, childNames)) (located_children x) @ stack))"
  by pat_completeness auto

termination
proof (relation "measure (\<lambda>stack. stack_size (map fst stack))")
  fix x :: located and names childNames and stack :: "(located \<times> string list) list"
  show "(map (\<lambda>c. (c, childNames)) (located_children x) @ stack, (x, names) # stack)
      \<in> measure (\<lambda>stack. stack_size (map fst stack))"
    using stack_size_preorder [of x "map fst stack"] by (simp add: comp_def)
qed (simp_all add: stack_size_def)

definition modulePrivateIdentifierFailure :: "node \<Rightarrow> static_failure option" where
  "modulePrivateIdentifierFailure source = private_frames [((source, []), [])]"

section \<open>The module\<close>

record module_names =
  lexicalNames :: "name_entry list"
  exportedBindings :: "name_entry list"
  exportedNames :: "name_entry list"

definition attributes_failure :: "module_source \<Rightarrow> node \<Rightarrow> static_failure option" where
  "attributes_failure env s =
     (if (is_kind ImportDeclaration s \<or> is_kind ExportDeclaration s) \<and> has_child s ''attributes''
      then (case moduleRequestFromDeclaration (static_declaration_of env s) of
              Some (Inl e) \<Rightarrow> Some (fail_at (field s ''attributes'') e)
            | _ \<Rightarrow> None)
      else None)"

definition local_name :: "node \<Rightarrow> node" where
  "local_name element = (case child element ''propertyName'' of Some p \<Rightarrow> p | None \<Rightarrow> field element ''name'')"

fun export_elements :: "bool \<Rightarrow> node list \<Rightarrow> module_names \<Rightarrow> static_failure + module_names" where
  "export_elements reexport [] st = Inr st"
| "export_elements reexport (element # rest) st =
     (let name = field element ''name'';
          st1 = st\<lparr>exportedNames := exportedNames st @ [plain_entry (node_text name) name]\<rparr>
      in if reexport then export_elements reexport rest st1
         else let local = local_name element
           in if isStringLiteralLike local then Inl (fail_at local (js ''a local export binding cannot be a StringLiteral''))
              else export_elements reexport rest
                (st1\<lparr>exportedBindings := exportedBindings st1 @ [plain_entry (node_text local) local]\<rparr>))"

definition export_declaration :: "node \<Rightarrow> module_names \<Rightarrow> static_failure + module_names" where
  "export_declaration s st = (case child s ''exportClause'' of
       None \<Rightarrow> Inr st
     | Some clause \<Rightarrow>
         if is_kind NamespaceExport clause
         then Inr (st\<lparr>exportedNames := exportedNames st @ [plain_entry (node_text (field clause ''name'')) (field clause ''name'')]\<rparr>)
         else export_elements (has_child s ''moduleSpecifier'') (children clause ''elements'') st)"

text \<open>The lexically declared names of a statement other than an import.\<close>

definition lexical_step :: "node \<Rightarrow> module_names \<Rightarrow> module_names" where
  "lexical_step s st =
     (if is_stmt VariableStatement s then
        if has_flag (field s ''declarationList'') flag_BlockScoped
        then st\<lparr>lexicalNames := lexicalNames st @ declarationBoundNames s\<rparr> else st
      else if is_stmt FunctionDeclaration s \<or> is_stmt ClassDeclaration s
      then st\<lparr>lexicalNames := lexicalNames st @ declarationBoundNames s\<rparr>
      else st)"

definition exported_statement :: "node \<Rightarrow> module_names \<Rightarrow> module_names" where
  "exported_statement s st =
     (let isDefault = hasModifier s DefaultKeyword; names = declarationBoundNames s
      in st\<lparr>exportedBindings := exportedBindings st @ names,
            exportedNames := exportedNames st @ (if isDefault then [plain_entry ''default'' s] else []) @
              map (\<lambda>e. plain_entry (entry_name e) (entry_node e)) (filter (\<lambda>e. \<not> isDefault \<and> entry_name e \<noteq> ''*default*'') names)\<rparr>)"

definition module_statement :: "module_source \<Rightarrow> node \<Rightarrow> module_names \<Rightarrow> static_failure + module_names" where
  "module_statement env s st = (case attributes_failure env s of
       Some e \<Rightarrow> Inl e
     | None \<Rightarrow>
         if is_kind ImportDeclaration s then Inr (st\<lparr>lexicalNames := lexicalNames st @ importBoundNames s\<rparr>)
         else
           let st1 = lexical_step s st
           in if is_stmt ExportAssignment s then
                let internal = plain_entry ''*default*'' s
                in Inr (st1\<lparr>lexicalNames := lexicalNames st1 @ [internal], exportedBindings := exportedBindings st1 @ [internal],
                       exportedNames := exportedNames st1 @ [plain_entry ''default'' s]\<rparr>)
              else if is_kind ExportDeclaration s then export_declaration s st1
              else if hasModifier s ExportKeyword then Inr (exported_statement s st1)
              else Inr st1)"

fun module_statements :: "module_source \<Rightarrow> node list \<Rightarrow> module_names \<Rightarrow> static_failure + module_names" where
  "module_statements env [] st = Inr st"
| "module_statements env (s # rest) st =
     (case module_statement env s st of Inl e \<Rightarrow> Inl e | Inr st1 \<Rightarrow> module_statements env rest st1)"

definition lexical_var_conflict :: "name_entry list \<Rightarrow> name_entry list \<Rightarrow> name_entry option" where
  "lexical_var_conflict lexical vars = List.find (\<lambda>e. entry_name e \<in> set (map entry_name lexical)) vars"

definition undeclared_export :: "name_entry list \<Rightarrow> name_entry list \<Rightarrow> name_entry list \<Rightarrow> name_entry option" where
  "undeclared_export lexical vars bindings =
     List.find (\<lambda>e. entry_name e \<notin> set (map entry_name lexical) \<union> set (map entry_name vars)) bindings"

definition module_name_failure :: "node \<Rightarrow> module_names \<Rightarrow> static_failure option" where
  "module_name_failure source st =
     (let varNames = moduleVarDeclaredNames source
      in case duplicateName (lexicalNames st) of
           Some e \<Rightarrow> Some (fail_at (entry_node e) (quoted ''LexicallyDeclaredNames contains duplicate '' (entry_name e) []))
         | None \<Rightarrow> (case lexical_var_conflict (lexicalNames st) varNames of
             Some e \<Rightarrow> Some (fail_at (entry_node e)
               (quoted ''LexicallyDeclaredNames and VarDeclaredNames both contain '' (entry_name e) []))
           | None \<Rightarrow> (case duplicateName (exportedNames st) of
               Some e \<Rightarrow> Some (fail_at (entry_node e) (quoted ''ExportedNames contains duplicate '' (entry_name e) []))
             | None \<Rightarrow> (case undeclared_export (lexicalNames st) varNames (exportedBindings st) of
                 Some e \<Rightarrow> Some (fail_at (entry_node e)
                   (quoted ''exported binding '' (entry_name e) '' is not declared by this Module''))
               | None \<Rightarrow> None))))"

definition or_else :: "'a option \<Rightarrow> 'a option \<Rightarrow> 'a option" where
  "or_else a b = (case a of Some x \<Rightarrow> Some x | None \<Rightarrow> b)"

definition earlyModuleStaticSemanticsFailure :: "module_source \<Rightarrow> node \<Rightarrow> static_failure option" where
  "earlyModuleStaticSemanticsFailure env source =
     (case module_statements env (children source ''statements'') \<lparr>lexicalNames = [], exportedBindings = [], exportedNames = []\<rparr> of
        Inl e \<Rightarrow> Some e
      | Inr st \<Rightarrow> (case module_name_failure source st of
          Some e \<Rightarrow> Some e
        | None \<Rightarrow> or_else (moduleExportNameFailure env source) (or_else (strictModuleFailure source)
            (or_else (moduleContainsFailure source) (modulePrivateIdentifierFailure source)))))"

section \<open>Collections of names\<close>

text \<open>The collections of ECMA-262 as functions of the statements of a module.\<close>

definition lexically_declared :: "node \<Rightarrow> name_entry list" where
  "lexically_declared s =
     (if is_kind ImportDeclaration s then importBoundNames s
      else if is_stmt VariableStatement s \<and> has_flag (field s ''declarationList'') flag_BlockScoped \<or>
              is_stmt FunctionDeclaration s \<or> is_stmt ClassDeclaration s then declarationBoundNames s
      else if is_stmt ExportAssignment s then [plain_entry ''*default*'' s] else [])"

definition clause_elements_of :: "node \<Rightarrow> node list" where
  "clause_elements_of s = (case child s ''exportClause'' of
       Some clause \<Rightarrow> if is_kind NamespaceExport clause then [] else children clause ''elements'' | None \<Rightarrow> [])"

definition exported_bindings :: "node \<Rightarrow> name_entry list" where
  "exported_bindings s =
     (if is_kind ImportDeclaration s then []
      else if is_stmt ExportAssignment s then [plain_entry ''*default*'' s]
      else if is_kind ExportDeclaration s then
        if has_child s ''moduleSpecifier'' then []
        else map (\<lambda>e. plain_entry (node_text (local_name e)) (local_name e)) (clause_elements_of s)
      else if hasModifier s ExportKeyword then declarationBoundNames s else [])"

definition exported_names :: "node \<Rightarrow> name_entry list" where
  "exported_names s =
     (if is_kind ImportDeclaration s then []
      else if is_stmt ExportAssignment s then [plain_entry ''default'' s]
      else if is_kind ExportDeclaration s then
        (case child s ''exportClause'' of
           None \<Rightarrow> []
         | Some clause \<Rightarrow>
             if is_kind NamespaceExport clause then [plain_entry (node_text (field clause ''name'')) (field clause ''name'')]
             else map (\<lambda>e. plain_entry (node_text (field e ''name'')) (field e ''name'')) (children clause ''elements''))
      else if \<not> hasModifier s ExportKeyword then []
      else if hasModifier s DefaultKeyword then [plain_entry ''default'' s]
      else map (\<lambda>e. plain_entry (entry_name e) (entry_node e)) (filter (\<lambda>e. entry_name e \<noteq> ''*default*'') (declarationBoundNames s)))"

definition local_exports_ok :: "node \<Rightarrow> bool" where
  "local_exports_ok s \<longleftrightarrow> is_kind ExportDeclaration s \<and> \<not> has_child s ''moduleSpecifier'' \<longrightarrow>
     list_all (\<lambda>e. \<not> isStringLiteralLike (local_name e)) (clause_elements_of s)"

definition extend_names :: "module_names \<Rightarrow> name_entry list \<Rightarrow> name_entry list \<Rightarrow> name_entry list \<Rightarrow> module_names" where
  "extend_names st ls bs es =
     st\<lparr>lexicalNames := lexicalNames st @ ls, exportedBindings := exportedBindings st @ bs, exportedNames := exportedNames st @ es\<rparr>"

lemma extend_names_extend [simp]:
  "extend_names (extend_names st ls bs es) ls' bs' es' = extend_names st (ls @ ls') (bs @ bs') (es @ es')"
  by (simp add: extend_names_def)

lemma extend_names_Nil [simp]: "extend_names st [] [] [] = st"
  by (simp add: extend_names_def)

lemma export_elements_ok:
  "reexport \<or> list_all (\<lambda>e. \<not> isStringLiteralLike (local_name e)) es \<Longrightarrow>
   export_elements reexport es st =
     Inr (extend_names st [] (if reexport then [] else map (\<lambda>e. plain_entry (node_text (local_name e)) (local_name e)) es)
       (map (\<lambda>e. plain_entry (node_text (field e ''name'')) (field e ''name'')) es))"
  by (induction es arbitrary: st) (auto simp: extend_names_def Let_def)

lemma export_elements_bad:
  "\<not> reexport \<Longrightarrow> \<not> list_all (\<lambda>e. \<not> isStringLiteralLike (local_name e)) es \<Longrightarrow> \<exists>e. export_elements reexport es st = Inl e"
  by (induction es arbitrary: st) (auto simp: Let_def)

definition module_items_ok :: "module_source \<Rightarrow> node \<Rightarrow> bool" where
  "module_items_ok env s \<longleftrightarrow> attributes_failure env s = None \<and> local_exports_ok s"

lemma kind_conflicts:
  "is_kind ImportDeclaration s \<Longrightarrow> \<not> is_kind ExportDeclaration s"
  "is_kind ExportDeclaration s \<Longrightarrow> \<not> is_stmt k s" "is_kind ImportDeclaration s \<Longrightarrow> \<not> is_stmt k s"
  "is_stmt ExportAssignment s \<Longrightarrow> is_stmt k s \<Longrightarrow> k = ExportAssignment"
  by (auto simp: is_kind_def is_stmt_def further_kinds)

lemma module_statement_ok:
  assumes "module_items_ok env s"
  shows "module_statement env s st = Inr (extend_names st (lexically_declared s) (exported_bindings s) (exported_names s))"
proof -
  have att: "attributes_failure env s = None" and loc: "local_exports_ok s" using assms by (simp_all add: module_items_ok_def)
  consider "is_kind ImportDeclaration s" | "is_stmt ExportAssignment s" | "is_kind ExportDeclaration s"
    | "\<not> is_kind ImportDeclaration s" "\<not> is_stmt ExportAssignment s" "\<not> is_kind ExportDeclaration s" by blast
  then show ?thesis
  proof cases
    case 1
    then show ?thesis
      using att by (simp add: module_statement_def lexically_declared_def exported_bindings_def exported_names_def extend_names_def)
  next
    case 2
    then have "\<not> is_kind ImportDeclaration s" "\<not> is_stmt VariableStatement s" "\<not> is_stmt FunctionDeclaration s" "\<not> is_stmt ClassDeclaration s"
      using kind_conflicts by blast+
    with 2 att show ?thesis
      by (simp add: module_statement_def lexical_step_def lexically_declared_def exported_bindings_def exported_names_def
          extend_names_def Let_def)
  next
    case 3
    then have no: "\<not> is_kind ImportDeclaration s" "\<not> is_stmt k s" for k
      using kind_conflicts by blast+
    have "export_declaration s st = Inr (extend_names st [] (exported_bindings s) (exported_names s))"
      using loc 3 no export_elements_ok
      by (auto simp: export_declaration_def local_exports_ok_def clause_elements_of_def exported_bindings_def exported_names_def
          extend_names_def split: option.split)
    with 3 no att show ?thesis
      by (simp add: module_statement_def lexical_step_def lexically_declared_def Let_def)
  next
    case 4
    then show ?thesis
      using att
      by (auto simp: module_statement_def lexical_step_def exported_statement_def lexically_declared_def exported_bindings_def
          exported_names_def extend_names_def Let_def is_stmt_def)
  qed
qed

lemma module_statement_bad: "\<not> module_items_ok env s \<Longrightarrow> \<exists>e. module_statement env s st = Inl e"
proof -
  assume bad: "\<not> module_items_ok env s"
  show ?thesis
  proof (cases "attributes_failure env s")
    case None
    with bad have s: "is_kind ExportDeclaration s" "\<not> has_child s ''moduleSpecifier''"
      and es: "\<not> list_all (\<lambda>e. \<not> isStringLiteralLike (local_name e)) (clause_elements_of s)"
      by (auto simp: module_items_ok_def local_exports_ok_def)
    then obtain clause where "child s ''exportClause'' = Some clause" "\<not> is_kind NamespaceExport clause"
      by (auto simp: clause_elements_of_def split: option.splits if_splits)
    with s es None kind_conflicts [of s] show ?thesis
      using export_elements_bad [of False "clause_elements_of s"]
      by (auto simp: module_statement_def export_declaration_def clause_elements_of_def Let_def)
  qed (simp add: module_statement_def)
qed

lemma module_statements_spec:
  "(list_all (module_items_ok env) ss \<longrightarrow> module_statements env ss st =
      Inr (extend_names st (concat (map lexically_declared ss)) (concat (map exported_bindings ss)) (concat (map exported_names ss)))) \<and>
   (\<not> list_all (module_items_ok env) ss \<longrightarrow> (\<exists>e. module_statements env ss st = Inl e))"
proof (induction ss arbitrary: st)
  case (Cons s ss)
  show ?case
  proof (cases "module_items_ok env s")
    case True
    with Cons.IH show ?thesis by (simp add: module_statement_ok)
  next
    case False
    with module_statement_bad [of env s st] show ?thesis by auto
  qed
qed simp

section \<open>Rules of the tree\<close>

lemma export_name_loop_first:
  "export_name_loop env stack = first_failure (check_export_name env) (concat (map located_preorder stack))"
proof (induction env stack rule: export_name_loop.induct)
  case (2 env x stack)
  then show ?case by (simp add: located_preorder.simps [of x] split: option.split)
qed simp

lemma strict_loop_first:
  "strict_loop stack = first_failure (\<lambda>x. check_strict (fst x)) (concat (map located_preorder stack))"
proof (induction stack rule: strict_loop.induct)
  case (2 x stack)
  then show ?case by (simp add: located_preorder.simps [of x] split: option.split)
qed simp

text \<open>The restrictions of strict mode at one node.\<close>

definition strict_node_ok :: "node \<Rightarrow> bool" where
  "strict_node_ok n \<longleftrightarrow>
     list_all (\<lambda>e. entry_name e \<notin> set moduleBindingIdentifierNames) (strict_entries n) \<and>
     \<not> is_stmt WithStatement n \<and> \<not> (is_expr DeleteExpression n \<and> isIdentifier (field n ''expression'')) \<and>
     (case strict_target n of None \<Rightarrow> True
      | Some t \<Rightarrow> (case assignmentIdentifier t of None \<Rightarrow> True | Some i \<Rightarrow> node_text i \<notin> {''eval'', ''arguments''}))"

lemma check_strict_None: "check_strict n = None \<longleftrightarrow> strict_node_ok n"
proof -
  have "first_failure invalidBinding es = None \<longleftrightarrow> list_all (\<lambda>e. entry_name e \<notin> set moduleBindingIdentifierNames) es" for es
    by (auto simp: first_failure_None invalidBinding_def list_all_iff)
  from this [of "strict_entries n"] show ?thesis
    by (cases "first_failure invalidBinding (strict_entries n)")
      (auto simp: check_strict_def strict_node_ok_def invalidStrictAssignment_def split: option.split)
qed

text \<open>The nodes a node contains in the sense of \<open>Contains\<close>: functions and classes hide all but what is evaluated
  around them, arrow functions hide nothing.\<close>

function contained_nodes :: "node \<Rightarrow> node list" where
  "contained_nodes n = n # concat (map contained_nodes (contains_children n))"
  by pat_completeness auto

termination
proof (relation "measure size")
  fix n x
  assume "x \<in> set (contains_children n)"
  then show "(x, n) \<in> measure size"
    using contains_children_sum [of n] member_le_sum_list [of "size x" "map size (contains_children n)"] by auto
qed simp

declare contained_nodes.simps [simp del]

definition is_new_target :: "node \<Rightarrow> bool" where
  "is_new_target n \<longleftrightarrow> is_expr MetaProperty n \<and> node_operator n = NewKeyword \<and> node_text (field n ''name'') = ''target''"

lemma contains_loop_first: "contains_loop stack = first_failure check_contains (concat (map contained_nodes stack))"
proof (induction stack rule: contains_loop.induct)
  case (2 n stack)
  then show ?case by (simp add: contained_nodes.simps [of n] split: option.split)
qed simp

lemma moduleContainsFailure_None:
  "moduleContainsFailure source = None \<longleftrightarrow>
     list_all (\<lambda>n. node_kind n \<noteq> SuperKeyword \<and> \<not> is_new_target n) (contained_nodes source)"
proof -
  have "check_contains n = None \<longleftrightarrow> node_kind n \<noteq> SuperKeyword \<and> \<not> is_new_target n" for n
    by (auto simp: check_contains_def is_new_target_def)
  then show ?thesis by (simp add: moduleContainsFailure_def contains_loop_first first_failure_None)
qed

section \<open>Private environments\<close>

text \<open>The walk does not look below a private identifier.\<close>

function visited_private :: "located \<Rightarrow> located list" where
  "visited_private x = x # (if isPrivateIdentifier (fst x) then [] else concat (map visited_private (located_children x)))"
  by pat_completeness auto

termination
  by (relation "measure (\<lambda>x. size (fst x))") (auto simp: located_children_def forEachChild_size)

declare visited_private.simps [simp del]

definition names_around :: "node list \<Rightarrow> string set" where
  "names_around ancs = (\<Union>p\<in>{p \<in> set ancs. isClassLike p}. set (member_private_names p))"

definition private_identifier_ok :: "located \<Rightarrow> bool" where
  "private_identifier_ok x \<longleftrightarrow> isPrivateIdentifier (fst x) \<longrightarrow>
     snd x \<noteq> [] \<and> isClassElement (parent_node (snd x)) \<and> child (parent_node (snd x)) ''name'' = Some (fst x) \<or>
     node_text (fst x) \<in> names_around (snd x)"

lemma names_around_Cons:
  "names_around (n # ancs) = (if isClassLike n then set (member_private_names n) else {}) \<union> names_around ancs"
  by (auto simp: names_around_def)

lemma private_frames_None:
  "(\<And>x names. (x, names) \<in> set stack \<Longrightarrow> set names = names_around (snd x)) \<Longrightarrow>
   private_frames stack = None \<longleftrightarrow> list_all private_identifier_ok (concat (map (\<lambda>f. visited_private (fst f)) stack))"
proof (induction stack rule: private_frames.induct)
  case (2 x names stack)
  have names: "set names = names_around (snd x)" using 2(3) by simp
  show ?case
  proof (cases "isPrivateIdentifier (fst x)")
    case True
    have tail: "private_frames stack = None \<longleftrightarrow> list_all private_identifier_ok (concat (map (\<lambda>f. visited_private (fst f)) stack))"
      if "private_identifier_ok x"
    proof (rule 2(1) [OF True refl])
      show "\<not> (\<not> (snd x \<noteq> [] \<and> isClassElement (parent_node (snd x)) \<and> child (parent_node (snd x)) ''name'' = Some (fst x)) \<and>
          node_text (fst x) \<notin> set names)"
        using that True unfolding private_identifier_ok_def names by blast
    qed (use 2(3) in auto)
    show ?thesis
      using True tail names by (auto simp: visited_private.simps [of x] private_identifier_ok_def [of x] Let_def)
  next
    case False
    define childNames where "childNames = (if isClassLike (fst x) then set_add_all names (member_private_names (fst x)) else names)"
    have "private_frames (map (\<lambda>c. (c, childNames)) (located_children x) @ stack) = None \<longleftrightarrow>
      list_all private_identifier_ok (concat (map (\<lambda>f. visited_private (fst f)) (map (\<lambda>c. (c, childNames)) (located_children x) @ stack)))"
    proof (rule 2(2) [OF False childNames_def])
      have "set childNames = names_around (fst x # snd x)" by (auto simp: childNames_def names names_around_Cons)
      then show "set ns = names_around (snd y)" if "(y, ns) \<in> set (map (\<lambda>c. (c, childNames)) (located_children x) @ stack)" for y ns
        using that 2(3) [of y ns] by (auto simp: located_children_def)
    qed
    then show ?thesis
      using False by (simp add: visited_private.simps [of x] childNames_def [symmetric] Let_def comp_def private_identifier_ok_def [of x])
  qed
qed simp

lemma modulePrivateIdentifierFailure_None:
  "modulePrivateIdentifierFailure source = None \<longleftrightarrow> list_all private_identifier_ok (visited_private (source, []))"
  using private_frames_None [of "[((source, []), [])]"] by (simp add: modulePrivateIdentifierFailure_def names_around_def)

section \<open>Names of the module\<close>

lemma option_case_None: "(case a of None \<Rightarrow> b | Some x \<Rightarrow> Some (f x)) = None \<longleftrightarrow> a = None \<and> b = None"
  by (cases a) simp_all

lemma or_else_None: "or_else a b = None \<longleftrightarrow> a = None \<and> b = None"
  by (simp add: or_else_def split: option.split)

lemma lexical_var_conflict_None:
  "lexical_var_conflict lexical vars = None \<longleftrightarrow> set (map entry_name lexical) \<inter> set (map entry_name vars) = {}"
proof -
  have "(\<forall>e\<in>set vars. entry_name e \<notin> set (map entry_name lexical)) \<longleftrightarrow>
      set (map entry_name lexical) \<inter> set (map entry_name vars) = {}"
    unfolding disjoint_iff set_map by blast
  then show ?thesis by (simp add: lexical_var_conflict_def find_None_iff Ball_def)
qed

lemma undeclared_export_None:
  "undeclared_export lexical vars bindings = None \<longleftrightarrow>
     set (map entry_name bindings) \<subseteq> set (map entry_name lexical) \<union> set (map entry_name vars)"
  by (auto simp: undeclared_export_def find_None_iff)

lemma module_name_failure_None:
  "module_name_failure source st = None \<longleftrightarrow>
     distinct (map entry_name (lexicalNames st)) \<and>
     set (map entry_name (lexicalNames st)) \<inter> set (map entry_name (moduleVarDeclaredNames source)) = {} \<and>
     distinct (map entry_name (exportedNames st)) \<and>
     set (map entry_name (exportedBindings st)) \<subseteq>
       set (map entry_name (lexicalNames st)) \<union> set (map entry_name (moduleVarDeclaredNames source))"
  unfolding module_name_failure_def Let_def option_case_None duplicateName_None lexical_var_conflict_None undeclared_export_None
  by simp

section \<open>Well-formed Unicode\<close>

lemma surrogate_units: "is_high_surrogate u \<longleftrightarrow> is_high (unat u)" "is_low_surrogate u \<longleftrightarrow> is_low (unat u)"
  by (simp_all add: is_high_surrogate_def is_low_surrogate_def is_high_def is_low_def word_le_nat_alt)

lemma isWellFormedUnicode_scalars:
  "isWellFormedUnicode s \<longleftrightarrow> list_all (\<lambda>cp. \<not> is_high cp \<and> \<not> is_low cp) (code_points s)"
proof (induction s rule: isWellFormedUnicode.induct)
  case (3 u v s)
  have pair: "\<not> is_high (0x10000 + k) \<and> \<not> is_low (0x10000 + k)" for k by (simp add: is_high_def is_low_def)
  have excl: "is_low n \<Longrightarrow> \<not> is_high n" for n by (simp add: is_high_def is_low_def)
  show ?case using 3 pair excl by (auto simp: surrogate_units add.assoc)
qed (simp_all add: surrogate_units)

definition export_name_ok :: "module_source \<Rightarrow> located \<Rightarrow> bool" where
  "export_name_ok env x \<longleftrightarrow> (isStringLiteralLike (fst x) \<and> is_module_export_name x \<longrightarrow>
     list_all (\<lambda>cp. \<not> is_high cp \<and> \<not> is_low cp) (code_points (literal_text env (fst x))))"

lemma check_export_name_None: "check_export_name env x = None \<longleftrightarrow> export_name_ok env x"
  by (auto simp: check_export_name_def export_name_ok_def isWellFormedUnicode_scalars)

section \<open>Properties\<close>


section \<open>The two checks of private identifiers\<close>

lemma visited_private_subset: "set (visited_private x) \<subseteq> set (located_nodes x)"
proof (induction x rule: visited_private.induct)
  case (1 x)
  show ?case
  proof (cases "isPrivateIdentifier (fst x)")
    case False
    then show ?thesis using 1 by (auto simp: visited_private.simps [of x] located_nodes.simps [of x])
  qed (simp add: visited_private.simps [of x] located_nodes.simps [of x])
qed

lemma member_private_names_bound: "member_private_names d = map fst (private_bound d)"
  by (auto simp: member_private_names_def private_bound_def map_concat comp_def split: option.split
      intro!: arg_cong [of _ _ concat])

lemma path_steps_ancestor: "(c, p) \<in> set (path_steps n ancs) \<Longrightarrow> p \<in> set ancs"
  by (induction n ancs rule: path_steps.induct) auto

lemma in_private_scope_around: "in_private_scope t x \<Longrightarrow> t \<in> names_around (snd x)"
  by (auto simp: in_private_scope_def list_ex_iff encloses_member_def names_around_def member_private_names_bound
      dest!: path_steps_ancestor)

text \<open>The two checks of private identifiers agree in one direction: a source that passes the early errors of private
  names also passes the private-identifier check of modules.\<close>

theorem private_checks_agree:
  assumes "earlyPrivateStaticSemanticsFailure source False = None"
  shows "modulePrivateIdentifierFailure source = None"
proof -
  have "private_identifier_ok x" if "x \<in> set (visited_private (source, []))" for x
  proof -
    have "private_reference_ok False x"
      using assms visited_private_subset that
      by (fastforce simp: early_failure_first first_failure_None check_node_None list_all_iff)
    moreover have "snd x \<noteq> [] \<and> isClassElement (parent_node (snd x))" if "declares_private x"
      using that by (cases "snd x") (auto simp: declares_private_def parent_node_def missing_node_def isClassElement_def Let_def further_kinds)
    ultimately show ?thesis
      using in_private_scope_around [of "node_text (fst x)" x]
      by (auto simp: private_reference_ok_def private_identifier_ok_def declares_private_def Let_def)
  qed
  then show ?thesis by (simp add: modulePrivateIdentifierFailure_None list_all_iff)
qed

text \<open>\<open>class { #x; m() { this.#x } }\<close>, and \<open>class extends this.#x { #x }\<close>\<close>

definition example_tree :: "nat \<Rightarrow> syntax_kind \<Rightarrow> string \<Rightarrow> (string \<times> node) list \<Rightarrow> node" where
  "example_tree i k t cs = Node i k (OtherToken 0) t 0 None cs"

definition example_access :: "nat \<Rightarrow> node" where
  "example_access i = example_tree i (Expression PropertyAccessExpression) []
     [(''expression'', example_tree (i + 1) ThisKeyword [] []), (''name'', example_tree (i + 2) PrivateIdentifier ''#x'' [])]"

definition example_field :: node where
  "example_field = example_tree 20 PropertyDeclaration [] [(''name'', example_tree 21 PrivateIdentifier ''#x'' [])]"

definition example_private_class :: node where
  "example_private_class = example_tree 1 SourceFile [] [(''statements'', example_tree 2 (Statement ClassDeclaration) []
     [(''members'', example_field),
      (''members'', example_tree 3 (Element MethodDeclaration) [] [(''body'', example_access 4)])])]"

definition example_heritage_class :: node where
  "example_heritage_class = example_tree 1 SourceFile [] [(''statements'', example_tree 2 (Statement ClassDeclaration) []
     [(''heritageClauses'', example_tree 3 (OtherKind 1) [] [(''types'', example_access 4)]), (''members'', example_field)])]"

lemmas example_private_defs =
  example_tree_def example_access_def example_field_def example_private_class_def example_heritage_class_def

theorem private_checks_agree_witness:
  "earlyPrivateStaticSemanticsFailure example_private_class False = None \<and> modulePrivateIdentifierFailure example_private_class = None"
proof -
  have "earlyPrivateStaticSemanticsFailure example_private_class False = None" by code_simp
  with private_checks_agree [of example_private_class] show ?thesis by simp
qed

text \<open>The converse fails for the heritage of a class, which the module check reads in the scope of the class.\<close>

lemma heritage_private_name:
  "modulePrivateIdentifierFailure example_heritage_class = None"
  "earlyPrivateStaticSemanticsFailure example_heritage_class False = Some (failure (example_tree 6 PrivateIdentifier ''#x'' []))"
  by code_simp+

end
