(* ===== verification/Control_Static_Semantics.thy ===== *)
theory Control_Static_Semantics
  imports Module_Static_Semantics
begin

text \<open>
  The contextual early errors of control flow, after \<open>control-static-semantics.ts\<close>, with the helpers it takes
  from \<open>ecmascript-source.ts\<close> and \<open>function-static-semantics.ts\<close>: one worklist of nodes with their control
  context. What the code reads of the source text, of token positions and of trailing commas comes from the
  parser and the scanner.
\<close>

section \<open>Kinds and flags\<close>

definition ImportEqualsDeclaration :: syntax_kind where "ImportEqualsDeclaration = OtherKind 271"
definition CatchClause :: syntax_kind where "CatchClause = OtherKind 299"
definition CaseBlock :: syntax_kind where "CaseBlock = OtherKind 269"
definition PropertySignature :: syntax_kind where "PropertySignature = OtherKind 171"
definition EnumMember :: syntax_kind where "EnumMember = OtherKind 306"
definition NamedTupleMember :: syntax_kind where "NamedTupleMember = OtherKind 202"
definition JsxAttribute :: syntax_kind where "JsxAttribute = OtherKind 291"
definition JsxNamespacedName :: syntax_kind where "JsxNamespacedName = OtherKind 295"
definition JsxOpeningElement :: syntax_kind where "JsxOpeningElement = OtherKind 286"
definition JsxSelfClosingElement :: syntax_kind where "JsxSelfClosingElement = OtherKind 285"
definition JsxClosingElement :: syntax_kind where "JsxClosingElement = OtherKind 287"
definition ImportAttribute :: syntax_kind where "ImportAttribute = OtherKind 301"

definition flag_Const :: "32 word" where "flag_Const = 2"

section \<open>The source\<close>

text \<open>
  \<open>module_goal\<close> is \<open>ecmaParseGoal(sourceFile) === "module"\<close>; \<open>token_text\<close> the raw text of a node;
  \<open>trailing_comma\<close> is \<open>hasTrailingComma\<close> of the node array of a field; \<open>list_tokens\<close> are the tokens the
  scanner finds from the start of a declaration list, each with its text and whether a line terminator
  stands between it and the token before it; \<open>line_and_character\<close> is the position of the start of a node,
  from zero.
\<close>

record control_source =
  module_goal :: bool
  file_name :: js_string
  token_text :: "node \<Rightarrow> string"
  full_width :: "node \<Rightarrow> nat"
  trailing_comma :: "node \<Rightarrow> string \<Rightarrow> bool"
  list_tokens :: "node \<Rightarrow> (string \<times> bool) list"
  line_and_character :: "node \<Rightarrow> nat \<times> nat"

text \<open>\<open>/(?:\.[cm]?js|\.jsx)$/iu\<close>: with both flags \<open>s\<close> also matches U+017F.\<close>

definition fold_unit :: "code_unit \<Rightarrow> code_unit" where
  "fold_unit u = (if u = 0x17F then 0x73 else ascii_lower u)"

definition is_javascript_file :: "js_string \<Rightarrow> bool" where
  "is_javascript_file f \<longleftrightarrow> list_ex (ends_with (map fold_unit f)) [js ''.js'', js ''.cjs'', js ''.mjs'', js ''.jsx'']"

fun ecmaDirectivePrologueHasUseStrict :: "control_source \<Rightarrow> node list \<Rightarrow> bool" where
  "ecmaDirectivePrologueHasUseStrict env [] = False"
| "ecmaDirectivePrologueHasUseStrict env (s # ss) =
     (if \<not> is_stmt ExpressionStatement s \<or> node_kind (field s ''expression'') \<noteq> Literal StringLiteral then False
      else let token = token_text env (field s ''expression'')
        in if token = [CHR 0x22] @ ''use strict'' @ [CHR 0x22] \<or> token = [CHR 0x27] @ ''use strict'' @ [CHR 0x27] then True
           else ecmaDirectivePrologueHasUseStrict env ss)"

definition is_iteration :: "node \<Rightarrow> bool" where
  "is_iteration n \<longleftrightarrow> is_stmt ForStatement n \<or> is_stmt ForInStatement n \<or> is_stmt ForOfStatement n \<or>
     is_stmt WhileStatement n \<or> is_stmt DoStatement n"

definition isStatementBody :: "node \<Rightarrow> node \<Rightarrow> bool" where
  "isStatementBody parent c =
     (if is_stmt IfStatement parent then child parent ''thenStatement'' = Some c \<or> child parent ''elseStatement'' = Some c
      else (is_stmt WithStatement parent \<or> is_iteration parent \<or> is_stmt LabeledStatement parent) \<and>
           child parent ''statement'' = Some c)"

definition isContextualGrammarIdentifier :: "located \<Rightarrow> bool" where
  "isContextualGrammarIdentifier x =
     (let parent = parent_node (snd x); named = (\<lambda>f. child parent f = Some (fst x))
      in if is_expr PropertyAccessExpression parent \<and> named ''name'' then False
         else if node_kind parent \<in> set [Element PropertyAssignment, Element MethodDeclaration, SignatureType, PropertyDeclaration,
             PropertySignature, EnumMember, NamedTupleMember, Element GetAccessor, Element SetAccessor] \<and> named ''name'' then False
         else if is_kind JsxAttribute parent \<and> named ''name'' \<or> is_kind JsxNamespacedName parent then False
         else if node_kind parent \<in> set [JsxOpeningElement, JsxSelfClosingElement, JsxClosingElement] \<and> named ''tagName'' then False
         else if is_elem BindingElement parent \<and> named ''propertyName'' then False
         else if is_kind ImportAttribute parent \<and> named ''name'' then False
         else if is_kind ImportSpecifier parent \<and> named ''propertyName'' then False
         else if is_kind ExportSpecifier parent \<and>
             (has_child (parent_node (tl (tl (snd x)))) ''moduleSpecifier'' \<or> named ''name'' \<and> has_child parent ''propertyName'') then False
         else True)"

section \<open>Assignment targets\<close>

function label_target :: "node \<Rightarrow> node" where
  "label_target s = (if is_stmt LabeledStatement s then
       (case child s ''statement'' of Some t \<Rightarrow> label_target t | None \<Rightarrow> missing_node) else s)"
  by pat_completeness auto

termination
  by (relation "measure size") (auto simp: child_size)

declare label_target.simps [simp del]

definition labelsIteration :: "node \<Rightarrow> bool" where
  "labelsIteration s = is_iteration (label_target s)"

definition is_optional :: "node \<Rightarrow> bool" where
  "is_optional n = has_flag n flag_OptionalChain"

definition simpleAssignmentTarget :: "node \<Rightarrow> bool" where
  "simpleAssignmentTarget n = (let e = transparent n
     in isIdentifier e \<or> isAccess e \<and> \<not> is_optional e)"

definition webCompatCallTarget :: "node \<Rightarrow> bool" where
  "webCompatCallTarget n = (let e = transparent n
     in is_expr CallExpression e \<and> \<not> is_optional e \<and> node_kind (field e ''expression'') \<noteq> SuperKeyword \<and>
        node_kind (field e ''expression'') \<noteq> ImportKeyword)"

definition logicalAssignment :: "syntax_kind \<Rightarrow> bool" where
  "logicalAssignment k \<longleftrightarrow> k \<in> {Token AmpersandAmpersandEqualsToken, Token BarBarEqualsToken, Token QuestionQuestionEqualsToken}"

text \<open>The targets of one pattern that the loop pushes, in the order of the elements; \<open>None\<close> when it returns false.\<close>

definition element_target :: "node \<Rightarrow> node" where
  "element_target e = (if is_expr BinaryExpression e \<and> node_kind (field e ''operatorToken'') = Token EqualsToken
     then field e ''left'' else e)"

fun array_targets :: "bool \<Rightarrow> node list \<Rightarrow> node list option" where
  "array_targets comma [] = Some []"
| "array_targets comma (e # es) =
     (if is_expr OmittedExpression e then array_targets comma es
      else if is_expr SpreadElement e then
        if es \<noteq> [] \<or> comma then None else Some [field e ''expression'']
      else map_option ((#) (element_target e)) (array_targets comma es))"

fun object_targets :: "bool \<Rightarrow> node list \<Rightarrow> node list option" where
  "object_targets comma [] = Some []"
| "object_targets comma (p # ps) =
     (if is_elem ShorthandPropertyAssignment p then map_option ((#) (field p ''name'')) (object_targets comma ps)
      else if is_elem PropertyAssignment p
      then map_option ((#) (element_target (field p ''initializer''))) (object_targets comma ps)
      else if is_elem SpreadAssignment p then
        if ps \<noteq> [] \<or> comma \<or> \<not> simpleAssignmentTarget (field p ''expression'') then None else object_targets comma ps
      else None)"

definition pattern_targets :: "control_source \<Rightarrow> node \<Rightarrow> node list option" where
  "pattern_targets env n =
     (if is_expr ArrayLiteralExpression n then array_targets (trailing_comma env n ''elements'') (children n ''elements'')
      else if is_expr ObjectLiteralExpression n then object_targets (trailing_comma env n ''properties'') (children n ''properties'')
      else None)"

lemma element_target_le: "size (element_target e) \<le> size e"
  by (simp add: element_target_def)

lemma array_targets_sum: "array_targets comma es = Some ts \<Longrightarrow> sum_list (map size ts) \<le> sum_list (map size es)"
proof (induction comma es arbitrary: ts rule: array_targets.induct)
  case (2 comma e es)
  then show ?case
    using element_target_le [of e] field_le [of e "''expression''"] by (fastforce split: if_splits intro: add_mono trans_le_add2)
qed simp

lemma object_targets_sum: "object_targets comma ps = Some ts \<Longrightarrow> sum_list (map size ts) \<le> sum_list (map size ps)"
proof (induction comma ps arbitrary: ts rule: object_targets.induct)
  case (2 comma p ps)
  have "size (element_target (field p ''initializer'')) \<le> size p"
    using element_target_le field_le by (rule order_trans)
  then show ?case
    using 2 field_le [of p "''name''"] by (fastforce split: if_splits intro: add_mono trans_le_add2)
qed simp

lemma pattern_targets_sum: "pattern_targets env n = Some ts \<Longrightarrow> sum_list (map size ts) < size n"
  using array_targets_sum object_targets_sum children_sum
  by (fastforce simp: pattern_targets_def split: if_splits intro: le_less_trans)

function target_loop :: "control_source \<Rightarrow> node list \<Rightarrow> bool" where
  "target_loop env [] = True"
| "target_loop env (t # stack) =
     (if simpleAssignmentTarget t then target_loop env stack
      else case pattern_targets env t of None \<Rightarrow> False | Some ts \<Rightarrow> target_loop env (rev ts @ stack))"
  by pat_completeness auto

termination
  by (relation "measure (\<lambda>(env, stack). sum_list (map size stack))")
    (use pattern_targets_sum in \<open>auto simp: rev_map [symmetric] sum_list_rev\<close>)

definition assignmentTarget :: "control_source \<Rightarrow> node \<Rightarrow> bool" where
  "assignmentTarget env root = target_loop env [root]"

section \<open>Contexts\<close>

record control_context =
  strict_code :: bool
  allowReturn :: bool
  allowAwait :: bool
  breakableDepth :: nat
  iterationDepth :: nat
  active_labels :: "(string \<times> bool) list"
  lexicalIterationNames :: "string list"
  catchPatternNames :: "string list"

definition rootContext :: "control_source \<Rightarrow> node \<Rightarrow> control_context" where
  "rootContext env source =
     \<lparr>strict_code = module_goal env \<or> ecmaDirectivePrologueHasUseStrict env (children source ''statements''),
      allowReturn = False, allowAwait = False, breakableDepth = 0, iterationDepth = 0, active_labels = [],
      lexicalIterationNames = [], catchPatternNames = []\<rparr>"

definition entry_context :: "control_source \<Rightarrow> node \<Rightarrow> control_context \<Rightarrow> control_context" where
  "entry_context env n ctx =
     ctx\<lparr>strict_code := strict_code ctx \<or> isClassLike n \<or>
       isFunctionLike n \<and> (case child n ''body'' of
          Some body \<Rightarrow> is_stmt Block body \<and> ecmaDirectivePrologueHasUseStrict env (children body ''statements'') | None \<Rightarrow> False)\<rparr>"

section \<open>Declaration conflicts\<close>

definition ordinaryFunction :: "node option \<Rightarrow> bool" where
  "ordinaryFunction d = (case d of None \<Rightarrow> False
     | Some n \<Rightarrow> is_stmt FunctionDeclaration n \<and> \<not> has_child n ''asteriskToken'' \<and> \<not> hasModifier n (Token AsyncKeyword))"

fun lexical_conflict :: "bool \<Rightarrow> bool \<Rightarrow> string \<Rightarrow> (string \<times> node option) list \<Rightarrow> name_entry list
    \<Rightarrow> static_failure + (string \<times> node option) list" where
  "lexical_conflict functionsAreLexical strict label names [] = Inr names"
| "lexical_conflict functionsAreLexical strict label names (e # es) =
     (if (case map_of names (entry_name e) of None \<Rightarrow> False
          | Some previous \<Rightarrow> strict \<or> \<not> functionsAreLexical \<or> \<not> ordinaryFunction previous \<or> \<not> ordinaryFunction (entry_declaration e))
      then Inl (fail_at (entry_node e) (quoted (label @ '' LexicallyDeclaredNames contains duplicate '') (entry_name e) []))
      else lexical_conflict functionsAreLexical strict label ((entry_name e, entry_declaration e) # names) es)"

definition declarationConflict :: "node list \<Rightarrow> bool \<Rightarrow> bool \<Rightarrow> string \<Rightarrow> static_failure option" where
  "declarationConflict statements functionsAreLexical strict label =
     (case lexical_conflict functionsAreLexical strict label [] (statementListLexicallyDeclaredNames statements functionsAreLexical) of
        Inl e \<Rightarrow> Some e
      | Inr names \<Rightarrow>
          if names = [] then None
          else map_option (\<lambda>e. fail_at (entry_node e)
              (quoted (label @ '' LexicallyDeclaredNames and VarDeclaredNames both contain '') (entry_name e) []))
            (List.find (\<lambda>e. entry_name e \<in> set (map fst names))
               (statementListVarDeclaredNames statements (\<not> functionsAreLexical))))"

section \<open>Checks of one node\<close>

text \<open>Each check of the loop in the order of the code, up to the clauses that continue with their own successors.\<close>

definition check_item_position :: "located \<Rightarrow> static_failure option" where
  "check_item_position x = (let n = fst x
     in if (is_kind ImportDeclaration n \<or> is_kind ExportDeclaration n \<or> is_stmt ExportAssignment n \<or>
            is_kind ImportEqualsDeclaration n \<or> hasModifier n ExportKeyword) \<and>
           snd x \<noteq> [] \<and> \<not> is_kind SourceFile (parent_node (snd x))
        then Some (fail_at n (js ''an import or export declaration is only permitted at the top level of a module''))
        else None)"

function let_loop :: "node list \<Rightarrow> static_failure option" where
  "let_loop [] = None"
| "let_loop (n # stack) =
     (if isIdentifier n then
        if node_text n = ''let'' then Some (fail_at n ([0x27] @ js ''let'' @ [0x27] @ js '' is not permitted as a lexically bound name''))
        else let_loop stack
      else let_loop (rev (map (\<lambda>e. field e ''name'') (filter (is_elem BindingElement) (children n ''elements''))) @ stack))"
  by pat_completeness auto

termination
proof (relation "measure (\<lambda>stack. sum_list (map size stack))")
  fix n :: node and stack
  have "sum_list (map (\<lambda>e. size (field e ''name'')) es) \<le> sum_list (map size es)" for es
    by (rule sum_list_bound) simp
  from order_trans [OF this sum_list_filter_le]
  have "sum_list (map (\<lambda>e. size (field e ''name'')) (filter P (children n ''elements''))) < size n" for P
    using children_sum [of n "''elements''"] by (rule le_less_trans)
  then show "(rev (map (\<lambda>e. field e ''name'') (filter (is_elem BindingElement) (children n ''elements''))) @ stack, n # stack)
      \<in> measure (\<lambda>stack. sum_list (map size stack))"
    by (simp add: rev_map [symmetric] sum_list_rev comp_def)
qed auto

definition check_lexical_list :: "located \<Rightarrow> static_failure option" where
  "check_lexical_list x = (let n = fst x; parent = parent_node (snd x); ds = children n ''declarations''
     in if is_elem VariableDeclarationList n \<and> has_flag n flag_BlockScoped then
          (case (if \<not> (is_stmt ForInStatement parent \<or> is_stmt ForOfStatement parent) \<and> has_flag n (flag_Const OR flag_Using)
                 then List.find (\<lambda>d. \<not> has_child d ''initializer'') ds else None) of
             Some d \<Rightarrow> Some (fail_at d (js (''a '' @ (if has_flag n flag_Using then ''using'' else ''const'') @ '' declaration requires an initializer'')))
           | None \<Rightarrow> let_loop (rev (map (\<lambda>d. field d ''name'') ds)))
        else None)"

definition check_throw :: "control_source \<Rightarrow> node \<Rightarrow> static_failure option" where
  "check_throw env n =
     (if is_stmt ThrowStatement n \<and> (case child n ''expression'' of None \<Rightarrow> True | Some e \<Rightarrow> full_width env e = 0)
      then Some (fail_at n (js ''throw requires an expression on the same line'')) else None)"

definition check_import_call :: "node \<Rightarrow> static_failure option" where
  "check_import_call n = (let arguments = children n ''arguments''
     in if is_import_call n \<and> (arguments = [] \<or> length arguments > 2 \<or> list_ex (is_expr SpreadElement) arguments)
        then Some (fail_at n (js ''import() takes a specifier and an optional options argument'')) else None)"

definition check_chains :: "node \<Rightarrow> static_failure option" where
  "check_chains n =
     (if is_expr TaggedTemplateExpression n \<and> (is_optional n \<or> is_optional (field n ''tag''))
      then Some (fail_at n (js ''optional chain is not permitted as a template tag''))
      else if is_expr NewExpression n \<and> is_optional (field n ''expression'')
      then Some (fail_at n (js ''optional chain is not permitted as a constructor target''))
      else None)"

definition check_delete :: "control_context \<Rightarrow> node \<Rightarrow> static_failure option" where
  "check_delete ctx n =
     (if is_expr DeleteExpression n \<and> strict_code ctx \<and>
         isIdentifier (unwrapTransparentExpression (\<lambda>e. \<not> is_kind (Wrapper ParenthesizedExpression) e) (field n ''expression''))
      then Some (fail_at n (js ''delete of an identifier is not permitted in strict mode'')) else None)"

fun rest_elements :: "bool \<Rightarrow> bool \<Rightarrow> node list \<Rightarrow> static_failure option" where
  "rest_elements obj comma [] = None"
| "rest_elements obj comma (e # es) =
     (if is_expr OmittedExpression e \<or> \<not> has_child e ''dotDotDotToken'' then rest_elements obj comma es
      else if has_child e ''initializer'' \<or> es \<noteq> [] \<or> comma \<or>
              obj \<and> (\<not> isIdentifier (field e ''name'') \<or> has_child e ''propertyName'')
      then Some (fail_at e (js ''invalid rest binding grammar''))
      else rest_elements obj comma es)"

definition check_rest :: "control_source \<Rightarrow> located \<Rightarrow> static_failure option" where
  "check_rest env x = (let n = fst x; parent = parent_node (snd x)
     in if is_elem ArrayBindingPattern n \<or> is_elem ObjectBindingPattern n
        then rest_elements (is_elem ObjectBindingPattern n) (trailing_comma env n ''elements'') (children n ''elements'')
        else if is_kind Parameter n \<and> has_child n ''dotDotDotToken'' \<and>
                (has_child n ''initializer'' \<or> children parent ''parameters'' = [] \<or> last (children parent ''parameters'') \<noteq> n \<or>
                 trailing_comma env parent ''parameters'')
        then Some (fail_at n (js ''invalid rest binding grammar'')) else None)"

definition check_strict_names :: "control_source \<Rightarrow> control_context \<Rightarrow> located \<Rightarrow> static_failure option" where
  "check_strict_names env ctx x = (let n = fst x;
       declared = is_elem VariableDeclaration n \<or> is_stmt FunctionDeclaration n \<or> is_expr FunctionExpression n \<or>
         is_stmt ClassDeclaration n \<or> is_expr ClassExpression n;
       restricted = (case child n ''name'' of
           Some name \<Rightarrow> if declared \<and> strict_code ctx
             then List.find (\<lambda>e. entry_name e \<in> set strictModeBindingIdentifierNames) (bindingNameEntries name) else None
         | None \<Rightarrow> None)
     in case restricted of
          Some e \<Rightarrow> Some (fail_at (entry_node e) (quoted ''binding identifier '' (entry_name e) '' is not permitted in strict mode''))
        | None \<Rightarrow>
            if isIdentifier n \<and> is_javascript_file (file_name env) \<and> node_text n \<noteq> ''eval'' \<and> node_text n \<noteq> ''arguments'' \<and>
               node_text n \<in> set strictModeBindingIdentifierNames \<and> strict_code ctx \<and> isContextualGrammarIdentifier x
            then Some (fail_at n (quoted ''identifier '' (node_text n) '' is not permitted in strict mode'')) else None)"

text \<open>From a node up through the labelled statements it is the body of.\<close>

fun labelled_item :: "node \<Rightarrow> node list \<Rightarrow> bool \<Rightarrow> node \<times> node list \<times> bool" where
  "labelled_item item [] labelled = (item, [], labelled)"
| "labelled_item item (p # ps) labelled =
     (if is_stmt LabeledStatement p \<and> child p ''statement'' = Some item then labelled_item p ps True else (item, p # ps, labelled))"

definition plainFunction :: "node \<Rightarrow> bool" where
  "plainFunction n = ordinaryFunction (Some n)"

definition check_declaration_position :: "control_context \<Rightarrow> located \<Rightarrow> static_failure option" where
  "check_declaration_position ctx x = (let n = fst x
     in if is_stmt VariableStatement n \<and> has_flag (field n ''declarationList'') flag_BlockScoped \<and>
           snd x \<noteq> [] \<and> isStatementBody (parent_node (snd x)) n
        then Some (fail_at n (js ''lexical declaration is not permitted as a Statement''))
        else if is_stmt FunctionDeclaration n \<or> is_stmt ClassDeclaration n then
          (case labelled_item n (snd x) False of
             (item, [], labelled) \<Rightarrow> None
           | (item, parent # _, labelled) \<Rightarrow>
               if (labelled \<or> isStatementBody parent item) \<and>
                  \<not> (\<not> strict_code ctx \<and> plainFunction n \<and>
                     (if labelled then \<not> isStatementBody parent item else is_stmt IfStatement parent))
               then Some (fail_at n (js ''declaration is not permitted in Statement position'')) else None)
        else None)"

definition check_with :: "control_context \<Rightarrow> node \<Rightarrow> static_failure option" where
  "check_with ctx n =
     (if is_stmt WithStatement n \<and> strict_code ctx then Some (fail_at n (js ''with statement is not permitted in strict mode'')) else None)"

definition first_checks :: "control_source \<Rightarrow> control_context \<Rightarrow> located \<Rightarrow> static_failure option list" where
  "first_checks env ctx x =
     [check_item_position x, check_lexical_list x, check_throw env (fst x), check_import_call (fst x), check_chains (fst x),
      check_delete ctx (fst x), check_rest env x, check_strict_names env ctx x, check_declaration_position ctx x, check_with ctx (fst x)]"

definition first_of :: "'a option list \<Rightarrow> 'a option" where
  "first_of cs = first_failure id cs"

subsection \<open>Catch clauses\<close>

fun catch_names :: "control_context \<Rightarrow> string list \<Rightarrow> name_entry list \<Rightarrow> static_failure + string list" where
  "catch_names ctx names [] = Inr names"
| "catch_names ctx names (e # es) =
     (if entry_name e \<in> set names \<or> strict_code ctx \<and> entry_name e \<in> set strictModeBindingIdentifierNames
      then Inl (fail_at (entry_node e) (js ''catch binding has invalid or duplicate BoundNames''))
      else catch_names ctx (names @ [entry_name e]) es)"

definition block_entries :: "node \<Rightarrow> name_entry list" where
  "block_entries s =
     (if is_stmt VariableStatement s \<and> has_flag (field s ''declarationList'') flag_BlockScoped
      then declaration_names (field s ''declarationList'')
      else if (is_stmt FunctionDeclaration s \<or> is_stmt ClassDeclaration s) \<and> has_child s ''name''
      then [plain_entry (node_text (field s ''name'')) (field s ''name'')] else [])"

definition catch_parameter :: "node \<Rightarrow> node option" where
  "catch_parameter n = (case child n ''variableDeclaration'' of Some d \<Rightarrow> child d ''name'' | None \<Rightarrow> None)"

type_synonym control_frame = "located \<times> control_context"

definition located_field :: "located \<Rightarrow> string \<Rightarrow> located list" where
  "located_field x f = map (\<lambda>c. (c, fst x # snd x)) (children (fst x) f)"

text \<open>Failure or successors, the top of the stack first.\<close>

definition catch_step :: "control_context \<Rightarrow> located \<Rightarrow> static_failure + control_frame list" where
  "catch_step ctx x = (let n = fst x
     in case catch_names ctx [] (case catch_parameter n of Some p \<Rightarrow> bindingNameEntries p | None \<Rightarrow> []) of
          Inl e \<Rightarrow> Inl e
        | Inr names \<Rightarrow>
            (case List.find (\<lambda>e. entry_name e \<in> set names) (concat (map block_entries (children (field n ''block'') ''statements''))) of
               Some e \<Rightarrow> Inl (fail_at (entry_node e) (quoted ''catch binding '' (entry_name e) '' conflicts with a block lexical declaration''))
             | None \<Rightarrow>
                 let pattern = (case catch_parameter n of Some p \<Rightarrow> \<not> isIdentifier p | None \<Rightarrow> False);
                     inner = ctx\<lparr>catchPatternNames := if pattern then set_add_all (catchPatternNames ctx) names else catchPatternNames ctx\<rparr>
                 in Inr (map (\<lambda>c. (c, ctx)) (located_field x ''variableDeclaration'') @ map (\<lambda>c. (c, inner)) (located_field x ''block''))))"

subsection \<open>Functions\<close>

definition body_context :: "control_context \<Rightarrow> node \<Rightarrow> control_context" where
  "body_context ctx n =
     \<lparr>strict_code = strict_code ctx, allowReturn = True, allowAwait = hasModifier n (Token AsyncKeyword), breakableDepth = 0,
      iterationDepth = 0, active_labels = [], lexicalIterationNames = [], catchPatternNames = []\<rparr>"

definition computed_name_frames :: "located \<Rightarrow> located list" where
  "computed_name_frames x = (case child (fst x) ''name'' of
       Some name \<Rightarrow> if is_elem ComputedPropertyName name
         then map (\<lambda>c. (c, name # fst x # snd x)) (children name ''expression'') else []
     | None \<Rightarrow> [])"

definition function_frames :: "control_context \<Rightarrow> control_context \<Rightarrow> located \<Rightarrow> control_frame list" where
  "function_frames root ctx x =
     map (\<lambda>c. (c, ctx)) (computed_name_frames x) @
     map (\<lambda>c. (c, root\<lparr>strict_code := strict_code ctx\<rparr>)) (rev (located_field x ''parameters'')) @
     map (\<lambda>c. (c, body_context ctx (fst x))) (located_field x ''body'')"

subsection \<open>Resource declarations\<close>

fun resource_keywords :: "string list \<Rightarrow> (string \<times> bool) list \<Rightarrow> bool" where
  "resource_keywords [] tokens = (case tokens of [] \<Rightarrow> True | (t, line_break) # _ \<Rightarrow> \<not> line_break)"
| "resource_keywords (k # ks) tokens = (case tokens of [] \<Rightarrow> False
     | (t, line_break) # rest \<Rightarrow> t = k \<and> \<not> line_break \<and> resource_keywords ks rest)"

fun resource_declarations :: "control_context \<Rightarrow> bool \<Rightarrow> string list \<Rightarrow> node list \<Rightarrow> static_failure option" where
  "resource_declarations ctx iteration names [] = None"
| "resource_declarations ctx iteration names (d # ds) =
     (let name = field d ''name''
      in if \<not> isIdentifier name \<or> (if iteration then has_child d ''initializer'' else \<not> has_child d ''initializer'')
         then Some (fail_at d (js ''resource declaration requires an initialized identifier binding''))
         else if node_text name = ''let'' \<or> node_text name \<in> set names \<or>
                 node_text name \<in> set strictModeBindingIdentifierNames \<and> strict_code ctx
         then Some (fail_at name (js ''resource declaration has invalid or duplicate BoundNames''))
         else resource_declarations ctx iteration (names @ [node_text name]) ds)"

definition check_resources :: "control_source \<Rightarrow> control_context \<Rightarrow> located \<Rightarrow> static_failure option" where
  "check_resources env ctx x = (let n = fst x; owner = parent_node (snd x); container = tl (snd x);
       asynchronous = has_all_flags n flag_AwaitUsing; statement = is_stmt VariableStatement owner;
       iteration = is_stmt ForOfStatement owner; ds = children n ''declarations'';
       invalid = Some (fail_at n (js ''resource declaration is not valid in this grammar context''))
     in if \<not> (is_elem VariableDeclarationList n \<and> has_flag n flag_Using) then None
        else if asynchronous \<and> \<not> allowAwait ctx \<or> is_stmt ForInStatement owner \<or>
          statement \<and> (hasModifier owner ExportKeyword \<or> container = [] \<or>
            \<not> (is_stmt Block (parent_node container) \<or> is_kind SourceFile (parent_node container)) \<or>
            is_kind SourceFile (parent_node container) \<and> \<not> module_goal env) \<or>
          \<not> statement \<and> \<not> iteration \<and> \<not> is_stmt ForStatement owner
        then invalid
        else if \<not> resource_keywords (if asynchronous then [''await'', ''using''] else [''using'']) (list_tokens env n) then invalid
        else if iteration \<and> (length ds \<noteq> 1 \<or> \<not> asynchronous \<and> isIdentifier (field (hd ds) ''name'') \<and>
            node_text (field (hd ds) ''name'') = ''of'') then invalid
        else resource_declarations ctx iteration [] ds)"

subsection \<open>Statements and expressions\<close>

definition check_var_names :: "control_context \<Rightarrow> node \<Rightarrow> static_failure option" where
  "check_var_names ctx n =
     (if is_elem VariableDeclarationList n \<and> \<not> has_flag n flag_BlockScoped then
        first_failure (\<lambda>e.
          if entry_name e \<in> set (lexicalIterationNames ctx)
          then Some (fail_at (entry_node e) (quoted ''lexical iteration binding '' (entry_name e) '' conflicts with a body var declaration''))
          else if entry_name e \<in> set (catchPatternNames ctx)
          then Some (fail_at (entry_node e) (quoted ''catch pattern binding '' (entry_name e) '' conflicts with a body var declaration''))
          else None) (declaration_names n)
      else None)"

definition check_return :: "control_context \<Rightarrow> node \<Rightarrow> static_failure option" where
  "check_return ctx n =
     (if is_stmt ReturnStatement n \<and> \<not> allowReturn ctx
      then Some (fail_at n (js ''return statement is not contained in a function body'')) else None)"

definition check_break :: "control_context \<Rightarrow> node \<Rightarrow> static_failure option" where
  "check_break ctx n =
     (if \<not> is_stmt BreakStatement n then None
      else case child n ''label'' of
          None \<Rightarrow> if breakableDepth ctx = 0
            then Some (fail_at n (js ''break statement is not contained in an iteration or switch statement'')) else None
        | Some l \<Rightarrow> if map_of (active_labels ctx) (node_text l) = None
            then Some (fail_at n (quoted ''break target '' (node_text l) '' is not an active label'')) else None)"

definition check_continue :: "control_context \<Rightarrow> node \<Rightarrow> static_failure option" where
  "check_continue ctx n =
     (if \<not> is_stmt ContinueStatement n then None
      else case child n ''label'' of
          None \<Rightarrow> if iterationDepth ctx = 0
            then Some (fail_at n (js ''continue statement is not contained in an iteration statement'')) else None
        | Some l \<Rightarrow> if map_of (active_labels ctx) (node_text l) \<noteq> Some True
            then Some (fail_at n (quoted ''continue target '' (node_text l) '' is not an active iteration label'')) else None)"

definition check_update :: "control_context \<Rightarrow> node \<Rightarrow> static_failure option" where
  "check_update ctx n =
     (if is_update n \<and> \<not> simpleAssignmentTarget (field n ''operand'') \<and>
         \<not> (\<not> strict_code ctx \<and> webCompatCallTarget (field n ''operand''))
      then Some (fail_at (field n ''operand'') (js ''update expression operand is not a valid assignment target'')) else None)"

definition check_assignment :: "control_source \<Rightarrow> control_context \<Rightarrow> node \<Rightarrow> static_failure option" where
  "check_assignment env ctx n = (let oper = node_kind (field n ''operatorToken''); left = field n ''left''
     in if is_expr BinaryExpression n \<and> is_assignment_token oper \<and>
           \<not> (if oper = Token EqualsToken then assignmentTarget env left else simpleAssignmentTarget left) \<and>
           \<not> (\<not> strict_code ctx \<and> \<not> logicalAssignment oper \<and> webCompatCallTarget left)
        then Some (fail_at left (js ''assignment expression left-hand side is not a valid assignment target'')) else None)"

definition check_for_head :: "control_source \<Rightarrow> control_context \<Rightarrow> node \<Rightarrow> static_failure option" where
  "check_for_head env ctx n = (let initializer = field n ''initializer''; enumerates = is_stmt ForInStatement n \<or> is_stmt ForOfStatement n;
       annexB = is_stmt ForInStatement n \<and> \<not> strict_code ctx \<and> \<not> has_flag initializer flag_BlockScoped
     in if enumerates \<and> \<not> is_elem VariableDeclarationList initializer \<and> \<not> assignmentTarget env initializer \<and>
           \<not> (\<not> strict_code ctx \<and> webCompatCallTarget initializer)
        then Some (fail_at initializer (js ''iteration expression left-hand side is not a valid assignment target''))
        else if is_stmt ForOfStatement n \<and> \<not> has_child n ''awaitModifier'' \<and> isIdentifier initializer \<and>
           token_text env initializer = ''async''
        then Some (fail_at initializer (js ''for-of head cannot start with the async token''))
        else if enumerates \<and> is_elem VariableDeclarationList initializer then
          map_option (\<lambda>d. fail_at d (js ((if is_stmt ForInStatement n then ''for-in'' else ''for-of'') @ '' declaration cannot have an initializer'')))
            (List.find (\<lambda>d. has_child d ''initializer'' \<and> \<not> (annexB \<and> isIdentifier (field d ''name''))) (children initializer ''declarations''))
        else None)"

definition check_label :: "control_context \<Rightarrow> node \<Rightarrow> static_failure option" where
  "check_label ctx n = (let l = field n ''label''; t = node_text (field n ''label'')
     in if \<not> is_stmt LabeledStatement n then None
        else if strict_code ctx \<and> t \<in> set strictModeBindingIdentifierNames \<and> t \<noteq> ''eval'' \<and> t \<noteq> ''arguments''
        then Some (fail_at l (quoted ''label '' t '' is not permitted in strict mode''))
        else if map_of (active_labels ctx) t \<noteq> None then Some (fail_at l (quoted ''duplicate active label '' t []))
        else None)"

definition second_checks :: "control_source \<Rightarrow> control_context \<Rightarrow> located \<Rightarrow> static_failure option list" where
  "second_checks env ctx x = (let n = fst x
     in [check_resources env ctx x, check_var_names ctx n, check_return ctx n, check_break ctx n, check_continue ctx n,
         check_update ctx n, check_assignment env ctx n, check_for_head env ctx n, check_label ctx n])"

text \<open>The checks behind the labelled statement; \<open>topLevel\<close> tells a body from a nested block.\<close>

definition check_case_block :: "control_context \<Rightarrow> node \<Rightarrow> static_failure option" where
  "check_case_block ctx n =
     (if is_kind CaseBlock n then
        (case filter (is_elem DefaultClause) (children n ''clauses'') of
           a # b # _ \<Rightarrow> Some (fail_at b (js ''switch CaseBlock contains more than one default clause''))
         | _ \<Rightarrow> declarationConflict (concat (map (\<lambda>c. children c ''statements'') (children n ''clauses''))) True (strict_code ctx) ''CaseBlock'')
      else None)"

definition check_block :: "control_source \<Rightarrow> control_context \<Rightarrow> bool \<Rightarrow> node \<Rightarrow> static_failure option" where
  "check_block env ctx topLevel n =
     (if is_stmt Block n \<or> is_kind SourceFile n \<and> \<not> module_goal env
      then declarationConflict (children n ''statements'') (\<not> topLevel) (strict_code ctx) (if topLevel then ''Body'' else ''Block'')
      else None)"

definition loop_list :: "node \<Rightarrow> node option" where
  "loop_list n =
     (if is_stmt ForStatement n \<or> is_stmt ForInStatement n \<or> is_stmt ForOfStatement n then
        (case child n ''initializer'' of Some l \<Rightarrow> if is_elem VariableDeclarationList l then Some l else None | None \<Rightarrow> None)
      else None)"

text \<open>The names of a lexical loop head, or the failure of its declarations.\<close>

definition loop_names :: "node \<Rightarrow> static_failure + string list" where
  "loop_names n = (case loop_list n of
       None \<Rightarrow> Inr []
     | Some l \<Rightarrow>
         (case (if is_stmt ForStatement n
                then List.find (\<lambda>d. \<not> has_child d ''initializer'' \<and> (\<not> isIdentifier (field d ''name'') \<or> has_flag l flag_Const)) (children l ''declarations'')
                else None) of
            Some d \<Rightarrow> Inl (fail_at d (js ''for binding pattern or const declaration requires an initializer''))
          | None \<Rightarrow>
              if \<not> has_flag l flag_BlockScoped then Inr []
              else (case duplicateName (declaration_names l) of
                  Some e \<Rightarrow> Inl (fail_at (entry_node e) (quoted ''duplicate lexical iteration binding '' (entry_name e) []))
                | None \<Rightarrow> Inr (map entry_name (declaration_names l)))))"

definition is_breakable :: "node \<Rightarrow> bool" where
  "is_breakable n \<longleftrightarrow> is_iteration n \<or> is_stmt SwitchStatement n"

definition child_context :: "control_context \<Rightarrow> node \<Rightarrow> string list \<Rightarrow> control_context" where
  "child_context ctx n headNames =
     (if is_breakable n
      then ctx\<lparr>breakableDepth := breakableDepth ctx + 1,
               iterationDepth := iterationDepth ctx + (if is_iteration n then 1 else 0),
               lexicalIterationNames := set_add_all (lexicalIterationNames ctx) headNames\<rparr>
      else ctx)"

section \<open>The loop\<close>

definition label_frames :: "control_context \<Rightarrow> located \<Rightarrow> control_frame list" where
  "label_frames ctx x =
     map (\<lambda>c. (c, ctx\<lparr>active_labels := (node_text (field (fst x) ''label''), labelsIteration (field (fst x) ''statement'')) # active_labels ctx\<rparr>))
       (located_field x ''statement'')"

text \<open>One turn: failure, or the successors and the function bodies known so far. A body is known by its position.\<close>

definition control_step :: "control_source \<Rightarrow> control_context \<Rightarrow> located list \<Rightarrow> control_frame
    \<Rightarrow> static_failure + control_frame list \<times> located list" where
  "control_step env root bodies frame = (let x = fst frame; n = fst x; ctx = entry_context env n (snd frame)
     in case first_of (first_checks env ctx x) of
          Some e \<Rightarrow> Inl e
        | None \<Rightarrow>
            if is_kind CatchClause n then map_sum id (\<lambda>fs. (fs, bodies)) (catch_step ctx x)
            else if isFunctionLike n
            then Inr (function_frames root ctx x, bodies @ filter (\<lambda>b. is_stmt Block (fst b)) (located_field x ''body''))
            else if is_kind ClassStaticBlockDeclaration n
            then Inr (map (\<lambda>c. (c, root\<lparr>strict_code := True\<rparr>)) (located_field x ''body''), bodies)
            else (case first_of (second_checks env ctx x) of
                Some e \<Rightarrow> Inl e
              | None \<Rightarrow>
                  if is_stmt LabeledStatement n then Inr (label_frames ctx x, bodies)
                  else (case first_of [check_case_block ctx n, check_block env ctx (is_kind SourceFile n \<or> x \<in> set bodies) n] of
                      Some e \<Rightarrow> Inl e
                    | None \<Rightarrow> (case loop_names n of
                        Inl e \<Rightarrow> Inl e
                      | Inr headNames \<Rightarrow> Inr (map (\<lambda>c. (c, child_context ctx n headNames)) (located_children x), bodies)))))"

subsection \<open>Termination\<close>

lemma sum_list_select:
  "distinct fs \<Longrightarrow> sum_list (map (\<lambda>f. if f = a then k else 0) fs) = (if a \<in> set fs then k else (0::nat))"
  by (induction fs) auto

lemma children_sums:
  assumes "distinct fs"
  shows "sum_list (map (\<lambda>f. sum_list (map size (children n f))) fs) < size n"
proof -
  have "sum_list (map (\<lambda>f. sum_list (map size (map snd (filter (\<lambda>c. fst c = f) cs)))) fs) \<le> sum_list (map size (map snd cs))"
    for cs :: "(string \<times> node) list"
  proof (induction cs)
    case (Cons c cs)
    have "sum_list (map (\<lambda>f. sum_list (map size (map snd (filter (\<lambda>c. fst c = f) (c # cs))))) fs) =
        sum_list (map (\<lambda>f. if f = fst c then size (snd c) else 0) fs) +
        sum_list (map (\<lambda>f. sum_list (map size (map snd (filter (\<lambda>c. fst c = f) cs)))) fs)"
      unfolding sum_list_addf [symmetric] by (rule arg_cong [of _ _ sum_list]) (auto intro: map_cong)
    moreover have "sum_list (map (\<lambda>f. if f = fst c then size (snd c) else 0) fs) \<le> size (snd c)"
      using assms by (simp add: sum_list_select)
    ultimately show ?case using Cons.IH by simp
  qed simp
  from this [of "node_children n"] forEachChild_sum [of n] show ?thesis
    by (simp add: children_def forEachChild_def)
qed

lemma stack_size_append [simp]: "stack_size (xs @ ys) = stack_size xs + stack_size ys"
  by (simp add: stack_size_def)

lemma stack_size_field: "stack_size (located_field x f) = sum_list (map size (children (fst x) f))"
  by (simp add: stack_size_def located_field_def comp_def)

lemma stack_size_rev [simp]: "stack_size (rev xs) = stack_size xs"
  by (simp add: stack_size_def rev_map [symmetric] sum_list_rev)

lemma computed_name_size: "stack_size (computed_name_frames x) \<le> sum_list (map size (children (fst x) ''name''))"
proof (cases "child (fst x) ''name''")
  case (Some name)
  then have "name \<in> set (children (fst x) ''name'')"
    by (force simp: child_def children_def image_iff dest!: map_of_SomeD)
  then have "size name \<le> sum_list (map size (children (fst x) ''name''))"
    by (simp add: member_le_sum_list)
  with Some children_sum [of name "''expression''"] show ?thesis
    by (auto simp: computed_name_frames_def stack_size_def comp_def)
qed (simp add: computed_name_frames_def stack_size_def)

lemma fst_pair [simp]: "fst \<circ> (\<lambda>c. (c, ctx)) = (\<lambda>c. c)"
  by (simp add: fun_eq_iff)

text \<open>The nodes the loop reaches, whatever their contexts.\<close>

definition control_children :: "located \<Rightarrow> located list" where
  "control_children x = (let n = fst x
     in if is_kind CatchClause n then located_field x ''variableDeclaration'' @ located_field x ''block''
        else if isFunctionLike n then computed_name_frames x @ rev (located_field x ''parameters'') @ located_field x ''body''
        else if is_kind ClassStaticBlockDeclaration n then located_field x ''body''
        else if is_stmt LabeledStatement n then located_field x ''statement''
        else located_children x)"

lemma control_step_nodes:
  "control_step env root bodies (x, ctx) = Inr (fs, bodies') \<Longrightarrow> map fst fs = control_children x"
  unfolding control_step_def control_children_def Let_def fst_conv snd_conv
  by (auto simp: catch_step_def Let_def function_frames_def label_frames_def split: option.splits if_splits sum.splits)

lemma control_children_sum: "stack_size (control_children x) < size (fst x)"
proof -
  have "stack_size (located_children x) < size (fst x)"
    using stack_size_preorder [of x "[]"] by (simp add: stack_size_def)
  then show ?thesis
    using children_sums [of "[''variableDeclaration'', ''block'']" "fst x"] children_sums [of "[''body'']" "fst x"]
      children_sums [of "[''name'', ''parameters'', ''body'']" "fst x"] children_sums [of "[''statement'']" "fst x"]
      computed_name_size [of x]
    by (auto simp: control_children_def Let_def stack_size_field)
qed

lemma control_step_size:
  "control_step env root bodies (x, ctx) = Inr (fs, bodies') \<Longrightarrow> stack_size (map fst fs) < size (fst x)"
  by (simp add: control_step_nodes control_children_sum)

function control_loop :: "control_source \<Rightarrow> control_context \<Rightarrow> located list \<Rightarrow> control_frame list \<Rightarrow> static_failure option" where
  "control_loop env root bodies [] = None"
| "control_loop env root bodies (frame # stack) =
     (case control_step env root bodies frame of
        Inl e \<Rightarrow> Some e
      | Inr (fs, bodies') \<Rightarrow> control_loop env root bodies' (fs @ stack))"
  by pat_completeness auto

termination
proof (relation "measure (\<lambda>(env, root, bodies, stack). stack_size (map fst stack))")
  fix env root bodies stack p fs bodies' and frame :: control_frame
  assume "control_step env root bodies frame = Inr p" "(fs, bodies') = p"
  then have "stack_size (map fst fs) < size (fst (fst frame))"
    by (cases frame) (auto dest: control_step_size)
  then show "((env, root, bodies', fs @ stack), env, root, bodies, frame # stack)
      \<in> measure (\<lambda>(env, root, bodies, stack). stack_size (map fst stack))"
    by (simp add: stack_size_def)
qed simp

definition earlyControlFlowStaticSemanticsFailure :: "control_source \<Rightarrow> node \<Rightarrow> static_failure option" where
  "earlyControlFlowStaticSemanticsFailure env source =
     (let root = rootContext env source
      in control_loop env root [] [((source, []), root\<lparr>allowAwait := module_goal env\<rparr>)])"

text \<open>The formatted diagnostic.\<close>

definition earlyControlFlowFailure :: "control_source \<Rightarrow> node \<Rightarrow> js_string option" where
  "earlyControlFlowFailure env source = map_option (\<lambda>f. case line_and_character env (failing_node f) of (line, character) \<Rightarrow>
       file_name env @ js '':'' @ js_nat (line + 1) @ js '':'' @ js_nat (character + 1) @ js '': '' @ failure_message f @ [10])
     (earlyControlFlowStaticSemanticsFailure env source)"

section \<open>Jumps and their targets\<close>

text \<open>
  A node is enclosed when on the way to the root a step from a node to its parent satisfies a condition before
  the way leaves a function body, its parameters or a static block; the computed name of a method still belongs
  to the code around the method.
\<close>

definition crossable :: "node \<Rightarrow> node \<Rightarrow> bool" where
  "crossable c p \<longleftrightarrow> (isFunctionLike p \<longrightarrow> child p ''name'' = Some c) \<and> \<not> is_kind ClassStaticBlockDeclaration p"

fun enclosed :: "(node \<Rightarrow> node \<Rightarrow> bool) \<Rightarrow> node \<Rightarrow> node list \<Rightarrow> bool" where
  "enclosed P c [] = False"
| "enclosed P c (p # ps) = (P c p \<or> crossable c p \<and> enclosed P p ps)"

lemma enclosed_mono: "(\<And>c p. P c p \<Longrightarrow> Q c p) \<Longrightarrow> enclosed P c ps \<Longrightarrow> enclosed Q c ps"
  by (induction ps arbitrary: c) auto

definition function_body :: "node \<Rightarrow> node \<Rightarrow> bool" where
  "function_body c p \<longleftrightarrow> isFunctionLike p \<and> c \<in> set (children p ''body'')"

definition labelled_by :: "string \<Rightarrow> node \<Rightarrow> bool" where
  "labelled_by l p \<longleftrightarrow> is_stmt LabeledStatement p \<and> node_text (field p ''label'') = l"

definition jump_ok :: "located \<Rightarrow> bool" where
  "jump_ok x = (case x of (n, ancs) \<Rightarrow>
     (is_stmt ReturnStatement n \<longrightarrow> enclosed function_body n ancs) \<and>
     (is_stmt BreakStatement n \<longrightarrow> (case child n ''label'' of
        None \<Rightarrow> enclosed (\<lambda>_. is_breakable) n ancs
      | Some l \<Rightarrow> enclosed (\<lambda>_. labelled_by (node_text l)) n ancs)) \<and>
     (is_stmt ContinueStatement n \<longrightarrow> (case child n ''label'' of
        None \<Rightarrow> enclosed (\<lambda>_. is_iteration) n ancs
      | Some l \<Rightarrow> enclosed (\<lambda>_ p. labelled_by (node_text l) p \<and> labelsIteration (field p ''statement'')) n ancs)))"

function control_nodes :: "located \<Rightarrow> located list" where
  "control_nodes x = x # concat (map control_nodes (control_children x))"
  by pat_completeness auto

termination
proof (relation "measure (\<lambda>x. size (fst x))")
  fix x y
  assume "y \<in> set (control_children x)"
  then have "size (fst y) \<le> stack_size (control_children x)"
    by (auto simp: stack_size_def intro: member_le_sum_list)
  then show "(y, x) \<in> measure (\<lambda>x. size (fst x))" using control_children_sum [of x] by simp
qed simp

declare control_nodes.simps [simp del]

subsection \<open>What a context says\<close>

definition context_ok :: "located \<Rightarrow> control_context \<Rightarrow> bool" where
  "context_ok x ctx \<longleftrightarrow>
     (allowReturn ctx \<longrightarrow> enclosed function_body (fst x) (snd x)) \<and>
     (breakableDepth ctx > 0 \<longrightarrow> enclosed (\<lambda>_. is_breakable) (fst x) (snd x)) \<and>
     (iterationDepth ctx > 0 \<longrightarrow> enclosed (\<lambda>_. is_iteration) (fst x) (snd x)) \<and>
     (\<forall>(l, iteration)\<in>set (active_labels ctx).
        enclosed (\<lambda>_ p. labelled_by l p \<and> labelsIteration (field p ''statement'') = iteration) (fst x) (snd x))"

lemma context_ok_entry [simp]: "context_ok x (entry_context env n ctx) = context_ok x ctx"
  by (simp add: context_ok_def entry_context_def)

lemma context_ok_below:
  "context_ok (n, ancs) ctx \<Longrightarrow> crossable c n \<Longrightarrow> context_ok (c, n # ancs) ctx"
  by (auto simp: context_ok_def)

lemma context_ok_root [simp]: "context_ok x ((rootContext env source)\<lparr>strict_code := b\<rparr>)" "context_ok x (rootContext env source)"
  by (simp_all add: context_ok_def rootContext_def)

lemma context_ok_catch [simp]: "context_ok x (ctx\<lparr>catchPatternNames := v\<rparr>) = context_ok x ctx"
  by (simp add: context_ok_def)

lemma catch_frames:
  "catch_step ctx (n, ancs) = Inr fs \<Longrightarrow> (y, ctx') \<in> set fs \<Longrightarrow>
   \<exists>m v. y = (m, n # ancs) \<and> (ctx' = ctx \<or> ctx' = ctx\<lparr>catchPatternNames := v\<rparr>)"
  by (auto simp: catch_step_def located_field_def Let_def split: option.splits sum.splits)

lemma function_frames_ok:
  assumes "context_ok (n, ancs) ctx" "isFunctionLike n" "(y, ctx') \<in> set (function_frames (rootContext env source) ctx (n, ancs))"
  shows "context_ok y ctx'"
proof -
  consider name m where "child n ''name'' = Some name" "is_elem ComputedPropertyName name" "y = (m, name # n # ancs)" "ctx' = ctx"
    | "ctx' = (rootContext env source)\<lparr>strict_code := strict_code ctx\<rparr>"
    | body where "body \<in> set (children n ''body'')" "y = (body, n # ancs)" "ctx' = body_context ctx n"
    using assms(3)
    by (cases "child n ''name''") (auto simp: function_frames_def computed_name_frames_def located_field_def split: if_splits)
  then show ?thesis
  proof cases
    case 1
    then have "\<not> isFunctionLike name" "\<not> is_kind ClassStaticBlockDeclaration name" "\<not> is_kind ClassStaticBlockDeclaration n"
      using assms(2) by (auto simp: is_elem_def is_kind_def isFunctionLike_def further_kinds)
    with 1 assms(1) show ?thesis by (auto intro!: context_ok_below simp: crossable_def)
  next
    case 3
    with assms(2) show ?thesis by (simp add: context_ok_def body_context_def function_body_def)
  qed simp
qed

lemma label_frames_ok:
  assumes "context_ok (n, ancs) ctx" "is_stmt LabeledStatement n" "(y, ctx') \<in> set (label_frames ctx (n, ancs))"
  shows "context_ok y ctx'"
proof -
  have "crossable m n" for m using assms(2) by (auto simp: crossable_def is_stmt_def is_kind_def isFunctionLike_def further_kinds)
  then have "context_ok (m, n # ancs) ctx" for m using assms(1) by (rule context_ok_below [rotated])
  then have "context_ok (m, n # ancs) (ctx\<lparr>active_labels :=
      (node_text (field n ''label''), labelsIteration (field n ''statement'')) # active_labels ctx\<rparr>)" for m
    using assms(2) by (simp add: context_ok_def labelled_by_def)
  with assms(3) show ?thesis by (auto simp: label_frames_def located_field_def)
qed

lemma child_context_ok:
  assumes "context_ok (n, ancs) ctx" "\<not> isFunctionLike n" "\<not> is_kind ClassStaticBlockDeclaration n"
  shows "context_ok (m, n # ancs) (child_context ctx n headNames)"
  using context_ok_below [OF assms(1), of m] assms(2,3)
  by (auto simp: context_ok_def child_context_def crossable_def)

lemma control_step_ok:
  assumes "control_step env (rootContext env source) bodies (x, ctx) = Inr (fs, bodies')" "context_ok x ctx"
    and "(y, ctx') \<in> set fs"
  shows "context_ok y ctx'"
proof -
  obtain n ancs where x: "x = (n, ancs)" by force
  define c where "c = entry_context env n ctx"
  have c: "context_ok (n, ancs) c" using assms(2) by (simp add: c_def x)
  note step = assms(1) [unfolded control_step_def Let_def fst_conv snd_conv x, folded c_def]
  consider "is_kind CatchClause n" | "\<not> is_kind CatchClause n" "isFunctionLike n"
    | "\<not> is_kind CatchClause n" "\<not> isFunctionLike n" "is_kind ClassStaticBlockDeclaration n"
    | "\<not> is_kind CatchClause n" "\<not> isFunctionLike n" "\<not> is_kind ClassStaticBlockDeclaration n" by blast
  then show ?thesis
  proof cases
    case 1
    then have "crossable m n" for m
      by (auto simp: crossable_def is_kind_def isFunctionLike_def CatchClause_def further_kinds)
    then have below: "context_ok (m, n # ancs) c" for m by (rule context_ok_below [OF c])
    from 1 step have "catch_step c (n, ancs) = Inr fs"
      by (cases "catch_step c (n, ancs)") (auto split: option.splits)
    from catch_frames [OF this assms(3)] below show ?thesis by auto
  next
    case 2
    with step have "fs = function_frames (rootContext env source) c (n, ancs)" by (auto split: option.splits)
    with function_frames_ok [OF c 2(2)] assms(3) show ?thesis by simp
  next
    case 3
    with step assms(3) show ?thesis by (auto split: option.splits)
  next
    case 4
    with step have "is_stmt LabeledStatement n \<and> fs = label_frames c (n, ancs) \<or>
        (\<exists>headNames. fs = map (\<lambda>y. (y, child_context c n headNames)) (located_children (n, ancs)))"
      by (auto split: option.splits sum.splits if_splits)
    then show ?thesis
    proof
      assume "is_stmt LabeledStatement n \<and> fs = label_frames c (n, ancs)"
      with label_frames_ok [OF c, of y ctx'] assms(3) show ?thesis by simp
    next
      assume "\<exists>headNames. fs = map (\<lambda>y. (y, child_context c n headNames)) (located_children (n, ancs))"
      with child_context_ok [OF c 4(2,3)] assms(3) show ?thesis by (auto simp: located_children_def)
    qed
  qed
qed

lemma first_of_None: "first_of cs = None \<longleftrightarrow> list_all (\<lambda>c. c = None) cs"
  by (simp add: first_of_def first_failure_None)

lemma context_ok_label:
  assumes "context_ok (n, ancs) ctx" "map_of (active_labels ctx) l = Some b"
  shows "enclosed (\<lambda>_ p. labelled_by l p \<and> labelsIteration (field p ''statement'') = b) n ancs"
  using assms map_of_SomeD [OF assms(2)] by (auto simp: context_ok_def)

lemma control_step_jump:
  assumes "control_step env root bodies (x, ctx) = Inr r" "context_ok x ctx"
  shows "jump_ok x"
proof -
  obtain n ancs where x: "x = (n, ancs)" by force
  define c where "c = entry_context env n ctx"
  have c: "context_ok (n, ancs) c" using assms(2) by (simp add: c_def x)
  have "check_return c n = None \<and> check_break c n = None \<and> check_continue c n = None"
    if "is_stmt ReturnStatement n \<or> is_stmt BreakStatement n \<or> is_stmt ContinueStatement n"
  proof -
    have "\<not> is_kind CatchClause n" "\<not> isFunctionLike n" "\<not> is_kind ClassStaticBlockDeclaration n"
      using that by (auto simp: is_stmt_def is_kind_def isFunctionLike_def CatchClause_def further_kinds)
    with assms(1) have "first_of (second_checks env c (n, ancs)) = None"
      by (auto simp: control_step_def Let_def x c_def split: option.splits)
    then show ?thesis by (simp add: first_of_None second_checks_def Let_def)
  qed
  note checks = this
  have "enclosed function_body n ancs" if "is_stmt ReturnStatement n"
    using that checks c by (auto simp: check_return_def context_ok_def split: if_splits)
  moreover have "case child n ''label'' of None \<Rightarrow> enclosed (\<lambda>_. is_breakable) n ancs
      | Some l \<Rightarrow> enclosed (\<lambda>_. labelled_by (node_text l)) n ancs" if "is_stmt BreakStatement n"
  proof (cases "child n ''label''")
    case None
    with that checks c show ?thesis by (auto simp: check_break_def context_ok_def split: if_splits)
  next
    case (Some l)
    with that checks obtain b where "map_of (active_labels c) (node_text l) = Some b"
      by (auto simp: check_break_def split: if_splits)
    from context_ok_label [OF c this] Some show ?thesis by (auto elim: enclosed_mono [rotated])
  qed
  moreover have "case child n ''label'' of None \<Rightarrow> enclosed (\<lambda>_. is_iteration) n ancs
      | Some l \<Rightarrow> enclosed (\<lambda>_ p. labelled_by (node_text l) p \<and> labelsIteration (field p ''statement'')) n ancs" if "is_stmt ContinueStatement n"
  proof (cases "child n ''label''")
    case None
    with that checks c show ?thesis by (auto simp: check_continue_def context_ok_def split: if_splits)
  next
    case (Some l)
    with that checks have "map_of (active_labels c) (node_text l) = Some True"
      by (auto simp: check_continue_def split: if_splits)
    from context_ok_label [OF c this] Some show ?thesis by simp
  qed
  ultimately show ?thesis by (simp add: x jump_ok_def)
qed

lemma control_loop_jumps:
  assumes "control_loop env (rootContext env source) bodies stack = None" "\<forall>(x, ctx)\<in>set stack. context_ok x ctx"
  shows "list_all jump_ok (concat (map (control_nodes \<circ> fst) stack))"
  using assms
proof (induction env "rootContext env source" bodies stack rule: control_loop.induct)
  case (2 env bodies frame stack)
  obtain x ctx where frame: "frame = (x, ctx)" by (cases frame)
  obtain fs bodies' where step: "control_step env (rootContext env source) bodies (x, ctx) = Inr (fs, bodies')"
    using 2(2) frame by (auto split: sum.splits)
  have ok: "context_ok x ctx" using 2(3) frame by simp
  have "list_all jump_ok (concat (map (control_nodes \<circ> fst) (fs @ stack)))"
  proof (rule 2(1))
    show "control_loop env (rootContext env source) bodies' (fs @ stack) = None"
      using 2(2) step frame by simp
    show "\<forall>(x, ctx)\<in>set (fs @ stack). context_ok x ctx"
      using 2(3) control_step_ok [OF step ok] by auto
  qed (use step frame in auto)
  moreover have "map (control_nodes \<circ> fst) fs = map control_nodes (control_children x)"
    unfolding control_step_nodes [OF step, symmetric] by simp
  ultimately show ?case
    using control_step_jump [OF step ok] by (simp add: frame control_nodes.simps [of x])
qed simp

section \<open>Properties\<close>


text \<open>\<open>outer: while (x) { continue outer; }\<close>\<close>

definition example_control_source :: control_source where
  "example_control_source = \<lparr>module_goal = False, file_name = js ''a.js'', token_text = node_text, full_width = (\<lambda>_. 1),
     trailing_comma = (\<lambda>_ _. False), list_tokens = (\<lambda>_. []), line_and_character = (\<lambda>_. (0, 0))\<rparr>"

definition example_continue :: node where
  "example_continue = example_tree 5 (Statement ContinueStatement) [] [(''label'', example_tree 6 Identifier ''outer'' [])]"

definition example_labelled :: node where
  "example_labelled = example_tree 1 SourceFile [] [(''statements'', example_tree 2 (Statement LabeledStatement) []
     [(''label'', example_tree 3 Identifier ''outer'' []),
      (''statement'', example_tree 4 (Statement WhileStatement) [] [(''expression'', example_tree 8 Identifier ''x'' []),
         (''statement'', example_tree 7 (Statement Block) [] [(''statements'', example_continue)])])])]"


end
