(* ===== verification/Body_Completions.thy ===== *)
theory Body_Completions
  imports Control_Static_Semantics
begin

text \<open>
  The completions of a statement body, after \<open>statementBodyCompletions\<close> of \<open>function-static-semantics.ts\<close>: one
  worklist that summarises every statement after its children, and a second one over the live children. The
  interned records of the code have an identity per kind, value and label, so they are values here; a
  JavaScript \<open>Set\<close> is the list of its elements in insertion order.
\<close>

section \<open>Completions\<close>

datatype completion_kind = KindNormal | KindThrow | KindReturn | KindBreak | KindContinue

datatype completion_value = EmptyValue | ValueOf node | UndefinedValue | UnknownValue

record body_completion =
  completion_kind :: completion_kind
  completion_value :: completion_value
  completion_label :: "string option"

definition completion :: "completion_kind \<Rightarrow> completion_value \<Rightarrow> string option \<Rightarrow> body_completion" where
  "completion k v l = \<lparr>completion_kind = k, completion_value = v, completion_label = l\<rparr>"

definition normal_completion :: "completion_value \<Rightarrow> body_completion" where
  "normal_completion v = completion KindNormal v None"

definition thrown :: body_completion where
  "thrown = completion KindThrow UnknownValue None"

definition is_normal :: "body_completion \<Rightarrow> bool" where
  "is_normal c \<longleftrightarrow> completion_kind c = KindNormal"

definition statementCompletionStartsUndefined :: "node \<Rightarrow> bool" where
  "statementCompletionStartsUndefined n \<longleftrightarrow>
     is_stmt IfStatement n \<or> is_iteration n \<or> is_stmt SwitchStatement n \<or> is_stmt TryStatement n \<or> is_stmt WithStatement n"

definition literalValue :: "node \<Rightarrow> bool" where
  "literalValue input = (let e = transparent input
     in isStringLiteralLike e \<or> node_kind e \<in> {Literal NumericLiteral, Literal BigIntLiteral, TrueKeyword, FalseKeyword, NullKeyword})"

definition updateEmpty :: "body_completion \<Rightarrow> completion_value \<Rightarrow> body_completion" where
  "updateEmpty c prior = (if completion_value c = EmptyValue then completion (completion_kind c) prior (completion_label c) else c)"

text \<open>
  \<open>Number(text) !== 0\<close> for the text of a numeric literal: the scanner stores the decimal text of its value,
  so the value is zero when the mantissa has no other digit.
\<close>

definition number_nonzero :: "string \<Rightarrow> bool" where
  "number_nonzero t = list_ex (\<lambda>c. c \<noteq> CHR ''0'' \<and> c \<noteq> CHR ''.'') (takeWhile (\<lambda>c. c \<noteq> CHR ''e'') t)"

definition truth :: "node option \<Rightarrow> bool option" where
  "truth input = (case input of None \<Rightarrow> Some True
     | Some n \<Rightarrow> let e = unwrapTransparentExpression (\<lambda>w. node_kind w \<noteq> Wrapper ParenthesizedExpression) n
        in if node_kind e = TrueKeyword then Some True
           else if node_kind e = FalseKeyword \<or> node_kind e = NullKeyword then Some False
           else if node_kind e = Literal NumericLiteral then Some (number_nonzero (node_text e))
           else if isStringLiteralLike e then Some (node_text e \<noteq> [])
           else None)"

definition compose :: "body_completion list \<Rightarrow> body_completion list \<Rightarrow> body_completion list" where
  "compose left right = set_add_all [] (concat (map (\<lambda>c.
     if completion_kind c \<noteq> KindNormal then [c] else map (\<lambda>d. updateEmpty d (completion_value c)) right) left))"

section \<open>One statement\<close>

definition is_statement_list :: "node \<Rightarrow> bool" where
  "is_statement_list n \<longleftrightarrow> is_kind SourceFile n \<or> is_stmt Block n \<or> is_elem CaseClause n \<or> is_elem DefaultClause n"

definition located_child :: "located \<Rightarrow> string \<Rightarrow> located option" where
  "located_child x f = map_option (\<lambda>c. (c, fst x # snd x)) (child (fst x) f)"

definition nested_field :: "located \<Rightarrow> string \<Rightarrow> string \<Rightarrow> located list" where
  "nested_field x f g = (case located_child x f of None \<Rightarrow> [] | Some y \<Rightarrow> located_field y g)"

definition statement_children :: "located \<Rightarrow> located list" where
  "statement_children x = (let n = fst x
     in if is_statement_list n then located_field x ''statements''
        else if is_stmt IfStatement n then located_field x ''thenStatement'' @ located_field x ''elseStatement''
        else if is_stmt TryStatement n then located_field x ''tryBlock'' @
          nested_field x ''catchClause'' ''block'' @ located_field x ''finallyBlock''
        else if is_stmt SwitchStatement n then nested_field x ''caseBlock'' ''clauses''
        else if is_iteration n \<or> is_stmt LabeledStatement n \<or> is_stmt WithStatement n then located_field x ''statement''
        else [])"

text \<open>What the code keeps of a statement: its completions and its live children; a flag for the kinds it knows.\<close>

type_synonym flows = "located \<Rightarrow> body_completion list"

type_synonym statement_summary = "body_completion list \<times> located list"

definition flow_at :: "flows \<Rightarrow> located list \<Rightarrow> body_completion list" where
  "flow_at fl xs = concat (map fl xs)"

fun list_flow :: "flows \<Rightarrow> body_completion list \<Rightarrow> located list \<Rightarrow> located list \<Rightarrow> statement_summary" where
  "list_flow fl flow live [] = (flow, live)"
| "list_flow fl flow live (s # ss) =
     list_flow fl (compose flow (fl s))
       (if list_ex is_normal flow \<or> is_stmt FunctionDeclaration (fst s) then live @ [s] else live) ss"

definition return_flow :: "node \<Rightarrow> body_completion list" where
  "return_flow n = (case child n ''expression'' of
       None \<Rightarrow> [completion KindReturn UndefinedValue None]
     | Some e \<Rightarrow> set_add_all [] (completion KindReturn (ValueOf e) None # (if literalValue e then [] else [thrown])))"

definition throw_flow :: "node \<Rightarrow> body_completion list" where
  "throw_flow n = set_add_all [] (completion KindThrow (ValueOf (field n ''expression'')) None #
     (if literalValue (field n ''expression'') then [] else [thrown]))"

definition jump_flow :: "node \<Rightarrow> body_completion list" where
  "jump_flow n = [completion (if is_stmt BreakStatement n then KindBreak else KindContinue) EmptyValue
     (map_option node_text (child n ''label''))]"

definition if_flow :: "flows \<Rightarrow> located \<Rightarrow> statement_summary" where
  "if_flow fl x =
     (let condition = truth (child (fst x) ''expression'');
          thens = (if condition = Some False then [] else located_field x ''thenStatement'');
          elses = (if condition = Some True then [] else located_field x ''elseStatement'')
      in (set_add_all [] (flow_at fl thens @
            (if condition = Some True then []
             else if has_child (fst x) ''elseStatement'' then flow_at fl elses else [normal_completion UndefinedValue]) @
            (if condition = None then [thrown] else [])),
          thens @ elses))"

fun labels_above :: "node \<Rightarrow> node list \<Rightarrow> string list" where
  "labels_above n [] = []"
| "labels_above n (p # ps) =
     (if is_stmt LabeledStatement p \<and> child p ''statement'' = Some n
      then node_text (field p ''label'') # labels_above p ps else [])"

definition loop_continues :: "string list \<Rightarrow> body_completion \<Rightarrow> bool" where
  "loop_continues labels c \<longleftrightarrow> completion_kind c = KindNormal \<or>
     completion_kind c = KindContinue \<and> (case completion_label c of None \<Rightarrow> True | Some l \<Rightarrow> l \<in> set labels)"

definition break_to_normal :: "body_completion \<Rightarrow> body_completion" where
  "break_to_normal c =
     (if completion_kind c = KindBreak \<and> completion_label c = None then normal_completion (completion_value c) else c)"

definition leave_loop :: "completion_value \<Rightarrow> body_completion \<Rightarrow> body_completion" where
  "leave_loop prior c = (let updated = updateEmpty c prior
     in if completion_kind c = KindBreak \<and> completion_label c = None then normal_completion (completion_value updated) else updated)"

definition is_iterable :: "node \<Rightarrow> bool" where
  "is_iterable n \<longleftrightarrow> is_stmt ForInStatement n \<or> is_stmt ForOfStatement n"

definition loop_condition :: "node \<Rightarrow> bool option" where
  "loop_condition n =
     (if is_iterable n then None
      else if is_stmt ForStatement n then truth (child n ''condition'')
      else if is_stmt WhileStatement n \<or> is_stmt DoStatement n then truth (child n ''expression'')
      else None)"

definition loop_executes :: "node \<Rightarrow> bool" where
  "loop_executes n \<longleftrightarrow> is_stmt DoStatement n \<or> loop_condition n \<noteq> Some False"

definition loop_body_flow :: "flows \<Rightarrow> located \<Rightarrow> body_completion list" where
  "loop_body_flow fl x = (if loop_executes (fst x) then flow_at fl (located_field x ''statement'') else [])"

definition carried_values :: "flows \<Rightarrow> located \<Rightarrow> completion_value list" where
  "carried_values fl x = set_add_all [UndefinedValue] (map completion_value
     (filter (\<lambda>c. completion_value c \<noteq> EmptyValue \<and> loop_continues (labels_above (fst x) (snd x)) c) (loop_body_flow fl x)))"

definition exit_values :: "flows \<Rightarrow> located \<Rightarrow> completion_value list" where
  "exit_values fl x = set_add_all [] (concat (map
     (\<lambda>c. if completion_value c = EmptyValue then carried_values fl x else [completion_value c])
     (filter (loop_continues (labels_above (fst x) (snd x))) (loop_body_flow fl x))))"

definition iteration_flow :: "flows \<Rightarrow> located \<Rightarrow> statement_summary" where
  "iteration_flow fl x =
     (let n = fst x;
          condition = loop_condition n
      in (set_add_all []
           (concat (map (\<lambda>c. map (\<lambda>prior. leave_loop prior c) (carried_values fl x))
              (filter (\<lambda>c. \<not> loop_continues (labels_above n (snd x)) c) (loop_body_flow fl x))) @
            (if \<not> is_stmt DoStatement n \<and> condition \<noteq> Some True then [normal_completion UndefinedValue] else []) @
            (if condition \<noteq> Some True then map normal_completion (exit_values fl x) else []) @
            (if condition = None \<or> is_iterable n \<or> is_stmt ForStatement n \<and> has_child n ''initializer'' then [thrown] else [])),
          if loop_executes n then located_field x ''statement'' else []))"

definition label_flow :: "flows \<Rightarrow> located \<Rightarrow> body_completion list" where
  "label_flow fl x = set_add_all [] (map (\<lambda>c.
     if completion_kind c = KindBreak \<and> completion_label c = Some (node_text (field (fst x) ''label''))
     then normal_completion (completion_value c) else c) (flow_at fl (located_field x ''statement'')))"

text \<open>The clauses come in reverse: the completions of each suffix of the case block.\<close>

fun clause_flow :: "flows \<Rightarrow> body_completion list \<Rightarrow> body_completion list \<Rightarrow> located list \<Rightarrow> body_completion list" where
  "clause_flow fl flow suffix [] = flow"
| "clause_flow fl flow suffix (c # cs) =
     (let suffix' = compose (fl c) suffix
      in clause_flow fl (set_add_all flow (map break_to_normal suffix')) suffix' cs)"

definition switch_flow :: "flows \<Rightarrow> located \<Rightarrow> body_completion list" where
  "switch_flow fl x = (let clauses = statement_children x
     in set_add_all (clause_flow fl [] [normal_completion EmptyValue] (rev clauses))
          ((if list_ex (\<lambda>c. is_elem DefaultClause (fst c)) clauses then [] else [normal_completion UndefinedValue]) @ [thrown]))"

definition catch_blocks :: "located \<Rightarrow> located list" where
  "catch_blocks x = nested_field x ''catchClause'' ''block''"

definition catches_pattern :: "node \<Rightarrow> bool" where
  "catches_pattern n = (case child (field n ''catchClause'') ''variableDeclaration'' of
     None \<Rightarrow> False | Some d \<Rightarrow> \<not> isIdentifier (field d ''name''))"

definition caught_flow :: "flows \<Rightarrow> located \<Rightarrow> statement_summary" where
  "caught_flow fl x =
     (let n = fst x; tried = flow_at fl (located_field x ''tryBlock'');
          kept = filter (\<lambda>c. completion_kind c \<noteq> KindThrow \<or> \<not> has_child n ''catchClause'') tried
      in if has_child n ''catchClause'' \<and> list_ex (\<lambda>c. completion_kind c = KindThrow) tried
         then (set_add_all kept (flow_at fl (catch_blocks x) @ (if catches_pattern n then [thrown] else [])),
               located_field x ''tryBlock'' @ catch_blocks x)
         else (kept, located_field x ''tryBlock''))"

definition try_flow :: "flows \<Rightarrow> located \<Rightarrow> statement_summary" where
  "try_flow fl x =
     (case caught_flow fl x of (flow, live) \<Rightarrow>
        if has_child (fst x) ''finallyBlock'' \<and> flow \<noteq> []
        then let final = flow_at fl (located_field x ''finallyBlock'')
          in (set_add_all [] ((if list_ex is_normal final then flow else []) @ filter (\<lambda>c. \<not> is_normal c) final),
              live @ located_field x ''finallyBlock'')
        else (flow, live))"

definition expression_flow :: "node \<Rightarrow> body_completion list" where
  "expression_flow n = set_add_all [] (normal_completion (ValueOf (field n ''expression'')) #
     (if literalValue (field n ''expression'') then [] else [thrown]))"

definition DebuggerStatement :: syntax_kind where "DebuggerStatement = OtherKind 259"
definition InterfaceDeclaration :: syntax_kind where "InterfaceDeclaration = OtherKind 264"
definition TypeAliasDeclaration :: syntax_kind where "TypeAliasDeclaration = OtherKind 265"

definition is_empty_statement :: "node \<Rightarrow> bool" where
  "is_empty_statement n \<longleftrightarrow> is_stmt EmptyStatement n \<or> is_kind DebuggerStatement n \<or> is_stmt FunctionDeclaration n \<or>
     is_kind InterfaceDeclaration n \<or> is_kind TypeAliasDeclaration n"

text \<open>The clauses of the loop: completions, live children, and whether the kind of statement is known.\<close>

definition statement_flow :: "flows \<Rightarrow> located \<Rightarrow> statement_summary \<times> bool" where
  "statement_flow fl x = (let n = fst x; nodes = statement_children x
     in if is_statement_list n then (list_flow fl [normal_completion EmptyValue] [] nodes, True)
        else if is_stmt ReturnStatement n then ((return_flow n, nodes), True)
        else if is_stmt ThrowStatement n then ((throw_flow n, nodes), True)
        else if is_stmt BreakStatement n \<or> is_stmt ContinueStatement n then ((jump_flow n, nodes), True)
        else if is_stmt IfStatement n then (if_flow fl x, True)
        else if is_iteration n then (iteration_flow fl x, True)
        else if is_stmt LabeledStatement n then ((label_flow fl x, nodes), True)
        else if is_stmt SwitchStatement n then ((switch_flow fl x, nodes), True)
        else if is_stmt TryStatement n then (try_flow fl x, True)
        else if is_stmt WithStatement n then ((set_add_all [] (flow_at fl (located_field x ''statement'') @ [thrown]), nodes), True)
        else if is_stmt ExpressionStatement n then ((expression_flow n, nodes), True)
        else if is_stmt VariableStatement n \<or> is_stmt ClassDeclaration n
        then (([normal_completion EmptyValue, thrown], nodes), True)
        else if is_empty_statement n then (([normal_completion EmptyValue], nodes), True)
        else (([normal_completion UndefinedValue, thrown], nodes), False))"

definition finish_statement :: "flows \<Rightarrow> located \<Rightarrow> statement_summary \<times> bool" where
  "finish_statement fl x = (case statement_flow fl x of ((flow, live), known) \<Rightarrow>
     ((if statementCompletionStartsUndefined (fst x)
       then set_add_all [] (map (\<lambda>c. updateEmpty c UndefinedValue) flow) else flow, live), known))"

section \<open>The worklists\<close>

type_synonym summaries = "(located \<times> statement_summary) list"

definition summary_flow :: "summaries \<Rightarrow> flows" where
  "summary_flow m x = (case map_of m x of Some (flow, _) \<Rightarrow> flow | None \<Rightarrow> [])"

definition summary_live :: "summaries \<Rightarrow> located \<Rightarrow> located list" where
  "summary_live m x = (case map_of m x of Some (_, live) \<Rightarrow> live | None \<Rightarrow> [])"

definition frame_size :: "located \<times> bool \<Rightarrow> nat" where
  "frame_size f = (if snd f then 1 else 2 * size (fst (fst f)))"

lemma nested_field_size: "stack_size (nested_field x f g) \<le> stack_size (located_field x f)"
proof (cases "child (fst x) f")
  case (Some c)
  have "stack_size (nested_field x f g) \<le> size c"
    using children_sum [of c g] Some by (simp add: nested_field_def located_child_def stack_size_field)
  also have "c \<in> set (children (fst x) f)"
    using child_in [OF Some] by (force simp: children_def)
  then have "size c \<le> stack_size (located_field x f)"
    by (simp add: stack_size_field member_le_sum_list)
  finally show ?thesis .
qed (simp add: nested_field_def located_child_def stack_size_def)

lemma statement_children_sum: "stack_size (statement_children x) < size (fst x)"
proof -
  have "sum_list (map (\<lambda>f. sum_list (map size (children (fst x) f))) [''tryBlock'', ''catchClause'', ''finallyBlock'']) < size (fst x)"
    by (rule children_sums) simp
  then have "stack_size (located_field x ''tryBlock'') + stack_size (located_field x ''catchClause'') +
      stack_size (located_field x ''finallyBlock'') < size (fst x)"
    by (simp add: stack_size_field)
  moreover have field: "stack_size (located_field x f) < size (fst x)" for f
    by (simp add: stack_size_field children_sum)
  moreover have "stack_size (located_field x ''thenStatement'') + stack_size (located_field x ''elseStatement'') < size (fst x)"
    by (simp add: stack_size_field children_sum2)
  moreover have "stack_size (nested_field x ''caseBlock'' ''clauses'') < size (fst x)"
    using nested_field_size field by (rule le_less_trans)
  moreover note nested_field_size [of x "''catchClause''" "''block''"]
  ultimately show ?thesis
    by (simp add: statement_children_def Let_def) (simp add: stack_size_def)
qed

lemma frame_sum: "sum_list (map frame_size (map (\<lambda>c. (c, False)) xs)) = 2 * stack_size xs"
  by (induction xs) (simp_all add: frame_size_def stack_size_def)

function completion_loop :: "(located \<times> bool) list \<Rightarrow> summaries \<Rightarrow> bool \<Rightarrow> summaries \<times> bool" where
  "completion_loop [] m complete = (m, complete)"
| "completion_loop ((x, False) # stack) m complete =
     completion_loop (map (\<lambda>c. (c, False)) (rev (statement_children x)) @ (x, True) # stack) m complete"
| "completion_loop ((x, True) # stack) m complete =
     (case finish_statement (summary_flow m) x of (s, known) \<Rightarrow> completion_loop stack ((x, s) # m) (complete \<and> known))"
  by pat_completeness auto

termination
proof (relation "measure (\<lambda>(stack, m, complete). sum_list (map frame_size stack))", goal_cases)
  case (2 x stack m complete)
  have "2 * stack_size (rev (statement_children x)) + 1 < 2 * size (fst x)"
    using statement_children_sum [of x] by simp
  then show ?case
    using frame_sum [of "rev (statement_children x)"] by (simp add: frame_size_def comp_def)
qed (simp_all add: frame_size_def)

text \<open>The second worklist pops from the end of \<open>pending\<close>.\<close>

partial_function (option) live_loop :: "summaries \<Rightarrow> located list \<Rightarrow> located list \<Rightarrow> located list option" where
  "live_loop m pending reachable = (case pending of
       [] \<Rightarrow> Some reachable
     | x # rest \<Rightarrow>
        if x \<in> set reachable then live_loop m rest reachable
        else live_loop m (rev (summary_live m x) @ rest)
          (set_add_all reachable (x # (if is_stmt Block (fst x) \<and> snd x \<noteq> [] \<and> is_kind CatchClause (parent_node (snd x))
             then [(parent_node (snd x), tl (snd x))] else []))))"

declare live_loop.simps [code]

record statement_body_completions =
  completes_normally :: bool
  normalValues :: "completion_value list"
  body_returns :: "node option list"
  body_reachable :: "located list"
  body_analyzed :: "located list"
  body_complete :: bool

definition value_or_undefined :: "completion_value \<Rightarrow> completion_value" where
  "value_or_undefined v = (if v = EmptyValue then UndefinedValue else v)"

definition returned_expression :: "completion_value \<Rightarrow> node option" where
  "returned_expression v = (case v of ValueOf e \<Rightarrow> Some e | _ \<Rightarrow> None)"

definition statementBodyCompletions :: "located \<Rightarrow> statement_body_completions option" where
  "statementBodyCompletions body =
     (case completion_loop [(body, False)] [] True of (m, complete) \<Rightarrow>
        map_option (\<lambda>reachable. let flow = summary_flow m body
          in \<lparr>completes_normally = list_ex is_normal flow,
              normalValues = set_add_all [] (map (\<lambda>c. value_or_undefined (completion_value c)) (filter is_normal flow)),
              body_returns = map (\<lambda>c. returned_expression (completion_value c))
                (filter (\<lambda>c. completion_kind c = KindReturn) flow),
              body_reachable = reachable, body_analyzed = rev (map fst m), body_complete = complete\<rparr>)
          (live_loop m [body] []))"

definition functionBodyCompletions :: "located \<Rightarrow> statement_body_completions option" where
  "functionBodyCompletions body = statementBodyCompletions body"

section \<open>What the first worklist computes\<close>

lemma flow_at_cong: "(\<And>c. c \<in> set xs \<Longrightarrow> fl c = fl' c) \<Longrightarrow> flow_at fl xs = flow_at fl' xs"
  unfolding flow_at_def by (metis map_cong)

lemma list_flow_cong: "(\<And>c. c \<in> set xs \<Longrightarrow> fl c = fl' c) \<Longrightarrow> list_flow fl flow live xs = list_flow fl' flow live xs"
  by (induction xs arbitrary: flow live) auto

lemma clause_flow_cong: "(\<And>c. c \<in> set xs \<Longrightarrow> fl c = fl' c) \<Longrightarrow> clause_flow fl flow suffix xs = clause_flow fl' flow suffix xs"
  by (induction xs arbitrary: flow suffix) (auto simp: Let_def)

text \<open>The kinds of statement exclude one another.\<close>

lemmas statement_kinds = is_statement_list_def is_iteration_def is_stmt_def is_kind_def is_elem_def

lemma completion_kind_conflicts:
  "is_stmt k n \<Longrightarrow> k \<noteq> Block \<Longrightarrow> \<not> is_statement_list n"
  "is_stmt k n \<Longrightarrow> k \<notin> {ForStatement, ForInStatement, ForOfStatement, WhileStatement, DoStatement} \<Longrightarrow> \<not> is_iteration n"
  "is_stmt k n \<Longrightarrow> is_stmt k' n \<Longrightarrow> k = k'"
  "is_iteration n \<Longrightarrow> \<not> is_statement_list n"
  by (auto simp: statement_kinds)

lemma finish_statement_cong:
  assumes "\<And>c. c \<in> set (statement_children x) \<Longrightarrow> fl c = fl' c"
  shows "finish_statement fl x = finish_statement fl' x"
proof -
  note kinds = completion_kind_conflicts statement_kinds
  have sub: "flow_at fl xs = flow_at fl' xs" if "set xs \<subseteq> set (statement_children x)" for xs
    using that by (intro flow_at_cong assms) blast
  have "if_flow fl x = if_flow fl' x" if "is_stmt IfStatement (fst x)"
  proof -
    have "statement_children x = located_field x ''thenStatement'' @ located_field x ''elseStatement''"
      using that by (simp add: statement_children_def kinds)
    then have "flow_at fl (located_field x ''thenStatement'') = flow_at fl' (located_field x ''thenStatement'')"
      "flow_at fl (located_field x ''elseStatement'') = flow_at fl' (located_field x ''elseStatement'')"
      by (simp_all add: sub)
    then show ?thesis by (simp add: if_flow_def Let_def flow_at_def)
  qed
  moreover have single: "flow_at fl (located_field x ''statement'') = flow_at fl' (located_field x ''statement'')"
    if "is_iteration (fst x) \<or> is_stmt LabeledStatement (fst x) \<or> is_stmt WithStatement (fst x)"
  proof -
    have "statement_children x = located_field x ''statement''" using that by (auto simp: statement_children_def kinds)
    then show ?thesis by (intro sub) simp
  qed
  moreover have "try_flow fl x = try_flow fl' x" if "is_stmt TryStatement (fst x)"
  proof -
    have "statement_children x = located_field x ''tryBlock'' @ catch_blocks x @ located_field x ''finallyBlock''"
      using that by (simp add: statement_children_def kinds catch_blocks_def)
    then have "flow_at fl (located_field x ''tryBlock'') = flow_at fl' (located_field x ''tryBlock'')"
      "flow_at fl (located_field x ''finallyBlock'') = flow_at fl' (located_field x ''finallyBlock'')"
      "flow_at fl (catch_blocks x) = flow_at fl' (catch_blocks x)"
      by (auto intro!: sub)
    then show ?thesis unfolding try_flow_def caught_flow_def by (simp only:)
  qed
  moreover have "switch_flow fl x = switch_flow fl' x"
    using assms clause_flow_cong [of "rev (statement_children x)" fl fl'] by (simp add: switch_flow_def Let_def)
  moreover have "list_flow fl flow [] (statement_children x) = list_flow fl' flow [] (statement_children x)" for flow
    using assms by (rule list_flow_cong)
  moreover have "iteration_flow fl x = iteration_flow fl' x" if "is_iteration (fst x)"
    using single [OF disjI1, OF that] 
    unfolding iteration_flow_def exit_values_def carried_values_def loop_body_flow_def by (simp only:)
  moreover have "label_flow fl x = label_flow fl' x" if "is_stmt LabeledStatement (fst x)"
    using single [OF disjI2, OF disjI1, OF that] unfolding label_flow_def by (simp only:)
  ultimately have "statement_flow fl x = statement_flow fl' x"
    unfolding statement_flow_def Let_def by presburger
  then show ?thesis by (simp add: finish_statement_def)
qed

definition summarised :: "summaries \<Rightarrow> located \<Rightarrow> bool" where
  "summarised m x \<longleftrightarrow> x \<in> fst ` set m"

text \<open>Every summary is the one of the statement over the summaries of its children.\<close>

definition summaries_ok :: "summaries \<Rightarrow> bool" where
  "summaries_ok m \<longleftrightarrow> (\<forall>x. summarised m x \<longrightarrow>
     (\<forall>c\<in>set (statement_children x). summarised m c) \<and> map_of m x = Some (fst (finish_statement (summary_flow m) x)))"

lemma summarised_lookup: "summarised m x \<longleftrightarrow> map_of m x \<noteq> None"
  by (simp add: summarised_def map_of_eq_None_iff)

lemma summaries_ok_add:
  assumes ok: "summaries_ok m" and children: "\<forall>c\<in>set (statement_children x). summarised m c"
  shows "summaries_ok ((x, fst (finish_statement (summary_flow m) x)) # m)"
proof -
  let ?s = "fst (finish_statement (summary_flow m) x)"
  have same: "summary_flow ((x, ?s) # m) c = summary_flow m c" if "summarised m c" for c
    using ok [unfolded summaries_ok_def, rule_format, OF that] by (simp add: summary_flow_def)
  have "finish_statement (summary_flow ((x, ?s) # m)) y = finish_statement (summary_flow m) y"
    if "\<forall>c\<in>set (statement_children y). summarised m c" for y
    using that same by (intro finish_statement_cong) blast
  then show ?thesis
    using ok children by (auto simp: summaries_ok_def summarised_def)
qed

text \<open>Below a frame that waits to finish, each child is summarised or still on the stack over it.\<close>

fun frames_ok :: "summaries \<Rightarrow> located set \<Rightarrow> (located \<times> bool) list \<Rightarrow> bool" where
  "frames_ok m over [] = True"
| "frames_ok m over ((x, finish) # stack) \<longleftrightarrow>
     (finish \<longrightarrow> (\<forall>c\<in>set (statement_children x). summarised m c \<or> c \<in> over)) \<and> frames_ok m (insert x over) stack"

lemma frames_ok_mono:
  "frames_ok m over stack \<Longrightarrow> {x. summarised m x} \<union> over \<subseteq> {x. summarised m' x} \<union> over' \<Longrightarrow> frames_ok m' over' stack"
  by (induction m over stack arbitrary: over' rule: frames_ok.induct) (auto 4 4)

lemma frames_ok_children:
  "frames_ok m (over \<union> set cs) stack \<Longrightarrow> frames_ok m over (map (\<lambda>c. (c, False)) cs @ stack)"
  by (induction cs arbitrary: over) (auto elim: frames_ok_mono)

lemma completion_loop_ok:
  assumes "completion_loop stack m complete = (m', complete')" "summaries_ok m" "frames_ok m {} stack"
  shows "summaries_ok m' \<and> (\<forall>x. summarised m x \<or> x \<in> fst ` set stack \<longrightarrow> summarised m' x)"
  using assms
proof (induction stack m complete rule: completion_loop.induct)
  case (2 x stack m complete)
  have "frames_ok m ({} \<union> set (rev (statement_children x))) ((x, True) # stack)"
    using 2(4) by (auto elim: frames_ok_mono)
  then have "frames_ok m {} (map (\<lambda>c. (c, False)) (rev (statement_children x)) @ (x, True) # stack)"
    by (rule frames_ok_children)
  with 2 show ?case by (auto simp: image_Un)
next
  case (3 x stack m complete)
  obtain s known where s: "finish_statement (summary_flow m) x = (s, known)" by (cases "finish_statement (summary_flow m) x")
  have "summaries_ok ((x, s) # m)" using summaries_ok_add [OF 3(3), of x] 3(4) s by simp
  moreover have "frames_ok ((x, s) # m) {} stack"
    using 3(4) by (auto elim!: frames_ok_mono simp: summarised_def)
  ultimately have "summaries_ok m' \<and> (\<forall>y. summarised ((x, s) # m) y \<or> y \<in> fst ` set stack \<longrightarrow> summarised m' y)"
    using 3(1) [OF s [symmetric]] 3(2) s by simp
  then show ?case by (auto simp: summarised_def)
qed (auto simp: summarised_def)

lemma body_summaries:
  assumes "completion_loop [(body, False)] [] True = (m, complete)"
  shows "summaries_ok m" "summarised m body"
  using completion_loop_ok [OF assms] by (auto simp: summaries_ok_def summarised_def)

end
