(* ===== verification/Completion_Soundness.thy ===== *)
theory Completion_Soundness
  imports Body_Completions
begin

text \<open>
  A big-step semantics of statement completions after ECMA-262, and that the analysis of \<open>statementBodyCompletions\<close>
  covers it: every completion of a body and every statement that some evaluation starts.
\<close>

section \<open>A reference semantics of completions\<close>

text \<open>
  Evaluation of statements after ECMA-262, with completion values named by the expression that gave them. The
  evaluation of an expression can end with a true or a false value or raise; literals, also in parentheses and
  under type operators, do not raise and have the truth of their value.
\<close>

datatype outcome = Truthy | Falsy | Raises

definition literal_truth :: "node \<Rightarrow> bool option" where
  "literal_truth e = (case node_kind e of
       TrueKeyword \<Rightarrow> Some True | FalseKeyword \<Rightarrow> Some False | NullKeyword \<Rightarrow> Some False
     | Literal NumericLiteral \<Rightarrow> Some (number_nonzero (node_text e))
     | Literal StringLiteral \<Rightarrow> Some (node_text e \<noteq> [])
     | Literal NoSubstitutionTemplateLiteral \<Rightarrow> Some (node_text e \<noteq> [])
     | _ \<Rightarrow> None)"

definition can_be :: "node \<Rightarrow> outcome \<Rightarrow> bool" where
  "can_be e r = (let v = transparent e in case r of
       Raises \<Rightarrow> node_kind v \<notin> {TrueKeyword, FalseKeyword, NullKeyword, Literal StringLiteral,
         Literal NoSubstitutionTemplateLiteral, Literal NumericLiteral, Literal BigIntLiteral}
     | Truthy \<Rightarrow> literal_truth v \<noteq> Some False
     | Falsy \<Rightarrow> literal_truth v \<noteq> Some True)"

text \<open>The test of a loop, the element of an iteration included.\<close>

definition loop_test :: "node \<Rightarrow> outcome \<Rightarrow> bool" where
  "loop_test n r = (if is_iterable n then True
     else case child n (if is_stmt ForStatement n then ''condition'' else ''expression'') of
            None \<Rightarrow> r = Truthy | Some e \<Rightarrow> can_be e r)"

definition head_raises :: "node \<Rightarrow> bool" where
  "head_raises n \<longleftrightarrow> is_iterable n \<or> is_stmt ForStatement n \<and> has_child n ''initializer''"

definition increment_raises :: "node \<Rightarrow> bool" where
  "increment_raises n \<longleftrightarrow> is_stmt ForStatement n \<and>
     (case child n ''incrementor'' of None \<Rightarrow> False | Some e \<Rightarrow> can_be e Raises)"

definition declares_resource :: "node \<Rightarrow> bool" where
  "declares_resource n \<longleftrightarrow> is_stmt VariableStatement n \<and> has_all_flags (field n ''declarationList'') flag_Using"

definition switch_raises :: "located \<Rightarrow> bool" where
  "switch_raises x \<longleftrightarrow> can_be (field (fst x) ''expression'') Raises \<or>
     list_ex (\<lambda>c. is_elem CaseClause (fst c) \<and> can_be (field (fst c) ''expression'') Raises) (statement_children x)"

definition label_result :: "string \<Rightarrow> body_completion \<Rightarrow> body_completion" where
  "label_result l c = (if completion_kind c = KindBreak \<and> completion_label c = Some l then normal_completion (completion_value c) else c)"

inductive evaluates :: "string list \<Rightarrow> located \<Rightarrow> body_completion \<Rightarrow> bool"
  and runs :: "located list \<Rightarrow> body_completion \<Rightarrow> bool"
  and iterates :: "string list \<Rightarrow> located \<Rightarrow> completion_value \<Rightarrow> body_completion \<Rightarrow> bool"
  and passes :: "string list \<Rightarrow> located \<Rightarrow> completion_value \<Rightarrow> body_completion \<Rightarrow> bool"
  and attempts :: "located \<Rightarrow> body_completion \<Rightarrow> bool" where
  runs_nil: "runs [] (normal_completion EmptyValue)"
| runs_abrupt: "evaluates [] s c \<Longrightarrow> \<not> is_normal c \<Longrightarrow> runs (s # ss) c"
| runs_step: "evaluates [] s c \<Longrightarrow> is_normal c \<Longrightarrow> runs ss d \<Longrightarrow> runs (s # ss) (updateEmpty d (completion_value c))"
| runs_dispose: "evaluates [] s c \<Longrightarrow> is_normal c \<Longrightarrow> runs ss d \<Longrightarrow> declares_resource (fst s) \<Longrightarrow> runs (s # ss) thrown"
| eval_list: "is_statement_list (fst x) \<Longrightarrow> runs (located_field x ''statements'') c \<Longrightarrow> evaluates labels x c"
| eval_return: "is_stmt ReturnStatement (fst x) \<Longrightarrow> child (fst x) ''expression'' = None \<Longrightarrow>
    evaluates labels x (completion KindReturn UndefinedValue None)"
| eval_return_value: "is_stmt ReturnStatement (fst x) \<Longrightarrow> child (fst x) ''expression'' = Some e \<Longrightarrow>
    evaluates labels x (completion KindReturn (ValueOf e) None)"
| eval_return_raise: "is_stmt ReturnStatement (fst x) \<Longrightarrow> child (fst x) ''expression'' = Some e \<Longrightarrow> can_be e Raises \<Longrightarrow>
    evaluates labels x thrown"
| eval_throw: "is_stmt ThrowStatement (fst x) \<Longrightarrow>
    evaluates labels x (completion KindThrow (ValueOf (field (fst x) ''expression'')) None)"
| eval_throw_raise: "is_stmt ThrowStatement (fst x) \<Longrightarrow> can_be (field (fst x) ''expression'') Raises \<Longrightarrow> evaluates labels x thrown"
| eval_break: "is_stmt BreakStatement (fst x) \<Longrightarrow>
    evaluates labels x (completion KindBreak EmptyValue (map_option node_text (child (fst x) ''label'')))"
| eval_continue: "is_stmt ContinueStatement (fst x) \<Longrightarrow>
    evaluates labels x (completion KindContinue EmptyValue (map_option node_text (child (fst x) ''label'')))"
| eval_then: "is_stmt IfStatement (fst x) \<Longrightarrow> child (fst x) ''expression'' = Some e \<Longrightarrow> can_be e Truthy \<Longrightarrow>
    located_child x ''thenStatement'' = Some s \<Longrightarrow> evaluates [] s c \<Longrightarrow> evaluates labels x (updateEmpty c UndefinedValue)"
| eval_else: "is_stmt IfStatement (fst x) \<Longrightarrow> child (fst x) ''expression'' = Some e \<Longrightarrow> can_be e Falsy \<Longrightarrow>
    located_child x ''elseStatement'' = Some s \<Longrightarrow> evaluates [] s c \<Longrightarrow> evaluates labels x (updateEmpty c UndefinedValue)"
| eval_no_else: "is_stmt IfStatement (fst x) \<Longrightarrow> child (fst x) ''expression'' = Some e \<Longrightarrow> can_be e Falsy \<Longrightarrow>
    child (fst x) ''elseStatement'' = None \<Longrightarrow> evaluates labels x (normal_completion UndefinedValue)"
| eval_if_raise: "is_stmt IfStatement (fst x) \<Longrightarrow> child (fst x) ''expression'' = Some e \<Longrightarrow> can_be e Raises \<Longrightarrow>
    evaluates labels x thrown"
| iterates_stop: "loop_test (fst x) Falsy \<Longrightarrow> iterates labels x v (normal_completion v)"
| iterates_raise: "loop_test (fst x) Raises \<Longrightarrow> iterates labels x v thrown"
| iterates_enter: "loop_test (fst x) Truthy \<Longrightarrow> passes labels x v c \<Longrightarrow> iterates labels x v c"
| passes_exit: "located_child x ''statement'' = Some s \<Longrightarrow> evaluates [] s c \<Longrightarrow> \<not> loop_continues labels c \<Longrightarrow>
    passes labels x v (updateEmpty c v)"
| passes_close: "located_child x ''statement'' = Some s \<Longrightarrow> evaluates [] s c \<Longrightarrow> \<not> loop_continues labels c \<Longrightarrow>
    is_stmt ForOfStatement (fst x) \<Longrightarrow> passes labels x v thrown"
| passes_increment: "located_child x ''statement'' = Some s \<Longrightarrow> evaluates [] s c \<Longrightarrow> loop_continues labels c \<Longrightarrow>
    increment_raises (fst x) \<Longrightarrow> passes labels x v thrown"
| passes_next: "located_child x ''statement'' = Some s \<Longrightarrow> evaluates [] s c \<Longrightarrow> loop_continues labels c \<Longrightarrow>
    iterates labels x (if completion_value c = EmptyValue then v else completion_value c) d \<Longrightarrow> passes labels x v d"
| eval_loop: "is_iteration (fst x) \<Longrightarrow> \<not> is_stmt DoStatement (fst x) \<Longrightarrow> iterates labels x UndefinedValue c \<Longrightarrow>
    evaluates labels x (break_to_normal c)"
| eval_do: "is_stmt DoStatement (fst x) \<Longrightarrow> passes labels x UndefinedValue c \<Longrightarrow> evaluates labels x (break_to_normal c)"
| eval_loop_head: "is_iteration (fst x) \<Longrightarrow> head_raises (fst x) \<Longrightarrow> evaluates labels x thrown"
| eval_label: "is_stmt LabeledStatement (fst x) \<Longrightarrow> located_child x ''statement'' = Some s \<Longrightarrow>
    evaluates (node_text (field (fst x) ''label'') # labels) s c \<Longrightarrow>
    evaluates labels x (label_result (node_text (field (fst x) ''label'')) c)"
| eval_switch: "is_stmt SwitchStatement (fst x) \<Longrightarrow> is_kind CaseBlock (field (fst x) ''caseBlock'') \<Longrightarrow> i < length (statement_children x) \<Longrightarrow> runs (drop i (statement_children x)) c \<Longrightarrow>
    evaluates labels x (break_to_normal (updateEmpty c UndefinedValue))"
| eval_switch_none: "is_stmt SwitchStatement (fst x) \<Longrightarrow> \<not> list_ex (\<lambda>c. is_elem DefaultClause (fst c)) (statement_children x) \<Longrightarrow>
    evaluates labels x (normal_completion UndefinedValue)"
| eval_switch_raise: "is_stmt SwitchStatement (fst x) \<Longrightarrow> switch_raises x \<Longrightarrow> evaluates labels x thrown"
| attempts_try: "is_stmt TryStatement (fst x) \<Longrightarrow> located_child x ''tryBlock'' = Some s \<Longrightarrow> evaluates [] s c \<Longrightarrow>
    completion_kind c \<noteq> KindThrow \<or> \<not> has_child (fst x) ''catchClause'' \<Longrightarrow> attempts x c"
| attempts_catch: "is_stmt TryStatement (fst x) \<Longrightarrow> located_child x ''tryBlock'' = Some s \<Longrightarrow> evaluates [] s c \<Longrightarrow> completion_kind c = KindThrow \<Longrightarrow>
    located_child x ''catchClause'' = Some k \<Longrightarrow> is_kind CatchClause (fst k) \<Longrightarrow> located_child k ''block'' = Some b \<Longrightarrow> evaluates [] b d \<Longrightarrow> attempts x d"
| attempts_pattern: "is_stmt TryStatement (fst x) \<Longrightarrow> located_child x ''tryBlock'' = Some s \<Longrightarrow> evaluates [] s c \<Longrightarrow> completion_kind c = KindThrow \<Longrightarrow>
    has_child (fst x) ''catchClause'' \<Longrightarrow> catches_pattern (fst x) \<Longrightarrow> attempts x thrown"
| eval_try: "attempts x c \<Longrightarrow> child (fst x) ''finallyBlock'' = None \<Longrightarrow>
    evaluates labels x (updateEmpty c UndefinedValue)"
| eval_finally: "attempts x c \<Longrightarrow> located_child x ''finallyBlock'' = Some f \<Longrightarrow>
    evaluates [] f d \<Longrightarrow> is_normal d \<Longrightarrow> evaluates labels x (updateEmpty c UndefinedValue)"
| eval_finally_abrupt: "attempts x c \<Longrightarrow> located_child x ''finallyBlock'' = Some f \<Longrightarrow>
    evaluates [] f d \<Longrightarrow> \<not> is_normal d \<Longrightarrow> evaluates labels x (updateEmpty d UndefinedValue)"
| eval_with: "is_stmt WithStatement (fst x) \<Longrightarrow> located_child x ''statement'' = Some s \<Longrightarrow> evaluates [] s c \<Longrightarrow>
    evaluates labels x (updateEmpty c UndefinedValue)"
| eval_with_raise: "is_stmt WithStatement (fst x) \<Longrightarrow> evaluates labels x thrown"
| eval_expression: "is_stmt ExpressionStatement (fst x) \<Longrightarrow>
    evaluates labels x (normal_completion (ValueOf (field (fst x) ''expression'')))"
| eval_expression_raise: "is_stmt ExpressionStatement (fst x) \<Longrightarrow> can_be (field (fst x) ''expression'') Raises \<Longrightarrow>
    evaluates labels x thrown"
| eval_declaration: "is_stmt VariableStatement (fst x) \<or> is_stmt ClassDeclaration (fst x) \<Longrightarrow>
    evaluates labels x (normal_completion EmptyValue)"
| eval_declaration_raise: "is_stmt VariableStatement (fst x) \<or> is_stmt ClassDeclaration (fst x) \<Longrightarrow> evaluates labels x thrown"
| eval_empty: "is_empty_statement (fst x) \<Longrightarrow> evaluates labels x (normal_completion EmptyValue)"

text \<open>Which child of a statement some evaluation of it starts, complete or not.\<close>

inductive starts :: "located \<Rightarrow> located \<Rightarrow> bool" where
  starts_list: "is_statement_list (fst x) \<Longrightarrow> located_field x ''statements'' = before @ y # after \<Longrightarrow> runs before c \<Longrightarrow>
    is_normal c \<Longrightarrow> starts x y"
| starts_then: "is_stmt IfStatement (fst x) \<Longrightarrow> child (fst x) ''expression'' = Some e \<Longrightarrow> can_be e Truthy \<Longrightarrow>
    located_child x ''thenStatement'' = Some y \<Longrightarrow> starts x y"
| starts_else: "is_stmt IfStatement (fst x) \<Longrightarrow> child (fst x) ''expression'' = Some e \<Longrightarrow> can_be e Falsy \<Longrightarrow>
    located_child x ''elseStatement'' = Some y \<Longrightarrow> starts x y"
| starts_loop: "is_iteration (fst x) \<Longrightarrow> is_stmt DoStatement (fst x) \<or> loop_test (fst x) Truthy \<Longrightarrow>
    located_child x ''statement'' = Some y \<Longrightarrow> starts x y"
| starts_body: "is_stmt LabeledStatement (fst x) \<or> is_stmt WithStatement (fst x) \<Longrightarrow> located_child x ''statement'' = Some y \<Longrightarrow> starts x y"
| starts_clause: "is_stmt SwitchStatement (fst x) \<Longrightarrow> y \<in> set (statement_children x) \<Longrightarrow> starts x y"
| starts_try: "is_stmt TryStatement (fst x) \<Longrightarrow> located_child x ''tryBlock'' = Some y \<Longrightarrow> starts x y"
| starts_catch: "is_stmt TryStatement (fst x) \<Longrightarrow> located_child x ''tryBlock'' = Some s \<Longrightarrow> evaluates [] s c \<Longrightarrow>
    completion_kind c = KindThrow \<Longrightarrow> located_child x ''catchClause'' = Some k \<Longrightarrow> located_child k ''block'' = Some y \<Longrightarrow> starts x y"
| starts_finally: "attempts x c \<Longrightarrow> located_child x ''finallyBlock'' = Some y \<Longrightarrow> starts x y"

section \<open>Soundness\<close>

subsection \<open>Expressions\<close>

lemma unwrap_transparent:
  "\<not> is_transparent (unwrapTransparentExpression b n) \<Longrightarrow> transparent n = unwrapTransparentExpression b n"
proof (induction b n rule: unwrapTransparentExpression.induct)
  case (1 b n)
  then show ?case
    by (auto simp: unwrapTransparentExpression.simps [of b n] unwrapTransparentExpression.simps [of "\<lambda>_. False" n]
        split: if_splits option.splits)
qed

lemma literalValue_can: "literalValue e \<longleftrightarrow> \<not> can_be e Raises"
  by (auto simp: literalValue_def can_be_def isStringLiteralLike_def Let_def)

lemma truth_can:
  assumes "truth (Some e) = Some b"
  shows "can_be e Truthy \<longleftrightarrow> b" "can_be e Falsy \<longleftrightarrow> \<not> b" "\<not> can_be e Raises"
proof -
  define v where "v = unwrapTransparentExpression (\<lambda>w. node_kind w \<noteq> Wrapper ParenthesizedExpression) e"
  have v: "\<not> is_transparent v"
    using assms by (auto simp: truth_def Let_def v_def [symmetric] is_transparent_def isStringLiteralLike_def split: if_splits)
  have "literal_truth v = Some b \<and> node_kind v \<in> {TrueKeyword, FalseKeyword, NullKeyword, Literal StringLiteral,
         Literal NoSubstitutionTemplateLiteral, Literal NumericLiteral, Literal BigIntLiteral}"
    using assms by (auto simp: truth_def Let_def v_def [symmetric] literal_truth_def isStringLiteralLike_def split: if_splits)
  moreover have "transparent e = v" using unwrap_transparent v unfolding v_def by blast
  ultimately show "can_be e Truthy \<longleftrightarrow> b" "can_be e Falsy \<longleftrightarrow> \<not> b" "\<not> can_be e Raises"
    by (auto simp: can_be_def Let_def)
qed

lemma loop_test_condition:
  assumes "is_iteration n" "loop_test n r"
  shows "loop_condition n = Some True \<Longrightarrow> r = Truthy" "loop_condition n = Some False \<Longrightarrow> r = Falsy"
proof -
  obtain f where f: "\<not> is_iterable n \<Longrightarrow> loop_condition n = truth (child n f)"
      "\<not> is_iterable n \<Longrightarrow> loop_test n r = (case child n f of None \<Rightarrow> r = Truthy | Some e \<Rightarrow> can_be e r)"
    using assms(1) by (auto simp: loop_condition_def loop_test_def is_iteration_def is_iterable_def is_stmt_def)
  have "r = (if b then Truthy else Falsy)" if "loop_condition n = Some b" for b
  proof -
    have it: "\<not> is_iterable n" using that by (auto simp: loop_condition_def)
    show ?thesis
    proof (cases "child n f")
      case None
      with f it assms(2) that show ?thesis by (simp add: truth_def)
    next
      case (Some e)
      with f it assms(2) that have "truth (Some e) = Some b" "can_be e r" by simp_all
      with truth_can [of e b] show ?thesis by (cases r) auto
    qed
  qed
  then show "loop_condition n = Some True \<Longrightarrow> r = Truthy" "loop_condition n = Some False \<Longrightarrow> r = Falsy" by auto
qed

subsection \<open>Completions\<close>

lemma completion_simps [simp]:
  "completion_kind (completion k v l) = k" "completion_value (completion k v l) = v" "completion_label (completion k v l) = l"
  "completion_kind (normal_completion v) = KindNormal" "completion_value (normal_completion v) = v"
  "completion_label (normal_completion v) = None" "is_normal (normal_completion v)"
  "completion_kind thrown = KindThrow" "completion_value thrown = UnknownValue" "completion_label thrown = None" "\<not> is_normal thrown"
  by (simp_all add: completion_def normal_completion_def thrown_def is_normal_def)

lemma updateEmpty_simps [simp]:
  "completion_kind (updateEmpty c v) = completion_kind c" "completion_label (updateEmpty c v) = completion_label c"
  "completion_value (updateEmpty c v) = (if completion_value c = EmptyValue then v else completion_value c)"
  "is_normal (updateEmpty c v) = is_normal c"
  by (simp_all add: updateEmpty_def is_normal_def)

lemma completion_eqI:
  "completion_kind c = completion_kind d \<Longrightarrow> completion_value c = completion_value d \<Longrightarrow> completion_label c = completion_label d \<Longrightarrow> c = d"
  for c d :: body_completion
  by simp

lemma updateEmpty_full: "completion_value c \<noteq> EmptyValue \<Longrightarrow> updateEmpty c v = c"
  by (simp add: updateEmpty_def)

lemma break_to_normal_simps [simp]:
  "completion_value (break_to_normal c) = completion_value c" "break_to_normal thrown = thrown"
  "break_to_normal (normal_completion v) = normal_completion v"
  by (simp_all add: break_to_normal_def)

lemma leave_loop_break: "leave_loop v c = break_to_normal (updateEmpty c v)"
  by (simp add: leave_loop_def break_to_normal_def Let_def)

lemma break_updateEmpty: "break_to_normal (updateEmpty c v) = updateEmpty (break_to_normal c) v"
  by (rule completion_eqI) (simp_all add: break_to_normal_def)

lemma compose_set:
  "d \<in> set (compose left right) \<longleftrightarrow> d \<in> set left \<and> \<not> is_normal d \<or>
     (\<exists>c\<in>set left. is_normal c \<and> (\<exists>e\<in>set right. d = updateEmpty e (completion_value c)))"
  by (auto simp: compose_def is_normal_def)

lemma list_flow_live: "fst (list_flow fl flow live ss) = fst (list_flow fl flow live' ss)"
  by (induction ss arbitrary: flow live live') auto

lemma list_flow_abrupt: "c \<in> set flow \<Longrightarrow> \<not> is_normal c \<Longrightarrow> c \<in> set (fst (list_flow fl flow live ss))"
  by (induction ss arbitrary: flow live) (auto simp: compose_set)

lemma list_flow_append:
  "list_flow fl flow live (ss @ ts) = (case list_flow fl flow live ss of (flow', live') \<Rightarrow> list_flow fl flow' live' ts)"
  by (induction ss arbitrary: flow live) auto

lemma list_flow_lives: "set live \<subseteq> set (snd (list_flow fl flow live ss))"
  by (induction ss arbitrary: flow live) fastforce+

definition suffix_flow :: "flows \<Rightarrow> located list \<Rightarrow> body_completion list \<Rightarrow> body_completion list" where
  "suffix_flow fl cs suffix = foldr (\<lambda>c. compose (fl c)) cs suffix"

lemma clause_flow_keeps: "set flow \<subseteq> set (clause_flow fl flow suffix cs)"
  by (induction cs arbitrary: flow suffix) (fastforce simp: Let_def)+

lemma clause_flow_suffixes:
  "i < length cs \<Longrightarrow> set (map break_to_normal (suffix_flow fl (drop i cs) suffix)) \<subseteq> set (clause_flow fl flow suffix (rev cs))"
proof (induction cs arbitrary: flow suffix rule: rev_induct)
  case (snoc c cs)
  show ?case
  proof (cases "i < length cs")
    case True
    with snoc.IH [OF True, of "compose (fl c) suffix"] show ?thesis by (simp add: suffix_flow_def Let_def)
  next
    case False
    with snoc.prems have "i = length cs" by simp
    then show ?thesis
      using clause_flow_keeps [of "set_add_all flow (map break_to_normal (compose (fl c) suffix))" fl "compose (fl c) suffix" "rev cs"]
      by (simp add: suffix_flow_def Let_def)
  qed
qed simp

lemma normal_label:
  "evaluates labels x c \<Longrightarrow> is_normal c \<Longrightarrow> completion_label c = None"
  "runs xs c \<Longrightarrow> is_normal c \<Longrightarrow> completion_label c = None"
  "iterates labels x v c \<Longrightarrow> is_normal c \<Longrightarrow> completion_label c = None"
  "passes labels x v c \<Longrightarrow> is_normal c \<Longrightarrow> completion_label c = None"
  "attempts x c \<Longrightarrow> is_normal c \<Longrightarrow> completion_label c = None"
proof (induction rule: evaluates_runs_iterates_passes_attempts.inducts)
qed (auto simp: break_to_normal_def label_result_def is_normal_def split: if_splits)

subsection \<open>Members of the summaries\<close>

lemma located_child_field: "located_child x f = Some s \<Longrightarrow> s \<in> set (located_field x f)"
  using child_in [of "fst x" f] by (force simp: located_child_def located_field_def children_def)

lemma flow_at_mem: "s \<in> set xs \<Longrightarrow> c \<in> set (fl s) \<Longrightarrow> c \<in> set (flow_at fl xs)"
  by (auto simp: flow_at_def)

lemma located_child_flow: "located_child x f = Some s \<Longrightarrow> c \<in> set (fl s) \<Longrightarrow> c \<in> set (flow_at fl (located_field x f))"
  by (blast intro: flow_at_mem located_child_field)

lemma labels_plain: "located_child x f = Some s \<Longrightarrow> \<not> is_stmt LabeledStatement (fst x) \<Longrightarrow> labels_above (fst s) (snd s) = []"
  by (auto simp: located_child_def)

lemma labels_field: "s \<in> set (located_field x f) \<Longrightarrow> \<not> is_stmt LabeledStatement (fst x) \<Longrightarrow> labels_above (fst s) (snd s) = []"
  by (auto simp: located_field_def)

lemma labels_labelled:
  "located_child x ''statement'' = Some s \<Longrightarrow> is_stmt LabeledStatement (fst x) \<Longrightarrow>
   labels_above (fst s) (snd s) = node_text (field (fst x) ''label'') # labels_above (fst x) (snd x)"
  by (auto simp: located_child_def)

lemma summary_lookup:
  assumes "summaries_ok m" "summarised m x"
  shows "summary_flow m x = fst (fst (finish_statement (summary_flow m) x))"
    "summary_live m x = snd (fst (finish_statement (summary_flow m) x))"
  using assms(1) [unfolded summaries_ok_def, rule_format, OF assms(2)]
  by (simp_all add: summary_flow_def [of m x] summary_live_def split: prod.split)

lemma child_summarised: "summaries_ok m \<Longrightarrow> summarised m x \<Longrightarrow> c \<in> set (statement_children x) \<Longrightarrow> summarised m c"
  unfolding summaries_ok_def by blast

lemma summary_member:
  assumes "summaries_ok m" "summarised m x" "c \<in> set (fst (fst (statement_flow (summary_flow m) x)))"
  shows "(if statementCompletionStartsUndefined (fst x) then updateEmpty c UndefinedValue else c) \<in> set (summary_flow m x)"
  using assms(3) by (auto simp: summary_lookup [OF assms(1,2)] finish_statement_def split: prod.splits)

lemma summary_live_flow:
  assumes "summaries_ok m" "summarised m x"
  shows "summary_live m x = snd (fst (statement_flow (summary_flow m) x))"
  by (simp add: summary_lookup [OF assms] finish_statement_def split: prod.splits)

lemma statement_flow_kinds:
  "is_statement_list (fst x) \<Longrightarrow> statement_flow fl x = (list_flow fl [normal_completion EmptyValue] [] (statement_children x), True)"
  "is_stmt ReturnStatement (fst x) \<Longrightarrow> fst (statement_flow fl x) = (return_flow (fst x), statement_children x)"
  "is_stmt ThrowStatement (fst x) \<Longrightarrow> fst (statement_flow fl x) = (throw_flow (fst x), statement_children x)"
  "is_stmt BreakStatement (fst x) \<Longrightarrow> fst (statement_flow fl x) = (jump_flow (fst x), statement_children x)"
  "is_stmt ContinueStatement (fst x) \<Longrightarrow> fst (statement_flow fl x) = (jump_flow (fst x), statement_children x)"
  "is_stmt IfStatement (fst x) \<Longrightarrow> fst (statement_flow fl x) = if_flow fl x"
  "is_iteration (fst x) \<Longrightarrow> fst (statement_flow fl x) = iteration_flow fl x"
  "is_stmt LabeledStatement (fst x) \<Longrightarrow> fst (statement_flow fl x) = (label_flow fl x, statement_children x)"
  "is_stmt SwitchStatement (fst x) \<Longrightarrow> fst (statement_flow fl x) = (switch_flow fl x, statement_children x)"
  "is_stmt TryStatement (fst x) \<Longrightarrow> fst (statement_flow fl x) = try_flow fl x"
  "is_stmt WithStatement (fst x) \<Longrightarrow> fst (statement_flow fl x) =
     (set_add_all [] (flow_at fl (located_field x ''statement'') @ [thrown]), statement_children x)"
  "is_stmt ExpressionStatement (fst x) \<Longrightarrow> fst (statement_flow fl x) = (expression_flow (fst x), statement_children x)"
  "is_stmt VariableStatement (fst x) \<or> is_stmt ClassDeclaration (fst x) \<Longrightarrow>
     fst (statement_flow fl x) = ([normal_completion EmptyValue, thrown], statement_children x)"
  "is_empty_statement (fst x) \<Longrightarrow> fst (statement_flow fl x) = ([normal_completion EmptyValue], statement_children x)"
  by (auto simp: statement_flow_def Let_def is_empty_statement_def DebuggerStatement_def InterfaceDeclaration_def
      TypeAliasDeclaration_def statement_kinds)

lemma statement_children_kinds:
  "is_statement_list (fst x) \<Longrightarrow> statement_children x = located_field x ''statements''"
  "is_stmt IfStatement (fst x) \<Longrightarrow> statement_children x = located_field x ''thenStatement'' @ located_field x ''elseStatement''"
  "is_stmt TryStatement (fst x) \<Longrightarrow> statement_children x = located_field x ''tryBlock'' @ catch_blocks x @ located_field x ''finallyBlock''"
  "is_stmt SwitchStatement (fst x) \<Longrightarrow> statement_children x = nested_field x ''caseBlock'' ''clauses''"
  "is_iteration (fst x) \<or> is_stmt LabeledStatement (fst x) \<or> is_stmt WithStatement (fst x) \<Longrightarrow>
     statement_children x = located_field x ''statement''"
  by (auto simp: statement_children_def Let_def catch_blocks_def statement_kinds)

lemma starts_undefined_kinds:
  "is_statement_list n \<Longrightarrow> \<not> statementCompletionStartsUndefined n"
  "is_stmt k n \<Longrightarrow> statementCompletionStartsUndefined n \<longleftrightarrow>
     k \<in> {IfStatement, SwitchStatement, TryStatement, WithStatement, ForStatement, ForInStatement, ForOfStatement, WhileStatement, DoStatement}"
  "is_iteration n \<Longrightarrow> statementCompletionStartsUndefined n"
  "is_empty_statement n \<Longrightarrow> \<not> statementCompletionStartsUndefined n"
  by (auto simp: statementCompletionStartsUndefined_def is_empty_statement_def DebuggerStatement_def InterfaceDeclaration_def
      TypeAliasDeclaration_def statement_kinds)

text \<open>Members of the completions of a loop.\<close>

lemma iteration_member:
  "c \<in> set (loop_body_flow fl x) \<Longrightarrow> \<not> loop_continues (labels_above (fst x) (snd x)) c \<Longrightarrow> v \<in> set (carried_values fl x) \<Longrightarrow>
     break_to_normal (updateEmpty c v) \<in> set (fst (iteration_flow fl x))"
  "loop_condition (fst x) = None \<or> is_iterable (fst x) \<or> is_stmt ForStatement (fst x) \<and> has_child (fst x) ''initializer'' \<Longrightarrow>
     thrown \<in> set (fst (iteration_flow fl x))"
  "loop_condition (fst x) \<noteq> Some True \<Longrightarrow> v \<in> set (exit_values fl x) \<or> v = UndefinedValue \<and> \<not> is_stmt DoStatement (fst x) \<Longrightarrow>
     normal_completion v \<in> set (fst (iteration_flow fl x))"
  by (auto simp: iteration_flow_def Let_def leave_loop_break)

lemma carried_full: "v \<in> set (carried_values fl x) \<Longrightarrow> v \<noteq> EmptyValue"
  by (auto simp: carried_values_def)

lemma carried_next:
  assumes "c \<in> set (loop_body_flow fl x)" "loop_continues (labels_above (fst x) (snd x)) c" "v \<in> set (carried_values fl x)"
  shows "(if completion_value c = EmptyValue then v else completion_value c) \<in> set (carried_values fl x) \<inter> set (exit_values fl x)"
  using assms by (auto simp: carried_values_def exit_values_def)

text \<open>
  The increment of a loop that never stops by its test: the code adds the completions of the test and of the
  initializer of a loop but none for the incrementor, so one that raises is only covered when one of these is.
\<close>

definition increment_covered :: "node \<Rightarrow> bool" where
  "increment_covered n \<longleftrightarrow> \<not> (increment_raises n \<and> loop_condition n = Some True \<and> \<not> has_child n ''initializer'')"

lemma located_child_statement:
  assumes "summaries_ok m" "summarised m x" "located_child x f = Some s" "set (located_field x f) \<subseteq> set (statement_children x)"
  shows "summarised m s"
  using child_summarised [OF assms(1,2)] located_child_field [OF assms(3)] assms(4) by blast

lemma clause_labels:
  assumes "is_stmt SwitchStatement (fst x)" "is_kind CaseBlock (field (fst x) ''caseBlock'')" "c \<in> set (statement_children x)"
  shows "labels_above (fst c) (snd c) = []"
proof -
  obtain b where b: "child (fst x) ''caseBlock'' = Some b" "c \<in> set (located_field (b, fst x # snd x) ''clauses'')"
    using assms(3) by (cases "child (fst x) ''caseBlock''")
      (auto simp: statement_children_kinds(4) [OF assms(1)] nested_field_def located_child_def)
  then have "\<not> is_stmt LabeledStatement b"
    using assms(2) by (simp add: field_def is_kind_def is_stmt_def CaseBlock_def)
  with labels_field [OF b(2)] show ?thesis by simp
qed

lemma catch_block_mem:
  "located_child x ''catchClause'' = Some k \<Longrightarrow> located_child k ''block'' = Some b \<Longrightarrow> b \<in> set (catch_blocks x)"
  using located_child_field [of k "''block''" b] by (simp add: catch_blocks_def nested_field_def)

lemma statement_list_member:
  assumes "summaries_ok m" "summarised m x" "is_statement_list (fst x)"
    and "updateEmpty c EmptyValue \<in> set (fst (list_flow (summary_flow m) [normal_completion EmptyValue] [] (located_field x ''statements'')))"
  shows "c \<in> set (summary_flow m x)"
proof -
  have "updateEmpty c EmptyValue = c" by (rule completion_eqI) simp_all
  with summary_member [OF assms(1,2), of c] assms(3,4) show ?thesis
    by (simp add: statement_flow_kinds statement_children_kinds starts_undefined_kinds)
qed

lemma list_flow_step:
  assumes "c \<in> set (fl s)" "a \<in> set flow" "is_normal a"
  shows "updateEmpty c (completion_value a) \<in> set (compose flow (fl s))"
  using assms by (auto simp: compose_set)

lemma updateEmpty_twice:
  "updateEmpty (updateEmpty d v) w = updateEmpty d (if v = EmptyValue then w else v)"
  by (rule completion_eqI) simp_all

lemma thrown_update [simp]: "updateEmpty thrown v = thrown"
  by (simp add: updateEmpty_full)

subsection \<open>Every evaluation is covered\<close>

definition sound_at :: "summaries \<Rightarrow> string list \<Rightarrow> located \<Rightarrow> body_completion \<Rightarrow> bool" where
  "sound_at m labels x c \<longleftrightarrow>
     (summarised m x \<longrightarrow> labels = labels_above (fst x) (snd x) \<longrightarrow> c \<in> set (summary_flow m x))"

definition sound_list :: "summaries \<Rightarrow> located list \<Rightarrow> body_completion \<Rightarrow> bool" where
  "sound_list m ss c \<longleftrightarrow> (\<forall>s\<in>set ss. summarised m s \<and> labels_above (fst s) (snd s) = []) \<longrightarrow>
     c \<in> set (suffix_flow (summary_flow m) ss [normal_completion EmptyValue]) \<and>
     (\<forall>flow a live. a \<in> set flow \<longrightarrow> is_normal a \<longrightarrow> completion_label a = None \<longrightarrow>
        updateEmpty c (completion_value a) \<in> set (fst (list_flow (summary_flow m) flow live ss)))"

definition loop_ready :: "summaries \<Rightarrow> string list \<Rightarrow> located \<Rightarrow> completion_value \<Rightarrow> bool" where
  "loop_ready m labels x v \<longleftrightarrow> is_iteration (fst x) \<and> summarised m x \<and> labels = labels_above (fst x) (snd x) \<and>
     v \<in> set (carried_values (summary_flow m) x)"

definition sound_loop :: "summaries \<Rightarrow> located \<Rightarrow> body_completion \<Rightarrow> bool" where
  "sound_loop m x c \<longleftrightarrow> completion_value c \<noteq> EmptyValue \<and> break_to_normal c \<in> set (fst (iteration_flow (summary_flow m) x))"

definition sound_iterates :: "summaries \<Rightarrow> string list \<Rightarrow> located \<Rightarrow> completion_value \<Rightarrow> body_completion \<Rightarrow> bool" where
  "sound_iterates m labels x v c \<longleftrightarrow> loop_ready m labels x v \<longrightarrow>
     v \<in> set (exit_values (summary_flow m) x) \<or> v = UndefinedValue \<and> \<not> is_stmt DoStatement (fst x) \<longrightarrow> sound_loop m x c"

definition sound_passes :: "summaries \<Rightarrow> string list \<Rightarrow> located \<Rightarrow> completion_value \<Rightarrow> body_completion \<Rightarrow> bool" where
  "sound_passes m labels x v c \<longleftrightarrow> loop_ready m labels x v \<longrightarrow> loop_executes (fst x) \<longrightarrow> sound_loop m x c"

definition sound_attempts :: "summaries \<Rightarrow> located \<Rightarrow> body_completion \<Rightarrow> bool" where
  "sound_attempts m x c \<longleftrightarrow> (summarised m x \<longrightarrow> is_stmt TryStatement (fst x) \<and> c \<in> set (fst (caught_flow (summary_flow m) x)))"

lemma sound_atI:
  assumes "summaries_ok m"
    and "summarised m x \<Longrightarrow> labels = labels_above (fst x) (snd x) \<Longrightarrow> c \<in> set (fst (fst (statement_flow (summary_flow m) x)))"
    and "d = (if statementCompletionStartsUndefined (fst x) then updateEmpty c UndefinedValue else c)"
  shows "sound_at m labels x d"
  using summary_member [OF assms(1), of x c] assms(2,3) by (auto simp: sound_at_def)

lemma sound_atD: "sound_at m [] s c \<Longrightarrow> summarised m s \<Longrightarrow> labels_above (fst s) (snd s) = [] \<Longrightarrow> c \<in> set (summary_flow m s)"
  by (simp add: sound_at_def)

lemma sound_child:
  assumes "summaries_ok m" "summarised m x" "located_child x f = Some s" "sound_at m [] s c"
    and "set (located_field x f) \<subseteq> set (statement_children x)" "\<not> is_stmt LabeledStatement (fst x)"
  shows "c \<in> set (flow_at (summary_flow m) (located_field x f))"
  using sound_atD [OF assms(4) located_child_statement [OF assms(1-3,5)] labels_plain [OF assms(3,6)]] assms(3)
  by (blast intro: located_child_flow)

lemma loop_child:
  assumes "summaries_ok m" "loop_ready m labels x v" "loop_executes (fst x)" "located_child x ''statement'' = Some s" "sound_at m [] s c"
  shows "c \<in> set (loop_body_flow (summary_flow m) x)"
  using sound_child [OF assms(1) _ assms(4,5)] assms(2,3)
  by (auto simp: loop_ready_def loop_body_flow_def statement_children_kinds) (auto simp: is_iteration_def is_stmt_def)

lemma sound_loop_rules:
  assumes ok: "summaries_ok m"
  shows "loop_test (fst x) Falsy \<Longrightarrow> sound_iterates m labels x v (normal_completion v)"
    and "loop_test (fst x) Raises \<Longrightarrow> sound_iterates m labels x v thrown"
    and "loop_test (fst x) Truthy \<Longrightarrow> sound_passes m labels x v c \<Longrightarrow> sound_iterates m labels x v c"
    and "located_child x ''statement'' = Some s \<Longrightarrow> sound_at m [] s c \<Longrightarrow> \<not> loop_continues labels c \<Longrightarrow>
      sound_passes m labels x v (updateEmpty c v)"
    and "is_stmt ForOfStatement (fst x) \<Longrightarrow> sound_passes m labels x v thrown"
    and "increment_covered (fst x) \<Longrightarrow> increment_raises (fst x) \<Longrightarrow> sound_passes m labels x v thrown"
    and "located_child x ''statement'' = Some s \<Longrightarrow> sound_at m [] s c \<Longrightarrow> loop_continues labels c \<Longrightarrow>
      sound_iterates m labels x (if completion_value c = EmptyValue then v else completion_value c) d \<Longrightarrow> sound_passes m labels x v d"
proof -
  let ?fl = "summary_flow m"
  have loop: "sound_loop m x thrown"
    if "loop_condition (fst x) = None \<or> is_iterable (fst x) \<or> is_stmt ForStatement (fst x) \<and> has_child (fst x) ''initializer''"
    using iteration_member(2) [OF that] by (simp add: sound_loop_def)
  show "sound_iterates m labels x v (normal_completion v)" if "loop_test (fst x) Falsy"
    using that loop_test_condition(1) [of "fst x" Falsy] carried_full [of v ?fl x] iteration_member(3) [of x v ?fl]
    by (auto simp: sound_iterates_def sound_loop_def loop_ready_def)
  show "sound_iterates m labels x v thrown" if "loop_test (fst x) Raises"
    using that loop_test_condition [of "fst x" Raises] loop
    by (cases "loop_condition (fst x)") (auto simp: sound_iterates_def loop_ready_def)
  show "sound_iterates m labels x v c" if "loop_test (fst x) Truthy" "sound_passes m labels x v c"
    using that loop_test_condition(2) [of "fst x" Truthy]
    by (auto simp: sound_iterates_def sound_passes_def loop_ready_def loop_executes_def)
  show "sound_passes m labels x v (updateEmpty c v)"
    if "located_child x ''statement'' = Some s" "sound_at m [] s c" "\<not> loop_continues labels c"
    unfolding sound_passes_def
  proof (intro impI)
    assume ready: "loop_ready m labels x v" and "loop_executes (fst x)"
    with loop_child [OF ok _ _ that(1,2)] have "c \<in> set (loop_body_flow ?fl x)" by blast
    with iteration_member(1) [of c ?fl x v] that(3) ready carried_full [of v ?fl x]
    show "sound_loop m x (updateEmpty c v)" by (auto simp: sound_loop_def loop_ready_def)
  qed
  show "sound_passes m labels x v thrown" if "is_stmt ForOfStatement (fst x)"
    using loop that by (simp add: sound_passes_def is_iterable_def)
  show "sound_passes m labels x v thrown" if "increment_covered (fst x)" "increment_raises (fst x)"
    using loop that
    by (cases "loop_condition (fst x)") (auto simp: sound_passes_def increment_covered_def loop_executes_def increment_raises_def is_stmt_def)
  show "sound_passes m labels x v d"
    if "located_child x ''statement'' = Some s" "sound_at m [] s c" "loop_continues labels c"
      "sound_iterates m labels x (if completion_value c = EmptyValue then v else completion_value c) d"
    unfolding sound_passes_def
  proof (intro impI)
    assume ready: "loop_ready m labels x v" and "loop_executes (fst x)"
    with loop_child [OF ok _ _ that(1,2)] have "c \<in> set (loop_body_flow ?fl x)" by blast
    with carried_next [of c ?fl x v] that(3) ready
    have "(if completion_value c = EmptyValue then v else completion_value c) \<in> set (carried_values ?fl x) \<inter> set (exit_values ?fl x)"
      by (simp add: loop_ready_def)
    with that(4) ready show "sound_loop m x d" by (auto simp: sound_iterates_def loop_ready_def)
  qed
qed

lemma sound_list_rules:
  assumes ok: "summaries_ok m"
  shows "sound_list m [] (normal_completion EmptyValue)"
    and "sound_at m [] s c \<Longrightarrow> \<not> is_normal c \<Longrightarrow> sound_list m (s # ss) c"
    and "sound_at m [] s c \<Longrightarrow> is_normal c \<Longrightarrow> completion_label c = None \<Longrightarrow> sound_list m ss d \<Longrightarrow>
      sound_list m (s # ss) (updateEmpty d (completion_value c))"
    and "declares_resource (fst s) \<Longrightarrow> sound_list m (s # ss) thrown"
proof -
  let ?fl = "summary_flow m"
  have "a = updateEmpty (normal_completion EmptyValue) (completion_value a)" if "is_normal a" "completion_label a = None" for a
    using that by (intro completion_eqI) (simp_all add: is_normal_def)
  then show "sound_list m [] (normal_completion EmptyValue)"
    by (simp add: sound_list_def suffix_flow_def)
  have abrupt: "sound_list m (s # ss) c" if "sound_at m [] s c" "\<not> is_normal c" for c
    unfolding sound_list_def
  proof (intro impI conjI allI)
    assume "\<forall>s\<in>set (s # ss). summarised m s \<and> labels_above (fst s) (snd s) = []"
    with that(1) have c: "c \<in> set (?fl s)" by (auto intro: sound_atD)
    with that(2) show "c \<in> set (suffix_flow ?fl (s # ss) [normal_completion EmptyValue])"
      by (simp add: suffix_flow_def compose_set)
    fix flow a live
    assume "a \<in> set flow" "is_normal a"
    with list_flow_step [of c ?fl s, OF c, of a flow] that(2)
    show "updateEmpty c (completion_value a) \<in> set (fst (list_flow ?fl flow live (s # ss)))"
      by (simp add: list_flow_abrupt)
  qed
  then show "sound_at m [] s c \<Longrightarrow> \<not> is_normal c \<Longrightarrow> sound_list m (s # ss) c" by blast
  show "sound_list m (s # ss) (updateEmpty d (completion_value c))"
    if "sound_at m [] s c" "is_normal c" "completion_label c = None" "sound_list m ss d"
    unfolding sound_list_def
  proof (intro impI conjI allI)
    assume all: "\<forall>s\<in>set (s # ss). summarised m s \<and> labels_above (fst s) (snd s) = []"
    with that(1) have c: "c \<in> set (?fl s)" by (auto intro: sound_atD)
    from all that(4) have d: "d \<in> set (suffix_flow ?fl ss [normal_completion EmptyValue])"
      "\<And>flow a live. a \<in> set flow \<Longrightarrow> is_normal a \<Longrightarrow> completion_label a = None \<Longrightarrow>
         updateEmpty d (completion_value a) \<in> set (fst (list_flow ?fl flow live ss))"
      by (auto simp: sound_list_def)
    from c d(1) that(2) show "updateEmpty d (completion_value c) \<in> set (suffix_flow ?fl (s # ss) [normal_completion EmptyValue])"
      by (auto simp: suffix_flow_def compose_set)
    fix flow a live
    assume "a \<in> set flow" "is_normal a"
    from d(2) [OF list_flow_step [of c ?fl s, OF c this]] that(2,3)
    show "updateEmpty (updateEmpty d (completion_value c)) (completion_value a) \<in> set (fst (list_flow ?fl flow live (s # ss)))"
      by (simp add: updateEmpty_twice)
  qed
  show "sound_list m (s # ss) thrown" if "declares_resource (fst s)"
  proof (rule abrupt)
    from that have "is_stmt VariableStatement (fst s)" by (simp add: declares_resource_def)
    then show "sound_at m [] s thrown"
      by (intro sound_atI [OF ok, where c = thrown]) (auto simp: statement_flow_kinds)
  qed simp
qed

lemma sound_simple_rules:
  assumes ok: "summaries_ok m"
  shows "is_statement_list (fst x) \<Longrightarrow> sound_list m (located_field x ''statements'') c \<Longrightarrow> sound_at m labels x c"
    and "is_stmt ReturnStatement (fst x) \<Longrightarrow> child (fst x) ''expression'' = None \<Longrightarrow>
      sound_at m labels x (completion KindReturn UndefinedValue None)"
    and "is_stmt ReturnStatement (fst x) \<Longrightarrow> child (fst x) ''expression'' = Some e \<Longrightarrow>
      sound_at m labels x (completion KindReturn (ValueOf e) None)"
    and "is_stmt ReturnStatement (fst x) \<Longrightarrow> child (fst x) ''expression'' = Some e \<Longrightarrow> can_be e Raises \<Longrightarrow> sound_at m labels x thrown"
    and "is_stmt ThrowStatement (fst x) \<Longrightarrow> sound_at m labels x (completion KindThrow (ValueOf (field (fst x) ''expression'')) None)"
    and "is_stmt ThrowStatement (fst x) \<Longrightarrow> can_be (field (fst x) ''expression'') Raises \<Longrightarrow> sound_at m labels x thrown"
    and "is_stmt BreakStatement (fst x) \<Longrightarrow>
      sound_at m labels x (completion KindBreak EmptyValue (map_option node_text (child (fst x) ''label'')))"
    and "is_stmt ContinueStatement (fst x) \<Longrightarrow>
      sound_at m labels x (completion KindContinue EmptyValue (map_option node_text (child (fst x) ''label'')))"
    and "is_stmt ExpressionStatement (fst x) \<Longrightarrow> sound_at m labels x (normal_completion (ValueOf (field (fst x) ''expression'')))"
    and "is_stmt ExpressionStatement (fst x) \<Longrightarrow> can_be (field (fst x) ''expression'') Raises \<Longrightarrow> sound_at m labels x thrown"
    and "is_stmt VariableStatement (fst x) \<or> is_stmt ClassDeclaration (fst x) \<Longrightarrow> sound_at m labels x (normal_completion EmptyValue)"
    and "is_stmt VariableStatement (fst x) \<or> is_stmt ClassDeclaration (fst x) \<Longrightarrow> sound_at m labels x thrown"
    and "is_empty_statement (fst x) \<Longrightarrow> sound_at m labels x (normal_completion EmptyValue)"
proof -
  show "sound_at m labels x c" if "is_statement_list (fst x)" "sound_list m (located_field x ''statements'') c"
    unfolding sound_at_def
  proof (intro impI)
    assume x: "summarised m x"
    have "\<not> is_stmt LabeledStatement (fst x)" using that(1) by (auto simp: statement_kinds)
    then have "\<forall>s\<in>set (located_field x ''statements''). summarised m s \<and> labels_above (fst s) (snd s) = []"
      using child_summarised [OF ok x] labels_field statement_children_kinds(1) [OF that(1)] by metis
    with that(2) have "updateEmpty c (completion_value (normal_completion EmptyValue)) \<in>
        set (fst (list_flow (summary_flow m) [normal_completion EmptyValue] [] (located_field x ''statements'')))"
      unfolding sound_list_def by (metis completion_simps(6,7) list.set_intros(1))
    with statement_list_member [OF ok x that(1), of c] show "c \<in> set (summary_flow m x)" by simp
  qed
qed (rule sound_atI [OF ok _ refl [THEN trans]],
     auto simp: statement_flow_kinds return_flow_def throw_flow_def jump_flow_def expression_flow_def literalValue_can
       starts_undefined_kinds is_stmt_def)+

lemma condition_can:
  assumes "can_be e r"
  shows "r = Truthy \<Longrightarrow> truth (Some e) \<noteq> Some False" "r = Falsy \<Longrightarrow> truth (Some e) \<noteq> Some True" "r = Raises \<Longrightarrow> truth (Some e) = None"
  using assms truth_can [of e] by (cases "truth (Some e)"; force)+

lemma sound_if_rules:
  assumes ok: "summaries_ok m" and x: "is_stmt IfStatement (fst x)" and e: "child (fst x) ''expression'' = Some e"
  shows "can_be e Truthy \<Longrightarrow> located_child x ''thenStatement'' = Some s \<Longrightarrow> sound_at m [] s c \<Longrightarrow>
      sound_at m labels x (updateEmpty c UndefinedValue)"
    and "can_be e Falsy \<Longrightarrow> located_child x ''elseStatement'' = Some s \<Longrightarrow> sound_at m [] s c \<Longrightarrow>
      sound_at m labels x (updateEmpty c UndefinedValue)"
    and "can_be e Falsy \<Longrightarrow> child (fst x) ''elseStatement'' = None \<Longrightarrow> sound_at m labels x (normal_completion UndefinedValue)"
    and "can_be e Raises \<Longrightarrow> sound_at m labels x thrown"
proof -
  have not: "\<not> is_stmt LabeledStatement (fst x)" and start: "statementCompletionStartsUndefined (fst x)"
    using x by (auto simp: is_stmt_def statementCompletionStartsUndefined_def)
  note sound = sound_atI [OF ok, of x labels] and flow = statement_flow_kinds(6) [OF x] statement_children_kinds(2) [OF x]
  show "sound_at m labels x (updateEmpty c UndefinedValue)"
    if "can_be e Truthy" "located_child x ''thenStatement'' = Some s" "sound_at m [] s c"
    using sound_child [OF ok _ that(2,3) _ not] condition_can(1) [OF that(1)] start
    by (intro sound [where c = c]) (auto simp: flow if_flow_def e Let_def)
  show "sound_at m labels x (updateEmpty c UndefinedValue)"
    if "can_be e Falsy" "located_child x ''elseStatement'' = Some s" "sound_at m [] s c"
    using sound_child [OF ok _ that(2,3) _ not] condition_can(2) [OF that(1)] start that(2)
    by (intro sound [where c = c]) (auto simp: flow if_flow_def e Let_def has_child_def located_child_def)
  show "sound_at m labels x (normal_completion UndefinedValue)" if "can_be e Falsy" "child (fst x) ''elseStatement'' = None"
    using condition_can(2) [OF that(1)] that(2)
    by (intro sound [where c = "normal_completion UndefinedValue"]) (auto simp: flow if_flow_def e Let_def has_child_def updateEmpty_full)
  show "sound_at m labels x thrown" if "can_be e Raises"
    using condition_can(3) [OF that] by (intro sound [where c = thrown]) (auto simp: flow if_flow_def e Let_def)
qed

lemma sound_loop_statement:
  assumes ok: "summaries_ok m" and x: "is_iteration (fst x)"
  shows "\<not> is_stmt DoStatement (fst x) \<Longrightarrow> sound_iterates m labels x UndefinedValue c \<Longrightarrow> sound_at m labels x (break_to_normal c)"
    and "is_stmt DoStatement (fst x) \<Longrightarrow> sound_passes m labels x UndefinedValue c \<Longrightarrow> sound_at m labels x (break_to_normal c)"
    and "head_raises (fst x) \<Longrightarrow> sound_at m labels x thrown"
proof -
  have und: "UndefinedValue \<in> set (carried_values (summary_flow m) x)" by (simp add: carried_values_def)
  have at: "sound_at m labels x (break_to_normal c)"
    if "summarised m x \<Longrightarrow> labels = labels_above (fst x) (snd x) \<Longrightarrow> sound_loop m x c"
    unfolding sound_at_def
  proof (intro impI)
    assume "summarised m x" "labels = labels_above (fst x) (snd x)"
    with that summary_member [OF ok, of x "break_to_normal c"] x show "break_to_normal c \<in> set (summary_flow m x)"
      by (simp add: sound_loop_def statement_flow_kinds(7) starts_undefined_kinds updateEmpty_full)
  qed
  show "sound_at m labels x (break_to_normal c)" if "\<not> is_stmt DoStatement (fst x)" "sound_iterates m labels x UndefinedValue c"
    using that und x by (intro at) (simp add: sound_iterates_def loop_ready_def)
  show "sound_at m labels x (break_to_normal c)" if "is_stmt DoStatement (fst x)" "sound_passes m labels x UndefinedValue c"
    using that und x by (intro at) (simp add: sound_passes_def loop_ready_def loop_executes_def)
  show "sound_at m labels x thrown" if "head_raises (fst x)"
    using that iteration_member(2) [of x] x
    by (intro sound_atI [OF ok, where c = thrown]) (auto simp: statement_flow_kinds(7) head_raises_def)
qed

lemma sound_label_rule:
  assumes ok: "summaries_ok m" and x: "is_stmt LabeledStatement (fst x)" and s: "located_child x ''statement'' = Some s"
    and sound: "sound_at m (node_text (field (fst x) ''label'') # labels) s c"
  shows "sound_at m labels x (label_result (node_text (field (fst x) ''label'')) c)"
proof (rule sound_atI [OF ok])
  assume summ: "summarised m x" and "labels = labels_above (fst x) (snd x)"
  with labels_labelled [OF s x] sound located_child_statement [OF ok summ s] statement_children_kinds(5) [of x] x
  have "c \<in> set (summary_flow m s)" by (simp add: sound_at_def)
  then have "c \<in> set (flow_at (summary_flow m) (located_field x ''statement''))" by (rule located_child_flow [OF s])
  then show "label_result (node_text (field (fst x) ''label'')) c \<in> set (fst (fst (statement_flow (summary_flow m) x)))"
    by (auto simp: statement_flow_kinds(8) [OF x] label_flow_def label_result_def)
qed (use x in \<open>simp add: starts_undefined_kinds\<close>)

lemma sound_switch_rules:
  assumes ok: "summaries_ok m" and x: "is_stmt SwitchStatement (fst x)"
  shows "is_kind CaseBlock (field (fst x) ''caseBlock'') \<Longrightarrow> i < length (statement_children x) \<Longrightarrow>
      sound_list m (drop i (statement_children x)) c \<Longrightarrow> sound_at m labels x (break_to_normal (updateEmpty c UndefinedValue))"
    and "\<not> list_ex (\<lambda>c. is_elem DefaultClause (fst c)) (statement_children x) \<Longrightarrow> sound_at m labels x (normal_completion UndefinedValue)"
    and "sound_at m labels x thrown"
proof -
  let ?fl = "summary_flow m"
  note sound = sound_atI [OF ok, of x labels] and flow = statement_flow_kinds(9) [OF x]
  have start: "statementCompletionStartsUndefined (fst x)" using x by (simp add: statementCompletionStartsUndefined_def)
  show "sound_at m labels x (break_to_normal (updateEmpty c UndefinedValue))"
    if "is_kind CaseBlock (field (fst x) ''caseBlock'')" and i: "i < length (statement_children x)"
      and list: "sound_list m (drop i (statement_children x)) c"
  proof (rule sound)
    assume "summarised m x"
    with child_summarised [OF ok this] clause_labels [OF x that(1)] list
    have "c \<in> set (suffix_flow ?fl (drop i (statement_children x)) [normal_completion EmptyValue])"
      by (auto simp: sound_list_def dest!: in_set_dropD)
    with clause_flow_suffixes [OF i, of ?fl "[normal_completion EmptyValue]" "[]"]
    show "break_to_normal c \<in> set (fst (fst (statement_flow ?fl x)))"
      by (auto simp: flow switch_flow_def Let_def)
  qed (simp add: start break_updateEmpty)
  show "sound_at m labels x (normal_completion UndefinedValue)"
    if "\<not> list_ex (\<lambda>c. is_elem DefaultClause (fst c)) (statement_children x)"
    using that by (intro sound [where c = "normal_completion UndefinedValue"]) (simp_all add: flow switch_flow_def Let_def updateEmpty_full)
  show "sound_at m labels x thrown"
    by (intro sound [where c = thrown]) (simp_all add: flow switch_flow_def Let_def)
qed

lemma sound_attempt_rules:
  assumes ok: "summaries_ok m" and x: "is_stmt TryStatement (fst x)" and s: "located_child x ''tryBlock'' = Some s" "sound_at m [] s c"
  shows "completion_kind c \<noteq> KindThrow \<or> \<not> has_child (fst x) ''catchClause'' \<Longrightarrow> sound_attempts m x c"
    and "completion_kind c = KindThrow \<Longrightarrow> located_child x ''catchClause'' = Some k \<Longrightarrow> is_kind CatchClause (fst k) \<Longrightarrow>
      located_child k ''block'' = Some b \<Longrightarrow> sound_at m [] b d \<Longrightarrow> sound_attempts m x d"
    and "completion_kind c = KindThrow \<Longrightarrow> has_child (fst x) ''catchClause'' \<Longrightarrow> catches_pattern (fst x) \<Longrightarrow> sound_attempts m x thrown"
proof -
  let ?fl = "summary_flow m"
  have not: "\<not> is_stmt LabeledStatement (fst x)" using x by (simp add: is_stmt_def)
  have c: "c \<in> set (flow_at ?fl (located_field x ''tryBlock''))" if "summarised m x"
    using sound_child [OF ok that s _ not] statement_children_kinds(3) [OF x] by auto
  show "sound_attempts m x c" if "completion_kind c \<noteq> KindThrow \<or> \<not> has_child (fst x) ''catchClause''"
    using c that x by (auto simp: sound_attempts_def caught_flow_def Let_def)
  show "sound_attempts m x d" if "completion_kind c = KindThrow" and k: "located_child x ''catchClause'' = Some k" "is_kind CatchClause (fst k)"
      and b: "located_child k ''block'' = Some b" "sound_at m [] b d"
    unfolding sound_attempts_def
  proof (intro impI conjI x)
    assume summ: "summarised m x"
    have "b \<in> set (catch_blocks x)" using k(1) b(1) by (rule catch_block_mem)
    with child_summarised [OF ok summ] have "summarised m b" by (simp add: statement_children_kinds(3) [OF x])
    moreover have "labels_above (fst b) (snd b) = []"
      using labels_plain [OF b(1)] k(2) by (simp add: is_kind_def is_stmt_def CatchClause_def)
    ultimately have "d \<in> set (?fl b)" using b(2) by (blast intro: sound_atD)
    with \<open>b \<in> set (catch_blocks x)\<close> have "d \<in> set (flow_at ?fl (catch_blocks x))" by (rule flow_at_mem)
    moreover have "list_ex (\<lambda>c. completion_kind c = KindThrow) (flow_at ?fl (located_field x ''tryBlock''))"
      using c [OF summ] that(1) by (auto simp: list_ex_iff)
    moreover have "has_child (fst x) ''catchClause''" using k(1) by (auto simp: has_child_def located_child_def)
    ultimately show "d \<in> set (fst (caught_flow ?fl x))" by (simp add: caught_flow_def Let_def)
  qed
  show "sound_attempts m x thrown" if "completion_kind c = KindThrow" "has_child (fst x) ''catchClause''" "catches_pattern (fst x)"
    using c that x by (auto simp: sound_attempts_def caught_flow_def Let_def list_ex_iff)
qed

lemma sound_try_rules:
  assumes ok: "summaries_ok m" and c: "sound_attempts m x c"
  shows "is_stmt TryStatement (fst x) \<Longrightarrow> child (fst x) ''finallyBlock'' = None \<Longrightarrow> sound_at m labels x (updateEmpty c UndefinedValue)"
    and "is_stmt TryStatement (fst x) \<Longrightarrow> located_child x ''finallyBlock'' = Some f \<Longrightarrow> sound_at m [] f d \<Longrightarrow> is_normal d \<Longrightarrow>
      sound_at m labels x (updateEmpty c UndefinedValue)"
    and "is_stmt TryStatement (fst x) \<Longrightarrow> located_child x ''finallyBlock'' = Some f \<Longrightarrow> sound_at m [] f d \<Longrightarrow> \<not> is_normal d \<Longrightarrow>
      sound_at m labels x (updateEmpty d UndefinedValue)"
proof -
  let ?fl = "summary_flow m"
  note sound = sound_atI [OF ok, of x labels]
  have flow: "fst (statement_flow ?fl x) = try_flow ?fl x" "\<not> is_stmt LabeledStatement (fst x)" "statementCompletionStartsUndefined (fst x)"
    "set (located_field x ''finallyBlock'') \<subseteq> set (statement_children x)" if "is_stmt TryStatement (fst x)"
    using that by (auto simp: statement_flow_kinds(10) statement_children_kinds(3) is_stmt_def statementCompletionStartsUndefined_def)
  have caught: "c \<in> set (fst (caught_flow ?fl x))" if "summarised m x" using c that by (simp add: sound_attempts_def)
  show "sound_at m labels x (updateEmpty c UndefinedValue)" if "is_stmt TryStatement (fst x)" "child (fst x) ''finallyBlock'' = None"
    using flow [OF that(1)] caught that(2)
    by (intro sound [where c = c]) (auto simp: try_flow_def has_child_def split: prod.splits)
  show "sound_at m labels x (updateEmpty c UndefinedValue)"
    if "is_stmt TryStatement (fst x)" "located_child x ''finallyBlock'' = Some f" "sound_at m [] f d" "is_normal d"
    using flow [OF that(1)] caught that(2,4) sound_child [OF ok _ that(2,3)]
    by (intro sound [where c = c]) (fastforce simp: try_flow_def Let_def list_ex_iff split: prod.splits)+
  show "sound_at m labels x (updateEmpty d UndefinedValue)"
    if "is_stmt TryStatement (fst x)" "located_child x ''finallyBlock'' = Some f" "sound_at m [] f d" "\<not> is_normal d"
    using flow [OF that(1)] caught that(2,4) sound_child [OF ok _ that(2,3)]
    by (intro sound [where c = d]) (fastforce simp: try_flow_def Let_def has_child_def located_child_def split: prod.splits)+
qed

lemma sound_with_rules:
  assumes ok: "summaries_ok m" and x: "is_stmt WithStatement (fst x)"
  shows "located_child x ''statement'' = Some s \<Longrightarrow> sound_at m [] s c \<Longrightarrow> sound_at m labels x (updateEmpty c UndefinedValue)"
    and "sound_at m labels x thrown"
proof -
  have start: "statementCompletionStartsUndefined (fst x)" "\<not> is_stmt LabeledStatement (fst x)"
    using x by (simp_all add: statementCompletionStartsUndefined_def is_stmt_def)
  show "sound_at m labels x (updateEmpty c UndefinedValue)" if "located_child x ''statement'' = Some s" "sound_at m [] s c"
    using sound_child [OF ok _ that _ start(2)] statement_children_kinds(5) [of x] start x
    by (intro sound_atI [OF ok, where c = c]) (auto simp: statement_flow_kinds(11) [OF x])
  show "sound_at m labels x thrown"
    by (intro sound_atI [OF ok, where c = thrown]) (simp_all add: statement_flow_kinds(11) [OF x])
qed

lemma evaluates_sound:
  assumes ok: "summaries_ok m" and covered: "\<And>x. summarised m x \<Longrightarrow> increment_covered (fst x)"
  shows "evaluates labels x c \<Longrightarrow> sound_at m labels x c"
    and "runs xs c \<Longrightarrow> sound_list m xs c"
    and "iterates labels x v c \<Longrightarrow> sound_iterates m labels x v c"
    and "passes labels x v c \<Longrightarrow> sound_passes m labels x v c"
    and "attempts x c \<Longrightarrow> sound_attempts m x c \<and> is_stmt TryStatement (fst x)"
proof (induction rule: evaluates_runs_iterates_passes_attempts.inducts)
  case (runs_step s c ss d)
  then show ?case using normal_label(1) by (blast intro: sound_list_rules [OF ok])
next
  case (passes_increment x s c labels v)
  then show ?case
  proof (cases "summarised m x")
    case True
    with covered passes_increment show ?thesis by (blast intro: sound_loop_rules [OF ok])
  qed (simp add: sound_passes_def loop_ready_def)
next
  case (eval_do x labels c)
  then have "is_iteration (fst x)" by (simp add: is_iteration_def)
  with eval_do show ?case by (blast intro: sound_loop_statement [OF ok])
next
  case (passes_next x s c labels v d)
  then show ?case by (blast intro: sound_loop_rules(7) [OF ok])
qed (blast intro: sound_list_rules [OF ok] sound_simple_rules [OF ok] sound_if_rules [OF ok] sound_loop_rules(1-6) [OF ok]
       sound_loop_statement [OF ok] sound_label_rule [OF ok] sound_switch_rules [OF ok] sound_attempt_rules [OF ok]
       sound_try_rules [OF ok] sound_with_rules [OF ok])+

subsection \<open>Every statement that starts is live\<close>

lemma list_flow_live_subset: "set (snd (list_flow fl flow live ss)) \<subseteq> set live \<union> set ss"
proof (induction ss arbitrary: flow live)
  case (Cons s ss)
  from Cons.IH [of "compose flow (fl s)" live] Cons.IH [of "compose flow (fl s)" "live @ [s]"] show ?case by auto
qed simp

lemma list_flow_live_normal:
  assumes "c \<in> set (fst (list_flow fl flow live before))" "is_normal c"
  shows "y \<in> set (snd (list_flow fl flow live (before @ y # after)))"
proof -
  obtain flow' live' where l: "list_flow fl flow live before = (flow', live')" by force
  have "list_ex is_normal flow'" using assms l by (auto simp: list_ex_iff)
  then show ?thesis
    using list_flow_lives [of "live' @ [y]" fl "compose flow' (fl y)" after] by (simp add: list_flow_append l)
qed

lemma live_children:
  assumes "summaries_ok m"
  shows "set (summary_live m x) \<subseteq> set (statement_children x)"
proof (cases "summarised m x")
  case True
  have "set (snd (fst (statement_flow fl x))) \<subseteq> set (statement_children x)" for fl
  proof -
    consider "is_statement_list (fst x)" | "is_stmt IfStatement (fst x)" | "is_iteration (fst x)" | "is_stmt TryStatement (fst x)"
      | "\<not> is_statement_list (fst x)" "\<not> is_stmt IfStatement (fst x)" "\<not> is_iteration (fst x)" "\<not> is_stmt TryStatement (fst x)"
      by blast
    then show ?thesis
    proof cases
      case 1
      then show ?thesis using list_flow_live_subset [of fl _ "[]"] by (simp add: statement_flow_kinds(1))
    next
      case 2
      then show ?thesis by (simp add: statement_flow_kinds(6) statement_children_kinds(2) if_flow_def Let_def)
    next
      case 3
      then have "statement_children x = located_field x ''statement''" by (intro statement_children_kinds(5)) simp
      moreover have "snd (fst (statement_flow fl x)) = (if loop_executes (fst x) then located_field x ''statement'' else [])"
        unfolding statement_flow_kinds(7) [OF 3] iteration_flow_def Let_def by (rule snd_conv)
      ultimately show ?thesis by (cases "loop_executes (fst x)") auto
    next
      case 4
      then show ?thesis
        by (auto simp: statement_flow_kinds(10) statement_children_kinds(3) try_flow_def caught_flow_def Let_def split: if_splits)
    next
      case 5
      then show ?thesis by (simp add: statement_flow_def Let_def)
    qed
  qed
  then show ?thesis by (simp add: summary_live_flow [OF assms True])
next
  case False
  then have "map_of m x = None" by (metis summarised_lookup)
  then have "summary_live m x = []" by (simp add: summary_live_def)
  then show ?thesis by auto
qed

lemma starts_live:
  assumes ok: "summaries_ok m" and covered: "\<And>x. summarised m x \<Longrightarrow> increment_covered (fst x)"
    and x: "summarised m x" and start: "starts x y"
  shows "y \<in> set (summary_live m x)"
  using start
proof cases
  case (starts_list before after c)
  have "\<not> is_stmt LabeledStatement (fst x)" using starts_list(1) by (auto simp: statement_kinds)
  then have "\<forall>s\<in>set before. summarised m s \<and> labels_above (fst s) (snd s) = []"
    using child_summarised [OF ok x] labels_field [of _ x "''statements''"] starts_list(1,2)
    by (simp add: statement_children_kinds(1))
  with evaluates_sound(2) [OF ok covered starts_list(3)]
  have "updateEmpty c (completion_value (normal_completion EmptyValue)) \<in>
      set (fst (list_flow (summary_flow m) [normal_completion EmptyValue] [] before))"
    unfolding sound_list_def by (metis completion_simps(6,7) list.set_intros(1))
  then have "y \<in> set (snd (list_flow (summary_flow m) [normal_completion EmptyValue] [] (before @ y # after)))"
    by (rule list_flow_live_normal) (simp add: starts_list(4))
  with starts_list(1,2) show ?thesis
    by (simp add: summary_live_flow [OF ok x] statement_flow_kinds(1) statement_children_kinds(1))
next
  case (starts_then e)
  with condition_can(1) [OF starts_then(3)] located_child_field [of x "''thenStatement''" y] show ?thesis
    by (simp add: summary_live_flow [OF ok x] statement_flow_kinds(6) if_flow_def Let_def)
next
  case (starts_else e)
  with condition_can(2) [OF starts_else(3)] located_child_field [of x "''elseStatement''" y] show ?thesis
    by (simp add: summary_live_flow [OF ok x] statement_flow_kinds(6) if_flow_def Let_def)
next
  case starts_loop
  have "loop_executes (fst x)" using starts_loop(1,2) loop_test_condition(2) [of "fst x" Truthy] by (auto simp: loop_executes_def)
  with starts_loop(1) located_child_field [OF starts_loop(3)] show ?thesis
    by (simp add: summary_live_flow [OF ok x] statement_flow_kinds(7) iteration_flow_def loop_executes_def Let_def)
next
  case starts_body
  with located_child_field [of x "''statement''" y] statement_children_kinds(5) [of x] show ?thesis
    by (auto simp: summary_live_flow [OF ok x] statement_flow_kinds)
next
  case starts_clause
  then show ?thesis by (simp add: summary_live_flow [OF ok x] statement_flow_kinds(9))
next
  case starts_try
  with located_child_field [of x "''tryBlock''" y] show ?thesis
    by (auto simp: summary_live_flow [OF ok x] statement_flow_kinds(10) try_flow_def caught_flow_def Let_def split: if_splits)
next
  case (starts_catch s c k)
  have "\<not> is_stmt LabeledStatement (fst x)" using starts_catch(1) by (simp add: is_stmt_def)
  from sound_child [OF ok x starts_catch(2) evaluates_sound(1) [OF ok covered starts_catch(3)] _ this]
  have "c \<in> set (flow_at (summary_flow m) (located_field x ''tryBlock''))"
    using statement_children_kinds(3) [OF starts_catch(1)] by auto
  then have "list_ex (\<lambda>c. completion_kind c = KindThrow) (flow_at (summary_flow m) (located_field x ''tryBlock''))"
    using starts_catch(4) by (auto simp: list_ex_iff)
  moreover have "has_child (fst x) ''catchClause''" using starts_catch(5) by (auto simp: has_child_def located_child_def)
  ultimately show ?thesis
    using catch_block_mem [OF starts_catch(5,6)] starts_catch(1)
    by (simp add: summary_live_flow [OF ok x] statement_flow_kinds(10) try_flow_def caught_flow_def Let_def)
next
  case (starts_finally c)
  from evaluates_sound(5) [OF ok covered starts_finally(1)] x
  have c: "c \<in> set (fst (caught_flow (summary_flow m) x))" "is_stmt TryStatement (fst x)" by (simp_all add: sound_attempts_def)
  have "has_child (fst x) ''finallyBlock''" using starts_finally(2) by (auto simp: has_child_def located_child_def)
  with c(1) located_child_field [OF starts_finally(2)] show ?thesis
    by (auto simp: summary_live_flow [OF ok x] statement_flow_kinds(10) [OF c(2)] try_flow_def Let_def split: prod.split)
qed

subsection \<open>The second worklist\<close>

lemma catch_clause_live:
  assumes "summaries_ok m" "is_kind CatchClause (fst x)"
  shows "summary_live m x = []"
proof -
  have "statement_children x = []"
    using assms(2) by (auto simp: statement_children_def Let_def statement_kinds CatchClause_def)
  with live_children [OF assms(1), of x] show ?thesis by simp
qed

lemma live_loop_total:
  assumes ok: "summaries_ok m" and "\<forall>x\<in>set pending. summarised m x"
    and "\<forall>x\<in>set reachable. set (summary_live m x) \<subseteq> set reachable \<union> set pending"
  shows "\<exists>r. live_loop m pending reachable = Some r \<and> set reachable \<union> set pending \<subseteq> set r \<and>
    (\<forall>x\<in>set r. set (summary_live m x) \<subseteq> set r)"
  using assms(2,3)
proof (induction "(card ({x. summarised m x} - set reachable), length pending)" arbitrary: pending reachable
    rule: wf_induct_rule [OF wf_lex_prod [OF wf_less_than wf_less_than]])
  case 1
  have fin: "finite {x. summarised m x}" unfolding summarised_def by simp
  show ?case
  proof (cases pending)
    case Nil
    with 1(3) show ?thesis by (simp add: live_loop.simps)
  next
    case (Cons x rest)
    show ?thesis
    proof (cases "x \<in> set reachable")
      case True
      with 1(1) [of reachable rest] 1(2,3) Cons have "\<exists>r. live_loop m rest reachable = Some r \<and>
          set reachable \<union> set rest \<subseteq> set r \<and> (\<forall>x\<in>set r. set (summary_live m x) \<subseteq> set r)"
        by auto
      with True Cons show ?thesis by (subst live_loop.simps) auto
    next
      case False
      define clause where "clause = (if is_stmt Block (fst x) \<and> snd x \<noteq> [] \<and> is_kind CatchClause (parent_node (snd x))
             then [(parent_node (snd x), tl (snd x))] else [])"
      have clause: "set (summary_live m y) = {}" if "y \<in> set clause" for y
        using that catch_clause_live [OF ok, of y] by (auto simp: clause_def split: if_splits)
      let ?pending = "rev (summary_live m x) @ rest" and ?reachable = "set_add_all reachable (x # clause)"
      have x: "summarised m x" using 1(2) Cons by simp
      have "card ({x. summarised m x} - set ?reachable) < card ({x. summarised m x} - set reachable)"
        using False x fin by (intro psubset_card_mono) (auto simp del: set_add_all.simps)
      moreover have "\<forall>y\<in>set ?pending. summarised m y"
        using 1(2) Cons child_summarised [OF ok x] live_children [OF ok, of x] by auto
      moreover have "\<forall>y\<in>set ?reachable. set (summary_live m y) \<subseteq> set ?reachable \<union> set ?pending"
        using 1(3) Cons clause by (auto simp del: set_add_all.simps)
      ultimately have "\<exists>r. live_loop m ?pending ?reachable = Some r \<and> set ?reachable \<union> set ?pending \<subseteq> set r \<and>
          (\<forall>x\<in>set r. set (summary_live m x) \<subseteq> set r)"
        by (intro 1(1)) (simp_all del: set_add_all.simps)
      with False Cons show ?thesis
        by (subst live_loop.simps) (auto simp: clause_def [symmetric] simp del: set_add_all.simps)
    qed
  qed
qed

definition completion_covered :: "statement_body_completions \<Rightarrow> body_completion \<Rightarrow> bool" where
  "completion_covered r c = (case completion_kind c of
       KindNormal \<Rightarrow> completes_normally r \<and> value_or_undefined (completion_value c) \<in> set (normalValues r)
     | KindReturn \<Rightarrow> returned_expression (completion_value c) \<in> set (body_returns r)
     | _ \<Rightarrow> True)"

definition increments_covered :: "statement_body_completions \<Rightarrow> bool" where
  "increments_covered r = list_all (\<lambda>x. increment_covered (fst x)) (body_analyzed r)"

lemma statementBodyCompletions_parts:
  obtains m complete reachable where "completion_loop [(body, False)] [] True = (m, complete)"
    "summaries_ok m" "summarised m body" "live_loop m [body] [] = Some reachable" "body \<in> set reachable"
    "\<forall>x\<in>set reachable. set (summary_live m x) \<subseteq> set reachable"
proof -
  obtain m complete where m: "completion_loop [(body, False)] [] True = (m, complete)" by force
  from live_loop_total [OF body_summaries(1) [OF m], of "[body]" "[]"] body_summaries(2) [OF m]
  obtain r where "live_loop m [body] [] = Some r" "body \<in> set r" "\<forall>x\<in>set r. set (summary_live m x) \<subseteq> set r"
    by auto
  with m body_summaries [OF m] show ?thesis by (intro that [of m complete r]) auto
qed

lemma flow_covered:
  assumes "c \<in> set (summary_flow m body)" "completion_loop [(body, False)] [] True = (m, complete)"
    and "statementBodyCompletions body = Some r"
  shows "completion_covered r c"
  using assms
  by (auto simp: statementBodyCompletions_def completion_covered_def Let_def list_ex_iff is_normal_def split: completion_kind.split)

section \<open>Examples\<close>

text \<open>\<open>{ try { f(); } catch { return 1; } }\<close>\<close>

definition example_call :: "nat \<Rightarrow> node" where
  "example_call i = example_tree i (Expression CallExpression) [] [(''expression'', example_tree (i + 1) Identifier ''f'' [])]"

definition example_returned :: node where
  "example_returned = example_tree 21 (Literal NumericLiteral) ''1'' []"

definition example_return :: node where
  "example_return = example_tree 20 (Statement ReturnStatement) [] [(''expression'', example_returned)]"

definition example_handler :: node where
  "example_handler = example_tree 18 CatchClause [] [(''block'', example_tree 19 (Statement Block) [] [(''statements'', example_return)])]"

definition example_guarded :: "node \<Rightarrow> node" where
  "example_guarded s = example_tree 10 (Statement Block) [] [(''statements'',
     example_tree 11 (Statement TryStatement) [] [(''tryBlock'', example_tree 12 (Statement Block) [] [(''statements'', s)]),
       (''catchClause'', example_handler)])]"

definition example_call_body :: node where
  "example_call_body = example_guarded (example_tree 13 (Statement ExpressionStatement) [] [(''expression'', example_call 14)])"

lemmas example_tree_defs = example_call_def example_returned_def example_return_def example_handler_def example_guarded_def example_tree_def

lemmas example_evaluation = located_field_def located_child_def children_def child_def field_def has_child_def is_statement_list_def
  is_stmt_def is_kind_def is_elem_def

text \<open>A statement that can raise, run under the handler, ends the body with the return of the handler.\<close>

lemma guarded_statement_raises:
  assumes "evaluates [] (s, [example_tree 12 (Statement Block) [] [(''statements'', s)],
      example_tree 11 (Statement TryStatement) [] [(''tryBlock'', example_tree 12 (Statement Block) [] [(''statements'', s)]),
       (''catchClause'', example_handler)], example_guarded s]) c" "completion_kind c = KindThrow"
  shows "evaluates [] (example_guarded s, []) (completion KindReturn (ValueOf example_returned) None)"
proof -
  let ?tried = "example_tree 12 (Statement Block) [] [(''statements'', s)]"
  let ?attempt = "(example_tree 11 (Statement TryStatement) [] [(''tryBlock'', ?tried), (''catchClause'', example_handler)], [example_guarded s])"
  let ?block = "example_tree 19 (Statement Block) [] [(''statements'', example_return)]"
  let ?return = "completion KindReturn (ValueOf example_returned) None"
  have abrupt: "\<not> is_normal c" "\<not> is_normal ?return" using assms(2) by (simp_all add: is_normal_def)
  have "runs (located_field (?tried, [fst ?attempt, example_guarded s]) ''statements'') c"
    using runs_abrupt [OF assms(1) abrupt(1), of "[]"] by (simp add: example_evaluation example_tree_def)
  then have tried: "evaluates [] (?tried, [fst ?attempt, example_guarded s]) c"
    by (rule eval_list [rotated]) (simp add: example_evaluation example_tree_def)
  have "evaluates [] (example_return, [?block, example_handler, fst ?attempt, example_guarded s]) ?return"
    by (rule eval_return_value) (simp_all add: example_evaluation example_return_def example_tree_def)
  then have "runs (located_field (?block, [example_handler, fst ?attempt, example_guarded s]) ''statements'') ?return"
    using runs_abrupt [OF _ abrupt(2), of _ "[]"] by (simp add: example_evaluation example_tree_def)
  then have "evaluates [] (?block, [example_handler, fst ?attempt, example_guarded s]) ?return"
    by (rule eval_list [rotated]) (simp add: example_evaluation example_tree_def)
  with tried assms(2) have "attempts ?attempt ?return"
    by (intro attempts_catch [where k = "(example_handler, [fst ?attempt, example_guarded s])"])
      (simp_all add: example_evaluation example_handler_def example_tree_def)
  then have "evaluates [] ?attempt (updateEmpty ?return UndefinedValue)"
    by (rule eval_try) (simp add: example_evaluation example_tree_def)
  then have "evaluates [] ?attempt ?return" by (simp add: updateEmpty_full)
  then have "runs (located_field (example_guarded s, []) ''statements'') ?return"
    using runs_abrupt [OF _ abrupt(2), of ?attempt "[]"] by (simp add: example_evaluation example_guarded_def example_tree_def)
  then show ?thesis
    by (rule eval_list [rotated]) (simp add: example_evaluation example_guarded_def example_tree_def)
qed

lemma example_call_evaluates:
  "evaluates [] (example_call_body, []) (completion KindReturn (ValueOf example_returned) None)"
  unfolding example_call_body_def
proof (rule guarded_statement_raises)
  show "evaluates [] (example_tree 13 (Statement ExpressionStatement) [] [(''expression'', example_call 14)], ancs) thrown" for ancs
    by (rule eval_expression_raise)
      (simp_all add: example_evaluation example_tree_def example_call_def can_be_def unwrapTransparentExpression.simps is_transparent_def)
qed simp

section \<open>Properties\<close>

text \<open>C8 The completions of a statement body return for every tree and are sound for the reference semantics: when
  no incrementor escapes the analysis, every normal completion of the body is announced with its value and every
  return with the expression it returns.\<close>

theorem statementBodyCompletions_sound:
  "\<exists>r. statementBodyCompletions body = Some r \<and>
     (increments_covered r \<longrightarrow> evaluates (labels_above (fst body) (snd body)) body c \<longrightarrow> completion_covered r c)"
proof -
  obtain m complete reachable where m: "completion_loop [(body, False)] [] True = (m, complete)" "summaries_ok m"
    "summarised m body" "live_loop m [body] [] = Some reachable"
    by (rule statementBodyCompletions_parts [of body])
  then obtain r where r: "statementBodyCompletions body = Some r" "body_analyzed r = rev (map fst m)"
    by (auto simp: statementBodyCompletions_def Let_def)
  have "completion_covered r c"
    if "increments_covered r" "evaluates (labels_above (fst body) (snd body)) body c"
  proof -
    have "increment_covered (fst x)" if "summarised m x" for x
      using that \<open>increments_covered r\<close> by (auto simp: increments_covered_def r(2) list_all_iff summarised_def)
    from evaluates_sound(1) [OF m(2) this that(2)] m(3) have "c \<in> set (summary_flow m body)"
      by (simp add: sound_at_def)
    from flow_covered [OF this m(1) r(1)] show ?thesis .
  qed
  with r(1) show ?thesis by blast
qed

theorem statementBodyCompletions_sound_witness:
  "\<exists>r. statementBodyCompletions (example_call_body, []) = Some r \<and> increments_covered r \<and>
     completion_covered r (completion KindReturn (ValueOf example_returned) None)"
proof -
  have "case statementBodyCompletions (example_call_body, []) of None \<Rightarrow> False | Some r \<Rightarrow> increments_covered r" by code_simp
  with statementBodyCompletions_sound [of "(example_call_body, [])"] example_call_evaluates show ?thesis
    by (auto split: option.splits)
qed

text \<open>C14 Every statement of a body that some evaluation starts is reported as reachable, when no incrementor
  escapes the analysis: a chain of started children from the body ends in \<open>reachable\<close>.\<close>

theorem statementBodyCompletions_reachable:
  assumes "statementBodyCompletions body = Some r" "increments_covered r" "starts\<^sup>*\<^sup>* body y"
  shows "y \<in> set (body_reachable r)"
proof -
  obtain m complete reachable where m: "completion_loop [(body, False)] [] True = (m, complete)" "summaries_ok m"
    "summarised m body" "live_loop m [body] [] = Some reachable" "body \<in> set reachable"
    "\<forall>x\<in>set reachable. set (summary_live m x) \<subseteq> set reachable"
    by (rule statementBodyCompletions_parts [of body])
  then have r: "body_reachable r = reachable" "body_analyzed r = rev (map fst m)"
    using assms(1) by (auto simp: statementBodyCompletions_def Let_def)
  have covered: "increment_covered (fst x)" if "summarised m x" for x
    using that assms(2) by (auto simp: increments_covered_def r(2) list_all_iff summarised_def)
  from assms(3) have "summarised m y \<and> y \<in> set reachable"
  proof (induction rule: rtranclp_induct)
    case (step y z)
    then have "z \<in> set (summary_live m y)" using starts_live [OF m(2) covered] by blast
    with step m(6) live_children [OF m(2), of y] child_summarised [OF m(2), of y z] show ?case by blast
  qed (use m in simp)
  with r show ?thesis by simp
qed

definition example_handler_block :: located where
  "example_handler_block = (field example_handler ''block'',
     [example_handler, field example_call_body ''statements'', example_call_body])"

theorem statementBodyCompletions_reachable_witness:
  "\<exists>r. statementBodyCompletions (example_call_body, []) = Some r \<and> increments_covered r \<and>
     starts\<^sup>*\<^sup>* (example_call_body, []) example_handler_block \<and> example_handler_block \<in> set (body_reachable r)"
proof -
  let ?attempt = "(field example_call_body ''statements'', [example_call_body])"
  let ?s = "example_tree 13 (Statement ExpressionStatement) [] [(''expression'', example_call 14)]"
  let ?tried = "(example_tree 12 (Statement Block) [] [(''statements'', ?s)], [fst ?attempt, example_call_body])"
  have "evaluates [] (?s, ancs) thrown" for ancs
    by (rule eval_expression_raise)
      (simp_all add: example_evaluation example_tree_def example_call_def can_be_def unwrapTransparentExpression.simps is_transparent_def)
  then have "runs (located_field ?tried ''statements'') thrown"
    using runs_abrupt [of _ thrown "[]"] by (simp add: example_evaluation example_tree_def)
  then have "evaluates [] ?tried thrown"
    by (rule eval_list [rotated]) (simp add: example_evaluation example_tree_def)
  then have "starts ?attempt example_handler_block"
    by (rule starts_catch [rotated 2, where k = "(example_handler, [fst ?attempt, example_call_body])"])
      (simp_all add: example_evaluation example_handler_block_def example_call_body_def example_guarded_def example_handler_def example_tree_def)
  moreover have "starts (example_call_body, []) ?attempt"
    by (rule starts_list [where before = "[]" and after = "[]", OF _ _ runs_nil])
      (simp_all add: example_evaluation example_call_body_def example_guarded_def example_tree_def)
  ultimately have chain: "starts\<^sup>*\<^sup>* (example_call_body, []) example_handler_block" by simp
  have "case statementBodyCompletions (example_call_body, []) of None \<Rightarrow> False | Some r \<Rightarrow> increments_covered r" by code_simp
  then obtain r where "statementBodyCompletions (example_call_body, []) = Some r" "increments_covered r" by (auto split: option.splits)
  with chain statementBodyCompletions_reachable show ?thesis by blast
qed

text \<open>
  The incrementor of \<open>{ try { for (;; f()) { } } catch { return 1; } }\<close> can raise, so the body can return; the
  analysis reports neither a return nor the handler and still calls itself complete.
\<close>

definition example_for :: node where
  "example_for = example_tree 13 (Statement ForStatement) [] [(''incrementor'', example_call 14),
     (''statement'', example_tree 16 (Statement Block) [] [])]"

definition example_for_body :: node where
  "example_for_body = example_guarded example_for"

lemma example_for_raises: "evaluates [] (example_for, ancs) thrown"
proof -
  let ?block = "(example_tree 16 (Statement Block) [] [], example_for # ancs)"
  have "evaluates [] ?block (normal_completion EmptyValue)"
    by (rule eval_list) (simp_all add: example_evaluation example_tree_def runs_nil)
  then have "passes [] (example_for, ancs) UndefinedValue thrown"
    by (rule passes_increment [rotated])
      (simp_all add: example_evaluation example_for_def example_tree_def loop_continues_def increment_raises_def example_call_def
        can_be_def unwrapTransparentExpression.simps is_transparent_def)
  then have "iterates [] (example_for, ancs) UndefinedValue thrown"
    by (rule iterates_enter [rotated]) (simp add: loop_test_def is_iterable_def example_evaluation example_for_def example_tree_def)
  then have "evaluates [] (example_for, ancs) (break_to_normal thrown)"
    by (rule eval_loop [rotated 2]) (simp_all add: is_iteration_def example_evaluation example_for_def example_tree_def)
  then show ?thesis by simp
qed

theorem incrementor_throw_missed:
  "evaluates [] (example_for_body, []) (completion KindReturn (ValueOf example_returned) None) \<and>
   (case statementBodyCompletions (example_for_body, []) of None \<Rightarrow> False
    | Some r \<Rightarrow> body_complete r \<and> body_returns r = [] \<and> \<not> completes_normally r \<and>
        list_all (\<lambda>x. fst x \<noteq> example_handler) (body_reachable r))"
proof
  show "evaluates [] (example_for_body, []) (completion KindReturn (ValueOf example_returned) None)"
    unfolding example_for_body_def by (rule guarded_statement_raises [OF example_for_raises]) simp
qed code_simp

end
