(* ===== verification/Function_Static_Semantics.thy ===== *)
theory Function_Static_Semantics
  imports Body_Completions Resumable_Expression
begin

text \<open>
  The early errors of function definitions, after \<open>function-static-semantics.ts\<close> and \<open>eval-context.ts\<close>: parameter
  lists, the placement of \<open>super\<close>, \<open>arguments\<close>, \<open>await\<close> and \<open>yield\<close>, class elements, object literals and
  assignment targets, with the canonical names and lengths of functions. The completions of bodies are in
  \<open>Body_Completions\<close>.
\<close>

section \<open>Environment\<close>

text \<open>
  \<open>node_start\<close> is \<open>getStart\<close>; \<open>parameters_end\<close> the end of a parameter array; \<open>scan_close_paren\<close> the position after
  the token that the scanner finds between two positions when it is a closing parenthesis; \<open>token_string\<close> is
  \<open>ts.tokenToString\<close>.
\<close>

record function_source =
  control :: control_source
  source_text :: js_string
  node_start :: "node \<Rightarrow> nat"
  parameters_end :: "node \<Rightarrow> nat"
  scan_close_paren :: "nat \<Rightarrow> nat \<Rightarrow> nat option"
  token_string :: "syntax_kind \<Rightarrow> string"

definition HeritageClause :: syntax_kind where "HeritageClause = OtherKind 298"
definition TypeParameter :: syntax_kind where "TypeParameter = OtherKind 168"
definition Decorator :: syntax_kind where "Decorator = OtherKind 170"
definition EnumDeclaration :: syntax_kind where "EnumDeclaration = OtherKind 266"
definition ImportToken :: token_kind where "ImportToken = OtherToken 102"
definition flag_YieldContext :: "32 word" where "flag_YieldContext = 16384"
definition flag_AwaitContext :: "32 word" where "flag_AwaitContext = 65536"

section \<open>Eval contexts\<close>

definition EVAL_CONTEXT_FIELD_INITIALIZER :: "32 word" where "EVAL_CONTEXT_FIELD_INITIALIZER = 1"
definition EVAL_CONTEXT_SUPER_PROPERTY :: "32 word" where "EVAL_CONTEXT_SUPER_PROPERTY = 2"
definition EVAL_CONTEXT_SUPER_CALL :: "32 word" where "EVAL_CONTEXT_SUPER_CALL = 4"

text \<open>The map of the module from resolved file names to contexts; \<open>resolve\<close> is \<open>path.resolve\<close>.\<close>

type_synonym file_contexts = "js_string \<rightharpoonup> 32 word"

definition setEvalSourceContext :: "(js_string \<Rightarrow> js_string) \<Rightarrow> js_string \<Rightarrow> 32 word \<Rightarrow> file_contexts \<Rightarrow> file_contexts" where
  "setEvalSourceContext resolve file ctx contexts = contexts(resolve file \<mapsto> ctx)"

definition evalSourceContext :: "(js_string \<Rightarrow> js_string) \<Rightarrow> file_contexts \<Rightarrow> js_string \<Rightarrow> 32 word option" where
  "evalSourceContext resolve contexts file = contexts (resolve file)"

definition hasStaticModifier :: "node \<Rightarrow> bool" where
  "hasStaticModifier n = hasModifier n StaticKeyword"

definition classHasHeritage :: "node \<Rightarrow> bool" where
  "classHasHeritage n = list_ex (\<lambda>c. node_operator c = ExtendsKeyword) (children n ''heritageClauses'')"

text \<open>A member whose own key the walk leaves by.\<close>

definition leaves_by_name :: "node \<Rightarrow> node \<Rightarrow> bool" where
  "leaves_by_name p c \<longleftrightarrow>
     (isFunctionLike p \<or> is_kind PropertyDeclaration p \<or> is_elem PropertyAssignment p) \<and> child p ''name'' = Some c"

definition derived_constructor :: "node \<Rightarrow> node list \<Rightarrow> bool" where
  "derived_constructor p ps \<longleftrightarrow> isClassLike (parent_node ps) \<and> classHasHeritage (parent_node ps)"

fun direct_eval_walk :: "32 word option \<Rightarrow> node \<Rightarrow> node list \<Rightarrow> 32 word" where
  "direct_eval_walk own c [] = 0"
| "direct_eval_walk own c (p # ps) =
     (if is_expr ArrowFunction p then direct_eval_walk own p ps
      else if leaves_by_name p c then direct_eval_walk own p ps
      else if is_kind PropertyDeclaration p then EVAL_CONTEXT_FIELD_INITIALIZER OR EVAL_CONTEXT_SUPER_PROPERTY
      else if is_kind ClassStaticBlockDeclaration p then EVAL_CONTEXT_FIELD_INITIALIZER OR EVAL_CONTEXT_SUPER_PROPERTY
      else if is_elem Constructor p \<and> \<not> hasStaticModifier p
      then EVAL_CONTEXT_SUPER_PROPERTY OR (if derived_constructor p ps then EVAL_CONTEXT_SUPER_CALL else 0)
      else if is_elem MethodDeclaration p \<or> is_elem GetAccessor p \<or> is_elem SetAccessor p \<or> is_elem Constructor p
      then EVAL_CONTEXT_SUPER_PROPERTY
      else if isFunctionLike p then 0
      else if is_kind SourceFile p then (case own of Some ctx \<Rightarrow> ctx | None \<Rightarrow> 0)
      else direct_eval_walk own p ps)"

text \<open>\<open>own\<close> is the recorded context of the source file.\<close>

definition directEvalContext :: "32 word option \<Rightarrow> located \<Rightarrow> 32 word" where
  "directEvalContext own x = direct_eval_walk own (fst x) (snd x)"

section \<open>Names and lengths of functions\<close>

definition is_this_parameter :: "node \<Rightarrow> bool" where
  "is_this_parameter p \<longleftrightarrow> isIdentifier (field p ''name'') \<and> node_text (field p ''name'') = ''this''"

fun argument_count :: "node list \<Rightarrow> nat" where
  "argument_count [] = 0"
| "argument_count (p # ps) =
     (if is_this_parameter p then argument_count ps
      else if has_child p ''initializer'' \<or> has_child p ''dotDotDotToken'' then 0
      else Suc (argument_count ps))"

definition expectedArgumentCount :: "node \<Rightarrow> nat" where
  "expectedArgumentCount n = argument_count (children n ''parameters'')"

definition NAME_EVALUATING_ASSIGNMENTS :: "syntax_kind list" where
  "NAME_EVALUATING_ASSIGNMENTS = [Token EqualsToken, Token BarBarEqualsToken, Token AmpersandAmpersandEqualsToken,
     Token QuestionQuestionEqualsToken]"

datatype callable_key = KeyText string | KeyName node

record callable_name_input =
  input_key :: callable_key
  input_definition :: "node option"
  input_prefix :: "string option"

definition key_text :: "string \<Rightarrow> callable_name_input" where
  "key_text t = \<lparr>input_key = KeyText t, input_definition = None, input_prefix = None\<rparr>"

definition property_key :: "node option \<Rightarrow> string option" where
  "property_key name = (case name of None \<Rightarrow> None | Some n \<Rightarrow> literalPropertyKey n)"

definition own_name :: "node \<Rightarrow> string \<Rightarrow> string" where
  "own_name n otherwise = (case child n ''name'' of Some name \<Rightarrow> node_text name | None \<Rightarrow> otherwise)"

text \<open>The name of a declaration that an identifier resolves to.\<close>

definition declared_name :: "node \<Rightarrow> node \<Rightarrow> string" where
  "declared_name i d =
     (if is_stmt FunctionDeclaration d \<or> is_stmt ClassDeclaration d
      then own_name d (if hasModifier d DefaultKeyword then ''default'' else node_text i)
      else if is_elem VariableDeclaration d \<and> isIdentifier (field d ''name'') then
        (case child d ''initializer'' of
           Some e \<Rightarrow> (let v = transparent e
             in if (is_expr FunctionExpression v \<or> is_expr ClassExpression v) \<and> has_child v ''name''
                then node_text (field v ''name'') else node_text (field d ''name''))
         | None \<Rightarrow> node_text (field d ''name''))
      else if is_stmt ExportAssignment d then ''default''
      else node_text i)"

definition anonymous_name :: "node \<Rightarrow> node list \<Rightarrow> callable_name_input" where
  "anonymous_name current ancs = (case dropWhile is_transparent ancs of
       [] \<Rightarrow> key_text []
     | p # _ \<Rightarrow>
         if (is_elem VariableDeclaration p \<or> is_kind Parameter p \<or> is_elem BindingElement p) \<and> isIdentifier (field p ''name'')
         then key_text (node_text (field p ''name''))
         else if is_elem ShorthandPropertyAssignment p then key_text (node_text (field p ''name''))
         else if is_elem PropertyAssignment p \<and> \<not> is_elem ComputedPropertyName (field p ''name'') \<and>
                 literalPropertyKey (field p ''name'') = Some ''__proto__'' then key_text []
         else if is_elem PropertyAssignment p \<or> is_kind PropertyDeclaration p
         then \<lparr>input_key = KeyName (field p ''name''), input_definition = Some p, input_prefix = None\<rparr>
         else if is_expr BinaryExpression p \<and> node_kind (field p ''operatorToken'') \<in> set NAME_EVALUATING_ASSIGNMENTS \<and>
                 isIdentifier (field p ''left'') then key_text (node_text (field p ''left''))
         else if is_stmt ExportAssignment p \<and> node_operator p \<noteq> EqualsToken then key_text ''default''
         else key_text [])"

definition callableNameInput :: "located \<Rightarrow> (node \<Rightarrow> node option) \<Rightarrow> callable_name_input" where
  "callableNameInput x declarationFor =
     (let current = transparent (fst x)
      in if isIdentifier current then
           key_text (case declarationFor current of Some d \<Rightarrow> declared_name current d | None \<Rightarrow> node_text current)
         else if is_stmt FunctionDeclaration current \<or> is_stmt ClassDeclaration current
         then key_text (own_name current (if hasModifier current DefaultKeyword then ''default'' else []))
         else if (is_expr FunctionExpression current \<or> is_expr ClassExpression current) \<and> has_child current ''name''
         then key_text (node_text (field current ''name''))
         else if is_elem MethodDeclaration current \<or> is_elem GetAccessor current \<or> is_elem SetAccessor current
         then \<lparr>input_key = KeyName (field current ''name''), input_definition = Some current,
               input_prefix = if is_elem GetAccessor current then Some ''get'' else if is_elem SetAccessor current then Some ''set'' else None\<rparr>
         else if is_expr FunctionExpression current \<or> is_expr ArrowFunction current \<or> is_expr ClassExpression current
         then anonymous_name current (snd x)
         else key_text [])"

definition callableName :: "located \<Rightarrow> (node \<Rightarrow> node \<Rightarrow> string option) \<Rightarrow> (node \<Rightarrow> node option) \<Rightarrow> string option" where
  "callableName x propertyName declarationFor =
     (let input = callableNameInput x declarationFor;
          key = (case input_key input of KeyText t \<Rightarrow> Some t
                 | KeyName name \<Rightarrow> propertyName name (case input_definition input of Some d \<Rightarrow> d | None \<Rightarrow> missing_node))
      in map_option (\<lambda>k. case input_prefix input of Some p \<Rightarrow> p @ '' '' @ k | None \<Rightarrow> k) key)"

section \<open>Function definitions\<close>

definition isFunctionDefinition :: "node \<Rightarrow> bool" where
  "isFunctionDefinition n \<longleftrightarrow> node_kind n \<in> set [Statement FunctionDeclaration, Expression FunctionExpression, Expression ArrowFunction,
     Element MethodDeclaration, Element Constructor, Element GetAccessor, Element SetAccessor]"

definition parameterEntries :: "node \<Rightarrow> name_entry list" where
  "parameterEntries n = concat (map (\<lambda>p. bindingNameEntries (field p ''name'')) (children n ''parameters''))"

definition isSimpleParameterList :: "node \<Rightarrow> bool" where
  "isSimpleParameterList n = list_all (\<lambda>p. isIdentifier (field p ''name'') \<and> \<not> has_child p ''initializer'' \<and> \<not> has_child p ''dotDotDotToken'')
     (children n ''parameters'')"

definition containsUseStrict :: "function_source \<Rightarrow> node option \<Rightarrow> bool" where
  "containsUseStrict env body = (case body of None \<Rightarrow> False
     | Some b \<Rightarrow> is_stmt Block b \<and> ecmaDirectivePrologueHasUseStrict (control env) (children b ''statements''))"

fun strict_walk :: "function_source \<Rightarrow> node list \<Rightarrow> bool" where
  "strict_walk env [] = False"
| "strict_walk env (n # ns) =
     (if isClassLike n then True
      else if isFunctionDefinition n \<and> containsUseStrict env (child n ''body'') then True
      else if is_kind SourceFile n
      then module_goal (control env) \<or> ecmaDirectivePrologueHasUseStrict (control env) (children n ''statements'')
      else strict_walk env ns)"

definition isStrictCodeContext :: "function_source \<Rightarrow> located \<Rightarrow> bool" where
  "isStrictCodeContext env x = strict_walk env (fst x # snd x)"

function suspension_loop :: "node \<Rightarrow> node list \<Rightarrow> node option" where
  "suspension_loop parameter [] = None"
| "suspension_loop parameter (n # stack) =
     (if is_expr AwaitExpression n \<or> is_expr YieldExpression n then Some n
      else if n \<noteq> parameter \<and> (isFunctionLike n \<or> isClassLike n) then suspension_loop parameter stack
      else suspension_loop parameter (forEachChild n @ stack))"
  by pat_completeness auto

termination
  by (relation "measure (\<lambda>(parameter, stack). sum_list (map size stack))") (use forEachChild_sum in auto)

definition parameterContainsSuspendingExpression :: "node \<Rightarrow> node option" where
  "parameterContainsSuspendingExpression parameter = suspension_loop parameter [parameter]"

definition is_line_terminator :: "code_unit \<Rightarrow> bool" where
  "is_line_terminator u \<longleftrightarrow> u \<in> set [0x0a, 0x0d, 0x2028, 0x2029]"

definition slice_text :: "js_string \<Rightarrow> nat \<Rightarrow> nat \<Rightarrow> js_string" where
  "slice_text s i j = take (j - i) (drop i s)"

definition arrowHasLineTerminatorBeforeToken :: "function_source \<Rightarrow> node \<Rightarrow> bool" where
  "arrowHasLineTerminatorBeforeToken env n =
     (let arrowStart = node_start env (field n ''equalsGreaterThanToken'')
      in case (if charCodeAt (source_text env) (node_start env n) = Some 0x28
               then scan_close_paren env (parameters_end env n) (arrowStart - parameters_end env n)
               else Some (parameters_end env n)) of
           None \<Rightarrow> False
         | Some boundary \<Rightarrow> list_ex is_line_terminator (slice_text (source_text env) boundary arrowStart))"

definition isJavaScriptSourceFile :: "js_string \<Rightarrow> bool" where
  "isJavaScriptSourceFile f \<longleftrightarrow> list_ex (ends_with (map fold_unit f))
     [js ''.js'', js ''.cjs'', js ''.mjs'', js ''.jsx'', js ''.cjsx'', js ''.mjsx'']"

definition directBodyLexicalNames :: "node option \<Rightarrow> name_entry list" where
  "directBodyLexicalNames body = (case body of None \<Rightarrow> []
     | Some b \<Rightarrow> if is_stmt Block b then statementListLexicallyDeclaredNames (children b ''statements'') False else [])"

subsection \<open>The checks of one definition\<close>

function super_loop :: "node list \<Rightarrow> static_failure option" where
  "super_loop [] = None"
| "super_loop (n # stack) =
     (if node_kind n = SuperKeyword
      then Some (fail_at n (js ''super is not permitted in an ordinary function definition''))
      else if isFunctionLike n \<and> \<not> is_expr ArrowFunction n \<or> is_kind ClassStaticBlockDeclaration n \<or> is_kind PropertyDeclaration n
      then super_loop stack
      else super_loop (forEachChild n @ stack))"
  by pat_completeness auto

termination
  by (relation "measure (\<lambda>stack. sum_list (map size stack))") (use forEachChild_sum in auto)

definition check_ordinary_super :: "node \<Rightarrow> static_failure option" where
  "check_ordinary_super n =
     (if is_stmt FunctionDeclaration n \<or> is_expr FunctionExpression n
      then super_loop (rev (children n ''parameters'' @ (case child n ''body'' of Some b \<Rightarrow> [b] | None \<Rightarrow> []))) else None)"

definition check_accessor :: "node \<Rightarrow> static_failure option" where
  "check_accessor n = (let valueParameters = filter (\<lambda>p. \<not> is_this_parameter p) (children n ''parameters'')
     in if is_elem GetAccessor n \<and> valueParameters \<noteq> []
        then Some (fail_at (hd valueParameters) (js ''a getter cannot have parameters''))
        else if is_elem SetAccessor n \<and> (length valueParameters \<noteq> 1 \<or> has_child (hd valueParameters) ''dotDotDotToken'')
        then Some (fail_at (case valueParameters of [] \<Rightarrow> n | p # _ \<Rightarrow> p) (js ''a setter must have exactly one parameter''))
        else None)"

fun rest_parameters :: "node \<Rightarrow> bool \<Rightarrow> node list \<Rightarrow> static_failure option" where
  "rest_parameters n comma [] = None"
| "rest_parameters n comma (p # ps) =
     (if has_child p ''dotDotDotToken'' \<and> has_child p ''initializer''
      then Some (fail_at (field p ''initializer'') (js ''a rest parameter cannot have an initializer''))
      else if has_child p ''dotDotDotToken'' \<and> (ps \<noteq> [] \<or> comma)
      then Some (fail_at n (js ''a rest parameter must be the final parameter and cannot have a trailing comma''))
      else rest_parameters n comma ps)"

definition check_use_strict :: "function_source \<Rightarrow> node \<Rightarrow> static_failure option" where
  "check_use_strict env n =
     (if containsUseStrict env (child n ''body'') \<and> \<not> isSimpleParameterList n
      then Some (fail_at (field n ''body'') (js ''a use strict directive is not permitted with a non-simple parameter list'')) else None)"

definition check_restricted :: "function_source \<Rightarrow> located \<Rightarrow> static_failure option" where
  "check_restricted env x =
     (if isStrictCodeContext env x
      then map_option (\<lambda>e. fail_at (entry_node e) (quoted ''binding identifier '' (entry_name e) '' is not permitted in strict mode''))
        (List.find (\<lambda>e. entry_name e \<in> set strictModeBindingIdentifierNames) (parameterEntries (fst x)))
      else None)"

definition uniqueParameters :: "function_source \<Rightarrow> located \<Rightarrow> bool" where
  "uniqueParameters env x \<longleftrightarrow> isStrictCodeContext env x \<or> \<not> isSimpleParameterList (fst x) \<or>
     \<not> (is_stmt FunctionDeclaration (fst x) \<or> is_expr FunctionExpression (fst x))"

fun duplicate_parameters :: "node \<Rightarrow> bool \<Rightarrow> string list \<Rightarrow> name_entry list \<Rightarrow> static_failure option" where
  "duplicate_parameters n unique seen [] = None"
| "duplicate_parameters n unique seen (e # es) =
     (if unique \<and> entry_name e \<in> set seen
      then Some (fail_at (entry_node e) (quoted ((if is_expr ArrowFunction n then ''ArrowFormalParameters'' else ''FormalParameters'') @
             '' BoundNames contains duplicate '') (entry_name e) []))
      else duplicate_parameters n unique (entry_name e # seen) es)"

definition check_lexical_conflict :: "node \<Rightarrow> static_failure option" where
  "check_lexical_conflict n = (let lexicalNames = map entry_name (directBodyLexicalNames (child n ''body''))
     in map_option (\<lambda>e. fail_at (entry_node e) (quoted ((if is_expr ArrowFunction n then ''arrow'' else ''function'') @ '' parameter '')
            (entry_name e) '' conflicts with a body lexical declaration''))
          (List.find (\<lambda>e. entry_name e \<in> set lexicalNames) (parameterEntries n)))"

definition check_arrow :: "function_source \<Rightarrow> node \<Rightarrow> static_failure option" where
  "check_arrow env n =
     (if \<not> is_expr ArrowFunction n then None
      else if isJavaScriptSourceFile (file_name (control env)) \<and> arrowHasLineTerminatorBeforeToken env n
      then Some (fail_at (field n ''equalsGreaterThanToken'') (js ''a line terminator is not permitted before an arrow token''))
      else first_failure (\<lambda>p. map_option (\<lambda>s. fail_at s (if is_expr AwaitExpression s then js ''ArrowParameters contains AwaitExpression''
               else js ''ArrowParameters contains YieldExpression'')) (parameterContainsSuspendingExpression p))
             (children n ''parameters''))"

definition functionLikeFailure :: "function_source \<Rightarrow> located \<Rightarrow> static_failure option" where
  "functionLikeFailure env x = (let n = fst x
     in first_of [check_ordinary_super n, check_accessor n,
          rest_parameters n (trailing_comma (control env) n ''parameters'') (children n ''parameters''),
          check_use_strict env n, check_restricted env x,
          duplicate_parameters n (uniqueParameters env x) [] (parameterEntries n), check_lexical_conflict n, check_arrow env n])"

section \<open>Positions of nodes\<close>

text \<open>The loop of \<open>isAssignmentTargetPosition\<close>; \<open>moved\<close> holds when the current node is no longer the first one.\<close>

fun target_position :: "bool \<Rightarrow> node \<Rightarrow> node list \<Rightarrow> bool" where
  "target_position moved c [] = False"
| "target_position moved c (p # ps) =
     (if is_kind (Wrapper ParenthesizedExpression) p then target_position True p ps
      else if is_expr BinaryExpression p
      then child p ''left'' = Some c \<and> Module_Static_Semantics.is_assignment_token (node_kind (field p ''operatorToken''))
      else if is_expr PrefixUnaryExpression p \<or> is_expr PostfixUnaryExpression p
      then \<not> moved \<and> (node_operator p = PlusPlusToken \<or> node_operator p = MinusMinusToken)
      else if is_stmt ForInStatement p \<or> is_stmt ForOfStatement p then child p ''initializer'' = Some c
      else if is_expr ArrayLiteralExpression p \<or> is_expr SpreadElement p then target_position True p ps
      else if is_elem PropertyAssignment p then
        child p ''initializer'' = Some c \<and> (case ps of [] \<Rightarrow> False | q # qs \<Rightarrow> target_position True q qs)
      else if is_elem ShorthandPropertyAssignment p then
        child p ''name'' = Some c \<and> (case ps of [] \<Rightarrow> False | q # qs \<Rightarrow> target_position True q qs)
      else if is_elem SpreadAssignment p then (case ps of [] \<Rightarrow> False | q # qs \<Rightarrow> target_position True q qs)
      else False)"

definition isAssignmentTargetPosition :: "located \<Rightarrow> bool" where
  "isAssignmentTargetPosition x = target_position False (fst x) (snd x)"

definition isDeclaredName :: "located \<Rightarrow> bool" where
  "isDeclaredName x = (let parent = parent_node (snd x); named = (\<lambda>f. child parent f = Some (fst x))
     in (is_elem VariableDeclaration parent \<or> is_kind Parameter parent \<or> is_elem BindingElement parent \<or>
         is_stmt FunctionDeclaration parent \<or> is_expr FunctionExpression parent \<or> isClassLike parent) \<and> named ''name'' \<or>
        is_stmt LabeledStatement parent \<and> named ''label'' \<or>
        (is_stmt BreakStatement parent \<or> is_stmt ContinueStatement parent) \<and> named ''label'')"

section \<open>Object literals and classes\<close>

definition member_modifier_failure :: "function_source \<Rightarrow> node \<Rightarrow> static_failure option" where
  "member_modifier_failure env m =
     map_option (\<lambda>d. fail_at d (if is_kind Decorator d then js ''a decorator is not permitted on an object literal member''
         else quoted [] (token_string env (node_kind d)) '' is not permitted on an object literal member''))
       (List.find (\<lambda>d. \<not> (is_elem MethodDeclaration m \<and> node_kind d = Token AsyncKeyword)) (children m ''modifiers''))"

fun object_members :: "function_source \<Rightarrow> bool \<Rightarrow> nat \<Rightarrow> node list \<Rightarrow> static_failure option" where
  "object_members env pattern protoSetters [] = None"
| "object_members env pattern protoSetters (m # ms) =
     (case member_modifier_failure env m of Some e \<Rightarrow> Some e
      | None \<Rightarrow>
          if pattern then object_members env pattern protoSetters ms
          else if is_elem ShorthandPropertyAssignment m \<and> has_child m ''objectAssignmentInitializer''
          then Some (fail_at m (js ''an initialized shorthand property is only permitted in an assignment pattern''))
          else if is_elem PropertyAssignment m \<and> \<not> is_elem ComputedPropertyName (field m ''name'') \<and>
                  literalPropertyKey (field m ''name'') = Some ''__proto__''
          then if protoSetters \<ge> 1 then Some (fail_at m (js ''duplicate __proto__ property in an object literal''))
               else object_members env pattern (protoSetters + 1) ms
          else object_members env pattern protoSetters ms)"

definition objectLiteralFailure :: "function_source \<Rightarrow> node \<Rightarrow> bool \<Rightarrow> static_failure option" where
  "objectLiteralFailure env n pattern = object_members env pattern 0 (children n ''properties'')"

fun class_members :: "nat \<Rightarrow> node list \<Rightarrow> static_failure option" where
  "class_members constructors [] = None"
| "class_members constructors (m # ms) =
     (let isStatic = hasStaticModifier m; name = property_key (child m ''name'')
      in if is_elem Constructor m then
           if hasModifier m (Token AsyncKeyword) then Some (fail_at m (js ''the class constructor cannot be a special method''))
           else if has_child m ''body'' \<and> constructors \<ge> 1 then Some (fail_at m (js ''a class has at most one constructor''))
           else class_members (if has_child m ''body'' then constructors + 1 else constructors) ms
         else if is_elem MethodDeclaration m \<or> is_elem GetAccessor m \<or> is_elem SetAccessor m then
           if \<not> isStatic \<and> name = Some ''constructor''
           then Some (fail_at (field m ''name'') (js ''the class constructor cannot be a special method''))
           else if isStatic \<and> name = Some ''prototype''
           then Some (fail_at (field m ''name'') (js ''a static method cannot be named prototype''))
           else class_members constructors ms
         else if is_kind PropertyDeclaration m \<and> name = Some ''constructor''
         then Some (fail_at (field m ''name'') (js ''a class field cannot be named constructor''))
         else if is_kind PropertyDeclaration m \<and> isStatic \<and> name = Some ''prototype''
         then Some (fail_at (field m ''name'') (js ''a static field cannot be named prototype''))
         else class_members constructors ms)"

definition classElementFailure :: "node \<Rightarrow> static_failure option" where
  "classElementFailure n = class_members 0 (children n ''members'')"

section \<open>The checks of a node\<close>

definition check_meta_property :: "function_source \<Rightarrow> node \<Rightarrow> static_failure option" where
  "check_meta_property env n =
     (if is_expr MetaProperty n \<and>
         token_text (control env) (field n ''name'') \<noteq> (if node_operator n = ImportToken then ''meta'' else ''target'')
      then Some (fail_at n (js ''MetaProperty requires its literal token spelling''))
      else if \<not> module_goal (control env) \<and> is_expr MetaProperty n \<and> node_operator n = ImportToken
      then Some (fail_at n (js ''import.meta requires the Module parse goal''))
      else None)"

definition class_heritage_expression :: "located \<Rightarrow> bool" where
  "class_heritage_expression x = (let n = fst x; parent = parent_node (snd x)
     in is_kind ExpressionWithTypeArguments n \<and> is_kind HeritageClause parent \<and> node_operator parent = ExtendsKeyword \<and>
        isClassLike (parent_node (tl (snd x))) \<and> children n ''typeArguments'' = [])"

definition check_typescript :: "function_source \<Rightarrow> located \<Rightarrow> static_failure option" where
  "check_typescript env x = (let n = fst x
     in if isJavaScriptSourceFile (file_name (control env)) \<and>
          (isTypeNode n \<and> \<not> class_heritage_expression x \<or> is_kind TypeParameter n \<or>
           node_kind n \<in> set [Wrapper AsExpression, Wrapper TypeAssertionExpression, Wrapper SatisfiesExpression, Wrapper NonNullExpression] \<or>
           is_kind InterfaceDeclaration n \<or> is_kind TypeAliasDeclaration n \<or> is_kind EnumDeclaration n \<or> is_kind ImportEqualsDeclaration n \<or>
           is_kind Parameter n \<and> (has_child n ''questionToken'' \<or> is_this_parameter n))
        then Some (fail_at n (js ''TypeScript syntax is not permitted in ECMAScript source'')) else None)"

definition forbidden_identifier :: "located \<Rightarrow> static_failure option" where
  "forbidden_identifier x = Some (fail_at (fst x) (quoted ''identifier '' (node_text (fst x)) '' is not permitted in this grammar context''))"

definition expressionName :: "located \<Rightarrow> node option" where
  "expressionName x = (let parent = parent_node (snd x)
     in if isIdentifier (fst x) \<and> is_expr FunctionExpression parent \<and> child parent ''name'' = Some (fst x) then Some parent else None)"

definition check_contextual :: "function_source \<Rightarrow> located \<Rightarrow> static_failure option" where
  "check_contextual env x = (let n = fst x
     in if isIdentifier n \<and> node_text n = ''await'' \<and>
          (module_goal (control env) \<or> has_flag n flag_AwaitContext \<and>
             (case expressionName x of None \<Rightarrow> True | Some f \<Rightarrow> hasModifier f (Token AsyncKeyword))) \<and>
          isContextualGrammarIdentifier x
        then forbidden_identifier x
        else if isIdentifier n \<and> node_text n = ''yield'' \<and> has_flag n flag_YieldContext \<and>
          (case expressionName x of None \<Rightarrow> True | Some f \<Rightarrow> has_child f ''asteriskToken'') \<and> isContextualGrammarIdentifier x
        then forbidden_identifier x else None)"

fun arrow_owner :: "bool \<Rightarrow> node \<Rightarrow> node list \<Rightarrow> bool \<times> node option" where
  "arrow_owner inParameters c [] = (inParameters, None)"
| "arrow_owner inParameters c (p # ps) =
     (if is_expr ArrowFunction p then
        if child p ''body'' = Some c then (inParameters, Some p)
        else if hasModifier p (Token AsyncKeyword) then (True, Some p)
        else arrow_owner True p ps
      else if isFunctionLike p \<or> is_kind ClassStaticBlockDeclaration p \<or> is_kind SourceFile p then (inParameters, Some p)
      else arrow_owner inParameters p ps)"

definition check_arrow_parameter :: "function_source \<Rightarrow> located \<Rightarrow> static_failure option" where
  "check_arrow_parameter env x = (let n = fst x
     in if isIdentifier n \<and> (node_text n = ''yield'' \<or> node_text n = ''await'') \<and> isContextualGrammarIdentifier x then
          (case arrow_owner False n (snd x) of
             (True, Some owner) \<Rightarrow>
               let generator = (isFunctionLike owner \<and> \<not> is_expr ArrowFunction owner \<and> has_child owner ''asteriskToken'');
                   asyncOwner = (isFunctionLike owner \<and> hasModifier owner (Token AsyncKeyword))
               in if node_text n = ''yield'' \<and> generator then forbidden_identifier x
                  else if node_text n = ''await'' \<and> (asyncOwner \<or> is_kind ClassStaticBlockDeclaration owner \<or>
                     is_kind SourceFile owner \<and> module_goal (control env)) then forbidden_identifier x
                  else None
           | _ \<Rightarrow> None)
        else None)"

text \<open>The walk from an identifier \<open>arguments\<close>; the result is the message.\<close>

fun arguments_walk :: "32 word option \<Rightarrow> node \<Rightarrow> node list \<Rightarrow> string option" where
  "arguments_walk evalContext c [] = None"
| "arguments_walk evalContext c (p # ps) =
     (if is_kind ClassStaticBlockDeclaration p then Some '' is not permitted in a class static block''
      else if is_kind PropertyDeclaration p then
        if child p ''initializer'' = Some c then Some '' is not permitted in a class field initializer''
        else arguments_walk evalContext p ps
      else if isFunctionLike p \<and> \<not> is_expr ArrowFunction p then
        if child p ''name'' = Some c then arguments_walk evalContext p ps else None
      else if is_kind SourceFile p then
        (case evalContext of
           Some ctx \<Rightarrow> if ctx AND EVAL_CONTEXT_FIELD_INITIALIZER \<noteq> 0
             then Some '' is not permitted in eval code of a class field initializer or static block'' else None
         | None \<Rightarrow> None)
      else arguments_walk evalContext p ps)"

definition check_arguments :: "32 word option \<Rightarrow> located \<Rightarrow> static_failure option" where
  "check_arguments evalContext x =
     (if isIdentifier (fst x) \<and> node_text (fst x) = ''arguments'' \<and> isContextualGrammarIdentifier x \<and> \<not> isDeclaredName x
      then map_option (\<lambda>m. fail_at (fst x) (quoted [] ''arguments'' m)) (arguments_walk evalContext (fst x) (snd x))
      else None)"

subsection \<open>The placement of \<open>super\<close>\<close>

text \<open>The owner with the ancestors of the owner.\<close>

fun super_owner :: "node \<Rightarrow> node list \<Rightarrow> (node \<times> node list) option" where
  "super_owner c [] = None"
| "super_owner c (p # ps) =
     (if is_expr ArrowFunction p then super_owner p ps
      else if leaves_by_name p c then super_owner p ps
      else if isFunctionLike p \<or> is_kind ClassStaticBlockDeclaration p \<or> is_kind PropertyDeclaration p \<or> is_kind SourceFile p
      then Some (p, ps)
      else super_owner p ps)"

definition context_admits :: "32 word option \<Rightarrow> 32 word \<Rightarrow> bool" where
  "context_admits evalContext flag = (case evalContext of Some ctx \<Rightarrow> ctx AND flag \<noteq> 0 | None \<Rightarrow> False)"

definition super_allowed :: "32 word option \<Rightarrow> located \<Rightarrow> bool \<times> bool" where
  "super_allowed evalContext x = (case super_owner (fst x) (snd x) of
       None \<Rightarrow> (context_admits evalContext EVAL_CONTEXT_SUPER_PROPERTY, context_admits evalContext EVAL_CONTEXT_SUPER_CALL)
     | Some (owner, outer) \<Rightarrow>
         if is_kind SourceFile owner
         then (context_admits evalContext EVAL_CONTEXT_SUPER_PROPERTY, context_admits evalContext EVAL_CONTEXT_SUPER_CALL)
         else if is_elem Constructor owner \<and> \<not> hasStaticModifier owner then (True, derived_constructor owner outer)
         else if is_elem MethodDeclaration owner \<or> is_elem GetAccessor owner \<or> is_elem SetAccessor owner \<or> is_elem Constructor owner \<or>
            is_kind ClassStaticBlockDeclaration owner \<or> is_kind PropertyDeclaration owner then (True, False)
         else (False, False))"

definition is_super_call :: "located \<Rightarrow> bool" where
  "is_super_call x \<longleftrightarrow> is_expr CallExpression (parent_node (snd x)) \<and> child (parent_node (snd x)) ''expression'' = Some (fst x)"

definition check_super :: "32 word option \<Rightarrow> located \<Rightarrow> static_failure option" where
  "check_super evalContext x =
     (if node_kind (fst x) \<noteq> SuperKeyword then None
      else case super_allowed evalContext x of (propertyAllowed, callAllowed) \<Rightarrow>
        if (if is_super_call x then \<not> callAllowed else \<not> propertyAllowed)
        then Some (fail_at (fst x) (if is_super_call x then js ''super() is only permitted in a derived class constructor''
          else js ''super property access requires a method, accessor, field initializer or static block''))
        else None)"

subsection \<open>Literals, suspensions and targets\<close>

definition check_elements :: "function_source \<Rightarrow> located \<Rightarrow> static_failure option" where
  "check_elements env x = (case (if isClassLike (fst x) then classElementFailure (fst x) else None) of
       Some e \<Rightarrow> Some e
     | None \<Rightarrow> if is_expr ObjectLiteralExpression (fst x)
         then objectLiteralFailure env (fst x) (isAssignmentTargetPosition x) else None)"

definition check_suspension :: "node \<Rightarrow> bool \<Rightarrow> bool \<Rightarrow> static_failure option" where
  "check_suspension n permitAwait permitYield =
     (if is_expr AwaitExpression n \<and> \<not> permitAwait
      then Some (fail_at n (js ''AwaitExpression is not permitted in this grammar context''))
      else if is_expr YieldExpression n \<and> \<not> permitYield
      then Some (fail_at n (js ''YieldExpression is not permitted in this grammar context''))
      else None)"

definition is_pattern_literal :: "node \<Rightarrow> bool" where
  "is_pattern_literal n \<longleftrightarrow> is_expr ObjectLiteralExpression n \<or> is_expr ArrayLiteralExpression n"

definition check_targets :: "function_source \<Rightarrow> located \<Rightarrow> static_failure option" where
  "check_targets env x = (let n = fst x
     in if isIdentifier n \<and> node_text n \<in> set strictModeBindingIdentifierNames \<and> isAssignmentTargetPosition x \<and> isStrictCodeContext env x
        then Some (fail_at n (quoted ''assignment to '' (node_text n) '' is not permitted in strict mode''))
        else if is_pattern_literal n \<and> is_kind (Wrapper ParenthesizedExpression) (parent_node (snd x)) \<and>
           isAssignmentTargetPosition (parent_node (snd x), tl (snd x))
        then Some (fail_at n (js ''a parenthesized object or array literal is not a valid assignment target''))
        else if is_elem SpreadAssignment n \<and> isAssignmentTargetPosition (parent_node (snd x), tl (snd x)) \<and>
           is_pattern_literal (unwrapTransparentExpression (\<lambda>e. \<not> is_kind (Wrapper ParenthesizedExpression) e) (field n ''expression''))
        then Some (fail_at n (js ''a rest property target must be a simple assignment target''))
        else None)"

definition has_function_body :: "node \<Rightarrow> bool" where
  "has_function_body n \<longleftrightarrow> isFunctionDefinition n \<and> has_child n ''body''"

definition node_checks :: "function_source \<Rightarrow> 32 word option \<Rightarrow> located \<Rightarrow> bool \<Rightarrow> bool \<Rightarrow> static_failure option list" where
  "node_checks env evalContext x permitAwait permitYield =
     [check_meta_property env (fst x), check_typescript env x, check_contextual env x, check_arrow_parameter env x,
      check_arguments evalContext x, check_super evalContext x, check_elements env x,
      check_suspension (fst x) permitAwait permitYield, check_targets env x,
      if has_function_body (fst x) then functionLikeFailure env x else None]"

section \<open>The walk\<close>

type_synonym function_frame = "located \<times> bool \<times> bool"

definition child_allows :: "node \<Rightarrow> bool \<Rightarrow> bool \<Rightarrow> node \<Rightarrow> bool \<times> bool" where
  "child_allows n permitAwait permitYield c =
     (if has_function_body n then
        if child n ''body'' = Some c then (hasModifier n (Token AsyncKeyword), has_child n ''asteriskToken'')
        else if is_kind Parameter c then (False, False) else (permitAwait, permitYield)
      else if is_kind ClassStaticBlockDeclaration n then (False, False)
      else (permitAwait, permitYield))"

definition child_frames :: "function_frame \<Rightarrow> function_frame list" where
  "child_frames f = (case f of (x, permitAwait, permitYield) \<Rightarrow>
     map (\<lambda>c. (c, child_allows (fst x) permitAwait permitYield (fst c))) (located_children x))"

lemma child_frames_nodes: "map fst (child_frames f) = located_children (fst f)"
  by (cases f) (simp add: child_frames_def comp_def)

function function_loop :: "function_source \<Rightarrow> 32 word option \<Rightarrow> function_frame list \<Rightarrow> static_failure option" where
  "function_loop env evalContext [] = None"
| "function_loop env evalContext (f # stack) =
     (case f of (x, permitAwait, permitYield) \<Rightarrow>
        case first_of (node_checks env evalContext x permitAwait permitYield) of
          Some e \<Rightarrow> Some e
        | None \<Rightarrow> function_loop env evalContext (child_frames f @ stack))"
  by pat_completeness auto

termination
proof (relation "measure (\<lambda>(env, evalContext, stack). stack_size (map fst stack))", goal_cases)
  case (2 env evalContext f stack x y permitAwait permitYield)
  then show ?case using stack_size_preorder [of "fst f" "map fst stack"] by (simp add: child_frames_nodes)
qed simp

definition earlyFunctionStaticSemanticsFailure :: "function_source \<Rightarrow> 32 word option \<Rightarrow> node \<Rightarrow> static_failure option" where
  "earlyFunctionStaticSemanticsFailure env evalContext source =
     function_loop env evalContext [((source, []), module_goal (control env), False)]"

section \<open>Short-circuit operators\<close>

definition logical :: "node \<Rightarrow> bool" where
  "logical n \<longleftrightarrow> is_expr BinaryExpression n \<and> node_kind (field n ''operatorToken'') \<in> {Token BarBarToken, Token AmpersandAmpersandToken}"

definition coalesce :: "node \<Rightarrow> bool" where
  "coalesce n \<longleftrightarrow> is_expr BinaryExpression n \<and> node_kind (field n ''operatorToken'') = Token QuestionQuestionToken"

definition mixed_operand :: "node \<Rightarrow> node option" where
  "mixed_operand n =
     (if coalesce n then List.find logical [field n ''left'', field n ''right'']
      else if logical n then List.find coalesce [field n ''left'', field n ''right'']
      else None)"

definition mix_step :: "function_source \<Rightarrow> node \<Rightarrow> static_failure option \<Rightarrow> static_failure option" where
  "mix_step env n found = (case (if is_expr BinaryExpression n then mixed_operand n else None) of
       None \<Rightarrow> found
     | Some mixed \<Rightarrow>
         if (case found of None \<Rightarrow> True | Some e \<Rightarrow> node_start env mixed < node_start env (failing_node e))
         then Some (fail_at (field n ''operatorToken'') (js ''Cannot mix '' @ [0x27] @ js ''??'' @ [0x27] @ js '' with '' @ [0x27] @ js ''||'' @ [0x27] @
            js '' or '' @ [0x27] @ js ''&&'' @ [0x27] @ js '' without parentheses''))
         else found)"

function mix_loop :: "function_source \<Rightarrow> node list \<Rightarrow> static_failure option \<Rightarrow> static_failure option" where
  "mix_loop env [] found = found"
| "mix_loop env (n # stack) found = mix_loop env (forEachChild n @ stack) (mix_step env n found)"
  by pat_completeness auto

termination
  by (relation "measure (\<lambda>(env, stack, found). sum_list (map size stack))") (use forEachChild_sum in auto)

definition earlyShortCircuitMixFailure :: "function_source \<Rightarrow> node \<Rightarrow> static_failure option" where
  "earlyShortCircuitMixFailure env source = mix_loop env [source] None"

section \<open>The walk in source order\<close>

text \<open>Whether \<open>await\<close> and \<open>yield\<close> are permitted at a node, from its ancestors.\<close>

fun suspension_context :: "bool \<Rightarrow> node \<Rightarrow> node list \<Rightarrow> bool \<times> bool" where
  "suspension_context goal c [] = (goal, False)"
| "suspension_context goal c (p # ps) =
     (case suspension_context goal p ps of (permitAwait, permitYield) \<Rightarrow> child_allows p permitAwait permitYield c)"

definition allows :: "bool \<Rightarrow> located \<Rightarrow> bool \<times> bool" where
  "allows goal x = suspension_context goal (fst x) (snd x)"

definition check_located :: "function_source \<Rightarrow> 32 word option \<Rightarrow> located \<Rightarrow> static_failure option" where
  "check_located env evalContext x = (case allows (module_goal (control env)) x of
     (permitAwait, permitYield) \<Rightarrow> first_of (node_checks env evalContext x permitAwait permitYield))"

lemma child_frames_allows:
  "child_frames (x, allows goal x) = map (\<lambda>c. (c, allows goal c)) (located_children x)"
  by (auto simp: child_frames_def allows_def located_children_def split: prod.split)

lemma function_loop_first:
  "function_loop env evalContext (map (\<lambda>x. (x, allows (module_goal (control env)) x)) stack) =
     first_failure (check_located env evalContext) (concat (map located_preorder stack))"
proof (induction stack rule: measure_induct_rule [where f = stack_size])
  case (less stack)
  show ?case
  proof (cases stack)
    case (Cons x rest)
    let ?a = "allows (module_goal (control env))"
    obtain w y where a: "?a x = (w, y)" by force
    have frames: "child_frames (x, w, y) = map (\<lambda>c. (c, ?a c)) (located_children x)"
      using child_frames_allows [of x "module_goal (control env)"] a by simp
    have "function_loop env evalContext (map (\<lambda>x. (x, ?a x)) (located_children x @ rest)) =
        first_failure (check_located env evalContext) (concat (map located_preorder (located_children x @ rest)))"
      using Cons stack_size_preorder [of x rest] by (intro less) simp
    moreover have "check_located env evalContext x = first_of (node_checks env evalContext x w y)"
      by (simp add: check_located_def a)
    ultimately show ?thesis
      by (simp add: Cons a frames located_preorder.simps [of x] split: option.split)
  qed simp
qed

lemma early_function_first:
  "earlyFunctionStaticSemanticsFailure env evalContext source =
     first_failure (check_located env evalContext) (located_preorder (source, []))"
  using function_loop_first [of env evalContext "[(source, [])]"]
  by (simp add: earlyFunctionStaticSemanticsFailure_def allows_def)

section \<open>Accepted functions\<close>

definition parameters_ok :: "function_source \<Rightarrow> located \<Rightarrow> bool" where
  "parameters_ok env x \<longleftrightarrow> (let n = fst x; names = map entry_name (parameterEntries n); ps = children n ''parameters''
     in (isStrictCodeContext env x \<longrightarrow> set names \<inter> set strictModeBindingIdentifierNames = {}) \<and>
        (uniqueParameters env x \<longrightarrow> distinct names) \<and>
        set names \<inter> set (map entry_name (directBodyLexicalNames (child n ''body''))) = {} \<and>
        (containsUseStrict env (child n ''body'') \<longrightarrow> isSimpleParameterList n) \<and>
        (\<forall>p\<in>set ps. has_child p ''dotDotDotToken'' \<longrightarrow> \<not> has_child p ''initializer'') \<and>
        (\<forall>p\<in>set (butlast ps). \<not> has_child p ''dotDotDotToken''))"

lemma duplicate_parameters_None:
  "duplicate_parameters n unique seen es = None \<Longrightarrow> unique \<Longrightarrow>
     distinct (map entry_name es) \<and> set (map entry_name es) \<inter> set seen = {}"
  by (induction n unique seen es rule: duplicate_parameters.induct) (auto split: if_splits)

lemma rest_parameters_Cons:
  assumes "rest_parameters n comma (p # ps) = None"
  shows "has_child p ''dotDotDotToken'' \<Longrightarrow> \<not> has_child p ''initializer''" "has_child p ''dotDotDotToken'' \<Longrightarrow> ps = []"
    "rest_parameters n comma ps = None"
  using assms by (simp_all split: if_splits)

lemma rest_parameters_initializer:
  "rest_parameters n comma ps = None \<Longrightarrow> p \<in> set ps \<Longrightarrow> has_child p ''dotDotDotToken'' \<Longrightarrow> \<not> has_child p ''initializer''"
proof (induction ps)
  case (Cons q ps)
  have "p = q \<or> p \<in> set ps" using Cons.prems(2) by simp
  with rest_parameters_Cons [OF Cons.prems(1)] Cons.IH Cons.prems(3) show ?case by blast
qed simp

lemma rest_parameters_last:
  "rest_parameters n comma ps = None \<Longrightarrow> p \<in> set (butlast ps) \<Longrightarrow> \<not> has_child p ''dotDotDotToken''"
proof (induction ps)
  case (Cons q ps)
  then have "ps \<noteq> []" by auto
  with Cons.prems(2) have "p = q \<or> p \<in> set (butlast ps)" by simp
  with rest_parameters_Cons [OF Cons.prems(1)] Cons.IH \<open>ps \<noteq> []\<close> show ?case by blast
qed simp

lemma functionLikeFailure_None:
  assumes "functionLikeFailure env x = None"
  shows "parameters_ok env x"
proof -
  from assms have checks: "rest_parameters (fst x) (trailing_comma (control env) (fst x) ''parameters'') (children (fst x) ''parameters'') = None"
    "check_use_strict env (fst x) = None" "check_restricted env x = None"
    "duplicate_parameters (fst x) (uniqueParameters env x) [] (parameterEntries (fst x)) = None"
    "check_lexical_conflict (fst x) = None"
    by (simp_all add: functionLikeFailure_def first_of_None Let_def)
  have "set (map entry_name (parameterEntries (fst x))) \<inter> set strictModeBindingIdentifierNames = {}" if "isStrictCodeContext env x"
    using checks(3) that by (auto simp: check_restricted_def find_None_iff)
  moreover have "set (map entry_name (parameterEntries (fst x))) \<inter> set (map entry_name (directBodyLexicalNames (child (fst x) ''body''))) = {}"
    using checks(5) by (fastforce simp: check_lexical_conflict_def find_None_iff Let_def)
  moreover have "containsUseStrict env (child (fst x) ''body'') \<longrightarrow> isSimpleParameterList (fst x)"
    using checks(2) by (simp add: check_use_strict_def split: if_splits)
  ultimately show ?thesis
    using rest_parameters_initializer [OF checks(1)] rest_parameters_last [OF checks(1)] duplicate_parameters_None [OF checks(4)]
    unfolding parameters_ok_def Let_def by blast
qed

definition function_node_ok :: "function_source \<Rightarrow> 32 word option \<Rightarrow> located \<Rightarrow> bool" where
  "function_node_ok env evalContext x \<longleftrightarrow>
     (is_expr AwaitExpression (fst x) \<longrightarrow> fst (allows (module_goal (control env)) x)) \<and>
     (is_expr YieldExpression (fst x) \<longrightarrow> snd (allows (module_goal (control env)) x)) \<and>
     (node_kind (fst x) = SuperKeyword \<longrightarrow>
        (if is_super_call x then snd (super_allowed evalContext x) else fst (super_allowed evalContext x))) \<and>
     (has_function_body (fst x) \<longrightarrow> parameters_ok env x)"

lemma check_located_ok:
  assumes "check_located env evalContext x = None"
  shows "function_node_ok env evalContext x"
proof -
  obtain w y where a: "allows (module_goal (control env)) x = (w, y)" by force
  from assms have "check_super evalContext x = None" "check_suspension (fst x) w y = None"
    "(if has_function_body (fst x) then functionLikeFailure env x else None) = None"
    by (simp_all add: check_located_def a first_of_None node_checks_def)
  then show ?thesis
    by (auto simp: function_node_ok_def a check_super_def check_suspension_def functionLikeFailure_None split: if_splits prod.splits)
qed

section \<open>Eval code and its call site\<close>

text \<open>The path from a node to its source file, with the children of properties that are keys or initializers.\<close>

fun eval_path :: "node \<Rightarrow> node list \<Rightarrow> bool" where
  "eval_path c [] = False"
| "eval_path c (p # ps) \<longleftrightarrow> is_kind SourceFile p \<or>
     (is_kind PropertyDeclaration p \<longrightarrow> (child p ''name'' = Some c) \<noteq> (child p ''initializer'' = Some c)) \<and> eval_path p ps"

lemma context_admits_flags [simp]:
  "context_admits (Some 0) f = False"
  "context_admits (Some (EVAL_CONTEXT_FIELD_INITIALIZER OR EVAL_CONTEXT_SUPER_PROPERTY)) EVAL_CONTEXT_SUPER_PROPERTY"
  "\<not> context_admits (Some (EVAL_CONTEXT_FIELD_INITIALIZER OR EVAL_CONTEXT_SUPER_PROPERTY)) EVAL_CONTEXT_SUPER_CALL"
  "context_admits (Some (EVAL_CONTEXT_FIELD_INITIALIZER OR EVAL_CONTEXT_SUPER_PROPERTY)) EVAL_CONTEXT_FIELD_INITIALIZER"
  "context_admits (Some EVAL_CONTEXT_SUPER_PROPERTY) EVAL_CONTEXT_SUPER_PROPERTY"
  "\<not> context_admits (Some EVAL_CONTEXT_SUPER_PROPERTY) EVAL_CONTEXT_SUPER_CALL"
  "\<not> context_admits (Some EVAL_CONTEXT_SUPER_PROPERTY) EVAL_CONTEXT_FIELD_INITIALIZER"
  "context_admits (Some (EVAL_CONTEXT_SUPER_PROPERTY OR EVAL_CONTEXT_SUPER_CALL)) EVAL_CONTEXT_SUPER_PROPERTY"
  "context_admits (Some (EVAL_CONTEXT_SUPER_PROPERTY OR EVAL_CONTEXT_SUPER_CALL)) EVAL_CONTEXT_SUPER_CALL"
  "\<not> context_admits (Some (EVAL_CONTEXT_SUPER_PROPERTY OR EVAL_CONTEXT_SUPER_CALL)) EVAL_CONTEXT_FIELD_INITIALIZER"
  by (simp_all add: context_admits_def EVAL_CONTEXT_FIELD_INITIALIZER_def EVAL_CONTEXT_SUPER_PROPERTY_def EVAL_CONTEXT_SUPER_CALL_def)

lemma member_kinds:
  "is_elem k n \<Longrightarrow> k \<in> {MethodDeclaration, GetAccessor, SetAccessor, Constructor} \<Longrightarrow>
     isFunctionLike n \<and> \<not> is_kind SourceFile n \<and> \<not> is_kind PropertyDeclaration n \<and> \<not> is_kind ClassStaticBlockDeclaration n \<and>
     \<not> is_expr ArrowFunction n \<and> \<not> is_elem PropertyAssignment n"
  by (auto simp: is_elem_def isFunctionLike_def is_kind_def further_kinds is_expr_def)

lemma owner_kinds:
  "is_kind SourceFile n \<Longrightarrow> \<not> isFunctionLike n \<and> \<not> is_kind PropertyDeclaration n \<and> \<not> is_kind ClassStaticBlockDeclaration n \<and> \<not> is_elem k n"
  "is_kind PropertyDeclaration n \<Longrightarrow> \<not> isFunctionLike n \<and> \<not> is_kind ClassStaticBlockDeclaration n \<and> \<not> is_elem k n"
  "is_kind ClassStaticBlockDeclaration n \<Longrightarrow> \<not> isFunctionLike n \<and> \<not> is_elem k n"
  "is_expr ArrowFunction n \<Longrightarrow> isFunctionLike n \<and> \<not> is_kind SourceFile n \<and> \<not> is_kind PropertyDeclaration n \<and>
     \<not> is_kind ClassStaticBlockDeclaration n \<and> \<not> is_elem k n"
  by (auto simp: is_elem_def isFunctionLike_def is_kind_def further_kinds is_expr_def)

lemma direct_eval_super:
  "eval_path c ps \<Longrightarrow>
     context_admits (Some (direct_eval_walk own c ps)) EVAL_CONTEXT_SUPER_PROPERTY = fst (super_allowed own (c, ps)) \<and>
     context_admits (Some (direct_eval_walk own c ps)) EVAL_CONTEXT_SUPER_CALL = snd (super_allowed own (c, ps))"
proof (induction own c ps rule: direct_eval_walk.induct)
  case (2 own c p ps)
  show ?case
  proof (cases "is_kind SourceFile p")
    case True
    then show ?thesis
      using owner_kinds(1) [OF True] owner_kinds(4) [of p]
      by (auto simp: super_allowed_def leaves_by_name_def context_admits_def split: option.splits)
  next
    case False
    then have path: "eval_path p ps" using 2(4) by simp
    consider "is_expr ArrowFunction p" | "\<not> is_expr ArrowFunction p" "leaves_by_name p c"
      | "\<not> is_expr ArrowFunction p" "\<not> leaves_by_name p c" by blast
    then show ?thesis
    proof cases
      case 1
      then show ?thesis using 2(1) path by (simp add: super_allowed_def)
    next
      case 2
      then show ?thesis using "2.IH"(2) path by (simp add: super_allowed_def)
    next
      case 3
      consider "is_kind PropertyDeclaration p" | "is_kind ClassStaticBlockDeclaration p" | "is_elem Constructor p"
        | "is_elem MethodDeclaration p \<or> is_elem GetAccessor p \<or> is_elem SetAccessor p" "\<not> is_elem Constructor p"
        | "\<not> is_kind PropertyDeclaration p" "\<not> is_kind ClassStaticBlockDeclaration p" "\<not> is_elem Constructor p" "\<not> is_elem MethodDeclaration p"
          "\<not> is_elem GetAccessor p" "\<not> is_elem SetAccessor p" by blast
      then show ?thesis
      proof cases
        case 1
        with 3 False owner_kinds(2) [OF 1] show ?thesis by (simp add: super_allowed_def)
      next
        case 2
        with 3 False owner_kinds(2) [of p] owner_kinds(3) [OF 2] show ?thesis by (auto simp: super_allowed_def)
      next
        case c: 3
        with 3 False member_kinds [OF c] show ?thesis by (simp add: super_allowed_def)
      next
        case 4
        with 3 False member_kinds [of _ p] show ?thesis by (auto simp: super_allowed_def)
      next
        case 5
        with 3 False "2.IH"(3) path show ?thesis by (cases "isFunctionLike p") (simp_all add: super_allowed_def)
      qed
    qed
  qed
qed simp

lemma direct_eval_arguments:
  "eval_path c ps \<Longrightarrow>
     context_admits (Some (direct_eval_walk own c ps)) EVAL_CONTEXT_FIELD_INITIALIZER = (arguments_walk own c ps \<noteq> None)"
proof (induction own c ps rule: direct_eval_walk.induct)
  case (2 own c p ps)
  show ?case
  proof (cases "is_kind SourceFile p")
    case True
    then show ?thesis
      using owner_kinds(1) [OF True] owner_kinds(4) [of p]
      by (auto simp: leaves_by_name_def context_admits_def split: option.splits)
  next
    case False
    then have path: "eval_path p ps" and
      property: "is_kind PropertyDeclaration p \<Longrightarrow> (child p ''name'' = Some c) \<noteq> (child p ''initializer'' = Some c)"
      using 2(4) by simp_all
    consider "is_expr ArrowFunction p" | "is_kind PropertyDeclaration p" | "is_kind ClassStaticBlockDeclaration p"
      | "\<not> is_expr ArrowFunction p" "isFunctionLike p"
      | "\<not> is_expr ArrowFunction p" "\<not> isFunctionLike p" "\<not> is_kind PropertyDeclaration p" "\<not> is_kind ClassStaticBlockDeclaration p" by blast
    then show ?thesis
    proof cases
      case 1
      with owner_kinds(4) [OF 1] "2.IH"(1) path show ?thesis by simp
    next
      case 2
      with owner_kinds(2) [OF 2] owner_kinds(4) [of p] property "2.IH"(2) path show ?thesis
        by (cases "child p ''name'' = Some c") (auto simp: leaves_by_name_def)
    next
      case 3
      with owner_kinds(3) [OF 3] owner_kinds(2,4) [of p] show ?thesis by (auto simp: leaves_by_name_def)
    next
      case 4
      with owner_kinds(1-3) [of p] "2.IH"(2) path show ?thesis by (auto simp: leaves_by_name_def)
    next
      case 5
      with member_kinds [of _ p] False "2.IH"(2,3) path show ?thesis by (auto simp: leaves_by_name_def)
    qed
  qed
qed simp

section \<open>Short-circuit operators in source order\<close>

function preorder_nodes :: "node \<Rightarrow> node list" where
  "preorder_nodes n = n # concat (map preorder_nodes (forEachChild n))"
  by pat_completeness auto

termination
  by (relation "measure size") (auto simp: forEachChild_size)

declare preorder_nodes.simps [simp del]

lemma mix_loop_fold: "mix_loop env stack found = fold (mix_step env) (concat (map preorder_nodes stack)) found"
proof (induction env stack found rule: mix_loop.induct)
  case (2 env n stack found)
  then show ?case by (simp add: preorder_nodes.simps [of n])
qed simp

lemma mix_fold_None:
  "fold (mix_step env) ns found = None \<longleftrightarrow> found = None \<and> list_all (\<lambda>n. mixed_operand n = None) ns"
proof (induction ns arbitrary: found)
  case (Cons n ns)
  have "is_expr BinaryExpression n" if "mixed_operand n \<noteq> None"
    using that by (auto simp: mixed_operand_def coalesce_def logical_def split: if_splits)
  then have "mix_step env n found = None \<longleftrightarrow> found = None \<and> mixed_operand n = None"
    by (cases found) (auto simp: mix_step_def split: option.splits)
  with Cons show ?case by auto
qed simp

lemma earlyShortCircuitMixFailure_None:
  "earlyShortCircuitMixFailure env source = None \<longleftrightarrow> list_all (\<lambda>n. mixed_operand n = None) (preorder_nodes source)"
  by (simp add: earlyShortCircuitMixFailure_def mix_loop_fold mix_fold_None)

section \<open>Properties\<close>


text \<open>\<open>async function f(a) { await a; }\<close> in a script\<close>

definition example_function_source :: function_source where
  "example_function_source = \<lparr>control = example_control_source, source_text = [], node_start = node_id, parameters_end = node_id,
     scan_close_paren = (\<lambda>_ _. None), token_string = (\<lambda>_. [])\<rparr>"

definition example_await :: node where
  "example_await = example_tree 9 (Expression AwaitExpression) [] [(''expression'', example_tree 10 Identifier ''a'' [])]"

definition example_async_function :: node where
  "example_async_function = example_tree 2 (Statement FunctionDeclaration) []
     [(''modifiers'', example_tree 3 (Token AsyncKeyword) [] []), (''name'', example_tree 4 Identifier ''f'' []),
      (''parameters'', example_tree 5 Parameter [] [(''name'', example_tree 6 Identifier ''a'' [])]),
      (''body'', example_tree 7 (Statement Block) [] [(''statements'', example_tree 8 (Statement ExpressionStatement) []
         [(''expression'', example_await)])])]"

definition example_async_source :: node where
  "example_async_source = example_tree 1 SourceFile [] [(''statements'', example_async_function)]"



text \<open>\<open>class C extends B { constructor() { eval(""); } }\<close>, at the call\<close>

definition example_eval_call :: node where
  "example_eval_call = example_tree 9 (Expression CallExpression) [] [(''expression'', example_tree 10 Identifier ''eval'' [])]"

definition example_derived_constructor :: node where
  "example_derived_constructor = example_tree 6 (Element Constructor) [] [(''body'', example_tree 7 (Statement Block) []
     [(''statements'', example_tree 8 (Statement ExpressionStatement) [] [(''expression'', example_eval_call)])])]"

definition example_derived_class :: node where
  "example_derived_class = example_tree 2 (Statement ClassDeclaration) []
     [(''name'', example_tree 3 Identifier ''C'' []),
      (''heritageClauses'', Node 4 HeritageClause ExtendsKeyword [] 0 None [(''types'', example_tree 5 ExpressionWithTypeArguments []
         [(''expression'', example_tree 11 Identifier ''B'' [])])]),
      (''members'', example_derived_constructor)]"

definition example_eval_site :: located where
  "example_eval_site = (example_eval_call, [example_tree 8 (Statement ExpressionStatement) [] [(''expression'', example_eval_call)],
     field example_derived_constructor ''body'', example_derived_constructor, example_derived_class,
     example_tree 1 SourceFile [] [(''statements'', example_derived_class)]])"


end
