(* ===== verification/Regexp_Escape.thy ===== *)
theory Regexp_Escape
  imports CBuf JS_String
begin

text \<open>
  The constant evaluation of \<open>RegExp.escape\<close>, after \<open>regexp-escape.ts\<close>, and a reader of regular-expression
  pattern text: the escaped text is read atom by atom as the code units of the string.
\<close>

section \<open>Escaping\<close>

text \<open>Iteration of a string yields its code points, each as a string of one or two code units.\<close>

definition characters :: "js_string \<Rightarrow> js_string list" where
  "characters s = map code_point_units (code_points s)"

text \<open>The code units of \<open>^$\.*+?()[]{}|/\<close> and of the other punctuators that are written as numbers.\<close>

definition syntax_units :: js_string where
  "syntax_units = [0x5e, 0x24, 0x5c, 0x2e, 0x2a, 0x2b, 0x3f, 0x28, 0x29, 0x5b, 0x5d, 0x7b, 0x7d, 0x7c, 0x2f]"

definition punctuator_units :: js_string where
  "punctuator_units = js '',-=<>#&!%:;@~'' @ [0x27, 0x60, 0x22]"

definition control_letters :: "(code_unit \<times> code_unit) list" where
  "control_letters = [(9, 0x74), (0xa, 0x6e), (0xb, 0x76), (0xc, 0x66), (0xd, 0x72)]"

definition is_alphanumeric :: "code_unit \<Rightarrow> bool" where
  "is_alphanumeric u \<longleftrightarrow> is_digit u \<or> is_upper_letter u \<or> is_lower_letter u"

definition hex_escape :: "code_unit \<Rightarrow> js_string" where
  "hex_escape u = js (CHR 0x5C # CHR ''x'' # pad_start 2 (CHR ''0'') (to_radix 16 (unat u)))"

definition unicode_unit_escape :: "code_unit \<Rightarrow> js_string" where
  "unicode_unit_escape u = js (CHR 0x5C # CHR ''u'' # pad_start 4 (CHR ''0'') (to_radix 16 (unat u)))"

text \<open>One turn of the loop: what is pushed for a character. A character of two code units is in none of the classes.\<close>

definition escape_character :: "bool \<Rightarrow> js_string \<Rightarrow> js_string" where
  "escape_character first c =
     (let u = hd c in
      if first \<and> length c = 1 \<and> is_alphanumeric u then hex_escape u
      else if length c = 1 \<and> u \<in> set syntax_units then [0x5c, u]
      else case (if length c = 1 then map_of control_letters u else None) of
             Some letter \<Rightarrow> [0x5c, letter]
           | None \<Rightarrow>
               if length c = 1 \<and> (u \<in> set punctuator_units \<or> is_js_space u \<or> (0xd800 \<le> u \<and> u \<le> 0xdfff))
               then (if u \<le> 0xff then hex_escape u else unicode_unit_escape u)
               else c)"

fun escape_loop :: "js_string list \<Rightarrow> js_string list \<Rightarrow> js_string list" where
  "escape_loop pushed [] = pushed"
| "escape_loop pushed (c # cs) = escape_loop (pushed @ [escape_character (pushed = []) c]) cs"

definition escapeRegExpString :: "js_string \<Rightarrow> js_string" where
  "escapeRegExpString input = concat (escape_loop [] (characters input))"

section \<open>Reading pattern text\<close>

text \<open>
  One atom of a pattern that matches a single code unit (ECMA-262 22.2.1 without the flag \<open>u\<close>): an identity
  escape of a syntax character, a control escape, a hexadecimal escape, or the unit itself when it has no
  meaning in patterns or classes and cannot end a literal.
\<close>

definition hex_digit :: "code_unit \<Rightarrow> nat option" where
  "hex_digit u =
     (if is_digit u then Some (unat u - 0x30)
      else if 0x61 \<le> u \<and> u \<le> 0x66 then Some (unat u - 0x57)
      else if 0x41 \<le> u \<and> u \<le> 0x46 then Some (unat u - 0x37)
      else None)"

definition read_hex :: "nat \<Rightarrow> js_string \<Rightarrow> (code_unit \<times> js_string) option" where
  "read_hex k s =
     (if k \<le> length s \<and> list_all (\<lambda>u. hex_digit u \<noteq> None) (take k s)
      then Some (word_of_nat (digits_value 16 (map (the \<circ> hex_digit) (take k s))), drop k s) else None)"

definition plain_unit :: "code_unit \<Rightarrow> bool" where
  "plain_unit u \<longleftrightarrow> u \<notin> set syntax_units \<and> u \<notin> set punctuator_units \<and> \<not> is_js_space u"

fun read_pattern :: "js_string \<Rightarrow> (code_unit \<times> js_string) option" where
  "read_pattern [] = None"
| "read_pattern (u # s) =
     (if u \<noteq> 0x5c then (if plain_unit u then Some (u, s) else None)
      else case s of
             [] \<Rightarrow> None
           | e # t \<Rightarrow>
               if e \<in> set syntax_units then Some (e, t)
               else if e = 0x78 then read_hex 2 t
               else if e = 0x75 then read_hex 4 t
               else map_option (\<lambda>v. (v, t)) (map_of (map (\<lambda>(v, l). (l, v)) control_letters) e))"

definition pattern_units :: "js_string \<Rightarrow> js_string option" where
  "pattern_units p = read_all read_pattern (length p) p"

lemma hex_digit_char: "d < 16 \<Longrightarrow> hex_digit (word_of_nat (of_char (digit_char d))) = Some d"
  by (auto simp: digit_char_def of_char_of hex_digit_def is_digit_def word_le_nat_alt unat_of_nat)

lemma read_hex_digits:
  assumes "unat u < 16 ^ k" "0 < k"
  shows "read_hex k (js (pad_start k (CHR ''0'') (to_radix 16 (unat u))) @ r) = Some (u, r)"
proof -
  let ?ds = "pad_start k (CHR ''0'') (to_radix 16 (unat u))"
  have len: "length (js ?ds) = k" using pad_start_width [OF _ assms] by (simp add: js_def)
  have digit: "hex_digit (word_of_nat (of_char c)) = Some (char_digit c)" if "c \<in> set ?ds" for c
    using pad_start_digits [of 16 c k "unat u"] that by (auto simp: zero_char hex_digit_char)
  then have "list_all (\<lambda>u. hex_digit u \<noteq> None) (js ?ds)" by (auto simp: js_def list_all_iff)
  moreover have "map (the \<circ> hex_digit) (js ?ds) = map char_digit ?ds"
    using digit by (simp add: js_def)
  moreover have "digits_value 16 (map char_digit ?ds) = unat u"
    using pad_start_inverse [of 16 k "unat u"] by (simp add: zero_char)
  moreover have "take k (js ?ds @ r) = js ?ds" "drop k (js ?ds @ r) = r" "k \<le> length (js ?ds @ r)" using len by simp_all
  ultimately show ?thesis unfolding read_hex_def by (simp only: if_True simp_thms word_of_nat_unat)
qed

lemma escape_letters:
  "(0x78 :: code_unit) \<notin> set syntax_units" "(0x75 :: code_unit) \<notin> set syntax_units" "js [CHR 0x5C] = [0x5c]"
  by code_simp+

lemma read_hex_escape: "unat u < 256 \<Longrightarrow> read_pattern (hex_escape u @ r) = Some (u, r)"
  using read_hex_digits [of u 2 r] escape_letters by (simp add: hex_escape_def js_def)

lemma read_unicode_unit: "read_pattern (unicode_unit_escape u @ r) = Some (u, r)"
  using read_hex_digits [of u 4 r] escape_letters by (simp add: unicode_unit_escape_def js_def)

lemma control_units:
  "u \<noteq> 0x5c" "l \<noteq> 0x78" "l \<noteq> 0x75" "l \<notin> set syntax_units"
  "map_of (map (\<lambda>(v, l). (l, v)) control_letters) l = Some u"
  if "map_of control_letters u = Some l" for u l :: code_unit
  using that by (auto simp: control_letters_def syntax_units_def split: if_splits)

lemma alphanumeric_small: "is_alphanumeric u \<Longrightarrow> unat u < 256"
  by (auto simp: is_alphanumeric_def is_digit_def is_upper_letter_def is_lower_letter_def word_le_nat_alt)

lemma read_escaped_unit: "read_pattern (escape_character first [u] @ r) = Some (u, r)"
proof -
  have low: "unat u < 256" if "u \<le> 0xff" using that by (simp add: word_le_nat_alt)
  have plain: "read_pattern ([u] @ r) = Some (u, r)"
    if "u \<notin> set syntax_units" "u \<notin> set punctuator_units" "\<not> is_js_space u"
  proof -
    have "u \<noteq> 0x5c" using that(1) by (auto simp: syntax_units_def)
    with that show ?thesis by (simp add: plain_unit_def)
  qed
  show ?thesis
    unfolding escape_character_def Let_def
    using read_hex_escape [of u r] alphanumeric_small [of u] low plain read_unicode_unit [of u r] control_units [of u]
    by (auto split: option.split)
qed

interpretation regexp: prefix_code "\<lambda>_. True" "\<lambda>u. escape_character False [u]" read_pattern
proof
  fix u r
  show "read_pattern (escape_character False [u] @ r) = Some (u, r)" by (rule read_escaped_unit)
  show "escape_character False [u] \<noteq> []" using read_escaped_unit [of False u "[]"] by auto
qed

text \<open>A pair of surrogates is copied: neither unit has a meaning in patterns.\<close>

lemma surrogate_plain: "0xd800 \<le> u \<Longrightarrow> u \<le> 0xdfff \<Longrightarrow> u \<noteq> 0x5c \<and> plain_unit u" for u :: code_unit
  by (auto simp: plain_unit_def syntax_units_def punctuator_units_def is_js_space_def js_def word_le_nat_alt)

lemma character_cases:
  assumes "c \<in> set (characters s)"
  obtains u where "c = [u]"
  | u v where "c = [u, v]" "0xd800 \<le> u" "u \<le> 0xdfff" "0xd800 \<le> v" "v \<le> 0xdfff"
proof -
  obtain cp where cp: "c = code_point_units cp" "cp < 0x110000"
    using assms code_points_valid [of s] by (auto simp: characters_def list_all_iff)
  show thesis
  proof (cases "cp < 0x10000")
    case True
    then show ?thesis using cp that(1) by (simp add: code_point_units_def)
  next
    case False
    have "(cp - 0x10000) div 1024 < 1024" using cp(2) by (simp add: less_mult_imp_div_less)
    then show ?thesis using False cp that(2)
      by (simp add: code_point_units_def word_le_nat_alt unat_of_nat unat_word_ariths)
  qed
qed

lemma read_escaped_character:
  assumes "c \<in> set (characters s)"
  shows "read_n read_pattern (length c) (escape_character first c @ r) = Some (c, r)"
  using assms
proof (cases rule: character_cases)
  case (1 u)
  then show ?thesis by (simp add: read_escaped_unit)
next
  case (2 u v)
  then show ?thesis using surrogate_plain [of u] surrogate_plain [of v] by (simp add: escape_character_def)
qed

lemma read_all_read_n:
  "rd [] = None \<Longrightarrow> read_n rd k s = Some (as, s') \<Longrightarrow> read_all rd n s' = Some bs \<Longrightarrow>
   read_all rd (k + n) s = Some (as @ bs)"
proof (induction k arbitrary: s as)
  case (Suc k)
  then show ?case by (cases s) (auto split: option.splits)
qed simp

lemma length_escape_character:
  assumes "c \<in> set (characters s)"
  shows "length c \<le> length (escape_character first c)"
  using assms
proof (cases rule: character_cases)
  case (1 u)
  then show ?thesis using read_escaped_unit [of first u "[]"] by (cases "escape_character first [u]") auto
next
  case (2 u v)
  then show ?thesis by (simp add: escape_character_def)
qed

lemma escape_loop_pieces:
  assumes "set cs \<subseteq> set (characters s)"
  shows "\<exists>ps. escape_loop pushed cs = pushed @ ps \<and> length (concat cs) \<le> length (concat ps) \<and>
    (\<forall>n\<ge>length (concat cs). read_all read_pattern n (concat ps) = Some (concat cs))"
  using assms
proof (induction cs arbitrary: pushed)
  case (Cons c cs)
  let ?e = "escape_character (pushed = []) c"
  have "set cs \<subseteq> set (characters s)" using Cons.prems by simp
  then obtain ps where ps: "escape_loop (pushed @ [?e]) cs = (pushed @ [?e]) @ ps" "length (concat cs) \<le> length (concat ps)"
      "\<forall>n\<ge>length (concat cs). read_all read_pattern n (concat ps) = Some (concat cs)"
    using Cons.IH by metis
  have c: "c \<in> set (characters s)" using Cons.prems by simp
  have "read_all read_pattern n (?e @ concat ps) = Some (c @ concat cs)" if "length (c @ concat cs) \<le> n" for n
  proof -
    have n: "length c + (n - length c) = n" "length (concat cs) \<le> n - length c" using that by simp_all
    have "read_all read_pattern (n - length c) (concat ps) = Some (concat cs)" using ps(3) n(2) by blast
    from read_all_read_n [OF _ read_escaped_character [OF c] this] show ?thesis unfolding n(1) by simp
  qed
  with ps(1,2) length_escape_character [OF c, of "pushed = []"] show ?case
    by (intro exI [of _ "?e # ps"]) simp
qed simp

lemma escape_starts:
  assumes "c \<in> set (characters s)"
  shows "list_all (\<lambda>u. \<not> is_alphanumeric u) (take 1 (escape_character True c))"
proof -
  have bs: "\<not> is_alphanumeric 0x5c" by code_simp
  have surrogate: "\<not> is_alphanumeric u" if "0xd800 \<le> u" for u
    using that by (auto simp: is_alphanumeric_def is_digit_def is_upper_letter_def is_lower_letter_def word_le_nat_alt)
  show ?thesis
    using assms
  proof (cases rule: character_cases)
    case (1 u)
    with bs show ?thesis
      by (auto simp: escape_character_def hex_escape_def unicode_unit_escape_def js_def split: option.split)
  next
    case (2 u v)
    with surrogate show ?thesis by (simp add: escape_character_def)
  qed
qed

section \<open>Properties\<close>


end
