(* ===== verification/Spec2Isabelle.thy ===== *)
theory Spec2Isabelle
  imports CBuf Mangle Json_Grammar Module_Exports Async_Ir Resumable_Graph Tail_Position Async_Cfg_Total Net_Policy Module_Request Choice_Tuples CommonJs_Resolve Reaching_Fuel Reaching_Solver Native_Toolchain Completion_Soundness Function_Static_Semantics Regexp_Escape
begin

text \<open>
  \<^bold>\<open>The program.\<close> \<open>tsc2c\<close> (\<open>src/src/\<close>) compiles TypeScript ahead of time to C. \<open>cli.ts\<close> and \<open>compile.ts\<close>
  drive it; \<open>program.ts\<close> and \<open>resolve.ts\<close> load the sources with the TypeScript compiler and build the
  module graph; the static-semantics files reject early errors; \<open>source-value-flow.ts\<close> and
  \<open>module-specifiers.ts\<close> analyse values; \<open>emit/index.ts\<close> writes C text through \<open>emit/cbuf.ts\<close>, after
  \<open>emit/async-cfg.ts\<close> and \<open>emit/resumable-expression.ts\<close> have turned bodies that suspend into
  state graphs; \<open>link/\<close> runs the C compiler and compiles in the network policy.

  \<^bold>\<open>Conventions.\<close> Strings of the program are lists of 16-bit code units (\<open>js_string\<close>) where the code looks
  at their characters, and character lists where it only compares them. A syntax tree is the datatype
  \<open>node\<close> of \<open>TS_Ast\<close>; nodes have identities because the code keys maps by node objects, and accessor
  functions of the TypeScript API are lookups of named children. \<open>null\<close> and \<open>undefined\<close> are \<open>None\<close>, thrown
  errors and error results are sums or constructors of a result type. Objects with mutable fields are
  records threaded by the state monad. Host services (file system, paths, \<open>isIP\<close>, the checker's symbols,
  source positions) are fields of environment records, and the properties name what they rely on.
  Loops that are not structural carry fuel unless a termination proof makes them total.

  \<^bold>\<open>Theories.\<close>
  \<^item> \<open>TSC_Prelude\<close>: code units, number printing, insertion-ordered sets; the interface \<open>prefix_code\<close> of
    encoders that can be read back (interpreted for identifiers, WTF-8, C literals, JSON strings and
    attribute pairs) and the interface \<open>worklist_loop\<close> of searches (interpreted for the module graph).
    \<open>JS_String\<close>: splitting, trimming, searching and decimal numbers of JavaScript strings.
  \<^item> \<open>CBuf\<close> (\<open>emit/cbuf.ts\<close>): the output buffer prints exactly the block structure of properly nested calls;
    an escaped string is a C literal whose bytes are the WTF-8 encoding of the string, without trigraphs.
  \<^item> \<open>Mangle\<close> (\<open>emit/mangle.ts\<close>): mangled names are C identifiers and mangling is injective.
  \<^item> \<open>Json_Syntax\<close>, \<open>Json_Grammar\<close> (\<open>json-syntax.ts\<close>): the validator always returns and accepts exactly the
    texts of the JSON grammar; reported offsets lie in the source.
  \<^item> \<open>Module_Exports\<close> (\<open>module-export-resolution.ts\<close>): resolution of exports on finite module graphs returns
    and computes the recursive ResolveExport of ECMA-262; exported names are those reachable over stars.
  \<^item> \<open>Module_Request\<close> (\<open>module-request.ts\<close>): requests, their identity through JSON keys, their accumulation as
    a refinement of the list accumulation of ECMA-262, the host's check, the search for \<open>import()\<close> calls.
  \<^item> \<open>CommonJs_Resolve\<close> (\<open>commonjs-resolve.ts\<close>): package maps, conditions and patterns; what an exports map
    can resolve to, which pattern wins, that the upward search ends at the nearest package.
  \<^item> \<open>Net_Policy\<close> (\<open>link/net-policy.ts\<close>): parsed rules cannot break out of the generated C table, the table
    reads back as the policy, the loops compute the rules of all entries without duplicates.
  \<^item> \<open>Choice_Tuples\<close> (\<open>source-choice-tuples.ts\<close>): the odometer enumerates the product.
  \<^item> \<open>TS_Ast\<close>: nodes, flags, children, sizes. \<open>Definition_Evaluation\<close> (\<open>emit/class-definition.ts\<close>,
    \<open>emit/module-evaluation.ts\<close>, \<open>emit/lexical-declarations.ts\<close>), \<open>Binding_Tree\<close> (\<open>emit/binding-tree.ts\<close>),
    \<open>Tail_Position\<close> (\<open>tail-position.ts\<close>), \<open>Async_Ir\<close> (\<open>emit/async-ir.ts\<close>): what is evaluated at definition
    time, the correspondence of assignment targets and bindings, tail calls, the statement graph.
  \<^item> \<open>Resumable_Expression\<close>, \<open>Resumable_Fuel\<close>, \<open>Resumable_Graph\<close> (\<open>emit/resumable-expression.ts\<close>): the planner of
    suspending expressions returns for every expression, and a returned graph is well formed.
  \<^item> \<open>Async_Cfg\<close>, \<open>Async_Cfg_Statements\<close>, \<open>Async_Cfg_Graph\<close>, \<open>Async_Cfg_Reach\<close>, \<open>Async_Cfg_Wf\<close>,
    \<open>Async_Cfg_Errors\<close> (\<open>emit/async-cfg.ts\<close>): the control-flow planner with its expression, binding and
    statement layers, finalization regions and publication; a published graph has unique identifiers,
    is closed under successors, holds exactly the reachable states and only allocated slots; one error
    path on which the planner throws. \<open>Resumable_Bindings\<close>, \<open>Async_Cfg_Agree\<close>, \<open>Async_Cfg_Fuel\<close>,
    \<open>Async_Cfg_Total\<close>: two runs of the planner that differ in their fuel are compared action by action, and
    with the fuel that the source needs they are equal.
  \<^item> \<open>Reaching_Graph\<close>, \<open>Reaching_Bounds\<close>, \<open>Reaching_Fuel\<close>, \<open>Reaching_Solver\<close> (\<open>source-reaching-writes.ts\<close>):
    the flow graph of a frame, that its construction ends within bounds, and that the solver computes
    exactly the stores that can come last on a path to a read.

  \<^item> \<open>TS_Located\<close>: nodes with their ancestors, the two orders of the worklists, first failures.
    \<open>Private_Names\<close> (\<open>emit/private-names.ts\<close>), \<open>Name_Collections\<close> and \<open>Module_Static_Semantics\<close>
    (\<open>module-static-semantics.ts\<close>), \<open>Control_Static_Semantics\<close> (\<open>control-static-semantics.ts\<close>): a source passes
    the checks of private names and of modules exactly when it obeys the rules of ECMA-262, written as
    predicates over the tree; the two checks of private identifiers agree in one direction; in a source
    that passes the control-flow check every jump has its target.
  \<^item> \<open>Body_Completions\<close>, \<open>Completion_Soundness\<close> (\<open>statementBodyCompletions\<close> of \<open>function-static-semantics.ts\<close>): the
    analysis that finds how a body can complete, and its soundness for a big-step semantics of statements:
    every completion of an evaluation is listed and every statement that an evaluation starts is marked
    reachable. \<open>Function_Static_Semantics\<close> (the rest of the file and \<open>eval-context.ts\<close>): the early errors of
    functions and classes, what a source without them satisfies, and that the context computed for a direct
    \<open>eval\<close> agrees with the placement rules of \<open>super\<close>.
  \<^item> \<open>Regexp_Escape\<close> (\<open>regexp-escape.ts\<close>): the text that \<open>RegExp.escape\<close> makes of a string is read as the atoms
    of the string.
  \<^item> \<open>Hardening\<close>, \<open>Native_Toolchain\<close> (\<open>link/hardening.ts\<close>, \<open>link/cc.ts\<close>): probing of mitigations, the cache of
    probes as an invariant of a session, and what ran when a build reports success.

  \<^bold>\<open>Fuel.\<close> The worklist of the expression planner, the export resolution, the reachability search, the
  construction of the flow graph, its solver and the tuple generator are proved to return with the fuel
  they are given; the reachability search uses the number of states plus two, the solver
  \<open>n * (n + 1)\<close> for \<open>n\<close> points, the construction eight times the size of the body. The search for reachable statements in
  \<open>Body_Completions\<close> carries no fuel; \<open>live_loop_total\<close> shows that it returns. The recursion of the
  control-flow planner takes its fuel as an argument and reports \<open>CfgOutOfFuel\<close>; \<open>Async_Cfg_Total\<close> shows that
  from ten times the size of the body and a square of the size of the expressions on, it never does and more
  fuel does not change the plan.

  \<^bold>\<open>Not modelled.\<close> The C emitter (\<open>emit/index.ts\<close>) and the emitted types, whose meaning is that of the
  generated C and the runtime library; the value-flow analysis and the specifier analysis over the
  symbols of the TypeScript checker; program construction and the driver, which are glue around the
  TypeScript compiler and the file system; the early errors of regular expressions and the functions of
  Annex B; the tables read from the runtime's definition files; the C runtime, the declarations of the standard library and the tests.
  Text ranges and parent links of synthesized nodes are not part of the tree model.
\<close>

end
